(* ===== verification/Prelude.thy ===== *)
theory Prelude
  imports Main "HOL-Library.Word" "HOL-Library.Char_ord" "HOL-Library.List_Lexorder"
begin

text \<open>
  Shared vocabulary of the development: the types that stand for identifiers and instants, the
  result type of fallible code, the parts of Rust's standard library the modelled crates use
  (\<open>str\<close>, \<open>BTreeMap\<close>, integer parsing) and the generic lemmas about them.

  A Rust \<open>str\<close> is a HOL \<open>string\<close>, one HOL \<open>char\<close> per Rust \<open>char\<close>; the HOL characters
  are the code points below 256. Where the code counts bytes (\<open>str::len\<close>) the model uses
  \<open>str_len\<close>, which counts the UTF-8 bytes of those code points.
\<close>

named_theorems str_simps \<open>facts that evaluate or normalise the string operations\<close>
named_theorems map_simps \<open>facts about ordered maps kept as sorted association lists\<close>

type_synonym uuid = nat
type_synonym instant = int  \<comment> \<open>an \<open>OffsetDateTime\<close> in UTC, in nanoseconds\<close>

definition seconds :: "int \<Rightarrow> instant" where
  "seconds n = n * 1000000000"

subsection \<open>Results\<close>

text \<open>\<open>Result<T, E>\<close> is \<open>'e + 'a\<close> with \<open>Inl\<close> for \<open>Err\<close>; \<open>res_bind\<close> is the \<open>?\<close> operator.\<close>

definition res_bind :: "'e + 'a \<Rightarrow> ('a \<Rightarrow> 'e + 'b) \<Rightarrow> 'e + 'b" where
  "res_bind r f = (case r of Inl e \<Rightarrow> Inl e | Inr x \<Rightarrow> f x)"

lemma res_bind_simps [simp]:
  "res_bind (Inl e) f = Inl e"
  "res_bind (Inr x) f = f x"
  by (simp_all add: res_bind_def)

lemma res_bind_Inr_conv: "res_bind r f = Inr y \<longleftrightarrow> (\<exists>x. r = Inr x \<and> f x = Inr y)"
  by (cases r) simp_all

definition ok_or :: "'e \<Rightarrow> 'a option \<Rightarrow> 'e + 'a" where
  "ok_or e v = (case v of None \<Rightarrow> Inl e | Some x \<Rightarrow> Inr x)"

lemma ok_or_simps [simp]: "ok_or e None = Inl e" "ok_or e (Some x) = Inr x"
  by (simp_all add: ok_or_def)

text \<open>\<open>iter().map(f).collect::<Result<Vec<_>, _>>()\<close>: the first error wins.\<close>

fun collect_results :: "('e + 'a) list \<Rightarrow> 'e + 'a list" where
  "collect_results [] = Inr []"
| "collect_results (r # rs) =
     res_bind r (\<lambda>x. res_bind (collect_results rs) (\<lambda>xs. Inr (x # xs)))"

lemma collect_results_map_Inr [simp]: "collect_results (map (\<lambda>x. Inr (f x)) xs) = Inr (map f xs)"
  by (induction xs) simp_all

lemma collect_results_Inr_map: "(\<And>x. x \<in> set xs \<Longrightarrow> g x = Inr (f x)) \<Longrightarrow>
  collect_results (map g xs) = Inr (map f xs)"
  by (induction xs) simp_all

text \<open>\<open>iter().find(p)\<close> is HOL's \<open>find\<close>; two facts the components share.\<close>

lemma find_Some_mem: "find P xs = Some x \<Longrightarrow> x \<in> set xs \<and> P x"
  by (induction xs) (auto split: if_splits)

lemma find_snoc: "find P (xs @ [x]) = (case find P xs of None \<Rightarrow> if P x then Some x else None | Some y \<Rightarrow> Some y)"
  by (induction xs) simp_all

lemma find_append_Some: "find P xs = Some x \<Longrightarrow> find P (xs @ ys) = Some x"
  by (induction xs) (auto split: if_split_asm)

lemma find_None_all: "find P xs = None \<longleftrightarrow> (\<forall>x \<in> set xs. \<not> P x)"
  by (induction xs) auto

text \<open>A stable sort followed by taking the first element picks a minimum.\<close>

lemma sort_key_Cons_min:
  assumes "sort_key f xs = y # ys"
  shows "y \<in> set xs" and "\<And>x. x \<in> set xs \<Longrightarrow> f y \<le> f x"
proof -
  have set: "set xs = set (y # ys)" using assms by (metis set_sort)
  have "sorted (map f (y # ys))" using assms by (metis sorted_sort_key)
  with set show "y \<in> set xs" and "\<And>x. x \<in> set xs \<Longrightarrow> f y \<le> f x" by auto
qed

lemma sort_key_Nil_iff: "sort_key f xs = [] \<longleftrightarrow> xs = []"
  by (metis set_empty set_sort)

lemma notin_ConsD: "x \<notin> set (c # cs) \<Longrightarrow> c \<noteq> x \<and> x \<notin> set cs"
  by auto

subsection \<open>Strings\<close>

definition code :: "char \<Rightarrow> nat" where
  "code c = of_char c"

definition is_whitespace :: "char \<Rightarrow> bool" where
  "is_whitespace c = (9 \<le> code c \<and> code c \<le> 13 \<or> code c = 32 \<or> code c = 133 \<or> code c = 160)"

definition is_ascii_lowercase :: "char \<Rightarrow> bool" where
  "is_ascii_lowercase c = (97 \<le> code c \<and> code c \<le> 122)"

definition is_ascii_uppercase :: "char \<Rightarrow> bool" where
  "is_ascii_uppercase c = (65 \<le> code c \<and> code c \<le> 90)"

definition is_ascii_digit :: "char \<Rightarrow> bool" where
  "is_ascii_digit c = (48 \<le> code c \<and> code c \<le> 57)"

definition is_ascii_alphabetic :: "char \<Rightarrow> bool" where
  "is_ascii_alphabetic c = (is_ascii_lowercase c \<or> is_ascii_uppercase c)"

definition is_ascii_alphanumeric :: "char \<Rightarrow> bool" where
  "is_ascii_alphanumeric c = (is_ascii_alphabetic c \<or> is_ascii_digit c)"

text \<open>\<open>str::to_lowercase\<close> on code points below 256, and the ASCII-only variants.\<close>

definition lower_char :: "char \<Rightarrow> char" where
  "lower_char c =
     (if is_ascii_uppercase c \<or> 192 \<le> code c \<and> code c \<le> 222 \<and> code c \<noteq> 215
      then char_of (code c + 32) else c)"

definition to_lowercase :: "string \<Rightarrow> string" where
  "to_lowercase s = map lower_char s"

definition to_ascii_lowercase :: "string \<Rightarrow> string" where
  "to_ascii_lowercase s = map (\<lambda>c. if is_ascii_uppercase c then char_of (code c + 32) else c) s"

definition to_ascii_uppercase :: "string \<Rightarrow> string" where
  "to_ascii_uppercase s = map (\<lambda>c. if is_ascii_lowercase c then char_of (code c - 32) else c) s"

definition eq_ignore_ascii_case :: "string \<Rightarrow> string \<Rightarrow> bool" where
  "eq_ignore_ascii_case a b = (to_ascii_lowercase a = to_ascii_lowercase b)"

definition str_len :: "string \<Rightarrow> nat" where
  "str_len s = sum_list (map (\<lambda>c. if code c < 128 then 1 else 2) s)"

definition trim_start :: "string \<Rightarrow> string" where
  "trim_start s = dropWhile is_whitespace s"

definition trim_end :: "string \<Rightarrow> string" where
  "trim_end s = rev (dropWhile is_whitespace (rev s))"

definition trim :: "string \<Rightarrow> string" where
  "trim s = trim_end (trim_start s)"

definition trim_end_matches :: "char \<Rightarrow> string \<Rightarrow> string" where
  "trim_end_matches c s = rev (dropWhile (\<lambda>x. x = c) (rev s))"

definition trim_start_matches :: "char \<Rightarrow> string \<Rightarrow> string" where
  "trim_start_matches c s = dropWhile (\<lambda>x. x = c) s"

definition starts_with :: "string \<Rightarrow> string \<Rightarrow> bool" where
  "starts_with s p = (take (length p) s = p)"

definition ends_with :: "string \<Rightarrow> string \<Rightarrow> bool" where
  "ends_with s p = (length p \<le> length s \<and> drop (length s - length p) s = p)"

definition strip_prefix :: "string \<Rightarrow> string \<Rightarrow> string option" where
  "strip_prefix p s = (if starts_with s p then Some (drop (length p) s) else None)"

text \<open>\<open>str::find\<close> of a needle: the offset of the first occurrence.\<close>

fun str_find :: "string \<Rightarrow> string \<Rightarrow> nat option" where
  "str_find [] p = (if p = [] then Some 0 else None)"
| "str_find (x # xs) p = (if starts_with (x # xs) p then Some 0 else map_option Suc (str_find xs p))"

definition str_contains :: "string \<Rightarrow> string \<Rightarrow> bool" where
  "str_contains s p = (str_find s p \<noteq> None)"

text \<open>\<open>str::split(c)\<close>: always at least one piece.\<close>

fun split_on :: "char \<Rightarrow> string \<Rightarrow> string list" where
  "split_on c [] = [[]]"
| "split_on c (x # xs) =
     (if x = c then [] # split_on c xs
      else (case split_on c xs of [] \<Rightarrow> [[x]] | y # ys \<Rightarrow> (x # y) # ys))"

fun split_once :: "char \<Rightarrow> string \<Rightarrow> (string \<times> string) option" where
  "split_once c [] = None"
| "split_once c (x # xs) =
     (if x = c then Some ([], xs) else map_option (\<lambda>(a, b). (x # a, b)) (split_once c xs))"

text \<open>\<open>str::split_whitespace\<close>: the non-empty runs between white space.\<close>

fun split_whitespace_aux :: "string \<Rightarrow> string \<Rightarrow> string list" where
  "split_whitespace_aux acc [] = (if acc = [] then [] else [rev acc])"
| "split_whitespace_aux acc (x # xs) =
     (if is_whitespace x then (if acc = [] then [] else [rev acc]) @ split_whitespace_aux [] xs
      else split_whitespace_aux (x # acc) xs)"

definition split_whitespace :: "string \<Rightarrow> string list" where
  "split_whitespace s = split_whitespace_aux [] s"

fun str_join :: "string \<Rightarrow> string list \<Rightarrow> string" where
  "str_join sep [] = []"
| "str_join sep [x] = x"
| "str_join sep (x # y # ys) = x @ sep @ str_join sep (y # ys)"

lemma split_on_not_Nil [simp]: "split_on c s \<noteq> []"
  by (induction s) (auto split: list.splits)

lemma split_on_no_sep: "c \<notin> set s \<Longrightarrow> split_on c s = [s]"
  by (induction s) auto

lemma split_on_append: "c \<notin> set a \<Longrightarrow> split_on c (a @ c # b) = a # split_on c b"
  by (induction a) auto

lemma split_on_pieces: "p \<in> set (split_on c s) \<Longrightarrow> c \<notin> set p"
  by (induction s arbitrary: p) (auto split: list.splits if_splits)

lemma split_on_join: "(\<And>p. p \<in> set ps \<Longrightarrow> c \<notin> set p) \<Longrightarrow> ps \<noteq> [] \<Longrightarrow>
  split_on c (str_join [c] ps) = ps"
proof (induction "[c]" ps rule: str_join.induct)
  case (3 x y ys)
  then have "split_on c (str_join [c] (y # ys)) = y # ys" and "c \<notin> set x" by auto
  then show ?case by (simp add: split_on_append)
qed (auto simp: split_on_no_sep)

lemma split_once_Some: "split_once c s = Some (a, b) \<Longrightarrow> s = a @ c # b \<and> c \<notin> set a"
  by (induction s arbitrary: a) (auto split: if_splits)

lemma split_once_append [simp]: "c \<notin> set a \<Longrightarrow> split_once c (a @ c # b) = Some (a, b)"
  by (induction a) auto

lemma append_sep_eq:
  fixes c :: char
  assumes "c \<notin> set a" and "c \<notin> set b"
  shows "a @ c # x = b @ c # y \<longleftrightarrow> a = b \<and> x = y"
proof
  assume "a @ c # x = b @ c # y"
  then have "split_once c (a @ c # x) = split_once c (b @ c # y)" by (rule arg_cong)
  then show "a = b \<and> x = y" unfolding split_once_append[OF assms(1)] split_once_append[OF assms(2)] by simp
qed simp

lemma split_once_None: "split_once c s = None \<longleftrightarrow> c \<notin> set s"
  by (induction s) auto

lemma starts_with_append: "starts_with s p \<longleftrightarrow> (\<exists>r. s = p @ r)"
  unfolding starts_with_def by (metis append_eq_conv_conj append_take_drop_id)

lemma trim_Nil [simp]: "trim [] = []"
  by (simp add: trim_def trim_start_def trim_end_def)

lemma trim_start_eq: "s = [] \<or> \<not> is_whitespace (hd s) \<Longrightarrow> trim_start s = s"
  by (cases s) (auto simp: trim_start_def)

lemma trim_end_eq: "s = [] \<or> \<not> is_whitespace (last s) \<Longrightarrow> trim_end s = s"
  by (cases s rule: rev_cases) (auto simp: trim_end_def)

lemma trim_eq: "s = [] \<or> \<not> is_whitespace (hd s) \<and> \<not> is_whitespace (last s) \<Longrightarrow> trim s = s"
  by (metis trim_def trim_start_eq trim_end_eq)

lemma trim_no_whitespace: "(\<And>c. c \<in> set s \<Longrightarrow> \<not> is_whitespace c) \<Longrightarrow> trim s = s"
  by (rule trim_eq) (metis hd_in_set last_in_set)

lemma trim_ends: "trim s \<noteq> [] \<Longrightarrow> \<not> is_whitespace (hd (trim s)) \<and> \<not> is_whitespace (last (trim s))"
proof -
  assume ne: "trim s \<noteq> []"
  let ?t = "trim_start s" and ?d = "dropWhile is_whitespace (rev (trim_start s))"
  have d: "?d \<noteq> []" using ne by (simp add: trim_def trim_end_def)
  then have last: "\<not> is_whitespace (hd ?d)" by (rule hd_dropWhile)
  have t: "?t \<noteq> []" using d by auto
  then have "\<not> is_whitespace (hd ?t)"
    unfolding trim_start_def by (rule hd_dropWhile)
  moreover have "hd (rev ?d) = hd ?t"
  proof -
    have "rev ?t = takeWhile is_whitespace (rev ?t) @ ?d" by simp
    then have "?t = rev ?d @ rev (takeWhile is_whitespace (rev ?t))"
      by (metis rev_append rev_rev_ident)
    then show ?thesis using d by (metis hd_append2 rev_is_Nil_conv)
  qed
  ultimately show ?thesis using last d by (simp add: trim_def trim_end_def last_rev)
qed

lemma trim_trim [simp]: "trim (trim s) = trim s"
  using trim_eq trim_ends by blast

lemma set_trim: "set (trim s) \<subseteq> set s"
  unfolding trim_def trim_end_def trim_start_def
  by (auto dest!: set_dropWhileD)

text \<open>\<open>str::parse\<close> for an unsigned type whose largest value is \<open>m\<close>: an optional leading plus
  sign, then at least one digit and nothing else, and the value must fit.\<close>

definition digit_value :: "char \<Rightarrow> nat option" where
  "digit_value c = (if is_ascii_digit c then Some (code c - 48) else None)"

fun digits_value :: "nat \<Rightarrow> string \<Rightarrow> nat option" where
  "digits_value acc [] = Some acc"
| "digits_value acc (c # cs) =
     (case digit_value c of None \<Rightarrow> None | Some d \<Rightarrow> digits_value (acc * 10 + d) cs)"

definition parse_uint :: "nat \<Rightarrow> string \<Rightarrow> nat option" where
  "parse_uint m s =
     (let ds = (case s of c # cs \<Rightarrow> if c = CHR ''+'' then cs else s | [] \<Rightarrow> [])
      in if ds = [] then None
         else (case digits_value 0 ds of None \<Rightarrow> None | Some n \<Rightarrow> if n \<le> m then Some n else None))"

lemma parse_uint_le: "parse_uint m s = Some n \<Longrightarrow> n \<le> m"
  unfolding parse_uint_def Let_def by (simp split: option.split_asm if_split_asm)

definition digit_char :: "nat \<Rightarrow> char" where
  "digit_char n = char_of (48 + n)"

text \<open>Decimal printing, as \<open>format!("{n}")\<close> does for an unsigned integer.\<close>

fun show_nat :: "nat \<Rightarrow> string" where
  "show_nat n = (if n < 10 then [digit_char n] else show_nat (n div 10) @ [digit_char (n mod 10)])"

declare show_nat.simps [simp del]

definition show_int :: "int \<Rightarrow> string" where
  "show_int i = (if i < 0 then CHR ''-'' # show_nat (nat (- i)) else show_nat (nat i))"

lemma code_digit_char: "n < 10 \<Longrightarrow> code (digit_char n) = 48 + n"
  by (simp add: code_def digit_char_def)

lemma digit_value_digit_char [simp]: "n < 10 \<Longrightarrow> digit_value (digit_char n) = Some n"
  by (simp add: digit_value_def is_ascii_digit_def code_digit_char)

lemma digits_value_append:
  "digits_value acc (xs @ ys) =
     (case digits_value acc xs of None \<Rightarrow> None | Some a \<Rightarrow> digits_value a ys)"
  by (induction xs arbitrary: acc) (auto split: option.splits)

lemma digits_value_show_nat: "digits_value 0 (show_nat n) = Some n"
proof (induction n rule: show_nat.induct)
  case (1 n)
  then show ?case
    by (subst show_nat.simps) (auto simp: digits_value_append)
qed

lemma show_nat_hd_digit: "show_nat n \<noteq> [] \<and> is_ascii_digit (hd (show_nat n))"
proof (induction n rule: show_nat.induct)
  case (1 n)
  then show ?case
    by (subst (1 2) show_nat.simps) (auto simp: is_ascii_digit_def code_digit_char)
qed

text \<open>Printing then parsing is the identity on values in range.\<close>

lemma parse_uint_show_nat: "n \<le> m \<Longrightarrow> parse_uint m (show_nat n) = Some n"
proof -
  assume n: "n \<le> m"
  obtain c cs where s: "show_nat n = c # cs" and d: "is_ascii_digit c"
    using show_nat_hd_digit[of n] by (cases "show_nat n") auto
  have "c \<noteq> CHR ''+''" using d by (auto simp: is_ascii_digit_def code_def)
  then show ?thesis
    using n digits_value_show_nat[of n] by (simp add: parse_uint_def s)
qed

subsection \<open>Machine words and bytes\<close>

text \<open>The UTF-8 bytes of a string (\<open>str::as_bytes\<close>), for the code points below 256.\<close>

definition utf8_char :: "char \<Rightarrow> 8 word list" where
  "utf8_char c =
     (if code c < 128 then [of_nat (code c)]
      else [of_nat (192 + code c div 64), of_nat (128 + code c mod 64)])"

definition as_bytes :: "string \<Rightarrow> 8 word list" where
  "as_bytes s = concat (map utf8_char s)"

lemma length_as_bytes: "length (as_bytes s) = str_len s"
  by (induction s) (simp_all add: as_bytes_def str_len_def utf8_char_def)

text \<open>The result of an \<open>i32\<close> addition: two's complement, as a release build computes it.\<close>

definition wrap32 :: "int \<Rightarrow> int" where
  "wrap32 x = (x + 2 ^ 31) mod 2 ^ 32 - 2 ^ 31"

lemma wrap32_id: "- (2 ^ 31) \<le> x \<Longrightarrow> x < 2 ^ 31 \<Longrightarrow> wrap32 x = x"
  unfolding wrap32_def by simp

lemma show_nat_digits: "c \<in> set (show_nat n) \<Longrightarrow> is_ascii_digit c"
proof (induction n rule: show_nat.induct)
  case (1 n)
  then show ?case
    by (subst (asm) (2) show_nat.simps) (auto simp: is_ascii_digit_def code_digit_char split: if_split_asm)
qed

lemma show_nat_inj: "show_nat m = show_nat n \<longleftrightarrow> m = n"
  by (metis digits_value_show_nat option.inject)

lemma show_int_inj: "show_int i = show_int j \<longleftrightarrow> i = j"
proof -
  have neg: "CHR ''-'' # s \<noteq> show_nat n" for s n
  proof
    assume "CHR ''-'' # s = show_nat n"
    then have "is_ascii_digit CHR ''-''" using show_nat_hd_digit[of n] by (metis list.sel(1))
    then show False by (simp add: is_ascii_digit_def code_def)
  qed
  show ?thesis
    by (cases "i < 0"; cases "j < 0") (auto simp: show_int_def show_nat_inj neg neg[symmetric])
qed

lemma show_int_chars: "c \<in> set (show_int i) \<Longrightarrow> is_ascii_digit c \<or> c = CHR ''-''"
  unfolding show_int_def by (auto split: if_split_asm dest: show_nat_digits)

end
