(* ===== verification/OrderedMap.thy ===== *)
theory OrderedMap
  imports Prelude
begin

text \<open>
  Rust's \<open>BTreeMap\<close>, which the role resolver and \<open>serde_json::Map\<close> are built on, as an
  association list kept strictly sorted by key, and the contract its clients rely on as the
  locale \<open>ordered_map\<close>: what a lookup returns after an insertion, and that an insertion keeps
  the representation invariant. The clients' derived facts are proved in the locale and used
  through its interpretation on the model, \<open>bt\<close>.
\<close>

type_synonym ('k, 'v) btree_map = "('k \<times> 'v) list"

fun bt_insert :: "'k::linorder \<Rightarrow> 'v \<Rightarrow> ('k, 'v) btree_map \<Rightarrow> ('k, 'v) btree_map" where
  "bt_insert k v [] = [(k, v)]"
| "bt_insert k v (e # m) =
     (if fst e < k then e # bt_insert k v m
      else if fst e = k then (k, v) # m
      else (k, v) # e # m)"

definition bt_get :: "('k, 'v) btree_map \<Rightarrow> 'k \<Rightarrow> 'v option" where
  "bt_get m k = map_of m k"

definition bt_contains :: "('k, 'v) btree_map \<Rightarrow> 'k \<Rightarrow> bool" where
  "bt_contains m k = (bt_get m k \<noteq> None)"

definition bt_ok :: "('k::linorder, 'v) btree_map \<Rightarrow> bool" where
  "bt_ok m = sorted_wrt (<) (map fst m)"

text \<open>\<open>collect::<BTreeMap<_, _>>()\<close>: later entries replace earlier ones.\<close>

definition bt_collect :: "('k::linorder \<times> 'v) list \<Rightarrow> ('k, 'v) btree_map" where
  "bt_collect kvs = fold (\<lambda>(k, v). bt_insert k v) kvs []"

locale ordered_map =
  fixes empty :: "'m"
    and insert :: "'k \<Rightarrow> 'v \<Rightarrow> 'm \<Rightarrow> 'm"
    and get :: "'m \<Rightarrow> 'k \<Rightarrow> 'v option"
    and invar :: "'m \<Rightarrow> bool"
  assumes get_empty: "get empty k = None"
    and get_insert: "get (insert k v m) k' = (if k' = k then Some v else get m k')"
    and invar_empty: "invar empty"
    and invar_insert: "invar m \<Longrightarrow> invar (insert k v m)"
begin

lemma get_fold_other:
  "k \<notin> fst ` set kvs \<Longrightarrow> get (fold (\<lambda>(k, v). insert k v) kvs m) k = get m k"
  by (induction kvs arbitrary: m) (auto simp: get_insert)

lemma get_fold_last:
  assumes "k \<notin> fst ` set after"
  shows "get (fold (\<lambda>(k, v). insert k v) (before @ (k, v) # after) m) k = Some v"
proof -
  have "get (fold (\<lambda>(k, v). insert k v) after m') k = get m' k" for m'
    using assms by (rule get_fold_other)
  then show ?thesis by (simp add: get_insert)
qed

lemma invar_fold: "invar m \<Longrightarrow> invar (fold (\<lambda>(k, v). insert k v) kvs m)"
  by (induction kvs arbitrary: m) (auto simp: invar_insert)

lemma get_fold_Some_mem:
  "get (fold (\<lambda>(k, v). insert k v) kvs m) k = Some v \<Longrightarrow> (k, v) \<in> set kvs \<or> get m k = Some v"
proof (induction kvs arbitrary: m)
  case Nil
  then show ?case by simp
next
  case (Cons e kvs)
  obtain k0 v0 where e: "e = (k0, v0)" by (cases e)
  have "(k, v) \<in> set kvs \<or> get (insert k0 v0 m) k = Some v"
    using Cons.prems by (intro Cons.IH) (simp add: e)
  then show ?case by (auto simp: e get_insert split: if_splits)
qed

end

lemma fst_bt_insert: "fst ` set (bt_insert k v m) = Set.insert k (fst ` set m)"
  by (induction m) auto

lemma bt_ok_insert: "bt_ok m \<Longrightarrow> bt_ok (bt_insert k v m)"
proof (induction m)
  case Nil
  then show ?case by (simp add: bt_ok_def)
next
  case (Cons e m)
  then have m: "bt_ok (bt_insert k v m)" and lt: "\<And>x. x \<in> fst ` set m \<Longrightarrow> fst e < x"
    by (auto simp: bt_ok_def)
  have "\<And>x. x \<in> fst ` set (bt_insert k v m) \<Longrightarrow> fst e < k \<Longrightarrow> fst e < x"
    using lt by (auto simp: fst_bt_insert)
  with m Cons.prems show ?case
    by (auto simp: bt_ok_def intro: less_trans)
qed

lemma bt_get_insert: "bt_get (bt_insert k v m) k' = (if k' = k then Some v else bt_get m k')"
  by (induction m) (auto simp: bt_get_def)

interpretation bt: ordered_map "[]" bt_insert bt_get bt_ok
  by unfold_locales (simp_all add: bt_get_insert bt_ok_insert, simp_all add: bt_get_def bt_ok_def)

lemmas bt_laws [map_simps] = bt.get_empty bt.get_insert

lemma bt_get_Nil [simp]: "bt_get [] k = None"
  by (simp add: bt_get_def)

lemma bt_get_mem: "bt_get m k = Some v \<Longrightarrow> (k, v) \<in> set m"
  by (simp add: bt_get_def map_of_SomeD)

lemma bt_ok_distinct: "bt_ok m \<Longrightarrow> distinct (map fst m)"
  unfolding bt_ok_def by (metis strict_sorted_iff)

lemma bt_mem_get: "bt_ok m \<Longrightarrow> (k, v) \<in> set m \<Longrightarrow> bt_get m k = Some v"
  by (simp add: bt_get_def bt_ok_distinct)

text \<open>Two maps in canonical form with the same lookups are the same map.\<close>

lemma bt_ok_ext:
  assumes "bt_ok m" and "bt_ok m'" and "\<And>k. bt_get m k = bt_get m' k"
  shows "m = m'"
proof -
  have d: "distinct (map fst m)" "distinct (map fst m')"
    using assms(1,2) by (simp_all add: bt_ok_distinct)
  have o: "sorted (map fst m)" "sorted (map fst m')"
    using assms(1,2) by (simp_all add: bt_ok_def strict_sorted_iff)
  have "map_of m = map_of m'"
    using assms(3) by (simp add: bt_get_def fun_eq_iff)
  then have eq: "set m = set m'"
    using map_of_inject_set[OF d] by simp
  have "inj_on fst (set m \<union> set m')"
    using d eq by (simp add: distinct_map)
  then show ?thesis
    using o d eq by (intro map_sorted_distinct_set_unique)
qed

lemma bt_insert_same: "bt_ok m \<Longrightarrow> bt_get m k = Some v \<Longrightarrow> bt_insert k v m = m"
  by (rule bt_ok_ext) (auto simp: bt_ok_insert bt_get_insert)

lemma bt_get_collect:
  "distinct (map fst kvs) \<Longrightarrow> bt_get (bt_collect kvs) k = Some v \<longleftrightarrow> (k, v) \<in> set kvs"
proof
  assume d: "distinct (map fst kvs)" and "bt_get (bt_collect kvs) k = Some v"
  then show "(k, v) \<in> set kvs"
    using bt.get_fold_Some_mem[of kvs "[]" k v] by (simp add: bt_collect_def)
next
  assume d: "distinct (map fst kvs)" and "(k, v) \<in> set kvs"
  then obtain pre post where kvs: "kvs = pre @ (k, v) # post" by (meson split_list)
  then have "k \<notin> fst ` set post" using d by auto
  then show "bt_get (bt_collect kvs) k = Some v"
    unfolding bt_collect_def kvs by (rule bt.get_fold_last)
qed

lemma bt_collect_id: "bt_ok m \<Longrightarrow> bt_collect m = m"
proof (rule bt_ok_ext)
  assume ok: "bt_ok m"
  show "bt_ok (bt_collect m)"
    unfolding bt_collect_def by (rule bt.invar_fold) (simp add: bt_ok_def)
  show "bt_get (bt_collect m) k = bt_get m k" for k
    using bt_get_collect[OF bt_ok_distinct[OF ok], of k] bt_mem_get[OF ok, of k] bt_get_mem[of m k]
    by (metis not_Some_eq)
qed

end
