(* ===== verification/Json.thy ===== *)
theory Json
  imports OrderedMap
begin

text \<open>
  JSON values as \<open>serde_json::Value\<close> has them: the six variants, with objects as ordered maps
  from keys to values. The crate's \<open>Number\<close> is not code of this repository, so the type of
  numbers is a parameter \<open>'n\<close>; the definitions that read a number take the accessor they use
  (\<open>as_f64\<close>, \<open>as_i64\<close>) as an argument.
\<close>

datatype 'n json =
    JNull
  | JBool bool
  | JNumber 'n
  | JString string
  | JArray "'n json list"
  | JObject "(string \<times> 'n json) list"

type_synonym 'n json_map = "(string, 'n json) btree_map"

definition as_str :: "'n json \<Rightarrow> string option" where
  "as_str v = (case v of JString s \<Rightarrow> Some s | _ \<Rightarrow> None)"

definition as_array :: "'n json \<Rightarrow> 'n json list option" where
  "as_array v = (case v of JArray xs \<Rightarrow> Some xs | _ \<Rightarrow> None)"

definition as_object :: "'n json \<Rightarrow> 'n json_map option" where
  "as_object v = (case v of JObject m \<Rightarrow> Some m | _ \<Rightarrow> None)"

definition as_number :: "'n json \<Rightarrow> 'n option" where
  "as_number v = (case v of JNumber n \<Rightarrow> Some n | _ \<Rightarrow> None)"

definition is_null :: "'n json \<Rightarrow> bool" where
  "is_null v = (v = JNull)"

definition is_object :: "'n json \<Rightarrow> bool" where
  "is_object v = (as_object v \<noteq> None)"

text \<open>\<open>Value::get(key)\<close> with a string index: only an object answers.\<close>

definition jget :: "'n json \<Rightarrow> string \<Rightarrow> 'n json option" where
  "jget v k = (case v of JObject m \<Rightarrow> bt_get m k | _ \<Rightarrow> None)"

text \<open>Walking a list of keys with \<open>get\<close>, stopping at the first one that is missing.\<close>

fun jwalk :: "'n json \<Rightarrow> string list \<Rightarrow> 'n json option" where
  "jwalk v [] = Some v"
| "jwalk v (k # ks) = (case jget v k of None \<Rightarrow> None | Some w \<Rightarrow> jwalk w ks)"

lemma jwalk_append: "jwalk v (ks @ ls) = Option.bind (jwalk v ks) (\<lambda>w. jwalk w ls)"
  by (induction ks arbitrary: v) (auto split: option.splits)

lemma json_accessors [simp]:
  "as_str (JString s) = Some s" "as_array (JArray xs) = Some xs" "as_object (JObject m) = Some m"
  "jget (JObject m) k = bt_get m k"
  "as_number (JNumber n) = Some n"
  by (simp_all add: as_str_def as_array_def as_object_def jget_def as_number_def)

lemma json_accessors_Some:
  "as_str v = Some s \<longleftrightarrow> v = JString s" "as_array v = Some xs \<longleftrightarrow> v = JArray xs"
  "as_object v = Some m \<longleftrightarrow> v = JObject m"
  by (auto simp: as_str_def as_array_def as_object_def split: json.splits)

lemma jget_Some: "jget v k = Some w \<longleftrightarrow> (\<exists>m. v = JObject m \<and> bt_get m k = Some w)"
  by (cases v) (auto simp: jget_def)

end
