(* ===== verification/Matching.thy ===== *)
theory Matching
  imports Prelude
begin

text \<open>
  Wildcard matching (\<open>crates/permissions/src/matching.rs\<close>). \<open>glob_loop\<close> is the greedy walk of
  \<open>glob_matches\<close> with its four cursors; \<open>glob_rel\<close> is the declarative meaning of a pattern: a
  \<open>*\<close> stands for any run of characters, and every other pattern character for the single
  characters the predicate \<open>one\<close> admits. The locale \<open>greedy_walk\<close> states the loop's unfolding and
  proves once that such a walk decides \<open>glob_rel\<close>; the policy engine's matcher is the second
  interpretation.
\<close>

subsection \<open>What a pattern means\<close>

inductive glob_rel :: "(char \<Rightarrow> char \<Rightarrow> bool) \<Rightarrow> string \<Rightarrow> string \<Rightarrow> bool" for one where
  glob_Nil: "glob_rel one [] []"
| glob_star: "glob_rel one ps vs \<Longrightarrow> glob_rel one (CHR ''*'' # ps) (us @ vs)"
| glob_one: "c \<noteq> CHR ''*'' \<Longrightarrow> one c v \<Longrightarrow> glob_rel one ps vs \<Longrightarrow> glob_rel one (c # ps) (v # vs)"

inductive_simps glob_rel_Nil [simp]: "glob_rel one [] vs"
inductive_simps glob_rel_star: "glob_rel one (CHR ''*'' # ps) vs"
inductive_simps glob_rel_Cons_Nil: "glob_rel one (c # ps) []"
inductive_simps glob_rel_Cons: "glob_rel one (c # ps) (v # vs)"

lemma glob_rel_literal [simp]:
  "c \<noteq> CHR ''*'' \<Longrightarrow> glob_rel one (c # ps) (v # vs) \<longleftrightarrow> one c v \<and> glob_rel one ps vs"
  by (auto simp: glob_rel_Cons)

lemma glob_rel_literal_Nil [simp]: "c \<noteq> CHR ''*'' \<Longrightarrow> \<not> glob_rel one (c # ps) []"
  by (auto simp: glob_rel_Cons_Nil)

lemma glob_rel_star_drop: "glob_rel one (CHR ''*'' # ps) vs \<longleftrightarrow> (\<exists>k \<le> length vs. glob_rel one ps (drop k vs))"
proof
  assume "glob_rel one (CHR ''*'' # ps) vs"
  then obtain us ws where "vs = us @ ws" and "glob_rel one ps ws"
    by (auto simp: glob_rel_star)
  then show "\<exists>k \<le> length vs. glob_rel one ps (drop k vs)"
    by (intro exI[of _ "length us"]) simp
next
  assume "\<exists>k \<le> length vs. glob_rel one ps (drop k vs)"
  then obtain k where "glob_rel one ps (drop k vs)" by blast
  then have "glob_rel one (CHR ''*'' # ps) (take k vs @ drop k vs)" by (rule glob_star)
  then show "glob_rel one (CHR ''*'' # ps) vs" by simp
qed

lemma glob_rel_empty_value: "glob_rel one ps [] \<longleftrightarrow> list_all (\<lambda>c. c = CHR ''*'') ps"
proof (induction ps)
  case (Cons c ps)
  then show ?case by (cases "c = CHR ''*''") (auto simp: glob_rel_star_drop)
qed simp

text \<open>A star-free stretch of a pattern consumes exactly its own length.\<close>

lemma glob_rel_segment:
  "CHR ''*'' \<notin> set seg \<Longrightarrow> glob_rel one (seg @ rest) vs \<Longrightarrow>
   length seg \<le> length vs \<and> glob_rel one rest (drop (length seg) vs)"
proof (induction seg arbitrary: vs)
  case (Cons c seg)
  then show ?case by (cases vs) auto
qed simp

subsection \<open>The greedy walk\<close>

text \<open>A cursor state is well placed when the checkpoint belongs to the last star seen and the
  stretch of the pattern walked since then holds no star.\<close>

definition walk_inv :: "string \<Rightarrow> string \<Rightarrow> nat \<Rightarrow> nat \<Rightarrow> nat option \<Rightarrow> nat \<Rightarrow> bool" where
  "walk_inv pat val p v star cp \<longleftrightarrow>
     p \<le> length pat \<and> v \<le> length val \<and>
     (\<forall>s. star = Some s \<longrightarrow> s < p \<and> cp \<le> v \<and> p = s + 1 + (v - cp) \<and>
          CHR ''*'' \<notin> set (take (v - cp) (drop (s + 1) pat)))"

definition walk_measures :: "((string \<times> string \<times> nat \<times> nat \<times> nat option \<times> nat) \<Rightarrow> nat) list" where
  "walk_measures =
     [\<lambda>(pat, val, p, v, star, cp). (case star of None \<Rightarrow> 0 | Some s \<Rightarrow> if s < p \<and> cp \<le> v then 0 else 1),
      \<lambda>(pat, val, p, v, star, cp). (case star of None \<Rightarrow> length pat + 1 | Some s \<Rightarrow> length pat - s),
      \<lambda>(pat, val, p, v, star, cp). length val - cp,
      \<lambda>(pat, val, p, v, star, cp). length val - v]"

text \<open>Each of the three moves of the walk descends in the lexicographic order of these.\<close>

lemma walk_star_descends:
  "v < length val \<Longrightarrow> p < length pat \<Longrightarrow>
   ((pat, val, Suc p, v, Some p, v), (pat, val, p, v, star, cp)) \<in> measures walk_measures"
  by (cases star) (auto simp: walk_measures_def)

lemma walk_one_descends:
  "v < length val \<Longrightarrow>
   ((pat, val, Suc p, Suc v, star, cp), (pat, val, p, v, star, cp)) \<in> measures walk_measures"
  by (cases star) (auto simp: walk_measures_def)

lemma walk_back_descends:
  "v < length val \<Longrightarrow>
   ((pat, val, Suc s, Suc cp, Some s, Suc cp), (pat, val, p, v, Some s, cp)) \<in> measures walk_measures"
  by (auto simp: walk_measures_def)

lemmas walk_descends = walk_star_descends walk_one_descends walk_back_descends

text \<open>Moving the bounds of an existential over cursor positions.\<close>

lemma ex_position_shift: "v \<le> n \<Longrightarrow> (\<exists>k \<le> n - v. G (k + v)) \<longleftrightarrow> (\<exists>k. v \<le> k \<and> k \<le> n \<and> G k)"
  for G :: "nat \<Rightarrow> bool"
proof
  assume "v \<le> n" and "\<exists>k. v \<le> k \<and> k \<le> n \<and> G k"
  then obtain k where "v \<le> k" "k \<le> n" "G k" by blast
  then show "\<exists>k \<le> n - v. G (k + v)" by (intro exI[of _ "k - v"]) simp
next
  assume "v \<le> n" and "\<exists>k \<le> n - v. G (k + v)"
  then obtain k where "k \<le> n - v" "G (k + v)" by blast
  with \<open>v \<le> n\<close> show "\<exists>k. v \<le> k \<and> k \<le> n \<and> G k" by (intro exI[of _ "k + v"]) simp
qed

lemma ex_position_next:
  "(\<exists>k. c < k \<and> k \<le> n \<and> G k) \<longleftrightarrow> c < n \<and> (G (Suc c) \<or> (\<exists>k. Suc c < k \<and> k \<le> n \<and> G k))"
  for G :: "nat \<Rightarrow> bool"
proof
  assume "\<exists>k. c < k \<and> k \<le> n \<and> G k"
  then obtain k where k: "c < k" "k \<le> n" "G k" by blast
  then show "c < n \<and> (G (Suc c) \<or> (\<exists>k. Suc c < k \<and> k \<le> n \<and> G k))"
    by (cases "k = Suc c") (auto intro: exI[of _ k])
next
  assume "c < n \<and> (G (Suc c) \<or> (\<exists>k. Suc c < k \<and> k \<le> n \<and> G k))"
  then show "\<exists>k. c < k \<and> k \<le> n \<and> G k"
    by (auto intro: exI[of _ "Suc c"] Suc_lessD)
qed

locale greedy_walk =
  fixes one :: "char \<Rightarrow> char \<Rightarrow> bool"
    and ok :: "string \<Rightarrow> bool"
    and loop :: "string \<Rightarrow> string \<Rightarrow> nat \<Rightarrow> nat \<Rightarrow> nat option \<Rightarrow> nat \<Rightarrow> bool"
  assumes loop_unfold: "ok val \<Longrightarrow> p \<le> length pat \<Longrightarrow> loop pat val p v star cp =
     (if v < length val then
        if p < length pat \<and> pat ! p = CHR ''*'' then loop pat val (p + 1) v (Some p) v
        else if p < length pat \<and> one (pat ! p) (val ! v) then loop pat val (p + 1) (v + 1) star cp
        else (case star of Some s \<Rightarrow> loop pat val (s + 1) (cp + 1) star (cp + 1) | None \<Rightarrow> False)
      else list_all (\<lambda>c. c = CHR ''*'') (drop p pat))"
begin

text \<open>What the walk still has to find: a match from here, or from a later checkpoint of the
  last star.\<close>

definition pending :: "string \<Rightarrow> string \<Rightarrow> nat \<Rightarrow> nat \<Rightarrow> nat option \<Rightarrow> nat \<Rightarrow> bool" where
  "pending pat val p v star cp \<longleftrightarrow>
     glob_rel one (drop p pat) (drop v val) \<or>
     (\<exists>s k. star = Some s \<and> cp < k \<and> k \<le> length val \<and> glob_rel one (drop (s + 1) pat) (drop k val))"

lemma pending_end:
  assumes "walk_inv pat val p v star cp" and "\<not> v < length val"
  shows "pending pat val p v star cp \<longleftrightarrow> list_all (\<lambda>c. c = CHR ''*'') (drop p pat)"
proof -
  have "\<not> glob_rel one (drop (s + 1) pat) (drop k val)"
    if s: "star = Some s" and k: "cp < k" "k \<le> length val" for s k
  proof
    let ?seg = "take (v - cp) (drop (s + 1) pat)"
    assume "glob_rel one (drop (s + 1) pat) (drop k val)"
    then have "glob_rel one (?seg @ drop (v - cp) (drop (s + 1) pat)) (drop k val)"
      by (simp only: append_take_drop_id)
    then have "length ?seg \<le> length (drop k val)"
      using assms(1) s by (intro conjunct1[OF glob_rel_segment]) (auto simp: walk_inv_def)
    then show False using assms s k by (auto simp: walk_inv_def)
  qed
  then show ?thesis using assms(2) by (auto simp: pending_def glob_rel_empty_value)
qed

text \<open>Committing to a new star loses nothing: every later start of the old one is covered.\<close>

lemma pending_star:
  assumes inv: "walk_inv pat val p v star cp" and v: "v < length val"
    and p: "p < length pat" "pat ! p = CHR ''*''"
  shows "pending pat val p v star cp \<longleftrightarrow> pending pat val (p + 1) v (Some p) v"
proof -
  have split: "drop p pat = CHR ''*'' # drop (p + 1) pat"
    using p by (simp add: Cons_nth_drop_Suc[symmetric])
  have new: "pending pat val (p + 1) v (Some p) v \<longleftrightarrow>
      (\<exists>k. v \<le> k \<and> k \<le> length val \<and> glob_rel one (drop (p + 1) pat) (drop k val))"
    using v by (auto simp: pending_def le_less)
  have here: "glob_rel one (drop p pat) (drop v val) \<longleftrightarrow>
      (\<exists>k. v \<le> k \<and> k \<le> length val \<and> glob_rel one (drop (p + 1) pat) (drop k val))"
    using v ex_position_shift[of v "length val" "\<lambda>k. glob_rel one (drop (p + 1) pat) (drop k val)"]
    by (simp add: split glob_rel_star_drop)
  have "\<exists>k'. v \<le> k' \<and> k' \<le> length val \<and> glob_rel one (drop (p + 1) pat) (drop k' val)"
    if s: "star = Some s" and k: "cp < k" "k \<le> length val"
      and m: "glob_rel one (drop (s + 1) pat) (drop k val)" for s k
  proof -
    let ?seg = "take (v - cp) (drop (s + 1) pat)"
    have i: "cp \<le> v" "p = s + 1 + (v - cp)" "CHR ''*'' \<notin> set ?seg"
      using inv s by (auto simp: walk_inv_def)
    have len: "length ?seg = v - cp" using i p by simp
    have "drop (s + 1) pat = ?seg @ drop p pat"
      using i append_take_drop_id[of "v - cp" "drop (s + 1) pat"] by (simp add: add.commute)
    then have "glob_rel one (?seg @ drop p pat) (drop k val)" using m by simp
    from glob_rel_segment[OF i(3) this] len
    have seg: "v - cp \<le> length val - k" "glob_rel one (drop p pat) (drop (v - cp + k) val)"
      by auto
    from seg(2) obtain j where "j \<le> length val - (v - cp + k)"
        "glob_rel one (drop (p + 1) pat) (drop (j + (v - cp + k)) val)"
      by (auto simp: split glob_rel_star_drop)
    then show ?thesis using i k seg(1) by (intro exI[of _ "j + (v - cp + k)"]) auto
  qed
  then show ?thesis using here new by (auto simp: pending_def)
qed

lemma pending_one:
  assumes "v < length val" "p < length pat" "pat ! p \<noteq> CHR ''*''" "one (pat ! p) (val ! v)"
  shows "pending pat val p v star cp \<longleftrightarrow> pending pat val (p + 1) (v + 1) star cp"
  using assms by (simp add: pending_def Cons_nth_drop_Suc[symmetric])

lemma pending_back:
  assumes "v < length val" "p < length pat \<Longrightarrow> pat ! p \<noteq> CHR ''*'' \<and> \<not> one (pat ! p) (val ! v)"
  shows "pending pat val p v (Some s) cp \<longleftrightarrow>
    cp < length val \<and> pending pat val (s + 1) (cp + 1) (Some s) (cp + 1)"
    and "\<not> pending pat val p v None cp"
proof -
  have "\<not> glob_rel one (drop p pat) (drop v val)"
    using assms by (cases "p < length pat") (auto simp: Cons_nth_drop_Suc[symmetric])
  then show "pending pat val p v (Some s) cp \<longleftrightarrow>
      cp < length val \<and> pending pat val (s + 1) (cp + 1) (Some s) (cp + 1)"
    and "\<not> pending pat val p v None cp"
    using ex_position_next[of cp "length val" "\<lambda>k. glob_rel one (drop (s + 1) pat) (drop k val)"]
    by (simp_all add: pending_def)
qed

lemma loop_pending:
  "ok val \<Longrightarrow> walk_inv pat val p v star cp \<Longrightarrow> loop pat val p v star cp \<longleftrightarrow> pending pat val p v star cp"
proof (induction "(pat, val, p, v, star, cp)" arbitrary: pat val p v star cp
    rule: wf_induct_rule[OF wf_measures[of walk_measures]])
  case (1 pat val p v star cp)
  note IH = "1"(1) and ok = "1"(2) and inv = "1"(3)
  have len: "p \<le> length pat" using inv by (simp add: walk_inv_def)
  note unfold = loop_unfold[OF ok len, of v star cp]
  show ?case
  proof (cases "v < length val")
    case False
    then show ?thesis using unfold pending_end[OF inv] by simp
  next
    case v: True
    consider (star) "p < length pat" "pat ! p = CHR ''*''"
      | (one) "p < length pat" "pat ! p \<noteq> CHR ''*''" "one (pat ! p) (val ! v)"
      | (retry) "p < length pat \<Longrightarrow> pat ! p \<noteq> CHR ''*'' \<and> \<not> one (pat ! p) (val ! v)"
      by blast
    then show ?thesis
    proof cases
      case star
      have "loop pat val (p + 1) v (Some p) v = pending pat val (p + 1) v (Some p) v"
        using star v inv by (intro IH ok) (simp_all add: walk_descends walk_inv_def del: in_measures)
      then show ?thesis using unfold v star pending_star[OF inv v star] by simp
    next
      case one
      have "walk_inv pat val (p + 1) (v + 1) star cp"
        using one v inv
        by (auto simp: walk_inv_def Suc_diff_le take_Suc_conv_app_nth)
      then have "loop pat val (p + 1) (v + 1) star cp = pending pat val (p + 1) (v + 1) star cp"
        using v by (intro IH ok) (simp_all add: walk_descends del: in_measures)
      then show ?thesis using unfold v one pending_one[of v val p pat star cp] by simp
    next
      case retry
      show ?thesis
      proof (cases star)
        case None
        then show ?thesis using unfold v retry pending_back(2)[of v val p pat cp] by auto
      next
        case (Some s)
        then have c: "cp < length val" using inv v by (auto simp: walk_inv_def)
        have "loop pat val (s + 1) (cp + 1) star (cp + 1) = pending pat val (s + 1) (cp + 1) star (cp + 1)"
          unfolding Some using Some c v inv
          by (intro IH ok) (simp_all add: walk_descends walk_inv_def del: in_measures)
        then show ?thesis using unfold v retry c Some pending_back(1)[of v val p pat s cp] by auto
      qed
    qed
  qed
qed

lemma walk_correct: "ok val \<Longrightarrow> loop pat val 0 0 None 0 \<longleftrightarrow> glob_rel one pat val"
  using loop_pending[of val pat 0 0 None 0] by (simp add: pending_def walk_inv_def)

end

subsection \<open>The matcher of the permissions crate\<close>

function glob_loop :: "string \<Rightarrow> string \<Rightarrow> nat \<Rightarrow> nat \<Rightarrow> nat option \<Rightarrow> nat \<Rightarrow> bool" where
  "glob_loop pat val p v star cp =
     (if v < length val then
        if p < length pat \<and> pat ! p = CHR ''*'' then glob_loop pat val (p + 1) v (Some p) v
        else if p < length pat \<and> pat ! p = CHR ''?'' then glob_loop pat val (p + 1) (v + 1) star cp
        else if p < length pat \<and> pat ! p = val ! v then glob_loop pat val (p + 1) (v + 1) star cp
        else (case star of
                Some s \<Rightarrow> glob_loop pat val (s + 1) (cp + 1) star (cp + 1)
              | None \<Rightarrow> False)
      else list_all (\<lambda>c. c = CHR ''*'') (drop p pat))"
  by pat_completeness auto
termination
  by (relation "measures walk_measures")
    (simp_all add: walk_descends del: in_measures)

declare glob_loop.simps [simp del]

definition glob_matches :: "string \<Rightarrow> string \<Rightarrow> bool" where
  "glob_matches pattern value = glob_loop pattern value 0 0 None 0"

text \<open>A \<open>?\<close> stands for any one character, every other character for itself.\<close>

definition glob_one_char :: "char \<Rightarrow> char \<Rightarrow> bool" where
  "glob_one_char c v = (c = CHR ''?'' \<or> c = v)"

interpretation glob: greedy_walk glob_one_char "\<lambda>_. True" glob_loop
proof unfold_locales
  fix pat val p v star cp
  show "glob_loop pat val p v star cp =
     (if v < length val then
        if p < length pat \<and> pat ! p = CHR ''*'' then glob_loop pat val (p + 1) v (Some p) v
        else if p < length pat \<and> glob_one_char (pat ! p) (val ! v)
        then glob_loop pat val (p + 1) (v + 1) star cp
        else (case star of Some s \<Rightarrow> glob_loop pat val (s + 1) (cp + 1) star (cp + 1) | None \<Rightarrow> False)
      else list_all (\<lambda>c. c = CHR ''*'') (drop p pat))"
    by (subst glob_loop.simps) (auto simp: glob_one_char_def)
qed

lemma glob_matches_iff: "glob_matches pattern value \<longleftrightarrow> glob_rel glob_one_char pattern value"
  unfolding glob_matches_def by (rule glob.walk_correct) simp

text \<open>
  C10. The greedy walk of \<open>glob_matches\<close> decides the declarative meaning of a pattern exactly: it
  answers \<open>true\<close> for a pattern and a value if and only if the value splits along the pattern with
  \<open>*\<close> standing for any run of characters, \<open>?\<close> for one character and everything else for itself.
  The backtracking to the last star alone loses no match, and the walk ends on every input.
\<close>

theorem glob_matches_correct: "glob_matches pattern value = glob_rel glob_one_char pattern value"
  by (rule glob_matches_iff)

text \<open>Without wildcards a pattern is an equality test; the empty pattern matches nothing else.\<close>

lemma glob_rel_no_wildcard:
  "CHR ''*'' \<notin> set ps \<Longrightarrow> CHR ''?'' \<notin> set ps \<Longrightarrow> glob_rel glob_one_char ps vs \<longleftrightarrow> ps = vs"
proof (induction ps arbitrary: vs)
  case (Cons c ps)
  note lit = notin_ConsD[OF Cons.prems(1)] notin_ConsD[OF Cons.prems(2)]
  then show ?case using Cons.IH by (cases vs) (simp_all add: glob_one_char_def)
qed (simp add: eq_commute)

lemma glob_matches_literal:
  "CHR ''*'' \<notin> set ps \<Longrightarrow> CHR ''?'' \<notin> set ps \<Longrightarrow> glob_matches ps vs \<longleftrightarrow> ps = vs"
  by (simp add: glob_matches_iff glob_rel_no_wildcard)

text \<open>A pattern that ends in a star covers everything below its literal prefix.\<close>

lemma glob_rel_prefix_star:
  "CHR ''*'' \<notin> set ps \<Longrightarrow> CHR ''?'' \<notin> set ps \<Longrightarrow>
   glob_rel glob_one_char (ps @ [CHR ''*'']) vs \<longleftrightarrow> starts_with vs ps"
proof (induction ps arbitrary: vs)
  case Nil
  show ?case
    by (auto simp: glob_rel_star_drop starts_with_def intro: exI[of _ "length vs"])
next
  case (Cons c ps)
  note lit = notin_ConsD[OF Cons.prems(1)] notin_ConsD[OF Cons.prems(2)]
  then show ?case using Cons.IH
    by (cases vs) (simp_all add: glob_one_char_def starts_with_def eq_commute)
qed

end
