(* ===== verification/PolicyEngine.thy ===== *)
theory PolicyEngine
  imports Json Matching "HOL-Library.Product_Lexorder" "HOL-Library.Multiset"
begin

text \<open>
  The attribute-based policy engine (\<open>crates/policy-engine/src/lib.rs\<close>): operators, condition
  trees with their stored JSON form, attribute sets read by dotted path, and policy sets that
  decide a permission. Numbers are the parameter \<open>'n\<close> of \<open>Json\<close>; \<open>as_f64\<close> maps a number
  to the linear order that \<open>f64\<close> comparison uses.
\<close>

subsection \<open>Operators\<close>

datatype operator = Equals | NotEquals | GreaterThan | LessThan | In | StartsWith | Contains

definition operator_all :: "operator list" where
  "operator_all = [Equals, NotEquals, GreaterThan, LessThan, In, StartsWith, Contains]"

fun operator_as_str :: "operator \<Rightarrow> string" where
  "operator_as_str Equals = ''==''"
| "operator_as_str NotEquals = ''!=''"
| "operator_as_str GreaterThan = ''>''"
| "operator_as_str LessThan = ''<''"
| "operator_as_str In = ''in''"
| "operator_as_str StartsWith = ''starts_with''"
| "operator_as_str Contains = ''contains''"

definition operator_parse :: "string \<Rightarrow> operator option" where
  "operator_parse text = find (\<lambda>op. operator_as_str op = text) operator_all"

definition compare :: "('n \<Rightarrow> 'f::linorder) \<Rightarrow> 'n json \<Rightarrow> 'n json \<Rightarrow> int option" where
  "compare as_f64 left right =
     (case as_number left of None \<Rightarrow> None
      | Some l \<Rightarrow> (case as_number right of None \<Rightarrow> None
         | Some r \<Rightarrow> Some (if as_f64 l > as_f64 r then 1 else if as_f64 l < as_f64 r then -1 else 0)))"

fun operator_apply :: "('n \<Rightarrow> 'f::linorder) \<Rightarrow> operator \<Rightarrow> 'n json \<Rightarrow> 'n json \<Rightarrow> bool" where
  "operator_apply as_f64 Equals resolved expected = (resolved = expected)"
| "operator_apply as_f64 NotEquals resolved expected = (resolved \<noteq> expected)"
| "operator_apply as_f64 GreaterThan resolved expected =
     (case compare as_f64 resolved expected of None \<Rightarrow> False | Some ord \<Rightarrow> ord > 0)"
| "operator_apply as_f64 LessThan resolved expected =
     (case compare as_f64 resolved expected of None \<Rightarrow> False | Some ord \<Rightarrow> ord < 0)"
| "operator_apply as_f64 In resolved expected =
     (case as_array expected of None \<Rightarrow> False | Some items \<Rightarrow> list_ex (\<lambda>item. item = resolved) items)"
| "operator_apply as_f64 StartsWith resolved expected =
     (case (as_str resolved, as_str expected) of
        (Some text, Some prefix) \<Rightarrow> starts_with text prefix
      | _ \<Rightarrow> False)"
| "operator_apply as_f64 Contains resolved expected =
     (case resolved of
        JArray items \<Rightarrow> list_ex (\<lambda>item. item = expected) items
      | JString text \<Rightarrow>
          (case as_str expected of None \<Rightarrow> False
           | Some needle \<Rightarrow> needle \<noteq> [] \<and> str_contains text needle)
      | _ \<Rightarrow> False)"

lemma operator_parse_as_str: "operator_parse (operator_as_str op) = Some op"
  by (cases op) (simp_all add: operator_parse_def operator_all_def)

subsection \<open>Attribute sets\<close>

definition attributes_get :: "'n json_map \<Rightarrow> string \<Rightarrow> 'n json" where
  "attributes_get m path =
     (case split_on CHR ''.'' path of
        [] \<Rightarrow> JNull
      | first # segments \<Rightarrow>
          (case bt_get m first of
             None \<Rightarrow> JNull
           | Some v \<Rightarrow> (case jwalk v segments of None \<Rightarrow> JNull | Some w \<Rightarrow> w)))"

text \<open>The loop of \<open>Attributes::set\<close>: every intermediate segment becomes an object, replacing
  whatever stood there if that was not one.\<close>

fun insert_at :: "'n json_map \<Rightarrow> string list \<Rightarrow> string \<Rightarrow> 'n json \<Rightarrow> 'n json_map" where
  "insert_at m [] last_key v = bt_insert last_key v m"
| "insert_at m (s # ss) last_key v =
     (let entry = (case bt_get m s of Some e \<Rightarrow> e | None \<Rightarrow> JObject []);
          obj = (case as_object entry of Some obj \<Rightarrow> obj | None \<Rightarrow> [])
      in bt_insert s (JObject (insert_at obj ss last_key v)) m)"

definition attributes_set :: "'n json_map \<Rightarrow> string \<Rightarrow> 'n json \<Rightarrow> 'n json_map" where
  "attributes_set m path v =
     (let segments = filter (\<lambda>part. part \<noteq> []) (split_on CHR ''.'' path)
      in if segments = [] then m else insert_at m (butlast segments) (last segments) v)"

definition attributes_from_json :: "'n json \<Rightarrow> 'n json_map" where
  "attributes_from_json v = (case as_object v of Some m \<Rightarrow> m | None \<Rightarrow> [])"

subsection \<open>Condition trees\<close>

datatype 'n condition =
    CAll "'n condition list"
  | CAny "'n condition list"
  | CNot "'n condition"
  | CLeaf string operator "'n json"

datatype condition_error =
    NotAnObject | AllNotArray | AnyNotArray | EmptyAttribute | UnknownOperator | MissingValue
  | NotACondition

definition condition_empty :: "'n condition" where
  "condition_empty = CAll []"

lemma size_bt_get: "bt_get m k = Some v \<Longrightarrow> size v < size (JObject m)"
proof -
  assume "bt_get m k = Some v"
  then have "(k, v) \<in> set m" by (rule bt_get_mem)
  then have "size_prod (\<lambda>_. 0) size (k, v) \<le> size_list (size_prod (\<lambda>_. 0) size) m"
    by (rule size_list_estimation'[OF _ order_refl])
  then show ?thesis by simp
qed

lemma size_array_child: "bt_get m k = Some c \<Longrightarrow> as_array c = Some xs \<Longrightarrow> x \<in> set xs \<Longrightarrow>
  size x < size (JObject m)"
proof -
  assume c: "bt_get m k = Some c" and a: "as_array c = Some xs" and x: "x \<in> set xs"
  have "size x \<le> size_list size xs" by (rule size_list_estimation'[OF x]) simp
  moreover have "size c = Suc (size_list size xs)" using a by (simp add: json_accessors_Some)
  moreover have "size c < size (JObject m)" using c by (rule size_bt_get)
  ultimately show ?thesis by simp
qed

function condition_parse :: "'n json \<Rightarrow> condition_error + 'n condition" where
  "condition_parse value =
     (case as_object value of
        None \<Rightarrow> Inl NotAnObject
      | Some object \<Rightarrow>
         (case bt_get object ''all'' of
            Some children \<Rightarrow>
              (case as_array children of
                 None \<Rightarrow> Inl AllNotArray
               | Some xs \<Rightarrow> res_bind (collect_results (map condition_parse xs)) (\<lambda>cs. Inr (CAll cs)))
          | None \<Rightarrow>
         (case bt_get object ''any'' of
            Some children \<Rightarrow>
              (case as_array children of
                 None \<Rightarrow> Inl AnyNotArray
               | Some xs \<Rightarrow> res_bind (collect_results (map condition_parse xs)) (\<lambda>cs. Inr (CAny cs)))
          | None \<Rightarrow>
         (case bt_get object ''not'' of
            Some child \<Rightarrow> res_bind (condition_parse child) (\<lambda>c. Inr (CNot c))
          | None \<Rightarrow>
         (if bt_contains object ''attribute'' then
            (case Option.bind (bt_get object ''attribute'') as_str of
               None \<Rightarrow> Inl EmptyAttribute
             | Some raw \<Rightarrow>
                if trim raw = [] then Inl EmptyAttribute
                else (case Option.bind (Option.bind (bt_get object ''operator'') as_str) operator_parse of
                   None \<Rightarrow> Inl UnknownOperator
                 | Some op \<Rightarrow>
                    (case bt_get object ''value'' of
                       None \<Rightarrow> Inl MissingValue
                     | Some v \<Rightarrow> Inr (CLeaf (trim raw) op v))))
          else Inl NotACondition)))))"
  by pat_completeness auto
termination
proof (relation "measure size", goal_cases)
  case 1
  show ?case by simp
qed (auto simp: json_accessors_Some dest: size_bt_get size_array_child
     simp del: json.size)

declare condition_parse.simps [simp del]

fun condition_to_json :: "'n condition \<Rightarrow> 'n json" where
  "condition_to_json (CAll cs) = JObject (bt_insert ''all'' (JArray (map condition_to_json cs)) [])"
| "condition_to_json (CAny cs) = JObject (bt_insert ''any'' (JArray (map condition_to_json cs)) [])"
| "condition_to_json (CNot c) = JObject (bt_insert ''not'' (condition_to_json c) [])"
| "condition_to_json (CLeaf attribute op v) =
     JObject (bt_insert ''value'' v
       (bt_insert ''operator'' (JString (operator_as_str op))
         (bt_insert ''attribute'' (JString attribute) [])))"

fun satisfied :: "('n \<Rightarrow> 'f::linorder) \<Rightarrow> 'n json_map \<Rightarrow> 'n condition \<Rightarrow> bool" where
  "satisfied as_f64 attrs (CAll cs) = list_all (satisfied as_f64 attrs) cs"
| "satisfied as_f64 attrs (CAny cs) = list_ex (satisfied as_f64 attrs) cs"
| "satisfied as_f64 attrs (CNot c) = (\<not> satisfied as_f64 attrs c)"
| "satisfied as_f64 attrs (CLeaf attribute op v) =
     operator_apply as_f64 op (attributes_get attrs attribute) v"

subsection \<open>Targets\<close>

text \<open>The engine's own wildcard walk; it compares the characters before it looks for a star.\<close>

function wildcard_loop :: "string \<Rightarrow> string \<Rightarrow> nat \<Rightarrow> nat \<Rightarrow> nat option \<Rightarrow> nat \<Rightarrow> bool" where
  "wildcard_loop pat txt pattern_at text_at star mark =
     (if text_at < length txt then
        if pattern_at < length pat \<and> pat ! pattern_at = txt ! text_at
        then wildcard_loop pat txt (pattern_at + 1) (text_at + 1) star mark
        else if pattern_at < length pat \<and> pat ! pattern_at = CHR ''*''
        then wildcard_loop pat txt (pattern_at + 1) text_at (Some pattern_at) text_at
        else (case star of
                Some star_at \<Rightarrow> wildcard_loop pat txt (star_at + 1) (mark + 1) star (mark + 1)
              | None \<Rightarrow> False)
      else dropWhile (\<lambda>c. c = CHR ''*'') (drop pattern_at pat) = [])"
  by pat_completeness auto
termination
  by (relation "measures walk_measures") (simp_all add: walk_descends del: in_measures)

declare wildcard_loop.simps [simp del]

definition wildcard_match :: "string \<Rightarrow> string \<Rightarrow> bool" where
  "wildcard_match pattern text = wildcard_loop pattern text 0 0 None 0"

definition targets :: "string \<Rightarrow> string \<Rightarrow> bool" where
  "targets pattern permission =
     (if pattern = permission then True
      else if CHR ''*'' \<notin> set pattern then False
      else wildcard_match pattern permission)"

datatype target_error = TargetRequired | UnknownTarget | MatchesNoPermission

definition validate_target :: "string \<Rightarrow> string list \<Rightarrow> target_error + unit" where
  "validate_target raw known =
     (let pattern = trim raw in
      if pattern = [] then Inl TargetRequired
      else if CHR ''*'' \<notin> set pattern then
        (if pattern \<in> set known then Inr () else Inl UnknownTarget)
      else if list_ex (\<lambda>key. targets pattern key) known then Inr ()
      else Inl MatchesNoPermission)"

subsection \<open>Policies and the decision\<close>

datatype policy_effect = PolicyAllow | PolicyDeny

fun policy_effect_as_str :: "policy_effect \<Rightarrow> string" where
  "policy_effect_as_str PolicyAllow = ''allow''"
| "policy_effect_as_str PolicyDeny = ''deny''"

definition policy_effect_parse :: "string \<Rightarrow> policy_effect option" where
  "policy_effect_parse text =
     (if text = ''allow'' then Some PolicyAllow
      else if text = ''deny'' then Some PolicyDeny else None)"

definition is_deny :: "policy_effect \<Rightarrow> bool" where
  "is_deny e = (e = PolicyDeny)"

record 'n policy =
  policy_id :: uuid
  policy_name :: string
  policy_effect :: policy_effect
  policy_priority :: int
  policy_enabled :: bool
  target_permissions :: "string list"
  policy_conditions :: "'n condition"

record policy_match =
  pm_id :: uuid
  pm_name :: string
  pm_effect :: policy_effect
  pm_priority :: int

record policy_candidate =
  pc_id :: uuid
  pc_name :: string
  pc_effect :: policy_effect
  pc_priority :: int
  pc_enabled :: bool
  pc_targeted :: bool
  pc_satisfied :: bool

definition candidate_applies :: "policy_candidate \<Rightarrow> bool" where
  "candidate_applies c = (pc_enabled c \<and> pc_targeted c \<and> pc_satisfied c)"

definition policy_matches ::
  "('n \<Rightarrow> 'f::linorder) \<Rightarrow> 'n policy \<Rightarrow> string \<Rightarrow> 'n json_map \<Rightarrow> bool" where
  "policy_matches as_f64 p permission attrs =
     (policy_enabled p \<and> list_ex (\<lambda>pattern. targets pattern permission) (target_permissions p)
      \<and> satisfied as_f64 attrs (policy_conditions p))"

text \<open>The comparator of \<open>decide\<close> as a sort key: priority descending, then \<open>deny\<close> before
  \<open>allow\<close>, then the name. \<open>sort_key\<close> is stable, as \<open>sort_by\<close> is.\<close>

definition decide_key :: "'n policy \<Rightarrow> int \<times> nat \<times> string" where
  "decide_key p = (- policy_priority p, (if is_deny (policy_effect p) then 0 else 1), policy_name p)"

definition match_of :: "'n policy \<Rightarrow> policy_match" where
  "match_of p = \<lparr>pm_id = policy_id p, pm_name = policy_name p, pm_effect = policy_effect p,
                 pm_priority = policy_priority p\<rparr>"

definition decide ::
  "('n \<Rightarrow> 'f::linorder) \<Rightarrow> 'n policy list \<Rightarrow> string \<Rightarrow> 'n json_map \<Rightarrow> policy_match option" where
  "decide as_f64 policies permission attrs =
     (case sort_key decide_key (filter (\<lambda>p. policy_matches as_f64 p permission attrs) policies) of
        [] \<Rightarrow> None
      | p # _ \<Rightarrow> Some (match_of p))"

definition candidate_key :: "policy_candidate \<Rightarrow> nat \<times> int \<times> string" where
  "candidate_key c = ((if candidate_applies c then 0 else 1), - pc_priority c, pc_name c)"

definition candidates ::
  "('n \<Rightarrow> 'f::linorder) \<Rightarrow> 'n policy list \<Rightarrow> string \<Rightarrow> 'n json_map \<Rightarrow> policy_candidate list" where
  "candidates as_f64 policies permission attrs =
     sort_key candidate_key
       (map (\<lambda>p. \<lparr>pc_id = policy_id p, pc_name = policy_name p, pc_effect = policy_effect p,
                   pc_priority = policy_priority p, pc_enabled = policy_enabled p,
                   pc_targeted = list_ex (\<lambda>pattern. targets pattern permission) (target_permissions p),
                   pc_satisfied = satisfied as_f64 attrs (policy_conditions p)\<rparr>) policies)"

subsection \<open>Tracing the leaves of a tree\<close>

record 'n leaf_trace =
  lt_path :: string
  lt_attribute :: string
  lt_operator :: string
  lt_expected :: "'n json"
  lt_resolved :: "'n json"
  lt_satisfied :: bool

definition child_path :: "string \<Rightarrow> string \<Rightarrow> nat \<Rightarrow> string" where
  "child_path path kind index = path @ ''/'' @ kind @ ''['' @ show_nat index @ '']''"

fun walk :: "('n \<Rightarrow> 'f::linorder) \<Rightarrow> 'n json_map \<Rightarrow> 'n condition \<Rightarrow> string \<Rightarrow> 'n leaf_trace list"
  and walk_children :: "('n \<Rightarrow> 'f::linorder) \<Rightarrow> 'n json_map \<Rightarrow> string \<Rightarrow> nat \<Rightarrow>
    'n condition list \<Rightarrow> string \<Rightarrow> 'n leaf_trace list" where
  "walk as_f64 attrs (CAll cs) path = walk_children as_f64 attrs ''all'' 0 cs path"
| "walk as_f64 attrs (CAny cs) path = walk_children as_f64 attrs ''any'' 0 cs path"
| "walk as_f64 attrs (CNot c) path = walk as_f64 attrs c (path @ ''/not'')"
| "walk as_f64 attrs (CLeaf attribute op v) path =
     (let resolved = attributes_get attrs attribute in
      [\<lparr>lt_path = trim_start_matches CHR ''/'' path, lt_attribute = attribute,
         lt_operator = operator_as_str op, lt_expected = v, lt_resolved = resolved,
         lt_satisfied = operator_apply as_f64 op resolved v\<rparr>])"
| "walk_children as_f64 attrs kind index [] path = []"
| "walk_children as_f64 attrs kind index (c # cs) path =
     walk as_f64 attrs c (child_path path kind index) @
     walk_children as_f64 attrs kind (index + 1) cs path"

definition trace :: "('n \<Rightarrow> 'f::linorder) \<Rightarrow> 'n condition \<Rightarrow> 'n json_map \<Rightarrow> 'n leaf_trace list" where
  "trace as_f64 condition attrs = walk as_f64 attrs condition []"

section \<open>Properties\<close>

subsection \<open>Targets\<close>

interpretation wild: greedy_walk "(=)" "\<lambda>text. CHR ''*'' \<notin> set text" wildcard_loop
proof unfold_locales
  fix val pat p v star cp
  assume free: "CHR ''*'' \<notin> set val"
  have neq: "v < length val \<Longrightarrow> pat ! p = CHR ''*'' \<Longrightarrow> pat ! p \<noteq> val ! v"
    using free by (metis nth_mem)
  show "wildcard_loop pat val p v star cp =
     (if v < length val then
        if p < length pat \<and> pat ! p = CHR ''*'' then wildcard_loop pat val (p + 1) v (Some p) v
        else if p < length pat \<and> pat ! p = val ! v
        then wildcard_loop pat val (p + 1) (v + 1) star cp
        else (case star of Some s \<Rightarrow> wildcard_loop pat val (s + 1) (cp + 1) star (cp + 1) | None \<Rightarrow> False)
      else list_all (\<lambda>c. c = CHR ''*'') (drop p pat))"
    by (subst wildcard_loop.simps) (use neq in \<open>simp add: dropWhile_eq_Nil_conv list_all_iff\<close>)
qed

lemma wildcard_match_iff:
  "CHR ''*'' \<notin> set text \<Longrightarrow> wildcard_match pattern text \<longleftrightarrow> glob_rel (=) pattern text"
  unfolding wildcard_match_def by (rule wild.walk_correct)

lemma glob_rel_eq_refl: "CHR ''*'' \<notin> set ps \<Longrightarrow> glob_rel (=) ps vs \<longleftrightarrow> ps = vs"
proof (induction ps arbitrary: vs)
  case (Cons c ps)
  note lit = notin_ConsD[OF Cons.prems]
  then show ?case using Cons.IH by (cases vs) simp_all
qed (simp add: eq_commute)

lemma targets_iff:
  assumes "CHR ''*'' \<notin> set permission"
  shows "targets pattern permission = glob_rel (=) pattern permission"
proof (cases "CHR ''*'' \<in> set pattern")
  case True
  then have "pattern \<noteq> permission" using assms by metis
  then show ?thesis using True assms by (simp add: targets_def wildcard_match_iff)
next
  case False
  then show ?thesis by (simp add: targets_def glob_rel_eq_refl)
qed

text \<open>
  A target pattern covers a permission key exactly when the key splits along the pattern with
  \<open>*\<close> standing for any run of characters: \<open>targets\<close> (the exact-match shortcut, the no-wildcard
  shortcut and the greedy walk together) decides the declarative relation on every key that holds no
  literal star, which every key of the permission catalogue satisfies.
\<close>

theorem targets_correct:
  assumes "CHR ''*'' \<notin> set permission"
  shows "targets pattern permission = glob_rel (=) pattern permission"
  using assms by (rule targets_iff)

theorem targets_correct_witness:
  "targets ''content.*'' ''content.pages.publish'' = glob_rel (=) ''content.*'' ''content.pages.publish''"
  by (rule targets_correct) simp

text \<open>
  On a key that does hold a literal star the walk is not exact: the pattern \<open>*\<close>, which is
  documented to cover everything, does not cover \<open>*a\<close>, because the walk consumes the star as a
  literal and never records it as a wildcard.
\<close>

theorem star_misses_literal_star:
  "glob_rel (=) ''*'' ''*a'' \<and> \<not> targets ''*'' ''*a''"
proof
  show "glob_rel (=) ''*'' ''*a''"
    by (simp add: glob_rel_star_drop) (rule exI[of _ 2], simp)
  show "\<not> targets ''*'' ''*a''"
    by (simp add: targets_def wildcard_match_def wildcard_loop.simps)
qed

subsection \<open>The decision\<close>

definition outranks :: "'n policy \<Rightarrow> 'n policy \<Rightarrow> bool" where
  "outranks p q \<longleftrightarrow>
     policy_priority q < policy_priority p \<or>
     policy_priority q = policy_priority p \<and>
       (is_deny (policy_effect p) \<and> \<not> is_deny (policy_effect q) \<or>
        policy_effect p = policy_effect q \<and> policy_name p \<le> policy_name q)"

lemma decide_key_le: "decide_key p \<le> decide_key q \<longleftrightarrow> outranks p q"
  by (cases "policy_effect p"; cases "policy_effect q")
    (auto simp: decide_key_def outranks_def is_deny_def less_eq_prod_def)

lemma outranks_antisym:
  "outranks p q \<Longrightarrow> outranks q p \<Longrightarrow>
   (policy_effect p, policy_priority p, policy_name p) = (policy_effect q, policy_priority q, policy_name q)"
  unfolding outranks_def by (metis antisym order_less_asym)

lemma decide_Some:
  assumes "decide as_f64 policies permission attrs = Some m"
  shows "\<exists>p \<in> set policies. policy_matches as_f64 p permission attrs \<and> m = match_of p \<and>
    (\<forall>q \<in> set policies. policy_matches as_f64 q permission attrs \<longrightarrow> outranks p q)"
proof -
  let ?ms = "filter (\<lambda>p. policy_matches as_f64 p permission attrs) policies"
  obtain p ps where s: "sort_key decide_key ?ms = p # ps" and m: "m = match_of p"
    using assms by (auto simp: decide_def split: list.splits)
  then show ?thesis
    using sort_key_Cons_min[OF s] by (intro bexI[of _ p]) (auto simp: decide_key_le)
qed

lemma decide_None:
  "decide as_f64 policies permission attrs = None \<longleftrightarrow>
   (\<forall>q \<in> set policies. \<not> policy_matches as_f64 q permission attrs)"
proof -
  let ?ms = "filter (\<lambda>p. policy_matches as_f64 p permission attrs) policies"
  have "decide as_f64 policies permission attrs = None \<longleftrightarrow> sort_key decide_key ?ms = []"
    unfolding decide_def by (cases "sort_key decide_key ?ms") simp_all
  then show ?thesis by (simp add: sort_key_Nil_iff filter_empty_conv)
qed

text \<open>
  C8. \<open>PolicySet::decide\<close> answers nothing exactly when no policy matches, and otherwise reports a
  matching policy that outranks every other matching one: a higher priority wins, at equal priority
  a deny beats an allow, and at equal priority and effect the smaller name is reported.
\<close>

theorem decide_correct:
  "case decide as_f64 policies permission attrs of
     None \<Rightarrow> \<not> (\<exists>q \<in> set policies. policy_matches as_f64 q permission attrs)
   | Some m \<Rightarrow> \<exists>p \<in> set policies. policy_matches as_f64 p permission attrs \<and> m = match_of p \<and>
       \<not> (\<exists>q \<in> set policies. policy_matches as_f64 q permission attrs \<and> \<not> outranks p q)"
proof (cases "decide as_f64 policies permission attrs")
  case None
  then have "\<not> (\<exists>q \<in> set policies. policy_matches as_f64 q permission attrs)"
    by (simp add: decide_None)
  then show ?thesis using None by simp
next
  case (Some m)
  then show ?thesis using decide_Some[OF Some] by auto
qed

text \<open>
  The verdict of \<open>decide\<close> does not depend on the order in which the policies were loaded: two
  lists with the same policies give winners with the same effect, priority and name.
\<close>

theorem decide_order_independent:
  fixes policies :: "'n policy list"
  assumes "mset policies = mset policies'"
  shows "map_option (\<lambda>m. (pm_effect m, pm_priority m, pm_name m)) (decide as_f64 policies permission attrs) =
         map_option (\<lambda>m. (pm_effect m, pm_priority m, pm_name m)) (decide as_f64 policies' permission attrs)"
proof -
  have set: "set policies = set policies'" using assms by (rule mset_eq_setD)
  show ?thesis
  proof (cases "decide as_f64 policies permission attrs")
    case None
    then have "decide as_f64 policies' permission attrs = None" using set by (simp add: decide_None)
    then show ?thesis using None by simp
  next
    case (Some m)
    then obtain m' where m': "decide as_f64 policies' permission attrs = Some m'"
      using set by (metis decide_None not_Some_eq)
    obtain p :: "'n policy" where p: "p \<in> set policies" "policy_matches as_f64 p permission attrs"
        "m = match_of p" "\<forall>q \<in> set policies. policy_matches as_f64 q permission attrs \<longrightarrow> outranks p q"
      using decide_Some[OF Some] by blast
    obtain p' :: "'n policy" where p': "p' \<in> set policies'" "policy_matches as_f64 p' permission attrs"
        "m' = match_of p'" "\<forall>q \<in> set policies'. policy_matches as_f64 q permission attrs \<longrightarrow> outranks p' q"
      using decide_Some[OF m'] by blast
    have "outranks p p'" by (rule p(4)[rule_format]) (simp_all only: set p'(1,2))
    moreover have "outranks p' p" by (rule p'(4)[rule_format]) (simp_all only: set[symmetric] p(1,2))
    ultimately have "(policy_effect p, policy_priority p, policy_name p) =
        (policy_effect p', policy_priority p', policy_name p')" by (rule outranks_antisym)
    then show ?thesis using Some m' p(3) p'(3) by (simp add: match_of_def)
  qed
qed

definition witness_policy :: "uuid \<Rightarrow> string \<Rightarrow> policy_effect \<Rightarrow> int \<Rightarrow> int policy" where
  "witness_policy i name effect priority =
     \<lparr>policy_id = i, policy_name = name, policy_effect = effect, policy_priority = priority,
      policy_enabled = True, target_permissions = [''content.*''], policy_conditions = CAll []\<rparr>"

theorem decide_order_independent_witness:
  "map_option (\<lambda>m. (pm_effect m, pm_priority m, pm_name m))
     (decide id [witness_policy 1 ''a'' PolicyAllow 5, witness_policy 2 ''b'' PolicyDeny 5] ''content.read'' []) =
   map_option (\<lambda>m. (pm_effect m, pm_priority m, pm_name m))
     (decide id [witness_policy 2 ''b'' PolicyDeny 5, witness_policy 1 ''a'' PolicyAllow 5] ''content.read'' [])"
  by (rule decide_order_independent) simp

subsection \<open>Stored conditions\<close>

text \<open>The trees the builder writes: attributes are already trimmed and not empty.\<close>

fun condition_ok :: "'n condition \<Rightarrow> bool" where
  "condition_ok (CAll cs) = list_all condition_ok cs"
| "condition_ok (CAny cs) = list_all condition_ok cs"
| "condition_ok (CNot c) = condition_ok c"
| "condition_ok (CLeaf attribute op v) = (attribute \<noteq> [] \<and> trim attribute = attribute)"

lemma parse_children:
  assumes "\<And>c. c \<in> set cs \<Longrightarrow> condition_parse (condition_to_json c) = Inr c"
  shows "collect_results (map condition_parse (map condition_to_json cs)) = Inr cs"
proof -
  have "collect_results (map (\<lambda>c. condition_parse (condition_to_json c)) cs) = Inr (map id cs)"
    using assms by (intro collect_results_Inr_map) simp
  then show ?thesis by (simp add: o_def)
qed

lemma parse_to_json: "condition_ok c \<Longrightarrow> condition_parse (condition_to_json c) = Inr c"
proof (induction c)
  case (CAll cs)
  then have "collect_results (map condition_parse (map condition_to_json cs)) = Inr cs"
    by (intro parse_children) (simp add: list_all_iff)
  then show ?case by (subst condition_parse.simps) (simp add: bt_get_def)
next
  case (CAny cs)
  then have "collect_results (map condition_parse (map condition_to_json cs)) = Inr cs"
    by (intro parse_children) (simp add: list_all_iff)
  then show ?case by (subst condition_parse.simps) (simp add: bt_get_def)
next
  case (CNot c)
  then show ?case by (subst condition_parse.simps) (simp add: bt_get_def)
next
  case (CLeaf attribute op v)
  then show ?case
    by (subst condition_parse.simps)
      (simp add: bt_get_def bt_contains_def operator_parse_as_str)
qed

text \<open>
  Writing a condition tree and reading it back gives the same tree: \<open>Condition::parse\<close> after
  \<open>Condition::to_json\<close> is the identity on every tree whose leaves name a trimmed, non-empty
  attribute, whatever the nesting of \<open>all\<close>, \<open>any\<close> and \<open>not\<close>.
\<close>

theorem condition_roundtrip:
  assumes "condition_ok c"
  shows "condition_parse (condition_to_json c) = Inr c"
  using assms by (rule parse_to_json)

theorem condition_roundtrip_witness:
  "condition_parse (condition_to_json (CAll [CNot (CLeaf ''user.plan'' Equals (JString ''pro'')), CAny []]))
     = Inr (CAll [CNot (CLeaf ''user.plan'' Equals (JString ''pro'')), CAny []] :: int condition)"
  by (rule condition_roundtrip)
    (simp add: trim_def trim_start_def trim_end_def is_whitespace_def code_def)

text \<open>Conversely a tree that was read is one the builder could have written.\<close>

lemma collect_results_Inr_all:
  "collect_results (map f xs) = Inr ys \<Longrightarrow> \<forall>x \<in> set xs. \<forall>y. f x = Inr y \<longrightarrow> P y \<Longrightarrow> list_all P ys"
  by (induction xs arbitrary: ys) (auto simp: res_bind_Inr_conv)

lemma condition_parse_ok: "condition_parse value = Inr c \<Longrightarrow> condition_ok c"
proof (induction "value" arbitrary: c rule: condition_parse.induct)
  case (1 v)
  note parsed = "1.prems"[unfolded condition_parse.simps[of v]]
  obtain m where v: "as_object v = Some m" using parsed by (cases "as_object v") auto
  show ?case
  proof (cases "bt_get m ''all''")
    case all: (Some ch)
    then obtain xs cs where "as_array ch = Some xs" "collect_results (map condition_parse xs) = Inr cs"
      "c = CAll cs"
      using parsed v by (cases "as_array ch") (auto simp: res_bind_Inr_conv)
    then show ?thesis
      using "1.IH"(3)[OF v all] by (auto intro: collect_results_Inr_all)
  next
    case no_all: None
    show ?thesis
    proof (cases "bt_get m ''any''")
      case any: (Some ch)
      then obtain xs cs where "as_array ch = Some xs" "collect_results (map condition_parse xs) = Inr cs"
        "c = CAny cs"
        using parsed v no_all by (cases "as_array ch") (auto simp: res_bind_Inr_conv)
      then show ?thesis
        using "1.IH"(2)[OF v no_all any] by (auto intro: collect_results_Inr_all)
    next
      case no_any: None
      show ?thesis
      proof (cases "bt_get m ''not''")
        case (Some ch)
        then show ?thesis
          using parsed v no_all no_any "1.IH"(1)[OF v no_all no_any] by (auto simp: res_bind_Inr_conv)
      next
        case None
        then show ?thesis
          using parsed v no_all no_any
          by (simp split: option.splits if_splits) (drule sym, simp)
      qed
    qed
  qed
qed

text \<open>
  Reading is stable under rewriting: whatever stored document a condition was read from, writing
  the tree it was read as and reading that again gives the same tree, so saving a policy never
  changes what it means.
\<close>

theorem condition_parse_stable:
  assumes "condition_parse value = Inr c"
  shows "condition_parse (condition_to_json c) = Inr c"
  using parse_to_json[OF condition_parse_ok[OF assms]] .

theorem condition_parse_stable_witness:
  "condition_parse (condition_to_json (CAny [] :: int condition)) = Inr (CAny [])"
  by (rule condition_parse_stable[of "JObject [(''any'', JArray []), (''zzz'', JNull)]"])
    (simp add: condition_parse.simps bt_get_def)

subsection \<open>Attribute paths\<close>

lemma jwalk_insert_at:
  "jwalk (JObject (insert_at m ss k v)) (ss @ [k]) = Some v"
  by (induction ss arbitrary: m) (simp_all add: bt_get_insert Let_def)

lemma insert_at_frame:
  "s \<noteq> hd (ss @ [k]) \<Longrightarrow> bt_get (insert_at m ss k v) s = bt_get m s"
  by (cases ss) (simp_all add: bt_get_insert Let_def)

definition plain_path :: "string list \<Rightarrow> bool" where
  "plain_path segments = (segments \<noteq> [] \<and> list_all (\<lambda>p. p \<noteq> [] \<and> CHR ''.'' \<notin> set p) segments)"

definition dotted :: "string list \<Rightarrow> string" where
  "dotted segments = str_join ''.'' segments"

lemma split_dotted: "plain_path ss \<Longrightarrow> split_on CHR ''.'' (dotted ss) = ss"
  unfolding dotted_def plain_path_def list_all_iff by (rule split_on_join) auto

lemma attributes_get_walk:
  "plain_path ss \<Longrightarrow> attributes_get m (dotted ss) =
     (case jwalk (JObject m) ss of None \<Rightarrow> JNull | Some w \<Rightarrow> w)"
  by (cases ss) (simp_all add: attributes_get_def split_dotted split: option.split,
    simp add: plain_path_def)

lemma attributes_set_insert:
  assumes "plain_path ss"
  shows "attributes_set m (dotted ss) v = insert_at m (butlast ss) (last ss) v"
proof -
  have "filter (\<lambda>part. part \<noteq> []) ss = ss"
    using assms by (intro filter_True) (simp add: plain_path_def list_all_iff)
  then show ?thesis
    using assms by (simp add: attributes_set_def split_dotted plain_path_def)
qed

lemma attributes_get_set_same:
  assumes "plain_path path"
  shows "attributes_get (attributes_set m (dotted path) v) (dotted path) = v"
proof -
  have ne: "path \<noteq> []" using assms by (simp add: plain_path_def)
  have "jwalk (JObject (insert_at m (butlast path) (last path) v)) path = Some v"
    using jwalk_insert_at[of m "butlast path" "last path" v] ne by simp
  then show ?thesis by (simp add: attributes_set_insert[OF assms] attributes_get_walk[OF assms])
qed

lemma attributes_get_set_other:
  assumes path: "plain_path path" and other: "plain_path other" "hd other \<noteq> hd path"
  shows "attributes_get (attributes_set m (dotted path) v) (dotted other) = attributes_get m (dotted other)"
proof -
  have ne: "path \<noteq> []" using path by (simp add: plain_path_def)
  obtain k ks where "other = k # ks" using other(1) by (cases other) (auto simp: plain_path_def)
  moreover have "bt_get (insert_at m (butlast path) (last path) v) (hd other) = bt_get m (hd other)"
    using other(2) ne by (intro insert_at_frame) simp
  ultimately show ?thesis
    unfolding attributes_set_insert[OF path] attributes_get_walk[OF other(1)] by simp
qed

text \<open>What the callers of the attribute set rely on, and what follows for a sequence of writes.\<close>

locale attribute_store =
  fixes get :: "'m \<Rightarrow> string list \<Rightarrow> 'v" and put :: "'m \<Rightarrow> string list \<Rightarrow> 'v \<Rightarrow> 'm"
    and ok :: "string list \<Rightarrow> bool"
  assumes get_put_same: "ok p \<Longrightarrow> get (put m p v) p = v"
    and get_put_other: "ok p \<Longrightarrow> ok q \<Longrightarrow> hd q \<noteq> hd p \<Longrightarrow> get (put m p v) q = get m q"
begin

definition put_all :: "(string list \<times> 'v) list \<Rightarrow> 'm \<Rightarrow> 'm" where
  "put_all writes m = fold (\<lambda>(p, v) m. put m p v) writes m"

lemma get_put_all_other:
  "list_all (\<lambda>(p, v). ok p \<and> hd q \<noteq> hd p) writes \<Longrightarrow> ok q \<Longrightarrow> get (put_all writes m) q = get m q"
  unfolding put_all_def by (induction writes arbitrary: m) (auto simp: get_put_other)

lemma get_put_all_last:
  assumes "list_all (\<lambda>(p, v). ok p \<and> hd q \<noteq> hd p) later" and "ok q"
  shows "get (put_all later (put m q v)) q = v"
  using get_put_all_other[OF assms] assms(2) by (simp add: get_put_same)

end

interpretation attrs: attribute_store "\<lambda>m p. attributes_get m (dotted p)"
    "\<lambda>m p v. attributes_set m (dotted p) v" plain_path
  by unfold_locales (simp_all add: attributes_get_set_same attributes_get_set_other)

text \<open>
  An attribute that was set is the attribute that is read: for every dotted path of non-empty
  segments, \<open>Attributes::get\<close> after \<open>Attributes::set\<close> returns the value, through any number of
  intermediate objects and whatever stood on the way; attributes under another first segment are
  untouched.
\<close>

theorem attributes_get_set:
  assumes "plain_path path"
  shows "attributes_get (attributes_set m (dotted path) v) (dotted path) = v \<and>
    (\<forall>other. plain_path other \<longrightarrow> hd other \<noteq> hd path \<longrightarrow>
       attributes_get (attributes_set m (dotted path) v) (dotted other) = attributes_get m (dotted other))"
  using assms attrs.get_put_same attrs.get_put_other by blast

theorem attributes_get_set_witness:
  "attributes_get (attributes_set [] (dotted [''resource'', ''path'']) (JString ''/blog'' :: int json))
     (dotted [''resource'', ''path'']) = JString ''/blog''"
  by (rule conjunct1[OF attributes_get_set]) (simp add: plain_path_def)

end
