(* ===== verification/IamModel.thy ===== *)
theory IamModel
  imports Json Matching
begin

text \<open>
  The value types of the permissions crate (\<open>crates/permissions/src/model.rs\<close>) and the pure part of
  its version history (\<open>versions.rs\<close>): effects, roles, subjects, request contexts, scopes with
  their stored columns, role bindings with their life time, permission sets and their diffs, and
  the validators of role keys, names and priorities. The texts that error values carry for a
  reader are dropped; their structured fields are kept.
\<close>

subsection \<open>Errors\<close>

datatype permissions_error =
    DatabaseError
  | InvalidRoleKey string
  | InvalidRoleName string
  | InvalidPriority int int
  | UnknownPermission string
  | RoleNotFound
  | RoleKeyTaken
  | SelfInheritance
  | InheritanceCycle
  | InheritanceDepthExceeded nat
  | RoleHasBindings nat
  | VersionConflict int int
  | InvalidEntries "string list" "string list"
  | CrossOrganizationInheritance
  | SystemRole
  | InvalidScope
  | InvalidBinding
  | AlreadyBound
  | GroupNotFound
  | InvalidGroupName string
  | GroupNameTaken
  | ServiceAccountNotFound
  | InvalidServiceAccountName string
  | ServiceAccountNameTaken
  | InvalidMachineKey
  | PolicyNotFound
  | InvalidPolicy
  | UnknownSimulatedAction string
  | RequestNotFound
  | RequestAlreadyDecided
  | InvalidRequest

definition MAX_PRIORITY :: int where "MAX_PRIORITY = 1000"
definition MIN_PRIORITY :: int where "MIN_PRIORITY = 0"
definition MAX_INHERITANCE_DEPTH :: nat where "MAX_INHERITANCE_DEPTH = 8"
definition MAX_ROLE_KEY_LENGTH :: nat where "MAX_ROLE_KEY_LENGTH = 64"
definition MAX_ROLE_NAME_LENGTH :: nat where "MAX_ROLE_NAME_LENGTH = 80"

subsection \<open>Effects, roles and their entries\<close>

datatype effect = Allow | Deny

fun effect_as_str :: "effect \<Rightarrow> string" where
  "effect_as_str Allow = ''allow''"
| "effect_as_str Deny = ''deny''"

definition effect_from_stored :: "string \<Rightarrow> permissions_error + effect" where
  "effect_from_stored v =
     (if v = ''allow'' then Inr Allow else if v = ''deny'' then Inr Deny else Inl InvalidScope)"

record role =
  role_id :: uuid
  role_organization_id :: "uuid option"
  role_key :: string
  role_name :: string
  role_description :: string
  role_priority :: int
  inherits_role_id :: "uuid option"
  inherit_permissions :: bool
  is_system :: bool
  role_created_at :: instant
  role_updated_at :: instant

record role_permission =
  rp_key :: string
  rp_effect :: effect

record role_assignment =
  ra_role :: role
  ra_permissions :: "role_permission list"

definition entry :: "role_assignment \<Rightarrow> string \<Rightarrow> effect option" where
  "entry a key = map_option rp_effect (find (\<lambda>e. rp_key e = key) (ra_permissions a))"

subsection \<open>Subjects\<close>

datatype subject = SubjectUser uuid | SubjectGroup uuid | SubjectServiceAccount uuid

fun subject_type :: "subject \<Rightarrow> string" where
  "subject_type (SubjectUser _) = ''user''"
| "subject_type (SubjectGroup _) = ''group''"
| "subject_type (SubjectServiceAccount _) = ''service_account''"

fun subject_id :: "subject \<Rightarrow> uuid" where
  "subject_id (SubjectUser i) = i"
| "subject_id (SubjectGroup i) = i"
| "subject_id (SubjectServiceAccount i) = i"

definition subject_from_parts :: "string \<Rightarrow> uuid \<Rightarrow> permissions_error + subject" where
  "subject_from_parts t i =
     (if t = ''user'' then Inr (SubjectUser i)
      else if t = ''group'' then Inr (SubjectGroup i)
      else if t = ''service_account'' then Inr (SubjectServiceAccount i)
      else Inl InvalidScope)"

subsection \<open>Scopes\<close>

record resource_context =
  rc_organization_id :: "uuid option"
  rc_site_id :: "uuid option"
  rc_department :: "string option"
  rc_module :: "string option"
  rc_path :: "string option"

datatype scope =
    ScopeGlobal
  | ScopeOrganization uuid
  | ScopeSite "uuid option" uuid
  | ScopeDepartment uuid string
  | ScopeModule "uuid option" "uuid option" string
  | ScopeResource "uuid option" "uuid option" string string

fun scope_organization_id :: "scope \<Rightarrow> uuid option" where
  "scope_organization_id ScopeGlobal = None"
| "scope_organization_id (ScopeOrganization organization_id) = Some organization_id"
| "scope_organization_id (ScopeSite organization_id _) = organization_id"
| "scope_organization_id (ScopeDepartment organization_id _) = Some organization_id"
| "scope_organization_id (ScopeModule organization_id _ _) = organization_id"
| "scope_organization_id (ScopeResource organization_id _ _ _) = organization_id"

fun scope_site_id :: "scope \<Rightarrow> uuid option" where
  "scope_site_id ScopeGlobal = None"
| "scope_site_id (ScopeOrganization _) = None"
| "scope_site_id (ScopeDepartment _ _) = None"
| "scope_site_id (ScopeSite _ site_id) = Some site_id"
| "scope_site_id (ScopeModule _ site_id _) = site_id"
| "scope_site_id (ScopeResource _ site_id _ _) = site_id"

fun scope_type :: "scope \<Rightarrow> string" where
  "scope_type ScopeGlobal = ''global''"
| "scope_type (ScopeOrganization _) = ''organization''"
| "scope_type (ScopeSite _ _) = ''site''"
| "scope_type (ScopeDepartment _ _) = ''department''"
| "scope_type (ScopeModule _ _ _) = ''module''"
| "scope_type (ScopeResource _ _ _ _) = ''resource''"

fun scope_resource_type :: "scope \<Rightarrow> string option" where
  "scope_resource_type (ScopeResource _ _ resource_type _) = Some resource_type"
| "scope_resource_type _ = None"

fun scope_resource_id :: "scope \<Rightarrow> string option" where
  "scope_resource_id (ScopeDepartment _ department) = Some department"
| "scope_resource_id (ScopeModule _ _ module) = Some module"
| "scope_resource_id (ScopeResource _ _ _ resource_id) = Some resource_id"
| "scope_resource_id _ = None"

text \<open>\<open>Option::is_none_or\<close> of a comparison with the context's own field.\<close>

definition is_none_or_eq :: "'a option \<Rightarrow> 'a option \<Rightarrow> bool" where
  "is_none_or_eq own actual = (case own of None \<Rightarrow> True | Some x \<Rightarrow> actual = Some x)"

fun applies_to :: "scope \<Rightarrow> resource_context \<Rightarrow> bool" where
  "applies_to ScopeGlobal c = True"
| "applies_to (ScopeOrganization organization_id) c = (rc_organization_id c = Some organization_id)"
| "applies_to (ScopeSite _ site_id) c = (rc_site_id c = Some site_id)"
| "applies_to (ScopeDepartment organization_id department) c =
     (rc_organization_id c = Some organization_id \<and> rc_department c = Some department)"
| "applies_to (ScopeModule organization_id site_id module) c =
     (rc_module c = Some module \<and> is_none_or_eq organization_id (rc_organization_id c) \<and>
      is_none_or_eq site_id (rc_site_id c))"
| "applies_to (ScopeResource organization_id site_id resource_type resource_id) c =
     ((if resource_type = ''path''
       then (case rc_path c of None \<Rightarrow> False | Some path \<Rightarrow> glob_matches resource_id path)
       else if resource_type = ''module'' then rc_module c = Some resource_id
       else False) \<and>
      is_none_or_eq organization_id (rc_organization_id c) \<and>
      is_none_or_eq site_id (rc_site_id c))"

definition context_from_scope :: "scope \<Rightarrow> resource_context" where
  "context_from_scope s =
     \<lparr>rc_organization_id = scope_organization_id s, rc_site_id = scope_site_id s,
      rc_department = None, rc_module = None, rc_path = None\<rparr>"

definition with_path :: "resource_context \<Rightarrow> string \<Rightarrow> resource_context" where
  "with_path c path = c\<lparr>rc_path := Some path\<rparr>"

text \<open>The text of a scope in audit metadata; how a UUID prints is a parameter.\<close>

fun scope_describe :: "(uuid \<Rightarrow> string) \<Rightarrow> scope \<Rightarrow> string" where
  "scope_describe show_uuid ScopeGlobal = ''global''"
| "scope_describe show_uuid (ScopeOrganization organization_id) =
     ''organization:'' @ show_uuid organization_id"
| "scope_describe show_uuid (ScopeSite _ site_id) = ''site:'' @ show_uuid site_id"
| "scope_describe show_uuid (ScopeDepartment organization_id department) =
     ''department:'' @ department @ ''@'' @ show_uuid organization_id"
| "scope_describe show_uuid (ScopeModule _ site_id module) =
     (case site_id of
        Some s \<Rightarrow> ''module:'' @ module @ ''@site:'' @ show_uuid s
      | None \<Rightarrow> ''module:'' @ module)"
| "scope_describe show_uuid (ScopeResource _ site_id resource_type resource_id) =
     (case site_id of
        Some s \<Rightarrow> ''resource:'' @ resource_type @ '':'' @ resource_id @ ''@site:'' @ show_uuid s
      | None \<Rightarrow> ''resource:'' @ resource_type @ '':'' @ resource_id)"

text \<open>The match of \<open>Scope::from_parts\<close> on the five stored columns.\<close>

definition scope_from_parts ::
  "string \<Rightarrow> uuid option \<Rightarrow> uuid option \<Rightarrow> string option \<Rightarrow> string option \<Rightarrow> permissions_error + scope" where
  "scope_from_parts t organization_id site_id resource_type resource_id =
     (if t = ''global'' \<and> organization_id = None \<and> site_id = None \<and> resource_type = None \<and> resource_id = None
      then Inr ScopeGlobal
      else if t = ''organization'' \<and> organization_id \<noteq> None \<and> site_id = None \<and> resource_type = None \<and> resource_id = None
      then Inr (ScopeOrganization (the organization_id))
      else if t = ''site'' \<and> site_id \<noteq> None \<and> resource_type = None \<and> resource_id = None
      then Inr (ScopeSite organization_id (the site_id))
      else if t = ''department'' \<and> organization_id \<noteq> None \<and> site_id = None \<and> resource_type = None \<and> resource_id \<noteq> None
      then Inr (ScopeDepartment (the organization_id) (the resource_id))
      else if t = ''module'' \<and> resource_type = None \<and> resource_id \<noteq> None \<and> (organization_id \<noteq> None \<or> site_id \<noteq> None)
      then Inr (ScopeModule organization_id site_id (the resource_id))
      else if t = ''resource'' \<and> resource_type \<noteq> None \<and> resource_id \<noteq> None \<and> (organization_id \<noteq> None \<or> site_id \<noteq> None)
      then Inr (ScopeResource organization_id site_id (the resource_type) (the resource_id))
      else Inl InvalidScope)"

subsection \<open>Role bindings\<close>

record role_binding =
  binding_id :: uuid
  binding_role_id :: uuid
  binding_subject :: subject
  binding_user_id :: "uuid option"
  binding_scope :: scope
  granted_by :: "uuid option"
  expires_at :: "instant option"
  revoked_at :: "instant option"
  binding_created_at :: instant

definition is_active_at :: "role_binding \<Rightarrow> instant \<Rightarrow> bool" where
  "is_active_at b now =
     (revoked_at b = None \<and> (case expires_at b of None \<Rightarrow> True | Some expires \<Rightarrow> expires > now))"

definition is_expired_at :: "role_binding \<Rightarrow> instant \<Rightarrow> bool" where
  "is_expired_at b now =
     (revoked_at b = None \<and> (case expires_at b of None \<Rightarrow> False | Some expires \<Rightarrow> expires \<le> now))"

subsection \<open>Permission sets, versions and diffs\<close>

record permission_change =
  change_key :: string
  change_from :: "effect option"
  change_to :: "effect option"

record role_diff =
  diff_added :: "role_permission list"
  diff_changed :: "permission_change list"
  diff_removed :: "role_permission list"

definition diff_is_empty :: "role_diff \<Rightarrow> bool" where
  "diff_is_empty d = (diff_added d = [] \<and> diff_changed d = [] \<and> diff_removed d = [])"

definition diff_total :: "role_diff \<Rightarrow> nat" where
  "diff_total d = length (diff_added d) + length (diff_changed d) + length (diff_removed d)"

definition entry_map :: "role_permission list \<Rightarrow> (string, effect) btree_map" where
  "entry_map entries = bt_collect (map (\<lambda>e. (rp_key e, rp_effect e)) entries)"

definition role_permission_of :: "string \<times> effect \<Rightarrow> role_permission" where
  "role_permission_of e = \<lparr>rp_key = fst e, rp_effect = snd e\<rparr>"

definition change_of :: "(string, effect) btree_map \<Rightarrow> string \<times> effect \<Rightarrow> permission_change" where
  "change_of before_map e =
     \<lparr>change_key = fst e, change_from = bt_get before_map (fst e), change_to = Some (snd e)\<rparr>"

definition diff :: "role_permission list \<Rightarrow> role_permission list \<Rightarrow> role_diff" where
  "diff before after =
     (let before_map = entry_map before; after_map = entry_map after in
      \<lparr>diff_added =
         map role_permission_of (filter (\<lambda>(k, _). bt_get before_map k = None) after_map),
       diff_changed =
         map (change_of before_map)
           (filter (\<lambda>(k, e). case bt_get before_map k of None \<Rightarrow> False | Some previous \<Rightarrow> previous \<noteq> e) after_map),
       diff_removed =
         map role_permission_of (filter (\<lambda>(k, _). \<not> bt_contains after_map k) before_map)\<rparr>)"

text \<open>The \<open>permissions\<close> column of a version row: how \<open>versions::record\<close> writes it and how
  \<open>RoleVersion::entries\<close> reads it back.\<close>

definition version_permissions :: "role_permission list \<Rightarrow> 'n json" where
  "version_permissions entries =
     JArray (map (\<lambda>e. JObject (bt_collect
       [(''key'', JString (rp_key e)), (''effect'', JString (effect_as_str (rp_effect e)))])) entries)"

definition version_entry :: "'n json \<Rightarrow> role_permission option" where
  "version_entry item =
     (case Option.bind (jget item ''key'') as_str of
        None \<Rightarrow> None
      | Some key \<Rightarrow>
          (case Option.bind (jget item ''effect'') as_str of
             None \<Rightarrow> None
           | Some stored \<Rightarrow>
               (case effect_from_stored stored of
                  Inl _ \<Rightarrow> None
                | Inr effect \<Rightarrow> Some \<lparr>rp_key = key, rp_effect = effect\<rparr>)))"

definition version_entries :: "'n json \<Rightarrow> role_permission list" where
  "version_entries permissions =
     (case as_array permissions of None \<Rightarrow> [] | Some items \<Rightarrow> List.map_filter version_entry items)"

definition diff_versions :: "'n json \<Rightarrow> 'n json \<Rightarrow> role_diff" where
  "diff_versions previous next = diff (version_entries previous) (version_entries next)"

subsection \<open>Validators\<close>

definition role_key_char :: "char \<Rightarrow> bool" where
  "role_key_char c = (is_ascii_lowercase c \<or> is_ascii_digit c \<or> c = CHR ''-'')"

definition validate_role_key :: "string \<Rightarrow> permissions_error + string" where
  "validate_role_key raw =
     (let key = to_lowercase (trim raw);
          shaped = (key \<noteq> [] \<and> str_len key \<le> MAX_ROLE_KEY_LENGTH \<and> is_ascii_lowercase (hd key) \<and>
                    (is_ascii_lowercase (last key) \<or> is_ascii_digit (last key)) \<and>
                    list_all role_key_char key)
      in if shaped then Inr key else Inl (InvalidRoleKey key))"

definition validate_role_name :: "string \<Rightarrow> permissions_error + string" where
  "validate_role_name raw =
     (let name = trim raw in
      if name = [] \<or> length name > MAX_ROLE_NAME_LENGTH then Inl (InvalidRoleName name) else Inr name)"

definition validate_priority :: "int \<Rightarrow> permissions_error + int" where
  "validate_priority priority =
     (if MIN_PRIORITY \<le> priority \<and> priority \<le> MAX_PRIORITY then Inr priority
      else Inl (InvalidPriority MIN_PRIORITY MAX_PRIORITY))"

subsection \<open>Scopes: stored columns and reach\<close>

text \<open>The shape the schema enforces: a module or resource scope names an organization or a site.\<close>

fun scope_ok :: "scope \<Rightarrow> bool" where
  "scope_ok (ScopeModule organization_id site_id _) = (organization_id \<noteq> None \<or> site_id \<noteq> None)"
| "scope_ok (ScopeResource organization_id site_id _ _) = (organization_id \<noteq> None \<or> site_id \<noteq> None)"
| "scope_ok _ = True"

definition scope_columns ::
  "scope \<Rightarrow> string \<times> uuid option \<times> uuid option \<times> string option \<times> string option" where
  "scope_columns s =
     (scope_type s, scope_organization_id s, scope_site_id s, scope_resource_type s, scope_resource_id s)"

lemma scope_from_parts_columns:
  "scope_ok s \<Longrightarrow> scope_columns s = (t, organization_id, site_id, resource_type, resource_id) \<Longrightarrow>
   scope_from_parts t organization_id site_id resource_type resource_id = Inr s"
  by (cases s) (auto simp: scope_columns_def scope_from_parts_def)

lemma scope_columns_from_parts:
  "scope_from_parts t organization_id site_id resource_type resource_id = Inr s \<Longrightarrow>
   scope_ok s \<and> scope_columns s = (t, organization_id, site_id, resource_type, resource_id)"
  by (cases organization_id; cases site_id; cases resource_type; cases resource_id)
    (clarsimp simp: scope_from_parts_def scope_columns_def split: if_split_asm)+

text \<open>
  A scope and its five stored columns determine each other: \<open>Scope::from_parts\<close> accepts exactly
  the columns that the accessors write for a scope the schema allows, and gives that scope back;
  every other combination of columns is refused.
\<close>

theorem scope_columns_roundtrip:
  "scope_from_parts t organization_id site_id resource_type resource_id = Inr s \<longleftrightarrow>
   scope_ok s \<and> scope_columns s = (t, organization_id, site_id, resource_type, resource_id)"
  by (metis scope_columns_from_parts scope_from_parts_columns)

text \<open>
  Bindings never reach outside what they name: a scope that applies to a request and carries an
  organization applies only inside that organization (a site scope is tied to its site instead),
  and a scope that carries a site applies only on that site.
\<close>

theorem applies_to_isolated:
  assumes "applies_to s c"
  shows "(\<forall>site. scope_site_id s = Some site \<longrightarrow> rc_site_id c = Some site) \<and>
    (\<forall>org. scope_organization_id s = Some org \<longrightarrow> scope_type s \<noteq> ''site'' \<longrightarrow>
       rc_organization_id c = Some org)"
  using assms by (cases s) (auto simp: is_none_or_eq_def split: option.splits)

theorem applies_to_isolated_witness:
  "applies_to (ScopeModule (Some 7) None ''content'')
     \<lparr>rc_organization_id = Some 7, rc_site_id = Some 3, rc_department = None,
       rc_module = Some ''content'', rc_path = None\<rparr> \<and>
   rc_organization_id \<lparr>rc_organization_id = Some 7, rc_site_id = Some 3, rc_department = None,
       rc_module = Some ''content'', rc_path = None\<rparr> = scope_organization_id (ScopeModule (Some 7) None ''content'')"
  using applies_to_isolated[of "ScopeModule (Some 7) None ''content''"
      "\<lparr>rc_organization_id = Some 7, rc_site_id = Some 3, rc_department = None,
        rc_module = Some ''content'', rc_path = None\<rparr>"]
  by (simp add: is_none_or_eq_def)

subsection \<open>Life time of a binding\<close>

text \<open>
  A binding that was not revoked is at every instant either active or expired, never both; a
  revoked one is neither; and once a binding has stopped applying no later instant revives it.
\<close>

theorem binding_lifetime:
  "(revoked_at b = None \<longrightarrow> is_active_at b now \<noteq> is_expired_at b now) \<and>
   (revoked_at b \<noteq> None \<longrightarrow> \<not> is_active_at b now \<and> \<not> is_expired_at b now) \<and>
   (\<not> is_active_at b now \<and> now \<le> later \<longrightarrow> \<not> is_active_at b later)"
  by (auto simp: is_active_at_def is_expired_at_def split: option.splits)

theorem binding_lifetime_witness:
  "\<not> is_active_at \<lparr>binding_id = 1, binding_role_id = 2, binding_subject = SubjectUser 3,
      binding_user_id = Some 3, binding_scope = ScopeGlobal, granted_by = None,
      expires_at = Some 10, revoked_at = None, binding_created_at = 0\<rparr> 12"
  using binding_lifetime[of "\<lparr>binding_id = 1, binding_role_id = 2, binding_subject = SubjectUser 3,
      binding_user_id = Some 3, binding_scope = ScopeGlobal, granted_by = None,
      expires_at = Some 10, revoked_at = None, binding_created_at = 0\<rparr>" 10 12]
  by (simp add: is_active_at_def)

subsection \<open>Diffs of permission sets\<close>

lemma entry_map_ok: "bt_ok (entry_map es)"
  unfolding entry_map_def bt_collect_def by (rule bt.invar_fold) (simp add: bt_ok_def)

lemma entry_map_mem: "(k, e) \<in> set (entry_map es) \<longleftrightarrow> bt_get (entry_map es) k = Some e"
  using entry_map_ok[of es] by (metis bt_get_mem bt_mem_get)

lemma role_permission_eta: "\<lparr>rp_key = rp_key x, rp_effect = rp_effect x\<rparr> = x" for x :: role_permission
  by (cases x) simp

lemma diff_added_iff:
  "\<lparr>rp_key = k, rp_effect = e\<rparr> \<in> set (diff_added (diff before after)) \<longleftrightarrow>
   bt_get (entry_map before) k = None \<and> bt_get (entry_map after) k = Some e"
  by (force simp: diff_def Let_def role_permission_of_def entry_map_mem)

lemma diff_removed_iff:
  "\<lparr>rp_key = k, rp_effect = e\<rparr> \<in> set (diff_removed (diff before after)) \<longleftrightarrow>
   bt_get (entry_map before) k = Some e \<and> bt_get (entry_map after) k = None"
  by (force simp: diff_def Let_def role_permission_of_def entry_map_mem bt_contains_def)

lemma diff_changed_iff:
  "c \<in> set (diff_changed (diff before after)) \<longleftrightarrow>
   (\<exists>x y. change_from c = Some x \<and> change_to c = Some y \<and> x \<noteq> y \<and>
      bt_get (entry_map before) (change_key c) = Some x \<and> bt_get (entry_map after) (change_key c) = Some y)"
proof
  assume "c \<in> set (diff_changed (diff before after))"
  then show "\<exists>x y. change_from c = Some x \<and> change_to c = Some y \<and> x \<noteq> y \<and>
      bt_get (entry_map before) (change_key c) = Some x \<and> bt_get (entry_map after) (change_key c) = Some y"
    by (auto simp: diff_def Let_def change_of_def entry_map_mem split: option.splits)
next
  assume "\<exists>x y. change_from c = Some x \<and> change_to c = Some y \<and> x \<noteq> y \<and>
      bt_get (entry_map before) (change_key c) = Some x \<and> bt_get (entry_map after) (change_key c) = Some y"
  then obtain x y where c: "change_from c = Some x" "change_to c = Some y" "x \<noteq> y"
      "bt_get (entry_map before) (change_key c) = Some x" "bt_get (entry_map after) (change_key c) = Some y"
    by blast
  then have "(change_key c, y) \<in> set (entry_map after)" by (simp add: entry_map_mem)
  moreover have "c = change_of (entry_map before) (change_key c, y)"
    using c by (simp add: change_of_def)
  ultimately show "c \<in> set (diff_changed (diff before after))"
    using c by (force simp: diff_def Let_def)
qed

lemma diff_empty_iff: "diff_is_empty (diff before after) \<longleftrightarrow> entry_map before = entry_map after"
proof
  assume e: "diff_is_empty (diff before after)"
  have "bt_get (entry_map before) k = bt_get (entry_map after) k" for k
  proof (rule ccontr)
    assume ne: "bt_get (entry_map before) k \<noteq> bt_get (entry_map after) k"
    have none: "diff_added (diff before after) = []" "diff_changed (diff before after) = []"
      "diff_removed (diff before after) = []" using e by (simp_all add: diff_is_empty_def)
    show False
      using ne none diff_added_iff[of k _ before after] diff_removed_iff[of k _ before after]
        diff_changed_iff[of "\<lparr>change_key = k, change_from = bt_get (entry_map before) k,
          change_to = bt_get (entry_map after) k\<rparr>" before after]
      by (cases "bt_get (entry_map before) k"; cases "bt_get (entry_map after) k") auto
  qed
  then show "entry_map before = entry_map after"
    by (rule bt_ok_ext[OF entry_map_ok entry_map_ok])
next
  assume "entry_map before = entry_map after"
  then have eq: "bt_get (entry_map before) k = bt_get (entry_map after) k" for k by simp
  have "x \<notin> set (diff_added (diff before after))" "x \<notin> set (diff_removed (diff before after))" for x
    using eq[of "rp_key x"] diff_added_iff[of "rp_key x" "rp_effect x" before after]
      diff_removed_iff[of "rp_key x" "rp_effect x" before after]
    unfolding role_permission_eta by auto
  moreover have "c \<notin> set (diff_changed (diff before after))" for c
    using eq by (auto simp: diff_changed_iff)
  ultimately show "diff_is_empty (diff before after)"
    unfolding diff_is_empty_def by (meson all_not_in_conv set_empty)
qed

text \<open>
  The diff of two permission sets is exact: a key is reported as added, removed or flipped
  exactly when the two sets' effective entries (the last one written for a key) say so, with the
  right effects, and the diff is empty only for sets that mean the same.
\<close>

theorem diff_correct:
  "(\<lparr>rp_key = k, rp_effect = e\<rparr> \<in> set (diff_added (diff before after)) \<longleftrightarrow>
      bt_get (entry_map before) k = None \<and> bt_get (entry_map after) k = Some e) \<and>
   (\<lparr>rp_key = k, rp_effect = e\<rparr> \<in> set (diff_removed (diff before after)) \<longleftrightarrow>
      bt_get (entry_map before) k = Some e \<and> bt_get (entry_map after) k = None) \<and>
   (\<lparr>change_key = k, change_from = Some x, change_to = Some y\<rparr> \<in> set (diff_changed (diff before after)) \<longleftrightarrow>
      x \<noteq> y \<and> bt_get (entry_map before) k = Some x \<and> bt_get (entry_map after) k = Some y) \<and>
   (diff_is_empty (diff before after) \<longleftrightarrow> entry_map before = entry_map after)"
  unfolding diff_added_iff diff_removed_iff diff_changed_iff diff_empty_iff by auto

lemma effect_roundtrip: "effect_from_stored (effect_as_str e) = Inr e"
  by (cases e) (simp_all add: effect_from_stored_def)

lemma version_entry_roundtrip:
  "version_entry (JObject (bt_collect
     [(''key'', JString (rp_key e)), (''effect'', JString (effect_as_str (rp_effect e)))])) = Some e"
  by (simp add: version_entry_def bt_collect_def bt_get_def effect_roundtrip)

lemma version_entries_written: "version_entries (version_permissions es) = es"
  by (induction es) (simp_all add: version_entries_def version_permissions_def
    version_entry_roundtrip List.map_filter_simps)

text \<open>
  A version row gives back the permission set it was written from, so the history tab compares
  exactly the sets that were saved.
\<close>

theorem version_roundtrip:
  "version_entries (version_permissions entries) = entries \<and>
   diff_versions (version_permissions before) (version_permissions after) = diff before after"
  by (simp add: diff_versions_def version_entries_written)

subsection \<open>Role keys\<close>

lemma role_key_char_stable: "role_key_char c \<Longrightarrow> lower_char c = c \<and> \<not> is_whitespace c"
  by (auto simp: role_key_char_def lower_char_def is_whitespace_def is_ascii_lowercase_def
    is_ascii_uppercase_def is_ascii_digit_def code_def)

lemma role_key_stable: "list_all role_key_char k \<Longrightarrow> to_lowercase (trim k) = k"
proof -
  assume k: "list_all role_key_char k"
  have "trim k = k" using k by (intro trim_no_whitespace) (simp add: list_all_iff role_key_char_stable)
  moreover have "to_lowercase k = k" unfolding to_lowercase_def
    using k by (intro map_idI) (simp add: list_all_iff role_key_char_stable)
  ultimately show ?thesis by simp
qed

text \<open>
  An accepted role key is canonical: it uses only lowercase letters, digits and dashes, starts
  with a letter, ends with a letter or a digit, fits in 64 bytes, and validating it again accepts it
  unchanged.
\<close>

theorem validate_role_key_canonical:
  assumes "validate_role_key raw = Inr key"
  shows "validate_role_key key = Inr key \<and> list_all role_key_char key \<and> key \<noteq> [] \<and>
    is_ascii_lowercase (hd key) \<and> last key \<noteq> CHR ''-'' \<and> str_len key \<le> 64"
proof -
  have k: "key \<noteq> [] \<and> str_len key \<le> MAX_ROLE_KEY_LENGTH \<and> is_ascii_lowercase (hd key) \<and>
      (is_ascii_lowercase (last key) \<or> is_ascii_digit (last key)) \<and> list_all role_key_char key"
    using assms by (simp add: validate_role_key_def Let_def split: if_split_asm)
  then have "to_lowercase (trim key) = key" by (intro role_key_stable) simp
  then have "validate_role_key key = Inr key" using k by (simp add: validate_role_key_def)
  moreover have "last key \<noteq> CHR ''-''"
    using k by (auto simp: is_ascii_lowercase_def is_ascii_digit_def code_def)
  ultimately show ?thesis using k by (simp add: MAX_ROLE_KEY_LENGTH_def)
qed

theorem validate_role_key_canonical_witness:
  "validate_role_key ''team-a'' = Inr ''team-a'' \<and> last ''team-a'' \<noteq> CHR ''-''"
  using validate_role_key_canonical[of "'' Team-A ''" "''team-a''"]
  by (simp add: validate_role_key_def trim_def trim_start_def trim_end_def is_whitespace_def
    to_lowercase_def lower_char_def str_len_def role_key_char_def is_ascii_lowercase_def
    is_ascii_uppercase_def is_ascii_digit_def code_def MAX_ROLE_KEY_LENGTH_def char_of_def)

end
