(* ===== verification/RoleGraph.thy ===== *)
theory RoleGraph
  imports IamModel "HOL-Library.Product_Lexorder"
begin

text \<open>
  The role resolver (\<open>crates/permissions/src/evaluate.rs\<close>): provenance and decisions, the effective
  permission set with its two ordered maps, the inheritance walk of \<open>RoleGraph::effective\<close> with its
  visited set, and the simulator's \<open>RoleGraph::trace\<close>. The lemmas show that the walk ends on every
  graph, cycles included, that it visits exactly the roles reachable along the inheritance links,
  and from that what each decision means.
\<close>

subsection \<open>Provenance and decisions\<close>

datatype via = ExplicitAllow | InheritedAllow | ExplicitDeny | InheritedDeny | ViaPolicy

fun via_rank :: "via \<Rightarrow> nat" where
  "via_rank ExplicitDeny = 3"
| "via_rank InheritedDeny = 2"
| "via_rank ExplicitAllow = 1"
| "via_rank ViaPolicy = 1"
| "via_rank InheritedAllow = 0"

definition is_denial :: "via \<Rightarrow> bool" where
  "is_denial v = (v = ExplicitDeny \<or> v = InheritedDeny)"

record policy_stamp =
  ps_policy_id :: uuid
  ps_policy_name :: string
  ps_priority :: int

record grant =
  grant_role_id :: uuid
  grant_role_key :: string
  grant_role_name :: string
  grant_role_priority :: int
  grant_via :: via
  grant_policy :: "policy_stamp option"

definition grant_from_policy :: "policy_stamp \<Rightarrow> grant" where
  "grant_from_policy stamp =
     \<lparr>grant_role_id = ps_policy_id stamp, grant_role_key = ''policy'',
      grant_role_name = ps_policy_name stamp, grant_role_priority = ps_priority stamp,
      grant_via = ViaPolicy, grant_policy = Some stamp\<rparr>"

datatype deny_reason = ReasonExplicitDeny | ReasonPolicyDeny | ReasonMissingPermission

datatype decision = Allowed grant | Denied deny_reason "grant option"

definition is_allowed :: "decision \<Rightarrow> bool" where
  "is_allowed d = (case d of Allowed _ \<Rightarrow> True | Denied _ _ \<Rightarrow> False)"

record effective_permissions =
  grants :: "(string, grant) btree_map"
  denials :: "(string, grant) btree_map"

definition no_permissions :: effective_permissions where
  "no_permissions = \<lparr>grants = [], denials = []\<rparr>"

definition allows :: "effective_permissions \<Rightarrow> string \<Rightarrow> bool" where
  "allows e key = (bt_contains (grants e) key \<and> \<not> bt_contains (denials e) key)"

definition decision_of :: "effective_permissions \<Rightarrow> string \<Rightarrow> decision" where
  "decision_of e key =
     (case bt_get (denials e) key of
        Some g \<Rightarrow> Denied ReasonExplicitDeny (Some g)
      | None \<Rightarrow>
          (case bt_get (grants e) key of
             Some g \<Rightarrow> Allowed g
           | None \<Rightarrow> Denied ReasonMissingPermission None))"

definition granted_keys :: "effective_permissions \<Rightarrow> string list" where
  "granted_keys e = map fst (filter (\<lambda>(key, _). \<not> bt_contains (denials e) key) (grants e))"

definition effective_len :: "effective_permissions \<Rightarrow> nat" where
  "effective_len e = length (granted_keys e)"

definition effective_is_empty :: "effective_permissions \<Rightarrow> bool" where
  "effective_is_empty e = (effective_len e = 0)"

definition is_stronger :: "grant \<Rightarrow> grant \<Rightarrow> bool" where
  "is_stronger candidate existing =
     (if via_rank (grant_via candidate) > via_rank (grant_via existing) then True
      else if via_rank (grant_via candidate) < via_rank (grant_via existing) then False
      else (grant_role_priority candidate, grant_role_key candidate) >
           (grant_role_priority existing, grant_role_key existing))"

definition role_grant :: "via \<Rightarrow> role \<Rightarrow> grant" where
  "role_grant v r =
     \<lparr>grant_role_id = role_id r, grant_role_key = role_key r, grant_role_name = role_name r,
      grant_role_priority = role_priority r, grant_via = v, grant_policy = None\<rparr>"

text \<open>The map half of \<open>record\<close>: the weaker of two provenances gives way.\<close>

definition record_in :: "string \<Rightarrow> grant \<Rightarrow> (string, grant) btree_map \<Rightarrow> (string, grant) btree_map" where
  "record_in key g target =
     (case bt_get target key of
        Some existing \<Rightarrow> if \<not> is_stronger g existing then target else bt_insert key g target
      | None \<Rightarrow> bt_insert key g target)"

definition record_entry ::
  "string \<Rightarrow> effect \<Rightarrow> via \<Rightarrow> role \<Rightarrow> effective_permissions \<Rightarrow> effective_permissions" where
  "record_entry key eff v r e =
     (case eff of
        Allow \<Rightarrow> e\<lparr>grants := record_in key (role_grant v r) (grants e)\<rparr>
      | Deny \<Rightarrow> e\<lparr>denials := record_in key (role_grant v r) (denials e)\<rparr>)"

subsection \<open>The graph and its two walks\<close>

type_synonym role_graph = "(uuid, role_assignment) btree_map"

definition role_graph_new :: "role_assignment list \<Rightarrow> role_graph" where
  "role_graph_new roles = bt_collect (map (\<lambda>a. (role_id (ra_role a), a)) roles)"

fun via_of :: "effect \<Rightarrow> bool \<Rightarrow> via" where
  "via_of Allow False = ExplicitAllow"
| "via_of Allow True = InheritedAllow"
| "via_of Deny False = ExplicitDeny"
| "via_of Deny True = InheritedDeny"

definition record_entries :: "role_assignment \<Rightarrow> bool \<Rightarrow> effective_permissions \<Rightarrow> effective_permissions" where
  "record_entries a inherited e =
     fold (\<lambda>en. record_entry (rp_key en) (rp_effect en) (via_of (rp_effect en) inherited) (ra_role a))
       (ra_permissions a) e"

text \<open>The role the walk goes to next: the parent link, when inheritance is on and the parent is in
  the graph.\<close>

definition next_role :: "role_graph \<Rightarrow> role_assignment \<Rightarrow> role_assignment option" where
  "next_role g a =
     (let parent = (if inherit_permissions (ra_role a) then inherits_role_id (ra_role a) else None)
      in Option.bind parent (bt_get g))"

abbreviation assignment_id :: "role_assignment \<Rightarrow> uuid" where
  "assignment_id a \<equiv> role_id (ra_role a)"

definition graph_ids :: "role_graph \<Rightarrow> uuid set" where
  "graph_ids g = (\<lambda>(_, a). assignment_id a) ` set g"

definition walk_left :: "role_graph \<times> uuid set \<times> role_assignment option \<Rightarrow> nat" where
  "walk_left s = (case s of (g, visited, cursor) \<Rightarrow>
     (case cursor of None \<Rightarrow> 0 | Some a \<Rightarrow> card (Set.insert (assignment_id a) (graph_ids g) - visited)))"

lemma next_role_mem: "next_role g a = Some b \<Longrightarrow> assignment_id b \<in> graph_ids g"
  unfolding next_role_def graph_ids_def by (force simp: Let_def split: if_splits bind_splits dest: bt_get_mem)

lemma walk_left_less:
  assumes "assignment_id a \<notin> visited"
  shows "walk_left (g, Set.insert (assignment_id a) visited, next_role g a) < walk_left (g, visited, Some a)"
proof -
  have fin: "finite (Set.insert (assignment_id a) (graph_ids g) - visited)" by (simp add: graph_ids_def)
  show ?thesis
  proof (cases "next_role g a")
    case None
    then show ?thesis using fin assms by (simp add: walk_left_def card_gt_0_iff)
  next
    case (Some b)
    then have "Set.insert (assignment_id b) (graph_ids g) = graph_ids g"
      using next_role_mem by blast
    moreover have "graph_ids g - Set.insert (assignment_id a) visited \<subset>
        Set.insert (assignment_id a) (graph_ids g) - visited" using assms by blast
    ultimately show ?thesis using fin Some by (simp add: walk_left_def psubset_card_mono)
  qed
qed

function effective_walk ::
  "role_graph \<Rightarrow> uuid set \<Rightarrow> role_assignment option \<Rightarrow> bool \<Rightarrow> effective_permissions \<Rightarrow> effective_permissions" where
  "effective_walk g visited cursor inherited e =
     (case cursor of
        None \<Rightarrow> e
      | Some a \<Rightarrow>
          if assignment_id a \<in> visited then e
          else effective_walk g (Set.insert (assignment_id a) visited) (next_role g a) True
                 (record_entries a inherited e))"
  by pat_completeness auto
termination
  by (relation "measure (\<lambda>(g, visited, cursor, _, _). walk_left (g, visited, cursor))")
    (auto simp: walk_left_less)

declare effective_walk.simps [simp del]

definition effective :: "role_graph \<Rightarrow> uuid list \<Rightarrow> effective_permissions" where
  "effective g bound_role_ids =
     fold (\<lambda>i e. case bt_get g i of None \<Rightarrow> e | Some bound \<Rightarrow> effective_walk g {} (Some bound) False e)
       bound_role_ids no_permissions"

record trace_step =
  tr_role_id :: uuid
  tr_role_key :: string
  tr_role_name :: string
  tr_effect :: effect
  tr_via :: via
  tr_inherited_from :: "(uuid \<times> string) option"

function trace_walk ::
  "role_graph \<Rightarrow> string \<Rightarrow> uuid set \<Rightarrow> role_assignment option \<Rightarrow> bool \<Rightarrow> (uuid \<times> string) option \<Rightarrow>
   trace_step option" where
  "trace_walk g key visited cursor inherited inherited_from =
     (case cursor of
        None \<Rightarrow> None
      | Some a \<Rightarrow>
          if assignment_id a \<in> visited then None
          else (case entry a key of
                  Some eff \<Rightarrow>
                    Some \<lparr>tr_role_id = assignment_id a, tr_role_key = role_key (ra_role a),
                          tr_role_name = role_name (ra_role a), tr_effect = eff,
                          tr_via = via_of eff inherited, tr_inherited_from = inherited_from\<rparr>
                | None \<Rightarrow>
                    trace_walk g key (Set.insert (assignment_id a) visited) (next_role g a) True
                      (if inherited_from = None then Some (assignment_id a, role_key (ra_role a))
                       else inherited_from)))"
  by pat_completeness auto
termination
  by (relation "measure (\<lambda>(g, _, visited, cursor, _, _). walk_left (g, visited, cursor))")
    (auto simp: walk_left_less)

declare trace_walk.simps [simp del]

definition graph_trace :: "role_graph \<Rightarrow> uuid \<Rightarrow> string \<Rightarrow> trace_step option" where
  "graph_trace g i key =
     (case bt_get g i of None \<Rightarrow> None | Some bound \<Rightarrow> trace_walk g key {} (Some bound) False None)"

subsection \<open>The roles a walk visits\<close>

function chain :: "role_graph \<Rightarrow> uuid set \<Rightarrow> role_assignment option \<Rightarrow> role_assignment list" where
  "chain g visited cursor =
     (case cursor of
        None \<Rightarrow> []
      | Some a \<Rightarrow>
          if assignment_id a \<in> visited then []
          else a # chain g (Set.insert (assignment_id a) visited) (next_role g a))"
  by pat_completeness auto
termination
  by (relation "measure walk_left") (auto simp: walk_left_less)

declare chain.simps [simp del]

lemma chain_None [simp]: "chain g visited None = []"
  by (simp add: chain.simps)

lemma chain_Some: "chain g visited (Some a) =
  (if assignment_id a \<in> visited then [] else a # chain g (Set.insert (assignment_id a) visited) (next_role g a))"
  by (subst chain.simps) simp

text \<open>Both walks are passes over that list.\<close>

lemma effective_walk_chain:
  "effective_walk g visited cursor True e = fold (\<lambda>a. record_entries a True) (chain g visited cursor) e"
proof (induction g visited cursor arbitrary: e rule: chain.induct)
  case (1 g visited cursor)
  then show ?case
    by (subst effective_walk.simps, subst chain.simps) (simp split: option.split)
qed

lemma effective_walk_bound:
  "effective_walk g {} (Some a) False e =
   fold (\<lambda>b. record_entries b True) (tl (chain g {} (Some a))) (record_entries a False e)"
  by (subst effective_walk.simps) (simp add: effective_walk_chain chain_Some)

text \<open>Reachability along the inheritance links, as a closure.\<close>

inductive reaches :: "role_graph \<Rightarrow> uuid \<Rightarrow> role_assignment \<Rightarrow> bool" for g i where
  reach_self: "bt_get g i = Some a \<Longrightarrow> reaches g i a"
| reach_parent: "reaches g i a \<Longrightarrow> next_role g a = Some b \<Longrightarrow> reaches g i b"

text \<open>In a graph that \<open>RoleGraph::new\<close> built, a role sits under its own id.\<close>

definition graph_ok :: "role_graph \<Rightarrow> bool" where
  "graph_ok g \<longleftrightarrow> (\<forall>i a. bt_get g i = Some a \<longrightarrow> assignment_id a = i)"

lemma graph_ok_new: "graph_ok (role_graph_new roles)"
proof -
  have "assignment_id a = i" if "bt_get (role_graph_new roles) i = Some a" for i a
    using bt.get_fold_Some_mem[of "map (\<lambda>a. (assignment_id a, a)) roles" "[]" i a] that
    by (auto simp: role_graph_new_def bt_collect_def)
  then show ?thesis by (auto simp: graph_ok_def)
qed

definition in_graph :: "role_graph \<Rightarrow> role_assignment \<Rightarrow> bool" where
  "in_graph g a \<longleftrightarrow> bt_get g (assignment_id a) = Some a"

lemma next_in_graph: "graph_ok g \<Longrightarrow> next_role g a = Some b \<Longrightarrow> in_graph g b"
  unfolding next_role_def graph_ok_def in_graph_def by (auto simp: Let_def split: if_splits bind_splits)

lemma in_graph_unique: "in_graph g a \<Longrightarrow> in_graph g b \<Longrightarrow> assignment_id a = assignment_id b \<Longrightarrow> a = b"
  by (simp add: in_graph_def)

lemma chain_in_graph:
  "graph_ok g \<Longrightarrow> (\<And>a. cursor = Some a \<Longrightarrow> in_graph g a) \<Longrightarrow> b \<in> set (chain g visited cursor) \<Longrightarrow> in_graph g b"
proof (induction g visited cursor rule: chain.induct)
  case (1 g visited cursor)
  then show ?case
    by (cases cursor) (auto simp: chain_Some next_in_graph split: if_split_asm)
qed

text \<open>The list is closed under the parent link, up to roles that were visited before.\<close>

lemma chain_closed:
  "graph_ok g \<Longrightarrow> (\<And>a. cursor = Some a \<Longrightarrow> in_graph g a) \<Longrightarrow>
   a \<in> set (chain g visited cursor) \<Longrightarrow> next_role g a = Some b \<Longrightarrow>
   b \<in> set (chain g visited cursor) \<or> assignment_id b \<in> visited"
proof (induction g visited cursor rule: chain.induct)
  case (1 g visited cursor)
  then obtain c where c: "cursor = Some c" "assignment_id c \<notin> visited" "in_graph g c"
    by (cases cursor) (auto simp: chain_Some split: if_split_asm)
  let ?rest = "chain g (Set.insert (assignment_id c) visited) (next_role g c)"
  have set: "set (chain g visited cursor) = Set.insert c (set ?rest)" using c by (simp add: chain_Some)
  have b: "in_graph g b" using "1.prems"(1,4) by (rule next_in_graph)
  have "b \<in> set ?rest \<or> assignment_id b \<in> Set.insert (assignment_id c) visited"
  proof (cases "a = c")
    case True
    then show ?thesis using "1.prems"(4) by (auto simp: chain_Some)
  next
    case False
    then have "a \<in> set ?rest" using "1.prems"(3) set by simp
    then show ?thesis using "1.IH"[OF c(1,2) "1.prems"(1)] next_in_graph "1.prems"(1,4) by blast
  qed
  then show ?case using set in_graph_unique[OF b c(3)] by auto
qed

lemma chain_reaches:
  "(\<And>a. cursor = Some a \<Longrightarrow> reaches g i a) \<Longrightarrow> b \<in> set (chain g visited cursor) \<Longrightarrow> reaches g i b"
proof (induction g visited cursor rule: chain.induct)
  case (1 g visited cursor)
  then obtain c where c: "cursor = Some c" "assignment_id c \<notin> visited" "reaches g i c"
    by (cases cursor) (simp_all add: chain_Some split: if_split_asm)
  show ?case
  proof (cases "b = c")
    case False
    then have b: "b \<in> set (chain g (Set.insert (assignment_id c) visited) (next_role g c))"
      using "1.prems"(2) c by (simp add: chain_Some)
    show ?thesis by (rule "1.IH"[OF c(1,2) _ b]) (rule reach_parent[OF c(3)])
  qed (simp add: c)
qed

lemma chain_iff_reaches:
  assumes "graph_ok g" and "bt_get g i = Some a"
  shows "b \<in> set (chain g {} (Some a)) \<longleftrightarrow> reaches g i b"
proof
  assume "b \<in> set (chain g {} (Some a))"
  then show "reaches g i b" by (rule chain_reaches[rotated]) (simp add: reach_self[OF assms(2)])
next
  have a: "in_graph g a" using assms by (auto simp: graph_ok_def in_graph_def)
  assume "reaches g i b"
  then show "b \<in> set (chain g {} (Some a))"
  proof induction
    case (reach_self b)
    then show ?case using assms(2) by (simp add: chain_Some)
  next
    case (reach_parent b c)
    then show ?case using chain_closed[OF assms(1) _ reach_parent.IH reach_parent.hyps(2)] a by auto
  qed
qed

subsection \<open>What a recorded entry leaves behind\<close>

definition strength :: "grant \<Rightarrow> nat \<times> int \<times> string" where
  "strength g = (via_rank (grant_via g), grant_role_priority g, grant_role_key g)"

lemma is_stronger_iff: "is_stronger c e \<longleftrightarrow> strength e < strength c"
  by (auto simp: is_stronger_def strength_def less_prod_def)

text \<open>One contribution to a permission set: which key, which effect, which provenance.\<close>

type_synonym contribution = "string \<times> effect \<times> grant"

fun contribute :: "contribution \<Rightarrow> effective_permissions \<Rightarrow> effective_permissions" where
  "contribute (key, Allow, g) e = e\<lparr>grants := record_in key g (grants e)\<rparr>"
| "contribute (key, Deny, g) e = e\<lparr>denials := record_in key g (denials e)\<rparr>"

definition contributions_of :: "bool \<Rightarrow> role_assignment \<Rightarrow> contribution list" where
  "contributions_of inherited a =
     map (\<lambda>en. (rp_key en, rp_effect en, role_grant (via_of (rp_effect en) inherited) (ra_role a)))
       (ra_permissions a)"

definition bound_contributions :: "role_graph \<Rightarrow> uuid \<Rightarrow> contribution list" where
  "bound_contributions g i =
     (case bt_get g i of
        None \<Rightarrow> []
      | Some bound \<Rightarrow> contributions_of False bound @
          concat (map (contributions_of True) (tl (chain g {} (Some bound)))))"

lemma record_entries_contribute:
  "record_entries a inherited = fold contribute (contributions_of inherited a)"
proof -
  have "record_entry key eff v r = contribute (key, eff, role_grant v r)" for key eff v r
    by (cases eff) (simp_all add: record_entry_def fun_eq_iff)
  then show ?thesis
    by (intro ext) (simp add: record_entries_def contributions_of_def fold_map comp_def)
qed

lemma fold_concat_map: "fold (\<lambda>a. fold f (h a)) xs e = fold f (concat (map h xs)) e"
  by (induction xs arbitrary: e) simp_all

lemma effective_contribute:
  "effective g bound = fold contribute (concat (map (bound_contributions g) bound)) no_permissions"
proof -
  have "(case bt_get g i of None \<Rightarrow> e | Some b \<Rightarrow> effective_walk g {} (Some b) False e) =
      fold contribute (bound_contributions g i) e" for i e
    by (cases "bt_get g i")
      (simp_all add: bound_contributions_def effective_walk_bound record_entries_contribute fold_concat_map)
  then show ?thesis by (simp add: effective_def fold_concat_map[symmetric])
qed

definition side :: "effect \<Rightarrow> effective_permissions \<Rightarrow> (string, grant) btree_map" where
  "side eff e = (case eff of Allow \<Rightarrow> grants e | Deny \<Rightarrow> denials e)"

lemma side_contribute:
  "side eff (contribute (k, f, g) e) = (if f = eff then record_in k g (side eff e) else side eff e)"
  by (cases f; cases eff) (simp_all add: side_def)

lemma bt_get_record_in:
  "bt_get (record_in k g m) k' =
     (if k' = k then
        (case bt_get m k of Some x \<Rightarrow> if strength x < strength g then Some g else Some x | None \<Rightarrow> Some g)
      else bt_get m k')"
  by (auto simp: record_in_def is_stronger_iff bt_get_insert split: option.splits)

text \<open>The entry kept for a key is a strongest one among everything that was recorded.\<close>

definition strongest_in :: "grant option \<Rightarrow> grant set \<Rightarrow> bool" where
  "strongest_in found gs =
     (case found of None \<Rightarrow> gs = {} | Some g \<Rightarrow> g \<in> gs \<and> (\<forall>g' \<in> gs. strength g' \<le> strength g))"

lemma strongest_in_record:
  "strongest_in (bt_get m k) gs \<Longrightarrow> strongest_in (bt_get (record_in k g m) k) (Set.insert g gs)"
  unfolding strongest_in_def bt_get_record_in by (auto split: option.splits)

lemma fold_contribute_strongest:
  "strongest_in (bt_get (side eff e) k) gs \<Longrightarrow>
   strongest_in (bt_get (side eff (fold contribute cs e)) k) (gs \<union> {g. (k, eff, g) \<in> set cs})"
proof (induction cs arbitrary: e gs)
  case (Cons c cs)
  obtain k0 f g where c: "c = (k0, f, g)" by (cases c)
  let ?gs = "if k0 = k \<and> f = eff then Set.insert g gs else gs"
  have "strongest_in (bt_get (side eff (contribute c e)) k) ?gs"
    using Cons.prems strongest_in_record[of "side eff e" k gs g]
    by (auto simp: c side_contribute bt_get_record_in)
  from Cons.IH[OF this]
  have "strongest_in (bt_get (side eff (fold contribute (c # cs) e)) k) (?gs \<union> {g. (k, eff, g) \<in> set cs})"
    by simp
  moreover have "?gs \<union> {g. (k, eff, g) \<in> set cs} = gs \<union> {g. (k, eff, g) \<in> set (c # cs)}"
    by (auto simp: c)
  ultimately show ?case by simp
qed simp

subsection \<open>What the resolver decides\<close>

text \<open>The contributions in declarative form: a role reachable from a bound one carries an entry, and
  the provenance is explicit exactly for the bound role itself.\<close>

definition contributes :: "role_graph \<Rightarrow> uuid list \<Rightarrow> string \<Rightarrow> effect \<Rightarrow> grant \<Rightarrow> bool" where
  "contributes g bound key eff gr \<longleftrightarrow>
     (\<exists>i \<in> set bound. \<exists>a. reaches g i a \<and>
        (\<exists>en \<in> set (ra_permissions a). rp_key en = key \<and> rp_effect en = eff) \<and>
        gr = role_grant (via_of eff (assignment_id a \<noteq> i)) (ra_role a))"

definition speaks :: "role_graph \<Rightarrow> uuid list \<Rightarrow> string \<Rightarrow> effect \<Rightarrow> bool" where
  "speaks g bound key eff \<longleftrightarrow>
     (\<exists>i \<in> set bound. \<exists>a. reaches g i a \<and>
        (\<exists>en \<in> set (ra_permissions a). rp_key en = key \<and> rp_effect en = eff))"

lemma speaks_contributes: "speaks g bound key eff \<longleftrightarrow> (\<exists>gr. contributes g bound key eff gr)"
  by (auto simp: speaks_def contributes_def)

lemma contributes_single:
  "contributes g [i] key eff gr \<longleftrightarrow>
     (\<exists>a. reaches g i a \<and> (\<exists>en \<in> set (ra_permissions a). rp_key en = key \<and> rp_effect en = eff) \<and>
        gr = role_grant (via_of eff (assignment_id a \<noteq> i)) (ra_role a))"
  by (simp add: contributes_def)

lemma chain_fresh: "b \<in> set (chain g visited cursor) \<Longrightarrow> assignment_id b \<notin> visited"
proof (induction g visited cursor rule: chain.induct)
  case (1 g visited cursor)
  then show ?case by (cases cursor) (auto simp: chain_Some split: if_split_asm)
qed

lemma contributions_of_mem:
  "(key, eff, gr) \<in> set (contributions_of inherited a) \<longleftrightarrow>
   (\<exists>en \<in> set (ra_permissions a). rp_key en = key \<and> rp_effect en = eff) \<and>
   gr = role_grant (via_of eff inherited) (ra_role a)"
  by (auto simp: contributions_of_def)

lemma reaches_bound: "reaches g i b \<Longrightarrow> \<exists>a. bt_get g i = Some a"
  by (induction rule: reaches.induct) auto

lemma head_or_rest:
  assumes "\<not> P a" and "\<And>b. b \<in> R \<Longrightarrow> P b"
  shows "Q False a \<or> (\<exists>b \<in> R. Q True b) \<longleftrightarrow> (\<exists>b. (b = a \<or> b \<in> R) \<and> Q (P b) b)"
proof -
  have "Q (P b) b \<longleftrightarrow> Q True b" if "b \<in> R" for b using assms(2)[OF that] by simp
  moreover have "Q (P a) a \<longleftrightarrow> Q False a" using assms(1) by simp
  ultimately show ?thesis by blast
qed

lemma bound_contributions_mem:
  assumes "graph_ok g"
  shows "(key, eff, gr) \<in> set (bound_contributions g i) \<longleftrightarrow> contributes g [i] key eff gr"
proof (cases "bt_get g i")
  case None
  then show ?thesis using reaches_bound by (fastforce simp: bound_contributions_def contributes_def)
next
  case (Some a)
  let ?rest = "tl (chain g {} (Some a))"
  have i: "assignment_id a = i" using assms Some by (simp add: graph_ok_def)
  have cons: "chain g {} (Some a) = a # ?rest" by (simp add: chain_Some)
  have rest: "assignment_id b \<noteq> i" if "b \<in> set ?rest" for b
    using that chain_fresh[of b g "{i}" "next_role g a"] by (auto simp: chain_Some i)
  have reach: "reaches g i b \<longleftrightarrow> b = a \<or> b \<in> set ?rest" for b
    using chain_iff_reaches[OF assms Some, of b] cons by (metis list.set_intros(1,2) set_ConsD)
  have "(key, eff, gr) \<in> set (bound_contributions g i) \<longleftrightarrow>
      (key, eff, gr) \<in> set (contributions_of False a) \<or>
      (\<exists>b \<in> set ?rest. (key, eff, gr) \<in> set (contributions_of True b))"
    by (simp add: bound_contributions_def Some)
  also have "\<dots> \<longleftrightarrow> (\<exists>b. (b = a \<or> b \<in> set ?rest) \<and> (key, eff, gr) \<in> set (contributions_of (assignment_id b \<noteq> i) b))"
    by (rule head_or_rest) (simp_all add: rest i)
  also have "\<dots> \<longleftrightarrow> contributes g [i] key eff gr"
    unfolding contributes_single contributions_of_mem reach ..
  finally show ?thesis .
qed

lemma effective_side:
  assumes "graph_ok g"
  shows "strongest_in (bt_get (side eff (effective g bound)) key) {gr. contributes g bound key eff gr}"
proof -
  have "strongest_in (bt_get (side eff no_permissions) key) {}"
    by (cases eff) (simp_all add: side_def no_permissions_def strongest_in_def)
  from fold_contribute_strongest[OF this, of "concat (map (bound_contributions g) bound)"]
  have "strongest_in (bt_get (side eff (effective g bound)) key)
      {gr. \<exists>i \<in> set bound. (key, eff, gr) \<in> set (bound_contributions g i)}"
    by (simp add: effective_contribute)
  then show ?thesis by (simp add: bound_contributions_mem[OF assms] contributes_def)
qed

lemma effective_side_None:
  "graph_ok g \<Longrightarrow> bt_get (side eff (effective g bound)) key = None \<longleftrightarrow> \<not> speaks g bound key eff"
  using effective_side[of g eff bound key]
  by (auto simp: strongest_in_def speaks_contributes split: option.splits)

lemma decision_sides:
  "decision_of e key =
     (case bt_get (side Deny e) key of
        Some gr \<Rightarrow> Denied ReasonExplicitDeny (Some gr)
      | None \<Rightarrow> (case bt_get (side Allow e) key of
                  Some gr \<Rightarrow> Allowed gr | None \<Rightarrow> Denied ReasonMissingPermission None))"
  unfolding decision_of_def side_def effect.case ..

lemma explicit_deny_source: "decision_of e key = Denied ReasonExplicitDeny src \<Longrightarrow> \<exists>gr. src = Some gr"
  by (cases "bt_get (denials e) key"; cases "bt_get (grants e) key") (auto simp: decision_of_def)

lemma decision_by_speech:
  assumes "graph_ok g"
  shows "is_allowed (decision_of (effective g bound) key) \<longleftrightarrow>
      speaks g bound key Allow \<and> \<not> speaks g bound key Deny"
    and "(\<exists>src. decision_of (effective g bound) key = Denied ReasonExplicitDeny (Some src)) \<longleftrightarrow>
      speaks g bound key Deny"
    and "decision_of (effective g bound) key = Denied ReasonMissingPermission None \<longleftrightarrow>
      \<not> speaks g bound key Allow \<and> \<not> speaks g bound key Deny"
  using effective_side_None[OF assms, of Allow bound key] effective_side_None[OF assms, of Deny bound key]
  by (auto simp: decision_sides is_allowed_def split: option.splits)

text \<open>
  C4. What the resolver decides, for every set of roles, cyclic inheritance included: a permission is
  allowed exactly when a role reachable from a bound role along the inheritance links allows it and
  none of them denies it; a deny anywhere on any chain beats every allow; and with no entry at all
  the answer is a missing permission (default deny).
\<close>

theorem effective_decision:
  "let g = role_graph_new roles; d = decision_of (effective g bound) key in
   (is_allowed d \<longleftrightarrow> speaks g bound key Allow \<and> \<not> speaks g bound key Deny) \<and>
   ((\<exists>src. d = Denied ReasonExplicitDeny (Some src)) \<longleftrightarrow> speaks g bound key Deny) \<and>
   (d = Denied ReasonMissingPermission None \<longleftrightarrow> \<not> speaks g bound key Allow \<and> \<not> speaks g bound key Deny)"
  unfolding Let_def using decision_by_speech[OF graph_ok_new] by blast

text \<open>
  The provenance reported with a decision is real and the strongest there is: the grant names a
  role reachable from a bound role that carries such an entry, is explicit exactly when that role is
  the bound one, and no other contributing entry has a higher (rank, priority, key).
\<close>

theorem effective_provenance:
  "let g = role_graph_new roles; e = effective g bound in
   case bt_get (side eff e) key of
     None \<Rightarrow> \<not> (\<exists>gr. contributes g bound key eff gr)
   | Some gr \<Rightarrow> contributes g bound key eff gr \<and>
       \<not> (\<exists>gr'. contributes g bound key eff gr' \<and> is_stronger gr' gr)"
  using effective_side[OF graph_ok_new, of eff roles bound key]
  by (auto simp: Let_def strongest_in_def is_stronger_iff not_less split: option.splits)

text \<open>
  Binding a principal to more roles never lifts a refusal: a permission that some bound role's
  chain denies stays denied whatever roles are added.
\<close>

theorem deny_monotone:
  assumes "decision_of (effective (role_graph_new roles) bound) key = Denied ReasonExplicitDeny src"
    and "set bound \<subseteq> set bound'"
  shows "\<not> is_allowed (decision_of (effective (role_graph_new roles) bound') key)"
proof -
  have "\<exists>src'. decision_of (effective (role_graph_new roles) bound) key = Denied ReasonExplicitDeny (Some src')"
    using assms(1) explicit_deny_source by blast
  then have "speaks (role_graph_new roles) bound key Deny" by (simp add: decision_by_speech[OF graph_ok_new])
  then have "speaks (role_graph_new roles) bound' key Deny" using assms(2) by (auto simp: speaks_def)
  then show ?thesis by (simp add: decision_by_speech[OF graph_ok_new])
qed

definition sample_role :: "uuid \<Rightarrow> string \<Rightarrow> uuid option \<Rightarrow> role_permission list \<Rightarrow> role_assignment" where
  "sample_role i key parent entries =
     \<lparr>ra_role = \<lparr>role_id = i, role_organization_id = None, role_key = key, role_name = key,
        role_description = [], role_priority = 100, inherits_role_id = parent,
        inherit_permissions = True, is_system = False, role_created_at = 0, role_updated_at = 0\<rparr>,
      ra_permissions = entries\<rparr>"

lemmas sample_eval = sample_role_def effective_def effective_walk.simps record_entries_def record_entry_def
  record_in_def role_grant_def next_role_def role_graph_new_def bt_collect_def bt_get_def
  decision_of_def no_permissions_def is_allowed_def

theorem deny_monotone_witness:
  "\<not> is_allowed (decision_of (effective (role_graph_new
      [sample_role 1 ''a'' None [\<lparr>rp_key = ''x'', rp_effect = Deny\<rparr>],
       sample_role 2 ''b'' None [\<lparr>rp_key = ''x'', rp_effect = Allow\<rparr>]]) [2, 1]) ''x'')"
  by (rule deny_monotone[of _ "[1]" _ "Some (role_grant ExplicitDeny
      (ra_role (sample_role 1 ''a'' None [])))"])
    (simp_all add: sample_eval)

subsection \<open>The simulator's trace\<close>

lemma entry_None: "entry a key = None \<longleftrightarrow> (\<forall>en \<in> set (ra_permissions a). rp_key en \<noteq> key)"
  by (simp add: entry_def find_None_all)

lemma entry_Some: "entry a key = Some eff \<Longrightarrow> \<exists>en \<in> set (ra_permissions a). rp_key en = key \<and> rp_effect en = eff"
  unfolding entry_def using find_Some_mem by fastforce

lemma trace_walk_chain:
  "case trace_walk g key visited cursor inherited start of
     None \<Rightarrow> \<forall>a \<in> set (chain g visited cursor). entry a key = None
   | Some t \<Rightarrow> \<exists>a \<in> set (chain g visited cursor). entry a key = Some (tr_effect t) \<and> tr_role_id t = assignment_id a"
proof (induction g key visited cursor inherited start rule: trace_walk.induct)
  case (1 g key visited cursor inherited inherited_from)
  show ?case
  proof (cases "\<exists>a. cursor = Some a \<and> assignment_id a \<notin> visited")
    case False
    then show ?thesis
      by (subst trace_walk.simps, subst chain.simps) (auto split: option.splits)
  next
    case True
    then obtain a where a: "cursor = Some a" "assignment_id a \<notin> visited" by blast
    show ?thesis
    proof (cases "entry a key")
      case None
      define from' where "from' =
        (if inherited_from = None then Some (assignment_id a, role_key (ra_role a)) else inherited_from)"
      have step: "trace_walk g key visited cursor inherited inherited_from =
          trace_walk g key (Set.insert (assignment_id a) visited) (next_role g a) True from'"
        using a None by (subst trace_walk.simps) (simp add: from'_def)
      have "chain g visited cursor = a # chain g (Set.insert (assignment_id a) visited) (next_role g a)"
        using a by (simp add: chain_Some)
      then show ?thesis using "1.IH"[OF a None, folded from'_def] None
        unfolding step by (simp split: option.split_asm option.split)
    next
      case (Some eff)
      then show ?thesis using a by (subst trace_walk.simps) (simp add: chain_Some)
    qed
  qed
qed

lemma graph_trace_chain:
  assumes "graph_ok g"
  shows "case graph_trace g i key of
      None \<Rightarrow> \<not> (\<exists>eff. speaks g [i] key eff)
    | Some t \<Rightarrow> speaks g [i] key (tr_effect t)"
proof (cases "bt_get g i")
  case None
  then show ?thesis using reaches_bound by (fastforce simp: graph_trace_def speaks_def)
next
  case (Some a)
  have reach: "b \<in> set (chain g {} (Some a)) \<longleftrightarrow> reaches g i b" for b
    by (rule chain_iff_reaches[OF assms Some])
  show ?thesis
    using trace_walk_chain[where visited = "{}" and cursor = "Some a" and key = key and g = g and
      inherited = False and start = None]
    by (auto simp: graph_trace_def Some reach speaks_def entry_None split: option.splits dest!: entry_Some)
qed

text \<open>
  How far the simulator's trace of one bound role agrees with the verdict: it answers nothing
  exactly when the verdict is a missing permission, and when it reports a deny the verdict is a
  denial.
\<close>

theorem trace_sound:
  "case graph_trace (role_graph_new roles) i key of
     None \<Rightarrow> decision_of (effective (role_graph_new roles) [i]) key = Denied ReasonMissingPermission None
   | Some t \<Rightarrow> decision_of (effective (role_graph_new roles) [i]) key \<noteq> Denied ReasonMissingPermission None \<and>
       (if tr_effect t = Deny then \<not> is_allowed (decision_of (effective (role_graph_new roles) [i]) key) else True)"
proof (cases "graph_trace (role_graph_new roles) i key")
  case None
  then show ?thesis
    using graph_trace_chain[OF graph_ok_new, of roles i key] by (simp add: decision_by_speech[OF graph_ok_new])
next
  case (Some t)
  then show ?thesis
    using graph_trace_chain[OF graph_ok_new, of roles i key]
    by (cases "tr_effect t") (simp_all add: decision_by_speech[OF graph_ok_new])
qed

text \<open>
  The agreement does not extend to allows, contrary to the comment on \<open>RoleGraph::trace\<close>: the
  trace stops at the nearest entry while the resolver collects the whole chain, so a role that
  allows a key its parent denies is traced as an explicit allow and decided as a denial.
\<close>

theorem trace_disagrees:
  "let g = role_graph_new [sample_role 1 ''child'' (Some 2) [\<lparr>rp_key = ''x'', rp_effect = Allow\<rparr>],
                           sample_role 2 ''parent'' None [\<lparr>rp_key = ''x'', rp_effect = Deny\<rparr>]] in
   map_option tr_via (graph_trace g 1 ''x'') = Some ExplicitAllow \<and>
   \<not> is_allowed (decision_of (effective g [1]) ''x'')"
  by (simp add: sample_eval graph_trace_def trace_walk.simps entry_def)

end
