(* ===== verification/Catalogue.thy ===== *)
theory Catalogue
  imports PolicyEngine IamModel
begin

text \<open>
  The permission catalogue (\<open>crates/permissions/src/catalogue.rs\<close>) and the base roles the platform
  ships (\<open>seed.rs\<close>), as the constants the code declares, with the lookups over them. The lemmas
  are the facts other components rely on: keys are unique and well formed, so a wildcard target
  is decided exactly on every catalogue key, and the base roles name only catalogued keys.
\<close>

record permission_def =
  pd_key :: string
  pd_category :: string
  pd_description :: string

abbreviation permission_def :: "string \<Rightarrow> string \<Rightarrow> string \<Rightarrow> permission_def" where
  "permission_def key category description \<equiv>
     \<lparr>pd_key = key, pd_category = category, pd_description = description\<rparr>"

definition catalogue_content_and_media :: "permission_def list" where
  "catalogue_content_and_media = [
     permission_def ''content.pages.read'' ''content''
       ''Read pages and their revisions'',
     permission_def ''content.pages.create'' ''content''
       ''Create pages'',
     permission_def ''content.pages.update'' ''content''
       ''Edit page content'',
     permission_def ''content.pages.delete'' ''content''
       ''Delete pages'',
     permission_def ''content.pages.publish'' ''content''
       ''Publish or unpublish pages'',
     permission_def ''content.pages.schedule'' ''content''
       ''Schedule publication'',
     permission_def ''content.pages.restore'' ''content''
       ''Restore an earlier revision'',
     permission_def ''media.read'' ''media''
       ''Read the media library'',
     permission_def ''media.upload'' ''media''
       ''Upload files'',
     permission_def ''media.update'' ''media''
       ''Edit media metadata'',
     permission_def ''media.delete'' ''media''
       ''Delete files'',
     permission_def ''media.manage'' ''media''
       ''Manage folders and storage settings'',
     permission_def ''media.settings.manage'' ''media''
       ''Change transformation presets, storage and retention settings'',
     permission_def ''media.share'' ''media''
       ''Create public share links for files'',
     permission_def ''media.scan.manage'' ''media''
       ''Configure scanning and release quarantined files'']"

definition catalogue_ai_and_workflows :: "permission_def list" where
  "catalogue_ai_and_workflows = [
     permission_def ''ai.providers.read'' ''ai''
       ''Read AI providers and the model registry'',
     permission_def ''ai.providers.manage'' ''ai''
       ''Connect and configure AI providers'',
     permission_def ''ai.chat'' ''ai''
       ''Use the platform's AI chat'',
     permission_def ''workflows.read'' ''workflows''
       ''Read workflows and their run history'',
     permission_def ''workflows.manage'' ''workflows''
       ''Create, edit and remove workflows'',
     permission_def ''workflows.run'' ''workflows''
       ''Start and cancel workflow runs'',
     permission_def ''users.read'' ''users''
       ''Read accounts'',
     permission_def ''users.create'' ''users''
       ''Invite and create accounts'',
     permission_def ''users.update'' ''users''
       ''Edit accounts'',
     permission_def ''users.delete'' ''users''
       ''Delete accounts'',
     permission_def ''users.impersonate'' ''users''
       ''Sign in as another account'',
     permission_def ''plugins.read'' ''plugins''
       ''Browse installed plugins'',
     permission_def ''plugins.install'' ''plugins''
       ''Install plugins'',
     permission_def ''plugins.update'' ''plugins''
       ''Update plugins'',
     permission_def ''plugins.disable'' ''plugins''
       ''Enable or disable plugins'',
     permission_def ''plugins.uninstall'' ''plugins''
       ''Remove plugins'',
     permission_def ''deployment.read'' ''deployment''
       ''Read deployment state and history'',
     permission_def ''deployment.preview'' ''deployment''
       ''Create preview environments'',
     permission_def ''deployment.deploy'' ''deployment''
       ''Deploy to an environment'',
     permission_def ''deployment.rollback'' ''deployment''
       ''Roll a deployment back'']"

definition catalogue_iam :: "permission_def list" where
  "catalogue_iam = [
     permission_def ''iam.permissions.read'' ''iam''
       ''Read the permission catalogue'',
     permission_def ''iam.roles.read'' ''iam''
       ''Read roles and their permission sets'',
     permission_def ''iam.roles.manage'' ''iam''
       ''Create roles and change their permission sets'',
     permission_def ''iam.bindings.read'' ''iam''
       ''Read role assignments'',
     permission_def ''iam.bindings.manage'' ''iam''
       ''Assign and revoke roles'',
     permission_def ''iam.groups.read'' ''iam''
       ''Read groups and their members'',
     permission_def ''iam.groups.manage'' ''iam''
       ''Create groups and change their membership'',
     permission_def ''iam.serviceaccounts.read'' ''iam''
       ''Read machine identities and their keys'',
     permission_def ''iam.serviceaccounts.manage'' ''iam''
       ''Create service accounts and issue or revoke their keys'',
     permission_def ''iam.policies.read'' ''iam''
       ''Read ABAC policies and their versions'',
     permission_def ''iam.policies.manage'' ''iam''
       ''Create and change ABAC policies'',
     permission_def ''iam.simulate'' ''iam''
       ''Ask the permission simulator what a subject may do'',
     permission_def ''iam.security.read'' ''iam''
       ''Read the password, lockout, IP and session policy'',
     permission_def ''iam.security.manage'' ''iam''
       ''Change the password, lockout, IP and session policy'',
     permission_def ''iam.sessions.read'' ''iam''
       ''Read active sessions'',
     permission_def ''iam.sessions.revoke'' ''iam''
       ''End a signed-in session'',
     permission_def ''iam.devices.read'' ''iam''
       ''Read known devices'',
     permission_def ''iam.devices.manage'' ''iam''
       ''Set a device's trust window and forget devices'',
     permission_def ''iam.providers.read'' ''iam''
       ''Read the connected sign-in providers'',
     permission_def ''iam.providers.manage'' ''iam''
       ''Connect and change sign-in providers'',
     permission_def ''iam.approvals.read'' ''iam''
       ''Read permission requests'',
     permission_def ''iam.approvals.decide'' ''iam''
       ''Approve or reject permission requests'',
     permission_def ''iam.provisioning.manage'' ''iam''
       ''Issue provisioning tokens and run the sync'',
     permission_def ''audit.read'' ''audit''
       ''Read the audit trail'']"

definition catalogue_tenancy_and_events :: "permission_def list" where
  "catalogue_tenancy_and_events = [
     permission_def ''organizations.read'' ''tenancy''
       ''Read organizations'',
     permission_def ''organizations.manage'' ''tenancy''
       ''Create and edit organizations'',
     permission_def ''sites.read'' ''tenancy''
       ''Read sites and their domains'',
     permission_def ''sites.create'' ''tenancy''
       ''Create sites'',
     permission_def ''sites.update'' ''tenancy''
       ''Edit sites'',
     permission_def ''sites.delete'' ''tenancy''
       ''Delete sites'',
     permission_def ''domains.manage'' ''tenancy''
       ''Add, remove and promote site domains'',
     permission_def ''webhooks.read'' ''webhooks''
       ''Read webhook endpoints and their delivery history'',
     permission_def ''webhooks.manage'' ''webhooks''
       ''Connect, change, test and remove webhook endpoints'',
     permission_def ''events.read'' ''events''
       ''Read the platform's event feed'',
     permission_def ''security.read'' ''security''
       ''Read the security posture and the findings list'',
     permission_def ''security.scan'' ''security''
       ''Re-run the security checks and ingest a dependency report'',
     permission_def ''security.manage'' ''security''
       ''Acknowledge, ignore and resolve security findings'',
     permission_def ''security.ip.manage'' ''security''
       ''Change the IP allow and deny lists'']"

definition catalogue_developer_and_backup :: "permission_def list" where
  "catalogue_developer_and_backup = [
     permission_def ''developer.read'' ''developer''
       ''Read the developer portal overview and the scope catalogue'',
     permission_def ''developer.keys.read'' ''developer''
       ''Read API keys, their scopes and their usage'',
     permission_def ''developer.keys.manage'' ''developer''
       ''Create, rotate and revoke API keys'',
     permission_def ''developer.oauth.read'' ''developer''
       ''Read OAuth apps and their authorizations'',
     permission_def ''developer.oauth.manage'' ''developer''
       ''Register OAuth apps, rotate their secrets and archive them'',
     permission_def ''developer.logs.read'' ''developer''
       ''Read the API request log'',
     permission_def ''backup.read'' ''backup''
       ''Read backups, their parts, manifests and status'',
     permission_def ''backup.create'' ''backup''
       ''Run a backup and verify an existing one'',
     permission_def ''backup.restore'' ''backup''
       ''Restore the platform from a backup'',
     permission_def ''backup.manage'' ''backup''
       ''Manage backup schedules, retention and destination settings'',
     permission_def ''health.read'' ''health''
       ''Read system health, metrics and incidents'',
     permission_def ''health.manage'' ''health''
       ''Run health checks, set thresholds and acknowledge incidents'']"

definition catalogue_notifications_and_search :: "permission_def list" where
  "catalogue_notifications_and_search = [
     permission_def ''notifications.read'' ''notifications''
       ''Read and clear your own notifications'',
     permission_def ''notifications.send'' ''notifications''
       ''Send notifications to other accounts'',
     permission_def ''notifications.manage'' ''notifications''
       ''Change your notification channels and preferences'',
     permission_def ''notifications.admin'' ''notifications''
       ''Read the organization-wide delivery outbox and manage routing rules'',
     permission_def ''search.read'' ''search''
       ''Search the platform's indexed content'',
     permission_def ''search.manage'' ''search''
       ''Rebuild and configure the search index'',
     permission_def ''analytics.read'' ''analytics''
       ''Read analytics reports, settings and the tracking snippet'',
     permission_def ''analytics.export'' ''analytics''
       ''Export analytics reports'',
     permission_def ''analytics.goals.manage'' ''analytics''
       ''Create and edit conversion goals'',
     permission_def ''analytics.settings.manage'' ''analytics''
       ''Change tracking, privacy and retention settings'']"

definition CATALOGUE :: "permission_def list" where
  "CATALOGUE = catalogue_content_and_media @ catalogue_ai_and_workflows @ catalogue_iam @
     catalogue_tenancy_and_events @ catalogue_developer_and_backup @ catalogue_notifications_and_search"

definition catalogue_get :: "string \<Rightarrow> permission_def option" where
  "catalogue_get key = find (\<lambda>e. pd_key e = key) CATALOGUE"

definition is_known :: "string \<Rightarrow> bool" where
  "is_known key = (catalogue_get key \<noteq> None)"

definition catalogue_keys :: "string list" where
  "catalogue_keys = map pd_key CATALOGUE"

definition expect_known :: "string \<Rightarrow> permissions_error + permission_def" where
  "expect_known key = ok_or (UnknownPermission key) (catalogue_get key)"

subsection \<open>Base roles\<close>

datatype base_permissions = AllPermissions | ListPermissions "string list"

fun base_permission_keys :: "base_permissions \<Rightarrow> string list" where
  "base_permission_keys AllPermissions = catalogue_keys"
| "base_permission_keys (ListPermissions list) = list"

record base_role =
  br_key :: string
  br_name :: string
  br_priority :: int
  br_description :: string
  br_permissions :: base_permissions

abbreviation base_role :: "string \<Rightarrow> string \<Rightarrow> int \<Rightarrow> string \<Rightarrow> base_permissions \<Rightarrow> base_role" where
  "base_role key name priority description permissions \<equiv>
     \<lparr>br_key = key, br_name = name, br_priority = priority, br_description = description,
      br_permissions = permissions\<rparr>"

definition BASE_ROLES :: "base_role list" where
  "BASE_ROLES = [
     base_role ''owner'' ''Owner'' 1000
       ''Full control of the platform, including security and billing.''
       AllPermissions,
     base_role ''administrator'' ''Administrator'' 900
       ''Runs the platform day to day.''
       AllPermissions,
     base_role ''manager'' ''Manager'' 700
       ''Manages content, media and the team that produces them.''
       (ListPermissions [''content.pages.read'', ''content.pages.create'', ''content.pages.update'', ''content.pages.delete'', ''content.pages.publish'', ''content.pages.schedule'', ''content.pages.restore'', ''media.read'', ''media.upload'', ''media.update'', ''media.delete'', ''media.manage'', ''media.settings.manage'', ''media.scan.manage'', ''ai.providers.read'', ''ai.chat'', ''workflows.read'', ''workflows.manage'', ''workflows.run'', ''users.read'', ''users.update'', ''iam.permissions.read'', ''iam.roles.read'', ''iam.bindings.read'', ''plugins.read'', ''deployment.read'', ''deployment.preview'', ''audit.read'', ''organizations.read'', ''sites.read'', ''sites.create'', ''sites.update'', ''domains.manage'', ''webhooks.read'', ''events.read'', ''search.read'', ''search.manage'', ''analytics.read'', ''analytics.export'', ''analytics.goals.manage'', ''analytics.settings.manage'', ''notifications.read'', ''notifications.send'', ''notifications.manage'', ''notifications.admin'']),
     base_role ''moderator'' ''Moderator'' 500
       ''Keeps content healthy and can publish and restore.''
       (ListPermissions [''content.pages.read'', ''content.pages.update'', ''content.pages.publish'', ''content.pages.schedule'', ''content.pages.restore'', ''media.read'', ''media.update'', ''ai.chat'', ''workflows.read'', ''workflows.run'', ''users.read'', ''audit.read'', ''sites.read'', ''search.read'', ''analytics.read'', ''notifications.read'']),
     base_role ''editor'' ''Editor'' 300
       ''Writes and publishes content.''
       (ListPermissions [''content.pages.read'', ''content.pages.create'', ''content.pages.update'', ''content.pages.publish'', ''content.pages.schedule'', ''media.read'', ''media.upload'', ''media.update'', ''ai.chat'', ''workflows.read'', ''sites.read'', ''search.read'', ''analytics.read'', ''notifications.read'']),
     base_role ''member'' ''Member'' 100
       ''Reads content and media.''
       (ListPermissions [''content.pages.read'', ''media.read'', ''search.read'', ''notifications.read''])]"

lemmas catalogue_defs = CATALOGUE_def catalogue_content_and_media_def catalogue_ai_and_workflows_def
  catalogue_iam_def catalogue_tenancy_and_events_def catalogue_developer_and_backup_def
  catalogue_notifications_and_search_def

subsection \<open>Well-formedness\<close>

definition key_char :: "char \<Rightarrow> bool" where
  "key_char c = (is_ascii_lowercase c \<or> is_ascii_digit c \<or> c = CHR ''.'')"

definition key_ok :: "string \<Rightarrow> bool" where
  "key_ok key = (list_all key_char key \<and> length (split_on CHR ''.'' key) \<ge> 2)"

lemma catalogue_keys_distinct: "distinct catalogue_keys"
  by code_simp

lemma catalogue_keys_ok: "list_all key_ok catalogue_keys"
  by (simp add: catalogue_keys_def catalogue_defs key_ok_def key_char_def is_ascii_lowercase_def
    is_ascii_digit_def code_def)

lemma catalogue_key_no_star: "key \<in> set catalogue_keys \<Longrightarrow> CHR ''*'' \<notin> set key \<and> key \<noteq> []"
proof -
  assume "key \<in> set catalogue_keys"
  then have ok: "key_ok key" using catalogue_keys_ok by (simp add: list_all_iff)
  have "\<not> key_char CHR ''*''"
    by (simp add: key_char_def is_ascii_lowercase_def is_ascii_digit_def code_def)
  then show ?thesis using ok by (auto simp: key_ok_def list_all_iff)
qed

lemma catalogue_targets: "key \<in> set catalogue_keys \<Longrightarrow> targets pattern key \<longleftrightarrow> glob_rel (=) pattern key"
  by (simp add: catalogue_key_no_star targets_iff)

text \<open>
  A target is accepted for the catalogue exactly when it speaks about something: after trimming,
  \<open>validate_target\<close> accepts it if and only if some catalogued permission lies in the language of
  the pattern.
\<close>

theorem validate_target_exact:
  "validate_target raw catalogue_keys = Inr () \<longleftrightarrow>
   (\<exists>key \<in> set catalogue_keys. glob_rel (=) (trim raw) key)"
proof (cases "CHR ''*'' \<in> set (trim raw)")
  case True
  then have "trim raw \<noteq> []" by auto
  then show ?thesis
    using True catalogue_targets by (simp add: validate_target_def list_ex_iff)
next
  case False
  then show ?thesis
    using catalogue_key_no_star[of "[]"]
    by (auto simp: validate_target_def Let_def glob_rel_eq_refl)
qed

text \<open>Membership of one list of keys in another, as a test the kernel can run.\<close>

definition within :: "string list \<Rightarrow> string list \<Rightarrow> bool" where
  "within xs ys = list_all (\<lambda>x. List.member ys x) xs"

definition held :: "nat \<Rightarrow> string list" where
  "held i = base_permission_keys (br_permissions (BASE_ROLES ! i))"

lemma held_all: "held 0 = catalogue_keys" "held 1 = catalogue_keys"
  by (simp_all add: held_def BASE_ROLES_def)

lemma within_refl: "within xs xs"
  by (simp add: within_def list_all_iff List.member_iff)

lemma manager_catalogued: "distinct (held 2) \<and> within (held 2) catalogue_keys"
  by code_simp

lemma small_catalogued: "list_all (\<lambda>i. distinct (held i) \<and> within (held i) catalogue_keys) [3, 4, 5]"
  by code_simp

lemma held_catalogued: "list_all (\<lambda>i. distinct (held i) \<and> within (held i) catalogue_keys) [0, 1, 2, 3, 4, 5]"
  using manager_catalogued small_catalogued
  by (simp add: held_all within_refl catalogue_keys_distinct del: One_nat_def)

lemma held_nested: "within (held 5) (held 4) \<and> within (held 5) (held 3) \<and> within (held 4) (held 2) \<and>
  within (held 3) (held 2)"
  by code_simp

text \<open>
  The catalogue and the base roles fit together: keys are unique, dotted and lowercase; the base
  roles are a strictly descending ladder from 1000 to 100, name only catalogued permissions, and
  nest - member within editor and moderator, both within manager, all within administrator and
  owner, which hold the whole catalogue.
\<close>

theorem base_roles_ladder:
  "distinct catalogue_keys \<and> list_all key_ok catalogue_keys \<and>
   map (\<lambda>r. (br_key r, br_priority r)) BASE_ROLES =
     [(''owner'', 1000), (''administrator'', 900), (''manager'', 700), (''moderator'', 500),
      (''editor'', 300), (''member'', 100)] \<and>
   list_all (\<lambda>i. distinct (held i) \<and> within (held i) catalogue_keys) [0, 1, 2, 3, 4, 5] \<and>
   held 0 = catalogue_keys \<and> held 1 = catalogue_keys \<and>
   within (held 5) (held 4) \<and> within (held 5) (held 3) \<and> within (held 4) (held 2) \<and>
   within (held 3) (held 2)"
proof -
  have "map (\<lambda>r. (br_key r, br_priority r)) BASE_ROLES =
     [(''owner'', 1000), (''administrator'', 900), (''manager'', 700), (''moderator'', 500),
      (''editor'', 300), (''member'', 100)]" by (simp add: BASE_ROLES_def)
  then show ?thesis
    using catalogue_keys_distinct catalogue_keys_ok held_catalogued held_all held_nested by blast
qed

end
