(* ===== verification/RoleStore.thy ===== *)
theory RoleStore
  imports RoleGraph Catalogue
begin

text \<open>
  The role half of the permissions store (\<open>crates/permissions/src/roles.rs\<close>, \<open>versions.rs\<close>): the
  \<open>roles\<close>, \<open>role_permissions\<close> and \<open>role_versions\<close> tables as lists of rows, the queries and updates
  of the crate over them, and the pure check \<open>validate_parent_change\<close>. Generated ids and the
  database clock are arguments. A unique index that refuses an insert is the branch
  \<open>map_role_insert_error\<close> maps it to; the foreign keys' \<open>on delete\<close> actions are part of
  \<open>delete_role\<close>. The main result is that no operation can ever close an inheritance cycle.
\<close>

subsection \<open>Tables\<close>

record role_version =
  rv_role_id :: uuid
  rv_version :: int
  rv_name :: string
  rv_description :: string
  rv_priority :: int
  rv_inherits_role_id :: "uuid option"
  rv_inherit_permissions :: bool
  rv_permissions :: "unit json"
  rv_change :: string
  rv_changed_by :: "uuid option"

record entry_row =
  er_role_id :: uuid
  er_key :: string
  er_effect :: effect

record iam_db =
  t_roles :: "role list"
  t_entries :: "entry_row list"
  t_versions :: "role_version list"
  t_bindings :: "role_binding list"
  t_group_members :: "(uuid \<times> uuid) list"  \<comment> \<open>(group, user)\<close>
  t_sites :: "(uuid \<times> uuid) list"  \<comment> \<open>(site, organization)\<close>
  t_subjects :: "subject list"
  t_organizations :: "uuid list"

subsection \<open>Reading roles\<close>

definition find_role :: "iam_db \<Rightarrow> uuid \<Rightarrow> role option" where
  "find_role db i = find (\<lambda>r. role_id r = i) (t_roles db)"

definition find_role_by_key :: "iam_db \<Rightarrow> uuid option \<Rightarrow> string \<Rightarrow> role option" where
  "find_role_by_key db organization_id key =
     find (\<lambda>r. role_key r = key \<and> role_organization_id r = organization_id) (t_roles db)"

definition visible_to :: "uuid option \<Rightarrow> role \<Rightarrow> bool" where
  "visible_to organization_id r =
     (role_organization_id r = None \<or>
      organization_id \<noteq> None \<and> role_organization_id r = organization_id)"

definition list_roles :: "iam_db \<Rightarrow> uuid option \<Rightarrow> role list" where
  "list_roles db organization_id =
     sort_key (\<lambda>r. (- role_priority r, role_key r)) (filter (visible_to organization_id) (t_roles db))"

definition entries_of_role :: "iam_db \<Rightarrow> uuid \<Rightarrow> role_permission list" where
  "entries_of_role db i =
     map (\<lambda>e. \<lparr>rp_key = er_key e, rp_effect = er_effect e\<rparr>)
       (sort_key er_key (filter (\<lambda>e. er_role_id e = i) (t_entries db)))"

definition load_role_graph :: "iam_db \<Rightarrow> uuid option \<Rightarrow> role_graph" where
  "load_role_graph db organization_id =
     role_graph_new (map (\<lambda>r. \<lparr>ra_role = r, ra_permissions = entries_of_role db (role_id r)\<rparr>)
       (list_roles db organization_id))"

definition permission_summary :: "iam_db \<Rightarrow> uuid \<Rightarrow> nat \<times> nat" where
  "permission_summary db i =
     (length (filter (\<lambda>e. er_role_id e = i \<and> er_effect e = Allow) (t_entries db)),
      length (filter (\<lambda>e. er_role_id e = i \<and> er_effect e = Deny) (t_entries db)))"

subsection \<open>Changing a parent link\<close>

type_synonym parent_links = "(uuid, uuid option) btree_map"

definition parent_links :: "iam_db \<Rightarrow> uuid option \<Rightarrow> parent_links" where
  "parent_links db organization_id =
     bt_collect (map (\<lambda>r. (role_id r, inherits_role_id r)) (filter (visible_to organization_id) (t_roles db)))"

text \<open>The walk up from the new parent.\<close>

function climb :: "parent_links \<Rightarrow> uuid \<Rightarrow> uuid option \<Rightarrow> nat \<Rightarrow> uuid set \<Rightarrow> permissions_error + unit" where
  "climb links i cursor steps visited =
     (case cursor of
        None \<Rightarrow> Inr ()
      | Some c \<Rightarrow>
          if c = i \<or> c \<in> visited then Inl InheritanceCycle
          else if steps + 1 > MAX_INHERITANCE_DEPTH then Inl (InheritanceDepthExceeded MAX_INHERITANCE_DEPTH)
          else climb links i (case bt_get links c of None \<Rightarrow> None | Some link \<Rightarrow> link) (steps + 1)
                 (Set.insert c visited))"
  by pat_completeness auto
termination
  by (relation "measure (\<lambda>(_, _, _, steps, _). MAX_INHERITANCE_DEPTH - steps)") auto

declare climb.simps [simp del]

definition push_child :: "uuid \<times> uuid option \<Rightarrow> (uuid, uuid list) btree_map \<Rightarrow> (uuid, uuid list) btree_map" where
  "push_child link children =
     (case snd link of
        None \<Rightarrow> children
      | Some p \<Rightarrow>
          bt_insert p ((case bt_get children p of None \<Rightarrow> [] | Some cs \<Rightarrow> cs) @ [fst link]) children)"

definition child_index :: "parent_links \<Rightarrow> (uuid, uuid list) btree_map" where
  "child_index links = fold push_child links []"

definition children_in :: "(uuid, uuid list) btree_map \<Rightarrow> uuid \<Rightarrow> uuid list" where
  "children_in children i = (case bt_get children i of None \<Rightarrow> [] | Some cs \<Rightarrow> cs)"

text \<open>The walk down: the frontier is a stack whose last element is popped first; it is kept here
  with its top at the head.\<close>

definition frontier_left :: "(uuid, uuid list) btree_map \<Rightarrow> (uuid \<times> nat) list \<Rightarrow> uuid set \<Rightarrow> nat" where
  "frontier_left children frontier seen =
     card ((fst ` set frontier \<union> \<Union> (set ` snd ` set children)) - seen)"

lemma children_in_mem: "x \<in> set (children_in children i) \<Longrightarrow> x \<in> \<Union> (set ` snd ` set children)"
  unfolding children_in_def by (cases "bt_get children i") (auto dest!: bt_get_mem, force)

lemma frontier_left_less:
  assumes "i \<notin> seen"
  shows "frontier_left children (map (\<lambda>c. (c, d)) (rev (children_in children i)) @ rest) (Set.insert i seen)
    < frontier_left children ((i, depth) # rest) seen"
  unfolding frontier_left_def
proof (rule psubset_card_mono)
  show "finite (fst ` set ((i, depth) # rest) \<union> \<Union> (set ` snd ` set children) - seen)" by auto
  show "fst ` set (map (\<lambda>c. (c, d)) (rev (children_in children i)) @ rest) \<union> \<Union> (set ` snd ` set children) -
      Set.insert i seen \<subset> fst ` set ((i, depth) # rest) \<union> \<Union> (set ` snd ` set children) - seen"
    using assms children_in_mem by (fastforce simp: image_iff)
qed

function descend ::
  "(uuid, uuid list) btree_map \<Rightarrow> (uuid \<times> nat) list \<Rightarrow> uuid set \<Rightarrow> permissions_error + unit" where
  "descend children [] seen = Inr ()"
| "descend children ((i, depth) # rest) seen =
     (if i \<in> seen \<or> depth > MAX_INHERITANCE_DEPTH
      then Inl (InheritanceDepthExceeded MAX_INHERITANCE_DEPTH)
      else descend children (map (\<lambda>c. (c, depth + 1)) (rev (children_in children i)) @ rest)
             (Set.insert i seen))"
  by pat_completeness auto
termination
  by (relation "measure (\<lambda>(children, frontier, seen). frontier_left children frontier seen)")
    (use frontier_left_less in auto)

declare descend.simps(2) [simp del]

definition validate_parent_change :: "parent_links \<Rightarrow> uuid \<Rightarrow> uuid option \<Rightarrow> permissions_error + unit" where
  "validate_parent_change links i parent =
     res_bind (climb links i parent 0 {}) (\<lambda>_. descend (child_index links) [(i, 0)] {})"

subsection \<open>Writing roles\<close>

record new_role =
  nr_organization_id :: uuid
  nr_key :: string
  nr_name :: string
  nr_description :: string
  nr_priority :: int
  nr_inherits_role_id :: "uuid option"

datatype parent_change = KeepParent | SetParent uuid | ClearParent

record role_update =
  ru_name :: "string option"
  ru_description :: "string option"
  ru_priority :: "int option"
  ru_parent :: parent_change
  ru_inherit_permissions :: "bool option"

text \<open>A role may inherit a platform role or a role of its own organization.\<close>

definition usable_parent :: "role \<Rightarrow> uuid option \<Rightarrow> bool" where
  "usable_parent parent organization_id =
     (role_organization_id parent = None \<or> role_organization_id parent = organization_id)"

text \<open>The two partial unique indexes on \<open>roles\<close>: one key per organization, one per platform.\<close>

definition key_taken :: "iam_db \<Rightarrow> uuid option \<Rightarrow> string \<Rightarrow> bool" where
  "key_taken db organization_id key = (find_role_by_key db organization_id key \<noteq> None)"

definition insert_role :: "iam_db \<Rightarrow> role \<Rightarrow> permissions_error + role \<times> iam_db" where
  "insert_role db r =
     (if key_taken db (role_organization_id r) (role_key r) then Inl RoleKeyTaken
      else Inr (r, db\<lparr>t_roles := t_roles db @ [r]\<rparr>))"

definition check_new_parent :: "iam_db \<Rightarrow> uuid \<Rightarrow> uuid \<Rightarrow> uuid option \<Rightarrow> permissions_error + unit" where
  "check_new_parent db probe organization_id parent_id =
     (case parent_id of
        None \<Rightarrow> Inr ()
      | Some p \<Rightarrow>
          (case find_role db p of
             None \<Rightarrow> Inl RoleNotFound
           | Some parent \<Rightarrow>
               if \<not> usable_parent parent (Some organization_id) then Inl CrossOrganizationInheritance
               else validate_parent_change (parent_links db (Some organization_id)) probe (Some p)))"

definition create_role ::
  "uuid \<Rightarrow> uuid \<Rightarrow> instant \<Rightarrow> iam_db \<Rightarrow> new_role \<Rightarrow> permissions_error + role \<times> iam_db" where
  "create_role probe fresh now db new =
     res_bind (validate_role_key (nr_key new)) (\<lambda>key.
     res_bind (validate_role_name (nr_name new)) (\<lambda>name.
     res_bind (validate_priority (nr_priority new)) (\<lambda>priority.
     res_bind (check_new_parent db probe (nr_organization_id new) (nr_inherits_role_id new)) (\<lambda>_.
     insert_role db
       \<lparr>role_id = fresh, role_organization_id = Some (nr_organization_id new), role_key = key,
        role_name = name, role_description = trim (nr_description new), role_priority = priority,
        inherits_role_id = nr_inherits_role_id new, inherit_permissions = True, is_system = False,
        role_created_at = now, role_updated_at = now\<rparr>))))"

definition insert_system_role ::
  "uuid \<Rightarrow> instant \<Rightarrow> iam_db \<Rightarrow> string \<Rightarrow> string \<Rightarrow> string \<Rightarrow> int \<Rightarrow> permissions_error + role \<times> iam_db" where
  "insert_system_role fresh now db key name description priority =
     insert_role db
       \<lparr>role_id = fresh, role_organization_id = None, role_key = key, role_name = name,
        role_description = description, role_priority = priority, inherits_role_id = None,
        inherit_permissions = True, is_system = True, role_created_at = now, role_updated_at = now\<rparr>"

definition update_row :: "('a \<Rightarrow> bool) \<Rightarrow> ('a \<Rightarrow> 'a) \<Rightarrow> 'a list \<Rightarrow> 'a list" where
  "update_row matches change rows = map (\<lambda>r. if matches r then change r else r) rows"

definition or_keep :: "'a \<Rightarrow> 'a option \<Rightarrow> 'a" where
  "or_keep old new = (case new of None \<Rightarrow> old | Some v \<Rightarrow> v)"  \<comment> \<open>\<open>coalesce($n, column)\<close>\<close>

definition resolve_parent :: "iam_db \<Rightarrow> role \<Rightarrow> parent_change \<Rightarrow> permissions_error + uuid option" where
  "resolve_parent db r change =
     (case change of
        KeepParent \<Rightarrow> Inr (inherits_role_id r)
      | ClearParent \<Rightarrow> Inr None
      | SetParent p \<Rightarrow>
          if p = role_id r then Inl SelfInheritance
          else (case find_role db p of
                  None \<Rightarrow> Inl RoleNotFound
                | Some parent \<Rightarrow>
                    if \<not> usable_parent parent (role_organization_id r) then Inl CrossOrganizationInheritance
                    else res_bind (validate_parent_change
                           (parent_links db (case role_organization_id r of
                              None \<Rightarrow> role_organization_id parent | Some o1 \<Rightarrow> Some o1)) (role_id r) (Some p))
                         (\<lambda>_. Inr (Some p))))"

definition validate_optional :: "('a \<Rightarrow> permissions_error + 'a) \<Rightarrow> 'a option \<Rightarrow> permissions_error + 'a option" where
  "validate_optional validate v =
     (case v of None \<Rightarrow> Inr None | Some x \<Rightarrow> res_bind (validate x) (\<lambda>y. Inr (Some y)))"

text \<open>The \<open>update roles set ...\<close> statement on one row.\<close>

definition role_change :: "instant \<Rightarrow> string option \<Rightarrow> string option \<Rightarrow> int option \<Rightarrow> uuid option \<Rightarrow>
    bool option \<Rightarrow> role \<Rightarrow> role" where
  "role_change now name description priority parent inherit row =
     row\<lparr>role_name := or_keep (role_name row) name,
         role_description := or_keep (role_description row) description,
         role_priority := or_keep (role_priority row) priority,
         inherits_role_id := parent,
         inherit_permissions := or_keep (inherit_permissions row) inherit,
         role_updated_at := now\<rparr>"

definition update_role :: "instant \<Rightarrow> iam_db \<Rightarrow> uuid \<Rightarrow> role_update \<Rightarrow> permissions_error + role \<times> iam_db" where
  "update_role now db i update =
     (case find_role db i of
        None \<Rightarrow> Inl RoleNotFound
      | Some r \<Rightarrow>
          if is_system r then Inl SystemRole
          else res_bind (validate_optional validate_role_name (ru_name update)) (\<lambda>name.
               let description = map_option trim (ru_description update) in
               res_bind (validate_optional validate_priority (ru_priority update)) (\<lambda>priority.
               res_bind (resolve_parent db r (ru_parent update)) (\<lambda>parent.
               let change = role_change now name description priority parent (ru_inherit_permissions update)
               in Inr (change r, db\<lparr>t_roles := update_row (\<lambda>row. role_id row = i) change (t_roles db)\<rparr>)))))"

definition is_live :: "instant \<Rightarrow> role_binding \<Rightarrow> bool" where
  "is_live now b = (revoked_at b = None \<and> (case expires_at b of None \<Rightarrow> True | Some e \<Rightarrow> e > now))"

definition count_live_for_role :: "instant \<Rightarrow> iam_db \<Rightarrow> uuid \<Rightarrow> nat" where
  "count_live_for_role now db i =
     length (filter (\<lambda>b. binding_role_id b = i \<and> is_live now b) (t_bindings db))"

text \<open>Deleting the row cascades to its entries, versions and bindings and clears the parent link of
  the roles that inherited from it.\<close>

definition delete_role_row :: "iam_db \<Rightarrow> uuid \<Rightarrow> iam_db" where
  "delete_role_row db i =
     db\<lparr>t_roles := map (\<lambda>r. if inherits_role_id r = Some i then r\<lparr>inherits_role_id := None\<rparr> else r)
                    (filter (\<lambda>r. role_id r \<noteq> i) (t_roles db)),
        t_entries := filter (\<lambda>e. er_role_id e \<noteq> i) (t_entries db),
        t_versions := filter (\<lambda>v. rv_role_id v \<noteq> i) (t_versions db),
        t_bindings := filter (\<lambda>b. binding_role_id b \<noteq> i) (t_bindings db)\<rparr>"

definition delete_role :: "instant \<Rightarrow> iam_db \<Rightarrow> uuid \<Rightarrow> permissions_error + iam_db" where
  "delete_role now db i =
     (case find_role db i of
        None \<Rightarrow> Inl RoleNotFound
      | Some r \<Rightarrow>
          if is_system r then Inl SystemRole
          else (let live = count_live_for_role now db i in
                if live > 0 then Inl (RoleHasBindings live) else Inr (delete_role_row db i)))"

subsection \<open>Writing permission sets\<close>

definition put_entries :: "uuid \<Rightarrow> (string, effect) btree_map \<Rightarrow> iam_db \<Rightarrow> iam_db" where
  "put_entries i validated db =
     db\<lparr>t_entries := filter (\<lambda>e. er_role_id e \<noteq> i) (t_entries db) @
          map (\<lambda>(k, eff). \<lparr>er_role_id = i, er_key = k, er_effect = eff\<rparr>) validated\<rparr>"

definition touch_role :: "instant \<Rightarrow> uuid \<Rightarrow> iam_db \<Rightarrow> iam_db" where
  "touch_role now i db =
     db\<lparr>t_roles := update_row (\<lambda>r. role_id r = i) (\<lambda>r. r\<lparr>role_updated_at := now\<rparr>) (t_roles db)\<rparr>"

fun collect_known ::
  "role_permission list \<Rightarrow> (string, effect) btree_map \<Rightarrow> permissions_error + (string, effect) btree_map" where
  "collect_known [] validated = Inr validated"
| "collect_known (e # es) validated =
     res_bind (expect_known (rp_key e)) (\<lambda>_. collect_known es (bt_insert (rp_key e) (rp_effect e) validated))"

definition set_role_permissions ::
  "instant \<Rightarrow> iam_db \<Rightarrow> uuid \<Rightarrow> role_permission list \<Rightarrow> permissions_error + role_permission list \<times> iam_db" where
  "set_role_permissions now db i entries =
     (case find_role db i of
        None \<Rightarrow> Inl RoleNotFound
      | Some r \<Rightarrow>
          if is_system r then Inl SystemRole
          else res_bind (collect_known entries []) (\<lambda>validated.
               let db' = touch_role now i (put_entries i validated db)
               in Inr (entries_of_role db' i, db')))"

text \<open>The loop of the matrix save: unknown keys, keys seen before, and the map.\<close>

fun sift_entries :: "role_permission list \<Rightarrow> string list \<Rightarrow> string list \<Rightarrow> (string, effect) btree_map \<Rightarrow>
    string list \<times> string list \<times> (string, effect) btree_map" where
  "sift_entries [] unknown duplicates validated = (unknown, duplicates, validated)"
| "sift_entries (e # es) unknown duplicates validated =
     (if \<not> is_known (rp_key e) then sift_entries es (unknown @ [rp_key e]) duplicates validated
      else sift_entries es unknown
             (if bt_contains validated (rp_key e) then duplicates @ [rp_key e] else duplicates)
             (bt_insert (rp_key e) (rp_effect e) validated))"

text \<open>\<open>sort\<close> then \<open>dedup\<close>.\<close>

definition sort_dedup :: "string list \<Rightarrow> string list" where
  "sort_dedup xs = remdups_adj (sort xs)"

definition latest_version :: "iam_db \<Rightarrow> uuid \<Rightarrow> int option" where
  "latest_version db i =
     (case map rv_version (filter (\<lambda>v. rv_role_id v = i) (t_versions db)) of
        [] \<Rightarrow> None | v # vs \<Rightarrow> Some (fold max vs v))"

definition record_version ::
  "iam_db \<Rightarrow> role \<Rightarrow> role_permission list \<Rightarrow> string \<Rightarrow> uuid option \<Rightarrow> role_version \<times> iam_db" where
  "record_version db r entries change changed_by =
     (let version = \<lparr>rv_role_id = role_id r,
            rv_version = (case latest_version db (role_id r) of None \<Rightarrow> 0 | Some v \<Rightarrow> v) + 1,
            rv_name = role_name r, rv_description = role_description r, rv_priority = role_priority r,
            rv_inherits_role_id = inherits_role_id r, rv_inherit_permissions = inherit_permissions r,
            rv_permissions = version_permissions entries, rv_change = change, rv_changed_by = changed_by\<rparr>
      in (version, db\<lparr>t_versions := t_versions db @ [version]\<rparr>))"

record save_outcome =
  so_role :: role
  so_entries :: "role_permission list"
  so_diff :: role_diff
  so_version :: int

definition replace_role_permissions ::
  "instant \<Rightarrow> iam_db \<Rightarrow> uuid \<Rightarrow> role_permission list \<Rightarrow> int option \<Rightarrow> uuid option \<Rightarrow>
   permissions_error + save_outcome \<times> iam_db" where
  "replace_role_permissions now db i entries expected_version changed_by =
     (case find_role db i of
        None \<Rightarrow> Inl RoleNotFound
      | Some r \<Rightarrow>
          if is_system r then Inl SystemRole
          else (case sift_entries entries [] [] [] of (unknown, duplicates, validated) \<Rightarrow>
            if unknown \<noteq> [] \<or> duplicates \<noteq> []
            then Inl (InvalidEntries (sort_dedup unknown) (sort_dedup duplicates))
            else (let current = (case latest_version db i of None \<Rightarrow> 0 | Some v \<Rightarrow> v) in
              if expected_version \<noteq> None \<and> current \<noteq> the expected_version
              then Inl (VersionConflict (the expected_version) current)
              else (let before = entries_of_role db i;
                        db' = touch_role now i (put_entries i validated db);
                        after = map role_permission_of validated
                    in (case record_version db' r after ''permissions'' changed_by of (version, db'') \<Rightarrow>
                         res_bind (ok_or RoleNotFound (find_role db'' i)) (\<lambda>updated.
                         Inr (\<lparr>so_role = updated, so_entries = after, so_diff = diff before after,
                               so_version = rv_version version\<rparr>, db'')))))))"

definition add_entry :: "iam_db \<Rightarrow> uuid \<Rightarrow> string \<Rightarrow> effect \<Rightarrow> iam_db" where
  "add_entry db i key eff =
     (if list_ex (\<lambda>e. er_role_id e = i \<and> er_key e = key) (t_entries db) then db
      else db\<lparr>t_entries := t_entries db @ [\<lparr>er_role_id = i, er_key = key, er_effect = eff\<rparr>]\<rparr>)"

definition ensure_allow_entry :: "iam_db \<Rightarrow> uuid \<Rightarrow> string \<Rightarrow> bool \<times> iam_db" where
  "ensure_allow_entry db i key =
     (case find (\<lambda>e. er_role_id e = i \<and> er_key e = key) (t_entries db) of
        None \<Rightarrow> (True, db\<lparr>t_entries := t_entries db @ [\<lparr>er_role_id = i, er_key = key, er_effect = Allow\<rparr>]\<rparr>)
      | Some e \<Rightarrow>
          if er_effect e = Allow then (False, db)
          else (True, db\<lparr>t_entries := update_row (\<lambda>e. er_role_id e = i \<and> er_key e = key)
                                        (\<lambda>e. e\<lparr>er_effect := Allow\<rparr>) (t_entries db)\<rparr>))"

definition prune_entries :: "iam_db \<Rightarrow> uuid \<Rightarrow> string list \<Rightarrow> nat \<times> iam_db" where
  "prune_entries db i keep =
     (let dropped = (\<lambda>e. er_role_id e = i \<and> er_key e \<notin> set keep)
      in (length (filter dropped (t_entries db)), db\<lparr>t_entries := filter (\<lambda>e. \<not> dropped e) (t_entries db)\<rparr>))"

definition duplicate_role ::
  "uuid \<Rightarrow> instant \<Rightarrow> iam_db \<Rightarrow> uuid \<Rightarrow> uuid \<Rightarrow> string \<Rightarrow> string \<Rightarrow> permissions_error + role \<times> iam_db" where
  "duplicate_role fresh now db source_id organization_id key name =
     (case find_role db source_id of
        None \<Rightarrow> Inl RoleNotFound
      | Some source \<Rightarrow>
          if \<not> usable_parent source (Some organization_id) then Inl CrossOrganizationInheritance
          else res_bind (validate_role_key key) (\<lambda>key.
               res_bind (validate_role_name name) (\<lambda>name.
               res_bind (case inherits_role_id source of
                    None \<Rightarrow> Inr None
                  | Some p \<Rightarrow>
                      (case find_role db p of
                         None \<Rightarrow> Inl RoleNotFound
                       | Some parent \<Rightarrow>
                           Inr (if usable_parent parent (Some organization_id) then Some p else None)))
               (\<lambda>parent.
               res_bind (insert_role db
                 \<lparr>role_id = fresh, role_organization_id = Some organization_id, role_key = key,
                  role_name = name, role_description = role_description source,
                  role_priority = role_priority source, inherits_role_id = parent,
                  inherit_permissions = inherit_permissions source, is_system = False,
                  role_created_at = now, role_updated_at = now\<rparr>)
               (\<lambda>(r, db'). Inr (r, db'\<lparr>t_entries := t_entries db' @
                  map (\<lambda>e. \<lparr>er_role_id = fresh, er_key = rp_key e, er_effect = rp_effect e\<rparr>)
                    (entries_of_role db source_id)\<rparr>))))))"

subsection \<open>The inheritance relation\<close>

definition parent_rel :: "iam_db \<Rightarrow> (uuid \<times> uuid) set" where
  "parent_rel db = {(role_id r, p) | r p. r \<in> set (t_roles db) \<and> inherits_role_id r = Some p}"

definition role_ids :: "iam_db \<Rightarrow> uuid set" where
  "role_ids db = role_id ` set (t_roles db)"

text \<open>What the inheritance structure depends on: the id, organization and parent of every row.\<close>

type_synonym skeleton = "(uuid \<times> uuid option \<times> uuid option) list"

definition role_skeleton :: "role \<Rightarrow> uuid \<times> uuid option \<times> uuid option" where
  "role_skeleton r = (role_id r, role_organization_id r, inherits_role_id r)"

definition skeleton :: "iam_db \<Rightarrow> skeleton" where
  "skeleton db = map role_skeleton (t_roles db)"

definition skel_rel :: "skeleton \<Rightarrow> (uuid \<times> uuid) set" where
  "skel_rel sk = {(i, p). \<exists>org. (i, org, Some p) \<in> set sk}"

definition skel_usable :: "skeleton \<Rightarrow> bool" where
  "skel_usable sk \<longleftrightarrow> (\<forall>i org p. (i, org, Some p) \<in> set sk \<longrightarrow>
     (\<exists>org' link. (p, org', link) \<in> set sk \<and> (org' = None \<or> org' = org)))"

text \<open>The invariant of the role table: primary key, foreign key and organization of every parent
  link, and no cycle.\<close>

definition skel_ok :: "skeleton \<Rightarrow> bool" where
  "skel_ok sk \<longleftrightarrow> distinct (map fst sk) \<and> skel_usable sk \<and> acyclic (skel_rel sk)"

definition store_ok :: "iam_db \<Rightarrow> bool" where
  "store_ok db \<longleftrightarrow> skel_ok (skeleton db)"

lemma parent_rel_skel: "parent_rel db = skel_rel (skeleton db)"
  by (auto simp: parent_rel_def skel_rel_def skeleton_def role_skeleton_def image_iff) metis

lemma role_ids_skel: "role_ids db = fst ` set (skeleton db)"
  by (simp add: role_ids_def skeleton_def role_skeleton_def image_image)

lemma role_skeleton_mem: "r \<in> set (t_roles db) \<Longrightarrow>
  (role_id r, role_organization_id r, inherits_role_id r) \<in> set (skeleton db)"
  by (force simp: skeleton_def role_skeleton_def)

lemma skel_usableD: "skel_ok sk \<Longrightarrow> (i, org, Some p) \<in> set sk \<Longrightarrow>
  \<exists>org' link. (p, org', link) \<in> set sk \<and> (org' = None \<or> org' = org)"
  by (simp add: skel_ok_def skel_usable_def)

lemma skel_unique: "skel_ok sk \<Longrightarrow> (i, t) \<in> set sk \<Longrightarrow> (i, t') \<in> set sk \<Longrightarrow> t = t'"
  unfolding skel_ok_def by (metis eq_key_imp_eq_value)

definition link_rel :: "parent_links \<Rightarrow> (uuid \<times> uuid) set" where
  "link_rel links = {(c, p). bt_get links c = Some (Some p)}"

lemma climb_None [simp]: "climb links i None steps visited = Inr ()"
  by (simp add: climb.simps)

lemma climb_Some:
  "climb links i (Some c) steps visited = Inr () \<Longrightarrow>
   c \<noteq> i \<and> c \<notin> visited \<and> steps < MAX_INHERITANCE_DEPTH \<and>
   climb links i (case bt_get links c of None \<Rightarrow> None | Some link \<Rightarrow> link) (steps + 1) (Set.insert c visited) = Inr ()"
  by (subst (asm) climb.simps) (simp split: if_split_asm)

lemma climb_next: "(c, d) \<in> link_rel links \<Longrightarrow> (case bt_get links c of None \<Rightarrow> None | Some link \<Rightarrow> link) = Some d"
  by (simp add: link_rel_def)

text \<open>A climb that succeeds saw every ancestor of its start, and none of them is the role.\<close>

lemma climb_avoids:
  assumes "(c, x) \<in> (link_rel links)\<^sup>*"
  shows "climb links i (Some c) steps visited = Inr () \<Longrightarrow> x \<noteq> i"
  using assms
proof (induction arbitrary: steps visited rule: converse_rtrancl_induct)
  case base
  then show ?case by (simp add: climb_Some)
next
  case (step c d)
  then show ?case using climb_Some[OF step.prems] climb_next[OF step.hyps(1)] by metis
qed

lemma link_rel_single: "(c, d) \<in> link_rel links \<Longrightarrow> (c, e) \<in> link_rel links \<Longrightarrow> d = e"
  by (simp add: link_rel_def)

lemma ancestors_step: "(c, d) \<in> link_rel links \<Longrightarrow>
  {x. (c, x) \<in> (link_rel links)\<^sup>*} = Set.insert c {x. (d, x) \<in> (link_rel links)\<^sup>*}"
  using link_rel_single
  by (auto intro: converse_rtrancl_into_rtrancl) (metis (full_types) converse_rtranclE)

lemma climb_depth:
  "climb links i (Some c) steps visited = Inr () \<Longrightarrow>
   finite {x. (c, x) \<in> (link_rel links)\<^sup>*} \<and>
   steps + card {x. (c, x) \<in> (link_rel links)\<^sup>*} \<le> MAX_INHERITANCE_DEPTH"
proof (induction "MAX_INHERITANCE_DEPTH - steps" arbitrary: c steps visited)
  case 0
  then show ?case using climb_Some by fastforce
next
  case (Suc n)
  note s = climb_Some[OF Suc.prems]
  show ?case
  proof (cases "\<exists>d. (c, d) \<in> link_rel links")
    case False
    then have "{x. (c, x) \<in> (link_rel links)\<^sup>*} = {c}" by (auto elim: converse_rtranclE)
    then show ?thesis using s by simp
  next
    case True
    then obtain d where d: "(c, d) \<in> link_rel links" by blast
    have "climb links i (Some d) (steps + 1) (Set.insert c visited) = Inr ()"
      using s climb_next[OF d] by simp
    from Suc.hyps(1)[OF _ this]
    have "finite {x. (d, x) \<in> (link_rel links)\<^sup>*} \<and>
        steps + 1 + card {x. (d, x) \<in> (link_rel links)\<^sup>*} \<le> MAX_INHERITANCE_DEPTH"
      using Suc.hyps(2) by simp
    then show ?thesis by (simp add: ancestors_step[OF d] card_insert_if split: if_split)
  qed
qed

text \<open>The loaded links are the relation, as far as the scope sees it.\<close>

lemma distinct_filter_ids: "distinct (map f xs) \<Longrightarrow> distinct (map f (filter P xs))"
  by (induction xs) auto

definition org_visible :: "uuid option \<Rightarrow> uuid option \<Rightarrow> bool" where
  "org_visible org own \<longleftrightarrow> own = None \<or> org \<noteq> None \<and> own = org"

lemma link_rel_parent_links:
  assumes "store_ok db"
  shows "(c, p) \<in> link_rel (parent_links db org) \<longleftrightarrow>
    (\<exists>own. (c, own, Some p) \<in> set (skeleton db) \<and> org_visible org own)"
proof -
  have "distinct (map role_id (t_roles db))"
    using assms by (simp add: store_ok_def skel_ok_def skeleton_def role_skeleton_def comp_def)
  then have "distinct (map fst (map (\<lambda>r. (role_id r, inherits_role_id r)) (filter (visible_to org) (t_roles db))))"
    by (simp add: comp_def distinct_filter_ids)
  from bt_get_collect[OF this, of c "Some p"] show ?thesis
    by (auto simp: link_rel_def parent_links_def skeleton_def role_skeleton_def visible_to_def
        org_visible_def image_iff)
qed

lemma climb_covers:
  assumes ok: "store_ok db" and path: "(c, x) \<in> (skel_rel (skeleton db))\<^sup>*"
    and start: "(c, own, link) \<in> set (skeleton db)" "org_visible org own"
  shows "(c, x) \<in> (link_rel (parent_links db org))\<^sup>* \<and>
    (\<exists>own link. (x, own, link) \<in> set (skeleton db) \<and> org_visible org own)"
  using path
proof (induction rule: rtrancl_induct)
  case base
  then show ?case using start by blast
next
  case (step y z)
  then obtain own link where y: "(y, own, link) \<in> set (skeleton db)" "org_visible org own" by blast
  have sk: "skel_ok (skeleton db)" using ok by (simp add: store_ok_def)
  obtain own' where "(y, own', Some z) \<in> set (skeleton db)" using step.hyps(2) by (auto simp: skel_rel_def)
  then have z: "(y, own, Some z) \<in> set (skeleton db)" using skel_unique[OF sk y(1)] by fastforce
  then have "(y, z) \<in> link_rel (parent_links db org)" using y(2) link_rel_parent_links[OF ok] by blast
  moreover have "\<exists>own' link'. (z, own', link') \<in> set (skeleton db) \<and> (own' = None \<or> own' = own)"
    using sk z unfolding skel_ok_def skel_usable_def by blast
  then have "\<exists>own link. (z, own, link) \<in> set (skeleton db) \<and> org_visible org own"
    using y(2) by (auto simp: org_visible_def)
  ultimately show ?case using step.IH by (auto intro: rtrancl_into_rtrancl)
qed

lemma find_role_mem: "find_role db i = Some r \<Longrightarrow> r \<in> set (t_roles db) \<and> role_id r = i"
  unfolding find_role_def by (drule find_Some_mem) simp

lemma find_role_skeleton:
  "find_role db i = Some r \<Longrightarrow> (i, role_organization_id r, inherits_role_id r) \<in> set (skeleton db)"
  by (drule find_role_mem) (use role_skeleton_mem in force)

subsection \<open>No operation closes a cycle\<close>

text \<open>Adding a row under a new id, whose parent exists and is usable.\<close>

lemma skel_insert:
  assumes ok: "skel_ok sk" and new: "i \<notin> fst ` set sk"
    and parent: "\<And>p. link = Some p \<Longrightarrow> \<exists>org' link'. (p, org', link') \<in> set sk \<and> (org' = None \<or> org' = org)"
  shows "skel_ok (sk @ [(i, org, link)])"
proof -
  have "acyclic (skel_rel (sk @ [(i, org, link)]))"
  proof (cases link)
    case None
    then have "skel_rel (sk @ [(i, org, link)]) = skel_rel sk" by (auto simp: skel_rel_def)
    then show ?thesis using ok by (simp add: skel_ok_def)
  next
    case (Some p)
    have "(x, i) \<notin> skel_rel sk" for x
      using ok new unfolding skel_ok_def skel_usable_def skel_rel_def by force
    moreover have "p \<noteq> i" using parent[OF Some] new by force
    ultimately have "(p, i) \<notin> (skel_rel sk)\<^sup>*" by (metis rtranclE)
    moreover have "skel_rel (sk @ [(i, org, link)]) = Set.insert (i, p) (skel_rel sk)"
      by (auto simp: skel_rel_def Some)
    ultimately show ?thesis using ok by (simp add: skel_ok_def acyclic_insert)
  qed
  moreover have "skel_usable (sk @ [(i, org, link)])"
    unfolding skel_usable_def
  proof (intro allI impI)
    fix j org' p
    assume "(j, org', Some p) \<in> set (sk @ [(i, org, link)])"
    then consider "(j, org', Some p) \<in> set sk" | "org' = org" "link = Some p" by auto
    then obtain org'' link' where "(p, org'', link') \<in> set sk" "org'' = None \<or> org'' = org'"
      using skel_usableD[OF ok] parent by cases blast+
    then show "\<exists>org'' link'. (p, org'', link') \<in> set (sk @ [(i, org, link)]) \<and> (org'' = None \<or> org'' = org')"
      by (intro exI[of _ org''] exI[of _ link']) simp
  qed
  moreover have "distinct (map fst (sk @ [(i, org, link)]))"
    using ok new by (simp add: skel_ok_def)
  ultimately show ?thesis by (simp add: skel_ok_def)
qed

text \<open>Re-pointing one row, and dropping one.\<close>

definition repoint :: "uuid \<Rightarrow> uuid option \<Rightarrow> skeleton \<Rightarrow> skeleton" where
  "repoint i link sk = map (\<lambda>(j, org, old). if j = i then (j, org, link) else (j, org, old)) sk"

definition detach :: "uuid \<Rightarrow> skeleton \<Rightarrow> skeleton" where
  "detach i sk = map (\<lambda>(j, org, old). (j, org, if old = Some i then None else old)) (filter (\<lambda>t. fst t \<noteq> i) sk)"

lemma repoint_fst: "map fst (repoint i link sk) = map fst sk"
  by (auto simp: repoint_def)

lemma repoint_mem: "(j, org, l) \<in> set (repoint i link sk) \<longleftrightarrow>
  (if j = i then l = link \<and> (\<exists>old. (j, org, old) \<in> set sk) else (j, org, l) \<in> set sk)"
  by (induction sk) (auto simp: repoint_def split: if_split_asm)

lemma skel_repoint:
  assumes ok: "skel_ok sk" and i: "(i, org, old) \<in> set sk"
    and parent: "\<And>p. link = Some p \<Longrightarrow> \<exists>org' link'. (p, org', link') \<in> set sk \<and> (org' = None \<or> org' = org)"
    and above: "\<And>p. link = Some p \<Longrightarrow> (p, i) \<notin> (skel_rel sk)\<^sup>*"
  shows "skel_ok (repoint i link sk)"
proof -
  have sub: "skel_rel (repoint i link sk) \<subseteq> skel_rel sk \<union> {(i, p) | p. link = Some p}"
    by (auto simp: skel_rel_def repoint_mem split: if_split_asm)
  have "acyclic (skel_rel sk \<union> {(i, p) | p. link = Some p})"
    using ok above by (cases link) (simp_all add: skel_ok_def acyclic_insert insert_def[symmetric])
  then have "acyclic (skel_rel (repoint i link sk))" using sub by (rule acyclic_subset)
  moreover have "skel_usable (repoint i link sk)"
    unfolding skel_usable_def
  proof (intro allI impI)
    fix j org' p
    assume j: "(j, org', Some p) \<in> set (repoint i link sk)"
    have "\<exists>org'' link'. (p, org'', link') \<in> set sk \<and> (org'' = None \<or> org'' = org')"
    proof (cases "j = i")
      case True
      then have "org' = org" using j i skel_unique[OF ok] by (fastforce simp: repoint_mem)
      then show ?thesis using j True parent by (simp add: repoint_mem)
    next
      case False
      then show ?thesis using j ok by (auto simp: repoint_mem skel_ok_def skel_usable_def)
    qed
    then show "\<exists>org'' link'. (p, org'', link') \<in> set (repoint i link sk) \<and> (org'' = None \<or> org'' = org')"
      by (cases "p = i") (auto simp: repoint_mem)
  qed
  moreover have "distinct (map fst (repoint i link sk))" using ok by (simp add: skel_ok_def repoint_fst)
  ultimately show ?thesis by (simp add: skel_ok_def)
qed

lemma skel_detach:
  assumes "skel_ok sk"
  shows "skel_ok (detach i sk)"
proof -
  have "skel_rel (detach i sk) \<subseteq> skel_rel sk"
    by (auto simp: skel_rel_def detach_def split: if_split_asm)
  then have "acyclic (skel_rel (detach i sk))"
    using assms by (auto simp: skel_ok_def intro: acyclic_subset)
  moreover have "skel_usable (detach i sk)"
    using assms unfolding skel_ok_def skel_usable_def detach_def
    by (force split: if_split_asm)
  moreover have "map fst (detach i sk) = map fst (filter (\<lambda>t. fst t \<noteq> i) sk)"
    by (auto simp: detach_def)
  ultimately show ?thesis using assms by (simp add: skel_ok_def distinct_filter_ids)
qed

lemma skeleton_insert:
  "t_roles db' = t_roles db @ [r] \<Longrightarrow>
   skeleton db' = skeleton db @ [(role_id r, role_organization_id r, inherits_role_id r)]"
  by (simp add: skeleton_def role_skeleton_def)

lemma skeleton_repoint:
  assumes "\<And>q. role_id (f q) = role_id q \<and> role_organization_id (f q) = role_organization_id q \<and> inherits_role_id (f q) = link"
    and "t_roles db' = update_row (\<lambda>q. role_id q = i) f (t_roles db)"
  shows "skeleton db' = repoint i link (skeleton db)"
  using assms by (simp add: skeleton_def repoint_def update_row_def role_skeleton_def)

lemma skeleton_keep:
  assumes "\<And>q. role_skeleton (f q) = role_skeleton q" and "t_roles db' = update_row P f (t_roles db)"
  shows "skeleton db' = skeleton db"
  using assms by (simp add: skeleton_def update_row_def)

lemma insert_role_Inr:
  "insert_role db r = Inr (r', db') \<Longrightarrow> r' = r \<and> db' = db\<lparr>t_roles := t_roles db @ [r]\<rparr>"
  unfolding insert_role_def by (auto split: if_split_asm)

lemma insert_role_ok:
  assumes "store_ok db" and "role_id r \<notin> role_ids db" and "insert_role db r = Inr (r', db')"
    and "\<And>p. inherits_role_id r = Some p \<Longrightarrow>
      \<exists>q. find_role db p = Some q \<and> usable_parent q (role_organization_id r)"
  shows "store_ok db'"
proof -
  have sk: "skeleton db' = skeleton db @ [(role_id r, role_organization_id r, inherits_role_id r)]"
    using insert_role_Inr[OF assms(3)] by (intro skeleton_insert) simp
  have "\<exists>org' link'. (p, org', link') \<in> set (skeleton db) \<and> (org' = None \<or> org' = role_organization_id r)"
    if "inherits_role_id r = Some p" for p
    using assms(4)[OF that] find_role_skeleton unfolding usable_parent_def by blast
  then show ?thesis unfolding store_ok_def sk
    using assms(1,2) by (intro skel_insert) (auto simp: store_ok_def role_ids_skel)
qed

lemma create_role_ok:
  assumes "store_ok db" and "fresh \<notin> role_ids db" and "create_role probe fresh now db new = Inr (r, db')"
  shows "store_ok db'"
proof -
  obtain r0 where c: "check_new_parent db probe (nr_organization_id new) (nr_inherits_role_id new) = Inr ()"
    and r0: "insert_role db r0 = Inr (r, db')" "role_id r0 = fresh"
      "role_organization_id r0 = Some (nr_organization_id new)"
      "inherits_role_id r0 = nr_inherits_role_id new"
    using assms(3) unfolding create_role_def res_bind_Inr_conv by force
  have "\<exists>q. find_role db p = Some q \<and> usable_parent q (role_organization_id r0)"
    if "inherits_role_id r0 = Some p" for p
    using c that r0 by (simp add: check_new_parent_def split: option.split_asm if_split_asm)
  then show ?thesis using assms(1,2) r0 by (intro insert_role_ok[OF assms(1) _ r0(1)]) simp_all
qed

lemma insert_system_role_ok:
  assumes "store_ok db" and "fresh \<notin> role_ids db"
    and "insert_system_role fresh now db key name description priority = Inr (r, db')"
  shows "store_ok db'"
  by (rule insert_role_ok[OF assms(1) _ assms(3)[unfolded insert_system_role_def]]) (simp_all add: assms(2))

lemma duplicate_role_ok:
  assumes "store_ok db" and "fresh \<notin> role_ids db"
    and "duplicate_role fresh now db source organization_id key name = Inr (r, db')"
  shows "store_ok db'"
proof -
  obtain r0 db0 where r0: "insert_role db r0 = Inr (r, db0)" "role_id r0 = fresh"
      "role_organization_id r0 = Some organization_id"
    and parent: "\<And>p. inherits_role_id r0 = Some p \<Longrightarrow>
      \<exists>q. find_role db p = Some q \<and> usable_parent q (Some organization_id)"
    and db': "t_roles db' = t_roles db0"
    using assms(3) unfolding duplicate_role_def
    by (force simp: res_bind_Inr_conv split: option.split_asm if_split_asm)
  have "store_ok db0" by (rule insert_role_ok[OF assms(1) _ r0(1)]) (use assms(2) r0 parent in simp_all)
  then show ?thesis using db' by (simp add: store_ok_def skeleton_def)
qed

lemma store_acyclic: "store_ok db \<Longrightarrow> acyclic (skel_rel (skeleton db))"
  by (simp add: store_ok_def skel_ok_def)

text \<open>A parent that \<open>update_role\<close> accepts exists, is usable, and the role is not above it.\<close>

lemma resolve_parent_ok:
  assumes ok: "store_ok db" and r: "find_role db i = Some r"
    and res: "resolve_parent db r change = Inr (Some p)"
  shows "(\<exists>org' link'. (p, org', link') \<in> set (skeleton db) \<and> (org' = None \<or> org' = role_organization_id r)) \<and>
    (p, i) \<notin> (skel_rel (skeleton db))\<^sup>*"
proof (cases change)
  case KeepParent
  then have i: "(i, role_organization_id r, Some p) \<in> set (skeleton db)"
    using res find_role_skeleton[OF r] by (simp add: resolve_parent_def)
  then have "(i, p) \<in> skel_rel (skeleton db)" by (auto simp: skel_rel_def)
  then have "(p, i) \<notin> (skel_rel (skeleton db))\<^sup>*"
    using store_acyclic[OF ok] unfolding acyclic_def by (meson rtrancl_into_trancl2)
  then show ?thesis using skel_usableD i ok by (auto simp: store_ok_def)
next
  case ClearParent
  then show ?thesis using res by (simp add: resolve_parent_def)
next
  case (SetParent p')
  have i: "role_id r = i" using find_role_mem[OF r] by simp
  obtain q org where q: "p' = p" "find_role db p = Some q" "usable_parent q (role_organization_id r)"
    and org: "org = (case role_organization_id r of None \<Rightarrow> role_organization_id q | Some o1 \<Rightarrow> Some o1)"
    and v: "validate_parent_change (parent_links db org) i (Some p) = Inr ()"
    using res i unfolding resolve_parent_def SetParent
    by (auto simp: res_bind_Inr_conv split: option.split_asm if_split_asm)
  have start: "(p, role_organization_id q, inherits_role_id q) \<in> set (skeleton db)"
    by (rule find_role_skeleton[OF q(2)])
  have vis: "org_visible org (role_organization_id q)"
    using q(3) org by (auto simp: org_visible_def usable_parent_def split: option.splits)
  have climb: "climb (parent_links db org) i (Some p) 0 {} = Inr ()"
    using v by (auto simp: validate_parent_change_def res_bind_Inr_conv)
  have "(p, i) \<notin> (skel_rel (skeleton db))\<^sup>*"
    using climb_covers[OF ok _ start vis] climb_avoids[OF _ climb] by blast
  then show ?thesis using start q(3) by (auto simp: usable_parent_def)
qed

lemma update_role_Inr:
  assumes "update_role now db i update = Inr (r', db')"
  shows "\<exists>r link f. find_role db i = Some r \<and> \<not> is_system r \<and> resolve_parent db r (ru_parent update) = Inr link \<and>
    (\<forall>q. role_id (f q) = role_id q \<and> role_organization_id (f q) = role_organization_id q \<and> inherits_role_id (f q) = link) \<and>
    r' = f r \<and> db' = db\<lparr>t_roles := update_row (\<lambda>q. role_id q = i) f (t_roles db)\<rparr>"
proof -
  obtain r where r: "find_role db i = Some r" "\<not> is_system r"
    using assms by (auto simp: update_role_def split: option.split_asm if_split_asm)
  obtain name priority link where
    parts: "validate_optional validate_role_name (ru_name update) = Inr name"
      "validate_optional validate_priority (ru_priority update) = Inr priority"
      "resolve_parent db r (ru_parent update) = Inr link"
    using assms r by (auto simp: update_role_def res_bind_Inr_conv Let_def)
  let ?f = "role_change now name (map_option trim (ru_description update)) priority link (ru_inherit_permissions update)"
  have "role_id (?f q) = role_id q \<and> role_organization_id (?f q) = role_organization_id q \<and> inherits_role_id (?f q) = link" for q
    by (simp add: role_change_def)
  moreover have "r' = ?f r \<and> db' = db\<lparr>t_roles := update_row (\<lambda>q. role_id q = i) ?f (t_roles db)\<rparr>"
    using assms r parts by (auto simp: update_role_def Let_def)
  ultimately show ?thesis using r parts(3) by blast
qed

lemma update_role_ok:
  assumes "store_ok db" and "update_role now db i update = Inr (r', db')"
  shows "store_ok db'"
proof -
  obtain r link f where r: "find_role db i = Some r" "resolve_parent db r (ru_parent update) = Inr link"
    and f: "\<And>q. role_id (f q) = role_id q \<and> role_organization_id (f q) = role_organization_id q \<and> inherits_role_id (f q) = link"
    and db': "t_roles db' = update_row (\<lambda>q. role_id q = i) f (t_roles db)"
    using update_role_Inr[OF assms(2)] by fastforce
  have sk: "skeleton db' = repoint i link (skeleton db)" using f db' by (rule skeleton_repoint)
  show ?thesis unfolding store_ok_def sk
    by (rule skel_repoint[OF _ find_role_skeleton[OF r(1)]])
      (use assms(1) resolve_parent_ok[OF assms(1) r(1)] r(2) in \<open>auto simp: store_ok_def\<close>)
qed

lemma delete_role_ok:
  assumes "store_ok db" and "delete_role now db i = Inr db'"
  shows "store_ok db'"
proof -
  have "db' = delete_role_row db i"
    using assms(2) by (auto simp: delete_role_def Let_def split: option.split_asm if_split_asm)
  then have "skeleton db' = detach i (skeleton db)"
    by (auto simp: skeleton_def delete_role_row_def detach_def role_skeleton_def filter_map comp_def)
  then show ?thesis using assms(1) by (simp add: store_ok_def skel_detach)
qed

text \<open>The operations of the role store as steps. A generated id is one no row carries.\<close>

inductive role_step :: "iam_db \<Rightarrow> iam_db \<Rightarrow> bool" where
  step_create: "fresh \<notin> role_ids db \<Longrightarrow> create_role probe fresh now db new = Inr (r, db') \<Longrightarrow> role_step db db'"
| step_system: "fresh \<notin> role_ids db \<Longrightarrow>
    insert_system_role fresh now db key name description priority = Inr (r, db') \<Longrightarrow> role_step db db'"
| step_duplicate: "fresh \<notin> role_ids db \<Longrightarrow>
    duplicate_role fresh now db source org key name = Inr (r, db') \<Longrightarrow> role_step db db'"
| step_update: "update_role now db i update = Inr (r, db') \<Longrightarrow> role_step db db'"
| step_delete: "delete_role now db i = Inr db' \<Longrightarrow> role_step db db'"
| step_set: "set_role_permissions now db i entries = Inr (es, db') \<Longrightarrow> role_step db db'"
| step_replace: "replace_role_permissions now db i entries expected changed_by = Inr (out, db') \<Longrightarrow> role_step db db'"
| step_add: "role_step db (add_entry db i key eff)"
| step_ensure: "role_step db (snd (ensure_allow_entry db i key))"
| step_prune: "role_step db (snd (prune_entries db i keep))"

lemma skeleton_same_roles: "t_roles db' = t_roles db \<Longrightarrow> skeleton db' = skeleton db"
  by (simp add: skeleton_def)

lemma skeleton_touch: "skeleton (touch_role now i (put_entries i validated db)) = skeleton db"
  by (rule skeleton_keep[where f = "\<lambda>r. r\<lparr>role_updated_at := now\<rparr>"])
    (simp_all add: role_skeleton_def touch_role_def put_entries_def)

lemma set_role_permissions_ok:
  "set_role_permissions now db i entries = Inr (es, db') \<Longrightarrow> skeleton db' = skeleton db"
  unfolding set_role_permissions_def
  by (auto simp: res_bind_Inr_conv Let_def skeleton_touch split: option.split_asm if_split_asm)

lemma replace_role_permissions_Inr:
  assumes "replace_role_permissions now db i entries expected changed_by = Inr (out, db'')"
  obtains r validated updated where "find_role db i = Some r" "\<not> is_system r"
    "sift_entries entries [] [] [] = ([], [], validated)"
    "expected = None \<or> expected = Some (case latest_version db i of None \<Rightarrow> 0 | Some v \<Rightarrow> v)"
    "out = \<lparr>so_role = updated, so_entries = map role_permission_of validated,
       so_diff = diff (entries_of_role db i) (map role_permission_of validated),
       so_version = rv_version (fst (record_version (touch_role now i (put_entries i validated db)) r
         (map role_permission_of validated) ''permissions'' changed_by))\<rparr>"
    "db'' = snd (record_version (touch_role now i (put_entries i validated db)) r
         (map role_permission_of validated) ''permissions'' changed_by)"
proof -
  obtain r where r: "find_role db i = Some r" "\<not> is_system r"
    using assms by (simp add: replace_role_permissions_def split: option.split_asm if_split_asm)
  obtain unknown duplicates validated where sift: "sift_entries entries [] [] [] = (unknown, duplicates, validated)"
    by (cases "sift_entries entries [] [] []")
  have none: "unknown = []" "duplicates = []"
    using assms r sift by (simp_all add: replace_role_permissions_def split: if_split_asm)
  define current where "current = (case latest_version db i of None \<Rightarrow> 0 | Some v \<Rightarrow> v)"
  have expected: "expected = None \<or> expected = Some current"
    using assms r sift none
    by (cases expected) (simp_all add: replace_role_permissions_def Let_def current_def split: if_split_asm)
  obtain version db1 where rec: "record_version (touch_role now i (put_entries i validated db)) r
      (map role_permission_of validated) ''permissions'' changed_by = (version, db1)"
    by (cases "record_version (touch_role now i (put_entries i validated db)) r
      (map role_permission_of validated) ''permissions'' changed_by")
  have "res_bind (ok_or RoleNotFound (find_role db1 i)) (\<lambda>updated.
      Inr (\<lparr>so_role = updated, so_entries = map role_permission_of validated,
        so_diff = diff (entries_of_role db i) (map role_permission_of validated),
        so_version = rv_version version\<rparr>, db1)) = Inr (out, db'')"
    using assms r sift none expected rec
    by (simp add: replace_role_permissions_def Let_def current_def split: if_split_asm)
  then obtain updated where "out = \<lparr>so_role = updated, so_entries = map role_permission_of validated,
        so_diff = diff (entries_of_role db i) (map role_permission_of validated),
        so_version = rv_version version\<rparr>" "db'' = db1"
    by (cases "find_role db1 i") auto
  then show ?thesis
    using sift none expected rec by (intro that[OF r, of validated updated]) (simp_all add: current_def)
qed

lemma replace_role_permissions_ok:
  assumes "replace_role_permissions now db i entries expected changed_by = Inr (out, db')"
  shows "skeleton db' = skeleton db"
proof -
  obtain r validated where "db' = snd (record_version (touch_role now i (put_entries i validated db)) r
       (map role_permission_of validated) ''permissions'' changed_by)"
    using replace_role_permissions_Inr[OF assms] by metis
  then have "t_roles db' = t_roles (touch_role now i (put_entries i validated db))"
    by (simp add: record_version_def Let_def)
  then show ?thesis using skeleton_same_roles skeleton_touch by metis
qed

lemma role_step_ok: "role_step db db' \<Longrightarrow> store_ok db \<Longrightarrow> store_ok db'"
proof (induction rule: role_step.induct)
  case (step_set now db i entries es db')
  then show ?case using set_role_permissions_ok by (metis store_ok_def)
next
  case (step_replace now db i entries expected changed_by out db')
  then show ?case using replace_role_permissions_ok by (metis store_ok_def)
next
  case (step_add db i key eff)
  then show ?case by (simp add: store_ok_def skeleton_def add_entry_def)
next
  case (step_ensure db i key)
  then show ?case by (simp add: store_ok_def skeleton_def ensure_allow_entry_def split: option.split)
next
  case (step_prune db i keep)
  then show ?case by (simp add: store_ok_def skeleton_def prune_entries_def Let_def)
qed (blast intro: create_role_ok insert_system_role_ok duplicate_role_ok update_role_ok delete_role_ok)+

lemma role_steps_ok: "role_step\<^sup>*\<^sup>* db db' \<Longrightarrow> store_ok db \<Longrightarrow> store_ok db'"
  by (induction rule: rtranclp_induct) (auto intro: role_step_ok)

text \<open>
  C6. No sequence of role operations ever closes an inheritance cycle: starting from a sound role
  table, after any number of creations, seedings, duplications, updates, deletions and permission
  saves, role ids are unique, every parent link points to an existing role of the platform or of the
  role's own organization, and the inheritance relation is acyclic.
\<close>

theorem role_store_acyclic:
  assumes "store_ok db" and "role_step\<^sup>*\<^sup>* db db'"
  shows "acyclic (parent_rel db') \<and> distinct (map role_id (t_roles db')) \<and>
    (\<forall>r p. r \<in> set (t_roles db') \<and> inherits_role_id r = Some p \<longrightarrow>
       (\<exists>q. q \<in> set (t_roles db') \<and> role_id q = p \<and> usable_parent q (role_organization_id r)))"
proof -
  have ok: "skel_ok (skeleton db')" using role_steps_ok[OF assms(2,1)] by (simp add: store_ok_def)
  have ids: "distinct (map role_id (t_roles db'))"
    using ok by (simp add: skel_ok_def skeleton_def role_skeleton_def comp_def)
  have "\<exists>q. q \<in> set (t_roles db') \<and> role_id q = p \<and> usable_parent q (role_organization_id r)"
    if "r \<in> set (t_roles db')" "inherits_role_id r = Some p" for r p
  proof -
    have "(role_id r, role_organization_id r, Some p) \<in> set (skeleton db')"
      using role_skeleton_mem[OF that(1)] that(2) by simp
    from skel_usableD[OF ok this] show ?thesis
      by (auto simp: skeleton_def role_skeleton_def usable_parent_def)
  qed
  then show ?thesis using ids ok by (auto simp: skel_ok_def parent_rel_skel)
qed

definition empty_db :: iam_db where
  "empty_db = \<lparr>t_roles = [], t_entries = [], t_versions = [], t_bindings = [], t_group_members = [],
     t_sites = [], t_subjects = [], t_organizations = []\<rparr>"

lemma store_ok_empty: "store_ok empty_db"
  by (simp add: store_ok_def skel_ok_def skeleton_def empty_db_def skel_usable_def skel_rel_def acyclic_def)

theorem role_store_acyclic_witness:
  "\<exists>db'. map role_key (t_roles db') = [''owner''] \<and> acyclic (parent_rel db')"
proof -
  let ?r = "\<lparr>role_id = 1, role_organization_id = None, role_key = ''owner'', role_name = ''Owner'',
      role_description = [], role_priority = 1000, inherits_role_id = None,
      inherit_permissions = True, is_system = True, role_created_at = 0, role_updated_at = 0\<rparr>"
  let ?db = "empty_db\<lparr>t_roles := [?r]\<rparr>"
  have "insert_system_role 1 0 empty_db ''owner'' ''Owner'' [] 1000 = Inr (?r, ?db)"
    by (simp add: insert_system_role_def insert_role_def key_taken_def find_role_by_key_def empty_db_def)
  then have "role_step empty_db ?db" by (rule step_system[rotated]) (simp add: role_ids_def empty_db_def)
  then have "acyclic (parent_rel ?db)"
    using role_store_acyclic[OF store_ok_empty, of ?db] by blast
  then show ?thesis by (intro exI[of _ ?db]) simp
qed

subsection \<open>How deep a chain gets\<close>

lemma repoint_path:
  assumes "(p, x) \<in> (skel_rel (repoint i link sk))\<^sup>*" and "(p, i) \<notin> (skel_rel (repoint i link sk))\<^sup>*"
  shows "(p, x) \<in> (skel_rel sk)\<^sup>*"
  using assms(1)
proof (induction rule: rtrancl_induct)
  case (step y z)
  then have "y \<noteq> i" using assms(2) by metis
  then have "(y, z) \<in> skel_rel sk" using step.hyps(2) by (auto simp: skel_rel_def repoint_mem)
  then show ?case using step.IH by simp
qed simp

lemma set_parent_climb:
  assumes r: "find_role db i = Some r" and res: "resolve_parent db r (SetParent p) = Inr link"
  shows "\<exists>q org. link = Some p \<and> find_role db p = Some q \<and> org_visible org (role_organization_id q) \<and>
    climb (parent_links db org) i (Some p) 0 {} = Inr ()"
proof -
  have i: "role_id r = i" using find_role_mem[OF r] by simp
  obtain q org where q: "link = Some p" "find_role db p = Some q" "usable_parent q (role_organization_id r)"
    and org: "org = (case role_organization_id r of None \<Rightarrow> role_organization_id q | Some o1 \<Rightarrow> Some o1)"
    and v: "validate_parent_change (parent_links db org) i (Some p) = Inr ()"
    using res i unfolding resolve_parent_def
    by (auto simp: res_bind_Inr_conv split: option.split_asm if_split_asm)
  have "org_visible org (role_organization_id q)"
    using q(3) org by (auto simp: org_visible_def usable_parent_def split: option.splits)
  then show ?thesis using q v by (auto simp: validate_parent_change_def res_bind_Inr_conv)
qed

text \<open>
  A role that was just re-parented has at most eight ancestors, whatever the table looked like
  before.
\<close>

theorem update_role_depth:
  assumes "store_ok db" and "update_role now db i update = Inr (r', db')" and "ru_parent update = SetParent p"
  shows "card {x. (i, x) \<in> (parent_rel db')\<^sup>+} \<le> 8"
proof -
  let ?sk = "skeleton db"
  obtain r link f where r: "find_role db i = Some r" "resolve_parent db r (SetParent p) = Inr link"
    and f: "\<And>q. role_id (f q) = role_id q \<and> role_organization_id (f q) = role_organization_id q \<and> inherits_role_id (f q) = link"
    and db': "t_roles db' = update_row (\<lambda>q. role_id q = i) f (t_roles db)"
    using update_role_Inr[OF assms(2)] assms(3) by fastforce
  obtain q org where q: "link = Some p" "find_role db p = Some q" "org_visible org (role_organization_id q)"
    and climb: "climb (parent_links db org) i (Some p) 0 {} = Inr ()"
    using set_parent_climb[OF r] by blast
  have sk': "skeleton db' = repoint i (Some p) ?sk" using skeleton_repoint[OF f db'] q(1) by simp
  have rel: "parent_rel db' = skel_rel (repoint i (Some p) ?sk)" by (simp add: parent_rel_skel sk')
  have ip: "(i, p) \<in> skel_rel (repoint i (Some p) ?sk)"
    using find_role_skeleton[OF r(1)] by (auto simp: skel_rel_def repoint_mem)
  have "acyclic (skel_rel (repoint i (Some p) ?sk))"
    using store_acyclic[OF update_role_ok[OF assms(1,2)]] sk' by simp
  then have above: "(p, i) \<notin> (skel_rel (repoint i (Some p) ?sk))\<^sup>*"
    using ip unfolding acyclic_def by (meson rtrancl_into_trancl2)
  have "(p, x) \<in> (link_rel (parent_links db org))\<^sup>*" if anc: "(i, x) \<in> (parent_rel db')\<^sup>+" for x
  proof -
    obtain p' where "(i, p') \<in> parent_rel db'" "(p', x) \<in> (parent_rel db')\<^sup>*" using anc by (meson tranclD)
    then have "(p, x) \<in> (skel_rel (repoint i (Some p) ?sk))\<^sup>*"
      unfolding rel by (auto simp: skel_rel_def repoint_mem)
    then have "(p, x) \<in> (skel_rel ?sk)\<^sup>*" using above by (rule repoint_path)
    then show ?thesis using climb_covers[OF assms(1) _ find_role_skeleton[OF q(2)] q(3)] by blast
  qed
  then have "{x. (i, x) \<in> (parent_rel db')\<^sup>+} \<subseteq> {x. (p, x) \<in> (link_rel (parent_links db org))\<^sup>*}" by blast
  then have "card {x. (i, x) \<in> (parent_rel db')\<^sup>+} \<le> card {x. (p, x) \<in> (link_rel (parent_links db org))\<^sup>*}"
    using climb_depth[OF climb] by (intro card_mono) simp_all
  then show ?thesis using climb_depth[OF climb] by (simp add: MAX_INHERITANCE_DEPTH_def)
qed

definition plain_role :: "uuid \<Rightarrow> uuid option \<Rightarrow> string \<Rightarrow> role" where
  "plain_role i org key =
     \<lparr>role_id = i, role_organization_id = org, role_key = key, role_name = key, role_description = [],
      role_priority = 100, inherits_role_id = None, inherit_permissions = True, is_system = False,
      role_created_at = 0, role_updated_at = 0\<rparr>"

definition two_roles :: iam_db where
  "two_roles = empty_db\<lparr>t_roles := [plain_role 1 (Some 9) ''a'', plain_role 2 None ''b'']\<rparr>"

lemma store_ok_two_roles: "store_ok two_roles"
  by (simp add: store_ok_def skel_ok_def skeleton_def two_roles_def empty_db_def plain_role_def
    role_skeleton_def skel_usable_def skel_rel_def acyclic_def)

lemmas update_eval = update_role_def find_role_def resolve_parent_def validate_optional_def
  usable_parent_def validate_parent_change_def parent_links_def visible_to_def bt_collect_def
  climb.simps child_index_def push_child_def children_in_def descend.simps bt_get_def
  MAX_INHERITANCE_DEPTH_def

definition set_parent_update :: "uuid \<Rightarrow> role_update" where
  "set_parent_update p = \<lparr>ru_name = None, ru_description = None, ru_priority = None,
     ru_parent = SetParent p, ru_inherit_permissions = None\<rparr>"

lemma update_role_sample: "\<exists>r db'. update_role 5 two_roles 1 (set_parent_update 2) = Inr (r, db')"
  by (simp add: update_eval two_roles_def empty_db_def plain_role_def set_parent_update_def Let_def)

theorem update_role_depth_witness:
  "\<exists>db'. (\<exists>r. update_role 5 two_roles 1 (set_parent_update 2) = Inr (r, db')) \<and>
     card {x. (1, x) \<in> (parent_rel db')\<^sup>+} \<le> 8"
  using update_role_sample update_role_depth[OF store_ok_two_roles, of 5 1 "set_parent_update 2" _ _ 2]
  by (fastforce simp: set_parent_update_def)

subsection \<open>The matrix save\<close>

lemma sift_accumulates:
  "sift_entries es unknown duplicates m = (u, d, v) \<Longrightarrow> \<exists>u' d'. u = unknown @ u' \<and> d = duplicates @ d'"
proof (induction es arbitrary: unknown duplicates m)
  case (Cons e es)
  show ?case
  proof (cases "is_known (rp_key e)")
    case False
    then show ?thesis using Cons.IH[of "unknown @ [rp_key e]" duplicates m] Cons.prems by auto
  next
    case True
    then show ?thesis
      using Cons.IH[of unknown "if bt_contains m (rp_key e) then duplicates @ [rp_key e] else duplicates"
          "bt_insert (rp_key e) (rp_effect e) m"] Cons.prems
      by (auto split: if_split_asm)
  qed
qed simp

lemma sift_clean:
  "sift_entries es [] [] m = ([], [], v) \<Longrightarrow>
   list_all (\<lambda>e. is_known (rp_key e) \<and> bt_get m (rp_key e) = None) es \<and> distinct (map rp_key es) \<and>
   v = fold (\<lambda>(k, e). bt_insert k e) (map (\<lambda>e. (rp_key e, rp_effect e)) es) m"
proof (induction es arbitrary: m)
  case (Cons e es)
  have known: "is_known (rp_key e)"
    using Cons.prems sift_accumulates[of es "[rp_key e]" "[]" m "[]" "[]" v] by (auto split: if_split_asm)
  have new: "bt_get m (rp_key e) = None"
    using Cons.prems known sift_accumulates[of es "[]" "[rp_key e]" "bt_insert (rp_key e) (rp_effect e) m" "[]" "[]" v]
    by (auto simp: bt_contains_def split: if_split_asm)
  have "sift_entries es [] [] (bt_insert (rp_key e) (rp_effect e) m) = ([], [], v)"
    using Cons.prems known new by (simp add: bt_contains_def)
  from Cons.IH[OF this] show ?case
    using known new by (auto simp: bt_get_insert list_all_iff split: if_split_asm)
qed simp

lemma entries_of_put:
  assumes "bt_ok validated"
  shows "entries_of_role (put_entries i validated db) i = map role_permission_of validated"
    and "j \<noteq> i \<Longrightarrow> entries_of_role (put_entries i validated db) j = entries_of_role db j"
proof -
  let ?rows = "map (\<lambda>(k, eff). \<lparr>er_role_id = i, er_key = k, er_effect = eff\<rparr>) validated"
  have "filter (\<lambda>e. er_role_id e = i) (filter (\<lambda>e. er_role_id e \<noteq> i) (t_entries db) @ ?rows) = ?rows"
    by (auto simp: filter_id_conv)
  moreover have "sort_key er_key ?rows = ?rows"
    using assms by (intro sort_key_id_if_sorted)
      (simp add: bt_ok_def strict_sorted_iff comp_def case_prod_unfold)
  ultimately show "entries_of_role (put_entries i validated db) i = map role_permission_of validated"
    by (simp add: entries_of_role_def put_entries_def role_permission_of_def case_prod_unfold comp_def)
  assume j: "j \<noteq> i"
  then have "filter (\<lambda>e. er_role_id e = j) ?rows = []" by (auto simp: filter_empty_conv)
  moreover have "filter (\<lambda>x. er_role_id x \<noteq> i \<and> er_role_id x = j) (t_entries db) =
      filter (\<lambda>e. er_role_id e = j) (t_entries db)" using j by (intro filter_cong) auto
  ultimately have "filter (\<lambda>e. er_role_id e = j) (filter (\<lambda>e. er_role_id e \<noteq> i) (t_entries db) @ ?rows) =
      filter (\<lambda>e. er_role_id e = j) (t_entries db)" by simp
  then show "entries_of_role (put_entries i validated db) j = entries_of_role db j"
    by (simp add: entries_of_role_def put_entries_def)
qed

lemma fold_max_append: "fold max (xs @ [y]) a = max (fold max xs a) y" for y :: int
  by (simp add: max.commute)

lemma latest_version_record:
  assumes "record_version db r entries change changed_by = (version, db')"
  shows "rv_version version = (case latest_version db (role_id r) of None \<Rightarrow> 0 | Some v \<Rightarrow> v) + 1"
    and "latest_version db' (role_id r) = Some (rv_version version)"
    and "t_entries db' = t_entries db"
  using assms unfolding record_version_def Let_def latest_version_def
  by (auto simp: fold_max_append split: list.splits)

lemma entries_of_role_cong: "t_entries db' = t_entries db \<Longrightarrow> entries_of_role db' i = entries_of_role db i"
  by (simp add: entries_of_role_def)

lemma latest_version_cong: "t_versions db' = t_versions db \<Longrightarrow> latest_version db' i = latest_version db i"
  by (simp add: latest_version_def)

text \<open>
  C7. A matrix save that succeeds wrote exactly what was asked: the role's stored set is the returned
  one, means the same as the request, holds each known key once, other roles are untouched, the
  reported diff is the diff between what was stored before and after, and the save wrote the next
  version number; a stale expected version cannot have succeeded.
\<close>

theorem replace_role_permissions_correct:
  assumes "replace_role_permissions now db i entries expected changed_by = Inr (out, db')"
  shows "entries_of_role db' i = so_entries out \<and>
    entry_map (so_entries out) = entry_map entries \<and>
    distinct (map rp_key entries) \<and> list_all (\<lambda>e. is_known (rp_key e)) entries \<and>
    (\<forall>j. j \<noteq> i \<longrightarrow> entries_of_role db' j = entries_of_role db j) \<and>
    so_diff out = diff (entries_of_role db i) (entries_of_role db' i) \<and>
    latest_version db' i = Some (so_version out) \<and>
    so_version out = (case latest_version db i of None \<Rightarrow> 0 | Some v \<Rightarrow> v) + 1 \<and>
    (\<forall>e. expected = Some e \<longrightarrow> so_version out = e + 1)"
proof -
  obtain r validated updated where r: "find_role db i = Some r"
    and sift: "sift_entries entries [] [] [] = ([], [], validated)"
    and expected: "expected = None \<or> expected = Some (case latest_version db i of None \<Rightarrow> 0 | Some v \<Rightarrow> v)"
    and out: "out = \<lparr>so_role = updated, so_entries = map role_permission_of validated,
       so_diff = diff (entries_of_role db i) (map role_permission_of validated),
       so_version = rv_version (fst (record_version (touch_role now i (put_entries i validated db)) r
         (map role_permission_of validated) ''permissions'' changed_by))\<rparr>"
    and db': "db' = snd (record_version (touch_role now i (put_entries i validated db)) r
         (map role_permission_of validated) ''permissions'' changed_by)"
    by (rule replace_role_permissions_Inr[OF assms]) blast
  let ?db = "touch_role now i (put_entries i validated db)"
  have i: "role_id r = i" using find_role_mem[OF r] by simp
  have v: "validated = entry_map entries" "distinct (map rp_key entries)"
      "list_all (\<lambda>e. is_known (rp_key e)) entries"
    using sift_clean[OF sift] by (auto simp: entry_map_def bt_collect_def list_all_iff)
  note rec = latest_version_record[of ?db r "map role_permission_of validated" "''permissions''" changed_by,
      OF prod.collapse[symmetric]]
  have entries: "t_entries db' = t_entries (put_entries i validated db)"
    using rec(3) by (simp add: db' touch_role_def)
  have versions: "latest_version ?db i = latest_version db i"
    by (rule latest_version_cong) (simp add: touch_role_def put_entries_def)
  have own: "entries_of_role db' i = map role_permission_of validated"
    using entries_of_role_cong[OF entries] entries_of_put(1) entry_map_ok v(1) by metis
  have others: "\<forall>j. j \<noteq> i \<longrightarrow> entries_of_role db' j = entries_of_role db j"
    using entries_of_role_cong[OF entries] entries_of_put(2) entry_map_ok v(1) by metis
  have version: "so_version out = (case latest_version db i of None \<Rightarrow> 0 | Some v \<Rightarrow> v) + 1"
      "latest_version db' i = Some (so_version out)"
    using rec(1,2) by (simp_all add: out db' i versions)
  have "entry_map (map role_permission_of validated) = validated"
    using bt_collect_id[OF entry_map_ok] v(1) by (simp add: entry_map_def role_permission_of_def comp_def)
  then show ?thesis
    using own others version v expected by (auto simp: out)
qed

theorem replace_role_permissions_correct_witness:
  "\<exists>out db'. replace_role_permissions 5 two_roles 1 [\<lparr>rp_key = ''content.pages.read'', rp_effect = Allow\<rparr>]
       (Some 0) None = Inr (out, db') \<and>
     entries_of_role db' 1 = so_entries out \<and> so_version out = 1"
proof -
  let ?es = "[\<lparr>rp_key = ''content.pages.read'', rp_effect = Allow\<rparr>]"
  have "is_known ''content.pages.read''"
    by (simp add: is_known_def catalogue_get_def catalogue_defs)
  then have "\<exists>out db'. replace_role_permissions 5 two_roles 1 ?es (Some 0) None = Inr (out, db')"
    by (simp add: replace_role_permissions_def two_roles_def empty_db_def plain_role_def find_role_def
      latest_version_def record_version_def touch_role_def put_entries_def update_row_def Let_def
      bt_contains_def)
  then show ?thesis using replace_role_permissions_correct[of 5 two_roles 1 ?es "Some 0" None] by fastforce
qed

end
