(* ===== verification/Bindings.thy ===== *)
theory Bindings
  imports RoleStore
begin

text \<open>
  Role bindings (\<open>crates/permissions/src/bindings.rs\<close>) and the safety invariants of revocation
  (\<open>invariants.rs\<close>): granting, revoking and retiring bindings over the \<open>role_bindings\<close> table with
  its partial unique index, resolving the bindings that speak for a subject in a context, and the
  check that keeps every scope administrable. The locale \<open>revocation\<close> states once what all the
  updates that set \<open>revoked_at\<close> share; every such operation interprets it.
\<close>

subsection \<open>Reading bindings\<close>

definition newest_first :: "role_binding \<Rightarrow> int \<times> int" where
  "newest_first b = (- binding_created_at b, - int (binding_id b))"

definition live_first :: "role_binding \<Rightarrow> nat \<times> int \<times> int" where
  "live_first b = ((if revoked_at b = None then 0 else 1), newest_first b)"

definition bindings_of_subject :: "iam_db \<Rightarrow> subject \<Rightarrow> role_binding list" where
  "bindings_of_subject db s = sort_key live_first (filter (\<lambda>b. binding_subject b = s) (t_bindings db))"

definition member_groups :: "iam_db \<Rightarrow> uuid \<Rightarrow> uuid list" where
  "member_groups db user = map fst (filter (\<lambda>(_, u). u = user) (t_group_members db))"

definition group_bindings :: "iam_db \<Rightarrow> uuid list \<Rightarrow> role_binding list" where
  "group_bindings db group_ids =
     sort_key newest_first
       (filter (\<lambda>b. list_ex (\<lambda>g. binding_subject b = SubjectGroup g) group_ids) (t_bindings db))"

definition bindings_for :: "iam_db \<Rightarrow> subject \<Rightarrow> role_binding list" where
  "bindings_for db s =
     sort_key newest_first
       (bindings_of_subject db s @
        (case s of
           SubjectUser user \<Rightarrow>
             (let group_ids = member_groups db user in if group_ids = [] then [] else group_bindings db group_ids)
         | _ \<Rightarrow> []))"

definition active_for_context :: "instant \<Rightarrow> iam_db \<Rightarrow> subject \<Rightarrow> resource_context \<Rightarrow> role_binding list" where
  "active_for_context now db s c =
     filter (\<lambda>b. is_active_at b now \<and> applies_to (binding_scope b) c) (bindings_for db s)"

record binding_filter =
  bf_organization_id :: "uuid option"
  bf_subject :: "subject option"
  bf_role_id :: "uuid option"
  bf_live_only :: bool
  bf_limit :: int

definition clamp :: "int \<Rightarrow> int \<Rightarrow> int \<Rightarrow> int" where
  "clamp lo hi v = (if v < lo then lo else if v > hi then hi else v)"

definition list_bindings :: "instant \<Rightarrow> iam_db \<Rightarrow> binding_filter \<Rightarrow> role_binding list" where
  "list_bindings now db f =
     take (nat (clamp 1 500 (bf_limit f)))
       (sort_key (\<lambda>b. ((if is_live now b then 0 else 1 :: nat), newest_first b))
         (filter (\<lambda>b.
            (bf_organization_id f = None \<or> scope_organization_id (binding_scope b) = bf_organization_id f \<or>
             scope_type (binding_scope b) = ''global'') \<and>
            (bf_subject f = None \<or> Some (binding_subject b) = bf_subject f) \<and>
            (bf_role_id f = None \<or> Some (binding_role_id b) = bf_role_id f) \<and>
            (\<not> bf_live_only f \<or> is_live now b)) (t_bindings db)))"

definition expiring_within :: "instant \<Rightarrow> iam_db \<Rightarrow> uuid option \<Rightarrow> int \<Rightarrow> role_binding list" where
  "expiring_within now db organization_id days =
     sort_key (\<lambda>b. (the (expires_at b), binding_id b))
       (filter (\<lambda>b. revoked_at b = None \<and>
          (case expires_at b of None \<Rightarrow> False | Some e \<Rightarrow> now < e \<and> e \<le> now + clamp 1 90 days * seconds 86400) \<and>
          (organization_id = None \<or> scope_organization_id (binding_scope b) = organization_id \<or>
           scope_type (binding_scope b) = ''global'')) (t_bindings db))"

subsection \<open>Writing bindings\<close>

record new_binding =
  nb_role_id :: uuid
  nb_subject :: subject
  nb_scope :: scope
  nb_granted_by :: "uuid option"
  nb_expires_at :: "instant option"

text \<open>The shared shape of the updates: set \<open>revoked_at\<close> on the rows the \<open>where\<close> clause selects.\<close>

definition set_revoked :: "instant \<Rightarrow> (role_binding \<Rightarrow> bool) \<Rightarrow> iam_db \<Rightarrow> iam_db" where
  "set_revoked now hits db =
     db\<lparr>t_bindings := update_row (\<lambda>b. revoked_at b = None \<and> hits b) (\<lambda>b. b\<lparr>revoked_at := Some now\<rparr>) (t_bindings db)\<rparr>"

definition is_past :: "instant \<Rightarrow> role_binding \<Rightarrow> bool" where
  "is_past now b = (case expires_at b of None \<Rightarrow> False | Some e \<Rightarrow> e \<le> now)"

definition retire_expired :: "instant \<Rightarrow> new_binding \<Rightarrow> iam_db \<Rightarrow> iam_db" where
  "retire_expired now new =
     set_revoked now (\<lambda>b. binding_role_id b = nb_role_id new \<and> binding_subject b = nb_subject new \<and>
       scope_type (binding_scope b) = scope_type (nb_scope new) \<and>
       scope_organization_id (binding_scope b) = scope_organization_id (nb_scope new) \<and>
       scope_site_id (binding_scope b) = scope_site_id (nb_scope new) \<and>
       scope_resource_id (binding_scope b) = scope_resource_id (nb_scope new) \<and> is_past now b)"

definition revoke_db :: "instant \<Rightarrow> uuid \<Rightarrow> iam_db \<Rightarrow> iam_db" where
  "revoke_db now i = set_revoked now (\<lambda>b. binding_id b = i)"

definition revoke :: "instant \<Rightarrow> iam_db \<Rightarrow> uuid \<Rightarrow> bool \<times> iam_db" where
  "revoke now db i =
     (list_ex (\<lambda>b. binding_id b = i \<and> revoked_at b = None) (t_bindings db), revoke_db now i db)"

definition revoke_subject_db :: "instant \<Rightarrow> subject \<Rightarrow> iam_db \<Rightarrow> iam_db" where
  "revoke_subject_db now s = set_revoked now (\<lambda>b. binding_subject b = s)"

definition revoke_for_subject :: "instant \<Rightarrow> iam_db \<Rightarrow> subject \<Rightarrow> nat \<times> iam_db" where
  "revoke_for_subject now db s =
     (length (filter (\<lambda>b. binding_subject b = s \<and> revoked_at b = None) (t_bindings db)),
      revoke_subject_db now s db)"

definition retire_all_db :: "instant \<Rightarrow> iam_db \<Rightarrow> iam_db" where
  "retire_all_db now = set_revoked now (is_past now)"

definition retire_all_expired :: "instant \<Rightarrow> iam_db \<Rightarrow> nat \<times> iam_db" where
  "retire_all_expired now db =
     (length (filter (\<lambda>b. revoked_at b = None \<and> is_past now b) (t_bindings db)), retire_all_db now db)"

text \<open>The key of the partial unique index \<open>role_bindings_active_key\<close>; a missing id counts as the
  nil id and a missing resource as the empty text.\<close>

definition slot :: "uuid \<Rightarrow> subject \<Rightarrow> scope \<Rightarrow> uuid \<times> subject \<times> string \<times> uuid \<times> uuid \<times> string" where
  "slot r s sc = (r, s, scope_type sc,
     or_keep 0 (scope_organization_id sc), or_keep 0 (scope_site_id sc), or_keep [] (scope_resource_id sc))"

definition binding_slot :: "role_binding \<Rightarrow> uuid \<times> subject \<times> string \<times> uuid \<times> uuid \<times> string" where
  "binding_slot b = slot (binding_role_id b) (binding_subject b) (binding_scope b)"

definition is_user :: "subject \<Rightarrow> bool" where
  "is_user s = (case s of SubjectUser _ \<Rightarrow> True | _ \<Rightarrow> False)"

definition references_ok :: "iam_db \<Rightarrow> new_binding \<Rightarrow> bool" where
  "references_ok db new =
     (find_role db (nb_role_id new) \<noteq> None \<and>
      (is_user (nb_subject new) \<longrightarrow> nb_subject new \<in> set (t_subjects db)) \<and>
      (case scope_organization_id (nb_scope new) of None \<Rightarrow> True | Some o1 \<Rightarrow> o1 \<in> set (t_organizations db)) \<and>
      (case scope_site_id (nb_scope new) of None \<Rightarrow> True | Some s \<Rightarrow> s \<in> fst ` set (t_sites db)))"

definition binding_row :: "uuid \<Rightarrow> instant \<Rightarrow> new_binding \<Rightarrow> role_binding" where
  "binding_row fresh now new =
     \<lparr>binding_id = fresh, binding_role_id = nb_role_id new, binding_subject = nb_subject new,
      binding_user_id = (case nb_subject new of SubjectUser i \<Rightarrow> Some i | _ \<Rightarrow> None),
      binding_scope = nb_scope new, granted_by = nb_granted_by new,
      expires_at = nb_expires_at new, revoked_at = None, binding_created_at = now\<rparr>"

text \<open>The retirement is a statement of its own, so it stays when the insert is refused: the result
  is the answer together with the store.\<close>

definition grant_subject ::
  "uuid \<Rightarrow> instant \<Rightarrow> iam_db \<Rightarrow> new_binding \<Rightarrow> (permissions_error + role_binding) \<times> iam_db" where
  "grant_subject fresh now db new =
     (let db1 = retire_expired now new db;
          row = binding_row fresh now new
      in if \<not> scope_ok (nb_scope new) then (Inl DatabaseError, db1)
         else if list_ex (\<lambda>b. revoked_at b = None \<and> binding_slot b = binding_slot row) (t_bindings db1)
         then (Inl AlreadyBound, db1)
         else if \<not> references_ok db1 new then (Inl InvalidBinding, db1)
         else (Inr row, db1\<lparr>t_bindings := t_bindings db1 @ [row]\<rparr>))"

definition grant_if_missing ::
  "uuid \<Rightarrow> instant \<Rightarrow> iam_db \<Rightarrow> new_binding \<Rightarrow> (permissions_error + role_binding option) \<times> iam_db" where
  "grant_if_missing fresh now db new =
     (case grant_subject fresh now db new of
        (Inr b, db') \<Rightarrow> (Inr (Some b), db')
      | (Inl e, db') \<Rightarrow> (if e = AlreadyBound then Inr None else Inl e, db'))"

subsection \<open>Validating a binding\<close>

definition validate_scope_target :: "iam_db \<Rightarrow> scope \<Rightarrow> permissions_error + unit" where
  "validate_scope_target db sc =
     (case sc of
        ScopeGlobal \<Rightarrow> Inr ()
      | ScopeOrganization _ \<Rightarrow> Inr ()
      | ScopeSite organization_id site_id \<Rightarrow>
          (case map_of (t_sites db) site_id of
             None \<Rightarrow> Inl InvalidBinding
           | Some site_organization \<Rightarrow>
               if organization_id \<noteq> None \<and> organization_id \<noteq> Some site_organization
               then Inl InvalidBinding else Inr ())
      | ScopeDepartment _ department \<Rightarrow> if trim department = [] then Inl InvalidBinding else Inr ()
      | ScopeModule _ _ module \<Rightarrow> if trim module = [] then Inl InvalidBinding else Inr ()
      | ScopeResource _ _ _ resource_id \<Rightarrow> if trim resource_id = [] then Inl InvalidBinding else Inr ())"

definition validate_subject_exists :: "iam_db \<Rightarrow> subject \<Rightarrow> permissions_error + unit" where
  "validate_subject_exists db s = (if s \<in> set (t_subjects db) then Inr () else Inl InvalidBinding)"

definition validate_subject :: "iam_db \<Rightarrow> new_binding \<Rightarrow> permissions_error + unit" where
  "validate_subject db new =
     (case find_role db (nb_role_id new) of
        None \<Rightarrow> Inl RoleNotFound
      | Some r \<Rightarrow>
          if role_organization_id r \<noteq> None \<and> scope_organization_id (nb_scope new) \<noteq> None \<and>
             role_organization_id r \<noteq> scope_organization_id (nb_scope new)
          then Inl InvalidBinding
          else res_bind (validate_scope_target db (nb_scope new)) (\<lambda>_.
               validate_subject_exists db (nb_subject new)))"

subsection \<open>The safety invariants of a revocation\<close>

definition PRIVILEGED_ROLE_KEYS :: "string list" where
  "PRIVILEGED_ROLE_KEYS = [''owner'', ''administrator'']"

datatype refusal = LastOwnerBinding string | SelfLockout string

text \<open>The join of a binding with its role, restricted to the privileged keys.\<close>

definition binding_role_key :: "iam_db \<Rightarrow> role_binding \<Rightarrow> string option" where
  "binding_role_key db b = map_option role_key (find_role db (binding_role_id b))"

definition is_privileged :: "iam_db \<Rightarrow> role_binding \<Rightarrow> bool" where
  "is_privileged db b =
     (case binding_role_key db b of None \<Rightarrow> False | Some key \<Rightarrow> key \<in> set PRIVILEGED_ROLE_KEYS)"

definition speaks_for :: "iam_db \<Rightarrow> uuid \<Rightarrow> role_binding \<Rightarrow> bool" where
  "speaks_for db user b =
     (case binding_subject b of
        SubjectUser u \<Rightarrow> u = user
      | SubjectGroup g \<Rightarrow> (g, user) \<in> set (t_group_members db)
      | SubjectServiceAccount _ \<Rightarrow> False)"

definition defends :: "uuid option \<Rightarrow> role_binding \<Rightarrow> bool" where
  "defends organization_id b =
     (case organization_id of
        Some o1 \<Rightarrow> scope_organization_id (binding_scope b) = Some o1
      | None \<Rightarrow> scope_type (binding_scope b) = ''global'' \<and> scope_organization_id (binding_scope b) = None)"

definition check_binding_revocation :: "instant \<Rightarrow> iam_db \<Rightarrow> uuid \<Rightarrow> uuid \<Rightarrow> refusal option" where
  "check_binding_revocation now db i caller =
     (case find (\<lambda>b. binding_id b = i \<and> revoked_at b = None \<and> binding_role_key db b \<noteq> None) (t_bindings db) of
        None \<Rightarrow> None
      | Some b \<Rightarrow>
          if is_past now b \<or> \<not> is_privileged db b then None
          else if binding_subject b = SubjectUser caller \<and>
                  filter (\<lambda>o1. binding_id o1 \<noteq> i \<and> is_live now o1 \<and> is_privileged db o1 \<and> speaks_for db caller o1)
                    (t_bindings db) = []
          then Some (SelfLockout (the (binding_role_key db b)))
          else if filter (\<lambda>o1. binding_id o1 \<noteq> i \<and> is_live now o1 \<and> is_privileged db o1 \<and>
                    defends (scope_organization_id (binding_scope b)) o1) (t_bindings db) = []
          then Some (LastOwnerBinding (the (binding_role_key db b)))
          else None)"

subsection \<open>What every revocation shares\<close>

lemma update_row_mem:
  "x \<in> set (update_row P f rows) \<longleftrightarrow> (\<exists>r \<in> set rows. x = (if P r then f r else r))"
  by (auto simp: update_row_def)

lemma active_in_table: "b \<in> set (active_for_context t db s c) \<Longrightarrow> b \<in> set (t_bindings db)"
  by (auto simp: active_for_context_def bindings_for_def bindings_of_subject_def group_bindings_def Let_def
    split: subject.splits if_splits)

definition binding_reaches :: "iam_db \<Rightarrow> subject \<Rightarrow> role_binding \<Rightarrow> bool" where
  "binding_reaches db s b \<longleftrightarrow> binding_subject b = s \<or>
     (\<exists>user g. s = SubjectUser user \<and> binding_subject b = SubjectGroup g \<and> (g, user) \<in> set (t_group_members db))"

lemma member_groups_mem: "g \<in> set (member_groups db user) \<longleftrightarrow> (g, user) \<in> set (t_group_members db)"
  by (force simp: member_groups_def)

lemma group_bindings_mem:
  "b \<in> set (group_bindings db gs) \<longleftrightarrow> b \<in> set (t_bindings db) \<and> (\<exists>g \<in> set gs. binding_subject b = SubjectGroup g)"
  by (simp add: group_bindings_def list_ex_iff)

lemma bindings_for_mem: "b \<in> set (bindings_for db s) \<longleftrightarrow> b \<in> set (t_bindings db) \<and> binding_reaches db s b"
proof (cases s)
  case (SubjectUser user)
  have "set (if member_groups db user = [] then [] else group_bindings db (member_groups db user)) =
      set (group_bindings db (member_groups db user))"
    by (simp add: group_bindings_def list_ex_iff)
  then show ?thesis
    by (auto simp: bindings_for_def bindings_of_subject_def SubjectUser Let_def binding_reaches_def
      group_bindings_mem member_groups_mem)
qed (auto simp: bindings_for_def bindings_of_subject_def binding_reaches_def)

lemma active_mem:
  "b \<in> set (active_for_context t db s c) \<longleftrightarrow>
   b \<in> set (t_bindings db) \<and> binding_reaches db s b \<and> is_active_at b t \<and> applies_to (binding_scope b) c"
  by (auto simp: active_for_context_def bindings_for_mem)

locale revocation =
  fixes now :: instant and hits :: "role_binding \<Rightarrow> bool" and op :: "iam_db \<Rightarrow> iam_db"
  assumes rows: "t_bindings (op db) =
      update_row (\<lambda>b. revoked_at b = None \<and> hits b) (\<lambda>b. b\<lparr>revoked_at := Some now\<rparr>) (t_bindings db)"
    and frame: "t_roles (op db) = t_roles db" "t_group_members (op db) = t_group_members db"
begin

lemma unrevoked_mem:
  "revoked_at b = None \<Longrightarrow> b \<in> set (t_bindings (op db)) \<longleftrightarrow> b \<in> set (t_bindings db) \<and> \<not> hits b"
proof -
  assume n: "revoked_at b = None"
  have "b \<noteq> r\<lparr>revoked_at := Some now\<rparr>" for r using n by (cases r) auto
  then show ?thesis using n by (auto simp: rows update_row_mem split: if_split_asm)
qed

lemma active_after:
  "b \<in> set (active_for_context t (op db) s c) \<longleftrightarrow> b \<in> set (active_for_context t db s c) \<and> \<not> hits b"
proof (cases "revoked_at b = None")
  case True
  then show ?thesis by (auto simp: active_mem unrevoked_mem binding_reaches_def frame)
next
  case False
  then show ?thesis by (auto simp: active_mem is_active_at_def)
qed

lemma same_keys: "binding_role_key (op db) b = binding_role_key db b"
  "is_privileged (op db) b = is_privileged db b" "speaks_for (op db) u b = speaks_for db u b"
  by (simp_all add: binding_role_key_def is_privileged_def speaks_for_def find_role_def frame
    split: subject.split)

lemma same_ids: "map binding_id (t_bindings (op db)) = map binding_id (t_bindings db)"
  by (simp add: rows update_row_def)

lemma unrevoked_slots:
  "map binding_slot (filter (\<lambda>b. revoked_at b = None) (t_bindings (op db))) =
   map binding_slot (filter (\<lambda>b. revoked_at b = None \<and> \<not> hits b) (t_bindings db))"
proof -
  have "map binding_slot (filter (\<lambda>b. revoked_at b = None) (update_row (\<lambda>b. revoked_at b = None \<and> hits b)
      (\<lambda>b. b\<lparr>revoked_at := Some now\<rparr>) xs)) =
      map binding_slot (filter (\<lambda>b. revoked_at b = None \<and> \<not> hits b) xs)" for xs
    by (induction xs) (auto simp: update_row_def)
  then show ?thesis by (simp add: rows)
qed

end

interpretation one: revocation now "\<lambda>b. binding_id b = i" "revoke_db now i" for now i
  by unfold_locales (simp_all add: revoke_db_def set_revoked_def)

interpretation subject: revocation now "\<lambda>b. binding_subject b = s" "revoke_subject_db now s" for now s
  by unfold_locales (simp_all add: revoke_subject_db_def set_revoked_def)

interpretation all_past: revocation now "is_past now" "retire_all_db now" for now
  by unfold_locales (simp_all add: retire_all_db_def set_revoked_def)

interpretation same_slot: revocation now "\<lambda>b. binding_role_id b = nb_role_id new \<and> binding_subject b = nb_subject new \<and>
       scope_type (binding_scope b) = scope_type (nb_scope new) \<and>
       scope_organization_id (binding_scope b) = scope_organization_id (nb_scope new) \<and>
       scope_site_id (binding_scope b) = scope_site_id (nb_scope new) \<and>
       scope_resource_id (binding_scope b) = scope_resource_id (nb_scope new) \<and> is_past now b"
    "retire_expired now new" for now new
  by unfold_locales (simp_all add: retire_expired_def set_revoked_def)

text \<open>
  A revocation takes effect at once and touches nothing else: after revoking one binding the
  bindings that decide a subject's requests, in every context and at every instant, are those from
  before without it; revoking a subject removes exactly that subject's own bindings.
\<close>

theorem revoke_effect:
  "set (active_for_context t (snd (revoke now db i)) s c) =
     {b. b \<in> set (active_for_context t db s c) \<and> binding_id b \<noteq> i} \<and>
   set (active_for_context t (snd (revoke_for_subject now db s')) s c) =
     {b. b \<in> set (active_for_context t db s c) \<and> binding_subject b \<noteq> s'}"
  by (auto simp: revoke_def revoke_for_subject_def one.active_after subject.active_after)

text \<open>
  The expiry sweep is invisible: from the sweep's instant on it changes no subject's active
  bindings in any context.
\<close>

theorem retire_all_invisible:
  assumes "now \<le> t"
  shows "set (active_for_context t (snd (retire_all_expired now db)) s c) = set (active_for_context t db s c)"
proof -
  have "\<not> is_past now b" if "b \<in> set (active_for_context t db s c)" for b
    using that assms by (auto simp: active_mem is_active_at_def is_past_def split: option.splits)
  then show ?thesis by (auto simp: retire_all_expired_def all_past.active_after)
qed

definition sample_binding :: "uuid \<Rightarrow> uuid \<Rightarrow> subject \<Rightarrow> scope \<Rightarrow> instant option \<Rightarrow> role_binding" where
  "sample_binding i r s sc expires =
     \<lparr>binding_id = i, binding_role_id = r, binding_subject = s, binding_user_id = None, binding_scope = sc,
      granted_by = None, expires_at = expires, revoked_at = None, binding_created_at = 0\<rparr>"

theorem retire_all_invisible_witness:
  "set (active_for_context 9 (snd (retire_all_expired 7 (empty_db\<lparr>t_bindings :=
       [sample_binding 1 1 (SubjectUser 3) ScopeGlobal (Some 5)]\<rparr>))) (SubjectUser 3) (context_from_scope ScopeGlobal)) =
   set (active_for_context 9 (empty_db\<lparr>t_bindings :=
       [sample_binding 1 1 (SubjectUser 3) ScopeGlobal (Some 5)]\<rparr>) (SubjectUser 3) (context_from_scope ScopeGlobal))"
  by (rule retire_all_invisible) simp

subsection \<open>One live binding per slot\<close>

text \<open>The promise of the partial unique index, with primary keys.\<close>

definition bindings_ok :: "iam_db \<Rightarrow> bool" where
  "bindings_ok db \<longleftrightarrow> distinct (map binding_id (t_bindings db)) \<and>
     distinct (map binding_slot (filter (\<lambda>b. revoked_at b = None) (t_bindings db)))"

inductive binding_step :: "iam_db \<Rightarrow> iam_db \<Rightarrow> bool" where
  step_grant: "fresh \<notin> binding_id ` set (t_bindings db) \<Longrightarrow> grant_subject fresh now db new = (res, db') \<Longrightarrow>
    binding_step db db'"
| step_grant_missing: "fresh \<notin> binding_id ` set (t_bindings db) \<Longrightarrow>
    grant_if_missing fresh now db new = (res', db') \<Longrightarrow> binding_step db db'"
| step_revoke: "revoke now db i = (hit, db') \<Longrightarrow> binding_step db db'"
| step_revoke_subject: "revoke_for_subject now db s = (n, db') \<Longrightarrow> binding_step db db'"
| step_retire: "retire_all_expired now db = (n, db') \<Longrightarrow> binding_step db db'"

lemma distinct_map_filter_sub:
  "distinct (map f (filter P xs)) \<Longrightarrow> (\<And>x. Q x \<Longrightarrow> P x) \<Longrightarrow> distinct (map f (filter Q xs))"
  by (induction xs) (auto split: if_split_asm)

lemma revocation_bindings_ok:
  assumes "revocation now hits op" and "bindings_ok db"
  shows "bindings_ok (op db)"
  using assms(2) revocation.same_ids[OF assms(1)] revocation.unrevoked_slots[OF assms(1)]
  by (auto simp: bindings_ok_def intro: distinct_map_filter_sub[where P = "\<lambda>b. revoked_at b = None"])

lemma grant_subject_cases:
  assumes "grant_subject fresh now db new = (res, db')"
  obtains (refused) e where "res = Inl e" "db' = retire_expired now new db"
  | (granted) "res = Inr (binding_row fresh now new)" "references_ok (retire_expired now new db) new"
      "scope_ok (nb_scope new)"
      "\<not> list_ex (\<lambda>b. revoked_at b = None \<and> binding_slot b = binding_slot (binding_row fresh now new))
         (t_bindings (retire_expired now new db))"
      "db' = (retire_expired now new db)\<lparr>t_bindings :=
         t_bindings (retire_expired now new db) @ [binding_row fresh now new]\<rparr>"
  using assms unfolding grant_subject_def Let_def
  by (simp split: if_split_asm) blast+

lemma binding_row_fields [simp]: "binding_id (binding_row fresh now new) = fresh"
  "revoked_at (binding_row fresh now new) = None" "expires_at (binding_row fresh now new) = nb_expires_at new"
  "binding_subject (binding_row fresh now new) = nb_subject new"
  "binding_scope (binding_row fresh now new) = nb_scope new"
  "binding_role_id (binding_row fresh now new) = nb_role_id new"
  by (simp_all add: binding_row_def)

lemma grant_subject_ok:
  assumes "bindings_ok db" and "fresh \<notin> binding_id ` set (t_bindings db)"
    and "grant_subject fresh now db new = (res, db')"
  shows "bindings_ok db'"
proof -
  have ok: "bindings_ok (retire_expired now new db)"
    by (rule revocation_bindings_ok[OF same_slot.revocation_axioms assms(1)])
  have ids: "binding_id ` set (t_bindings (retire_expired now new db)) = binding_id ` set (t_bindings db)"
    using same_slot.same_ids by (metis set_map)
  from assms(3) show ?thesis
  proof (cases rule: grant_subject_cases)
    case refused
    then show ?thesis using ok by simp
  next
    case granted
    then show ?thesis using ok ids assms(2) by (auto simp: bindings_ok_def list_ex_iff)
  qed
qed

lemma grant_if_missing_db: "grant_if_missing fresh now db new = (res, db') \<Longrightarrow> \<exists>r. grant_subject fresh now db new = (r, db')"
  by (auto simp: grant_if_missing_def split: prod.split_asm sum.split_asm)

lemma binding_step_ok: "binding_step db db' \<Longrightarrow> bindings_ok db \<Longrightarrow> bindings_ok db'"
proof (induction rule: binding_step.induct)
  case (step_grant fresh db now new res db')
  then show ?case by (blast intro: grant_subject_ok)
next
  case (step_grant_missing fresh db now new res' db')
  then show ?case by (blast intro: grant_subject_ok dest: grant_if_missing_db)
next
  case (step_revoke now db i hit db')
  then show ?case using revocation_bindings_ok[OF one.revocation_axioms] by (auto simp: revoke_def)
next
  case (step_revoke_subject now db s n db')
  then show ?case using revocation_bindings_ok[OF subject.revocation_axioms] by (auto simp: revoke_for_subject_def)
next
  case (step_retire now db n db')
  then show ?case using revocation_bindings_ok[OF all_past.revocation_axioms] by (auto simp: retire_all_expired_def)
qed

text \<open>
  C9. However grants, revocations and sweeps interleave, a subject never holds the same role twice at
  the same scope: among the bindings that are not revoked no two share role, subject and scope.
\<close>

theorem one_binding_per_slot:
  assumes "bindings_ok db" and "binding_step\<^sup>*\<^sup>* db db'"
  shows "distinct (map binding_slot (filter (\<lambda>b. revoked_at b = None) (t_bindings db')))"
proof -
  have "bindings_ok db'"
    using assms(2,1) by (induction rule: rtranclp_induct) (auto intro: binding_step_ok)
  then show ?thesis by (simp add: bindings_ok_def)
qed

definition one_role_db :: iam_db where
  "one_role_db = empty_db\<lparr>t_roles := [plain_role 1 None ''owner''], t_subjects := [SubjectUser 3],
     t_bindings := [sample_binding 1 1 (SubjectUser 3) ScopeGlobal (Some 5)]\<rparr>"

theorem one_binding_per_slot_witness:
  "\<exists>db' :: iam_db. length (t_bindings db') = 2 \<and>
     distinct (map binding_slot (filter (\<lambda>b. revoked_at b = None) (t_bindings db')))"
proof -
  let ?new = "\<lparr>nb_role_id = 1, nb_subject = SubjectUser 3, nb_scope = ScopeGlobal, nb_granted_by = None,
    nb_expires_at = None\<rparr>"
  obtain res db' where g: "grant_subject 2 7 one_role_db ?new = (res, db')" by fastforce
  then have "binding_step one_role_db db'"
    by (rule step_grant[rotated]) (simp add: one_role_db_def sample_binding_def)
  moreover have "bindings_ok one_role_db"
    by (simp add: bindings_ok_def one_role_db_def sample_binding_def)
  moreover have "length (t_bindings db') = 2"
    using g by (auto simp: grant_subject_def Let_def retire_expired_def set_revoked_def update_row_def
      one_role_db_def sample_binding_def is_past_def binding_slot_def slot_def references_ok_def binding_row_def
      find_role_def plain_role_def is_user_def empty_db_def split: if_split_asm)
  ultimately show ?thesis
    using one_binding_per_slot[of one_role_db db', OF _ r_into_rtranclp] by (intro exI[of _ db']) simp
qed

subsection \<open>The revocation check keeps every scope administrable\<close>

definition keeps_owner :: "instant \<Rightarrow> iam_db \<Rightarrow> uuid option \<Rightarrow> bool" where
  "keeps_owner now db organization_id \<longleftrightarrow>
     (\<exists>b \<in> set (t_bindings db). is_live now b \<and> is_privileged db b \<and> defends organization_id b)"

definition administers :: "instant \<Rightarrow> iam_db \<Rightarrow> uuid \<Rightarrow> bool" where
  "administers now db user \<longleftrightarrow>
     (\<exists>b \<in> set (t_bindings db). is_live now b \<and> is_privileged db b \<and> speaks_for db user b)"

lemma is_live_unrevoked: "is_live now b \<Longrightarrow> revoked_at b = None \<and> \<not> is_past now b"
  by (auto simp: is_live_def is_past_def split: option.splits)

lemma binding_unique:
  "distinct (map binding_id bs) \<Longrightarrow> b \<in> set bs \<Longrightarrow> b' \<in> set bs \<Longrightarrow> binding_id b = binding_id b' \<Longrightarrow> b = b'"
  by (metis distinct_map inj_onD)

text \<open>A row the revocation does not select stays, with the same role and subject.\<close>

lemma survives_revoke:
  assumes "o1 \<in> set (t_bindings db)" and "binding_id o1 \<noteq> i" and "is_live now o1"
  shows "o1 \<in> set (t_bindings (revoke_db now' i db))"
  using one.unrevoked_mem[of o1 now' i db] assms is_live_unrevoked[OF assms(3)] by simp

lemma check_passed:
  assumes ids: "distinct (map binding_id (t_bindings db))"
    and check: "check_binding_revocation now db i caller = None"
    and b: "b \<in> set (t_bindings db)" "binding_id b = i" "is_live now b" "is_privileged db b"
  shows "\<exists>o1 \<in> set (t_bindings db). binding_id o1 \<noteq> i \<and> is_live now o1 \<and> is_privileged db o1 \<and>
      defends (scope_organization_id (binding_scope b)) o1"
    and "binding_subject b = SubjectUser caller \<Longrightarrow>
      \<exists>o1 \<in> set (t_bindings db). binding_id o1 \<noteq> i \<and> is_live now o1 \<and> is_privileged db o1 \<and> speaks_for db caller o1"
proof -
  let ?P = "\<lambda>b. binding_id b = i \<and> revoked_at b = None \<and> binding_role_key db b \<noteq> None"
  have live: "revoked_at b = None" "\<not> is_past now b" using is_live_unrevoked[OF b(3)] by simp_all
  have key: "binding_role_key db b \<noteq> None" using b(4) by (auto simp: is_privileged_def split: option.splits)
  have "find ?P (t_bindings db) \<noteq> None" using b(1,2) live(1) key unfolding find_None_all by blast
  then obtain b' where b': "find ?P (t_bindings db) = Some b'" by blast
  from find_Some_mem[OF b'] have "b' = b" using binding_unique[OF ids _ b(1)] b(2) by auto
  then have found: "find ?P (t_bindings db) = Some b" using b' by simp
  show "\<exists>o1 \<in> set (t_bindings db). binding_id o1 \<noteq> i \<and> is_live now o1 \<and> is_privileged db o1 \<and>
      defends (scope_organization_id (binding_scope b)) o1"
    using check unfolding check_binding_revocation_def found
    by (simp add: live b(4) filter_empty_conv split: if_split_asm) blast+
  show "\<exists>o1 \<in> set (t_bindings db). binding_id o1 \<noteq> i \<and> is_live now o1 \<and> is_privileged db o1 \<and> speaks_for db caller o1"
    if "binding_subject b = SubjectUser caller"
    using check that unfolding check_binding_revocation_def found
    by (simp add: live b(4) filter_empty_conv split: if_split_asm) blast
qed

lemma guarded_revoke_keeps_owner:
  assumes ids: "distinct (map binding_id (t_bindings db))"
    and check: "check_binding_revocation now db i caller = None"
    and kept: "keeps_owner now db organization_id"
  shows "keeps_owner now (revoke_db now i db) organization_id"
proof -
  obtain b where b: "b \<in> set (t_bindings db)" "is_live now b" "is_privileged db b" "defends organization_id b"
    using kept by (auto simp: keeps_owner_def)
  obtain o1 where o1: "o1 \<in> set (t_bindings db)" "binding_id o1 \<noteq> i" "is_live now o1" "is_privileged db o1"
      "defends organization_id o1"
  proof (cases "binding_id b = i")
    case True
    have "scope_organization_id (binding_scope b) = organization_id"
      using b(4) by (auto simp: defends_def split: option.splits)
    then show ?thesis using check_passed(1)[OF ids check b(1) True b(2,3)] that by blast
  next
    case False
    then show ?thesis using that b by blast
  qed
  show ?thesis
    unfolding keeps_owner_def
    using survives_revoke[OF o1(1-3)] o1(3-5) by (intro bexI[of _ o1]) (simp_all add: one.same_keys)
qed

text \<open>
  A revocation the safety check lets through leaves every scope administrable: an organization
  (or the platform) that had a live owner or administrator binding still has one, and a caller who
  revokes a binding of their own still administers, directly or through a group.
\<close>

theorem revocation_keeps_owner:
  assumes "bindings_ok db" and "check_binding_revocation now db i caller = None"
  shows "(keeps_owner now db organization_id \<longrightarrow> keeps_owner now (snd (revoke now db i)) organization_id) \<and>
    (\<forall>b. b \<in> set (t_bindings db) \<and> binding_id b = i \<and> binding_subject b = SubjectUser caller \<and>
       administers now db caller \<longrightarrow> administers now (snd (revoke now db i)) caller)"
proof (intro conjI impI allI)
  have ids: "distinct (map binding_id (t_bindings db))" using assms(1) by (simp add: bindings_ok_def)
  show "keeps_owner now (snd (revoke now db i)) organization_id" if "keeps_owner now db organization_id"
    using guarded_revoke_keeps_owner[OF ids assms(2) that] by (simp add: revoke_def)
  fix b assume b: "b \<in> set (t_bindings db) \<and> binding_id b = i \<and> binding_subject b = SubjectUser caller \<and>
      administers now db caller"
  then obtain a where a: "a \<in> set (t_bindings db)" "is_live now a" "is_privileged db a" "speaks_for db caller a"
    by (auto simp: administers_def)
  obtain o1 where o1: "o1 \<in> set (t_bindings db)" "binding_id o1 \<noteq> i" "is_live now o1" "is_privileged db o1"
      "speaks_for db caller o1"
  proof (cases "binding_id a = i")
    case True
    then have "a = b" using binding_unique[OF ids a(1)] b by simp
    then have "binding_subject a = SubjectUser caller" using b by simp
    from check_passed(2)[OF ids assms(2) a(1) True a(2,3) this] show ?thesis using that by blast
  next
    case False
    then show ?thesis using that a by blast
  qed
  show "administers now (snd (revoke now db i)) caller"
    unfolding administers_def revoke_def
    using survives_revoke[OF o1(1-3)] o1(3-5) by (intro bexI[of _ o1]) (simp_all add: one.same_keys)
qed

definition two_owners :: iam_db where
  "two_owners = empty_db\<lparr>t_roles := [plain_role 1 None ''owner''],
     t_bindings := [sample_binding 1 1 (SubjectUser 3) ScopeGlobal None,
                    sample_binding 2 1 (SubjectUser 4) ScopeGlobal None]\<rparr>"

lemmas revocation_eval = check_binding_revocation_def is_privileged_def binding_role_key_def find_role_def
  is_live_def is_past_def defends_def speaks_for_def PRIVILEGED_ROLE_KEYS_def sample_binding_def
  plain_role_def empty_db_def

lemma two_owners_checks:
  "check_binding_revocation 0 two_owners 1 4 = None" "check_binding_revocation 0 two_owners 2 3 = None"
  by (simp_all add: two_owners_def revocation_eval)

theorem revocation_keeps_owner_witness:
  "keeps_owner 0 (snd (revoke 0 two_owners 1)) None"
proof -
  have "bindings_ok two_owners"
    by (simp add: bindings_ok_def two_owners_def sample_binding_def binding_slot_def slot_def)
  moreover have "keeps_owner 0 two_owners None"
    by (simp add: keeps_owner_def two_owners_def revocation_eval)
  ultimately show ?thesis
    using revocation_keeps_owner[OF _ two_owners_checks(1), of None] by blast
qed

text \<open>
  The check and the revocation are two statements, and that gap breaks the invariant: two
  administrators who revoke each other at the same moment both pass the check, and when both
  revocations have run the platform has no live owner or administrator left.
\<close>

theorem concurrent_revocations_lock_out:
  "check_binding_revocation 0 two_owners 1 4 = None \<and> check_binding_revocation 0 two_owners 2 3 = None \<and>
   keeps_owner 0 two_owners None \<and>
   \<not> keeps_owner 0 (snd (revoke 0 (snd (revoke 0 two_owners 1)) 2)) None"
proof -
  have "keeps_owner 0 two_owners None"
    by (simp add: keeps_owner_def two_owners_def revocation_eval)
  moreover have "\<not> keeps_owner 0 (snd (revoke 0 (snd (revoke 0 two_owners 1)) 2)) None"
    by (simp add: keeps_owner_def two_owners_def revocation_eval revoke_def revoke_db_def set_revoked_def update_row_def)
  ultimately show ?thesis using two_owners_checks by blast
qed

text \<open>
  The check looks at role keys alone, so a role a customer created under the key \<open>owner\<close> counts as
  an owner: with such a binding beside it, the last binding of the platform's own owner role in an
  organization may be revoked.
\<close>

theorem customer_owner_role_counts:
  "let db = empty_db\<lparr>t_roles := [plain_role 1 None ''owner'', plain_role 2 (Some 9) ''owner''],
       t_bindings := [sample_binding 1 1 (SubjectUser 3) (ScopeOrganization 9) None,
                      sample_binding 2 2 (SubjectUser 4) (ScopeOrganization 9) None]\<rparr>;
       db' = snd (revoke 0 db 1)
   in check_binding_revocation 0 db 1 4 = None \<and>
      \<not> (\<exists>b \<in> set (t_bindings db'). \<exists>r. is_live 0 b \<and> is_privileged db' b \<and>
           find_role db' (binding_role_id b) = Some r \<and> role_organization_id r = None)"
  by (simp add: revocation_eval revoke_def revoke_db_def set_revoked_def update_row_def Let_def)

end
