(* ===== verification/Authorize.thy ===== *)
theory Authorize
  imports Bindings PolicyEngine
begin

text \<open>
  The decision path of the platform (\<open>crates/permissions/src/evaluate.rs\<close>, \<open>policies.rs\<close>): the
  role bindings of a subject resolve to an RBAC decision, and the organization's ABAC policies are
  laid over it. The \<open>policies\<close> and \<open>policy_versions\<close> tables are lists of rows with the effect and
  the condition tree in their stored form, so every read parses them as the code does. How numbers
  compare (\<open>as_f64\<close>) and how a UUID prints are parameters.
\<close>

subsection \<open>Policy rows\<close>

record 'n policy_row =
  row_id :: uuid
  row_organization_id :: uuid
  row_name :: string
  row_description :: string
  row_effect :: string
  row_priority :: int
  row_conditions :: "'n json"
  row_target_permissions :: "string list"
  row_enabled :: bool
  row_version :: int
  row_created_at :: instant
  row_updated_at :: instant

record 'n policy_record =
  rec_id :: uuid
  rec_organization_id :: uuid
  rec_name :: string
  rec_description :: string
  rec_effect :: policy_effect
  rec_priority :: int
  rec_conditions :: "'n condition"
  rec_target_permissions :: "string list"
  rec_enabled :: bool
  rec_version :: int
  rec_created_at :: instant
  rec_updated_at :: instant

record 'n policy_version =
  pv_policy_id :: uuid
  pv_version :: int
  pv_effect :: string
  pv_priority :: int
  pv_conditions :: "'n json"
  pv_target_permissions :: "string list"
  pv_enabled :: bool
  pv_changed_by :: "uuid option"

record 'n policy_db =
  t_policies :: "'n policy_row list"
  t_policy_versions :: "'n policy_version list"
  t_user_attributes :: "(uuid \<times> 'n json) list"

definition into_record :: "'n policy_row \<Rightarrow> permissions_error + 'n policy_record" where
  "into_record row =
     (case policy_effect_parse (row_effect row) of
        None \<Rightarrow> Inl InvalidPolicy
      | Some eff \<Rightarrow>
          (case condition_parse (row_conditions row) of
             Inl _ \<Rightarrow> Inl InvalidPolicy
           | Inr conditions \<Rightarrow>
               Inr \<lparr>rec_id = row_id row, rec_organization_id = row_organization_id row, rec_name = row_name row,
                    rec_description = row_description row, rec_effect = eff, rec_priority = row_priority row,
                    rec_conditions = conditions, rec_target_permissions = row_target_permissions row,
                    rec_enabled = row_enabled row, rec_version = row_version row,
                    rec_created_at = row_created_at row, rec_updated_at = row_updated_at row\<rparr>))"

definition to_policy :: "'n policy_record \<Rightarrow> 'n policy" where
  "to_policy r =
     \<lparr>policy_id = rec_id r, policy_name = rec_name r, policy_effect = rec_effect r,
      policy_priority = rec_priority r, policy_enabled = rec_enabled r,
      target_permissions = rec_target_permissions r, policy_conditions = rec_conditions r\<rparr>"

subsection \<open>Drafts\<close>

record 'n policy_draft =
  draft_name :: string
  draft_description :: string
  draft_effect :: policy_effect
  draft_priority :: int
  draft_conditions :: "'n condition"
  draft_target_permissions :: "string list"
  draft_enabled :: bool

datatype draft_error =
    NameMissing | NameTooLong | PriorityOutOfRange | NoTargets | BadTarget target_error | ListedTwice string

fun validate_targets :: "string list \<Rightarrow> draft_error + unit" where
  "validate_targets [] = Inr ()"
| "validate_targets (p # ps) =
     (case validate_target p catalogue_keys of Inl e \<Rightarrow> Inl (BadTarget e) | Inr _ \<Rightarrow> validate_targets ps)"

fun validate_unique :: "string list \<Rightarrow> string list \<Rightarrow> draft_error + unit" where
  "validate_unique seen [] = Inr ()"
| "validate_unique seen (p # ps) =
     (if trim p \<in> set seen then Inl (ListedTwice (trim p)) else validate_unique (seen @ [trim p]) ps)"

definition validate_draft :: "'n policy_draft \<Rightarrow> draft_error + unit" where
  "validate_draft d =
     (let name = trim (draft_name d) in
      if name = [] then Inl NameMissing
      else if length name > 120 then Inl NameTooLong
      else if \<not> (0 \<le> draft_priority d \<and> draft_priority d \<le> 1000) then Inl PriorityOutOfRange
      else if draft_target_permissions d = [] then Inl NoTargets
      else res_bind (validate_targets (draft_target_permissions d)) (\<lambda>_.
           validate_unique [] (draft_target_permissions d)))"

subsection \<open>Storing policies\<close>

definition list_rows :: "('n policy_row \<Rightarrow> bool) \<Rightarrow> 'n policy_db \<Rightarrow> uuid \<Rightarrow> permissions_error + 'n policy_record list" where
  "list_rows wanted db organization_id =
     collect_results (map into_record
       (sort_key (\<lambda>r. (- row_priority r, row_name r))
         (filter (\<lambda>r. row_organization_id r = organization_id \<and> wanted r) (t_policies db))))"

definition policies_list :: "'n policy_db \<Rightarrow> uuid \<Rightarrow> permissions_error + 'n policy_record list" where
  "policies_list = list_rows (\<lambda>_. True)"

definition policies_active :: "'n policy_db \<Rightarrow> uuid \<Rightarrow> permissions_error + 'n policy_record list" where
  "policies_active = list_rows row_enabled"

definition find_policy :: "'n policy_db \<Rightarrow> uuid \<Rightarrow> permissions_error + 'n policy_record option" where
  "find_policy db i =
     (case find (\<lambda>r. row_id r = i) (t_policies db) of
        None \<Rightarrow> Inr None
      | Some row \<Rightarrow> res_bind (into_record row) (\<lambda>r. Inr (Some r)))"

definition snapshot :: "'n policy_db \<Rightarrow> 'n policy_record \<Rightarrow> uuid option \<Rightarrow> 'n policy_db" where
  "snapshot db r author =
     (if list_ex (\<lambda>v. pv_policy_id v = rec_id r \<and> pv_version v = rec_version r) (t_policy_versions db) then db
      else db\<lparr>t_policy_versions := t_policy_versions db @
        [\<lparr>pv_policy_id = rec_id r, pv_version = rec_version r,
          pv_effect = policy_effect_as_str (rec_effect r), pv_priority = rec_priority r,
          pv_conditions = condition_to_json (rec_conditions r),
          pv_target_permissions = rec_target_permissions r, pv_enabled = rec_enabled r,
          pv_changed_by = author\<rparr>]\<rparr>)"

text \<open>A new row starts at version 1, the column's default.\<close>

definition policy_insert_row :: "uuid \<Rightarrow> instant \<Rightarrow> uuid \<Rightarrow> 'n policy_draft \<Rightarrow> 'n policy_row" where
  "policy_insert_row fresh now organization_id d =
     \<lparr>row_id = fresh, row_organization_id = organization_id, row_name = trim (draft_name d),
      row_description = draft_description d, row_effect = policy_effect_as_str (draft_effect d),
      row_priority = draft_priority d, row_conditions = condition_to_json (draft_conditions d),
      row_target_permissions = draft_target_permissions d, row_enabled = draft_enabled d,
      row_version = 1, row_created_at = now, row_updated_at = now\<rparr>"

text \<open>The row is written before it is read back, so an answer comes with the store either way.\<close>

definition record_saved ::
  "'n policy_db \<Rightarrow> 'n policy_row \<Rightarrow> uuid \<Rightarrow> (permissions_error + 'n policy_record) \<times> 'n policy_db" where
  "record_saved db row author =
     (case into_record row of
        Inl e \<Rightarrow> (Inl e, db)
      | Inr r \<Rightarrow> (Inr r, snapshot db r (Some author)))"

definition policy_create ::
  "uuid \<Rightarrow> instant \<Rightarrow> 'n policy_db \<Rightarrow> uuid \<Rightarrow> uuid \<Rightarrow> 'n policy_draft \<Rightarrow>
   (permissions_error + 'n policy_record) \<times> 'n policy_db" where
  "policy_create fresh now db organization_id author d =
     (case validate_draft d of
        Inl _ \<Rightarrow> (Inl InvalidPolicy, db)
      | Inr _ \<Rightarrow>
          (let row = policy_insert_row fresh now organization_id d
           in record_saved (db\<lparr>t_policies := t_policies db @ [row]\<rparr>) row author))"

definition policy_change :: "instant \<Rightarrow> 'n policy_draft \<Rightarrow> 'n policy_row \<Rightarrow> 'n policy_row" where
  "policy_change now d row =
     row\<lparr>row_name := trim (draft_name d), row_description := draft_description d,
         row_effect := policy_effect_as_str (draft_effect d), row_priority := draft_priority d,
         row_conditions := condition_to_json (draft_conditions d),
         row_target_permissions := draft_target_permissions d, row_enabled := draft_enabled d,
         row_version := row_version row + 1, row_updated_at := now\<rparr>"

definition policy_update ::
  "instant \<Rightarrow> 'n policy_db \<Rightarrow> uuid \<Rightarrow> uuid \<Rightarrow> 'n policy_draft \<Rightarrow>
   (permissions_error + 'n policy_record) \<times> 'n policy_db" where
  "policy_update now db i author d =
     (case validate_draft d of
        Inl _ \<Rightarrow> (Inl InvalidPolicy, db)
      | Inr _ \<Rightarrow>
          (case find (\<lambda>r. row_id r = i) (t_policies db) of
             None \<Rightarrow> (Inl PolicyNotFound, db)
           | Some row \<Rightarrow>
               record_saved (db\<lparr>t_policies := update_row (\<lambda>r. row_id r = i) (policy_change now d) (t_policies db)\<rparr>)
                 (policy_change now d row) author))"

definition policy_delete :: "'n policy_db \<Rightarrow> uuid \<Rightarrow> bool \<times> 'n policy_db" where
  "policy_delete db i =
     (list_ex (\<lambda>r. row_id r = i) (t_policies db),
      db\<lparr>t_policies := filter (\<lambda>r. row_id r \<noteq> i) (t_policies db),
         t_policy_versions := filter (\<lambda>v. pv_policy_id v \<noteq> i) (t_policy_versions db)\<rparr>)"

subsection \<open>Attributes of a request\<close>

definition set_if :: "'a option \<Rightarrow> string list \<Rightarrow> ('a \<Rightarrow> 'n json) \<Rightarrow> (string list \<times> 'n json) list" where
  "set_if v path f = (case v of None \<Rightarrow> [] | Some x \<Rightarrow> [(path, f x)])"

definition resource_writes :: "(uuid \<Rightarrow> string) \<Rightarrow> resource_context \<Rightarrow> (string list \<times> 'n json) list" where
  "resource_writes show_uuid c =
     set_if (rc_site_id c) [''resource'', ''site_id''] (\<lambda>i. JString (show_uuid i)) @
     set_if (rc_path c) [''resource'', ''path''] JString @
     set_if (rc_department c) [''resource'', ''department''] JString @
     set_if (rc_module c) [''resource'', ''module''] JString"

text \<open>The writes of \<open>attributes_from\<close> after the stored attributes, in order.\<close>

definition request_writes ::
  "(uuid \<Rightarrow> string) \<Rightarrow> subject \<Rightarrow> resource_context \<Rightarrow> (string list \<times> 'n json) list" where
  "request_writes show_uuid s c =
     [([''subject''], JObject (bt_collect [(''type'', JString (subject_type s)),
                                           (''id'', JString (show_uuid (subject_id s)))]))] @
     set_if (rc_organization_id c) [''organization'', ''id''] (\<lambda>i. JString (show_uuid i)) @
     resource_writes show_uuid c"

definition attributes_from ::
  "(uuid \<Rightarrow> string) \<Rightarrow> 'n json \<Rightarrow> subject \<Rightarrow> resource_context \<Rightarrow> string \<Rightarrow> 'n json_map" where
  "attributes_from show_uuid stored s c key =
     (let m0 = (case as_object stored of
                  None \<Rightarrow> []
                | Some object \<Rightarrow> fold (\<lambda>(name, value) m. attributes_set m name value) object []);
          m1 = attributes_set m0 ''user'' stored;
          m2 = attributes_set m1 ''action'' (JString key)
      in fold (\<lambda>(path, value) m. attributes_set m (dotted path) value) (request_writes show_uuid s c) m2)"

definition attributes_for ::
  "(uuid \<Rightarrow> string) \<Rightarrow> 'n policy_db \<Rightarrow> subject \<Rightarrow> resource_context \<Rightarrow> string \<Rightarrow> 'n json_map" where
  "attributes_for show_uuid db s c key =
     (let stored = (case s of
                      SubjectUser i \<Rightarrow> (case map_of (t_user_attributes db) i of None \<Rightarrow> JObject [] | Some v \<Rightarrow> v)
                    | _ \<Rightarrow> JObject [])
      in attributes_from show_uuid stored s c key)"

subsection \<open>The overlay and the whole decision\<close>

definition overlay :: "decision \<Rightarrow> policy_match option \<Rightarrow> decision" where
  "overlay base winner =
     (case winner of
        None \<Rightarrow> base
      | Some w \<Rightarrow>
          (let stamp = \<lparr>ps_policy_id = pm_id w, ps_policy_name = pm_name w, ps_priority = pm_priority w\<rparr> in
           case pm_effect w of
             PolicyAllow \<Rightarrow> Allowed (grant_from_policy stamp)
           | PolicyDeny \<Rightarrow> Denied ReasonPolicyDeny (Some (grant_from_policy stamp))))"

definition apply_policies ::
  "('n \<Rightarrow> 'f::linorder) \<Rightarrow> (uuid \<Rightarrow> string) \<Rightarrow> 'n policy_db \<Rightarrow> subject \<Rightarrow> resource_context \<Rightarrow> string \<Rightarrow>
   decision \<Rightarrow> permissions_error + decision" where
  "apply_policies as_f64 show_uuid db s c key base =
     (case rc_organization_id c of
        None \<Rightarrow> Inr base
      | Some organization_id \<Rightarrow>
          res_bind (policies_active db organization_id) (\<lambda>policies.
            if policies = [] then Inr base
            else Inr (overlay base
                   (decide as_f64 (map to_policy policies) key (attributes_for show_uuid db s c key)))))"

definition effective_permissions_for ::
  "instant \<Rightarrow> iam_db \<Rightarrow> subject \<Rightarrow> resource_context \<Rightarrow> effective_permissions" where
  "effective_permissions_for now db s c =
     (let bindings = active_for_context now db s c;
          graph = load_role_graph db (rc_organization_id c)
      in effective graph (map binding_role_id bindings))"

definition authorize_subject ::
  "('n \<Rightarrow> 'f::linorder) \<Rightarrow> (uuid \<Rightarrow> string) \<Rightarrow> instant \<Rightarrow> iam_db \<Rightarrow> 'n policy_db \<Rightarrow> subject \<Rightarrow>
   resource_context \<Rightarrow> string \<Rightarrow> permissions_error + decision" where
  "authorize_subject as_f64 show_uuid now db pdb s c key =
     apply_policies as_f64 show_uuid pdb s c key (decision_of (effective_permissions_for now db s c) key)"

definition authorize ::
  "('n \<Rightarrow> 'f::linorder) \<Rightarrow> (uuid \<Rightarrow> string) \<Rightarrow> instant \<Rightarrow> iam_db \<Rightarrow> 'n policy_db \<Rightarrow> uuid \<Rightarrow> scope \<Rightarrow> string \<Rightarrow>
   permissions_error + decision" where
  "authorize as_f64 show_uuid now db pdb user sc key =
     authorize_subject as_f64 show_uuid now db pdb (SubjectUser user) (context_from_scope sc) key"

definition policy_candidates ::
  "('n \<Rightarrow> 'f::linorder) \<Rightarrow> 'n policy_db \<Rightarrow> uuid \<Rightarrow> string \<Rightarrow> 'n json_map \<Rightarrow>
   permissions_error + policy_candidate list" where
  "policy_candidates as_f64 db organization_id key attributes =
     res_bind (policies_list db organization_id) (\<lambda>policies.
       Inr (candidates as_f64 (map to_policy policies) key attributes))"

definition explain_conditions ::
  "('n \<Rightarrow> 'f::linorder) \<Rightarrow> 'n condition \<Rightarrow> 'n json_map \<Rightarrow> 'n leaf_trace list" where
  "explain_conditions as_f64 conditions attributes = trace as_f64 conditions attributes"

subsection \<open>Stored policies stay readable\<close>

definition readable :: "'n policy_db \<Rightarrow> bool" where
  "readable db \<longleftrightarrow> list_all (\<lambda>row. \<exists>r. into_record row = Inr r) (t_policies db)"

lemma policy_effect_roundtrip: "policy_effect_parse (policy_effect_as_str e) = Some e"
  by (cases e) (simp_all add: policy_effect_parse_def)

lemma written_row_readable:
  "condition_ok c \<Longrightarrow> row_effect row = policy_effect_as_str e \<Longrightarrow> row_conditions row = condition_to_json c \<Longrightarrow>
   \<exists>r. into_record row = Inr r \<and> rec_effect r = e \<and> rec_conditions r = c \<and> rec_id r = row_id row \<and>
     rec_organization_id r = row_organization_id row \<and> rec_name r = row_name row \<and>
     rec_priority r = row_priority row \<and> rec_target_permissions r = row_target_permissions row \<and>
     rec_enabled r = row_enabled row \<and> rec_version r = row_version row"
  by (simp add: into_record_def policy_effect_roundtrip parse_to_json)

inductive policy_step :: "'n policy_db \<Rightarrow> 'n policy_db \<Rightarrow> bool" where
  step_policy_create: "condition_ok (draft_conditions d) \<Longrightarrow>
    policy_create fresh now db org author d = (res, db') \<Longrightarrow> policy_step db db'"
| step_policy_update: "condition_ok (draft_conditions d) \<Longrightarrow>
    policy_update now db i author d = (res, db') \<Longrightarrow> policy_step db db'"
| step_policy_delete: "policy_delete db i = (hit, db') \<Longrightarrow> policy_step db db'"

lemma t_policies_record_saved: "t_policies (snd (record_saved db row author)) = t_policies db"
  by (simp add: record_saved_def snapshot_def split: sum.split)

lemma policy_step_readable: "policy_step db db' \<Longrightarrow> readable db \<Longrightarrow> readable db'"
proof (induction rule: policy_step.induct)
  case (step_policy_create d fresh now db org author res db')
  have "\<exists>r. into_record (policy_insert_row fresh now org d) = Inr r"
    using written_row_readable[OF step_policy_create(1), of "policy_insert_row fresh now org d"]
    by (auto simp: policy_insert_row_def)
  moreover have "t_policies db' = t_policies db \<or> t_policies db' = t_policies db @ [policy_insert_row fresh now org d]"
    using arg_cong[OF step_policy_create(2), of snd]
    by (auto simp: policy_create_def Let_def t_policies_record_saved split: sum.split_asm)
  ultimately show ?case using step_policy_create(3) by (auto simp: readable_def)
next
  case (step_policy_update d now db i author res db')
  have "\<exists>r. into_record (policy_change now d row) = Inr r" for row
    using written_row_readable[OF step_policy_update(1), of "policy_change now d row"]
    by (auto simp: policy_change_def)
  moreover have "t_policies db' = t_policies db \<or>
      t_policies db' = update_row (\<lambda>r. row_id r = i) (policy_change now d) (t_policies db)"
    using arg_cong[OF step_policy_update(2), of snd]
    by (auto simp: policy_update_def t_policies_record_saved split: sum.split_asm option.split_asm)
  ultimately show ?case using step_policy_update(3) by (auto simp: readable_def list_all_iff update_row_mem)
next
  case (step_policy_delete db i hit db')
  then show ?case by (auto simp: policy_delete_def readable_def list_all_iff)
qed

lemma policy_steps_readable: "policy_step\<^sup>*\<^sup>* db db' \<Longrightarrow> readable db \<Longrightarrow> readable db'"
  by (induction rule: rtranclp_induct) (auto intro: policy_step_readable)

lemma collect_results_total:
  "(\<And>x. x \<in> set xs \<Longrightarrow> \<exists>y. f x = Inr y) \<Longrightarrow> \<exists>ys. collect_results (map f xs) = Inr ys"
proof (induction xs)
  case (Cons x xs)
  then obtain ys where "collect_results (map f xs) = Inr ys" by (metis list.set_intros(2))
  moreover obtain y where "f x = Inr y" using Cons.prems[of x] by auto
  ultimately show ?case by simp
qed simp

lemma policies_active_total: "readable db \<Longrightarrow> \<exists>ps. policies_active db org = Inr ps"
  unfolding policies_active_def list_rows_def
  by (rule collect_results_total) (auto simp: readable_def list_all_iff)

lemma snapshot_has:
  "\<exists>v. v \<in> set (t_policy_versions (snapshot db r a)) \<and> pv_policy_id v = rec_id r \<and> pv_version v = rec_version r"
proof (cases "list_ex (\<lambda>v. pv_policy_id v = rec_id r \<and> pv_version v = rec_version r) (t_policy_versions db)")
  case True
  then show ?thesis by (auto simp: snapshot_def list_ex_iff)
next
  case False
  let ?v = "\<lparr>pv_policy_id = rec_id r, pv_version = rec_version r, pv_effect = policy_effect_as_str (rec_effect r),
    pv_priority = rec_priority r, pv_conditions = condition_to_json (rec_conditions r),
    pv_target_permissions = rec_target_permissions r, pv_enabled = rec_enabled r, pv_changed_by = a\<rparr>"
  have "?v \<in> set (t_policy_versions (snapshot db r a))" using False by (simp add: snapshot_def)
  then show ?thesis by (intro exI[of _ ?v]) simp
qed

text \<open>
  A policy that was saved reads back as it was drafted: creating a policy from a valid draft whose
  condition leaves name trimmed attributes gives a record with the draft's fields, version 1 and one
  history row; every later save raises the version by one.
\<close>

theorem policy_save_roundtrip:
  assumes "validate_draft d = Inr ()" and "condition_ok (draft_conditions d)"
  shows "(\<exists>r db'. policy_create fresh now db org author d = (Inr r, db') \<and> rec_id r = fresh \<and>
      rec_organization_id r = org \<and> rec_name r = trim (draft_name d) \<and> rec_effect r = draft_effect d \<and>
      rec_priority r = draft_priority d \<and> rec_conditions r = draft_conditions d \<and>
      rec_target_permissions r = draft_target_permissions d \<and> rec_enabled r = draft_enabled d \<and>
      rec_version r = 1 \<and> (\<exists>v. v \<in> set (t_policy_versions db') \<and> pv_policy_id v = fresh \<and> pv_version v = 1)) \<and>
    (\<forall>row. find (\<lambda>r. row_id r = i) (t_policies db) = Some row \<longrightarrow>
       (\<exists>r db'. policy_update now db i author d = (Inr r, db') \<and> rec_conditions r = draft_conditions d \<and>
          rec_effect r = draft_effect d \<and> rec_version r = row_version row + 1))"
proof (intro conjI allI impI)
  let ?row = "policy_insert_row fresh now org d"
  obtain r where r: "into_record ?row = Inr r" "rec_effect r = draft_effect d" "rec_conditions r = draft_conditions d"
      "rec_id r = fresh" "rec_organization_id r = org" "rec_name r = trim (draft_name d)"
      "rec_priority r = draft_priority d" "rec_target_permissions r = draft_target_permissions d"
      "rec_enabled r = draft_enabled d" "rec_version r = 1"
    using written_row_readable[OF assms(2), of ?row "draft_effect d"] by (auto simp: policy_insert_row_def)
  have "\<exists>v. v \<in> set (t_policy_versions (snapshot db1 r a)) \<and> pv_policy_id v = fresh \<and> pv_version v = 1" for db1 a
    using snapshot_has[of db1 r a] r(4,10) by simp
  then show "\<exists>r db'. policy_create fresh now db org author d = (Inr r, db') \<and> rec_id r = fresh \<and>
      rec_organization_id r = org \<and> rec_name r = trim (draft_name d) \<and> rec_effect r = draft_effect d \<and>
      rec_priority r = draft_priority d \<and> rec_conditions r = draft_conditions d \<and>
      rec_target_permissions r = draft_target_permissions d \<and> rec_enabled r = draft_enabled d \<and>
      rec_version r = 1 \<and> (\<exists>v. v \<in> set (t_policy_versions db') \<and> pv_policy_id v = fresh \<and> pv_version v = 1)"
    using r assms(1)
    by (intro exI[of _ r] exI[of _ "snapshot (db\<lparr>t_policies := t_policies db @ [?row]\<rparr>) r (Some author)"])
      (simp add: policy_create_def record_saved_def)
next
  fix row assume row: "find (\<lambda>r. row_id r = i) (t_policies db) = Some row"
  obtain r where "into_record (policy_change now d row) = Inr r" "rec_effect r = draft_effect d"
      "rec_conditions r = draft_conditions d" "rec_version r = row_version row + 1"
    using written_row_readable[OF assms(2), of "policy_change now d row" "draft_effect d"]
    by (auto simp: policy_change_def)
  then show "\<exists>r db'. policy_update now db i author d = (Inr r, db') \<and> rec_conditions r = draft_conditions d \<and>
      rec_effect r = draft_effect d \<and> rec_version r = row_version row + 1"
    using row assms(1) by (simp add: policy_update_def record_saved_def)
qed

definition sample_draft :: "int policy_draft" where
  "sample_draft = \<lparr>draft_name = ''Hold'', draft_description = [], draft_effect = PolicyDeny, draft_priority = 700,
     draft_conditions = CAll [], draft_target_permissions = [''content.pages.read''], draft_enabled = True\<rparr>"

lemma sample_draft_valid: "validate_draft sample_draft = Inr ()"
proof -
  have "''content.pages.read'' \<in> set catalogue_keys" by (simp add: catalogue_keys_def catalogue_defs)
  then have "validate_target ''content.pages.read'' catalogue_keys = Inr ()"
    by (simp add: validate_target_def trim_def trim_start_def trim_end_def is_whitespace_def code_def)
  then show ?thesis
    by (simp add: validate_draft_def sample_draft_def trim_def trim_start_def trim_end_def is_whitespace_def code_def)
qed

definition empty_policy_db :: "int policy_db" where
  "empty_policy_db = \<lparr>t_policies = [], t_policy_versions = [], t_user_attributes = []\<rparr>"

theorem policy_save_roundtrip_witness:
  "\<exists>r db'. policy_create 1 0 empty_policy_db 9 3 sample_draft = (Inr r, db') \<and> rec_version r = 1 \<and>
     rec_effect r = PolicyDeny"
  using policy_save_roundtrip[OF sample_draft_valid, of 1 0 empty_policy_db 9 3 1]
  by (fastforce simp: sample_draft_def)

subsection \<open>The loaded graph against the tables\<close>

definition with_entries :: "iam_db \<Rightarrow> role \<Rightarrow> role_assignment" where
  "with_entries db r = \<lparr>ra_role = r, ra_permissions = entries_of_role db (role_id r)\<rparr>"

lemma store_ok_distinct: "store_ok db \<Longrightarrow> distinct (map role_id (t_roles db))"
  by (simp add: store_ok_def skel_ok_def skeleton_def role_skeleton_def comp_def)

lemma find_role_iff:
  assumes "store_ok db"
  shows "find_role db i = Some r \<longleftrightarrow> r \<in> set (t_roles db) \<and> role_id r = i"
proof
  assume "find_role db i = Some r"
  then show "r \<in> set (t_roles db) \<and> role_id r = i" by (rule find_role_mem)
next
  assume r: "r \<in> set (t_roles db) \<and> role_id r = i"
  then have "find_role db i \<noteq> None" by (auto simp: find_role_def find_None_all)
  then obtain q where q: "find_role db i = Some q" by blast
  then have "q = r" using find_role_mem[OF q] r store_ok_distinct[OF assms] by (metis distinct_map inj_onD)
  then show "find_role db i = Some r" using q by simp
qed

lemma graph_get:
  assumes "store_ok db"
  shows "bt_get (load_role_graph db org) i = Some a \<longleftrightarrow>
    (\<exists>r. find_role db i = Some r \<and> visible_to org r \<and> a = with_entries db r)"
proof -
  let ?rs = "list_roles db org"
  have "mset (map role_id ?rs) = mset (map role_id (filter (visible_to org) (t_roles db)))"
    by (simp add: list_roles_def)
  then have "distinct (map role_id ?rs)"
    using distinct_filter_ids[OF store_ok_distinct[OF assms]] mset_eq_imp_distinct_iff by blast
  then have d: "distinct (map fst (map (\<lambda>a. (assignment_id a, a)) (map (with_entries db) ?rs)))"
    by (simp add: comp_def with_entries_def)
  have "load_role_graph db org = bt_collect (map (\<lambda>a. (assignment_id a, a)) (map (with_entries db) ?rs))"
    by (simp add: load_role_graph_def role_graph_new_def with_entries_def comp_def)
  then have "bt_get (load_role_graph db org) i = Some a \<longleftrightarrow>
      (i, a) \<in> set (map (\<lambda>a. (assignment_id a, a)) (map (with_entries db) ?rs))"
    using bt_get_collect[OF d] by simp
  then show ?thesis by (auto simp: list_roles_def find_role_iff[OF assms] with_entries_def)
qed

definition inherit_rel :: "iam_db \<Rightarrow> (uuid \<times> uuid) set" where
  "inherit_rel db = {(role_id r, p) | r p. r \<in> set (t_roles db) \<and> inherit_permissions r \<and> inherits_role_id r = Some p}"

lemma parent_visible:
  assumes "store_ok db" and r: "find_role db i = Some r" "visible_to org r" and p: "inherits_role_id r = Some p"
  shows "\<exists>q. find_role db p = Some q \<and> visible_to org q"
proof -
  have "(i, role_organization_id r, Some p) \<in> set (skeleton db)" using find_role_skeleton[OF r(1)] p by simp
  then obtain org' link where "(p, org', link) \<in> set (skeleton db)" "org' = None \<or> org' = role_organization_id r"
    using skel_usableD assms(1) unfolding store_ok_def by blast
  then obtain q where "q \<in> set (t_roles db)" "role_id q = p" "role_organization_id q = org'"
    by (auto simp: skeleton_def role_skeleton_def)
  then show ?thesis
    using r(2) \<open>org' = None \<or> org' = role_organization_id r\<close>
    by (intro exI[of _ q]) (auto simp: find_role_iff[OF assms(1)] visible_to_def)
qed

lemma next_role_loaded:
  assumes "store_ok db" and r: "find_role db i = Some r" "visible_to org r"
  shows "next_role (load_role_graph db org) (with_entries db r) = Some b \<longleftrightarrow>
    (\<exists>q. (i, role_id q) \<in> inherit_rel db \<and> find_role db (role_id q) = Some q \<and> visible_to org q \<and> b = with_entries db q)"
proof -
  have i: "r \<in> set (t_roles db)" "role_id r = i" using find_role_mem[OF r(1)] by simp_all
  have rel: "(i, p) \<in> inherit_rel db \<longleftrightarrow> inherit_permissions r \<and> inherits_role_id r = Some p" for p
  proof
    assume "(i, p) \<in> inherit_rel db"
    then obtain q where q: "q \<in> set (t_roles db)" "role_id q = i" "inherit_permissions q" "inherits_role_id q = Some p"
      by (auto simp: inherit_rel_def)
    then have "find_role db i = Some q" using find_role_iff[OF assms(1)] by blast
    then show "inherit_permissions r \<and> inherits_role_id r = Some p" using r(1) q by simp
  qed (use i in \<open>auto simp: inherit_rel_def\<close>)
  have get: "bt_get (load_role_graph db org) p = Some b \<longleftrightarrow>
      (\<exists>q. find_role db p = Some q \<and> visible_to org q \<and> b = with_entries db q)" for p
    by (rule graph_get[OF assms(1)])
  have "next_role (load_role_graph db org) (with_entries db r) = Some b \<longleftrightarrow>
      (\<exists>p. (i, p) \<in> inherit_rel db \<and> bt_get (load_role_graph db org) p = Some b)"
    unfolding rel by (cases "inherits_role_id r") (simp_all add: next_role_def with_entries_def Let_def)
  then show ?thesis using get find_role_mem by metis
qed

lemma reaches_loaded_dest:
  assumes "store_ok db" and "reaches (load_role_graph db org) i a"
  shows "\<exists>r q. find_role db i = Some r \<and> visible_to org r \<and> (i, role_id q) \<in> (inherit_rel db)\<^sup>* \<and>
    find_role db (role_id q) = Some q \<and> visible_to org q \<and> a = with_entries db q"
  using assms(2)
proof (induction rule: reaches.induct)
  case (reach_self a)
  then obtain r where "find_role db i = Some r" "visible_to org r" "a = with_entries db r"
    using graph_get[OF assms(1)] by blast
  moreover from this have "role_id r = i" using find_role_mem by blast
  ultimately show ?case by blast
next
  case (reach_parent a b)
  then obtain r q where r: "find_role db i = Some r" "visible_to org r"
    and q: "(i, role_id q) \<in> (inherit_rel db)\<^sup>*" "find_role db (role_id q) = Some q" "visible_to org q"
      "a = with_entries db q" by blast
  from next_role_loaded[OF assms(1) q(2,3), of b] reach_parent.hyps(2) q(4)
  obtain q' where "(role_id q, role_id q') \<in> inherit_rel db" "find_role db (role_id q') = Some q'"
      "visible_to org q'" "b = with_entries db q'" by blast
  then show ?case using r rtrancl_into_rtrancl[OF q(1)]
    by (intro exI[of _ r] exI[of _ q']) simp
qed

lemma reaches_loaded_intro:
  assumes ok: "store_ok db" and r: "find_role db i = Some r" "visible_to org r"
    and path: "(i, j) \<in> (inherit_rel db)\<^sup>*"
  shows "\<exists>q. find_role db j = Some q \<and> visible_to org q \<and> reaches (load_role_graph db org) i (with_entries db q)"
  using path
proof (induction rule: rtrancl_induct)
  case base
  have "bt_get (load_role_graph db org) i = Some (with_entries db r)" using graph_get[OF ok] r by blast
  then show ?case using r by (blast intro: reach_self)
next
  case (step j k)
  then obtain q where q: "find_role db j = Some q" "visible_to org q"
    and reach: "reaches (load_role_graph db org) i (with_entries db q)" by blast
  obtain q0 where "q0 \<in> set (t_roles db)" "role_id q0 = j" "inherits_role_id q0 = Some k"
    using step.hyps(2) by (auto simp: inherit_rel_def)
  then have "inherits_role_id q = Some k" using find_role_iff[OF ok] q(1) by (metis option.inject)
  then obtain q' where q': "find_role db k = Some q'" "visible_to org q'" using parent_visible[OF ok q] by blast
  then have "role_id q' = k" using find_role_mem by blast
  then have "next_role (load_role_graph db org) (with_entries db q) = Some (with_entries db q')"
    using next_role_loaded[OF ok q, of "with_entries db q'"] step.hyps(2) q' by blast
  then show ?case using q' reach_parent[OF reach] by blast
qed

text \<open>What the tables say about a key for the roles bound: some role on the inheritance chain of a
  bound, visible role carries such an entry.\<close>

definition tables_say :: "iam_db \<Rightarrow> uuid option \<Rightarrow> uuid list \<Rightarrow> string \<Rightarrow> effect \<Rightarrow> bool" where
  "tables_say db org bound key eff \<longleftrightarrow>
     (\<exists>i r j e. i \<in> set bound \<and> find_role db i = Some r \<and> visible_to org r \<and>
        (i, j) \<in> (inherit_rel db)\<^sup>* \<and> e \<in> set (t_entries db) \<and> er_role_id e = j \<and> er_key e = key \<and> er_effect e = eff)"

lemma entries_of_role_mem:
  "(\<exists>en \<in> set (entries_of_role db j). rp_key en = key \<and> rp_effect en = eff) \<longleftrightarrow>
   (\<exists>e \<in> set (t_entries db). er_role_id e = j \<and> er_key e = key \<and> er_effect e = eff)"
  by (auto simp: entries_of_role_def)

lemma speaks_loaded:
  assumes ok: "store_ok db"
  shows "speaks (load_role_graph db org) bound key eff \<longleftrightarrow> tables_say db org bound key eff"
proof
  assume "speaks (load_role_graph db org) bound key eff"
  then obtain i a where i: "i \<in> set bound" "reaches (load_role_graph db org) i a"
    and en: "\<exists>en \<in> set (ra_permissions a). rp_key en = key \<and> rp_effect en = eff"
    by (auto simp: speaks_def)
  from reaches_loaded_dest[OF ok i(2)]
  obtain r q where "find_role db i = Some r" "visible_to org r" "(i, role_id q) \<in> (inherit_rel db)\<^sup>*"
      "a = with_entries db q" by blast
  moreover from this(4) en have "\<exists>e \<in> set (t_entries db). er_role_id e = role_id q \<and> er_key e = key \<and> er_effect e = eff"
    by (simp add: with_entries_def entries_of_role_mem)
  ultimately show "tables_say db org bound key eff" using i(1) unfolding tables_say_def by blast
next
  assume "tables_say db org bound key eff"
  then obtain i r j where i: "i \<in> set bound" "find_role db i = Some r" "visible_to org r" "(i, j) \<in> (inherit_rel db)\<^sup>*"
    and e: "\<exists>e \<in> set (t_entries db). er_role_id e = j \<and> er_key e = key \<and> er_effect e = eff"
    unfolding tables_say_def by blast
  from reaches_loaded_intro[OF ok i(2-4)]
  obtain q where q: "find_role db j = Some q" "reaches (load_role_graph db org) i (with_entries db q)" by blast
  then have "role_id q = j" using find_role_mem by blast
  then have "\<exists>en \<in> set (ra_permissions (with_entries db q)). rp_key en = key \<and> rp_effect en = eff"
    using e by (simp add: with_entries_def entries_of_role_mem)
  then show "speaks (load_role_graph db org) bound key eff" using q(2) i(1) unfolding speaks_def by blast
qed

text \<open>The role answer, from the tables alone: bindings that speak for the subject, are active and
  apply to the context.\<close>

definition role_says :: "instant \<Rightarrow> iam_db \<Rightarrow> subject \<Rightarrow> resource_context \<Rightarrow> string \<Rightarrow> effect \<Rightarrow> bool" where
  "role_says now db s c key eff \<longleftrightarrow>
     (\<exists>b r j e. b \<in> set (t_bindings db) \<and> binding_reaches db s b \<and> is_active_at b now \<and> applies_to (binding_scope b) c \<and>
        find_role db (binding_role_id b) = Some r \<and> visible_to (rc_organization_id c) r \<and>
        (binding_role_id b, j) \<in> (inherit_rel db)\<^sup>* \<and>
        e \<in> set (t_entries db) \<and> er_role_id e = j \<and> er_key e = key \<and> er_effect e = eff)"

lemma role_says_tables:
  "tables_say db (rc_organization_id c) (map binding_role_id (active_for_context now db s c)) key eff \<longleftrightarrow>
   role_says now db s c key eff"
proof
  assume "tables_say db (rc_organization_id c) (map binding_role_id (active_for_context now db s c)) key eff"
  then obtain i r j e where i: "i \<in> binding_role_id ` set (active_for_context now db s c)"
    and x: "find_role db i = Some r" "visible_to (rc_organization_id c) r" "(i, j) \<in> (inherit_rel db)\<^sup>*"
      "e \<in> set (t_entries db)" "er_role_id e = j" "er_key e = key" "er_effect e = eff"
    unfolding tables_say_def set_map by blast
  from i obtain b where "b \<in> set (active_for_context now db s c)" "i = binding_role_id b" by blast
  then show "role_says now db s c key eff"
    unfolding role_says_def using x
    by (intro exI[of _ b] exI[of _ r] exI[of _ j] exI[of _ e]) (simp add: active_mem)
next
  assume "role_says now db s c key eff"
  then obtain b r j e where "b \<in> set (active_for_context now db s c)"
    and x: "find_role db (binding_role_id b) = Some r" "visible_to (rc_organization_id c) r"
      "(binding_role_id b, j) \<in> (inherit_rel db)\<^sup>*"
      "e \<in> set (t_entries db)" "er_role_id e = j" "er_key e = key" "er_effect e = eff"
    unfolding role_says_def active_mem by blast
  then show "tables_say db (rc_organization_id c) (map binding_role_id (active_for_context now db s c)) key eff"
    unfolding tables_say_def
    by (intro exI[of _ "binding_role_id b"] exI[of _ r] exI[of _ j] exI[of _ e]) simp
qed

lemma rbac_allowed:
  assumes "store_ok db"
  shows "is_allowed (decision_of (effective_permissions_for now db s c) key) \<longleftrightarrow>
    role_says now db s c key Allow \<and> \<not> role_says now db s c key Deny"
proof -
  have "graph_ok (load_role_graph db (rc_organization_id c))"
    unfolding load_role_graph_def by (rule graph_ok_new)
  then show ?thesis
    unfolding effective_permissions_for_def Let_def
    by (simp add: decision_by_speech speaks_loaded[OF assms] role_says_tables)
qed

lemma overlay_allowed: "is_allowed (overlay base winner) \<longleftrightarrow>
  (case winner of None \<Rightarrow> is_allowed base | Some w \<Rightarrow> pm_effect w = PolicyAllow)"
  by (auto simp: overlay_def is_allowed_def Let_def split: option.split policy_effect.split)

text \<open>
  C1. The whole authorisation, from the tables to the verdict. On a sound role table and readable
  policies the question is always answered. Without an organization, or when no enabled policy of
  the organization applies, the answer is exactly RBAC: allowed if and only if some active binding
  of the subject (their own or one of their groups') that applies to the context leads along
  inheriting roles to an allow entry and none leads to a deny entry. Otherwise the winning policy
  decides alone.
\<close>

theorem authorize_decides:
  assumes "store_ok db" and "readable pdb"
  shows "\<exists>d. authorize_subject as_f64 show_uuid now db pdb s c key = Inr d \<and>
    (is_allowed d \<longleftrightarrow>
       (case rc_organization_id c of
          None \<Rightarrow> role_says now db s c key Allow \<and> \<not> role_says now db s c key Deny
        | Some org \<Rightarrow>
            (case policies_active pdb org of
               Inl _ \<Rightarrow> False
             | Inr ps \<Rightarrow>
                 (case decide as_f64 (map to_policy ps) key (attributes_for show_uuid pdb s c key) of
                    None \<Rightarrow> role_says now db s c key Allow \<and> \<not> role_says now db s c key Deny
                  | Some w \<Rightarrow> pm_effect w = PolicyAllow))))"
proof (cases "rc_organization_id c")
  case None
  then show ?thesis by (simp add: authorize_subject_def apply_policies_def rbac_allowed[OF assms(1)])
next
  case (Some org)
  obtain ps where ps: "policies_active pdb org = Inr ps" using policies_active_total[OF assms(2)] by blast
  have "decide as_f64 [] key (attributes_for show_uuid pdb s c key) = None" by (simp add: decide_None)
  then show ?thesis
    using Some ps
    by (cases "ps = []") (simp_all add: authorize_subject_def apply_policies_def overlay_allowed
      rbac_allowed[OF assms(1)] split: option.split)
qed

theorem authorize_decides_witness:
  "\<exists>d. authorize_subject id show_nat 0 two_owners empty_policy_db (SubjectUser 3) (context_from_scope ScopeGlobal) ''x'' = Inr d"
proof -
  have "store_ok two_owners"
    by (simp add: store_ok_def skel_ok_def skeleton_def two_owners_def empty_db_def plain_role_def
      role_skeleton_def skel_usable_def skel_rel_def acyclic_def)
  moreover have "readable empty_policy_db" by (simp add: readable_def empty_policy_db_def)
  ultimately show ?thesis
    using authorize_decides[of two_owners empty_policy_db id show_nat 0 "SubjectUser 3"
      "context_from_scope ScopeGlobal" "''x''"] by blast
qed

subsection \<open>What a condition can trust\<close>

lemma attributes_get_nested:
  assumes "plain_path p" and "plain_path (p @ q)" and "attributes_get m (dotted p) = JObject fs"
  shows "attributes_get m (dotted (p @ q)) = (case jwalk (JObject fs) q of None \<Rightarrow> JNull | Some w \<Rightarrow> w)"
proof -
  have "jwalk (JObject m) p = Some (JObject fs)"
    using assms(3) attributes_get_walk[OF assms(1), of m] by (simp split: option.split_asm)
  then show ?thesis by (simp add: attributes_get_walk[OF assms(2)] jwalk_append)
qed

lemma resource_writes_paths:
  "q \<noteq> ''resource'' \<Longrightarrow> list_all (\<lambda>(p, v). plain_path p \<and> hd (q # qs) \<noteq> hd p) (resource_writes show_uuid c)"
  by (simp add: resource_writes_def set_if_def plain_path_def split: option.split)

lemma request_writes_paths:
  "q \<notin> {''subject'', ''organization'', ''resource''} \<Longrightarrow>
   list_all (\<lambda>(p, v). plain_path p \<and> hd [q] \<noteq> hd p) (request_writes show_uuid s c)"
  by (simp add: request_writes_def resource_writes_def set_if_def plain_path_def split: option.split)

lemma dotted_single [simp]: "dotted [k] = k"
  by (simp add: dotted_def)

lemma attributes_from_writes:
  "\<exists>m. attributes_from show_uuid stored s c key =
     attrs.put_all (([''user''], stored) # ([''action''], JString key) # request_writes show_uuid s c) m"
  by (intro exI[of _ "case as_object stored of None \<Rightarrow> []
      | Some object \<Rightarrow> fold (\<lambda>(name, value) m. attributes_set m name value) object []"])
    (simp add: attributes_from_def attrs.put_all_def Let_def)

lemma put_all_Cons: "attrs.put_all ((p, v) # ws) m = attrs.put_all ws (attributes_set m (dotted p) v)"
  by (simp add: attrs.put_all_def)

lemma plain_single [simp]: "plain_path [k] \<longleftrightarrow> k \<noteq> [] \<and> CHR ''.'' \<notin> set k"
  by (simp add: plain_path_def)

lemma attributes_subject:
  fixes stored :: "'n json"
  shows "attributes_get (attributes_from show_uuid stored s c key) (dotted [''subject'']) =
   JObject (bt_collect [(''type'', JString (subject_type s)), (''id'', JString (show_uuid (subject_id s)))])"
proof -
  obtain m where m: "attributes_from show_uuid stored s c key =
      attrs.put_all (([''user''], stored) # ([''action''], JString key) # request_writes show_uuid s c) m"
    using attributes_from_writes by blast
  obtain rest :: "(string list \<times> 'n json) list" where rest: "request_writes show_uuid s c =
      ([''subject''], JObject (bt_collect [(''type'', JString (subject_type s)), (''id'', JString (show_uuid (subject_id s)))])) # rest"
    and other: "list_all (\<lambda>(p, v). plain_path p \<and> hd [''subject''] \<noteq> hd p) rest"
    by (simp add: request_writes_def resource_writes_def set_if_def plain_path_def split: option.split)
  show ?thesis unfolding m rest put_all_Cons by (rule attrs.get_put_all_last[OF other]) simp
qed

text \<open>
  Stored user attributes cannot impersonate the request: whatever document an account carries,
  a condition that reads \<open>action\<close> sees the permission asked for, \<open>subject.type\<close> and \<open>subject.id\<close>
  the subject asking, \<open>organization.id\<close> the organization the request runs in, and \<open>user\<close> the whole
  stored document.
\<close>

theorem attributes_not_spoofed:
  fixes stored :: "'n json"
  shows "let m = attributes_from show_uuid stored s c key in
   attributes_get m ''action'' = JString key \<and>
   attributes_get m ''user'' = stored \<and>
   attributes_get m ''subject.type'' = JString (subject_type s) \<and>
   attributes_get m ''subject.id'' = JString (show_uuid (subject_id s)) \<and>
   (case rc_organization_id c of
      None \<Rightarrow> True
    | Some org \<Rightarrow> attributes_get m ''organization.id'' = JString (show_uuid org))"
proof -
  let ?m = "attributes_from show_uuid stored s c key"
  obtain m where m: "?m =
      attrs.put_all (([''user''], stored) # ([''action''], JString key) # request_writes show_uuid s c) m"
    using attributes_from_writes by blast
  have action: "attributes_get ?m (dotted [''action'']) = JString key"
    unfolding m put_all_Cons by (rule attrs.get_put_all_last[OF request_writes_paths]) simp_all
  have user: "attributes_get ?m (dotted [''user'']) = stored"
    unfolding m put_all_Cons[of "[''user'']"]
    by (rule attrs.get_put_all_last) (simp_all add: request_writes_paths[simplified])
  have "attributes_get ?m (dotted ([''subject''] @ [''type''])) = JString (subject_type s)"
    using attributes_get_nested[OF _ _ attributes_subject, of "[''type'']" show_uuid stored s c key]
    by (simp add: plain_path_def bt_collect_def bt_get_def)
  moreover have "attributes_get ?m (dotted ([''subject''] @ [''id''])) = JString (show_uuid (subject_id s))"
    using attributes_get_nested[OF _ _ attributes_subject, of "[''id'']" show_uuid stored s c key]
    by (simp add: plain_path_def bt_collect_def bt_get_def)
  moreover have "attributes_get ?m (dotted [''organization'', ''id'']) = JString (show_uuid org)"
    if org: "rc_organization_id c = Some org" for org
  proof -
    let ?subject = "([''subject''], JObject (bt_collect [(''type'', JString (subject_type s)),
        (''id'', JString (show_uuid (subject_id s)))]))"
    have w: "request_writes show_uuid s c =
        [?subject] @ ([''organization'', ''id''], JString (show_uuid org)) # resource_writes show_uuid c"
      using org by (simp add: request_writes_def set_if_def)
    have other: "list_all (\<lambda>(p, v). plain_path p \<and> hd [''organization'', ''id''] \<noteq> hd p) (resource_writes show_uuid c)"
      by (rule resource_writes_paths) simp
    have "?m = attrs.put_all (resource_writes show_uuid c) (attributes_set
        (attrs.put_all (([''user''], stored) # ([''action''], JString key) # [?subject]) m)
        (dotted [''organization'', ''id'']) (JString (show_uuid org)))"
      unfolding m w by (simp add: attrs.put_all_def)
    then show ?thesis using attrs.get_put_all_last[OF other] by (simp add: plain_path_def)
  qed
  ultimately show ?thesis
    using action user by (simp add: Let_def dotted_def split: option.split)
qed

end
