(* ===== verification/IamRoutes.thy ===== *)
theory IamRoutes
  imports Bindings
begin

text \<open>
  The two handlers that assign and revoke roles (\<open>apps/api/src/routes/iam.rs\<close>) and the tenancy
  helpers they share (\<open>apps/api/src/scope.rs\<close>). The route guard that runs before them is the
  authorisation of theory \<open>Authorize\<close>; here an account is what a handler reads of its session, its
  id and its primary organization. Parsing an RFC 3339 expiry and printing a UUID are parameters.
\<close>

datatype api_error =
    InvalidScopeRequest | InvalidSubjectRequest | InvalidExpiry | CrossOrganization | PlatformOnly
  | OrganizationRequired | BindingNotFound | Refused refusal | BindingAlreadyRevoked
  | StoreError permissions_error

record account =
  acc_user :: uuid
  acc_organization :: "uuid option"

subsection \<open>Tenancy helpers\<close>

definition ensure_same_organization :: "account \<Rightarrow> uuid option \<Rightarrow> api_error + unit" where
  "ensure_same_organization a organization_id =
     (case (acc_organization a, organization_id) of
        (Some own, Some target) \<Rightarrow> if own \<noteq> target then Inl CrossOrganization else Inr ()
      | _ \<Rightarrow> Inr ())"

definition platform_only :: "account \<Rightarrow> api_error + unit" where
  "platform_only a = (if acc_organization a = None then Inr () else Inl PlatformOnly)"

definition resolve_organization :: "account \<Rightarrow> uuid option \<Rightarrow> api_error + uuid" where
  "resolve_organization a requested =
     (case (acc_organization a, requested) of
        (Some own, Some target) \<Rightarrow> if own \<noteq> target then Inl CrossOrganization else Inr own
      | (Some own, None) \<Rightarrow> Inr own
      | (None, Some target) \<Rightarrow> Inr target
      | (None, None) \<Rightarrow> Inl OrganizationRequired)"

subsection \<open>Requests\<close>

datatype scope_type_body = BodyGlobal | BodyOrganization | BodySite | BodyDepartment | BodyModule | BodyResource

datatype subject_type_body = BodyUser | BodyGroup | BodyServiceAccount

fun subject_body_as_str :: "subject_type_body \<Rightarrow> string" where
  "subject_body_as_str BodyUser = ''user''"
| "subject_body_as_str BodyGroup = ''group''"
| "subject_body_as_str BodyServiceAccount = ''service_account''"

record create_binding_request =
  cb_user_id :: "uuid option"
  cb_subject_type :: "subject_type_body option"
  cb_subject_id :: "uuid option"
  cb_role_id :: uuid
  cb_scope_type :: scope_type_body
  cb_organization_id :: "uuid option"
  cb_site_id :: "uuid option"
  cb_department :: "string option"
  cb_module :: "string option"
  cb_resource_type :: "string option"
  cb_resource_id :: "string option"
  cb_expires_at :: "string option"

text \<open>An optional text, trimmed, with the empty text counting as absent.\<close>

definition filled :: "string option \<Rightarrow> string option" where
  "filled v = (case map_option trim v of None \<Rightarrow> None | Some t \<Rightarrow> if t = [] then None else Some t)"

definition scope_from_request :: "create_binding_request \<Rightarrow> api_error + scope" where
  "scope_from_request body =
     (case cb_scope_type body of
        BodyGlobal \<Rightarrow> Inr ScopeGlobal
      | BodyOrganization \<Rightarrow>
          res_bind (ok_or InvalidScopeRequest (cb_organization_id body)) (\<lambda>o1. Inr (ScopeOrganization o1))
      | BodySite \<Rightarrow>
          res_bind (ok_or InvalidScopeRequest (cb_site_id body)) (\<lambda>s. Inr (ScopeSite (cb_organization_id body) s))
      | BodyDepartment \<Rightarrow>
          res_bind (ok_or InvalidScopeRequest (cb_organization_id body)) (\<lambda>o1.
          res_bind (ok_or InvalidScopeRequest (filled (cb_department body))) (\<lambda>d. Inr (ScopeDepartment o1 d)))
      | BodyModule \<Rightarrow>
          if cb_organization_id body = None \<and> cb_site_id body = None then Inl InvalidScopeRequest
          else res_bind (ok_or InvalidScopeRequest (filled (cb_module body))) (\<lambda>m.
               Inr (ScopeModule (cb_organization_id body) (cb_site_id body) m))
      | BodyResource \<Rightarrow>
          if cb_organization_id body = None \<and> cb_site_id body = None then Inl InvalidScopeRequest
          else res_bind (ok_or InvalidScopeRequest (filled (cb_resource_id body))) (\<lambda>r.
               Inr (ScopeResource (cb_organization_id body) (cb_site_id body)
                      (case cb_resource_type body of None \<Rightarrow> ''path'' | Some t \<Rightarrow> t) r)))"

definition request_subject :: "create_binding_request \<Rightarrow> api_error + subject" where
  "request_subject body =
     (let kind = (case cb_subject_type body of None \<Rightarrow> ''user'' | Some k \<Rightarrow> subject_body_as_str k) in
      res_bind (ok_or InvalidSubjectRequest
        (case cb_subject_id body of Some i \<Rightarrow> Some i | None \<Rightarrow> cb_user_id body)) (\<lambda>i.
      case subject_from_parts kind i of Inl _ \<Rightarrow> Inl InvalidSubjectRequest | Inr s \<Rightarrow> Inr s))"

subsection \<open>The handlers\<close>

record audit_entry =
  ae_actor :: uuid
  ae_action :: string
  ae_target :: subject
  ae_role_id :: uuid
  ae_scope :: string
  ae_organization :: "uuid option"

record route_state =
  rs_iam :: iam_db
  rs_audit :: "audit_entry list"

definition audit_binding :: "(uuid \<Rightarrow> string) \<Rightarrow> uuid \<Rightarrow> string \<Rightarrow> role_binding \<Rightarrow> audit_entry" where
  "audit_binding show_uuid actor action b =
     \<lparr>ae_actor = actor, ae_action = action, ae_target = binding_subject b, ae_role_id = binding_role_id b,
      ae_scope = scope_describe show_uuid (binding_scope b),
      ae_organization = scope_organization_id (binding_scope b)\<rparr>"

text \<open>Everything \<open>create_binding\<close> checks before it touches the store.\<close>

definition plan_binding ::
  "(string \<Rightarrow> instant option) \<Rightarrow> account \<Rightarrow> create_binding_request \<Rightarrow> api_error + new_binding" where
  "plan_binding parse_rfc3339 a body =
     res_bind (scope_from_request body) (\<lambda>sc.
     res_bind (ensure_same_organization a (scope_organization_id sc)) (\<lambda>_.
     res_bind (case cb_expires_at body of
          None \<Rightarrow> Inr None
        | Some v \<Rightarrow> (case parse_rfc3339 v of None \<Rightarrow> Inl InvalidExpiry | Some t \<Rightarrow> Inr (Some t))) (\<lambda>expires.
     res_bind (request_subject body) (\<lambda>s.
     Inr \<lparr>nb_role_id = cb_role_id body, nb_subject = s, nb_scope = sc,
          nb_granted_by = Some (acc_user a), nb_expires_at = expires\<rparr>))))"

definition create_binding ::
  "(string \<Rightarrow> instant option) \<Rightarrow> (uuid \<Rightarrow> string) \<Rightarrow> uuid \<Rightarrow> instant \<Rightarrow> route_state \<Rightarrow> account \<Rightarrow>
   create_binding_request \<Rightarrow> (api_error + role_binding) \<times> route_state" where
  "create_binding parse_rfc3339 show_uuid fresh now st a body =
     (case plan_binding parse_rfc3339 a body of
        Inl e \<Rightarrow> (Inl e, st)
      | Inr new \<Rightarrow>
          (case validate_subject (rs_iam st) new of
             Inl e \<Rightarrow> (Inl (StoreError e), st)
           | Inr _ \<Rightarrow>
               (case grant_subject fresh now (rs_iam st) new of
                  (Inl e, db) \<Rightarrow> (Inl (StoreError e), st\<lparr>rs_iam := db\<rparr>)
                | (Inr b, db) \<Rightarrow>
                    (Inr b, st\<lparr>rs_iam := db,
                       rs_audit := rs_audit st @ [audit_binding show_uuid (acc_user a) ''iam.binding.granted'' b]\<rparr>))))"

definition any_binding :: "subject option \<Rightarrow> binding_filter" where
  "any_binding s = \<lparr>bf_organization_id = None, bf_subject = s, bf_role_id = None, bf_live_only = False, bf_limit = 500\<rparr>"

definition delete_binding ::
  "(uuid \<Rightarrow> string) \<Rightarrow> instant \<Rightarrow> route_state \<Rightarrow> account \<Rightarrow> uuid \<Rightarrow> (api_error + role_binding) \<times> route_state" where
  "delete_binding show_uuid now st a i =
     (case find (\<lambda>b. binding_id b = i) (list_bindings now (rs_iam st) (any_binding None)) of
        None \<Rightarrow> (Inl BindingNotFound, st)
      | Some b \<Rightarrow>
          (case (if acc_organization a \<noteq> None
                 then ensure_same_organization a (scope_organization_id (binding_scope b)) else Inr ()) of
             Inl e \<Rightarrow> (Inl e, st)
           | Inr _ \<Rightarrow>
               (case check_binding_revocation now (rs_iam st) i (acc_user a) of
                  Some refusal \<Rightarrow> (Inl (Refused refusal), st)
                | None \<Rightarrow>
                    (case revoke now (rs_iam st) i of (revoked, db) \<Rightarrow>
                       if \<not> revoked then (Inl BindingAlreadyRevoked, st\<lparr>rs_iam := db\<rparr>)
                       else (let refreshed = (case find (\<lambda>c. binding_id c = i)
                                     (list_bindings now db (any_binding (Some (binding_subject b)))) of
                                None \<Rightarrow> b | Some c \<Rightarrow> c)
                             in (Inr refreshed, st\<lparr>rs_iam := db,
                                   rs_audit := rs_audit st @
                                     [audit_binding show_uuid (acc_user a) ''iam.binding.revoked'' refreshed]\<rparr>))))))"

subsection \<open>What the handlers guarantee\<close>

lemma create_binding_db:
  "binding_step\<^sup>*\<^sup>* (rs_iam st) (rs_iam (snd (create_binding parse_rfc3339 show_uuid fresh now st a body)))"
  if "fresh \<notin> binding_id ` set (t_bindings (rs_iam st))"
proof -
  have "rs_iam (snd (create_binding parse_rfc3339 show_uuid fresh now st a body)) = rs_iam st \<or>
      (\<exists>new res. grant_subject fresh now (rs_iam st) new =
        (res, rs_iam (snd (create_binding parse_rfc3339 show_uuid fresh now st a body))))"
    unfolding create_binding_def
    by (auto split: sum.split prod.split)
  then show ?thesis using step_grant[OF that] by (metis r_into_rtranclp rtranclp.rtrancl_refl)
qed

lemma delete_binding_db:
  "rs_iam (snd (delete_binding show_uuid now st a i)) = rs_iam st \<or>
   check_binding_revocation now (rs_iam st) i (acc_user a) = None \<and>
   rs_iam (snd (delete_binding show_uuid now st a i)) = revoke_db now i (rs_iam st)"
  unfolding delete_binding_def revoke_def Let_def
  by (simp split: option.split sum.split)


definition sample_state :: "iam_db \<Rightarrow> route_state" where
  "sample_state db = \<lparr>rs_iam = db, rs_audit = []\<rparr>"


text \<open>
  The handler looks a binding up among the first 500 of the listing, so in an installation with
  more bindings than that there is always one it cannot revoke: it answers that no such assignment
  exists although the row is there.
\<close>

theorem delete_binding_misses_rows:
  assumes "bindings_ok (rs_iam st)" and "length (t_bindings (rs_iam st)) > 500"
  shows "\<exists>b. b \<in> set (t_bindings (rs_iam st)) \<and>
    delete_binding show_uuid now st a (binding_id b) = (Inl BindingNotFound, st)"
proof -
  let ?all = "t_bindings (rs_iam st)" and ?listed = "list_bindings now (rs_iam st) (any_binding None)"
  have ids: "distinct (map binding_id ?all)" using assms(1) by (simp add: bindings_ok_def)
  have "length ?listed \<le> 500" by (simp add: list_bindings_def any_binding_def clamp_def)
  then have "card (binding_id ` set ?listed) \<le> 500"
    by (meson card_image_le card_length finite_set le_trans)
  moreover have "card (binding_id ` set ?all) = length ?all" using ids by (metis distinct_card length_map set_map)
  ultimately have "\<not> binding_id ` set ?all \<subseteq> binding_id ` set ?listed"
    using assms(2) by (metis card_mono finite_imageI finite_set leD le_trans)
  then obtain b where "b \<in> set ?all" "binding_id b \<notin> binding_id ` set ?listed" by blast
  then have "find (\<lambda>c. binding_id c = binding_id b) ?listed = None" unfolding find_None_all by (metis imageI)
  then show ?thesis using \<open>b \<in> set ?all\<close> by (intro exI[of _ b]) (simp add: delete_binding_def)
qed

definition crowd :: iam_db where
  "crowd = empty_db\<lparr>t_bindings := map (\<lambda>i. sample_binding i 1 (SubjectUser i) ScopeGlobal None) [0..<501]\<rparr>"

theorem delete_binding_misses_rows_witness:
  "\<exists>b. b \<in> set (t_bindings crowd) \<and>
     delete_binding show_nat 0 (sample_state crowd) \<lparr>acc_user = 3, acc_organization = None\<rparr> (binding_id b) =
     (Inl BindingNotFound, sample_state crowd)"
proof -
  have "filter (\<lambda>b. revoked_at b = None) (t_bindings crowd) = t_bindings crowd"
    by (rule filter_True) (simp add: crowd_def sample_binding_def)
  moreover have "distinct (map binding_id (t_bindings crowd))" "distinct (map binding_slot (t_bindings crowd))"
    by (simp_all add: crowd_def sample_binding_def comp_def binding_slot_def slot_def distinct_map inj_on_def)
  ultimately have "bindings_ok crowd" by (simp add: bindings_ok_def)
  moreover have "length (t_bindings crowd) > 500" by (simp add: crowd_def)
  ultimately show ?thesis
    using delete_binding_misses_rows[of "sample_state crowd" show_nat 0] by (simp add: sample_state_def)
qed

text \<open>
  A role assignment that goes through stays inside the caller's organization whenever its scope
  names one: an account of an organization can only have granted at a scope of that organization or
  at one that carries no organization at all.
\<close>

theorem create_binding_own_organization:
  assumes "create_binding parse_rfc3339 show_uuid fresh now st a body = (Inr b, st')"
    and "acc_organization a = Some own"
  shows "scope_organization_id (binding_scope b) \<in> {None, Some own} \<and> granted_by b = Some (acc_user a)"
proof -
  obtain new db where plan: "plan_binding parse_rfc3339 a body = Inr new"
    and grant: "grant_subject fresh now (rs_iam st) new = (Inr b, db)"
    using assms(1) unfolding create_binding_def by (auto split: sum.split_asm prod.split_asm)
  have b: "b = binding_row fresh now new" using grant by (rule grant_subject_cases) simp_all
  have "ensure_same_organization a (scope_organization_id (nb_scope new)) = Inr ()"
      "nb_granted_by new = Some (acc_user a)"
    using plan by (auto simp: plan_binding_def res_bind_Inr_conv)
  then show ?thesis
    using assms(2) unfolding b
    by (cases "scope_organization_id (nb_scope new)")
      (simp_all add: ensure_same_organization_def binding_row_def split: if_split_asm)
qed

definition platform_db :: iam_db where
  "platform_db = empty_db\<lparr>t_roles := [plain_role 1 None ''owner''], t_subjects := [SubjectUser 3]\<rparr>"

definition global_request :: create_binding_request where
  "global_request = \<lparr>cb_user_id = Some 3, cb_subject_type = None, cb_subject_id = None, cb_role_id = 1,
     cb_scope_type = BodyGlobal, cb_organization_id = None, cb_site_id = None, cb_department = None,
     cb_module = None, cb_resource_type = None, cb_resource_id = None, cb_expires_at = None\<rparr>"

lemmas create_eval = create_binding_def plan_binding_def scope_from_request_def ensure_same_organization_def
  request_subject_def subject_from_parts_def validate_subject_def validate_scope_target_def
  validate_subject_exists_def grant_subject_def Let_def retire_expired_def set_revoked_def update_row_def
  binding_row_def references_ok_def is_user_def find_role_def plain_role_def global_request_def
  platform_db_def empty_db_def sample_state_def

lemma tenant_grant:
  "\<exists>b st'. create_binding Map.empty show_nat 7 0 (sample_state platform_db)
       \<lparr>acc_user = 3, acc_organization = Some 9\<rparr> global_request = (Inr b, st') \<and>
     binding_scope b = ScopeGlobal \<and> binding_role_id b = 1 \<and> is_privileged (rs_iam st') b \<and> is_live 0 b"
  by (simp add: create_eval is_privileged_def binding_role_key_def PRIVILEGED_ROLE_KEYS_def is_live_def)

theorem create_binding_own_organization_witness:
  "\<exists>b st'. create_binding Map.empty show_nat 7 0 (sample_state platform_db)
       \<lparr>acc_user = 3, acc_organization = Some 9\<rparr> global_request = (Inr b, st') \<and>
     scope_organization_id (binding_scope b) \<in> {None, Some 9} \<and> granted_by b = Some 3"
  using tenant_grant create_binding_own_organization[of Map.empty show_nat 7 0 "sample_state platform_db"
    "\<lparr>acc_user = 3, acc_organization = Some 9\<rparr>" global_request _ _ 9] by fastforce

text \<open>
  And the second alternative is reachable: an account that belongs to an organization, and may
  manage bindings there, can grant itself the platform's owner role at the global scope. The tenancy
  helper lets a target without an organization pass, although an account with a primary organization
  is documented to work only inside it.
\<close>

theorem tenant_account_grants_globally:
  "\<exists>b st'. create_binding Map.empty show_nat 7 0 (sample_state platform_db)
       \<lparr>acc_user = 3, acc_organization = Some 9\<rparr> global_request = (Inr b, st') \<and>
     binding_subject b = SubjectUser 3 \<and> binding_scope b = ScopeGlobal \<and> is_privileged (rs_iam st') b \<and> is_live 0 b"
  by (simp add: create_eval is_privileged_def binding_role_key_def PRIVILEGED_ROLE_KEYS_def is_live_def)

end
