(* ===== verification/Approvals.thy ===== *)
theory Approvals
  imports Authorize
begin

text \<open>
  Permission requests and their approvals (\<open>crates/permissions/src/approvals.rs\<close>): the
  \<open>permission_requests\<close> table beside the role tables, asking, listing, the lapse of approved windows
  and the decision, which creates a time-boxed binding of a role generated per permission.

  A decision has two parts in the code: the reads and the grant role, before the transaction, and
  the transaction that locks the row, checks the status again and writes. They are two definitions
  here, \<open>decide_prepare\<close> and \<open>decide_commit\<close>, so that two approvers can interleave. The joined
  account names of a request are presentation and are left out; the joined window of its binding is
  kept.
\<close>

subsection \<open>Requests\<close>

definition MIN_GRANT_MINUTES :: int where "MIN_GRANT_MINUTES = 5"
definition MAX_GRANT_MINUTES :: int where "MAX_GRANT_MINUTES = 43200"
definition GRANT_ROLE_PRIORITY :: int where "GRANT_ROLE_PRIORITY = 100"

record permission_request =
  pr_id :: uuid
  pr_organization_id :: uuid
  pr_requester_id :: uuid
  pr_permission_key :: string
  pr_resource_type :: "string option"
  pr_resource_id :: "string option"
  pr_justification :: string
  pr_status :: string
  pr_decided_by :: "uuid option"
  pr_decided_at :: "instant option"
  pr_decision_note :: "string option"
  pr_grant_minutes :: "int option"
  pr_binding_id :: "uuid option"
  pr_created_at :: instant

record request_view =
  rq_row :: permission_request
  rq_grant_expires_at :: "instant option"
  rq_grant_revoked :: "bool option"

record approval_db =
  ad_iam :: iam_db
  ad_requests :: "permission_request list"

record new_permission_request =
  np_permission_key :: string
  np_resource_type :: "string option"
  np_resource_id :: "string option"
  np_justification :: string

record approval_decision =
  ap_approve :: bool
  ap_grant_minutes :: "int option"
  ap_note :: string

record request_filter =
  rf_status :: "string option"
  rf_requester_id :: "uuid option"

definition find_binding :: "iam_db \<Rightarrow> uuid \<Rightarrow> role_binding option" where
  "find_binding db i = find (\<lambda>b. binding_id b = i) (t_bindings db)"

definition view_request :: "approval_db \<Rightarrow> permission_request \<Rightarrow> request_view" where
  "view_request db r =
     (let b = Option.bind (pr_binding_id r) (find_binding (ad_iam db)) in
      \<lparr>rq_row = r, rq_grant_expires_at = Option.bind b expires_at,
       rq_grant_revoked = Some (case b of None \<Rightarrow> False | Some b' \<Rightarrow> revoked_at b' \<noteq> None)\<rparr>)"

definition request_resource ::
  "string option \<Rightarrow> string option \<Rightarrow> permissions_error + string option \<times> string option" where
  "request_resource kind pattern =
     (case (map_option trim kind, map_option trim pattern) of
        (Some k, Some p) \<Rightarrow>
          if k = [] \<or> p = [] then Inl InvalidRequest
          else if k \<noteq> ''path'' then Inl InvalidRequest
          else Inr (Some k, Some p)
      | (None, None) \<Rightarrow> Inr (None, None)
      | _ \<Rightarrow> Inl InvalidRequest)"

definition request_permission ::
  "uuid \<Rightarrow> instant \<Rightarrow> approval_db \<Rightarrow> uuid \<Rightarrow> uuid \<Rightarrow> new_permission_request \<Rightarrow>
   permissions_error + request_view \<times> approval_db" where
  "request_permission fresh now db organization_id requester_id new =
     (let key = trim (np_permission_key new); justification = trim (np_justification new) in
      if \<not> is_known key then Inl (UnknownPermission key)
      else if length justification > 500 then Inl InvalidRequest
      else res_bind (request_resource (np_resource_type new) (np_resource_id new)) (\<lambda>(kind, pattern).
        if organization_id \<notin> set (t_organizations (ad_iam db)) \<or>
           SubjectUser requester_id \<notin> set (t_subjects (ad_iam db)) then Inl DatabaseError
        else (let row = \<lparr>pr_id = fresh, pr_organization_id = organization_id, pr_requester_id = requester_id,
                         pr_permission_key = key, pr_resource_type = kind, pr_resource_id = pattern,
                         pr_justification = justification, pr_status = ''pending'', pr_decided_by = None,
                         pr_decided_at = None, pr_decision_note = None, pr_grant_minutes = None,
                         pr_binding_id = None, pr_created_at = now\<rparr>;
                  db' = db\<lparr>ad_requests := ad_requests db @ [row]\<rparr>
              in Inr (view_request db' row, db'))))"

definition has_lapsed :: "instant \<Rightarrow> approval_db \<Rightarrow> uuid \<Rightarrow> permission_request \<Rightarrow> bool" where
  "has_lapsed now db organization_id r =
     (pr_organization_id r = organization_id \<and> pr_status r = ''approved'' \<and>
      (case pr_binding_id r of
         None \<Rightarrow> False
       | Some i \<Rightarrow> list_ex (\<lambda>b. binding_id b = i \<and> is_past now b) (t_bindings (ad_iam db))))"

definition expire_lapsed :: "instant \<Rightarrow> approval_db \<Rightarrow> uuid \<Rightarrow> nat \<times> approval_db" where
  "expire_lapsed now db organization_id =
     (length (filter (has_lapsed now db organization_id) (ad_requests db)),
      db\<lparr>ad_requests := update_row (has_lapsed now db organization_id) (\<lambda>r. r\<lparr>pr_status := ''expired''\<rparr>)
           (ad_requests db)\<rparr>)"

definition status_filter :: "string option \<Rightarrow> permissions_error + string option" where
  "status_filter status =
     (case status of
        None \<Rightarrow> Inr None
      | Some v \<Rightarrow>
          if v = ''all'' then Inr None
          else if v \<in> {''pending'', ''approved'', ''rejected'', ''expired''} then Inr (Some v)
          else Inl InvalidRequest)"

definition list_requests ::
  "instant \<Rightarrow> approval_db \<Rightarrow> uuid \<Rightarrow> request_filter \<Rightarrow> (permissions_error + request_view list) \<times> approval_db" where
  "list_requests now db organization_id f =
     (let db' = snd (expire_lapsed now db organization_id) in
      (res_bind (status_filter (rf_status f)) (\<lambda>status.
         Inr (map (view_request db') (take 200 (sort_key (\<lambda>r. - pr_created_at r)
           (filter (\<lambda>r. pr_organization_id r = organization_id \<and>
              (status = None \<or> status = Some (pr_status r)) \<and>
              (rf_requester_id f = None \<or> rf_requester_id f = Some (pr_requester_id r))) (ad_requests db')))))),
       db'))"

definition find_request :: "approval_db \<Rightarrow> uuid \<Rightarrow> permission_request option" where
  "find_request db i = find (\<lambda>r. pr_id r = i) (ad_requests db)"

subsection \<open>The role behind a window\<close>

fun sanitize_key :: "bool \<Rightarrow> string \<Rightarrow> string" where
  "sanitize_key last_dash [] = []"
| "sanitize_key last_dash (c # cs) =
     (if is_ascii_lowercase c \<or> is_ascii_digit c then c # sanitize_key False cs
      else if \<not> last_dash then CHR ''-'' # sanitize_key True cs
      else sanitize_key True cs)"

definition grant_role_key :: "string \<Rightarrow> string" where
  "grant_role_key permission_key = trim_end_matches CHR ''-'' (''grant-'' @ sanitize_key True permission_key)"

definition ensure_grant_role ::
  "uuid \<Rightarrow> uuid \<Rightarrow> instant \<Rightarrow> iam_db \<Rightarrow> uuid \<Rightarrow> string \<Rightarrow> (permissions_error + uuid) \<times> iam_db" where
  "ensure_grant_role probe fresh now db organization_id permission_key =
     (let key = grant_role_key permission_key in
      case find_role_by_key db (Some organization_id) key of
        Some r \<Rightarrow> (Inr (role_id r), db)
      | None \<Rightarrow>
          (case create_role probe fresh now db
                  \<lparr>nr_organization_id = organization_id, nr_key = key,
                   nr_name = ''Time-boxed: '' @ permission_key,
                   nr_description = ''Generated by an approved permission request; bound only for the approved window.'',
                   nr_priority = GRANT_ROLE_PRIORITY, nr_inherits_role_id = None\<rparr> of
             Inr (r, db1) \<Rightarrow>
               (case set_role_permissions now db1 (role_id r) [\<lparr>rp_key = permission_key, rp_effect = Allow\<rparr>] of
                  Inl e \<Rightarrow> (Inl e, db1)
                | Inr (_, db2) \<Rightarrow> (Inr (role_id r), db2))
           | Inl e \<Rightarrow>
               if e = RoleKeyTaken
               then (case find_role_by_key db (Some organization_id) key of
                       None \<Rightarrow> (Inl RoleNotFound, db)
                     | Some r \<Rightarrow> (Inr (role_id r), db))
               else (Inl e, db)))"

definition grant_binding :: "uuid \<Rightarrow> uuid \<Rightarrow> scope \<Rightarrow> uuid \<Rightarrow> instant \<Rightarrow> new_binding" where
  "grant_binding r requester_id sc decider_id expires =
     \<lparr>nb_role_id = r, nb_subject = SubjectUser requester_id, nb_scope = sc,
      nb_granted_by = Some decider_id, nb_expires_at = Some expires\<rparr>"

subsection \<open>Deciding\<close>

definition decide_window :: "approval_decision \<Rightarrow> permissions_error + int option" where
  "decide_window decision =
     (if ap_approve decision
      then (case ap_grant_minutes decision of
              None \<Rightarrow> Inl InvalidRequest
            | Some minutes \<Rightarrow>
                if MIN_GRANT_MINUTES \<le> minutes \<and> minutes \<le> MAX_GRANT_MINUTES then Inr (Some minutes)
                else Inl InvalidRequest)
      else Inr None)"

text \<open>Everything before the transaction: the window, the row, the grant role.\<close>

definition decide_prepare ::
  "uuid \<Rightarrow> uuid \<Rightarrow> instant \<Rightarrow> approval_db \<Rightarrow> uuid \<Rightarrow> approval_decision \<Rightarrow>
   (permissions_error + int option \<times> permission_request \<times> uuid option) \<times> approval_db" where
  "decide_prepare probe fresh now db i decision =
     (case decide_window decision of
        Inl e \<Rightarrow> (Inl e, db)
      | Inr minutes \<Rightarrow>
          (case find_request db i of
             None \<Rightarrow> (Inl RequestNotFound, db)
           | Some existing \<Rightarrow>
               if pr_status existing \<noteq> ''pending'' then (Inl RequestAlreadyDecided, db)
               else if \<not> ap_approve decision then (Inr (minutes, existing, None), db)
               else (case ensure_grant_role probe fresh now (ad_iam db) (pr_organization_id existing)
                            (pr_permission_key existing) of
                       (Inl e, iam) \<Rightarrow> (Inl e, db\<lparr>ad_iam := iam\<rparr>)
                     | (Inr r, iam) \<Rightarrow> (Inr (minutes, existing, Some r), db\<lparr>ad_iam := iam\<rparr>))))"

definition request_scope :: "permission_request \<Rightarrow> scope" where
  "request_scope r =
     (case (pr_resource_type r, pr_resource_id r) of
        (Some kind, Some pattern) \<Rightarrow> ScopeResource (Some (pr_organization_id r)) None kind pattern
      | _ \<Rightarrow> ScopeOrganization (pr_organization_id r))"

text \<open>The two statements of the transaction on the bindings: retire the lapsed windows of the same
  role and person, whatever their scope, then insert; a violated constraint rolls back.\<close>

definition retire_windows :: "instant \<Rightarrow> uuid \<Rightarrow> uuid \<Rightarrow> iam_db \<Rightarrow> iam_db" where
  "retire_windows now r requester =
     set_revoked now (\<lambda>b. binding_role_id b = r \<and> binding_subject b = SubjectUser requester \<and> is_past now b)"

definition insert_window :: "uuid \<Rightarrow> instant \<Rightarrow> iam_db \<Rightarrow> new_binding \<Rightarrow> permissions_error + uuid \<times> iam_db" where
  "insert_window fresh now db new =
     (let row = binding_row fresh now new in
      if \<not> scope_ok (nb_scope new) \<or>
         list_ex (\<lambda>b. revoked_at b = None \<and> binding_slot b = binding_slot row) (t_bindings db) \<or>
         \<not> references_ok db new
      then Inl DatabaseError
      else Inr (fresh, db\<lparr>t_bindings := t_bindings db @ [row]\<rparr>))"

definition write_grant ::
  "uuid \<Rightarrow> instant \<Rightarrow> iam_db \<Rightarrow> permission_request \<Rightarrow> uuid \<Rightarrow> bool \<Rightarrow> uuid option \<Rightarrow> int option \<Rightarrow>
   permissions_error + uuid option \<times> iam_db" where
  "write_grant fresh now db existing decider approve grant_role minutes =
     (case (approve, grant_role, minutes) of
        (True, Some r, Some m) \<Rightarrow>
          res_bind (insert_window fresh now (retire_windows now r (pr_requester_id existing) db)
                     (grant_binding r (pr_requester_id existing) (request_scope existing) decider
                        (now + seconds (60 * m))))
            (\<lambda>(i, db'). Inr (Some i, db'))
      | _ \<Rightarrow> Inr (None, db))"

definition decided :: "instant \<Rightarrow> uuid \<Rightarrow> approval_decision \<Rightarrow> int option \<Rightarrow> uuid option \<Rightarrow> permission_request \<Rightarrow> permission_request" where
  "decided now decider decision minutes binding r =
     r\<lparr>pr_status := (if ap_approve decision then ''approved'' else ''rejected''),
       pr_decided_by := Some decider, pr_decided_at := Some now, pr_decision_note := Some (trim (ap_note decision)),
       pr_grant_minutes := minutes, pr_binding_id := binding\<rparr>"

definition decide_commit ::
  "uuid \<Rightarrow> instant \<Rightarrow> approval_db \<Rightarrow> uuid \<Rightarrow> uuid \<Rightarrow> approval_decision \<Rightarrow>
   int option \<times> permission_request \<times> uuid option \<Rightarrow> (permissions_error + request_view) \<times> approval_db" where
  "decide_commit fresh now db i decider decision prepared =
     (case prepared of (minutes, existing, grant_role) \<Rightarrow>
      case find_request db i of
        None \<Rightarrow> (Inl RequestNotFound, db)
      | Some locked \<Rightarrow>
          if pr_status locked \<noteq> ''pending'' then (Inl RequestAlreadyDecided, db)
          else (case write_grant fresh now (ad_iam db) existing decider (ap_approve decision) grant_role minutes of
                  Inl e \<Rightarrow> (Inl e, db)
                | Inr (binding, iam) \<Rightarrow>
                    (let db' = \<lparr>ad_iam = iam,
                                ad_requests = update_row (\<lambda>r. pr_id r = i)
                                  (decided now decider decision minutes binding) (ad_requests db)\<rparr>
                     in (map_sum id (view_request db') (ok_or RequestNotFound (find_request db' i)), db'))))"

definition decide_request ::
  "uuid \<Rightarrow> uuid \<Rightarrow> uuid \<Rightarrow> instant \<Rightarrow> approval_db \<Rightarrow> uuid \<Rightarrow> uuid \<Rightarrow> approval_decision \<Rightarrow>
   (permissions_error + request_view) \<times> approval_db" where
  "decide_request probe fresh_role fresh now db i decider decision =
     (case decide_prepare probe fresh_role now db i decision of
        (Inl e, db1) \<Rightarrow> (Inl e, db1)
      | (Inr prepared, db1) \<Rightarrow> decide_commit fresh now db1 i decider decision prepared)"

subsection \<open>A sample store\<close>

definition sample_request :: "uuid \<Rightarrow> string \<Rightarrow> permission_request" where
  "sample_request i status =
     \<lparr>pr_id = i, pr_organization_id = 7, pr_requester_id = 3, pr_permission_key = ''users.read'',
      pr_resource_type = None, pr_resource_id = None, pr_justification = [], pr_status = status,
      pr_decided_by = None, pr_decided_at = None, pr_decision_note = None, pr_grant_minutes = None,
      pr_binding_id = None, pr_created_at = 0\<rparr>"

definition sample_approvals :: "string list \<Rightarrow> approval_db" where
  "sample_approvals keys =
     \<lparr>ad_iam = empty_db\<lparr>t_roles := [plain_role 20 (Some 7) ''grant-users-read''],
        t_entries := map (\<lambda>k. \<lparr>er_role_id = 20, er_key = k, er_effect = Allow\<rparr>) keys,
        t_subjects := [SubjectUser 3, SubjectUser 4], t_organizations := [7]\<rparr>,
      ad_requests = [sample_request 1 ''pending'', sample_request 2 ''rejected'']\<rparr>"

definition one_hour :: approval_decision where
  "one_hour = \<lparr>ap_approve = True, ap_grant_minutes = Some 60, ap_note = []\<rparr>"

lemma sample_store_ok: "store_ok (ad_iam (sample_approvals keys))"
  by (simp add: store_ok_def skel_ok_def skeleton_def sample_approvals_def empty_db_def plain_role_def
    role_skeleton_def skel_usable_def skel_rel_def acyclic_def)

lemma sample_role_key: "grant_role_key ''users.read'' = ''grant-users-read''"
  by (simp add: grant_role_key_def trim_end_matches_def is_ascii_lowercase_def is_ascii_digit_def code_def)

lemma sample_role: "find_role_by_key (ad_iam (sample_approvals keys)) (Some 7) ''grant-users-read'' =
  Some (plain_role 20 (Some 7) ''grant-users-read'')"
  by (simp add: find_role_by_key_def sample_approvals_def plain_role_def)

lemma sample_find: "find_request (sample_approvals keys) 1 = Some (sample_request 1 ''pending'')"
  "find_request (sample_approvals keys) 2 = Some (sample_request 2 ''rejected'')"
  by (simp_all add: find_request_def sample_approvals_def sample_request_def)

lemma sample_prepare: "decide_prepare 0 21 0 (sample_approvals keys) 1 one_hour =
  (Inr (Some 60, sample_request 1 ''pending'', Some 20), sample_approvals keys)"
  unfolding decide_prepare_def sample_find ensure_grant_role_def Let_def
  by (simp add: one_hour_def decide_window_def MIN_GRANT_MINUTES_def MAX_GRANT_MINUTES_def
    sample_request_def sample_role_key sample_role) (simp add: plain_role_def)

lemma sample_decides: "\<exists>v db'. decide_request 0 21 30 0 (sample_approvals keys) 1 4 one_hour = (Inr v, db')"
  unfolding decide_request_def sample_prepare
  by (simp add: decide_commit_def sample_find write_grant_def one_hour_def insert_window_def retire_windows_def
    set_revoked_def update_row_def request_scope_def references_ok_def find_role_def plain_role_def is_user_def
    grant_binding_def sample_approvals_def sample_request_def empty_db_def Let_def find_request_def ok_or_def
    decided_def res_bind_def)

subsection \<open>A decision is final\<close>

inductive approval_step :: "approval_db \<Rightarrow> approval_db \<Rightarrow> bool" where
  step_request: "fresh \<notin> pr_id ` set (ad_requests db) \<Longrightarrow>
    request_permission fresh now db organization_id requester new = Inr (v, db') \<Longrightarrow> approval_step db db'"
| step_list: "list_requests now db organization_id f = (listed, db') \<Longrightarrow> approval_step db db'"
| step_prepare: "decide_prepare probe fresh now db i decision = (prepared, db') \<Longrightarrow> approval_step db db'"
| step_commit: "decide_commit fresh now db i decider decision prepared = (answer, db') \<Longrightarrow> approval_step db db'"
| step_elsewhere: "ad_requests db' = ad_requests db \<Longrightarrow> approval_step db db'"

definition settled :: "permission_request \<Rightarrow> permission_request \<Rightarrow> bool" where
  "settled r r' \<longleftrightarrow> r' = r \<or> pr_status r = ''approved'' \<and> r' = r\<lparr>pr_status := ''expired''\<rparr>"

lemma settled_trans: "settled r s \<Longrightarrow> settled s t \<Longrightarrow> settled r t"
  unfolding settled_def by auto

lemma settled_decided: "settled r r' \<Longrightarrow> pr_status r \<noteq> ''pending'' \<Longrightarrow> pr_status r' \<noteq> ''pending''"
  unfolding settled_def by auto

lemma find_update_row:
  assumes "\<And>r. key (f r) = key r"
  shows "find (\<lambda>r. key r = i) (update_row P f rows) = map_option (\<lambda>r. if P r then f r else r) (find (\<lambda>r. key r = i) rows)"
  by (induction rows) (simp_all add: update_row_def assms)

lemma find_append_fresh: "x \<notin> key ` set rows \<Longrightarrow> find (\<lambda>r. key r = i) rows = Some r \<Longrightarrow>
  find (\<lambda>r. key r = i) (rows @ [new]) = Some r"
  by (induction rows) (auto split: if_splits)

lemma find_request_decided:
  "find_request (db\<lparr>ad_iam := iam, ad_requests := update_row (\<lambda>r. pr_id r = i) (decided now who d m b) (ad_requests db)\<rparr>) j =
   map_option (\<lambda>r. if pr_id r = i then decided now who d m b r else r) (find_request db j)"
  unfolding find_request_def by (simp add: find_update_row decided_def)

lemma find_request_id: "find_request db i = Some r \<Longrightarrow> pr_id r = i"
  unfolding find_request_def by (auto simp: find_Some_iff)

lemma commit_cases:
  assumes "decide_commit fresh now db i decider decision (minutes, existing, role) = (answer, db')"
  shows "(\<exists>e. answer = Inl e) \<and> db' = db \<or> (\<exists>locked iam b. find_request db i = Some locked \<and> pr_status locked = ''pending'' \<and>
      write_grant fresh now (ad_iam db) existing decider (ap_approve decision) role minutes = Inr (b, iam) \<and>
      db' = db\<lparr>ad_iam := iam, ad_requests := update_row (\<lambda>r. pr_id r = i) (decided now decider decision minutes b) (ad_requests db)\<rparr> \<and>
      answer = Inr (view_request db' (decided now decider decision minutes b locked)))"
proof (cases "(\<exists>e. answer = Inl e) \<and> db' = db")
  case False
  then obtain locked iam b where x: "find_request db i = Some locked" "pr_status locked = ''pending''"
      "write_grant fresh now (ad_iam db) existing decider (ap_approve decision) role minutes = Inr (b, iam)"
    and y: "(answer, db') = (let db' = \<lparr>ad_iam = iam, ad_requests = update_row (\<lambda>r. pr_id r = i)
                                  (decided now decider decision minutes b) (ad_requests db)\<rparr>
                     in (map_sum id (view_request db') (ok_or RequestNotFound (find_request db' i)), db'))"
    using assms unfolding decide_commit_def by (auto split: option.split_asm sum.split_asm if_split_asm)
  have db': "db' = db\<lparr>ad_iam := iam, ad_requests := update_row (\<lambda>r. pr_id r = i) (decided now decider decision minutes b) (ad_requests db)\<rparr>"
    using y by (simp add: Let_def)
  have "find_request db' i = Some (decided now decider decision minutes b locked)"
    unfolding db' find_request_decided using x(1) find_request_id[OF x(1)] by simp
  then have "answer = Inr (view_request db' (decided now decider decision minutes b locked))"
    using y unfolding Let_def prod.inject by (simp add: ok_or_def)
  then show ?thesis using x db' by blast
qed simp

lemma step_settled:
  assumes "approval_step db db'" and "find_request db i = Some r" and "pr_status r \<noteq> ''pending''"
  shows "\<exists>r'. find_request db' i = Some r' \<and> settled r r'"
  using assms
proof (induction rule: approval_step.induct)
  case (step_request fresh db now organization_id requester new v db')
  then obtain row where "ad_requests db' = ad_requests db @ [row]"
    unfolding request_permission_def Let_def
    by (auto simp: res_bind_Inr_conv split: if_split_asm)
  then show ?case using step_request by (simp add: find_request_def find_append_fresh settled_def)
next
  case (step_list now db organization_id f listed db')
  then have "ad_requests db' = update_row (has_lapsed now db organization_id) (\<lambda>r. r\<lparr>pr_status := ''expired''\<rparr>) (ad_requests db)"
    by (auto simp: list_requests_def expire_lapsed_def Let_def)
  then have "find_request db' i = map_option (\<lambda>r. if has_lapsed now db organization_id r then r\<lparr>pr_status := ''expired''\<rparr> else r) (find_request db i)"
    unfolding find_request_def by (simp add: find_update_row)
  then show ?case using step_list by (simp add: settled_def has_lapsed_def)
next
  case (step_prepare probe fresh now db j decision prepared db')
  then have "ad_requests db' = ad_requests db"
    unfolding decide_prepare_def by (auto split: option.split_asm sum.split_asm if_split_asm prod.split_asm)
  then show ?case using step_prepare by (simp add: find_request_def settled_def)
next
  case (step_commit fresh now db j decider decision prepared answer db')
  obtain minutes existing role where p: "prepared = (minutes, existing, role)" by (cases prepared)
  from commit_cases[OF step_commit.hyps[unfolded p]] show ?case
  proof
    assume "(\<exists>e. answer = Inl e) \<and> db' = db" then show ?thesis using step_commit.prems by (simp add: settled_def)
  next
    assume "\<exists>locked iam b. find_request db j = Some locked \<and> pr_status locked = ''pending'' \<and>
      write_grant fresh now (ad_iam db) existing decider (ap_approve decision) role minutes = Inr (b, iam) \<and>
      db' = db\<lparr>ad_iam := iam, ad_requests := update_row (\<lambda>r. pr_id r = j) (decided now decider decision minutes b) (ad_requests db)\<rparr> \<and>
      answer = Inr (view_request db' (decided now decider decision minutes b locked))"
    then obtain locked iam b where l: "find_request db j = Some locked" "pr_status locked = ''pending''"
      and db': "db' = db\<lparr>ad_iam := iam, ad_requests := update_row (\<lambda>r. pr_id r = j) (decided now decider decision minutes b) (ad_requests db)\<rparr>"
      by blast
    have "j \<noteq> i" using l step_commit.prems by auto
    then have "find_request db' i = Some r"
      unfolding db' find_request_decided using step_commit.prems(1) find_request_id by simp
    then show ?thesis by (simp add: settled_def)
  qed
next
  case (step_elsewhere db' db)
  then show ?case by (simp add: find_request_def settled_def)
qed

lemma steps_settled:
  assumes "approval_step\<^sup>*\<^sup>* db db'" and "find_request db i = Some r" and "pr_status r \<noteq> ''pending''"
  shows "\<exists>r'. find_request db' i = Some r' \<and> settled r r'"
  using assms
proof (induction rule: rtranclp_induct)
  case base
  then show ?case by (simp add: settled_def)
next
  case (step db1 db2)
  then obtain r1 where r1: "find_request db1 i = Some r1" "settled r r1" by blast
  then have "pr_status r1 \<noteq> ''pending''" using settled_decided step.prems(2) by blast
  from step_settled[OF step.hyps(2) r1(1) this] show ?case using r1(2) settled_trans by blast
qed

text \<open>
  C12. A decision is final, however approvers interleave: once a request is approved or rejected, its
  decider, time, window and binding never change and its status only moves from approved to expired;
  and a second approver who read the request while it was pending is answered that it has been
  decided, without any write.
\<close>

theorem decision_final:
  assumes "approval_step\<^sup>*\<^sup>* db db'" and "find_request db i = Some r" and "pr_status r \<noteq> ''pending''"
  shows "(\<exists>r'. find_request db' i = Some r' \<and> settled r r') \<and>
    decide_commit fresh now db' i decider decision prepared = (Inl RequestAlreadyDecided, db')"
proof -
  obtain r' where r': "find_request db' i = Some r'" "settled r r'" using steps_settled[OF assms] by blast
  then have "pr_status r' \<noteq> ''pending''" using settled_decided assms(3) by blast
  then have "decide_commit fresh now db' i decider decision prepared = (Inl RequestAlreadyDecided, db')"
    unfolding decide_commit_def r'(1) by (simp add: case_prod_beta)
  then show ?thesis using r' by blast
qed

theorem decision_final_witness:
  "\<exists>r'. find_request (sample_approvals []) 2 = Some r' \<and>
     decide_commit 30 0 (sample_approvals []) 2 4 one_hour (Some 60, sample_request 2 ''pending'', Some 20) =
       (Inl RequestAlreadyDecided, sample_approvals [])"
  using decision_final[OF rtranclp.rtrancl_refl sample_find(2), of "[]" 30 0 4 one_hour
    "(Some 60, sample_request 2 ''pending'', Some 20)"]
  by (simp add: sample_find) (simp add: sample_request_def)

subsection \<open>What an approval grants\<close>

interpretation windows: revocation now "\<lambda>b. binding_role_id b = r \<and> binding_subject b = SubjectUser requester \<and> is_past now b"
    "retire_windows now r requester" for now r requester
  by unfold_locales (simp_all add: retire_windows_def set_revoked_def)

lemma not_past_active: "is_active_at b t \<Longrightarrow> now \<le> t \<Longrightarrow> \<not> is_past now b"
  by (auto simp: is_active_at_def is_past_def split: option.split_asm)

text \<open>A window row, and the store that holds it beside the others.\<close>

definition window_row :: "uuid \<Rightarrow> instant \<Rightarrow> permission_request \<Rightarrow> uuid \<Rightarrow> uuid \<Rightarrow> int \<Rightarrow> role_binding" where
  "window_row fresh now existing decider r minutes =
     binding_row fresh now (grant_binding r (pr_requester_id existing) (request_scope existing) decider
       (now + seconds (60 * minutes)))"

lemma window_row_simps [simp]:
  "binding_id (window_row fresh now existing decider r minutes) = fresh"
  "binding_role_id (window_row fresh now existing decider r minutes) = r"
  "binding_subject (window_row fresh now existing decider r minutes) = SubjectUser (pr_requester_id existing)"
  "binding_scope (window_row fresh now existing decider r minutes) = request_scope existing"
  "is_active_at (window_row fresh now existing decider r minutes) t \<longleftrightarrow> t < now + seconds (60 * minutes)"
  by (simp_all add: window_row_def binding_row_def grant_binding_def is_active_at_def)

lemma write_grant_Inr:
  assumes "write_grant fresh now db existing decider True (Some r) (Some minutes) = Inr (b, db')"
  shows "b = Some fresh \<and>
    db' = (retire_windows now r (pr_requester_id existing) db)\<lparr>t_bindings :=
      t_bindings (retire_windows now r (pr_requester_id existing) db) @ [window_row fresh now existing decider r minutes]\<rparr>"
  using assms unfolding write_grant_def insert_window_def window_row_def Let_def
  by (auto simp: res_bind_Inr_conv split: if_split_asm)

lemma write_grant_frame:
  assumes "write_grant fresh now db existing decider True (Some r) (Some minutes) = Inr (b, db')"
  shows "t_roles db' = t_roles db" and "t_entries db' = t_entries db" and "t_group_members db' = t_group_members db"
  using write_grant_Inr[OF assms] by (simp_all add: retire_windows_def set_revoked_def)

lemma write_grant_active:
  assumes w: "write_grant fresh now db existing decider True (Some r) (Some minutes) = Inr (b, db')" and "now \<le> t"
  shows "x \<in> set (t_bindings db') \<and> is_active_at x t \<longleftrightarrow>
    x \<in> set (t_bindings db) \<and> is_active_at x t \<or>
    x = window_row fresh now existing decider r minutes \<and> t < now + seconds (60 * minutes)"
proof -
  let ?row = "window_row fresh now existing decider r minutes"
  have "x \<in> set (t_bindings db') \<longleftrightarrow> x \<in> set (t_bindings (retire_windows now r (pr_requester_id existing) db)) \<or> x = ?row"
    using write_grant_Inr[OF w] by auto
  moreover have "is_active_at x t \<Longrightarrow> x \<in> set (t_bindings (retire_windows now r (pr_requester_id existing) db)) \<longleftrightarrow> x \<in> set (t_bindings db)"
    using windows.unrevoked_mem[of x now r "pr_requester_id existing" db] not_past_active[OF _ assms(2)]
    by (auto simp: is_active_at_def)
  ultimately show ?thesis by auto
qed

text \<open>What a resource scope or an organization scope of a request applies to.\<close>

lemma request_scope_organization:
  "applies_to (request_scope r) c \<Longrightarrow> rc_organization_id c = Some (pr_organization_id r)"
  by (auto simp: request_scope_def is_none_or_eq_def split: option.split_asm)

text \<open>An identifier no row refers to, as a generated one is.\<close>

definition unused_role :: "iam_db \<Rightarrow> uuid \<Rightarrow> bool" where
  "unused_role db i \<longleftrightarrow> i \<notin> role_ids db \<and> (\<forall>b \<in> set (t_bindings db). binding_role_id b \<noteq> i) \<and>
     (\<forall>e \<in> set (t_entries db). er_role_id e \<noteq> i)"

text \<open>The grant role of a permission, when there is one, still says what it was generated to say.\<close>

definition grant_role_intact :: "iam_db \<Rightarrow> uuid \<Rightarrow> string \<Rightarrow> bool" where
  "grant_role_intact db organization_id key \<longleftrightarrow>
     (\<forall>q. find_role_by_key db (Some organization_id) (grant_role_key key) = Some q \<longrightarrow>
        inherits_role_id q = None \<and>
        (\<forall>e \<in> set (t_entries db). er_role_id e = role_id q \<longleftrightarrow> e = \<lparr>er_role_id = role_id q, er_key = key, er_effect = Allow\<rparr>) \<and>
        \<lparr>er_role_id = role_id q, er_key = key, er_effect = Allow\<rparr> \<in> set (t_entries db))"

lemma create_role_Inr:
  assumes "create_role probe fresh now db new = Inr (q, db')"
  shows "role_id q = fresh \<and> role_organization_id q = Some (nr_organization_id new) \<and>
    inherits_role_id q = nr_inherits_role_id new \<and> \<not> is_system q \<and> db' = db\<lparr>t_roles := t_roles db @ [q]\<rparr>"
  using assms unfolding create_role_def res_bind_Inr_conv by (auto dest!: insert_role_Inr)

lemma touch_fresh:
  assumes "fresh \<notin> role_ids db" and "role_id q = fresh"
  shows "update_row (\<lambda>r. role_id r = fresh) f (t_roles db @ [q]) = t_roles db @ [f q]"
proof -
  have "map (\<lambda>r. if role_id r = fresh then f r else r) (t_roles db) = t_roles db"
    using assms(1) by (intro map_idI) (auto simp: role_ids_def)
  then show ?thesis using assms(2) by (simp add: update_row_def)
qed

lemma find_role_snoc:
  assumes "fresh \<notin> role_ids db" and "role_id q = fresh" and "t_roles db' = t_roles db @ [q]"
  shows "find_role db' j = (if j = fresh then Some q else find_role db j)"
proof -
  have "find (\<lambda>r. role_id r = fresh) (t_roles db) = None"
    using assms(1) by (auto simp: find_None_iff role_ids_def)
  then show ?thesis using assms(2,3) by (simp add: find_role_def find_snoc split: option.split)
qed

lemma set_single_permission:
  assumes "set_role_permissions now db i [\<lparr>rp_key = key, rp_effect = Allow\<rparr>] = Inr (es, db')"
  shows "db' = touch_role now i (put_entries i [(key, Allow)] db)"
  using assms unfolding set_role_permissions_def
  by (auto simp: res_bind_Inr_conv Let_def split: option.split_asm if_split_asm)

lemma ensure_grant_role_cases:
  assumes e: "ensure_grant_role probe fresh now db organization_id key = (Inr r, db')" and u: "unused_role db fresh"
  shows "(db' = db \<and> (\<exists>q. find_role_by_key db (Some organization_id) (grant_role_key key) = Some q \<and> role_id q = r)) \<or>
    (r = fresh \<and> (\<exists>q. role_id q = fresh \<and> role_organization_id q = Some organization_id \<and> inherits_role_id q = None \<and>
       db' = db\<lparr>t_roles := t_roles db @ [q],
                t_entries := t_entries db @ [\<lparr>er_role_id = fresh, er_key = key, er_effect = Allow\<rparr>]\<rparr>))"
proof (cases "find_role_by_key db (Some organization_id) (grant_role_key key)")
  case (Some q)
  then show ?thesis using e unfolding ensure_grant_role_def Let_def by simp
next
  case None
  obtain q db1 es where c: "create_role probe fresh now db
      \<lparr>nr_organization_id = organization_id, nr_key = grant_role_key key, nr_name = ''Time-boxed: '' @ key,
       nr_description = ''Generated by an approved permission request; bound only for the approved window.'',
       nr_priority = GRANT_ROLE_PRIORITY, nr_inherits_role_id = None\<rparr> = Inr (q, db1)"
    and s: "set_role_permissions now db1 (role_id q) [\<lparr>rp_key = key, rp_effect = Allow\<rparr>] = Inr (es, db')"
    and r: "r = role_id q"
    using e unfolding ensure_grant_role_def Let_def None
    by (auto split: sum.split_asm prod.split_asm if_split_asm)
  from create_role_Inr[OF c] have q: "role_id q = fresh" "role_organization_id q = Some organization_id"
      "inherits_role_id q = None" and db1: "db1 = db\<lparr>t_roles := t_roles db @ [q]\<rparr>" by simp_all
  have "filter (\<lambda>e. er_role_id e \<noteq> fresh) (t_entries db) = t_entries db"
    using u by (auto simp: unused_role_def filter_id_conv)
  moreover have "update_row (\<lambda>r. role_id r = fresh) (\<lambda>r. r\<lparr>role_updated_at := now\<rparr>) (t_roles db @ [q]) =
      t_roles db @ [q\<lparr>role_updated_at := now\<rparr>]"
    using u q(1) by (intro touch_fresh) (simp_all add: unused_role_def)
  ultimately have "db' = db\<lparr>t_roles := t_roles db @ [q\<lparr>role_updated_at := now\<rparr>],
      t_entries := t_entries db @ [\<lparr>er_role_id = fresh, er_key = key, er_effect = Allow\<rparr>]\<rparr>"
    using set_single_permission[OF s] unfolding db1 q(1) by (simp add: touch_role_def put_entries_def)
  then show ?thesis using q r by (intro disjI2 conjI exI[of _ "q\<lparr>role_updated_at := now\<rparr>"]) simp_all
qed

text \<open>Whichever case, the role answers of the bindings there are stay what they were, and the role
  returned says exactly \<open>key\<close>.\<close>

lemma inherit_rel_append: "inherits_role_id q = None \<Longrightarrow> t_roles db' = t_roles db @ [q] \<Longrightarrow> inherit_rel db' = inherit_rel db"
  by (auto simp: inherit_rel_def)

lemma inherit_rel_target:
  assumes "store_ok db" and "(i, j) \<in> (inherit_rel db)\<^sup>*" and "i \<in> role_ids db"
  shows "j \<in> role_ids db"
  using assms(2,3)
proof (induction rule: rtrancl_induct)
  case (step y z)
  then obtain q where "q \<in> set (t_roles db)" "inherits_role_id q = Some z" by (auto simp: inherit_rel_def)
  then have "(role_id q, role_organization_id q, Some z) \<in> set (skeleton db)"
    by (force simp: skeleton_def role_skeleton_def)
  then show ?case using assms(1) skel_usableD unfolding store_ok_def role_ids_skel by force
qed

lemma inherit_rel_none:
  assumes "store_ok db" and "find_role db i = Some q" and "inherits_role_id q = None"
  shows "(i, j) \<in> (inherit_rel db)\<^sup>* \<longleftrightarrow> j = i"
proof -
  have "(i, k) \<notin> inherit_rel db" for k
  proof
    assume "(i, k) \<in> inherit_rel db"
    then obtain r where "r \<in> set (t_roles db)" "role_id r = i" "inherits_role_id r = Some k"
      by (auto simp: inherit_rel_def)
    then have "find_role db i = Some r" using find_role_iff[OF assms(1)] by blast
    then show False using assms(2,3) \<open>inherits_role_id r = Some k\<close> by simp
  qed
  then show ?thesis by (metis converse_rtranclE rtrancl.rtrancl_refl)
qed

definition row_says :: "iam_db \<Rightarrow> resource_context \<Rightarrow> string \<Rightarrow> effect \<Rightarrow> role_binding \<Rightarrow> bool" where
  "row_says db c key eff b \<longleftrightarrow>
     (\<exists>r j e. find_role db (binding_role_id b) = Some r \<and> visible_to (rc_organization_id c) r \<and>
        (binding_role_id b, j) \<in> (inherit_rel db)\<^sup>* \<and>
        e \<in> set (t_entries db) \<and> er_role_id e = j \<and> er_key e = key \<and> er_effect e = eff)"

lemma role_says_row:
  "role_says now db s c key eff \<longleftrightarrow>
   (\<exists>b. (b \<in> set (t_bindings db) \<and> is_active_at b now) \<and> binding_reaches db s b \<and> applies_to (binding_scope b) c \<and>
      row_says db c key eff b)"
  unfolding role_says_def row_says_def by blast

lemma row_says_frame: "t_roles db' = t_roles db \<Longrightarrow> t_entries db' = t_entries db \<Longrightarrow> row_says db' = row_says db"
  by (intro ext) (simp add: row_says_def find_role_def inherit_rel_def)

lemma ensure_row_says:
  assumes ok: "store_ok db" and u: "unused_role db fresh"
    and e: "ensure_grant_role probe fresh now db organization_id key = (Inr r, db')" and b: "b \<in> set (t_bindings db)"
  shows "row_says db' c k eff b \<longleftrightarrow> row_says db c k eff b"
  using ensure_grant_role_cases[OF e u]
proof (elim disjE conjE exE)
  fix q assume q: "role_id q = fresh" "inherits_role_id q = None"
    and db': "db' = db\<lparr>t_roles := t_roles db @ [q], t_entries := t_entries db @ [\<lparr>er_role_id = fresh, er_key = key, er_effect = Allow\<rparr>]\<rparr>"
  have ne: "binding_role_id b \<noteq> fresh" "fresh \<notin> role_ids db" using u b by (auto simp: unused_role_def)
  have f: "find_role db' (binding_role_id b) = find_role db (binding_role_id b)"
    using find_role_snoc[OF ne(2) q(1), of db'] ne(1) db' by simp
  have i: "inherit_rel db' = inherit_rel db" by (rule inherit_rel_append[OF q(2)]) (simp add: db')
  have "j \<noteq> fresh" if "find_role db (binding_role_id b) = Some x" "(binding_role_id b, j) \<in> (inherit_rel db)\<^sup>*" for x j
    using inherit_rel_target[OF ok that(2)] find_role_mem[OF that(1)] ne(2) by (force simp: role_ids_def)
  moreover have "x \<in> set (t_entries db') \<longleftrightarrow> x \<in> set (t_entries db)" if "er_role_id x \<noteq> fresh" for x
    using that by (auto simp: db')
  ultimately show ?thesis unfolding row_says_def f i by blast
qed simp

lemma ensure_says_key:
  assumes ok: "store_ok db" and u: "unused_role db fresh" and intact: "grant_role_intact db organization_id key"
    and e: "ensure_grant_role probe fresh now db organization_id key = (Inr r, db')" and b: "binding_role_id b = r"
    and c: "rc_organization_id c = Some organization_id"
  shows "row_says db' c k eff b \<longleftrightarrow> k = key \<and> eff = Allow"
proof -
  have "\<exists>q. find_role db' r = Some q \<and> role_organization_id q = Some organization_id \<and>
      (\<forall>j. (r, j) \<in> (inherit_rel db')\<^sup>* \<longleftrightarrow> j = r) \<and>
      (\<forall>x. x \<in> set (t_entries db') \<and> er_role_id x = r \<longleftrightarrow> x = \<lparr>er_role_id = r, er_key = key, er_effect = Allow\<rparr>)"
    using ensure_grant_role_cases[OF e u]
  proof (elim disjE conjE exE)
    fix q assume db': "db' = db" and q: "find_role_by_key db (Some organization_id) (grant_role_key key) = Some q" "role_id q = r"
    then have m: "q \<in> set (t_roles db)" "role_organization_id q = Some organization_id"
      unfolding find_role_by_key_def by (auto simp: find_Some_iff)
    then have f: "find_role db r = Some q" using find_role_iff[OF ok] q(2) by blast
    have n: "inherits_role_id q = None" and x: "x \<in> set (t_entries db) \<and> er_role_id x = r \<longleftrightarrow> x = \<lparr>er_role_id = r, er_key = key, er_effect = Allow\<rparr>" for x
      using intact q unfolding grant_role_intact_def by auto
    show ?thesis unfolding db'
      using f m(2) inherit_rel_none[OF ok f n] x by (intro exI[of _ q] conjI allI) blast+
  next
    fix q assume r: "r = fresh" and q: "role_id q = fresh" "role_organization_id q = Some organization_id" "inherits_role_id q = None"
      and db': "db' = db\<lparr>t_roles := t_roles db @ [q], t_entries := t_entries db @ [\<lparr>er_role_id = fresh, er_key = key, er_effect = Allow\<rparr>]\<rparr>"
    have nf: "fresh \<notin> role_ids db" using u by (simp add: unused_role_def)
    have i: "inherit_rel db' = inherit_rel db" by (rule inherit_rel_append[OF q(3)]) (simp add: db')
    have "(fresh, k) \<notin> inherit_rel db" for k using nf by (force simp: inherit_rel_def role_ids_def)
    then have "(fresh, j) \<in> (inherit_rel db)\<^sup>* \<longleftrightarrow> j = fresh" for j by (metis converse_rtranclE rtrancl.rtrancl_refl)
    moreover have "x \<in> set (t_entries db') \<and> er_role_id x = r \<longleftrightarrow> x = \<lparr>er_role_id = r, er_key = key, er_effect = Allow\<rparr>" for x
      using u by (auto simp: db' r unused_role_def)
    moreover have "find_role db' r = Some q" using find_role_snoc[OF nf q(1), of db' fresh] r by (simp add: db')
    ultimately show ?thesis using q(2) r i by (intro exI[of _ q]) simp
  qed
  then obtain q where q: "find_role db' r = Some q" "visible_to (rc_organization_id c) q"
      "\<And>j. (r, j) \<in> (inherit_rel db')\<^sup>* \<longleftrightarrow> j = r"
      "\<And>x. x \<in> set (t_entries db') \<and> er_role_id x = r \<longleftrightarrow> x = \<lparr>er_role_id = r, er_key = key, er_effect = Allow\<rparr>"
    unfolding c visible_to_def by blast
  show ?thesis
  proof
    assume "row_says db' c k eff b"
    then obtain x where "x \<in> set (t_entries db')" "er_role_id x = r" "er_key x = k" "er_effect x = eff"
      unfolding row_says_def b q(3) by blast
    then show "k = key \<and> eff = Allow" using q(4)[of x] by simp
  next
    assume "k = key \<and> eff = Allow"
    then show "row_says db' c k eff b"
      unfolding row_says_def b q(3) using q(1,2) q(4)[of "\<lparr>er_role_id = r, er_key = key, er_effect = Allow\<rparr>"] by auto
  qed
qed

lemma decide_request_approved:
  assumes d: "decide_request probe fresh_role fresh now db i decider decision = (Inr v, db')" and a: "ap_approve decision"
    and r: "find_request db i = Some req"
  obtains minutes r iam where "ap_grant_minutes decision = Some minutes"
    "MIN_GRANT_MINUTES \<le> minutes" "minutes \<le> MAX_GRANT_MINUTES"
    "ensure_grant_role probe fresh_role now (ad_iam db) (pr_organization_id req) (pr_permission_key req) = (Inr r, iam)"
    "write_grant fresh now iam req decider True (Some r) (Some minutes) = Inr (Some fresh, ad_iam db')"
    "rq_row v = decided now decider decision (Some minutes) (Some fresh) req"
proof -
  obtain prepared db1 where p: "decide_prepare probe fresh_role now db i decision = (Inr prepared, db1)"
    and c: "decide_commit fresh now db1 i decider decision prepared = (Inr v, db')"
    using d unfolding decide_request_def by (auto split: prod.split_asm sum.split_asm)
  obtain minutes r iam where m: "ap_grant_minutes decision = Some minutes" "MIN_GRANT_MINUTES \<le> minutes" "minutes \<le> MAX_GRANT_MINUTES"
    and e: "ensure_grant_role probe fresh_role now (ad_iam db) (pr_organization_id req) (pr_permission_key req) = (Inr r, iam)"
    and prepared: "prepared = (Some minutes, req, Some r)" and db1: "db1 = db\<lparr>ad_iam := iam\<rparr>"
    using p a r unfolding decide_prepare_def decide_window_def
    by (auto split: option.split_asm sum.split_asm if_split_asm prod.split_asm)
  have r1: "find_request db1 i = Some req" using r by (simp add: find_request_def db1)
  from commit_cases[OF c[unfolded prepared]] r1 a
  obtain w where w: "write_grant fresh now iam req decider True (Some r) (Some minutes) = Inr (w, ad_iam db')"
      "v = view_request db' (decided now decider decision (Some minutes) w req)"
    by (auto simp: db1)
  then have "w = Some fresh" using write_grant_Inr by blast
  then show ?thesis using that[OF m e] w by (simp add: view_request_def Let_def)
qed



text \<open>
  And without that condition it does not: the grant role is found by its key alone, so whatever
  else a role of the organization under that key allows, its own entries included, the requester
  holds it during the window as well.
\<close>

theorem approval_grants_whole_role:
  assumes "store_ok (ad_iam db)" and "find_request db i = Some req"
    and "find_role_by_key (ad_iam db) (Some (pr_organization_id req)) (grant_role_key (pr_permission_key req)) = Some q"
    and "\<lparr>er_role_id = role_id q, er_key = key, er_effect = Allow\<rparr> \<in> set (t_entries (ad_iam db))"
    and "decide_request probe fresh_role fresh now db i decider decision = (Inr v, db')" and "ap_approve decision"
    and "applies_to (request_scope req) c"
  shows "role_says now (ad_iam db') (SubjectUser (pr_requester_id req)) c key Allow"
proof -
  obtain minutes r iam where m: "MIN_GRANT_MINUTES \<le> minutes"
    and e: "ensure_grant_role probe fresh_role now (ad_iam db) (pr_organization_id req) (pr_permission_key req) = (Inr r, iam)"
    and w: "write_grant fresh now iam req decider True (Some r) (Some minutes) = Inr (Some fresh, ad_iam db')"
    by (rule decide_request_approved[OF assms(5,6,2)])
  have iam: "iam = ad_iam db" and r: "r = role_id q" using e assms(3) unfolding ensure_grant_role_def Let_def by simp_all
  let ?row = "window_row fresh now req decider r minutes"
  have q: "q \<in> set (t_roles (ad_iam db))" "role_organization_id q = Some (pr_organization_id req)"
    using assms(3) unfolding find_role_by_key_def by (auto simp: find_Some_iff)
  then have f: "find_role (ad_iam db) r = Some q" using find_role_iff[OF assms(1)] r by blast
  have vis: "visible_to (rc_organization_id c) q"
    using request_scope_organization[OF assms(7)] q(2) by (simp add: visible_to_def)
  have "row_says (ad_iam db) c key Allow ?row"
    unfolding row_says_def using f vis assms(4) r
    by (intro exI[of _ q] exI[of _ r] exI[of _ "\<lparr>er_role_id = role_id q, er_key = key, er_effect = Allow\<rparr>"]) simp
  then have s: "row_says (ad_iam db') c key Allow ?row" using row_says_frame[OF write_grant_frame(1,2)[OF w]] iam by simp
  have "now < now + seconds (60 * minutes)" using m by (simp add: MIN_GRANT_MINUTES_def seconds_def)
  then have "?row \<in> set (t_bindings (ad_iam db')) \<and> is_active_at ?row now" using write_grant_active[OF w order_refl] by blast
  then show ?thesis unfolding role_says_row using s assms(7)
    by (intro exI[of _ ?row]) (simp add: binding_reaches_def)
qed

theorem approval_grants_whole_role_witness:
  "\<exists>v db'. decide_request 0 21 30 0 (sample_approvals [''users.read'', ''users.delete'']) 1 4 one_hour = (Inr v, db') \<and>
     role_says 0 (ad_iam db') (SubjectUser 3) (context_from_scope (ScopeOrganization 7)) ''users.delete'' Allow"
proof -
  let ?db = "sample_approvals [''users.read'', ''users.delete'']"
  obtain v db' where d: "decide_request 0 21 30 0 ?db 1 4 one_hour = (Inr v, db')" using sample_decides by blast
  have q: "find_role_by_key (ad_iam ?db) (Some (pr_organization_id (sample_request 1 ''pending'')))
      (grant_role_key (pr_permission_key (sample_request 1 ''pending''))) = Some (plain_role 20 (Some 7) ''grant-users-read'')"
    by (simp add: sample_request_def sample_role_key sample_role)
  show ?thesis
    using d approval_grants_whole_role[OF sample_store_ok sample_find(1) q _ d, of "''users.delete''"
        "context_from_scope (ScopeOrganization 7)"]
    by (simp add: one_hour_def sample_request_def request_scope_def context_from_scope_def sample_approvals_def plain_role_def)
qed

subsection \<open>One grant role per permission\<close>

text \<open>Keys whose dots stand alone and not at an end; on them the sanitizer replaces each dot.\<close>

fun single_dots :: "bool \<Rightarrow> string \<Rightarrow> bool" where
  "single_dots after_dot [] = (\<not> after_dot)"
| "single_dots after_dot (c # cs) = (if c = CHR ''.'' then \<not> after_dot \<and> single_dots True cs else single_dots False cs)"

definition dash_dots :: "string \<Rightarrow> string" where
  "dash_dots = map (\<lambda>c. if c = CHR ''.'' then CHR ''-'' else c)"

lemma catalogue_single_dots: "list_all (\<lambda>key. single_dots True key \<and> length key \<le> 58) catalogue_keys"
  by (simp add: catalogue_keys_def catalogue_defs)

lemma key_char_no_dash: "key_char c \<Longrightarrow> c \<noteq> CHR ''-''"
  by (auto simp: key_char_def is_ascii_lowercase_def is_ascii_digit_def code_def)

lemma sanitize_dash_dots:
  "list_all key_char key \<Longrightarrow> single_dots after_dot key \<Longrightarrow> sanitize_key after_dot key = dash_dots key"
proof (induction key arbitrary: after_dot)
  case (Cons c cs)
  have "\<not> is_ascii_lowercase CHR ''.''" "\<not> is_ascii_digit CHR ''.''"
    by (simp_all add: is_ascii_lowercase_def is_ascii_digit_def code_def)
  then show ?case using Cons by (auto simp: dash_dots_def key_char_def split: if_split_asm)
qed (simp add: dash_dots_def)

lemma single_dots_last: "single_dots after_dot key \<Longrightarrow> key \<noteq> [] \<Longrightarrow> last key \<noteq> CHR ''.''"
proof (induction key arbitrary: after_dot)
  case (Cons c cs)
  show ?case
  proof (cases "cs = []")
    case True
    then show ?thesis using Cons.prems(1) by (cases "c = CHR ''.''") simp_all
  next
    case False
    moreover have "\<exists>a. single_dots a cs" using Cons.prems(1) by (cases "c = CHR ''.''") fastforce+
    ultimately show ?thesis using Cons.IH by fastforce
  qed
qed simp

lemma dash_dots_inj: "list_all key_char a \<Longrightarrow> list_all key_char b \<Longrightarrow> dash_dots a = dash_dots b \<Longrightarrow> a = b"
proof -
  assume a: "list_all key_char a" and b: "list_all key_char b" and "dash_dots a = dash_dots b"
  moreover have "inj_on (\<lambda>c. if c = CHR ''.'' then CHR ''-'' else c) (set a \<union> set b)"
    using a b key_char_no_dash by (auto simp: inj_on_def list_all_iff split: if_split_asm)
  ultimately show "a = b" unfolding dash_dots_def by (simp add: inj_on_map_eq_map)
qed

lemma grant_role_key_catalogued:
  assumes "key \<in> set catalogue_keys"
  shows "grant_role_key key = ''grant-'' @ dash_dots key \<and> list_all key_char key \<and> length key \<le> 58 \<and> key \<noteq> [] \<and>
    last key \<noteq> CHR ''.''"
proof -
  have k: "list_all key_char key" "single_dots True key" "length key \<le> 58" "key \<noteq> []"
    using assms catalogue_single_dots catalogue_keys_ok catalogue_key_no_star by (auto simp: list_all_iff key_ok_def)
  have l: "last key \<noteq> CHR ''.''" using single_dots_last k by blast
  have "last (dash_dots key) \<noteq> CHR ''-''"
    using k(1,4) l key_char_no_dash[of "last key"] by (simp add: dash_dots_def last_map list_all_iff)
  then have "trim_end_matches CHR ''-'' (''grant-'' @ dash_dots key) = ''grant-'' @ dash_dots key"
    using k(4) unfolding trim_end_matches_def dash_dots_def
    by (cases key rule: rev_cases) (simp_all add: rev_map)
  then show ?thesis using sanitize_dash_dots[OF k(1,2)] k l by (simp add: grant_role_key_def)
qed

lemma role_key_str_len: "list_all role_key_char s \<Longrightarrow> str_len s = length s"
  by (induction s) (auto simp: str_len_def role_key_char_def is_ascii_lowercase_def is_ascii_digit_def code_def)

text \<open>
  Every permission of the catalogue has a grant role of its own: the generated role key passes
  the role key validation unchanged, so the role can be created, and two permissions never share
  one, so an approval of one cannot hand out another.
\<close>

theorem grant_roles_separate:
  "list_all (\<lambda>key. validate_role_key (grant_role_key key) = Inr (grant_role_key key)) catalogue_keys \<and>
   inj_on grant_role_key (set catalogue_keys)"
proof
  have "validate_role_key (grant_role_key key) = Inr (grant_role_key key)" if "key \<in> set catalogue_keys" for key
  proof -
    have k: "grant_role_key key = ''grant-'' @ dash_dots key" "list_all key_char key" "length key \<le> 58" "key \<noteq> []"
        "last key \<noteq> CHR ''.''"
      using grant_role_key_catalogued[OF that] by simp_all
    have chars: "list_all role_key_char (''grant-'' @ dash_dots key)"
      using k(2) by (auto simp: list_all_iff dash_dots_def role_key_char_def key_char_def
        is_ascii_lowercase_def is_ascii_digit_def code_def)
    have "key_char (last key)" using k(2,4) by (simp add: list_all_iff)
    then have "is_ascii_lowercase (last (dash_dots key)) \<or> is_ascii_digit (last (dash_dots key))"
      using k(4,5) by (simp add: dash_dots_def last_map key_char_def)
    moreover have "str_len (''grant-'' @ dash_dots key) \<le> MAX_ROLE_KEY_LENGTH"
      unfolding role_key_str_len[OF chars] using k(3) by (simp add: dash_dots_def MAX_ROLE_KEY_LENGTH_def)
    moreover have "dash_dots key \<noteq> []" using k(4) by (simp add: dash_dots_def)
    ultimately show ?thesis
      unfolding k(1) validate_role_key_def Let_def role_key_stable[OF chars]
      using chars by (simp add: is_ascii_lowercase_def code_def)
  qed
  then show "list_all (\<lambda>key. validate_role_key (grant_role_key key) = Inr (grant_role_key key)) catalogue_keys"
    by (simp add: list_all_iff)
  show "inj_on grant_role_key (set catalogue_keys)"
  proof (rule inj_onI)
    fix a b assume a: "a \<in> set catalogue_keys" and b: "b \<in> set catalogue_keys" and "grant_role_key a = grant_role_key b"
    then have "dash_dots a = dash_dots b" using grant_role_key_catalogued by simp
    then show "a = b" using dash_dots_inj grant_role_key_catalogued[OF a] grant_role_key_catalogued[OF b] by blast
  qed
qed

end
