(* ===== verification/Subjects.thy ===== *)
theory Subjects
  imports Authorize "HOL-Library.Word"
begin

text \<open>
  The two kinds of subject besides people: groups (\<open>crates/permissions/src/groups.rs\<close>) and service
  accounts with their machine keys (\<open>service_accounts.rs\<close>). Their tables stand beside the role
  tables; \<open>t_subjects\<close> of the role tables says which subjects exist. The random strings of a new key
  are arguments, produced from random bytes by \<open>random_chars\<close>; the SHA-256 digest of a secret comes
  from a third-party crate and is the parameter \<open>hash_secret\<close>.
\<close>

subsection \<open>Tables\<close>

record group =
  group_id :: uuid
  group_organization_id :: uuid
  group_name :: string
  group_slug :: string
  group_description :: string
  group_created_at :: instant
  group_updated_at :: instant

record group_summary =
  gs_group :: group
  gs_member_count :: nat
  gs_role_count :: nat

record new_group =
  ng_organization_id :: uuid
  ng_name :: string
  ng_description :: string

record service_account =
  sa_id :: uuid
  sa_organization_id :: uuid
  sa_name :: string
  sa_description :: string
  sa_prefix :: string
  sa_created_by :: "uuid option"
  sa_last_used_at :: "instant option"
  sa_expires_at :: "instant option"
  sa_disabled_at :: "instant option"
  sa_created_at :: instant

record service_account_key =
  key_id :: uuid
  key_service_account_id :: uuid
  key_prefix :: string
  key_label :: string
  key_expires_at :: "instant option"
  key_last_used_at :: "instant option"
  key_revoked_at :: "instant option"
  key_created_at :: instant

record service_account_summary =
  ss_account :: service_account
  ss_active_keys :: nat
  ss_role_count :: nat

record new_service_account =
  ns_organization_id :: uuid
  ns_name :: string
  ns_description :: string
  ns_created_by :: "uuid option"

record issued_key =
  ik_key :: service_account_key
  ik_token :: string

record authenticated_machine =
  am_account :: service_account
  am_key :: service_account_key

text \<open>A stored key is the key and the hash of its secret, which no operation returns.\<close>

record subject_db =
  sd_iam :: iam_db
  sd_groups :: "group list"
  sd_accounts :: "service_account list"
  sd_keys :: "(service_account_key \<times> string) list"

subsection \<open>Names and slugs\<close>

definition MAX_GROUP_NAME_LENGTH :: nat where "MAX_GROUP_NAME_LENGTH = 80"

definition validate_group_name :: "string \<Rightarrow> permissions_error + string" where
  "validate_group_name raw =
     (let name = trim raw in
      if name = [] \<or> length name > MAX_GROUP_NAME_LENGTH then Inl (InvalidGroupName name) else Inr name)"

fun slug_loop :: "string \<Rightarrow> string \<Rightarrow> bool \<Rightarrow> string" where
  "slug_loop [] slug pending_dash = slug"
| "slug_loop (ch # rest) slug pending_dash =
     (if is_ascii_alphanumeric ch
      then slug_loop rest ((if pending_dash \<and> slug \<noteq> [] then slug @ ''-'' else slug) @ to_ascii_lowercase [ch]) False
      else slug_loop rest slug True)"

definition slugify :: "string \<Rightarrow> string" where
  "slugify name =
     (let slug = slug_loop name [] False in
      if slug = [] then ''group''
      else trim_end_matches CHR ''-'' (take 60 (if is_ascii_lowercase (hd slug) then slug else CHR ''g'' # slug)))"

text \<open>The check constraint \<open>groups_slug_format\<close>.\<close>

definition slug_ok :: "string \<Rightarrow> bool" where
  "slug_ok s = (s \<noteq> [] \<and> is_ascii_lowercase (hd s) \<and> last s \<noteq> CHR ''-'' \<and>
     list_all (\<lambda>c. is_ascii_lowercase c \<or> is_ascii_digit c \<or> c = CHR ''-'') s)"

subsection \<open>Groups\<close>

definition find_group :: "subject_db \<Rightarrow> uuid \<Rightarrow> group option" where
  "find_group db i = find (\<lambda>g. group_id g = i) (sd_groups db)"

text \<open>The two unique indexes, on the lower-cased name and on the slug.\<close>

definition group_clash :: "group \<Rightarrow> group \<Rightarrow> bool" where
  "group_clash g h = (group_organization_id g = group_organization_id h \<and>
     (to_lowercase (group_name g) = to_lowercase (group_name h) \<or> group_slug g = group_slug h))"

definition create_group ::
  "uuid \<Rightarrow> instant \<Rightarrow> subject_db \<Rightarrow> new_group \<Rightarrow> permissions_error + group \<times> subject_db" where
  "create_group fresh now db new =
     res_bind (validate_group_name (ng_name new)) (\<lambda>name.
       (let g = \<lparr>group_id = fresh, group_organization_id = ng_organization_id new, group_name = name,
                 group_slug = slugify name, group_description = trim (ng_description new),
                 group_created_at = now, group_updated_at = now\<rparr>
        in if \<not> slug_ok (group_slug g) then Inl DatabaseError
           else if list_ex (group_clash g) (sd_groups db) then Inl GroupNameTaken
           else if ng_organization_id new \<notin> set (t_organizations (sd_iam db)) then Inl DatabaseError
           else Inr (g, db\<lparr>sd_groups := sd_groups db @ [g],
                           sd_iam := (sd_iam db)\<lparr>t_subjects := t_subjects (sd_iam db) @ [SubjectGroup fresh]\<rparr>\<rparr>)))"

definition live_count :: "instant \<Rightarrow> iam_db \<Rightarrow> subject \<Rightarrow> nat" where
  "live_count now db s = length (filter (\<lambda>b. binding_subject b = s \<and> is_live now b) (t_bindings db))"

definition list_groups :: "instant \<Rightarrow> subject_db \<Rightarrow> uuid \<Rightarrow> group_summary list" where
  "list_groups now db organization_id =
     map (\<lambda>g. \<lparr>gs_group = g,
               gs_member_count = length (filter (\<lambda>(i, _). i = group_id g) (t_group_members (sd_iam db))),
               gs_role_count = live_count now (sd_iam db) (SubjectGroup (group_id g))\<rparr>)
       (sort_key (\<lambda>g. to_lowercase (group_name g))
         (filter (\<lambda>g. group_organization_id g = organization_id) (sd_groups db)))"

definition update_group ::
  "instant \<Rightarrow> subject_db \<Rightarrow> uuid \<Rightarrow> string option \<Rightarrow> string option \<Rightarrow> permissions_error + group \<times> subject_db" where
  "update_group now db i name description =
     (case find_group db i of
        None \<Rightarrow> Inl GroupNotFound
      | Some current \<Rightarrow>
          res_bind (case name of Some n \<Rightarrow> validate_group_name n | None \<Rightarrow> Inr (group_name current)) (\<lambda>name.
            (let g = current\<lparr>group_name := name, group_slug := slugify name,
                             group_description := (case description of None \<Rightarrow> group_description current | Some d \<Rightarrow> trim d),
                             group_updated_at := now\<rparr>
             in if \<not> slug_ok (group_slug g) then Inl DatabaseError
                else if list_ex (\<lambda>h. group_id h \<noteq> i \<and> group_clash g h) (sd_groups db) then Inl GroupNameTaken
                else Inr (g, db\<lparr>sd_groups := update_row (\<lambda>h. group_id h = i) (\<lambda>_. g) (sd_groups db)\<rparr>))))"

definition drop_subject :: "subject \<Rightarrow> iam_db \<Rightarrow> iam_db" where
  "drop_subject s db = db\<lparr>t_subjects := filter (\<lambda>x. x \<noteq> s) (t_subjects db)\<rparr>"

definition delete_group :: "instant \<Rightarrow> subject_db \<Rightarrow> uuid \<Rightarrow> bool \<times> subject_db" where
  "delete_group now db i =
     (list_ex (\<lambda>g. group_id g = i) (sd_groups db),
      db\<lparr>sd_iam := drop_subject (SubjectGroup i) ((revoke_subject_db now (SubjectGroup i) (sd_iam db))
           \<lparr>t_group_members := filter (\<lambda>(g, _). g \<noteq> i) (t_group_members (sd_iam db))\<rparr>),
         sd_groups := filter (\<lambda>g. group_id g \<noteq> i) (sd_groups db)\<rparr>)"

definition put_member :: "uuid \<Rightarrow> uuid \<Rightarrow> (uuid \<times> uuid) list \<Rightarrow> (uuid \<times> uuid) list" where
  "put_member g user members = (if (g, user) \<in> set members then members else members @ [(g, user)])"

definition add_member :: "subject_db \<Rightarrow> uuid \<Rightarrow> uuid \<Rightarrow> permissions_error + bool \<times> subject_db" where
  "add_member db g user =
     (let iam = sd_iam db in
      if (g, user) \<in> set (t_group_members iam) then Inr (False, db)
      else if SubjectGroup g \<notin> set (t_subjects iam) \<or> SubjectUser user \<notin> set (t_subjects iam) then Inl DatabaseError
      else Inr (True, db\<lparr>sd_iam := iam\<lparr>t_group_members := t_group_members iam @ [(g, user)]\<rparr>\<rparr>))"

definition remove_member :: "subject_db \<Rightarrow> uuid \<Rightarrow> uuid \<Rightarrow> bool \<times> subject_db" where
  "remove_member db g user =
     (let iam = sd_iam db in
      ((g, user) \<in> set (t_group_members iam),
       db\<lparr>sd_iam := iam\<lparr>t_group_members := filter (\<lambda>m. m \<noteq> (g, user)) (t_group_members iam)\<rparr>\<rparr>))"

definition replace_members :: "subject_db \<Rightarrow> uuid \<Rightarrow> uuid list \<Rightarrow> permissions_error + subject_db" where
  "replace_members db g users =
     (let iam = sd_iam db;
          kept = filter (\<lambda>(i, user). i \<noteq> g \<or> user \<in> set users) (t_group_members iam)
      in if list_ex (\<lambda>user. (g, user) \<notin> set kept \<and>
              (SubjectGroup g \<notin> set (t_subjects iam) \<or> SubjectUser user \<notin> set (t_subjects iam))) users
         then Inl DatabaseError
         else Inr (db\<lparr>sd_iam := iam\<lparr>t_group_members := fold (put_member g) users kept\<rparr>\<rparr>))"

definition roles_of_group :: "instant \<Rightarrow> iam_db \<Rightarrow> uuid \<Rightarrow> role_binding list" where
  "roles_of_group now db g = filter (\<lambda>b. is_active_at b now) (bindings_of_subject db (SubjectGroup g))"

subsection \<open>Service accounts\<close>

definition MAX_NAME_LENGTH :: nat where "MAX_NAME_LENGTH = 80"
definition TOKEN_NAMESPACE :: string where "TOKEN_NAMESPACE = ''omsa''"
definition PREFIX_LENGTH :: nat where "PREFIX_LENGTH = 10"
definition SECRET_LENGTH :: nat where "SECRET_LENGTH = 32"

definition account_is_active_at :: "service_account \<Rightarrow> instant \<Rightarrow> bool" where
  "account_is_active_at a now =
     (sa_disabled_at a = None \<and> (case sa_expires_at a of None \<Rightarrow> True | Some e \<Rightarrow> e > now))"

definition key_is_active_at :: "service_account_key \<Rightarrow> instant \<Rightarrow> bool" where
  "key_is_active_at k now =
     (key_revoked_at k = None \<and> (case key_expires_at k of None \<Rightarrow> True | Some e \<Rightarrow> e > now))"

definition validate_account_name :: "string \<Rightarrow> permissions_error + string" where
  "validate_account_name raw =
     (let name = trim raw in
      if name = [] \<or> length name > MAX_NAME_LENGTH then Inl (InvalidServiceAccountName name) else Inr name)"

definition ALPHABET :: string where
  "ALPHABET = ''abcdefghijklmnopqrstuvwxyz0123456789''"

definition random_chars :: "8 word list \<Rightarrow> string" where
  "random_chars bytes = map (\<lambda>byte. ALPHABET ! (unat byte mod length ALPHABET)) bytes"

definition create_account ::
  "uuid \<Rightarrow> string \<Rightarrow> instant \<Rightarrow> subject_db \<Rightarrow> new_service_account \<Rightarrow> permissions_error + service_account \<times> subject_db" where
  "create_account fresh prefix now db new =
     res_bind (validate_account_name (ns_name new)) (\<lambda>name.
       (let a = \<lparr>sa_id = fresh, sa_organization_id = ns_organization_id new, sa_name = name,
                 sa_description = trim (ns_description new), sa_prefix = prefix, sa_created_by = ns_created_by new,
                 sa_last_used_at = None, sa_expires_at = None, sa_disabled_at = None, sa_created_at = now\<rparr>
        in if list_ex (\<lambda>b. sa_prefix b = prefix \<or> sa_organization_id b = sa_organization_id a \<and>
                 to_lowercase (sa_name b) = to_lowercase name) (sd_accounts db) then Inl ServiceAccountNameTaken
           else if ns_organization_id new \<notin> set (t_organizations (sd_iam db)) then Inl DatabaseError
           else Inr (a, db\<lparr>sd_accounts := sd_accounts db @ [a],
                           sd_iam := (sd_iam db)\<lparr>t_subjects := t_subjects (sd_iam db) @ [SubjectServiceAccount fresh]\<rparr>\<rparr>)))"

definition list_accounts :: "instant \<Rightarrow> subject_db \<Rightarrow> uuid \<Rightarrow> service_account_summary list" where
  "list_accounts now db organization_id =
     map (\<lambda>a. \<lparr>ss_account = a,
               ss_active_keys = length (filter (\<lambda>(k, _). key_service_account_id k = sa_id a \<and> key_is_active_at k now) (sd_keys db)),
               ss_role_count = live_count now (sd_iam db) (SubjectServiceAccount (sa_id a))\<rparr>)
       (sort_key (\<lambda>a. to_lowercase (sa_name a))
         (filter (\<lambda>a. sa_organization_id a = organization_id) (sd_accounts db)))"

definition find_account :: "subject_db \<Rightarrow> uuid \<Rightarrow> service_account option" where
  "find_account db i = find (\<lambda>a. sa_id a = i) (sd_accounts db)"

definition delete_account :: "instant \<Rightarrow> subject_db \<Rightarrow> uuid \<Rightarrow> bool \<times> subject_db" where
  "delete_account now db i =
     (list_ex (\<lambda>a. sa_id a = i) (sd_accounts db),
      db\<lparr>sd_iam := drop_subject (SubjectServiceAccount i) (revoke_subject_db now (SubjectServiceAccount i) (sd_iam db)),
         sd_accounts := filter (\<lambda>a. sa_id a \<noteq> i) (sd_accounts db),
         sd_keys := filter (\<lambda>(k, _). key_service_account_id k \<noteq> i) (sd_keys db)\<rparr>)"

definition issue_key ::
  "(string \<Rightarrow> string) \<Rightarrow> uuid \<Rightarrow> string \<Rightarrow> string \<Rightarrow> instant \<Rightarrow> subject_db \<Rightarrow> uuid \<Rightarrow> string \<Rightarrow> instant option \<Rightarrow>
   permissions_error + issued_key \<times> subject_db" where
  "issue_key hash_secret fresh prefix secret now db account label expires =
     (case find_account db account of
        None \<Rightarrow> Inl ServiceAccountNotFound
      | Some a \<Rightarrow>
          (let token = TOKEN_NAMESPACE @ ''_'' @ prefix @ ''_'' @ secret;
               k = \<lparr>key_id = fresh, key_service_account_id = sa_id a, key_prefix = prefix, key_label = trim label,
                    key_expires_at = expires, key_last_used_at = None, key_revoked_at = None, key_created_at = now\<rparr>
           in if list_ex (\<lambda>(k', _). key_prefix k' = prefix) (sd_keys db) then Inl DatabaseError
              else Inr (\<lparr>ik_key = k, ik_token = token\<rparr>, db\<lparr>sd_keys := sd_keys db @ [(k, hash_secret secret)]\<rparr>)))"

definition revoke_key :: "instant \<Rightarrow> subject_db \<Rightarrow> uuid \<Rightarrow> uuid \<Rightarrow> bool \<times> subject_db" where
  "revoke_key now db account i =
     (let hits = (\<lambda>(k, _). key_id k = i \<and> key_service_account_id k = account \<and> key_revoked_at k = None) in
      (list_ex hits (sd_keys db),
       db\<lparr>sd_keys := update_row hits (\<lambda>(k, h). (k\<lparr>key_revoked_at := Some now\<rparr>, h)) (sd_keys db)\<rparr>))"

definition list_keys :: "subject_db \<Rightarrow> uuid \<Rightarrow> service_account_key list" where
  "list_keys db account =
     sort_key (\<lambda>k. ((if key_revoked_at k = None then 0 else 1 :: nat), - key_created_at k, - int (key_id k)))
       (filter (\<lambda>k. key_service_account_id k = account) (map fst (sd_keys db)))"

definition token_char :: "char \<Rightarrow> bool" where
  "token_char ch = (is_ascii_lowercase ch \<or> is_ascii_digit ch)"

definition split_token :: "string \<Rightarrow> (string \<times> string) option" where
  "split_token token =
     (case strip_prefix (TOKEN_NAMESPACE @ ''_'') token of
        None \<Rightarrow> None
      | Some rest \<Rightarrow>
          (case split_once CHR ''_'' rest of
             None \<Rightarrow> None
           | Some (prefix, secret) \<Rightarrow>
               if str_len prefix \<noteq> PREFIX_LENGTH \<or> str_len secret \<noteq> SECRET_LENGTH then None
               else if \<not> list_all token_char prefix then None
               else if \<not> list_all token_char secret then None
               else Some (prefix, secret)))"

definition byte :: "char \<Rightarrow> 8 word" where
  "byte c = word_of_nat (code c)"

definition constant_time_eq :: "8 word list \<Rightarrow> 8 word list \<Rightarrow> bool" where
  "constant_time_eq left right =
     (if length left \<noteq> length right then False
      else fold (\<lambda>(a, b) diff. or diff (xor a b)) (zip left right) 0 = 0)"

definition record_use :: "instant \<Rightarrow> service_account_key \<Rightarrow> service_account \<Rightarrow> subject_db \<Rightarrow> subject_db" where
  "record_use now k a db =
     db\<lparr>sd_keys := update_row (\<lambda>(k', _). key_id k' = key_id k)
            (\<lambda>(k', h). (k'\<lparr>key_last_used_at := Some now\<rparr>, h)) (sd_keys db),
        sd_accounts := update_row (\<lambda>a'. sa_id a' = sa_id a)
            (\<lambda>a'. a'\<lparr>sa_last_used_at := Some now\<rparr>) (sd_accounts db)\<rparr>"

definition authenticate ::
  "(string \<Rightarrow> string) \<Rightarrow> instant \<Rightarrow> subject_db \<Rightarrow> string \<Rightarrow> authenticated_machine option \<times> subject_db" where
  "authenticate hash_secret now db token =
     (case split_token token of
        None \<Rightarrow> (None, db)
      | Some (prefix, secret) \<Rightarrow>
          (case find (\<lambda>(k, _). key_prefix k = prefix \<and> find_account db (key_service_account_id k) \<noteq> None) (sd_keys db) of
             None \<Rightarrow> (None, db)
           | Some (k, stored) \<Rightarrow>
               (case find_account db (key_service_account_id k) of
                  None \<Rightarrow> (None, db)
                | Some a \<Rightarrow>
                    if \<not> constant_time_eq (map byte (hash_secret secret)) (map byte stored) then (None, db)
                    else if \<not> account_is_active_at a now \<or> \<not> key_is_active_at k now then (None, db)
                    else (Some \<lparr>am_account = a, am_key = k\<rparr>, record_use now k a db))))"

subsection \<open>Comparing digests\<close>

lemma xor_zero_iff: "xor a b = 0 \<longleftrightarrow> a = b" for a b :: "8 word"
  by (metis bit.xor_self bit.xor_left_self)

lemma diff_fold: "fold (\<lambda>(a, b) diff. or diff (xor a b)) ps d = 0 \<longleftrightarrow> d = 0 \<and> (\<forall>(a, b) \<in> set ps. a = b)"
  for ps :: "(8 word \<times> 8 word) list"
  by (induction ps arbitrary: d) (auto simp: or_eq_0_iff xor_zero_iff)

lemma constant_time_eq_iff: "constant_time_eq left right \<longleftrightarrow> left = right"
  by (auto simp: constant_time_eq_def diff_fold list_eq_iff_zip_eq split: if_split_asm)

lemma byte_eq_iff: "byte a = byte b \<longleftrightarrow> a = b"
proof
  assume "byte a = byte b"
  moreover have "code a < 256" "code b < 256" by (simp_all add: code_def)
  ultimately have "code a = code b" by (simp add: byte_def word_of_nat_eq_iff take_bit_nat_def)
  then show "a = b" by (simp add: code_def)
qed simp

lemma bytes_eq_iff: "map byte a = map byte b \<longleftrightarrow> a = b"
  by (rule inj_map_eq_map) (auto simp: inj_def byte_eq_iff)

subsection \<open>Tokens\<close>

lemma token_chars: "list_all token_char s \<Longrightarrow> CHR ''_'' \<notin> set s \<and> str_len s = length s"
  by (induction s) (auto simp: str_len_def token_char_def is_ascii_lowercase_def is_ascii_digit_def code_def)

lemma alphabet_token: "list_all token_char ALPHABET"
  by (simp add: ALPHABET_def token_char_def is_ascii_lowercase_def is_ascii_digit_def code_def)

lemma random_chars_shape: "list_all token_char (random_chars bytes) \<and> length (random_chars bytes) = length bytes"
proof -
  have "length ALPHABET = 36" by (simp add: ALPHABET_def)
  then have "ALPHABET ! (n mod length ALPHABET) \<in> set ALPHABET" for n by (intro nth_mem) simp
  then show ?thesis using alphabet_token by (simp add: random_chars_def list_all_iff)
qed

definition token_of :: "string \<Rightarrow> string \<Rightarrow> string" where
  "token_of prefix secret = TOKEN_NAMESPACE @ ''_'' @ prefix @ ''_'' @ secret"

definition well_shaped :: "string \<Rightarrow> string \<Rightarrow> bool" where
  "well_shaped prefix secret \<longleftrightarrow> length prefix = PREFIX_LENGTH \<and> length secret = SECRET_LENGTH \<and>
     list_all token_char prefix \<and> list_all token_char secret"

lemma split_token_iff: "split_token token = Some (prefix, secret) \<longleftrightarrow> token = token_of prefix secret \<and> well_shaped prefix secret"
proof
  assume t: "split_token token = Some (prefix, secret)"
  then obtain rest where r: "token = (TOKEN_NAMESPACE @ ''_'') @ rest" and o: "split_once CHR ''_'' rest = Some (prefix, secret)"
    and c: "str_len prefix = PREFIX_LENGTH" "str_len secret = SECRET_LENGTH" "list_all token_char prefix" "list_all token_char secret"
    unfolding split_token_def strip_prefix_def starts_with_append
    by (auto split: option.split_asm if_split_asm prod.split_asm)
  from split_once_Some[OF o] have "rest = prefix @ CHR ''_'' # secret" by simp
  then show "token = token_of prefix secret \<and> well_shaped prefix secret"
    using r c by (simp add: token_of_def well_shaped_def token_chars)
next
  assume a: "token = token_of prefix secret \<and> well_shaped prefix secret"
  then have w: "CHR ''_'' \<notin> set prefix" "str_len prefix = PREFIX_LENGTH" "str_len secret = SECRET_LENGTH"
      "list_all token_char prefix" "list_all token_char secret"
    by (simp_all add: well_shaped_def token_chars)
  have "strip_prefix (TOKEN_NAMESPACE @ ''_'') token = Some (prefix @ CHR ''_'' # secret)"
    using a by (auto simp: strip_prefix_def starts_with_append token_of_def)
  then show "split_token token = Some (prefix, secret)" using w by (simp add: split_token_def)
qed

subsection \<open>Who a token authenticates\<close>

text \<open>The unique prefix, the primary keys and the foreign key of the tables.\<close>

definition keys_ok :: "subject_db \<Rightarrow> bool" where
  "keys_ok db \<longleftrightarrow> distinct (map (\<lambda>(k, _). key_prefix k) (sd_keys db)) \<and>
     distinct (map (\<lambda>(k, _). key_id k) (sd_keys db)) \<and> distinct (map sa_id (sd_accounts db)) \<and>
     (\<forall>(k, h) \<in> set (sd_keys db). find_account db (key_service_account_id k) \<noteq> None)"

lemma find_unique:
  assumes "distinct (map f xs)" and "x \<in> set xs" and "f x = y" and "P x"
  shows "find (\<lambda>x. f x = y \<and> P x) xs = Some x"
  using assms by (induction xs) (force+)

lemma find_key:
  assumes "keys_ok db"
  shows "find (\<lambda>(k, _). key_prefix k = prefix \<and> find_account db (key_service_account_id k) \<noteq> None) (sd_keys db) = Some (k, h) \<longleftrightarrow>
    (k, h) \<in> set (sd_keys db) \<and> key_prefix k = prefix"
proof -
  let ?f = "\<lambda>(k :: service_account_key, _ :: string). key_prefix k"
  let ?P = "\<lambda>(k, _ :: string). find_account db (key_service_account_id k) \<noteq> None"
  have e: "(\<lambda>(k, _). key_prefix k = prefix \<and> find_account db (key_service_account_id k) \<noteq> None) = (\<lambda>x. ?f x = prefix \<and> ?P x)"
    by (simp add: case_prod_unfold)
  show ?thesis unfolding e
  proof
    assume "find (\<lambda>x. ?f x = prefix \<and> ?P x) (sd_keys db) = Some (k, h)"
    from find_Some_mem[OF this] show "(k, h) \<in> set (sd_keys db) \<and> key_prefix k = prefix" by simp
  next
    assume k: "(k, h) \<in> set (sd_keys db) \<and> key_prefix k = prefix"
    then have "?P (k, h)" using assms by (auto simp: keys_ok_def)
    then show "find (\<lambda>x. ?f x = prefix \<and> ?P x) (sd_keys db) = Some (k, h)"
      using assms k by (intro find_unique) (auto simp: keys_ok_def)
  qed
qed

lemma authenticate_iff:
  assumes "keys_ok db"
  shows "fst (authenticate hash_secret now db token) = Some m \<longleftrightarrow>
    (\<exists>secret. token = token_of (key_prefix (am_key m)) secret \<and> well_shaped (key_prefix (am_key m)) secret \<and>
       (am_key m, hash_secret secret) \<in> set (sd_keys db) \<and>
       find_account db (key_service_account_id (am_key m)) = Some (am_account m) \<and>
       account_is_active_at (am_account m) now \<and> key_is_active_at (am_key m) now)"
proof
  assume "fst (authenticate hash_secret now db token) = Some m"
  then obtain prefix secret k h a where t: "split_token token = Some (prefix, secret)"
    and f: "find (\<lambda>(k, _). key_prefix k = prefix \<and> find_account db (key_service_account_id k) \<noteq> None) (sd_keys db) = Some (k, h)"
    and a: "find_account db (key_service_account_id k) = Some a" and c: "constant_time_eq (map byte (hash_secret secret)) (map byte h)"
    and x: "account_is_active_at a now" "key_is_active_at k now" "m = \<lparr>am_account = a, am_key = k\<rparr>"
    unfolding authenticate_def by (auto split: option.split_asm if_split_asm prod.split_asm)
  have "h = hash_secret secret" using c by (simp add: constant_time_eq_iff bytes_eq_iff)
  then show "\<exists>secret. token = token_of (key_prefix (am_key m)) secret \<and> well_shaped (key_prefix (am_key m)) secret \<and>
       (am_key m, hash_secret secret) \<in> set (sd_keys db) \<and>
       find_account db (key_service_account_id (am_key m)) = Some (am_account m) \<and>
       account_is_active_at (am_account m) now \<and> key_is_active_at (am_key m) now"
    using t f a x unfolding split_token_iff find_key[OF assms] by auto
next
  assume "\<exists>secret. token = token_of (key_prefix (am_key m)) secret \<and> well_shaped (key_prefix (am_key m)) secret \<and>
       (am_key m, hash_secret secret) \<in> set (sd_keys db) \<and>
       find_account db (key_service_account_id (am_key m)) = Some (am_account m) \<and>
       account_is_active_at (am_account m) now \<and> key_is_active_at (am_key m) now"
  then obtain secret where t: "split_token token = Some (key_prefix (am_key m), secret)"
    and k: "(am_key m, hash_secret secret) \<in> set (sd_keys db)"
    and a: "find_account db (key_service_account_id (am_key m)) = Some (am_account m)"
    and x: "account_is_active_at (am_account m) now" "key_is_active_at (am_key m) now"
    unfolding split_token_iff by blast
  have f: "find (\<lambda>(k, _). key_prefix k = key_prefix (am_key m) \<and> find_account db (key_service_account_id k) \<noteq> None) (sd_keys db) =
      Some (am_key m, hash_secret secret)"
    unfolding find_key[OF assms] using k by simp
  show "fst (authenticate hash_secret now db token) = Some m"
    unfolding authenticate_def t option.case prod.case f a using x by (simp add: constant_time_eq_iff)
qed

text \<open>
  C13. A machine is authenticated exactly when it presents a live key: a well-formed token whose
  prefix belongs to a stored key with the digest of its secret, the key neither revoked nor expired
  and its account neither disabled nor expired. The constant-time comparison is plain equality.
\<close>

theorem authenticate_exact:
  assumes "keys_ok db"
  shows "fst (authenticate hash_secret now db token) = Some m \<longleftrightarrow>
    (\<exists>secret. token = token_of (key_prefix (am_key m)) secret \<and> well_shaped (key_prefix (am_key m)) secret \<and>
       (am_key m, hash_secret secret) \<in> set (sd_keys db) \<and>
       find_account db (key_service_account_id (am_key m)) = Some (am_account m) \<and>
       account_is_active_at (am_account m) now \<and> key_is_active_at (am_key m) now)"
  by (rule authenticate_iff[OF assms])

definition ci_account :: service_account where
  "ci_account = \<lparr>sa_id = 5, sa_organization_id = 7, sa_name = ''ci'', sa_description = [], sa_prefix = [],
     sa_created_by = None, sa_last_used_at = None, sa_expires_at = None, sa_disabled_at = None, sa_created_at = 0\<rparr>"

definition ci_key :: service_account_key where
  "ci_key = \<lparr>key_id = 1, key_service_account_id = 5, key_prefix = replicate 10 CHR ''a'', key_label = [],
     key_expires_at = Some 9, key_last_used_at = None, key_revoked_at = None, key_created_at = 0\<rparr>"

definition machine_db :: "(service_account_key \<times> string) list \<Rightarrow> subject_db" where
  "machine_db keys = \<lparr>sd_iam = empty_db\<lparr>t_subjects := [SubjectServiceAccount 5]\<rparr>, sd_groups = [], sd_accounts = [ci_account], sd_keys = keys\<rparr>"

lemma machine_keys_ok: "keys_ok (machine_db [(ci_key, h)])" "keys_ok (machine_db [])"
  by (simp_all add: keys_ok_def machine_db_def find_account_def ci_account_def ci_key_def)

theorem authenticate_exact_witness:
  "fst (authenticate id 0 (machine_db [(ci_key, replicate 32 CHR ''b'')])
     (token_of (replicate 10 CHR ''a'') (replicate 32 CHR ''b''))) = Some \<lparr>am_account = ci_account, am_key = ci_key\<rparr>"
  unfolding authenticate_exact[OF machine_keys_ok(1)]
  by (intro exI[of _ "replicate 32 CHR ''b''"])
    (simp add: ci_key_def well_shaped_def PREFIX_LENGTH_def SECRET_LENGTH_def machine_db_def find_account_def
      ci_account_def account_is_active_at_def key_is_active_at_def token_char_def is_ascii_lowercase_def code_def
      list_all_iff)

lemma issue_key_Inr:
  assumes "issue_key hash_secret fresh prefix secret now db account label expires = Inr (ik, db')"
  shows "\<exists>a. find_account db account = Some a \<and> ik_token ik = token_of prefix secret \<and>
    key_id (ik_key ik) = fresh \<and> key_prefix (ik_key ik) = prefix \<and> key_service_account_id (ik_key ik) = account \<and>
    key_expires_at (ik_key ik) = expires \<and> key_revoked_at (ik_key ik) = None \<and>
    prefix \<notin> (\<lambda>(k, _). key_prefix k) ` set (sd_keys db) \<and> db' = db\<lparr>sd_keys := sd_keys db @ [(ik_key ik, hash_secret secret)]\<rparr>"
proof -
  obtain a where a: "find_account db account = Some a"
    using assms by (cases "find_account db account") (simp_all add: issue_key_def)
  then have "sa_id a = account" using find_Some_mem unfolding find_account_def by fastforce
  then show ?thesis using assms a
    by (auto simp: issue_key_def Let_def token_of_def list_ex_iff split: if_split_asm)
qed

lemma issue_key_ok:
  assumes "keys_ok db" and "fresh \<notin> (\<lambda>(k, _). key_id k) ` set (sd_keys db)"
    and "issue_key hash_secret fresh prefix secret now db account label expires = Inr (ik, db')"
  shows "keys_ok db'"
proof -
  obtain a where x: "find_account db account = Some a" "key_id (ik_key ik) = fresh" "key_prefix (ik_key ik) = prefix"
      "key_service_account_id (ik_key ik) = account" "prefix \<notin> (\<lambda>(k, _). key_prefix k) ` set (sd_keys db)"
      "db' = db\<lparr>sd_keys := sd_keys db @ [(ik_key ik, hash_secret secret)]\<rparr>"
    using issue_key_Inr[OF assms(3)] by blast
  have "find_account db' = find_account db" by (intro ext) (simp add: x(6) find_account_def)
  then show ?thesis using assms(1,2) x unfolding keys_ok_def by auto
qed

lemma revoke_key_rows:
  "set (sd_keys (snd (revoke_key now db account i))) =
   (\<lambda>(k, h). (if key_id k = i \<and> key_service_account_id k = account \<and> key_revoked_at k = None
               then k\<lparr>key_revoked_at := Some now\<rparr> else k, h)) ` set (sd_keys db)"
  by (force simp: revoke_key_def Let_def update_row_def case_prod_unfold)

lemma revoke_key_ok: "keys_ok db \<Longrightarrow> keys_ok (snd (revoke_key now db account i))"
proof -
  let ?db = "snd (revoke_key now db account i)"
  assume ok: "keys_ok db"
  have m: "map (\<lambda>(k, _). f k) (sd_keys ?db) = map (\<lambda>(k, _). f k) (sd_keys db)"
    if "\<And>k. f (k\<lparr>key_revoked_at := Some now\<rparr>) = f k" for f :: "service_account_key \<Rightarrow> 'x"
    using that by (auto simp: revoke_key_def Let_def update_row_def case_prod_unfold comp_def)
  have "find_account ?db = find_account db" "sd_accounts ?db = sd_accounts db"
    by (auto simp: revoke_key_def Let_def find_account_def)
  then show ?thesis using ok m[of key_prefix] m[of key_id] unfolding keys_ok_def revoke_key_rows by auto
qed

text \<open>
  The life of a machine key: the token handed out when a key is issued authenticates its account
  from then on for as long as account and key last, and from the moment the key is revoked no token
  authenticates with it any more.
\<close>

theorem machine_key_lifecycle:
  assumes "keys_ok db" and "fresh \<notin> (\<lambda>(k, _). key_id k) ` set (sd_keys db)"
    and "issue_key hash_secret fresh (random_chars pbytes) (random_chars sbytes) now db account label expires = Inr (ik, db')"
    and "length pbytes = 10" and "length sbytes = 32"
  shows "(\<exists>a. find_account db account = Some a \<and>
      (\<forall>t. account_is_active_at a t \<and> (\<forall>e. expires = Some e \<longrightarrow> t < e) \<longrightarrow>
         fst (authenticate hash_secret t db' (ik_token ik)) = Some \<lparr>am_account = a, am_key = ik_key ik\<rparr>)) \<and>
    (\<forall>t token m. fst (authenticate hash_secret t (snd (revoke_key now' db' account fresh)) token) = Some m \<longrightarrow>
       key_id (am_key m) \<noteq> fresh)"
proof
  obtain a where a: "find_account db account = Some a"
    and k: "ik_token ik = token_of (random_chars pbytes) (random_chars sbytes)" "key_id (ik_key ik) = fresh"
      "key_prefix (ik_key ik) = random_chars pbytes" "key_service_account_id (ik_key ik) = account"
      "key_expires_at (ik_key ik) = expires" "key_revoked_at (ik_key ik) = None"
    and db': "db' = db\<lparr>sd_keys := sd_keys db @ [(ik_key ik, hash_secret (random_chars sbytes))]\<rparr>"
    using issue_key_Inr[OF assms(3)] by blast
  have ok: "keys_ok db'" using issue_key_ok[OF assms(1-3)] .
  have w: "well_shaped (random_chars pbytes) (random_chars sbytes)"
    using random_chars_shape assms(4,5) by (simp add: well_shaped_def PREFIX_LENGTH_def SECRET_LENGTH_def)
  have a': "find_account db' account = Some a" using a by (simp add: db' find_account_def)
  have "fst (authenticate hash_secret t db' (ik_token ik)) = Some \<lparr>am_account = a, am_key = ik_key ik\<rparr>"
    if "account_is_active_at a t" "\<forall>e. expires = Some e \<longrightarrow> t < e" for t
    unfolding authenticate_iff[OF ok] using that w k a'
    by (intro exI[of _ "random_chars sbytes"]) (simp add: db' key_is_active_at_def split: option.split)
  then show "\<exists>a. find_account db account = Some a \<and>
      (\<forall>t. account_is_active_at a t \<and> (\<forall>e. expires = Some e \<longrightarrow> t < e) \<longrightarrow>
         fst (authenticate hash_secret t db' (ik_token ik)) = Some \<lparr>am_account = a, am_key = ik_key ik\<rparr>)"
    using a by blast
  let ?db = "snd (revoke_key now' db' account fresh)"
  have "key_revoked_at q \<noteq> None" if q: "(q, h) \<in> set (sd_keys ?db)" "key_id q = fresh" for q h
  proof -
    obtain k0 where k0: "(k0, h) \<in> set (sd_keys db')" "q = (if key_id k0 = fresh \<and> key_service_account_id k0 = account \<and>
        key_revoked_at k0 = None then k0\<lparr>key_revoked_at := Some now'\<rparr> else k0)"
      using q(1) unfolding revoke_key_rows by auto
    then have "key_id k0 = fresh" using q(2) by (auto split: if_split_asm)
    then have "k0 = ik_key ik" using k0(1) assms(2) by (force simp: db')
    then show ?thesis using k0(2) k by simp
  qed
  then show "\<forall>t token m. fst (authenticate hash_secret t ?db token) = Some m \<longrightarrow> key_id (am_key m) \<noteq> fresh"
    unfolding authenticate_iff[OF revoke_key_ok[OF ok]] key_is_active_at_def by blast
qed

theorem machine_key_lifecycle_witness:
  "\<exists>ik db'. issue_key id 1 (random_chars (replicate 10 0)) (random_chars (replicate 32 1)) 0 (machine_db []) 5 [] (Some 9) = Inr (ik, db') \<and>
     fst (authenticate id 8 db' (ik_token ik)) = Some \<lparr>am_account = ci_account, am_key = ik_key ik\<rparr>"
proof -
  obtain ik db' where i: "issue_key id 1 (random_chars (replicate 10 0)) (random_chars (replicate 32 1)) 0 (machine_db []) 5 [] (Some 9) = Inr (ik, db')"
    by (simp add: issue_key_def machine_db_def find_account_def ci_account_def Let_def)
  have "find_account (machine_db []) 5 = Some ci_account" by (simp add: find_account_def machine_db_def ci_account_def)
  moreover have "account_is_active_at ci_account 8" by (simp add: account_is_active_at_def ci_account_def)
  ultimately show ?thesis
    using i machine_key_lifecycle[OF machine_keys_ok(2) _ i] by (simp add: machine_db_def)
qed

subsection \<open>Slugs\<close>

definition slug_chars :: "string \<Rightarrow> bool" where
  "slug_chars s \<longleftrightarrow> list_all (\<lambda>c. is_ascii_lowercase c \<or> is_ascii_digit c \<or> c = CHR ''-'') s \<and>
     (s = [] \<or> hd s \<noteq> CHR ''-'')"

lemma alphanumeric_lower:
  assumes "is_ascii_alphanumeric ch"
  shows "\<exists>d. to_ascii_lowercase [ch] = [d] \<and> (is_ascii_lowercase d \<or> is_ascii_digit d) \<and> d \<noteq> CHR ''-''"
proof -
  have "\<exists>d. to_ascii_lowercase [ch] = [d] \<and> (is_ascii_lowercase d \<or> is_ascii_digit d)"
    using assms
    by (auto simp: is_ascii_alphanumeric_def is_ascii_alphabetic_def to_ascii_lowercase_def is_ascii_lowercase_def
      is_ascii_uppercase_def is_ascii_digit_def code_def)
  moreover have "is_ascii_lowercase d \<or> is_ascii_digit d \<Longrightarrow> d \<noteq> CHR ''-''" for d
    by (auto simp: is_ascii_lowercase_def is_ascii_digit_def code_def)
  ultimately show ?thesis by blast
qed

lemma slug_loop_chars: "slug_chars slug \<Longrightarrow> slug_chars (slug_loop name slug pending)"
proof (induction name slug pending rule: slug_loop.induct)
  case (2 ch rest slug pending)
  show ?case
  proof (cases "is_ascii_alphanumeric ch")
    case True
    then obtain d where d: "to_ascii_lowercase [ch] = [d]" "is_ascii_lowercase d \<or> is_ascii_digit d" "d \<noteq> CHR ''-''"
      using alphanumeric_lower by blast
    have "slug_chars ((if pending \<and> slug \<noteq> [] then slug @ ''-'' else slug) @ [d])"
      using "2.prems" d(2,3) by (cases slug) (auto simp: slug_chars_def)
    then show ?thesis using "2.IH"(1)[OF True] True d(1) by simp
  next
    case False
    then show ?thesis using 2 by simp
  qed
qed simp

lemma trim_end_matches_parts: "\<exists>n. s = trim_end_matches c s @ replicate n c \<and>
  (trim_end_matches c s = [] \<or> last (trim_end_matches c s) \<noteq> c)"
proof (induction s rule: rev_induct)
  case (snoc x s)
  then obtain n where n: "s = trim_end_matches c s @ replicate n c" "trim_end_matches c s = [] \<or> last (trim_end_matches c s) \<noteq> c"
    by blast
  show ?case
  proof (cases "x = c")
    case True
    then have "trim_end_matches c (s @ [x]) = trim_end_matches c s" by (simp add: trim_end_matches_def)
    then show ?thesis using n True by (intro exI[of _ "Suc n"]) (simp add: replicate_append_same[symmetric])
  next
    case False
    then show ?thesis by (intro exI[of _ 0]) (simp add: trim_end_matches_def)
  qed
qed (simp add: trim_end_matches_def)

lemma slugify_slug_ok: "slug_ok (slugify name) \<and> length (slugify name) \<le> 60"
proof (cases "slug_loop name [] False = []")
  case True
  then show ?thesis
    by (simp add: slugify_def slug_ok_def is_ascii_lowercase_def is_ascii_digit_def code_def)
next
  case False
  let ?s = "slug_loop name [] False"
  define t where "t = (if is_ascii_lowercase (hd ?s) then ?s else CHR ''g'' # ?s)"
  define u where "u = trim_end_matches CHR ''-'' (take 60 t)"
  have slug: "slugify name = u" using False by (simp add: slugify_def Let_def t_def u_def)
  have s: "slug_chars ?s" by (rule slug_loop_chars) (simp add: slug_chars_def)
  have g: "is_ascii_lowercase CHR ''g''" by (simp add: is_ascii_lowercase_def code_def)
  have t: "is_ascii_lowercase (hd t)" "t \<noteq> []"
      "list_all (\<lambda>c. is_ascii_lowercase c \<or> is_ascii_digit c \<or> c = CHR ''-'') t"
    using s False g by (simp_all add: t_def slug_chars_def)
  obtain n where n: "take 60 t = u @ replicate n CHR ''-''" "u = [] \<or> last u \<noteq> CHR ''-''"
    using trim_end_matches_parts unfolding u_def by blast
  have h: "hd (take 60 t) = hd t" using t(2) by (cases t) simp_all
  have ne: "u \<noteq> []"
  proof
    assume "u = []"
    then have "take 60 t = replicate n CHR ''-''" using n(1) by simp
    moreover have "take 60 t \<noteq> []" using t(2) by simp
    ultimately have "hd t = CHR ''-''" using h by (cases n) simp_all
    then show False using t(1) by (simp add: is_ascii_lowercase_def code_def)
  qed
  have "hd u = hd t" using h ne unfolding n(1) by simp
  moreover have "set u \<subseteq> set t" using set_take_subset[of 60 t] unfolding n(1) by simp
  moreover have "length u \<le> 60"
  proof -
    have "length (take 60 t) \<le> 60" by simp
    then show ?thesis unfolding n(1) by simp
  qed
  ultimately show ?thesis unfolding slug slug_ok_def using ne n(2) t(1,3) by (simp add: list_all_iff subset_iff)
qed

text \<open>
  Every group name gives a slug the schema accepts: a letter first, then lowercase letters, digits
  and single separators, no dash at the end, at most sixty characters, whatever the name is.
\<close>

theorem slugify_wellformed: "slug_ok (slugify name) \<and> length (slugify name) \<le> 60"
  by (rule slugify_slug_ok)

subsection \<open>What groups grant\<close>

lemma put_members_mem: "m \<in> set (fold (put_member g) users members) \<longleftrightarrow> m \<in> set members \<or> (\<exists>user \<in> set users. m = (g, user))"
  by (induction users arbitrary: members) (auto simp: put_member_def)

lemma replace_members_mem:
  assumes "replace_members db g users = Inr db'"
  shows "(i, user) \<in> set (t_group_members (sd_iam db')) \<longleftrightarrow>
      (if i = g then user \<in> set users else (i, user) \<in> set (t_group_members (sd_iam db)))"
    and "t_bindings (sd_iam db') = t_bindings (sd_iam db)"
  using assms by (auto simp: replace_members_def Let_def put_members_mem split: if_split_asm)

text \<open>
  Membership is exactly what was asked for and takes effect at once: after a replacement the
  bindings that speak for a person are their own, those of the other groups they were in, and those
  of the replaced group if and only if the new list names them.
\<close>

theorem replace_members_effect:
  assumes "replace_members db g users = Inr db'"
  shows "set (active_for_context t (sd_iam db') (SubjectUser user) c) =
    {b \<in> set (t_bindings (sd_iam db)). is_active_at b t \<and> applies_to (binding_scope b) c \<and>
       (binding_subject b = SubjectUser user \<or>
        (\<exists>i. binding_subject b = SubjectGroup i \<and>
           (if i = g then user \<in> set users else (i, user) \<in> set (t_group_members (sd_iam db)))))}"
  by (auto simp: active_mem binding_reaches_def replace_members_mem[OF assms] split: if_splits)

definition team_db :: subject_db where
  "team_db = \<lparr>sd_iam = empty_db\<lparr>t_roles := [plain_role 1 None ''owner''], t_subjects := [SubjectUser 3, SubjectGroup 8],
       t_group_members := [(8, 3)], t_bindings := [sample_binding 1 1 (SubjectGroup 8) ScopeGlobal None]\<rparr>,
     sd_groups = [], sd_accounts = [], sd_keys = []\<rparr>"

theorem replace_members_effect_witness:
  "\<exists>db'. replace_members team_db 8 [] = Inr db' \<and>
     active_for_context 0 (sd_iam db') (SubjectUser 3) (context_from_scope ScopeGlobal) = []"
proof -
  obtain db' where r: "replace_members team_db 8 [] = Inr db'" by (simp add: replace_members_def Let_def)
  have "set (active_for_context 0 (sd_iam db') (SubjectUser 3) (context_from_scope ScopeGlobal)) = {}"
    unfolding replace_members_effect[OF r] by (auto simp: team_db_def empty_db_def sample_binding_def)
  then show ?thesis using r by simp
qed

lemma delete_group_bindings:
  "set (active_for_context t (sd_iam (snd (delete_group now db i))) s c) =
   {b \<in> set (active_for_context t (sd_iam db) s c). binding_subject b \<noteq> SubjectGroup i}"
proof -
  have "b \<in> set (t_bindings (sd_iam (snd (delete_group now db i)))) \<and> is_active_at b t \<longleftrightarrow>
      b \<in> set (t_bindings (sd_iam db)) \<and> is_active_at b t \<and> binding_subject b \<noteq> SubjectGroup i" for b
    using subject.unrevoked_mem[of b now "SubjectGroup i" "sd_iam db"]
    by (auto simp: delete_group_def drop_subject_def is_active_at_def)
  moreover have "(g, u) \<in> set (t_group_members (sd_iam (snd (delete_group now db i)))) \<longleftrightarrow>
      (g, u) \<in> set (t_group_members (sd_iam db)) \<and> g \<noteq> i" for g u
    by (auto simp: delete_group_def drop_subject_def)
  ultimately show ?thesis unfolding active_mem set_eq_iff mem_Collect_eq binding_reaches_def by blast
qed

lemma delete_account_bindings:
  "set (active_for_context t (sd_iam (snd (delete_account now db i))) s c) =
   {b \<in> set (active_for_context t (sd_iam db) s c). binding_subject b \<noteq> SubjectServiceAccount i}"
proof -
  have "b \<in> set (t_bindings (sd_iam (snd (delete_account now db i)))) \<and> is_active_at b t \<longleftrightarrow>
      b \<in> set (t_bindings (sd_iam db)) \<and> is_active_at b t \<and> binding_subject b \<noteq> SubjectServiceAccount i" for b
    using subject.unrevoked_mem[of b now "SubjectServiceAccount i" "sd_iam db"]
    by (auto simp: delete_account_def drop_subject_def is_active_at_def)
  moreover have m: "t_group_members (sd_iam (snd (delete_account now db i))) = t_group_members (sd_iam db)"
    by (simp add: delete_account_def drop_subject_def revoke_subject_db_def set_revoked_def)
  ultimately show ?thesis unfolding active_mem set_eq_iff mem_Collect_eq binding_reaches_def m by blast
qed

text \<open>
  Deleting a subject withdraws what it granted and nothing else: after a group or a service
  account is deleted, everybody's active bindings, in every context and at every instant, are those
  from before without the deleted subject's own.
\<close>

theorem delete_subject_effect:
  "set (active_for_context t (sd_iam (snd (delete_group now db i))) s c) =
     {b \<in> set (active_for_context t (sd_iam db) s c). binding_subject b \<noteq> SubjectGroup i} \<and>
   set (active_for_context t (sd_iam (snd (delete_account now db i))) s c) =
     {b \<in> set (active_for_context t (sd_iam db) s c). binding_subject b \<noteq> SubjectServiceAccount i}"
  by (simp add: delete_group_bindings delete_account_bindings)

text \<open>
  Deleting a group goes around the owner invariant: the check made before a binding is revoked is
  not made here, so a platform whose only owner binding belongs to a group is left without one.
\<close>

theorem delete_group_locks_out:
  "\<exists>db i. keeps_owner 0 (sd_iam db) None \<and> \<not> keeps_owner 0 (sd_iam (snd (delete_group 0 db i))) None"
proof (intro exI conjI)
  show "keeps_owner 0 (sd_iam team_db) None"
    by (simp add: keeps_owner_def team_db_def revocation_eval)
  show "\<not> keeps_owner 0 (sd_iam (snd (delete_group 0 team_db 8))) None"
    by (simp add: keeps_owner_def team_db_def revocation_eval delete_group_def drop_subject_def revoke_subject_db_def
      set_revoked_def update_row_def)
qed

subsection \<open>The tables stay consistent\<close>

definition groups_ok :: "subject_db \<Rightarrow> bool" where
  "groups_ok db \<longleftrightarrow> distinct (map group_id (sd_groups db)) \<and>
     (\<forall>g \<in> set (sd_groups db). \<forall>h \<in> set (sd_groups db). group_clash g h \<longrightarrow> group_id g = group_id h) \<and>
     (\<forall>g \<in> set (sd_groups db). slug_ok (group_slug g))"

definition members_ok :: "iam_db \<Rightarrow> bool" where
  "members_ok db \<longleftrightarrow> distinct (t_group_members db) \<and>
     (\<forall>(g, user) \<in> set (t_group_members db). SubjectGroup g \<in> set (t_subjects db) \<and> SubjectUser user \<in> set (t_subjects db))"

definition subjects_ok :: "subject_db \<Rightarrow> bool" where
  "subjects_ok db \<longleftrightarrow> groups_ok db \<and> keys_ok db \<and> members_ok (sd_iam db) \<and>
     (\<forall>i. SubjectGroup i \<in> set (t_subjects (sd_iam db)) \<longleftrightarrow> i \<in> group_id ` set (sd_groups db)) \<and>
     (\<forall>i. SubjectServiceAccount i \<in> set (t_subjects (sd_iam db)) \<longleftrightarrow> i \<in> sa_id ` set (sd_accounts db))"

inductive subject_step :: "subject_db \<Rightarrow> subject_db \<Rightarrow> bool" where
  step_create_group: "fresh \<notin> group_id ` set (sd_groups db) \<Longrightarrow> create_group fresh now db new = Inr (g, db') \<Longrightarrow> subject_step db db'"
| step_update_group: "update_group now db i name description = Inr (g, db') \<Longrightarrow> subject_step db db'"
| step_delete_group: "delete_group now db i = (found, db') \<Longrightarrow> subject_step db db'"
| step_add_member: "add_member db i user = Inr (added, db') \<Longrightarrow> subject_step db db'"
| step_remove_member: "remove_member db i user = (removed, db') \<Longrightarrow> subject_step db db'"
| step_replace_members: "replace_members db i users = Inr db' \<Longrightarrow> subject_step db db'"
| step_create_account: "fresh \<notin> sa_id ` set (sd_accounts db) \<Longrightarrow>
    create_account fresh prefix now db new_account = Inr (a, db') \<Longrightarrow> subject_step db db'"
| step_delete_account: "delete_account now db i = (found, db') \<Longrightarrow> subject_step db db'"
| step_issue_key: "fresh \<notin> (\<lambda>(k, _). key_id k) ` set (sd_keys db) \<Longrightarrow>
    issue_key hash_secret fresh prefix secret now db i label expires = Inr (ik, db') \<Longrightarrow> subject_step db db'"
| step_revoke_key: "revoke_key now db i j = (revoked, db') \<Longrightarrow> subject_step db db'"
| step_authenticate: "authenticate hash_secret now db token = (machine, db') \<Longrightarrow> subject_step db db'"

lemma group_clash_sym: "group_clash g h \<longleftrightarrow> group_clash h g"
  by (auto simp: group_clash_def)

lemma keys_ok_frame:
  "sd_keys db' = sd_keys db \<Longrightarrow> sd_accounts db' = sd_accounts db \<Longrightarrow> keys_ok db' = keys_ok db"
  by (simp add: keys_ok_def find_account_def)

lemma create_group_ok:
  assumes "subjects_ok db" and "fresh \<notin> group_id ` set (sd_groups db)" and "create_group fresh now db new = Inr (g, db')"
  shows "subjects_ok db'"
proof -
  from assms(3) have g: "group_id g = fresh" "\<not> list_ex (group_clash g) (sd_groups db)" "slug_ok (group_slug g)"
    and db': "db' = db\<lparr>sd_groups := sd_groups db @ [g],
                 sd_iam := (sd_iam db)\<lparr>t_subjects := t_subjects (sd_iam db) @ [SubjectGroup fresh]\<rparr>\<rparr>"
    unfolding create_group_def Let_def by (auto simp: res_bind_Inr_conv split: if_split_asm)
  have "\<not> group_clash h g" if "h \<in> set (sd_groups db)" for h
    using g(2) that group_clash_sym by (auto simp: list_ex_iff)
  then have "groups_ok db'" using assms(1,2) g by (auto simp: groups_ok_def subjects_ok_def db' list_ex_iff)
  moreover have "keys_ok db' = keys_ok db" by (rule keys_ok_frame) (simp_all add: db')
  moreover have "members_ok (sd_iam db')" using assms(1) by (auto simp: subjects_ok_def members_ok_def db')
  ultimately show ?thesis using assms(1) g(1) unfolding subjects_ok_def by (auto simp: db')
qed

lemma update_group_ok:
  assumes "subjects_ok db" and "update_group now db i name description = Inr (g, db')"
  shows "subjects_ok db'"
proof -
  obtain current where c: "find_group db i = Some current"
    using assms(2) by (cases "find_group db i") (simp_all add: update_group_def)
  then have i: "group_id current = i" "current \<in> set (sd_groups db)" using find_Some_mem unfolding find_group_def by fastforce+
  have g: "group_id g = i" "\<not> list_ex (\<lambda>h. group_id h \<noteq> i \<and> group_clash g h) (sd_groups db)" "slug_ok (group_slug g)"
    and db': "db' = db\<lparr>sd_groups := update_row (\<lambda>h. group_id h = i) (\<lambda>_. g) (sd_groups db)\<rparr>"
    using assms(2) i(1) unfolding update_group_def c Let_def by (auto simp: res_bind_Inr_conv split: if_split_asm)
  have ids: "map group_id (sd_groups db') = map group_id (sd_groups db)"
    by (auto simp: db' update_row_def g(1))
  have rows: "h \<in> set (sd_groups db') \<Longrightarrow> h = g \<or> h \<in> set (sd_groups db) \<and> group_id h \<noteq> i" for h
    by (auto simp: db' update_row_def split: if_split_asm)
  have "group_id x = group_id y" if x: "x \<in> set (sd_groups db')" and y: "y \<in> set (sd_groups db')" and c: "group_clash x y" for x y
  proof -
    have "\<not> group_clash g h" if "h \<in> set (sd_groups db)" "group_id h \<noteq> i" for h
      using g(2) that by (auto simp: list_ex_iff)
    then show ?thesis
      using rows[OF x] rows[OF y] c assms(1) group_clash_sym unfolding subjects_ok_def groups_ok_def by metis
  qed
  moreover have "slug_ok (group_slug x)" if "x \<in> set (sd_groups db')" for x
    using rows[OF that] g(3) assms(1) by (auto simp: subjects_ok_def groups_ok_def)
  ultimately have "groups_ok db'" using assms(1) ids unfolding groups_ok_def subjects_ok_def by simp
  moreover have "keys_ok db' = keys_ok db" by (rule keys_ok_frame) (simp_all add: db')
  moreover have "group_id ` set (sd_groups db') = group_id ` set (sd_groups db)" using ids by (metis set_map)
  ultimately show ?thesis using assms(1) unfolding subjects_ok_def by (simp add: db')
qed

lemma delete_group_ok: "subjects_ok db \<Longrightarrow> subjects_ok (snd (delete_group now db i))"
proof -
  let ?db = "snd (delete_group now db i)"
  assume ok: "subjects_ok db"
  have "groups_ok ?db" using ok by (auto simp: subjects_ok_def groups_ok_def delete_group_def distinct_filter_ids)
  moreover have "keys_ok ?db = keys_ok db" by (rule keys_ok_frame) (simp_all add: delete_group_def)
  moreover have "members_ok (sd_iam ?db)"
    using ok by (auto simp: subjects_ok_def members_ok_def delete_group_def drop_subject_def revoke_subject_db_def set_revoked_def)
  ultimately show ?thesis
    using ok unfolding subjects_ok_def
    by (auto simp: delete_group_def drop_subject_def revoke_subject_db_def set_revoked_def)
qed

lemma members_step_ok:
  assumes "subjects_ok db" and "distinct members"
    and "\<And>g user. (g, user) \<in> set members \<Longrightarrow> SubjectGroup g \<in> set (t_subjects (sd_iam db)) \<and> SubjectUser user \<in> set (t_subjects (sd_iam db))"
  shows "subjects_ok (db\<lparr>sd_iam := (sd_iam db)\<lparr>t_group_members := members\<rparr>\<rparr>)"
proof -
  have "keys_ok (db\<lparr>sd_iam := (sd_iam db)\<lparr>t_group_members := members\<rparr>\<rparr>) = keys_ok db" by (rule keys_ok_frame) simp_all
  then show ?thesis using assms unfolding subjects_ok_def groups_ok_def members_ok_def by auto
qed

lemma put_members_distinct: "distinct members \<Longrightarrow> distinct (fold (put_member g) users members)"
  by (induction users arbitrary: members) (auto simp: put_member_def)

lemma member_ops_ok:
  assumes "subjects_ok db"
  shows "add_member db g user = Inr (added, db') \<Longrightarrow> subjects_ok db'"
    and "subjects_ok (snd (remove_member db g user))"
    and "replace_members db g users = Inr db' \<Longrightarrow> subjects_ok db'"
proof -
  have d: "distinct (t_group_members (sd_iam db))"
    and m: "\<And>g user. (g, user) \<in> set (t_group_members (sd_iam db)) \<Longrightarrow>
      SubjectGroup g \<in> set (t_subjects (sd_iam db)) \<and> SubjectUser user \<in> set (t_subjects (sd_iam db))"
    using assms by (auto simp: subjects_ok_def members_ok_def)
  show "subjects_ok (snd (remove_member db g user))"
    unfolding remove_member_def Let_def snd_conv using d m by (intro members_step_ok[OF assms]) auto
  { assume a: "add_member db g user = Inr (added, db')"
    show "subjects_ok db'"
    proof (cases "(g, user) \<in> set (t_group_members (sd_iam db))")
      case True
      then show ?thesis using a assms by (simp add: add_member_def Let_def)
    next
      case False
      then have "db' = db\<lparr>sd_iam := (sd_iam db)\<lparr>t_group_members := t_group_members (sd_iam db) @ [(g, user)]\<rparr>\<rparr>"
          "SubjectGroup g \<in> set (t_subjects (sd_iam db))" "SubjectUser user \<in> set (t_subjects (sd_iam db))"
        using a by (auto simp: add_member_def Let_def split: if_split_asm)
      then show ?thesis using d m False by (auto intro!: members_step_ok[OF assms])
    qed }
  { assume a: "replace_members db g users = Inr db'"
    let ?kept = "filter (\<lambda>(i, user). i \<noteq> g \<or> user \<in> set users) (t_group_members (sd_iam db))"
    have db': "db' = db\<lparr>sd_iam := (sd_iam db)\<lparr>t_group_members := fold (put_member g) users ?kept\<rparr>\<rparr>"
      and new: "\<And>user. user \<in> set users \<Longrightarrow> (g, user) \<notin> set ?kept \<Longrightarrow>
        SubjectGroup g \<in> set (t_subjects (sd_iam db)) \<and> SubjectUser user \<in> set (t_subjects (sd_iam db))"
      using a by (auto simp: replace_members_def Let_def list_ex_iff split: if_split_asm)
    have "SubjectGroup h \<in> set (t_subjects (sd_iam db)) \<and> SubjectUser v \<in> set (t_subjects (sd_iam db))"
      if "(h, v) \<in> set (fold (put_member g) users ?kept)" for h v
      using that m new unfolding put_members_mem by fastforce
    then show "subjects_ok db'" unfolding db'
      using d by (intro members_step_ok[OF assms] put_members_distinct) auto }
qed

lemma create_account_ok:
  assumes "subjects_ok db" and "fresh \<notin> sa_id ` set (sd_accounts db)" and "create_account fresh prefix now db new = Inr (a, db')"
  shows "subjects_ok db'"
proof -
  from assms(3) have a: "sa_id a = fresh"
    and db': "db' = db\<lparr>sd_accounts := sd_accounts db @ [a],
                 sd_iam := (sd_iam db)\<lparr>t_subjects := t_subjects (sd_iam db) @ [SubjectServiceAccount fresh]\<rparr>\<rparr>"
    unfolding create_account_def Let_def by (auto simp: res_bind_Inr_conv split: if_split_asm)
  have "find_account db' i \<noteq> None" if "find_account db i \<noteq> None" for i
    using that by (auto simp: find_account_def db' find_None_all)
  then have "keys_ok db'" using assms(1,2) a by (fastforce simp: subjects_ok_def keys_ok_def db')
  moreover have "groups_ok db'" "members_ok (sd_iam db')"
    using assms(1) by (auto simp: subjects_ok_def groups_ok_def members_ok_def db')
  ultimately show ?thesis using assms(1) a unfolding subjects_ok_def by (auto simp: db')
qed

lemma delete_account_ok: "subjects_ok db \<Longrightarrow> subjects_ok (snd (delete_account now db i))"
proof -
  let ?db = "snd (delete_account now db i)"
  assume ok: "subjects_ok db"
  have f: "find_account ?db j \<noteq> None \<longleftrightarrow> j \<noteq> i \<and> find_account db j \<noteq> None" for j
    by (auto simp: find_account_def delete_account_def find_None_all)
  have "keys_ok ?db"
    using ok unfolding subjects_ok_def keys_ok_def f
    by (auto simp: delete_account_def distinct_filter_ids)
  moreover have "groups_ok ?db" "members_ok (sd_iam ?db)"
    using ok by (auto simp: subjects_ok_def groups_ok_def members_ok_def delete_account_def drop_subject_def
      revoke_subject_db_def set_revoked_def)
  ultimately show ?thesis
    using ok unfolding subjects_ok_def
    by (auto simp: delete_account_def drop_subject_def revoke_subject_db_def set_revoked_def)
qed

lemma keys_ok_touch:
  assumes "keys_ok db"
    and "map (\<lambda>(k, _). (key_prefix k, key_id k, key_service_account_id k)) (sd_keys db') =
         map (\<lambda>(k, _). (key_prefix k, key_id k, key_service_account_id k)) (sd_keys db)"
    and "map sa_id (sd_accounts db') = map sa_id (sd_accounts db)"
  shows "keys_ok db'"
proof -
  have p: "map (\<lambda>(k, _). key_prefix k) (sd_keys db') = map (\<lambda>(k, _). key_prefix k) (sd_keys db)"
      "map (\<lambda>(k, _). key_id k) (sd_keys db') = map (\<lambda>(k, _). key_id k) (sd_keys db)"
      "map (\<lambda>(k, _). key_service_account_id k) (sd_keys db') = map (\<lambda>(k, _). key_service_account_id k) (sd_keys db)"
    using arg_cong[OF assms(2), of "map fst"] arg_cong[OF assms(2), of "map (fst \<circ> snd)"]
      arg_cong[OF assms(2), of "map (snd \<circ> snd)"] by (simp_all add: comp_def case_prod_unfold)
  have f: "find_account d i \<noteq> None \<longleftrightarrow> i \<in> set (map sa_id (sd_accounts d))" for d i
    by (auto simp: find_account_def find_None_all)
  have refs: "(\<forall>(k, h) \<in> set (sd_keys d). find_account d (key_service_account_id k) \<noteq> None) \<longleftrightarrow>
      set (map (\<lambda>(k, _). key_service_account_id k) (sd_keys d)) \<subseteq> set (map sa_id (sd_accounts d))" for d
    unfolding f by auto
  show ?thesis using assms(1) unfolding keys_ok_def refs p assms(3) .
qed

lemma authenticate_ok:
  assumes "subjects_ok db" and "authenticate hash_secret now db token = (machine, db')"
  shows "subjects_ok db'"
proof (cases "db' = db")
  case False
  then obtain k a where db': "db' = record_use now k a db"
    using assms(2) unfolding authenticate_def by (auto split: option.split_asm if_split_asm prod.split_asm)
  have "keys_ok db'"
    by (rule keys_ok_touch[of db])
      (use assms(1) in \<open>auto simp: subjects_ok_def db' record_use_def update_row_def case_prod_unfold\<close>)
  moreover have "map sa_id (sd_accounts db') = map sa_id (sd_accounts db)"
    by (simp add: db' record_use_def update_row_def)
  then have "sa_id ` set (sd_accounts db') = sa_id ` set (sd_accounts db)" by (metis set_map)
  ultimately show ?thesis using assms(1) unfolding subjects_ok_def groups_ok_def by (simp add: db' record_use_def)
qed (use assms(1) in simp)

lemma subject_step_ok: "subject_step db db' \<Longrightarrow> subjects_ok db \<Longrightarrow> subjects_ok db'"
proof (induction rule: subject_step.induct)
  case (step_delete_group now db i found db')
  then show ?case using delete_group_ok by (metis snd_conv)
next
  case (step_remove_member db i user removed db')
  then show ?case using member_ops_ok(2) by (metis snd_conv)
next
  case (step_delete_account now db i found db')
  then show ?case using delete_account_ok by (metis snd_conv)
next
  case (step_issue_key fresh db hash_secret prefix secret now i label expires ik db')
  then have "keys_ok db'" using issue_key_ok subjects_ok_def by blast
  moreover obtain row where "db' = db\<lparr>sd_keys := sd_keys db @ [row]\<rparr>" using issue_key_Inr[OF step_issue_key(2)] by blast
  ultimately show ?case using step_issue_key(3) by (simp add: subjects_ok_def groups_ok_def)
next
  case (step_revoke_key now db i j revoked db')
  then have "keys_ok db'" using revoke_key_ok subjects_ok_def by (metis snd_conv)
  moreover have "sd_iam db' = sd_iam db" "sd_groups db' = sd_groups db" "sd_accounts db' = sd_accounts db"
    using step_revoke_key(1) by (auto simp: revoke_key_def Let_def)
  ultimately show ?case using step_revoke_key(2) by (simp add: subjects_ok_def groups_ok_def)
qed (blast intro: create_group_ok update_group_ok member_ops_ok create_account_ok authenticate_ok)+

lemma subject_steps_ok: "subject_step\<^sup>*\<^sup>* db db' \<Longrightarrow> subjects_ok db \<Longrightarrow> subjects_ok db'"
  by (induction rule: rtranclp_induct) (blast intro: subject_step_ok)+

text \<open>
  The subject tables stay consistent under every sequence of operations: group names and slugs
  unique in their organization and well formed, members and keys referring to rows that exist, key
  prefixes unique, and the subjects that roles can be bound to exactly the groups and accounts there
  are.
\<close>

theorem subject_tables_consistent:
  assumes "subject_step\<^sup>*\<^sup>* db db'" and "subjects_ok db"
  shows "subjects_ok db'"
  using assms by (rule subject_steps_ok)

theorem subject_tables_consistent_witness:
  "\<exists>db'. (\<exists>ik. issue_key id 1 (random_chars (replicate 10 0)) (random_chars (replicate 32 1)) 0 (machine_db []) 5 [] None = Inr (ik, db')) \<and>
     subjects_ok db'"
proof -
  obtain ik db' where i: "issue_key id 1 (random_chars (replicate 10 0)) (random_chars (replicate 32 1)) 0 (machine_db []) 5 [] None = Inr (ik, db')"
    by (simp add: issue_key_def machine_db_def find_account_def ci_account_def Let_def)
  then have "subject_step (machine_db []) db'" by (rule step_issue_key[rotated]) (simp add: machine_db_def)
  moreover have "subjects_ok (machine_db [])"
    using machine_keys_ok(2) by (simp add: subjects_ok_def groups_ok_def members_ok_def machine_db_def empty_db_def ci_account_def)
  ultimately have "subjects_ok db'" using subject_tables_consistent by blast
  then show ?thesis using i by blast
qed

end
