(* ===== verification/Simulate.thy ===== *)
theory Simulate
  imports Authorize
begin

text \<open>
  The permission simulator (\<open>crates/permissions/src/simulate.rs\<close>): the verdict of
  \<open>authorize_subject\<close> together with an account of every binding and policy that was looked at. The
  closing sentence of a report (\<open>note\<close>) only repeats its counts in prose and is left out.
\<close>

subsection \<open>The report\<close>

record simulation_step =
  st_binding_id :: uuid
  st_role_id :: uuid
  st_role_key :: string
  st_role_name :: string
  st_role_priority :: int
  st_subject :: string
  st_scope :: string
  st_state :: string
  st_counts :: bool
  st_effect :: "string option"
  st_via :: "string option"
  st_inherited_from :: "string option"

record simulated_policy =
  sp_policy_id :: uuid
  sp_policy_name :: string
  sp_priority :: int

record simulated_source =
  so_role_id :: uuid
  so_role_key :: string
  so_role_name :: string
  so_role_priority :: int
  so_via :: string
  so_policy :: "simulated_policy option"

record simulated_policy_step =
  sps_policy_id :: uuid
  sps_policy_name :: string
  sps_effect :: string
  sps_priority :: int
  sps_enabled :: bool
  sps_targeted :: bool
  sps_satisfied :: bool
  sps_applies :: bool

record simulation_report =
  sr_allowed :: bool
  sr_reason :: string
  sr_source :: "simulated_source option"
  sr_steps :: "simulation_step list"
  sr_policies :: "simulated_policy_step list"
  sr_considered :: nat
  sr_counted :: nat

fun via_name :: "via \<Rightarrow> string" where
  "via_name ExplicitAllow = ''explicit_allow''"
| "via_name InheritedAllow = ''inherited_allow''"
| "via_name ExplicitDeny = ''explicit_deny''"
| "via_name InheritedDeny = ''inherited_deny''"
| "via_name ViaPolicy = ''policy''"

definition simulated_policy_of :: "policy_stamp \<Rightarrow> simulated_policy" where
  "simulated_policy_of stamp =
     \<lparr>sp_policy_id = ps_policy_id stamp, sp_policy_name = ps_policy_name stamp, sp_priority = ps_priority stamp\<rparr>"

definition source_of_grant :: "grant \<Rightarrow> simulated_source" where
  "source_of_grant g =
     \<lparr>so_role_id = grant_role_id g, so_role_key = grant_role_key g, so_role_name = grant_role_name g,
      so_role_priority = grant_role_priority g, so_via = via_name (grant_via g),
      so_policy = map_option simulated_policy_of (grant_policy g)\<rparr>"

definition subject_describe :: "(uuid \<Rightarrow> string) \<Rightarrow> subject \<Rightarrow> string" where
  "subject_describe show_uuid s = subject_type s @ '':'' @ show_uuid (subject_id s)"

definition role_key_of :: "(uuid \<Rightarrow> string) \<Rightarrow> role_graph \<Rightarrow> uuid \<Rightarrow> string" where
  "role_key_of show_uuid g i = (case bt_get g i of None \<Rightarrow> show_uuid i | Some a \<Rightarrow> role_key (ra_role a))"

definition role_name_of :: "(uuid \<Rightarrow> string) \<Rightarrow> role_graph \<Rightarrow> uuid \<Rightarrow> string" where
  "role_name_of show_uuid g i = (case bt_get g i of None \<Rightarrow> show_uuid i | Some a \<Rightarrow> role_name (ra_role a))"

definition role_priority_of :: "role_graph \<Rightarrow> uuid \<Rightarrow> int" where
  "role_priority_of g i = (case bt_get g i of None \<Rightarrow> 0 | Some a \<Rightarrow> role_priority (ra_role a))"

definition binding_state :: "instant \<Rightarrow> resource_context \<Rightarrow> role_binding \<Rightarrow> string" where
  "binding_state now c b =
     (if revoked_at b \<noteq> None then ''revoked''
      else if is_expired_at b now then ''expired''
      else if \<not> applies_to (binding_scope b) c then ''out_of_scope''
      else ''active'')"

definition simulate_step ::
  "(uuid \<Rightarrow> string) \<Rightarrow> instant \<Rightarrow> role_graph \<Rightarrow> resource_context \<Rightarrow> string \<Rightarrow> role_binding \<Rightarrow> simulation_step" where
  "simulate_step show_uuid now g c key b =
     (let state = binding_state now c b;
          counts = (state = ''active'');
          trace = (if counts then graph_trace g (binding_role_id b) key else None)
      in \<lparr>st_binding_id = binding_id b, st_role_id = binding_role_id b,
          st_role_key = (case trace of None \<Rightarrow> role_key_of show_uuid g (binding_role_id b) | Some t \<Rightarrow> tr_role_key t),
          st_role_name = (case trace of None \<Rightarrow> role_name_of show_uuid g (binding_role_id b) | Some t \<Rightarrow> tr_role_name t),
          st_role_priority = role_priority_of g (binding_role_id b),
          st_subject = subject_describe show_uuid (binding_subject b),
          st_scope = scope_describe show_uuid (binding_scope b),
          st_state = state, st_counts = counts,
          st_effect = map_option (\<lambda>t. effect_as_str (tr_effect t)) trace,
          st_via = map_option (\<lambda>t. via_name (tr_via t)) trace,
          st_inherited_from = Option.bind trace (\<lambda>t. map_option snd (tr_inherited_from t))\<rparr>)"

definition step_key :: "simulation_step \<Rightarrow> nat \<times> nat \<times> nat \<times> int" where
  "step_key s = ((if st_counts s then 0 else 1), (if st_effect s = Some ''deny'' then 0 else 1),
     (if st_effect s = None then 1 else 0), - st_role_priority s)"

fun reason_of :: "decision \<Rightarrow> string \<times> simulated_source option" where
  "reason_of (Allowed g) = (''allowed'', Some (source_of_grant g))"
| "reason_of (Denied ReasonPolicyDeny (Some g)) = (''policy_denied'', Some (source_of_grant g))"
| "reason_of (Denied _ (Some g)) = (''explicit_deny'', Some (source_of_grant g))"
| "reason_of (Denied _ None) = (''missing_permission'', None)"

definition policy_step_of :: "policy_candidate \<Rightarrow> simulated_policy_step" where
  "policy_step_of c =
     \<lparr>sps_policy_id = pc_id c, sps_policy_name = pc_name c, sps_effect = policy_effect_as_str (pc_effect c),
      sps_priority = pc_priority c, sps_enabled = pc_enabled c, sps_targeted = pc_targeted c,
      sps_satisfied = pc_satisfied c, sps_applies = candidate_applies c\<rparr>"

definition simulate ::
  "('n \<Rightarrow> 'f::linorder) \<Rightarrow> (uuid \<Rightarrow> string) \<Rightarrow> instant \<Rightarrow> iam_db \<Rightarrow> 'n policy_db \<Rightarrow> subject \<Rightarrow> string \<Rightarrow>
   resource_context \<Rightarrow> permissions_error + simulation_report" where
  "simulate as_f64 show_uuid now db pdb s key c =
     (if \<not> is_known key then Inl (UnknownSimulatedAction key)
      else res_bind (authorize_subject as_f64 show_uuid now db pdb s c key) (\<lambda>d.
        (let g = load_role_graph db (rc_organization_id c);
             bindings = bindings_for db s;
             steps = sort_key step_key (map (simulate_step show_uuid now g c key) bindings)
         in res_bind
              (case rc_organization_id c of
                 None \<Rightarrow> Inr []
               | Some organization_id \<Rightarrow>
                   res_bind (policy_candidates as_f64 pdb organization_id key (attributes_for show_uuid pdb s c key))
                     (\<lambda>cs. Inr (map policy_step_of cs)))
              (\<lambda>evaluated.
                 Inr \<lparr>sr_allowed = is_allowed d, sr_reason = fst (reason_of d), sr_source = snd (reason_of d),
                      sr_steps = steps, sr_policies = evaluated, sr_considered = length bindings,
                      sr_counted = length (filter st_counts steps)\<rparr>))))"

subsection \<open>The bindings that count\<close>

lemma state_active: "binding_state now c b = ''active'' \<longleftrightarrow> is_active_at b now \<and> applies_to (binding_scope b) c"
  by (auto simp: binding_state_def is_active_at_def is_expired_at_def split: option.split)

lemma simulate_step_simps [simp]:
  "st_binding_id (simulate_step show_uuid now g c key b) = binding_id b"
  "st_counts (simulate_step show_uuid now g c key b) \<longleftrightarrow> is_active_at b now \<and> applies_to (binding_scope b) c"
  "st_effect (simulate_step show_uuid now g c key b) =
     (if is_active_at b now \<and> applies_to (binding_scope b) c
      then map_option (\<lambda>t. effect_as_str (tr_effect t)) (graph_trace g (binding_role_id b) key) else None)"
  by (simp_all add: simulate_step_def Let_def state_active)

lemma counted_steps:
  "mset (map st_binding_id (filter st_counts (sort_key step_key (map (simulate_step show_uuid now g c key) bs)))) =
   mset (map binding_id (filter (\<lambda>b. is_active_at b now \<and> applies_to (binding_scope b) c) bs))"
  by (induction bs) simp_all

lemma counted_length:
  "length (filter st_counts (sort_key step_key (map (simulate_step show_uuid now g c key) bs))) =
   length (filter (\<lambda>b. is_active_at b now \<and> applies_to (binding_scope b) c) bs)"
  using mset_eq_length[OF counted_steps] unfolding length_map .

lemma speaks_bound: "speaks g bound key eff \<longleftrightarrow> (\<exists>i \<in> set bound. speaks g [i] key eff)"
  by (simp add: speaks_def)

lemma effect_str_deny: "effect_as_str e = ''deny'' \<longleftrightarrow> e = Deny"
  by (cases e) simp_all

lemma step_effects:
  assumes g: "graph_ok g"
  shows "(\<exists>st \<in> set (map (simulate_step show_uuid now g c key) (bindings_for db s)). st_effect st \<noteq> None) \<longleftrightarrow>
      (\<exists>eff. speaks g (map binding_role_id (active_for_context now db s c)) key eff)"
    and "\<exists>st \<in> set (map (simulate_step show_uuid now g c key) (bindings_for db s)). st_effect st = Some ''deny'' \<Longrightarrow>
      speaks g (map binding_role_id (active_for_context now db s c)) key Deny"
proof -
  have one: "(graph_trace g i key \<noteq> None) = (\<exists>eff. speaks g [i] key eff)" for i
    using graph_trace_chain[OF g, of i key] by (cases "graph_trace g i key") auto
  have "(\<exists>st \<in> set (map (simulate_step show_uuid now g c key) (bindings_for db s)). st_effect st \<noteq> None) \<longleftrightarrow>
      (\<exists>b \<in> set (active_for_context now db s c). graph_trace g (binding_role_id b) key \<noteq> None)"
    by (auto simp: active_for_context_def split: if_split_asm)
  also have "\<dots> \<longleftrightarrow> (\<exists>eff. speaks g (map binding_role_id (active_for_context now db s c)) key eff)"
    unfolding one speaks_bound[of g "map _ _"] by auto
  finally show "(\<exists>st \<in> set (map (simulate_step show_uuid now g c key) (bindings_for db s)). st_effect st \<noteq> None) \<longleftrightarrow>
      (\<exists>eff. speaks g (map binding_role_id (active_for_context now db s c)) key eff)" .
  assume "\<exists>st \<in> set (map (simulate_step show_uuid now g c key) (bindings_for db s)). st_effect st = Some ''deny''"
  then obtain b t where b: "b \<in> set (active_for_context now db s c)" and t: "graph_trace g (binding_role_id b) key = Some t"
      "tr_effect t = Deny"
    by (auto simp: active_for_context_def effect_str_deny split: if_split_asm)
  then have "speaks g [binding_role_id b] key Deny" using graph_trace_chain[OF g, of "binding_role_id b" key] by simp
  then show "speaks g (map binding_role_id (active_for_context now db s c)) key Deny" using b by (auto simp: speaks_def)
qed

subsection \<open>The policies that decide\<close>

lemma collect_results_set:
  "collect_results (map f xs) = Inr ys \<Longrightarrow> set ys = {y. \<exists>x \<in> set xs. f x = Inr y}"
proof (induction xs arbitrary: ys)
  case (Cons x xs)
  then obtain z zs where "f x = Inr z" "collect_results (map f xs) = Inr zs" "ys = z # zs"
    by (auto simp: res_bind_Inr_conv)
  then show ?case using Cons.IH[of zs] by auto
qed simp

lemma list_rows_set:
  "list_rows wanted db org = Inr rs \<Longrightarrow>
   set rs = {r. \<exists>row \<in> set (t_policies db). row_organization_id row = org \<and> wanted row \<and> into_record row = Inr r}"
  unfolding list_rows_def by (drule collect_results_set) auto

lemma into_record_enabled: "into_record row = Inr r \<Longrightarrow> rec_enabled r = row_enabled row"
  unfolding into_record_def by (auto split: option.split_asm sum.split_asm)

lemma active_among_listed:
  assumes "policies_list db org = Inr rs" and "policies_active db org = Inr act"
  shows "set act = {r \<in> set rs. rec_enabled r}"
  using list_rows_set[OF assms(1)[unfolded policies_list_def]] list_rows_set[OF assms(2)[unfolded policies_active_def]]
  by (auto dest: into_record_enabled)

lemma candidate_applies_iff:
  "(\<exists>p \<in> set (candidates as_f64 ps key attrs). candidate_applies p) \<longleftrightarrow> (\<exists>p \<in> set ps. policy_matches as_f64 p key attrs)"
  by (auto simp: candidates_def candidate_applies_def policy_matches_def)

lemma decide_none_listed:
  assumes "policies_list db org = Inr rs" and "policies_active db org = Inr act"
  shows "decide as_f64 (map to_policy act) key attrs = None \<longleftrightarrow>
    \<not> (\<exists>p \<in> set (candidates as_f64 (map to_policy rs) key attrs). candidate_applies p)"
  unfolding decide_None candidate_applies_iff using active_among_listed[OF assms]
  by (auto simp: policy_matches_def to_policy_def)

text \<open>When no listed policy applies, the verdict is the role verdict.\<close>

lemma authorize_without_policy:
  assumes "authorize_subject as_f64 show_uuid now db pdb s c key = Inr d"
    and "(case rc_organization_id c of None \<Rightarrow> Inr [] | Some org \<Rightarrow>
            res_bind (policy_candidates as_f64 pdb org key (attributes_for show_uuid pdb s c key))
              (\<lambda>cs. Inr (map policy_step_of cs))) = Inr evaluated"
    and "\<not> (\<exists>p \<in> set evaluated. sps_applies p)"
  shows "d = decision_of (effective_permissions_for now db s c) key"
proof (cases "rc_organization_id c")
  case None
  then show ?thesis using assms(1) by (simp add: authorize_subject_def apply_policies_def)
next
  case (Some org)
  obtain rs where rs: "policies_list pdb org = Inr rs"
      "evaluated = map policy_step_of (candidates as_f64 (map to_policy rs) key (attributes_for show_uuid pdb s c key))"
    using assms(2) Some by (auto simp: policy_candidates_def res_bind_Inr_conv)
  obtain act where act: "policies_active pdb org = Inr act"
    using assms(1) Some by (auto simp: authorize_subject_def apply_policies_def res_bind_Inr_conv)
  have "decide as_f64 (map to_policy act) key (attributes_for show_uuid pdb s c key) = None"
    unfolding decide_none_listed[OF rs(1) act] using assms(3) rs(2) by (auto simp: policy_step_of_def)
  then show ?thesis
    using assms(1) Some act by (auto simp: authorize_subject_def apply_policies_def overlay_def split: if_split_asm)
qed

text \<open>
  The simulator tells the truth about a decision: its verdict is the one the route guard computes,
  the steps it marks as counting are exactly the bindings the resolver used, and, when no policy
  applies, it reports a missing permission exactly when no counted step says anything, and an explicit
  deny whenever one of them says deny.
\<close>

theorem simulate_faithful:
  assumes "simulate as_f64 show_uuid now db pdb s key c = Inr rep"
  shows "\<exists>d. authorize_subject as_f64 show_uuid now db pdb s c key = Inr d \<and> sr_allowed rep = is_allowed d \<and>
    mset (map st_binding_id (filter st_counts (sr_steps rep))) = mset (map binding_id (active_for_context now db s c)) \<and>
    sr_counted rep = length (active_for_context now db s c) \<and>
    (\<not> (\<exists>p \<in> set (sr_policies rep). sps_applies p) \<longrightarrow>
       (sr_reason rep = ''missing_permission'' \<longleftrightarrow> \<not> (\<exists>st \<in> set (sr_steps rep). st_effect st \<noteq> None)) \<and>
       ((\<exists>st \<in> set (sr_steps rep). st_effect st = Some ''deny'') \<longrightarrow> sr_reason rep = ''explicit_deny''))"
proof -
  let ?g = "load_role_graph db (rc_organization_id c)"
  let ?bound = "map binding_role_id (active_for_context now db s c)"
  obtain d evaluated where d: "authorize_subject as_f64 show_uuid now db pdb s c key = Inr d"
    and e: "(case rc_organization_id c of None \<Rightarrow> Inr [] | Some org \<Rightarrow>
            res_bind (policy_candidates as_f64 pdb org key (attributes_for show_uuid pdb s c key))
              (\<lambda>cs. Inr (map policy_step_of cs))) = Inr evaluated"
    and rep: "rep = \<lparr>sr_allowed = is_allowed d, sr_reason = fst (reason_of d), sr_source = snd (reason_of d),
        sr_steps = sort_key step_key (map (simulate_step show_uuid now ?g c key) (bindings_for db s)),
        sr_policies = evaluated, sr_considered = length (bindings_for db s),
        sr_counted = length (filter st_counts (sort_key step_key (map (simulate_step show_uuid now ?g c key) (bindings_for db s))))\<rparr>"
    using assms unfolding simulate_def Let_def by (auto simp: res_bind_Inr_conv split: if_split_asm)
  have g: "graph_ok ?g" unfolding load_role_graph_def by (rule graph_ok_new)
  have "(sr_reason rep = ''missing_permission'' \<longleftrightarrow> \<not> (\<exists>st \<in> set (sr_steps rep). st_effect st \<noteq> None)) \<and>
       ((\<exists>st \<in> set (sr_steps rep). st_effect st = Some ''deny'') \<longrightarrow> sr_reason rep = ''explicit_deny'')"
    if "\<not> (\<exists>p \<in> set (sr_policies rep). sps_applies p)"
  proof -
    have "\<not> (\<exists>p \<in> set evaluated. sps_applies p)" using that by (simp add: rep)
    from authorize_without_policy[OF d e this] have dd: "d = decision_of (effective ?g ?bound) key"
      by (simp add: effective_permissions_for_def Let_def)
    have steps: "set (sr_steps rep) = set (map (simulate_step show_uuid now ?g c key) (bindings_for db s))" by (simp add: rep)
    have "(fst (reason_of d) = ''missing_permission'') = (d = Denied ReasonMissingPermission None)"
      unfolding dd decision_of_def by (simp split: option.split)
    then have "(sr_reason rep = ''missing_permission'') = (\<not> (\<exists>eff. speaks ?g ?bound key eff))"
      unfolding dd decision_by_speech(3)[OF g] by (simp add: rep dd) (metis effect.exhaust)
    moreover have "speaks ?g ?bound key Deny \<Longrightarrow> sr_reason rep = ''explicit_deny''"
      using decision_by_speech(2)[OF g, of ?bound key] by (auto simp: rep dd)
    ultimately show ?thesis unfolding steps using step_effects[OF g, of show_uuid now c key db s] by blast
  qed
  moreover have "mset (map st_binding_id (filter st_counts (sr_steps rep))) = mset (map binding_id (active_for_context now db s c))"
    unfolding rep active_for_context_def simulation_report.simps by (rule counted_steps)
  moreover have "sr_counted rep = length (active_for_context now db s c)"
    unfolding rep active_for_context_def simulation_report.simps by (rule counted_length)
  ultimately show ?thesis using d by (simp add: rep)
qed

lemma first_key_known: "is_known ''content.pages.read''"
  by (simp add: is_known_def catalogue_get_def CATALOGUE_def catalogue_content_and_media_def)

theorem simulate_faithful_witness:
  "\<exists>rep. simulate id show_nat 0 two_owners empty_policy_db (SubjectUser 3) ''content.pages.read''
       (context_from_scope ScopeGlobal) = Inr rep \<and>
     sr_counted rep = length (active_for_context 0 two_owners (SubjectUser 3) (context_from_scope ScopeGlobal))"
proof -
  obtain rep where r: "simulate id show_nat 0 two_owners empty_policy_db (SubjectUser 3) ''content.pages.read''
       (context_from_scope ScopeGlobal) = Inr rep"
    by (simp add: simulate_def first_key_known authorize_subject_def apply_policies_def context_from_scope_def Let_def)
  then show ?thesis using simulate_faithful[OF r] by blast
qed

end
