(* ===== verification/Seed.thy ===== *)
theory Seed
  imports Bindings
begin

text \<open>
  Seeding (\<open>crates/permissions/src/seed.rs\<close>): what every start of the server does to the tables: the
  catalogue rows, the base roles with their permission sets, and an owner. The identifiers a run
  would generate for new base roles are given by a function on their keys.
\<close>

subsection \<open>Operations\<close>

record user_row =
  user_id :: uuid
  user_status :: string
  user_created_at :: instant

record seed_db =
  se_iam :: iam_db
  se_permissions :: "permission_def list"
  se_users :: "user_row list"

record seed_report =
  sd_permissions :: nat
  sd_roles_created :: nat
  sd_owner_synced :: bool
  sd_owner_bound :: "uuid option"

definition upsert_permission :: "permission_def \<Rightarrow> permission_def list \<Rightarrow> permission_def list" where
  "upsert_permission d rows =
     (if list_ex (\<lambda>r. pd_key r = pd_key d) rows then update_row (\<lambda>r. pd_key r = pd_key d) (\<lambda>_. d) rows else rows @ [d])"

definition seed_catalogue :: "seed_db \<Rightarrow> nat \<times> seed_db" where
  "seed_catalogue db = (length CATALOGUE, db\<lparr>se_permissions := fold upsert_permission CATALOGUE (se_permissions db)\<rparr>)"

definition ensure_entries :: "uuid \<Rightarrow> string list \<Rightarrow> iam_db \<Rightarrow> bool \<times> iam_db" where
  "ensure_entries i keys db =
     fold (\<lambda>key (gained, db). case ensure_allow_entry db i key of (g, db') \<Rightarrow> (gained \<or> g, db')) keys (False, db)"

definition seed_base_row ::
  "(string \<Rightarrow> uuid) \<Rightarrow> instant \<Rightarrow> iam_db \<Rightarrow> base_role \<Rightarrow> permissions_error + nat \<times> role \<times> iam_db" where
  "seed_base_row fresh now db base =
     (case find_role_by_key db None (br_key base) of
        Some r \<Rightarrow> Inr (0, r, db)
      | None \<Rightarrow>
          (case insert_system_role (fresh (br_key base)) now db (br_key base) (br_name base) (br_description base)
                  (br_priority base) of
             Inr (r, db') \<Rightarrow>
               Inr (1, r, fold (\<lambda>key db. add_entry db (role_id r) key Allow) (base_permission_keys (br_permissions base)) db')
           | Inl e \<Rightarrow>
               if e = RoleKeyTaken
               then res_bind (ok_or RoleKeyTaken (find_role_by_key db None (br_key base))) (\<lambda>r. Inr (0, r, db))
               else Inl e))"

definition seed_base_role ::
  "(string \<Rightarrow> uuid) \<Rightarrow> instant \<Rightarrow> iam_db \<Rightarrow> base_role \<Rightarrow> permissions_error + nat \<times> bool \<times> iam_db" where
  "seed_base_role fresh now db base =
     (let keys = base_permission_keys (br_permissions base) in
      case find (\<lambda>key. \<not> is_known key) keys of
        Some key \<Rightarrow> Inl (UnknownPermission key)
      | None \<Rightarrow>
          res_bind (seed_base_row fresh now db base) (\<lambda>(created, r, db1).
            (case ensure_entries (role_id r) keys db1 of (gained, db2) \<Rightarrow>
               Inr (created, gained, snd (prune_entries db2 (role_id r) keys)))))"

fun seed_roles ::
  "(string \<Rightarrow> uuid) \<Rightarrow> instant \<Rightarrow> base_role list \<Rightarrow> nat \<Rightarrow> bool \<Rightarrow> iam_db \<Rightarrow> permissions_error + nat \<times> bool \<times> iam_db" where
  "seed_roles fresh now [] created owner_gained db = Inr (created, owner_gained, db)"
| "seed_roles fresh now (base # rest) created owner_gained db =
     res_bind (seed_base_role fresh now db base) (\<lambda>(c, gained, db').
       seed_roles fresh now rest (created + c) (if br_key base = ''owner'' then owner_gained \<or> gained else owner_gained) db')"

definition seed_base_roles :: "(string \<Rightarrow> uuid) \<Rightarrow> instant \<Rightarrow> iam_db \<Rightarrow> permissions_error + nat \<times> bool \<times> iam_db" where
  "seed_base_roles fresh now db = seed_roles fresh now BASE_ROLES 0 False db"

definition bind_owner :: "uuid \<Rightarrow> instant \<Rightarrow> iam_db \<Rightarrow> uuid \<Rightarrow> (permissions_error + uuid option) \<times> iam_db" where
  "bind_owner fresh now db user =
     (case find_role_by_key db None ''owner'' of
        None \<Rightarrow> (Inl RoleNotFound, db)
      | Some owner \<Rightarrow>
          (case grant_if_missing fresh now db
                  \<lparr>nb_role_id = role_id owner, nb_subject = SubjectUser user, nb_scope = ScopeGlobal,
                   nb_granted_by = None, nb_expires_at = None\<rparr> of
             (Inl e, db') \<Rightarrow> (Inl e, db')
           | (Inr b, db') \<Rightarrow> (Inr (map_option binding_id b), db')))"

definition has_live_owner :: "instant \<Rightarrow> iam_db \<Rightarrow> bool" where
  "has_live_owner now db =
     list_ex (\<lambda>b. is_live now b \<and>
       list_ex (\<lambda>r. role_id r = binding_role_id b \<and> role_key r = ''owner'' \<and> role_organization_id r = None) (t_roles db))
     (t_bindings db)"

definition earliest_active :: "user_row list \<Rightarrow> uuid option" where
  "earliest_active users =
     (case sort_key (\<lambda>u. (user_created_at u, user_id u)) (filter (\<lambda>u. user_status u = ''active'') users) of
        [] \<Rightarrow> None | u # _ \<Rightarrow> Some (user_id u))"

definition ensure_owner_binding ::
  "uuid \<Rightarrow> instant \<Rightarrow> user_row list \<Rightarrow> iam_db \<Rightarrow> (permissions_error + uuid option) \<times> iam_db" where
  "ensure_owner_binding fresh now users db =
     (if has_live_owner now db then (Inr None, db)
      else (case earliest_active users of
              None \<Rightarrow> (Inr None, db)
            | Some user \<Rightarrow>
                (case bind_owner fresh now db user of
                   (Inl e, db') \<Rightarrow> (Inl e, db')
                 | (Inr _, db') \<Rightarrow> (Inr (Some user), db'))))"

definition ensure_seed ::
  "(string \<Rightarrow> uuid) \<Rightarrow> uuid \<Rightarrow> instant \<Rightarrow> seed_db \<Rightarrow> (permissions_error + seed_report) \<times> seed_db" where
  "ensure_seed fresh fresh_binding now db =
     (case seed_catalogue db of (permissions, db1) \<Rightarrow>
        (case seed_base_roles fresh now (se_iam db1) of
           Inl e \<Rightarrow> (Inl e, db1)
         | Inr (created, owner_synced, iam) \<Rightarrow>
             (case ensure_owner_binding fresh_binding now (se_users db1) iam of
                (Inl e, iam') \<Rightarrow> (Inl e, db1\<lparr>se_iam := iam'\<rparr>)
              | (Inr bound, iam') \<Rightarrow>
                  (Inr \<lparr>sd_permissions = permissions, sd_roles_created = created, sd_owner_synced = owner_synced,
                        sd_owner_bound = bound\<rparr>, db1\<lparr>se_iam := iam'\<rparr>))))"

subsection \<open>Entries of one role\<close>

abbreviation allow_row :: "uuid \<Rightarrow> string \<Rightarrow> entry_row" where
  "allow_row i key \<equiv> \<lparr>er_role_id = i, er_key = key, er_effect = Allow\<rparr>"

text \<open>The primary key of \<open>role_permissions\<close>.\<close>

definition entries_unique :: "iam_db \<Rightarrow> bool" where
  "entries_unique db \<longleftrightarrow> distinct (map (\<lambda>e. (er_role_id e, er_key e)) (t_entries db))"

lemma entries_uniqueD: "entries_unique db \<Longrightarrow> a \<in> set (t_entries db) \<Longrightarrow> b \<in> set (t_entries db) \<Longrightarrow>
  er_role_id a = er_role_id b \<Longrightarrow> er_key a = er_key b \<Longrightarrow> a = b"
  unfolding entries_unique_def by (auto simp: distinct_map dest: inj_onD)

lemma entry_row_eq: "e = allow_row i key \<longleftrightarrow> er_role_id e = i \<and> er_key e = key \<and> er_effect e = Allow"
  by (cases e) simp

lemma ensure_allow_entry_spec:
  assumes u: "entries_unique db" and e: "ensure_allow_entry db i key = (gained, db')"
  shows "entries_unique db'" and "t_roles db' = t_roles db"
    and "set (t_entries db') = insert (allow_row i key) {e \<in> set (t_entries db). \<not> (er_role_id e = i \<and> er_key e = key)}"
    and "allow_row i key \<in> set (t_entries db) \<Longrightarrow> \<not> gained \<and> db' = db"
    and "\<not> gained \<Longrightarrow> db' = db"
proof -
  have "entries_unique db' \<and> t_roles db' = t_roles db \<and>
      set (t_entries db') = insert (allow_row i key) {e \<in> set (t_entries db). \<not> (er_role_id e = i \<and> er_key e = key)} \<and>
      (allow_row i key \<in> set (t_entries db) \<longrightarrow> \<not> gained \<and> db' = db) \<and> (\<not> gained \<longrightarrow> db' = db)"
  proof (cases "find (\<lambda>e. er_role_id e = i \<and> er_key e = key) (t_entries db)")
    case None
    then have n: "\<And>x. x \<in> set (t_entries db) \<Longrightarrow> \<not> (er_role_id x = i \<and> er_key x = key)" by (simp add: find_None_all)
    have r: "gained" "db' = db\<lparr>t_entries := t_entries db @ [allow_row i key]\<rparr>"
      using e None by (simp_all add: ensure_allow_entry_def)
    have "allow_row i key \<notin> set (t_entries db)" using n by force
    moreover have "entries_unique db'" using u r(2) n by (auto simp: entries_unique_def)
    ultimately show ?thesis using r n by auto
  next
    case (Some x)
    then have x: "x \<in> set (t_entries db)" "er_role_id x = i" "er_key x = key" using find_Some_mem[OF Some] by simp_all
    have only: "y \<in> set (t_entries db) \<Longrightarrow> er_role_id y = i \<Longrightarrow> er_key y = key \<Longrightarrow> y = x" for y
      using entries_uniqueD[OF u] x by simp
    show ?thesis
    proof (cases "er_effect x = Allow")
      case True
      then have xa: "x = allow_row i key" using x by (simp add: entry_row_eq)
      have "set (t_entries db) = insert x {e \<in> set (t_entries db). \<not> (er_role_id e = i \<and> er_key e = key)}"
        using x only by blast
      moreover have "\<not> gained" "db' = db" using e Some True by (simp_all add: ensure_allow_entry_def)
      ultimately show ?thesis using u x(1) unfolding xa by simp
    next
      case False
      let ?rows = "update_row (\<lambda>e. er_role_id e = i \<and> er_key e = key) (\<lambda>e. e\<lparr>er_effect := Allow\<rparr>) (t_entries db)"
      have r: "gained" "db' = db\<lparr>t_entries := ?rows\<rparr>" using e Some False by (simp_all add: ensure_allow_entry_def)
      have "map (\<lambda>e. (er_role_id e, er_key e)) ?rows = map (\<lambda>e. (er_role_id e, er_key e)) (t_entries db)"
        by (simp add: update_row_def)
      then have "entries_unique db'" using u r(2) by (simp add: entries_unique_def)
      moreover have "set ?rows = insert (allow_row i key) {e \<in> set (t_entries db). \<not> (er_role_id e = i \<and> er_key e = key)}"
        using x by (force simp: update_row_def entry_row_eq)
      moreover have "allow_row i key \<notin> set (t_entries db)" using only[of "allow_row i key"] False by auto
      ultimately show ?thesis using r by simp
    qed
  qed
  then show "entries_unique db'" and "t_roles db' = t_roles db"
    and "set (t_entries db') = insert (allow_row i key) {e \<in> set (t_entries db). \<not> (er_role_id e = i \<and> er_key e = key)}"
    and "allow_row i key \<in> set (t_entries db) \<Longrightarrow> \<not> gained \<and> db' = db" and "\<not> gained \<Longrightarrow> db' = db" by blast+
qed

lemma ensure_entries_fold:
  assumes "entries_unique db"
    and "fold (\<lambda>key (gained, db). case ensure_allow_entry db i key of (g, db') \<Rightarrow> (gained \<or> g, db')) keys (g0, db) = (gained, db')"
  shows "entries_unique db' \<and> t_roles db' = t_roles db \<and>
    set (t_entries db') = allow_row i ` set keys \<union> {e \<in> set (t_entries db). \<not> (er_role_id e = i \<and> er_key e \<in> set keys)} \<and>
    (allow_row i ` set keys \<subseteq> set (t_entries db) \<longrightarrow> gained = g0 \<and> db' = db)"
  using assms
proof (induction keys arbitrary: g0 db)
  case (Cons key keys)
  obtain g db1 where e: "ensure_allow_entry db i key = (g, db1)" by fastforce
  note s = ensure_allow_entry_spec[OF Cons.prems(1) e]
  from Cons.IH[OF s(1)] Cons.prems(2) e
  have ih: "entries_unique db'" "t_roles db' = t_roles db1"
      "set (t_entries db') = allow_row i ` set keys \<union> {e \<in> set (t_entries db1). \<not> (er_role_id e = i \<and> er_key e \<in> set keys)}"
      "allow_row i ` set keys \<subseteq> set (t_entries db1) \<longrightarrow> gained = (g0 \<or> g) \<and> db' = db1"
    by auto
  have "set (t_entries db') = allow_row i ` set (key # keys) \<union> {e \<in> set (t_entries db). \<not> (er_role_id e = i \<and> er_key e \<in> set (key # keys))}"
    unfolding ih(3) s(3) by auto
  moreover have "gained = g0 \<and> db' = db" if sub: "allow_row i ` set (key # keys) \<subseteq> set (t_entries db)"
  proof -
    have "\<not> g" "db1 = db" using s(4) sub by simp_all
    then show ?thesis using ih(4) sub by simp
  qed
  ultimately show ?case using ih(1,2) s(2) by simp
qed auto

subsection \<open>Seeding one base role\<close>

abbreviation base_keys :: "base_role \<Rightarrow> string list" where
  "base_keys base \<equiv> base_permission_keys (br_permissions base)"

definition entries_at :: "iam_db \<Rightarrow> uuid \<Rightarrow> entry_row set" where
  "entries_at db i = {e \<in> set (t_entries db). er_role_id e = i}"

definition seeded :: "iam_db \<Rightarrow> base_role \<Rightarrow> bool" where
  "seeded db base \<longleftrightarrow> (\<exists>r. find_role_by_key db None (br_key base) = Some r \<and>
     entries_at db (role_id r) = allow_row (role_id r) ` set (base_keys base))"

definition seedable :: "iam_db \<Rightarrow> bool" where
  "seedable db \<longleftrightarrow> entries_unique db \<and> distinct (map role_id (t_roles db))"

definition unused_id :: "iam_db \<Rightarrow> uuid \<Rightarrow> bool" where
  "unused_id db i \<longleftrightarrow> i \<notin> role_ids db \<and> entries_at db i = {}"

lemma entries_at_empty: "entries_at db i = {} \<longleftrightarrow> list_all (\<lambda>e. er_role_id e \<noteq> i) (t_entries db)"
  by (auto simp: entries_at_def list_all_iff)

lemma add_entries_spec:
  assumes "entries_unique db"
  shows "entries_unique (fold (\<lambda>key db. add_entry db i key Allow) keys db) \<and>
    t_roles (fold (\<lambda>key db. add_entry db i key Allow) keys db) = t_roles db \<and>
    (\<forall>j. j \<noteq> i \<longrightarrow> entries_at (fold (\<lambda>key db. add_entry db i key Allow) keys db) j = entries_at db j)"
  using assms
proof (induction keys arbitrary: db)
  case (Cons key keys)
  have "entries_unique (add_entry db i key Allow)" using Cons.prems
    by (auto simp: add_entry_def entries_unique_def list_ex_iff)
  moreover have "t_roles (add_entry db i key Allow) = t_roles db" by (simp add: add_entry_def)
  moreover have "j \<noteq> i \<Longrightarrow> entries_at (add_entry db i key Allow) j = entries_at db j" for j
    by (auto simp: add_entry_def entries_at_def)
  ultimately show ?case using Cons.IH[of "add_entry db i key Allow"] by simp
qed simp

lemma normalise_entries:
  assumes "entries_unique db" and "ensure_entries i keys db = (gained, db')"
  shows "entries_unique (snd (prune_entries db' i keys))"
    and "t_roles (snd (prune_entries db' i keys)) = t_roles db"
    and "entries_at (snd (prune_entries db' i keys)) i = allow_row i ` set keys"
    and "j \<noteq> i \<Longrightarrow> entries_at (snd (prune_entries db' i keys)) j = entries_at db j"
    and "entries_at db i = allow_row i ` set keys \<Longrightarrow> \<not> gained \<and> snd (prune_entries db' i keys) = db"
proof -
  from ensure_entries_fold[OF assms(1) assms(2)[unfolded ensure_entries_def]]
  have f: "entries_unique db'" "t_roles db' = t_roles db"
      "set (t_entries db') = allow_row i ` set keys \<union> {e \<in> set (t_entries db). \<not> (er_role_id e = i \<and> er_key e \<in> set keys)}"
      "allow_row i ` set keys \<subseteq> set (t_entries db) \<longrightarrow> \<not> gained \<and> db' = db" by simp_all
  show "entries_unique (snd (prune_entries db' i keys))" using f(1)
    by (simp add: prune_entries_def entries_unique_def Let_def distinct_filter_ids)
  show "t_roles (snd (prune_entries db' i keys)) = t_roles db" using f(2) by (simp add: prune_entries_def Let_def)
  have p: "set (t_entries (snd (prune_entries db' i keys))) = {e \<in> set (t_entries db'). \<not> (er_role_id e = i \<and> er_key e \<notin> set keys)}"
    by (simp add: prune_entries_def Let_def)
  show "entries_at (snd (prune_entries db' i keys)) i = allow_row i ` set keys" unfolding entries_at_def p f(3) by auto
  show "j \<noteq> i \<Longrightarrow> entries_at (snd (prune_entries db' i keys)) j = entries_at db j" unfolding entries_at_def p f(3) by auto
  assume e: "entries_at db i = allow_row i ` set keys"
  then have n: "\<not> gained" "db' = db" using f(4) unfolding entries_at_def by blast+
  have "er_key x \<in> set keys" if "x \<in> set (t_entries db)" "er_role_id x = i" for x
  proof -
    have "x \<in> allow_row i ` set keys" using that e unfolding entries_at_def by blast
    then show ?thesis by auto
  qed
  then have "filter (\<lambda>e. \<not> (er_role_id e = i \<and> er_key e \<notin> set keys)) (t_entries db) = t_entries db"
    unfolding filter_id_conv by blast
  then show "\<not> gained \<and> snd (prune_entries db' i keys) = db" using n by (simp add: prune_entries_def Let_def)
qed

lemma find_role_by_key_mem:
  "find_role_by_key db org key = Some r \<Longrightarrow> r \<in> set (t_roles db) \<and> role_key r = key \<and> role_organization_id r = org"
  unfolding find_role_by_key_def by (drule find_Some_mem) simp

lemma find_role_by_key_append:
  "find_role_by_key db org key = Some r \<Longrightarrow> t_roles db' = t_roles db @ rs \<Longrightarrow> find_role_by_key db' org key = Some r"
  unfolding find_role_by_key_def by (simp add: find_append_Some)

lemma seed_base_row_spec:
  assumes ok: "seedable db" and f: "find_role_by_key db None (br_key base) = None \<longrightarrow> unused_id db (fresh (br_key base))"
  obtains created r db1 rs where "seed_base_row fresh now db base = Inr (created, r, db1)"
    "find_role_by_key db1 None (br_key base) = Some r" "seedable db1" "t_roles db1 = t_roles db @ rs"
    "set rs \<subseteq> {q. q = r \<and> role_id q = fresh (br_key base)}" "\<forall>j. j \<noteq> role_id r \<longrightarrow> entries_at db1 j = entries_at db j"
proof (cases "find_role_by_key db None (br_key base)")
  case (Some r)
  then show ?thesis using ok that[of 0 r db "[]"] by (simp add: seed_base_row_def)
next
  case None
  define r where "r = \<lparr>role_id = fresh (br_key base), role_organization_id = None, role_key = br_key base, role_name = br_name base,
        role_description = br_description base, role_priority = br_priority base, inherits_role_id = None,
        inherit_permissions = True, is_system = True, role_created_at = now, role_updated_at = now\<rparr>"
  define db0 where "db0 = db\<lparr>t_roles := t_roles db @ [r]\<rparr>"
  define db1 where "db1 = fold (\<lambda>key db. add_entry db (role_id r) key Allow) (base_keys base) db0"
  have s: "seed_base_row fresh now db base = Inr (1, r, db1)"
    unfolding seed_base_row_def None insert_system_role_def insert_role_def key_taken_def
    by (simp add: r_def[symmetric] db0_def db1_def) (simp add: r_def None)
  have u: "unused_id db (role_id r)" using f None by (simp add: r_def)
  have u0: "entries_unique db0" using ok by (simp add: seedable_def entries_unique_def db0_def)
  note e = add_entries_spec[OF u0, of "role_id r" "base_keys base", folded db1_def]
  have roles: "t_roles db1 = t_roles db @ [r]" using e by (simp add: db0_def)
  have "find_role_by_key db1 None (br_key base) = Some r"
    using None unfolding find_role_by_key_def roles find_snoc by (simp add: r_def)
  moreover have "seedable db1"
    using ok u conjunct1[OF e] unfolding seedable_def roles by (simp add: unused_id_def role_ids_def)
  moreover have "j \<noteq> role_id r \<Longrightarrow> entries_at db1 j = entries_at db j" for j
    using e by (simp add: db0_def entries_at_def)
  ultimately show ?thesis using that[OF s] roles by (simp add: r_def)
qed

lemma seed_base_role_spec:
  assumes ok: "seedable db" and f: "find_role_by_key db None (br_key base) = None \<longrightarrow> unused_id db (fresh (br_key base))"
    and known: "list_all is_known (base_keys base)"
  obtains created gained r db' rs where "seed_base_role fresh now db base = Inr (created, gained, db')"
    "find_role_by_key db' None (br_key base) = Some r" "seedable db'" "t_roles db' = t_roles db @ rs"
    "set rs \<subseteq> {q. q = r \<and> role_id q = fresh (br_key base)}" "\<forall>j. j \<noteq> role_id r \<longrightarrow> entries_at db' j = entries_at db j"
    "entries_at db' (role_id r) = allow_row (role_id r) ` set (base_keys base)"
proof -
  obtain created r db1 rs where b: "seed_base_row fresh now db base = Inr (created, r, db1)"
    "find_role_by_key db1 None (br_key base) = Some r" "seedable db1" "t_roles db1 = t_roles db @ rs"
    "set rs \<subseteq> {q. q = r \<and> role_id q = fresh (br_key base)}" "\<forall>j. j \<noteq> role_id r \<longrightarrow> entries_at db1 j = entries_at db j"
    by (rule seed_base_row_spec[of db base fresh now, OF ok f])
  obtain gained db2 where e: "ensure_entries (role_id r) (base_keys base) db1 = (gained, db2)" by fastforce
  let ?db' = "snd (prune_entries db2 (role_id r) (base_keys base))"
  have u: "entries_unique db1" using b(3) by (simp add: seedable_def)
  note n = normalise_entries[OF u e]
  have k: "find (\<lambda>key. \<not> is_known key) (base_keys base) = None" using known by (simp add: find_None_all list_all_iff)
  have "seed_base_role fresh now db base = Inr (created, gained, ?db')"
    unfolding seed_base_role_def Let_def k by (simp add: b(1) e)
  moreover have "seedable ?db'" using b(3) n(1,2) by (simp add: seedable_def)
  moreover have "find_role_by_key ?db' None (br_key base) = Some r" using b(2) n(2) by (simp add: find_role_by_key_def)
  moreover have "\<forall>j. j \<noteq> role_id r \<longrightarrow> entries_at ?db' j = entries_at db j" using b(6) n(4) by simp
  ultimately show ?thesis using that b(4,5) n(2,3) by simp
qed

lemma seeded_again:
  assumes "seedable db" and "seeded db base" and "list_all is_known (base_keys base)"
  shows "seed_base_role fresh now db base = Inr (0, False, db)"
proof -
  obtain r where r: "find_role_by_key db None (br_key base) = Some r"
      "entries_at db (role_id r) = allow_row (role_id r) ` set (base_keys base)"
    using assms(2) by (auto simp: seeded_def)
  obtain gained db2 where e: "ensure_entries (role_id r) (base_keys base) db = (gained, db2)" by fastforce
  have u: "entries_unique db" using assms(1) by (simp add: seedable_def)
  have k: "find (\<lambda>key. \<not> is_known key) (base_keys base) = None" using assms(3) by (simp add: find_None_all list_all_iff)
  show ?thesis unfolding seed_base_role_def Let_def k
    using normalise_entries(5)[OF u e r(2)] by (simp add: seed_base_row_def r(1) e)
qed

lemma seeded_stays:
  assumes "seeded db b" and "seedable db'" and "t_roles db' = t_roles db @ rs" and "r \<in> set (t_roles db')"
    and "role_key r \<noteq> br_key b" and "\<And>j. j \<noteq> role_id r \<Longrightarrow> entries_at db' j = entries_at db j"
  shows "seeded db' b"
proof -
  obtain q where q: "find_role_by_key db None (br_key b) = Some q"
      "entries_at db (role_id q) = allow_row (role_id q) ` set (base_keys b)"
    using assms(1) by (auto simp: seeded_def)
  have q': "find_role_by_key db' None (br_key b) = Some q" using find_role_by_key_append[OF q(1) assms(3)] .
  have "role_id q \<noteq> role_id r"
  proof
    assume "role_id q = role_id r"
    moreover have "q \<in> set (t_roles db')" "role_key q = br_key b" using find_role_by_key_mem[OF q'] by simp_all
    ultimately have "q = r" using assms(2,4) unfolding seedable_def by (metis distinct_map inj_onD)
    then show False using assms(5) \<open>role_key q = br_key b\<close> by simp
  qed
  then show ?thesis using q q' assms(6) by (auto simp: seeded_def)
qed

subsection \<open>Seeding them all\<close>

lemma seed_roles_spec:
  assumes "seedable db" and "distinct (map br_key bases)" and "\<And>b. b \<in> set bases \<Longrightarrow> list_all is_known (base_keys b)"
    and "inj_on fresh (br_key ` set bases)" and "\<And>b. b \<in> set bases \<Longrightarrow> unused_id db (fresh (br_key b))"
    and "\<And>b. b \<in> set earlier \<Longrightarrow> seeded db b" and "br_key ` set earlier \<inter> br_key ` set bases = {}"
  shows "\<exists>c' g' db'. seed_roles fresh now bases c g db = Inr (c', g', db') \<and> seedable db' \<and>
    (\<forall>b \<in> set earlier \<union> set bases. seeded db' b) \<and> (\<exists>rs. t_roles db' = t_roles db @ rs \<and> list_all (\<lambda>r. role_organization_id r = None) rs) \<and>
    (\<forall>r \<in> set (t_roles db). role_organization_id r \<noteq> None \<longrightarrow> entries_at db' (role_id r) = entries_at db (role_id r))"
  using assms
proof (induction bases arbitrary: c g db earlier)
  case (Cons base bases)
  obtain created gained r db1 rs where b: "seed_base_role fresh now db base = Inr (created, gained, db1)"
    "find_role_by_key db1 None (br_key base) = Some r" "seedable db1" "t_roles db1 = t_roles db @ rs"
    "set rs \<subseteq> {q. q = r \<and> role_id q = fresh (br_key base)}" "\<forall>j. j \<noteq> role_id r \<longrightarrow> entries_at db1 j = entries_at db j"
    "entries_at db1 (role_id r) = allow_row (role_id r) ` set (base_keys base)"
    by (rule seed_base_role_spec[of db base fresh now, OF Cons.prems(1)]) (use Cons.prems(3,5) in simp_all)
  have r: "r \<in> set (t_roles db1)" "role_key r = br_key base" "role_organization_id r = None"
    using find_role_by_key_mem[OF b(2)] by simp_all
  have s1: "seeded db1 x" if "x \<in> set (base # earlier)" for x
  proof (cases "x = base")
    case True
    then show ?thesis using b(2,7) by (auto simp: seeded_def)
  next
    case False
    then have x: "x \<in> set earlier" using that by simp
    then have "role_key r \<noteq> br_key x" using Cons.prems(7) r(2) by auto
    then show ?thesis using seeded_stays[OF Cons.prems(6)[OF x] b(3,4) r(1)] b(6) by blast
  qed
  have u1: "unused_id db1 (fresh (br_key x))" if "x \<in> set bases" for x
  proof -
    have u: "unused_id db (fresh (br_key x))" using Cons.prems(5) that by simp
    have "br_key x \<in> br_key ` set bases" using that by (rule imageI)
    then have "br_key x \<noteq> br_key base" using Cons.prems(2) by auto
    then have ne: "fresh (br_key x) \<noteq> fresh (br_key base)" using inj_onD[OF Cons.prems(4), of "br_key x" "br_key base"] that by auto
    then have n: "fresh (br_key x) \<notin> role_ids db1" using u b(4,5) by (auto simp: unused_id_def role_ids_def)
    then have "fresh (br_key x) \<noteq> role_id r" using r(1) by (auto simp: role_ids_def)
    then show ?thesis using n u b(6) by (simp add: unused_id_def)
  qed
  have "\<exists>c' g' db'. seed_roles fresh now bases (c + created) (if br_key base = ''owner'' then g \<or> gained else g) db1 = Inr (c', g', db') \<and> seedable db' \<and>
    (\<forall>x \<in> set (base # earlier) \<union> set bases. seeded db' x) \<and> (\<exists>rs. t_roles db' = t_roles db1 @ rs \<and> list_all (\<lambda>r. role_organization_id r = None) rs) \<and>
    (\<forall>r \<in> set (t_roles db1). role_organization_id r \<noteq> None \<longrightarrow> entries_at db' (role_id r) = entries_at db1 (role_id r))"
    by (rule Cons.IH[OF b(3)])
      (use Cons.prems(2,3,4,7) u1 s1 in \<open>auto simp: inj_on_def\<close>)
  then obtain c' g' db' rs' where ih: "seed_roles fresh now bases (c + created) (if br_key base = ''owner'' then g \<or> gained else g) db1 = Inr (c', g', db')"
      "seedable db'" "\<forall>x \<in> set (base # earlier) \<union> set bases. seeded db' x" "t_roles db' = t_roles db1 @ rs'"
      "list_all (\<lambda>r. role_organization_id r = None) rs'"
      "\<forall>r \<in> set (t_roles db1). role_organization_id r \<noteq> None \<longrightarrow> entries_at db' (role_id r) = entries_at db1 (role_id r)" by blast
  have "entries_at db' (role_id q) = entries_at db (role_id q)" if q: "q \<in> set (t_roles db)" "role_organization_id q \<noteq> None" for q
  proof -
    have m: "q \<in> set (t_roles db1)" using q b(4) by simp
    have "role_id q \<noteq> role_id r"
    proof
      assume "role_id q = role_id r"
      then have "q = r" using m r(1) b(3) unfolding seedable_def by (metis distinct_map inj_onD)
      then show False using q(2) r(3) by simp
    qed
    then show ?thesis using ih(6) m q(2) b(6) by simp
  qed
  moreover have "t_roles db' = t_roles db @ (rs @ rs')" "list_all (\<lambda>r. role_organization_id r = None) (rs @ rs')"
    using ih(4,5) b(4,5) r(3) by (auto simp: list_all_iff)
  moreover have "seed_roles fresh now (base # bases) c g db = Inr (c', g', db')" using b(1) ih(1) by simp
  ultimately show ?case using ih(2,3) by (intro exI[of _ c'] exI[of _ g'] exI[of _ db']) auto
qed (auto simp: list_all_iff)

lemma seed_roles_again:
  assumes "seedable db" and "\<And>b. b \<in> set bases \<Longrightarrow> seeded db b \<and> list_all is_known (base_keys b)"
  shows "seed_roles fresh now bases c g db = Inr (c, g, db)"
  using assms(2) by (induction bases arbitrary: c g) (simp_all add: seeded_again[OF assms(1)])


lemma is_known_iff: "is_known key \<longleftrightarrow> key \<in> set catalogue_keys"
  unfolding is_known_def catalogue_get_def catalogue_keys_def by (auto simp: find_None_iff)

lemma base_keys_known: "base \<in> set BASE_ROLES \<Longrightarrow> list_all is_known (base_keys base)"
proof -
  assume "base \<in> set BASE_ROLES"
  then obtain i where i: "i < length BASE_ROLES" "base = BASE_ROLES ! i" by (auto simp: in_set_conv_nth)
  then have "i \<in> set [0, 1, 2, 3, 4, 5]" by (auto simp: BASE_ROLES_def)
  then have "within (held i) catalogue_keys" using held_catalogued unfolding list_all_iff by blast
  then show ?thesis by (simp add: i(2) held_def within_def list_all_iff List.member_iff is_known_iff)
qed

lemma base_role_keys: "map br_key BASE_ROLES = [''owner'', ''administrator'', ''manager'', ''moderator'', ''editor'', ''member'']"
  by (simp add: BASE_ROLES_def)

lemma base_role_keys_distinct: "distinct (map br_key BASE_ROLES)"
  unfolding base_role_keys by simp

text \<open>The identifiers of a run are its own: none is used in the tables, and no two roles share one.\<close>

definition fresh_ids :: "(string \<Rightarrow> uuid) \<Rightarrow> iam_db \<Rightarrow> bool" where
  "fresh_ids fresh db \<longleftrightarrow> distinct (map (\<lambda>b. fresh (br_key b)) BASE_ROLES) \<and>
     list_all (\<lambda>b. unused_id db (fresh (br_key b))) BASE_ROLES"

lemma seed_base_roles_spec:
  assumes "seedable db" and "fresh_ids fresh db"
  shows "\<exists>c' g' db'. seed_base_roles fresh now db = Inr (c', g', db') \<and> seedable db' \<and>
    (\<forall>b \<in> set BASE_ROLES. seeded db' b) \<and> (\<exists>rs. t_roles db' = t_roles db @ rs \<and> list_all (\<lambda>r. role_organization_id r = None) rs) \<and>
    (\<forall>r \<in> set (t_roles db). role_organization_id r \<noteq> None \<longrightarrow> entries_at db' (role_id r) = entries_at db (role_id r))"
proof -
  have i: "inj_on fresh (br_key ` set BASE_ROLES)"
    using assms(2) unfolding fresh_ids_def by (auto simp: distinct_map inj_on_def)
  have u: "b \<in> set BASE_ROLES \<Longrightarrow> unused_id db (fresh (br_key b))" for b
    using assms(2) unfolding fresh_ids_def list_all_iff by blast
  show ?thesis unfolding seed_base_roles_def
    using seed_roles_spec[where earlier = "[]", OF assms(1) base_role_keys_distinct base_keys_known i u] by simp
qed

lemma seed_base_roles_again:
  assumes "seedable db" and "\<forall>b \<in> set BASE_ROLES. seeded db b"
  shows "seed_base_roles fresh now db = Inr (0, False, db)"
  unfolding seed_base_roles_def using seed_roles_again[OF assms(1)] assms(2) base_keys_known by blast

lemma ensure_entries_subjects: "t_subjects (snd (ensure_entries i keys db)) = t_subjects db"
proof -
  have "t_subjects (snd (fold (\<lambda>key (gained, db). case ensure_allow_entry db i key of (g, db') \<Rightarrow> (gained \<or> g, db')) keys (g0, db))) =
      t_subjects db" for g0
    by (induction keys arbitrary: g0 db) (auto simp: ensure_allow_entry_def split: prod.split option.split)
  then show ?thesis by (simp add: ensure_entries_def)
qed

lemma add_entries_subjects: "t_subjects (fold (\<lambda>key db. add_entry db i key Allow) keys db) = t_subjects db"
  by (induction keys arbitrary: db) (simp_all add: add_entry_def)

lemma seed_base_role_subjects:
  assumes "seed_base_role fresh now db base = Inr (c, g, db')"
  shows "t_subjects db' = t_subjects db"
proof -
  obtain r db1 where b: "seed_base_row fresh now db base = Inr (c, r, db1)"
      "db' = snd (prune_entries (snd (ensure_entries (role_id r) (base_keys base) db1)) (role_id r) (base_keys base))"
    using assms unfolding seed_base_role_def Let_def
    by (cases "find (\<lambda>key. \<not> is_known key) (base_keys base)") (auto simp: res_bind_Inr_conv case_prod_beta)
  have "t_subjects db1 = t_subjects db" using b(1)
    by (auto simp: seed_base_row_def insert_system_role_def insert_role_def ok_or_def res_bind_def add_entries_subjects Let_def
      split: option.split_asm sum.split_asm if_split_asm)
  then show ?thesis unfolding b(2) by (simp add: prune_entries_def Let_def ensure_entries_subjects)
qed

lemma seed_base_roles_subjects:
  "seed_base_roles fresh now db = Inr (c, g, db') \<Longrightarrow> t_subjects db' = t_subjects db"
proof -
  have "seed_roles fresh now bases c0 g0 db = Inr (c, g, db') \<Longrightarrow> t_subjects db' = t_subjects db" for bases c0 g0
  proof (induction bases arbitrary: c0 g0 db)
    case (Cons base bases)
    from Cons.prems obtain c1 g1 db1 where "seed_base_role fresh now db base = Inr (c1, g1, db1)"
        "seed_roles fresh now bases (c0 + c1) (if br_key base = ''owner'' then g0 \<or> g1 else g0) db1 = Inr (c, g, db')"
      by (cases "seed_base_role fresh now db base") (auto simp: res_bind_def)
    then show ?case using Cons.IH seed_base_role_subjects by metis
  qed simp
  then show "seed_base_roles fresh now db = Inr (c, g, db') \<Longrightarrow> t_subjects db' = t_subjects db" unfolding seed_base_roles_def .
qed

subsection \<open>The owner\<close>

lemma scope_type_global: "scope_type sc = ''global'' \<longleftrightarrow> sc = ScopeGlobal"
  by (cases sc) simp_all

lemma bind_owner_live:
  assumes none: "\<not> has_live_owner now db" and role: "find_role_by_key db None ''owner'' = Some owner"
    and user: "SubjectUser user \<in> set (t_subjects db)"
  shows "\<exists>db'. bind_owner fresh now db user = (Inr (Some fresh), db') \<and> has_live_owner now db'"
proof -
  let ?new = "\<lparr>nb_role_id = role_id owner, nb_subject = SubjectUser user, nb_scope = ScopeGlobal,
    nb_granted_by = None, nb_expires_at = None\<rparr>"
  have owner: "owner \<in> set (t_roles db)" "role_key owner = ''owner''" "role_organization_id owner = None"
    using find_role_by_key_mem[OF role] by simp_all
  define db1 where "db1 = retire_expired now ?new db"
  define row where "row = binding_row fresh now ?new"
  have same: "t_roles db1 = t_roles db" "t_subjects db1 = t_subjects db"
    by (simp_all add: db1_def retire_expired_def set_revoked_def)
  have free: "\<not> (revoked_at b = None \<and> binding_slot b = binding_slot row)" if b: "b \<in> set (t_bindings db1)" for b
  proof
    assume a: "revoked_at b = None \<and> binding_slot b = binding_slot row"
    then have sl: "binding_role_id b = role_id owner" "binding_subject b = SubjectUser user" "binding_scope b = ScopeGlobal"
      by (simp_all add: binding_slot_def slot_def row_def binding_row_def scope_type_global)
    have "b \<in> set (t_bindings db) \<and> \<not> is_past now b"
      using a b sl unfolding db1_def retire_expired_def set_revoked_def update_row_def by (auto split: if_split_asm)
    then have "b \<in> set (t_bindings db)" "is_live now b"
      using a by (auto simp: is_live_def is_past_def split: option.splits)
    then show False using none owner sl(1) unfolding has_live_owner_def list_ex_iff by force
  qed
  have "find_role db1 (role_id owner) \<noteq> None"
    using owner(1) unfolding find_role_def same(1) by (auto simp: find_None_iff)
  then have "references_ok db1 ?new" using user same by (simp add: references_ok_def)
  then have g: "grant_subject fresh now db ?new = (Inr row, db1\<lparr>t_bindings := t_bindings db1 @ [row]\<rparr>)"
    using free unfolding grant_subject_def Let_def db1_def[symmetric] row_def[symmetric] by (auto simp: list_ex_iff)
  have "has_live_owner now (db1\<lparr>t_bindings := t_bindings db1 @ [row]\<rparr>)"
    using owner unfolding has_live_owner_def by (auto simp: list_ex_iff same row_def binding_row_def is_live_def)
  then show ?thesis by (simp add: bind_owner_def role grant_if_missing_def g) (simp add: row_def binding_row_def)
qed

lemma earliest_active_mem: "earliest_active users = Some u \<Longrightarrow> \<exists>x \<in> set users. user_id x = u \<and> user_status x = ''active''"
proof -
  assume a: "earliest_active users = Some u"
  define xs where "xs = sort_key (\<lambda>u. (user_created_at u, user_id u)) (filter (\<lambda>u. user_status u = ''active'') users)"
  obtain x ys where "xs = x # ys" "user_id x = u"
    using a unfolding earliest_active_def xs_def[symmetric] by (cases xs) simp_all
  moreover have "set xs = {u \<in> set users. user_status u = ''active''}" by (simp add: xs_def)
  ultimately show ?thesis by auto
qed

lemma earliest_active_Some: "x \<in> set users \<Longrightarrow> user_status x = ''active'' \<Longrightarrow> earliest_active users \<noteq> None"
proof -
  assume a: "x \<in> set users" "user_status x = ''active''"
  define xs where "xs = sort_key (\<lambda>u. (user_created_at u, user_id u)) (filter (\<lambda>u. user_status u = ''active'') users)"
  have "set xs = {u \<in> set users. user_status u = ''active''}" by (simp add: xs_def)
  then have "xs \<noteq> []" using a by auto
  then show ?thesis unfolding earliest_active_def xs_def[symmetric] by (cases xs) simp_all
qed

lemma ensure_owner_binding_live:
  assumes "find_role_by_key db None ''owner'' = Some owner" and "x \<in> set users" and "user_status x = ''active''"
    and "\<And>y. y \<in> set users \<Longrightarrow> SubjectUser (user_id y) \<in> set (t_subjects db)"
  shows "\<exists>db'. ensure_owner_binding fresh now users db =
    (Inr (if has_live_owner now db then None else earliest_active users), db') \<and> has_live_owner now db'"
proof (cases "has_live_owner now db")
  case False
  obtain u where u: "earliest_active users = Some u" using earliest_active_Some[OF assms(2,3)] by blast
  then have "SubjectUser u \<in> set (t_subjects db)" using earliest_active_mem[OF u] assms(4) by blast
  from bind_owner_live[OF False assms(1) this] obtain db' where
    "bind_owner fresh now db u = (Inr (Some fresh), db')" "has_live_owner now db'" by blast
  then show ?thesis using False u by (simp add: ensure_owner_binding_def)
qed (simp add: ensure_owner_binding_def)

subsection \<open>Properties\<close>

text \<open>
  Seeding converges: started on any consistent tables with fresh identifiers, the base roles are
  written without an error; afterwards every base role of the code exists and holds exactly the
  permissions the code gives it, all allowed - whatever it held before -, the organizations' own
  roles keep their entries, no role is lost, and the next start changes nothing and reports nothing.
\<close>

theorem seed_converges:
  assumes "seedable db" and "fresh_ids fresh db"
  shows "\<exists>created gained db'. seed_base_roles fresh now db = Inr (created, gained, db') \<and>
    (\<forall>base \<in> set BASE_ROLES. seeded db' base) \<and> (\<exists>rs. t_roles db' = t_roles db @ rs) \<and>
    (\<forall>r \<in> set (t_roles db). role_organization_id r \<noteq> None \<longrightarrow> entries_at db' (role_id r) = entries_at db (role_id r)) \<and>
    seed_base_roles fresh' later db' = Inr (0, False, db')"
proof -
  from seed_base_roles_spec[OF assms, of now] obtain c g db' rs where s: "seed_base_roles fresh now db = Inr (c, g, db')"
    "seedable db'" "\<forall>b \<in> set BASE_ROLES. seeded db' b" "t_roles db' = t_roles db @ rs"
    "\<forall>r \<in> set (t_roles db). role_organization_id r \<noteq> None \<longrightarrow> entries_at db' (role_id r) = entries_at db (role_id r)" by blast
  have "seed_base_roles fresh' later db' = Inr (0, False, db')" by (rule seed_base_roles_again[OF s(2,3)])
  then show ?thesis using s by blast
qed

text \<open>An installation whose owner role was edited: it denies one permission and holds one the code does not know.\<close>

definition edited_owner :: iam_db where
  "edited_owner = empty_db\<lparr>t_roles := [plain_role 1 None ''owner'', plain_role 2 (Some 9) ''owner''],
     t_entries := [\<lparr>er_role_id = 1, er_key = ''media.read'', er_effect = Deny\<rparr>,
       \<lparr>er_role_id = 1, er_key = ''gone'', er_effect = Allow\<rparr>, \<lparr>er_role_id = 2, er_key = ''gone'', er_effect = Deny\<rparr>]\<rparr>"

definition key_ids :: "string \<Rightarrow> uuid" where
  "key_ids key = (if key = ''owner'' then 10 else if key = ''administrator'' then 11 else if key = ''manager'' then 12
     else if key = ''moderator'' then 13 else if key = ''editor'' then 14 else 15)"

lemma edited_owner_ok: "seedable edited_owner" "fresh_ids key_ids edited_owner"
  by (simp_all add: seedable_def entries_unique_def edited_owner_def plain_role_def fresh_ids_def BASE_ROLES_def key_ids_def
      unused_id_def role_ids_def entries_at_empty)

theorem seed_converges_witness:
  "\<exists>created gained db'. seed_base_roles key_ids 5 edited_owner = Inr (created, gained, db') \<and>
     seeded db' (BASE_ROLES ! 0) \<and> entries_at db' 2 = {\<lparr>er_role_id = 2, er_key = ''gone'', er_effect = Deny\<rparr>} \<and>
     seed_base_roles key_ids 6 db' = Inr (0, False, db')"
proof -
  from seed_converges[OF edited_owner_ok, of 5 key_ids 6] obtain c g db' where s: "seed_base_roles key_ids 5 edited_owner = Inr (c, g, db')"
    "\<forall>base \<in> set BASE_ROLES. seeded db' base" "seed_base_roles key_ids 6 db' = Inr (0, False, db')"
    "\<forall>r \<in> set (t_roles edited_owner). role_organization_id r \<noteq> None \<longrightarrow>
       entries_at db' (role_id r) = entries_at edited_owner (role_id r)" by blast
  have "BASE_ROLES ! 0 \<in> set BASE_ROLES" by (simp add: BASE_ROLES_def)
  moreover have "entries_at db' 2 = entries_at edited_owner 2" using s(4) by (simp add: edited_owner_def plain_role_def)
  moreover have "entries_at edited_owner 2 = {\<lparr>er_role_id = 2, er_key = ''gone'', er_effect = Deny\<rparr>}"
    by (auto simp: entries_at_def edited_owner_def)
  ultimately show ?thesis using s by blast
qed

text \<open>
  No start leaves an installation without an owner: when there is an active account, a whole
  seeding run succeeds and afterwards somebody holds a live binding of the platform owner role - the
  one who held it before, or else the earliest active account, which the report then names.
\<close>

theorem startup_has_owner:
  assumes "seedable (se_iam db)" and "fresh_ids fresh (se_iam db)" and "x \<in> set (se_users db)" and "user_status x = ''active''"
    and "list_all (\<lambda>y. SubjectUser (user_id y) \<in> set (t_subjects (se_iam db))) (se_users db)"
  shows "\<exists>report db'. ensure_seed fresh fresh_binding now db = (Inr report, db') \<and> has_live_owner now (se_iam db') \<and>
    sd_owner_bound report \<in> {None, earliest_active (se_users db)}"
proof -
  from seed_base_roles_spec[OF assms(1,2), of now] obtain c g iam rs where s: "seed_base_roles fresh now (se_iam db) = Inr (c, g, iam)"
    "\<forall>b \<in> set BASE_ROLES. seeded iam b" by blast
  have subjects: "t_subjects iam = t_subjects (se_iam db)" using seed_base_roles_subjects[OF s(1)] .
  have "seeded iam (BASE_ROLES ! 0)" using s(2) by (simp add: BASE_ROLES_def)
  moreover have "br_key (BASE_ROLES ! 0) = ''owner''" by (simp add: BASE_ROLES_def)
  ultimately obtain owner where "find_role_by_key iam None ''owner'' = Some owner" unfolding seeded_def by auto
  from ensure_owner_binding_live[OF this assms(3,4), of fresh_binding now] assms(5)[unfolded list_all_iff] subjects obtain iam' where
    "ensure_owner_binding fresh_binding now (se_users db) iam =
       (Inr (if has_live_owner now iam then None else earliest_active (se_users db)), iam')" "has_live_owner now iam'" by auto
  then show ?thesis by (simp add: ensure_seed_def seed_catalogue_def s(1))
qed

definition ownerless :: seed_db where
  "ownerless = \<lparr>se_iam = edited_owner\<lparr>t_subjects := [SubjectUser 3, SubjectUser 4]\<rparr>, se_permissions = [],
     se_users = [\<lparr>user_id = 3, user_status = ''active'', user_created_at = 2\<rparr>, \<lparr>user_id = 4, user_status = ''active'', user_created_at = 1\<rparr>]\<rparr>"

theorem startup_has_owner_witness:
  "\<exists>report db'. ensure_seed key_ids 20 5 ownerless = (Inr report, db') \<and> has_live_owner 5 (se_iam db') \<and>
     sd_owner_bound report \<in> {None, Some 4}"
proof -
  have "seedable (se_iam ownerless)" "fresh_ids key_ids (se_iam ownerless)"
    using edited_owner_ok
    by (simp_all add: seedable_def entries_unique_def fresh_ids_def unused_id_def role_ids_def entries_at_def ownerless_def)
  moreover have "hd (se_users ownerless) \<in> set (se_users ownerless)" "user_status (hd (se_users ownerless)) = ''active''"
      "list_all (\<lambda>y. SubjectUser (user_id y) \<in> set (t_subjects (se_iam ownerless))) (se_users ownerless)"
    by (simp_all add: ownerless_def)
  moreover have "earliest_active (se_users ownerless) = Some 4" by (simp add: earliest_active_def ownerless_def)
  ultimately show ?thesis using startup_has_owner[of ownerless key_ids "hd (se_users ownerless)" 20 5] by simp
qed

end
