(* ===== verification/RateLimiter.thy ===== *)
theory RateLimiter
  imports Json
begin

text \<open>
  The rate limiter: the policy document and the pure decision (\<open>crates/security/src/limiter.rs\<close>),
  the counter (\<open>limiter_redis.rs\<close>), the layer on the request path
  (\<open>apps/api/src/rate_limit_middleware.rs\<close>) and the handler that saves the document.

  Redis is not code of the repository: the store is a type \<open>'r\<close> and the increment script an argument
  \<open>eval_increment\<close>, which answers \<open>None\<close> when the service cannot be reached; the locale
  \<open>counter_service\<close> states what the documented commands \<open>INCR\<close> and \<open>EXPIRE\<close> promise. The reader and
  the writer serde derives for a policy row are arguments too. An address is kept as its printed form.
  \<open>i32\<close> additions wrap, as in a release build.
\<close>

subsection \<open>The policy document\<close>

definition RATE_SCOPES :: "string list" where
  "RATE_SCOPES = [''global'', ''sign_in'', ''public_api'', ''authenticated_api'', ''webhook_intake'']"

definition RATE_MAX_WINDOW :: int where "RATE_MAX_WINDOW = 86400"
definition MIN_LIMIT :: int where "MIN_LIMIT = 1"
definition MAX_LIMIT :: int where "MAX_LIMIT = 1000000"
definition MAX_BURST :: int where "MAX_BURST = 10000"

record rate_policy =
  rl_scope :: string
  rl_window_seconds :: int
  rl_limit :: int
  rl_burst :: int
  rl_enabled :: bool

abbreviation rate_row :: "string \<Rightarrow> int \<Rightarrow> int \<Rightarrow> int \<Rightarrow> bool \<Rightarrow> rate_policy" where
  "rate_row scope window limit burst enabled \<equiv>
     \<lparr>rl_scope = scope, rl_window_seconds = window, rl_limit = limit, rl_burst = burst, rl_enabled = enabled\<rparr>"

definition rate_defaults :: "rate_policy list" where
  "rate_defaults =
     [rate_row ''global'' 60 600 100 True,
      rate_row ''sign_in'' 300 10 0 True,
      rate_row ''public_api'' 60 120 20 True,
      rate_row ''authenticated_api'' 60 1200 200 True,
      rate_row ''webhook_intake'' 60 300 50 True]"

text \<open>\<open>SecurityError\<close>; an \<open>Invalid\<close> carries what its message names.\<close>

datatype security_error =
    SecDatabase
  | EmptyScope
  | UnknownScope string
  | WindowOutOfRange int
  | LimitOutOfRange int
  | BurstOutOfRange int
  | NoPolicyFor string
  | UnreadableRow
  | DocumentMoved

definition rate_policy_new ::
  "string \<Rightarrow> int \<Rightarrow> int \<Rightarrow> int \<Rightarrow> bool \<Rightarrow> security_error + rate_policy" where
  "rate_policy_new raw window limit burst enabled =
     (let scope = to_lowercase (trim raw) in
      if scope = [] then Inl EmptyScope
      else if scope \<notin> set RATE_SCOPES then Inl (UnknownScope scope)
      else if window < 1 \<or> window > RATE_MAX_WINDOW then Inl (WindowOutOfRange window)
      else if limit < MIN_LIMIT \<or> limit > MAX_LIMIT then Inl (LimitOutOfRange limit)
      else if burst < 0 \<or> burst > MAX_BURST then Inl (BurstOutOfRange burst)
      else Inr (rate_row scope window limit burst enabled))"

definition ceiling_of :: "rate_policy \<Rightarrow> int" where
  "ceiling_of p = wrap32 (rl_limit p + rl_burst p)"

definition admits :: "rate_policy \<Rightarrow> int \<Rightarrow> bool" where
  "admits p count \<longleftrightarrow> count \<le> wrap32 (rl_limit p + rl_burst p)"

definition merge_row :: "rate_policy option \<Rightarrow> rate_policy list \<Rightarrow> rate_policy list" where
  "merge_row row merged =
     (case row of
        None \<Rightarrow> merged
      | Some stored \<Rightarrow>
          if rl_scope stored \<notin> set RATE_SCOPES then merged
          else map (\<lambda>p. if rl_scope p = rl_scope stored then stored else p) merged)"

definition merge_with_defaults :: "('n json \<Rightarrow> rate_policy option) \<Rightarrow> 'n json \<Rightarrow> rate_policy list" where
  "merge_with_defaults read_row document =
     (case as_array document of
        None \<Rightarrow> rate_defaults
      | Some rows \<Rightarrow> fold (\<lambda>row merged. merge_row (read_row row) merged) rows rate_defaults)"

definition to_document :: "(rate_policy \<Rightarrow> 'n json) \<Rightarrow> rate_policy list \<Rightarrow> 'n json" where
  "to_document write_row policies = JArray (map write_row policies)"

definition parse_rate_limits ::
  "('n json \<Rightarrow> rate_policy option) \<Rightarrow> 'n json \<Rightarrow> security_error + rate_policy list" where
  "parse_rate_limits read_row document =
     (case as_array document of
        None \<Rightarrow> Inr rate_defaults
      | Some rows \<Rightarrow> collect_results (map (\<lambda>row. ok_or UnreadableRow (read_row row)) rows))"

subsection \<open>Clients and scopes\<close>

record client_id =
  cl_user_id :: "string option"
  cl_ip :: "string option"

definition client_key :: "client_id \<Rightarrow> string" where
  "client_key c =
     (case cl_user_id c of
        Some user \<Rightarrow> ''user:'' @ user
      | None \<Rightarrow> (case cl_ip c of Some ip \<Rightarrow> ''ip:'' @ ip | None \<Rightarrow> ''anon''))"

definition counter_identity :: "rate_policy \<Rightarrow> client_id \<Rightarrow> string" where
  "counter_identity p c =
     (if rl_scope p = ''authenticated_api'' then client_key c
      else (case cl_ip c of Some ip \<Rightarrow> ''ip:'' @ ip | None \<Rightarrow> client_key c))"

definition fnv_step :: "8 word \<Rightarrow> 64 word \<Rightarrow> 64 word" where
  "fnv_step b h = xor h (ucast b) * 0x100000001b3"

definition hex_digit :: "nat \<Rightarrow> char" where
  "hex_digit n = (if n < 10 then char_of (48 + n) else char_of (87 + n))"

definition short_hash :: "string \<Rightarrow> string" where
  "short_hash value =
     (let hash = fold fnv_step (as_bytes value) 0xcbf29ce484222325
      in map (\<lambda>i. hex_digit (unat (drop_bit (4 * i) hash) mod 16)) (rev [0..<16]))"

definition bucket_of :: "rate_policy \<Rightarrow> int \<Rightarrow> int" where
  "bucket_of p now = now div max 1 (rl_window_seconds p)"

definition counter_key :: "rate_policy \<Rightarrow> client_id \<Rightarrow> int \<Rightarrow> string" where
  "counter_key p c now =
     ''omnion:rl:'' @ rl_scope p @ '':'' @ show_int (bucket_of p now) @ '':'' @ short_hash (counter_identity p c)"

record request_facts =
  rf_method :: string
  rf_path :: string
  rf_client :: client_id
  rf_machine_key :: bool
  rf_exempt :: bool

definition is_sign_in :: "string \<Rightarrow> string \<Rightarrow> bool" where
  "is_sign_in method raw \<longleftrightarrow>
     to_ascii_uppercase method \<in> {''POST'', ''PUT'', ''PATCH'', ''DELETE''} \<and>
     (let path = trim_end_matches CHR ''/'' raw in
      ends_with path ''/sign-in'' \<or> ends_with path ''/signin'' \<or> ends_with path ''/login'' \<or>
      ends_with path ''/session'' \<or> ends_with path ''/mfa/verify'')"

definition is_webhook_intake :: "string \<Rightarrow> bool" where
  "is_webhook_intake raw \<longleftrightarrow>
     (let path = trim_end_matches CHR ''/'' raw in
      str_contains path ''/webhooks/intake'' \<or> str_contains path ''/hooks/intake'' \<or> ends_with path ''/intake'')"

definition scope_of :: "request_facts \<Rightarrow> string" where
  "scope_of f =
     (if rf_exempt f then ''exempt''
      else if is_sign_in (rf_method f) (rf_path f) then ''sign_in''
      else if cl_user_id (rf_client f) = None then ''public_api''
      else if is_webhook_intake (rf_path f) then ''webhook_intake''
      else ''authenticated_api'')"

subsection \<open>The decision\<close>

record rate_verdict =
  rv_limited :: bool
  rv_scope :: string
  rv_reason :: string
  rv_count :: int
  rv_ceiling :: int
  rv_retry_after :: "int option"

definition policy_for :: "rate_policy list \<Rightarrow> string \<Rightarrow> rate_policy option" where
  "policy_for policies scope = find (\<lambda>p. rl_scope p = scope) policies"

definition retry_seconds :: "rate_policy \<Rightarrow> int \<Rightarrow> int" where
  "retry_seconds p now = max 1 (rl_window_seconds p - now mod max 1 (rl_window_seconds p))"

definition rate_decide ::
  "rate_policy list \<Rightarrow> string \<Rightarrow> client_id \<Rightarrow> int \<Rightarrow> int \<Rightarrow> security_error + rate_verdict" where
  "rate_decide policies scope client count now =
     (case policy_for policies scope of
        None \<Rightarrow> Inl (NoPolicyFor scope)
      | Some p \<Rightarrow>
          Inr (if \<not> rl_enabled p then
                 \<lparr>rv_limited = False, rv_scope = scope, rv_reason = ''the '' @ scope @ '' scope is switched off'',
                  rv_count = count, rv_ceiling = ceiling_of p, rv_retry_after = None\<rparr>
               else if rl_scope p = ''public_api'' \<and> cl_user_id client \<noteq> None then
                 \<lparr>rv_limited = False, rv_scope = scope,
                  rv_reason = ''an authenticated request is not counted against the public scope'',
                  rv_count = 0, rv_ceiling = ceiling_of p, rv_retry_after = None\<rparr>
               else if admits p count then
                 \<lparr>rv_limited = False, rv_scope = scope,
                  rv_reason = show_int count @ '' of '' @ show_int (ceiling_of p) @ '' requests in the window'',
                  rv_count = count, rv_ceiling = ceiling_of p, rv_retry_after = None\<rparr>
               else
                 \<lparr>rv_limited = True, rv_scope = scope,
                  rv_reason = show_int count @ '' requests exceeds the ceiling of '' @ show_int (ceiling_of p) @
                    '' in the '' @ show_int (rl_window_seconds p) @ ''-second window'',
                  rv_count = count, rv_ceiling = ceiling_of p, rv_retry_after = Some (retry_seconds p now)\<rparr>))"

subsection \<open>The counter\<close>

definition RETENTION_SLACK_SECONDS :: int where "RETENTION_SLACK_SECONDS = 60"

definition retention_for :: "rate_policy \<Rightarrow> int" where
  "retention_for p = max 1 (rl_window_seconds p) + RETENTION_SLACK_SECONDS"

record counted =
  co_count :: int
  co_authoritative :: bool

type_synonym 'r increment = "'r \<Rightarrow> int \<Rightarrow> string \<Rightarrow> int \<Rightarrow> (int \<times> 'r) option"

definition count_request ::
  "'r increment \<Rightarrow> 'r \<Rightarrow> rate_policy \<Rightarrow> client_id \<Rightarrow> int \<Rightarrow> security_error + counted \<times> 'r" where
  "count_request eval_increment redis p client now =
     (case eval_increment redis now (counter_key p client now) (retention_for p) of
        None \<Rightarrow> Inl SecDatabase
      | Some (n, redis') \<Rightarrow> Inr (\<lparr>co_count = n, co_authoritative = True\<rparr>, redis'))"

definition enforce_rate ::
  "'r increment \<Rightarrow> 'r \<Rightarrow> rate_policy list \<Rightarrow> string \<Rightarrow> client_id \<Rightarrow> int \<Rightarrow>
   (security_error + rate_verdict \<times> counted) \<times> 'r" where
  "enforce_rate eval_increment redis policies scope client now =
     (case policy_for policies scope of
        None \<Rightarrow> (Inl (NoPolicyFor scope), redis)
      | Some p \<Rightarrow>
          if \<not> rl_enabled p then
            (res_bind (rate_decide policies scope client 0 now)
               (\<lambda>v. Inr (v, \<lparr>co_count = 0, co_authoritative = True\<rparr>)), redis)
          else
            (case count_request eval_increment redis p client now of
               Inl e \<Rightarrow>
                 (res_bind (rate_decide policies scope client 0 now)
                    (\<lambda>v. Inr (v, \<lparr>co_count = 0, co_authoritative = False\<rparr>)), redis)
             | Inr (counted, redis') \<Rightarrow>
                 (res_bind (rate_decide policies scope client (co_count counted) now)
                    (\<lambda>v. Inr (v, counted)), redis')))"

subsection \<open>The layer on the request path\<close>

text \<open>The headers the layer reads, in the text \<open>to_str\<close> gives; the session is what the resolution of
  the session cookie answers.\<close>

record request_headers =
  hd_authorization :: "string option"
  hd_forwarded_for :: "string option"
  hd_session_user :: "string option"

datatype rate_refusal =
    Misconfigured string
  | RateLimited rate_verdict int

definition bearer_token :: "request_headers \<Rightarrow> string option" where
  "bearer_token h =
     Option.bind (hd_authorization h) (\<lambda>value.
       Option.bind (case strip_prefix ''Bearer '' value of Some t \<Rightarrow> Some t | None \<Rightarrow> strip_prefix ''bearer '' value) (\<lambda>token.
         if trim token = [] then None else Some (trim token)))"

text \<open>\<open>parse_ip\<close> is the standard library's address parser followed by its printer.\<close>

definition peer_from_headers :: "(string \<Rightarrow> string option) \<Rightarrow> request_headers \<Rightarrow> string option" where
  "peer_from_headers parse_ip h =
     Option.bind (hd_forwarded_for h) (\<lambda>forwarded. parse_ip (trim (hd (split_on CHR '','' forwarded))))"

definition is_exempt_path :: "string \<Rightarrow> bool" where
  "is_exempt_path raw \<longleftrightarrow>
     (let path = trim_end_matches CHR ''/'' raw in
      starts_with path ''/api/v1/public/'' \<or> str_contains path ''/webhooks/intake'' \<or> str_contains path ''/hooks/intake'')"

definition request_facts_of ::
  "(string \<Rightarrow> string option) \<Rightarrow> string \<Rightarrow> string \<Rightarrow> request_headers \<Rightarrow> string option \<Rightarrow> request_facts" where
  "request_facts_of parse_ip method path h peer =
     (let machine_key = bearer_token h \<noteq> None;
          address = (case peer of Some a \<Rightarrow> Some a | None \<Rightarrow> peer_from_headers parse_ip h);
          user = (if machine_key then None else hd_session_user h)
      in \<lparr>rf_method = method, rf_path = path, rf_client = \<lparr>cl_user_id = user, cl_ip = address\<rparr>,
          rf_machine_key = machine_key, rf_exempt = machine_key \<or> is_exempt_path path\<rparr>)"

definition decide_rate_request ::
  "'r increment \<Rightarrow> (string \<Rightarrow> string option) \<Rightarrow> 'r \<Rightarrow> rate_policy list \<Rightarrow> string \<Rightarrow> string \<Rightarrow> request_headers \<Rightarrow>
   string option \<Rightarrow> int \<Rightarrow> rate_refusal option \<times> 'r" where
  "decide_rate_request eval_increment parse_ip redis policies method path h peer clock =
     (let facts = request_facts_of parse_ip method path h peer; scope = scope_of facts in
      if scope = ''exempt'' then (None, redis)
      else (case enforce_rate eval_increment redis policies scope (rf_client facts) clock of
              (Inl _, redis') \<Rightarrow> (Some (Misconfigured scope), redis')
            | (Inr (verdict, counted), redis') \<Rightarrow>
                if \<not> co_authoritative counted then (None, redis')
                else if \<not> rv_limited verdict then (None, redis')
                else (Some (RateLimited verdict (max 1 (case rv_retry_after verdict of None \<Rightarrow> 1 | Some s \<Rightarrow> s))), redis')))"

subsection \<open>Saving the document\<close>

text \<open>The stored document and the policies the running layer holds.\<close>

record 'n limiter_state =
  ls_document :: "'n json"
  ls_installed :: "rate_policy list"

definition save_rate_limits :: "'n limiter_state \<Rightarrow> 'n json \<Rightarrow> 'n json \<Rightarrow> security_error + 'n limiter_state" where
  "save_rate_limits st document expected =
     (if ls_document st = expected then Inr (st\<lparr>ls_document := document\<rparr>) else Inl DocumentMoved)"

definition reload_from_store :: "('n json \<Rightarrow> rate_policy option) \<Rightarrow> 'n limiter_state \<Rightarrow> 'n limiter_state" where
  "reload_from_store read_row st = st\<lparr>ls_installed := merge_with_defaults read_row (ls_document st)\<rparr>"

datatype put_error = StoreError security_error | WrongRowCount nat

definition put_rate_limits ::
  "('n json \<Rightarrow> rate_policy option) \<Rightarrow> (rate_policy \<Rightarrow> 'n json) \<Rightarrow> 'n limiter_state \<Rightarrow> 'n json \<Rightarrow>
   (put_error + rate_policy list) \<times> 'n limiter_state" where
  "put_rate_limits read_row write_row st document =
     (case parse_rate_limits read_row document of
        Inl e \<Rightarrow> (Inl (StoreError e), st)
      | Inr policies \<Rightarrow>
          if length policies \<noteq> length RATE_SCOPES then (Inl (WrongRowCount (length policies)), st)
          else (case save_rate_limits st (to_document write_row policies) (ls_document st) of
                  Inl e \<Rightarrow> (Inl (StoreError e), st)
                | Inr st' \<Rightarrow>
                    (Inr (case parse_rate_limits read_row (ls_document st') of Inl _ \<Rightarrow> policies | Inr saved \<Rightarrow> saved),
                     reload_from_store read_row st')))"

subsection \<open>Scopes and rows\<close>

definition row_ok :: "rate_policy \<Rightarrow> bool" where
  "row_ok p \<longleftrightarrow> rl_scope p \<in> set RATE_SCOPES \<and> 1 \<le> rl_window_seconds p \<and> rl_window_seconds p \<le> RATE_MAX_WINDOW \<and>
     MIN_LIMIT \<le> rl_limit p \<and> rl_limit p \<le> MAX_LIMIT \<and> 0 \<le> rl_burst p \<and> rl_burst p \<le> MAX_BURST"

lemmas rate_bounds = RATE_MAX_WINDOW_def MIN_LIMIT_def MAX_LIMIT_def MAX_BURST_def RETENTION_SLACK_SECONDS_def

lemma rate_policy_new_ok: "rate_policy_new raw window limit burst enabled = Inr p \<Longrightarrow> row_ok p"
  by (auto simp: rate_policy_new_def row_ok_def Let_def split: if_split_asm)

lemma ceiling_ok: "row_ok p \<Longrightarrow> ceiling_of p = rl_limit p + rl_burst p"
  by (simp add: ceiling_of_def row_ok_def rate_bounds wrap32_id)

lemma policy_for_scope: "policy_for policies scope = Some p \<Longrightarrow> p \<in> set policies \<and> rl_scope p = scope"
  unfolding policy_for_def by (drule find_Some_mem)

lemma scope_of_public: "scope_of f = ''public_api'' \<Longrightarrow> cl_user_id (rf_client f) = None"
  by (simp add: scope_of_def split: if_split_asm)

lemma scope_of_cases: "scope_of f \<in> {''exempt'', ''sign_in'', ''public_api'', ''webhook_intake'', ''authenticated_api''}"
  by (simp add: scope_of_def)

lemma scope_no_colon: "scope \<in> set RATE_SCOPES \<Longrightarrow> CHR '':'' \<notin> set scope"
proof -
  have "list_all (\<lambda>s. CHR '':'' \<notin> set s) RATE_SCOPES" by (simp add: RATE_SCOPES_def)
  then show "scope \<in> set RATE_SCOPES \<Longrightarrow> CHR '':'' \<notin> set scope" by (simp add: list_all_iff)
qed

lemma show_int_no_colon: "CHR '':'' \<notin> set (show_int i)"
proof
  assume "CHR '':'' \<in> set (show_int i)"
  from show_int_chars[OF this] show False by (simp add: is_ascii_digit_def code_def)
qed

text \<open>Equal counter keys belong to one scope and one bucket.\<close>

lemma counter_key_eq:
  assumes "counter_key p c t = counter_key q d u" and "row_ok p" and "row_ok q"
  shows "rl_scope p = rl_scope q \<and> bucket_of p t = bucket_of q u"
proof -
  let ?rest = "\<lambda>p c t. show_int (bucket_of p t) @ CHR '':'' # short_hash (counter_identity p c)"
  have "rl_scope p @ CHR '':'' # ?rest p c t = rl_scope q @ CHR '':'' # ?rest q d u"
    using assms(1) by (simp add: counter_key_def)
  then have "rl_scope p = rl_scope q \<and> ?rest p c t = ?rest q d u"
    using append_sep_eq[of "CHR '':''"] scope_no_colon assms(2,3) unfolding row_ok_def by blast
  then show ?thesis using append_sep_eq[of "CHR '':''"] show_int_no_colon show_int_inj by blast
qed

subsection \<open>The counter service\<close>

text \<open>What the script relies on: a key counts up while it lives and starts again at one with the given
  lifetime otherwise, and no other key is touched. \<open>cell\<close> reads a key's value and deadline.\<close>

locale counter_service =
  fixes cell :: "'r \<Rightarrow> string \<Rightarrow> (int \<times> int) option" and eval_increment :: "'r increment"
  assumes incr_live: "eval_increment r now k ttl = Some (n, r') \<Longrightarrow> cell r k = Some (m, d) \<Longrightarrow> now < d \<Longrightarrow> 1 \<le> m \<Longrightarrow>
      n = m + 1 \<and> cell r' k = Some (m + 1, d)"
    and incr_new: "eval_increment r now k ttl = Some (n, r') \<Longrightarrow> cell r k = None \<Longrightarrow> n = 1 \<and> cell r' k = Some (1, now + ttl)"
    and incr_other: "eval_increment r now k ttl = Some (n, r') \<Longrightarrow> j \<noteq> k \<Longrightarrow> cell r' j = cell r j"
begin

definition counts_to :: "int \<Rightarrow> string \<Rightarrow> int \<Rightarrow> 'r \<Rightarrow> bool" where
  "counts_to horizon k c r \<longleftrightarrow> (c = 0 \<and> cell r k = None) \<or> (1 \<le> c \<and> (\<exists>d. cell r k = Some (c, d) \<and> horizon \<le> d))"

lemma counts_hit:
  assumes "eval_increment r now k ttl = Some (n, r')" and "counts_to horizon k c r" and "now < horizon" and "horizon \<le> now + ttl"
  shows "n = c + 1 \<and> counts_to horizon k (c + 1) r'"
  using assms(2) unfolding counts_to_def
proof (elim disjE conjE exE)
  assume "c = 0" "cell r k = None"
  then show "n = c + 1 \<and> (c + 1 = 0 \<and> cell r' k = None \<or> 1 \<le> c + 1 \<and> (\<exists>d. cell r' k = Some (c + 1, d) \<and> horizon \<le> d))"
    using incr_new[OF assms(1)] assms(4) by simp
next
  fix d assume "1 \<le> c" "cell r k = Some (c, d)" "horizon \<le> d"
  then show "n = c + 1 \<and> (c + 1 = 0 \<and> cell r' k = None \<or> 1 \<le> c + 1 \<and> (\<exists>d. cell r' k = Some (c + 1, d) \<and> horizon \<le> d))"
    using incr_live[OF assms(1)] assms(3) by simp
qed

lemma counts_miss: "eval_increment r now j ttl = Some (n, r') \<Longrightarrow> j \<noteq> k \<Longrightarrow> counts_to horizon k c r' = counts_to horizon k c r"
  unfolding counts_to_def using incr_other by metis

end

text \<open>An in-memory service, the instance of the interface.\<close>

definition memory_increment :: "(string \<Rightarrow> (int \<times> int) option) increment" where
  "memory_increment r now k ttl =
     (let c = (case r k of Some (m, d) \<Rightarrow> if now < d then (m + 1, d) else (1, now + ttl) | None \<Rightarrow> (1, now + ttl))
      in Some (fst c, r(k \<mapsto> c)))"

interpretation memory: counter_service "\<lambda>r. r" memory_increment
  by unfold_locales (auto simp: memory_increment_def Let_def)

subsection \<open>A run of requests\<close>

type_synonym rate_answer = "security_error + rate_verdict \<times> counted"

fun serve :: "'r increment \<Rightarrow> rate_policy list \<Rightarrow> 'r \<Rightarrow> (request_facts \<times> int) list \<Rightarrow> rate_answer list" where
  "serve eval_increment policies redis [] = []"
| "serve eval_increment policies redis ((f, now) # rest) =
     (case enforce_rate eval_increment redis policies (scope_of f) (rf_client f) now of
        (answer, redis') \<Rightarrow> answer # serve eval_increment policies redis' rest)"

definition refused :: "rate_answer \<Rightarrow> bool" where
  "refused a = (case a of Inl _ \<Rightarrow> False | Inr (v, _) \<Rightarrow> rv_limited v)"

text \<open>Whether a request is counted under a key.\<close>

definition hits :: "rate_policy list \<Rightarrow> string \<Rightarrow> request_facts \<times> int \<Rightarrow> bool" where
  "hits policies k q =
     (case policy_for policies (scope_of (fst q)) of
        None \<Rightarrow> False
      | Some p \<Rightarrow> rl_enabled p \<and> counter_key p (rf_client (fst q)) (snd q) = k)"

lemma enforce_hit:
  assumes "policy_for policies (scope_of f) = Some p" and "rl_enabled p" and "row_ok p"
    and "eval_increment r now (counter_key p (rf_client f) now) (retention_for p) = Some (n, r')"
  shows "snd (enforce_rate eval_increment r policies (scope_of f) (rf_client f) now) = r'"
    and "refused (fst (enforce_rate eval_increment r policies (scope_of f) (rf_client f) now)) \<longleftrightarrow> ceiling_of p < n"
proof -
  have public: "\<not> (rl_scope p = ''public_api'' \<and> cl_user_id (rf_client f) \<noteq> None)"
    using policy_for_scope[OF assms(1)] scope_of_public[of f] by auto
  have e: "enforce_rate eval_increment r policies (scope_of f) (rf_client f) now =
      (res_bind (rate_decide policies (scope_of f) (rf_client f) n now)
         (\<lambda>v. Inr (v, \<lparr>co_count = n, co_authoritative = True\<rparr>)), r')"
    using assms(1,2,4) by (simp add: enforce_rate_def count_request_def)
  show "snd (enforce_rate eval_increment r policies (scope_of f) (rf_client f) now) = r'" by (simp add: e)
  show "refused (fst (enforce_rate eval_increment r policies (scope_of f) (rf_client f) now)) \<longleftrightarrow> ceiling_of p < n"
    unfolding e fst_conv rate_decide_def assms(1) using assms(2) public
    by (auto simp: refused_def admits_def ceiling_of_def)
qed

lemma enforce_miss:
  assumes "\<not> hits policies k (f, now)" and "\<And>r now k ttl. eval_increment r now k ttl \<noteq> None"
  shows "snd (enforce_rate eval_increment r policies (scope_of f) (rf_client f) now) = r \<or>
    (\<exists>j ttl n. j \<noteq> k \<and> eval_increment r now j ttl =
       Some (n, snd (enforce_rate eval_increment r policies (scope_of f) (rf_client f) now)))"
proof (cases "policy_for policies (scope_of f)")
  case (Some p)
  show ?thesis
  proof (cases "rl_enabled p")
    case True
    then have j: "counter_key p (rf_client f) now \<noteq> k" using assms(1) Some by (simp add: hits_def)
    obtain n r' where "eval_increment r now (counter_key p (rf_client f) now) (retention_for p) = Some (n, r')"
      using assms(2) by (metis not_Some_eq surj_pair)
    then show ?thesis using j Some True
      by (intro disjI2 exI[of _ "counter_key p (rf_client f) now"] exI[of _ "retention_for p"] exI[of _ n])
        (simp add: enforce_rate_def count_request_def)
  qed (simp add: enforce_rate_def Some)
qed (simp add: enforce_rate_def)

context counter_service begin

lemma serve_budget:
  assumes up: "\<And>r now k ttl. eval_increment r now k ttl \<noteq> None" and rows: "list_all row_ok policies"
    and p: "policy_for policies scope = Some p" and k: "k = counter_key p client now0"
    and c: "counts_to (bucket_of p now0 * rl_window_seconds p + rl_window_seconds p) k (int c) r"
  shows "map (refused \<circ> snd) (filter (\<lambda>(q, a). hits policies k q) (zip qs (serve eval_increment policies r qs))) =
    map (\<lambda>j. ceiling_of p < int c + 1 + int j) [0..<length (filter (hits policies k) qs)]"
  using c
proof (induction qs arbitrary: r c)
  case (Cons q qs)
  obtain f now where q: "q = (f, now)" by fastforce
  let ?e = "enforce_rate eval_increment r policies (scope_of f) (rf_client f) now"
  let ?horizon = "bucket_of p now0 * rl_window_seconds p + rl_window_seconds p"
  have okp: "row_ok p" using rows policy_for_scope[OF p] by (simp add: list_all_iff)
  have serve: "serve eval_increment policies r (q # qs) = fst ?e # serve eval_increment policies (snd ?e) qs"
    by (simp add: q case_prod_beta)
  show ?case
  proof (cases "hits policies k q")
    case True
    then obtain p' where p': "policy_for policies (scope_of f) = Some p'" "rl_enabled p'" "counter_key p' (rf_client f) now = k"
      by (auto simp: hits_def q split: option.split_asm)
    have ok': "row_ok p'" using rows policy_for_scope[OF p'(1)] by (simp add: list_all_iff)
    have same: "rl_scope p' = rl_scope p" "bucket_of p' now = bucket_of p now0"
      using counter_key_eq[OF _ ok' okp] p'(3) k by auto
    then have "scope_of f = scope" using policy_for_scope[OF p] policy_for_scope[OF p'(1)] by simp
    then have pp: "p' = p" using p p'(1) by simp
    have w: "1 \<le> rl_window_seconds p" using okp by (simp add: row_ok_def)
    have "bucket_of p now0 = now div rl_window_seconds p" using same(2) w by (simp add: bucket_of_def pp max_def)
    then have "now = rl_window_seconds p * bucket_of p now0 + now mod rl_window_seconds p" by simp
    moreover have "0 \<le> now mod rl_window_seconds p" "now mod rl_window_seconds p < rl_window_seconds p" using w by simp_all
    ultimately have t: "now < ?horizon" "?horizon \<le> now + retention_for p"
      using w unfolding retention_for_def RETENTION_SLACK_SECONDS_def mult.commute[of "bucket_of p now0"] by linarith+
    obtain n r' where i: "eval_increment r now k (retention_for p) = Some (n, r')" using up by (metis not_Some_eq surj_pair)
    from counts_hit[OF i Cons.prems t] have n: "n = int c + 1" "counts_to ?horizon k (int (Suc c)) r'" by (simp_all add: add.commute)
    have e: "snd ?e = r'" "refused (fst ?e) \<longleftrightarrow> ceiling_of p < n"
      using enforce_hit[OF p'(1,2) ok', where eval_increment = eval_increment and r = r and now = now and n = n and r' = r'] i p'(3)
      unfolding pp by simp_all
    have "[0..<Suc m] = 0 # map Suc [0..<m]" for m by (metis upt_conv_Cons map_Suc_upt zero_less_Suc)
    then show ?thesis using Cons.IH[OF n(2)] True e n(1) unfolding serve e(1) by (simp add: comp_def algebra_simps del: upt_Suc)
  next
    case False
    have "counts_to ?horizon k (int c) (snd ?e)"
      using enforce_miss[OF False[unfolded q], where eval_increment = eval_increment and r = r, OF up]
    proof (elim disjE exE conjE)
      fix j ttl n assume "j \<noteq> k" "eval_increment r now j ttl = Some (n, snd ?e)"
      then show ?thesis using counts_miss Cons.prems by blast
    qed (use Cons.prems in simp)
    from Cons.IH[OF this] False show ?thesis unfolding serve by simp
  qed
qed simp

end

subsection \<open>Properties of the limiter\<close>


definition anonymous :: "string \<Rightarrow> request_facts" where
  "anonymous ip = \<lparr>rf_method = ''POST'', rf_path = ''/api/v1/auth/login'', rf_client = \<lparr>cl_user_id = None, cl_ip = Some ip\<rparr>,
     rf_machine_key = False, rf_exempt = False\<rparr>"


text \<open>
  The wait the limiter names is the right one: a refused client that waits the announced number of
  seconds is counted under a new counter, and at no earlier second - the current counter applies
  until then.
\<close>

theorem retry_after_exact:
  assumes "row_ok p" and "policy_for policies scope = Some p"
    and "rate_decide policies scope client count now = Inr v" and "rv_limited v"
  shows "\<exists>s. rv_retry_after v = Some s \<and> 1 \<le> s \<and> s \<le> rl_window_seconds p \<and>
    counter_key p client (now + s) \<noteq> counter_key p client now \<and>
    (\<forall>t. 0 \<le> t \<and> t < s \<longrightarrow> counter_key p client (now + t) = counter_key p client now)"
proof -
  let ?w = "rl_window_seconds p" let ?s = "retry_seconds p now"
  have w: "1 \<le> ?w" using assms(1) by (simp add: row_ok_def)
  have r: "rv_retry_after v = Some ?s"
    using assms(3,4) unfolding rate_decide_def assms(2) by (auto split: if_split_asm)
  have m: "0 \<le> now mod ?w" "now mod ?w < ?w" using w by simp_all
  then have s: "?s = ?w - now mod ?w" unfolding retry_seconds_def max_absorb2[OF w] by linarith
  have now: "now = ?w * (now div ?w) + now mod ?w" by simp
  have div: "(now + t) div ?w = now div ?w" if "0 \<le> t" "t < ?s" for t
  proof -
    have "(now + t) div ?w = (?w * (now div ?w) + (now mod ?w + t)) div ?w" using now by (simp add: add.assoc)
    also have "\<dots> = now div ?w + (now mod ?w + t) div ?w" by (rule div_mult_self4) (use w in simp)
    also have "(now mod ?w + t) div ?w = 0" using that m s by (intro div_pos_pos_trivial) linarith+
    finally show ?thesis by simp
  qed
  have "now + ?s = ?w * (now div ?w + 1)" unfolding distrib_left using s now by linarith
  then have "(now + ?s) div ?w = now div ?w + 1" using w by simp
  then have "bucket_of p (now + ?s) \<noteq> bucket_of p now" using w by (simp add: bucket_of_def max_def)
  then have "counter_key p client (now + ?s) \<noteq> counter_key p client now"
    using counter_key_eq[OF _ assms(1) assms(1)] by blast
  moreover have "counter_key p client (now + t) = counter_key p client now" if "0 \<le> t \<and> t < ?s" for t
    using div that w by (simp add: counter_key_def bucket_of_def max_def)
  moreover have "1 \<le> ?s" "?s \<le> ?w" using s m by linarith+
  ultimately show ?thesis using r by blast
qed

theorem retry_after_exact_witness:
  "\<exists>v s. rate_decide rate_defaults ''sign_in'' \<lparr>cl_user_id = None, cl_ip = None\<rparr> 11 620 = Inr v \<and> rv_retry_after v = Some s \<and>
     s \<le> 300 \<and> counter_key (rate_defaults ! 1) \<lparr>cl_user_id = None, cl_ip = None\<rparr> (620 + s) \<noteq>
       counter_key (rate_defaults ! 1) \<lparr>cl_user_id = None, cl_ip = None\<rparr> 620"
proof -
  let ?c = "\<lparr>cl_user_id = None, cl_ip = None\<rparr>"
  have ok: "row_ok (rate_defaults ! 1)" by (simp add: row_ok_def rate_bounds rate_defaults_def RATE_SCOPES_def)
  have p: "policy_for rate_defaults ''sign_in'' = Some (rate_defaults ! 1)" by (simp add: policy_for_def rate_defaults_def)
  have "\<not> admits (rate_defaults ! 1) 11" "rl_enabled (rate_defaults ! 1)" "rl_scope (rate_defaults ! 1) = ''sign_in''"
      "rl_window_seconds (rate_defaults ! 1) = 300"
    by (simp_all add: admits_def wrap32_def rate_defaults_def)
  then obtain v where "rate_decide rate_defaults ''sign_in'' ?c 11 620 = Inr v" "rv_limited v"
    by (simp add: rate_decide_def p)
  with retry_after_exact[OF ok p] show ?thesis using \<open>rl_window_seconds (rate_defaults ! 1) = 300\<close> by fastforce
qed

subsection \<open>Every request is decided\<close>

lemma merge_row_scopes: "map rl_scope (merge_row row merged) = map rl_scope merged"
  by (auto simp: merge_row_def split: option.split)

lemma merge_scopes: "map rl_scope (merge_with_defaults read_row document) = RATE_SCOPES"
proof -
  have "map rl_scope (fold (\<lambda>row merged. merge_row (read_row row) merged) rows merged) = map rl_scope merged" for rows merged
    by (induction rows arbitrary: merged) (simp_all add: merge_row_scopes)
  moreover have "map rl_scope rate_defaults = RATE_SCOPES" by (simp add: rate_defaults_def RATE_SCOPES_def)
  ultimately show ?thesis by (simp add: merge_with_defaults_def split: option.split)
qed

lemma policy_for_merged: "scope \<in> set RATE_SCOPES \<Longrightarrow> policy_for (merge_with_defaults read_row document) scope \<noteq> None"
  unfolding policy_for_def find_None_iff merge_scopes[symmetric, of read_row document] by auto

lemma rate_decide_total:
  assumes "policy_for policies scope = Some p"
  shows "\<exists>v. rate_decide policies scope client count now = Inr v \<and> (rl_enabled p \<or> \<not> rv_limited v)"
  unfolding rate_decide_def assms by simp

text \<open>
  The layer always reaches an answer. Whatever document is stored - missing, unreadable or partial -,
  the merged table has one row per scope in the fixed order, so no request is answered with a
  missing-policy failure; and when the counter service is down, every request is let through.
\<close>

theorem limiter_always_decides:
  "map rl_scope (merge_with_defaults read_row document) = RATE_SCOPES \<and>
   fst (decide_rate_request eval_increment parse_ip redis (merge_with_defaults read_row document) method path h peer clock) \<noteq>
     Some (Misconfigured scope) \<and>
   decide_rate_request (\<lambda>_ _ _ _. None) parse_ip redis (merge_with_defaults read_row document) method path h peer clock =
     (None, redis)"
proof -
  let ?table = "merge_with_defaults read_row document"
  let ?s = "scope_of (request_facts_of parse_ip method path h peer)"
  show ?thesis
  proof (cases "?s = ''exempt''")
    case False
    then have "?s \<in> set RATE_SCOPES" using scope_of_cases[of "request_facts_of parse_ip method path h peer"] by (auto simp: RATE_SCOPES_def)
    then obtain p where p: "policy_for ?table ?s = Some p" using policy_for_merged by blast
    have "\<exists>a. fst (enforce_rate ev redis ?table ?s c clock) = Inr a" for ev c
    proof -
      obtain g where "\<And>c n t. rate_decide ?table ?s c n t = Inr (g c n t)" using rate_decide_total[OF p] by metis
      then show ?thesis by (auto simp: enforce_rate_def p split: sum.split prod.split)
    qed
    then have "fst (decide_rate_request ev parse_ip redis ?table method path h peer clock) \<noteq> Some (Misconfigured scope)" for ev
      using False unfolding decide_rate_request_def Let_def
      by (auto split: prod.split sum.split) (metis fst_conv sum.distinct(1))
    moreover have "decide_rate_request (\<lambda>_ _ _ _. None) parse_ip redis ?table method path h peer clock = (None, redis)"
    proof -
      obtain v where v: "rate_decide ?table ?s (rf_client (request_facts_of parse_ip method path h peer)) 0 clock = Inr v"
          "rv_limited v \<longrightarrow> rl_enabled p" using rate_decide_total[OF p] by blast
      then show ?thesis using False p by (simp add: decide_rate_request_def enforce_rate_def count_request_def Let_def)
    qed
    ultimately show ?thesis using merge_scopes by blast
  qed (simp add: merge_scopes decide_rate_request_def Let_def)
qed

subsection \<open>Two gaps\<close>

text \<open>
  The limiter takes any bearer header for a machine key, without checking it: a request with
  \<open>Authorization: Bearer\<close> and some text behind it is neither counted nor refused, whatever its
  path - the sign-in path included - and however often it is repeated.
\<close>

theorem bearer_skips_limiter:
  assumes "trim token \<noteq> []"
  shows "decide_rate_request eval_increment parse_ip redis policies method path
     \<lparr>hd_authorization = Some (''Bearer '' @ token), hd_forwarded_for = forwarded, hd_session_user = user\<rparr> peer clock = (None, redis)"
proof -
  have "strip_prefix ''Bearer '' (''Bearer '' @ token) = Some token" by (simp add: strip_prefix_def starts_with_def)
  then show ?thesis using assms
    by (simp add: decide_rate_request_def request_facts_of_def bearer_token_def scope_of_def Let_def)
qed

theorem bearer_skips_limiter_witness:
  "decide_rate_request memory_increment Some Map.empty rate_defaults ''POST'' ''/api/v1/auth/login''
     \<lparr>hd_authorization = Some ''Bearer x'', hd_forwarded_for = None, hd_session_user = None\<rparr> (Some ''10.0.0.1'') 7 = (None, Map.empty)"
proof -
  have "trim ''x'' \<noteq> []" by (simp add: trim_def trim_start_def trim_end_def is_whitespace_def code_def)
  from bearer_skips_limiter[OF this] show ?thesis by simp
qed

text \<open>
  The save handler checks that five rows can be read, not that they are in range: a row whose limit
  and burst overflow together is stored and installed, its ceiling becomes negative, and from then on
  every counted request of the scope is refused, the first one included.
\<close>

theorem overflowing_row_accepted:
  assumes "\<And>p. read_row (write_row p) = Some p" and "0 \<le> count"
  shows "let bad = rate_row ''sign_in'' 60 2147483647 1 True; rows = rate_defaults[1 := bad];
      (answer, st') = put_rate_limits read_row write_row st (to_document write_row rows)
    in answer = Inr rows \<and> ls_installed st' = rows \<and>
       (\<exists>v. rate_decide (ls_installed st') ''sign_in'' client count now = Inr v \<and> rv_limited v)"
proof -
  define rows where "rows = rate_defaults[1 := rate_row ''sign_in'' 60 2147483647 1 True]"
  have read: "collect_results (map (\<lambda>row. ok_or UnreadableRow (read_row row)) (map write_row rows)) = Inr rows" for rows
    by (simp add: comp_def assms(1))
  have parse: "parse_rate_limits read_row (to_document write_row rows) = Inr rows" for rows
    unfolding parse_rate_limits_def to_document_def json_accessors option.case by (rule read)
  have merge: "merge_with_defaults read_row (to_document write_row rows) = rows"
    by (simp add: merge_with_defaults_def to_document_def assms(1) rows_def rate_defaults_def merge_row_def RATE_SCOPES_def)
  have p: "policy_for rows ''sign_in'' = Some (rate_row ''sign_in'' 60 2147483647 1 True)"
    by (simp add: policy_for_def rows_def rate_defaults_def)
  have n: "length rows = length RATE_SCOPES" by (simp add: rows_def rate_defaults_def RATE_SCOPES_def)
  have "\<exists>v. rate_decide rows ''sign_in'' client count now = Inr v \<and> rv_limited v"
    using assms(2) by (simp add: rate_decide_def p admits_def wrap32_def)
  moreover have "put_rate_limits read_row write_row st (to_document write_row rows) =
      (Inr rows, st\<lparr>ls_document := to_document write_row rows, ls_installed := rows\<rparr>)"
    by (simp add: put_rate_limits_def parse n save_rate_limits_def reload_from_store_def merge)
  ultimately show ?thesis unfolding Let_def rows_def[symmetric] by simp
qed

definition sample_write :: "rate_policy \<Rightarrow> int json" where
  "sample_write p = JArray [JString (rl_scope p), JNumber (rl_window_seconds p), JNumber (rl_limit p), JNumber (rl_burst p),
     JBool (rl_enabled p)]"

fun sample_read :: "int json \<Rightarrow> rate_policy option" where
  "sample_read (JArray [JString s, JNumber w, JNumber l, JNumber b, JBool e]) = Some (rate_row s w l b e)"
| "sample_read _ = None"

theorem overflowing_row_accepted_witness:
  "let bad = rate_row ''sign_in'' 60 2147483647 1 True; rows = rate_defaults[1 := bad];
      (answer, st') = put_rate_limits sample_read sample_write \<lparr>ls_document = JArray [], ls_installed = rate_defaults\<rparr>
        (to_document sample_write rows)
    in answer = Inr rows \<and> ls_installed st' = rows \<and>
       (\<exists>v. rate_decide (ls_installed st') ''sign_in'' \<lparr>cl_user_id = None, cl_ip = None\<rparr> 1 0 = Inr v \<and> rv_limited v)"
proof -
  have "sample_read (sample_write p) = Some p" for p by (cases p) (simp add: sample_write_def)
  then show ?thesis using overflowing_row_accepted[of sample_read sample_write 1] by simp
qed

end
