(* ===== verification/SecurityPolicy.thy ===== *)
theory SecurityPolicy
  imports Prelude
begin

text \<open>
  The security policy of an organization (\<open>crates/identity/src/security.rs\<close>): its document, the patch a
  save applies and its ranges, the networks of the address lists and the verdict on an address. The
  text form of an address is read by an argument \<open>parse_ip\<close> (\<open>IpAddr::from_str\<close>), the database's cast
  of a text to a network by an argument \<open>to_cidr\<close>. The texts of error messages are dropped.
\<close>

unbundle bit_operations_syntax

subsection \<open>Errors\<close>

datatype identity_error =
    IdDatabase
  | InvalidEmail
  | InvalidToken
  | WeakPassword nat
  | EmailTaken
  | PasswordHashError
  | TaskError
  | OrganizationSlugTaken
  | OrganizationNotFound
  | InvalidOrganization
  | SiteKeyTaken
  | SiteNotFound
  | InvalidSite
  | DomainTaken
  | DomainNotFound
  | InvalidHost
  | InvalidPolicy string
  | InvalidNetwork
  | Crypto
  | FactorNotFound
  | InvalidFactor
  | WebAuthnError
  | InvalidProvisioning
  | InvalidProvider
  | InvalidUser

subsection \<open>The document\<close>

record security_policy =
  sp_organization_id :: uuid
  sp_password_min_length :: int
  sp_password_require_classes :: int
  sp_password_history :: int
  sp_password_expiry_days :: int
  sp_lockout_attempts :: int
  sp_lockout_minutes :: int
  sp_ip_allowlist :: "string list"
  sp_ip_denylist :: "string list"
  sp_session_idle_minutes :: int
  sp_session_absolute_days :: int
  sp_session_concurrent_max :: int
  sp_device_trust_days :: int
  sp_mfa_required :: bool
  sp_updated_by :: "uuid option"
  sp_updated_at :: instant

record session_policy =
  idle_minutes :: int
  absolute_days :: int
  concurrent_max :: int

definition default_session_policy :: session_policy where
  "default_session_policy = \<lparr>idle_minutes = 120, absolute_days = 30, concurrent_max = 10\<rparr>"

definition session_policy_of :: "security_policy \<Rightarrow> session_policy" where
  "session_policy_of p =
     \<lparr>idle_minutes = sp_session_idle_minutes p, absolute_days = sp_session_absolute_days p,
      concurrent_max = sp_session_concurrent_max p\<rparr>"

record policy_patch =
  pp_password_min_length :: "int option"
  pp_password_require_classes :: "int option"
  pp_password_history :: "int option"
  pp_password_expiry_days :: "int option"
  pp_lockout_attempts :: "int option"
  pp_lockout_minutes :: "int option"
  pp_ip_allowlist :: "string list option"
  pp_ip_denylist :: "string list option"
  pp_session_idle_minutes :: "int option"
  pp_session_absolute_days :: "int option"
  pp_session_concurrent_max :: "int option"
  pp_device_trust_days :: "int option"
  pp_mfa_required :: "bool option"

text \<open>The row the table's column defaults give a new organization.\<close>

definition default_policy :: "uuid \<Rightarrow> instant \<Rightarrow> security_policy" where
  "default_policy organization_id now =
     \<lparr>sp_organization_id = organization_id, sp_password_min_length = 10, sp_password_require_classes = 3,
      sp_password_history = 5, sp_password_expiry_days = 0, sp_lockout_attempts = 10, sp_lockout_minutes = 15,
      sp_ip_allowlist = [], sp_ip_denylist = [], sp_session_idle_minutes = 120, sp_session_absolute_days = 30,
      sp_session_concurrent_max = 10, sp_device_trust_days = 30, sp_mfa_required = False, sp_updated_by = None,
      sp_updated_at = now\<rparr>"

definition get_policy :: "security_policy list \<Rightarrow> uuid \<Rightarrow> security_policy option" where
  "get_policy rows organization_id = find (\<lambda>p. sp_organization_id p = organization_id) rows"

definition ensure_policy ::
  "uuid list \<Rightarrow> instant \<Rightarrow> security_policy list \<Rightarrow> uuid \<Rightarrow> (identity_error + security_policy) \<times> security_policy list" where
  "ensure_policy organizations now rows organization_id =
     (case get_policy rows organization_id of
        Some p \<Rightarrow> (Inr p, rows)
      | None \<Rightarrow>
          if organization_id \<notin> set organizations then (Inl IdDatabase, rows)
          else (let rows' = rows @ [default_policy organization_id now]
                in (ok_or OrganizationNotFound (get_policy rows' organization_id), rows')))"

definition policy_for_account ::
  "uuid list \<Rightarrow> instant \<Rightarrow> security_policy list \<Rightarrow> uuid option \<Rightarrow>
   (identity_error + security_policy option) \<times> security_policy list" where
  "policy_for_account organizations now rows organization_id =
     (case organization_id of
        None \<Rightarrow> (Inr None, rows)
      | Some o1 \<Rightarrow> (case ensure_policy organizations now rows o1 of
                      (Inl e, rows') \<Rightarrow> (Inl e, rows')
                    | (Inr p, rows') \<Rightarrow> (Inr (Some p), rows')))"

subsection \<open>Networks\<close>

datatype ip_addr = V4 "32 word" | V6 "128 word"

record cidr =
  cidr_address :: ip_addr
  cidr_prefix :: nat

definition address_bits :: "ip_addr \<Rightarrow> nat" where
  "address_bits a = (case a of V4 _ \<Rightarrow> 32 | V6 _ \<Rightarrow> 128)"

definition cidr_parse :: "(string \<Rightarrow> ip_addr option) \<Rightarrow> string \<Rightarrow> identity_error + cidr" where
  "cidr_parse parse_ip raw =
     (let text = trim raw;
          (address, prefix) = (case split_once CHR ''/'' text of Some (a, p) \<Rightarrow> (a, Some p) | None \<Rightarrow> (text, None))
      in case parse_ip (trim address) of
           None \<Rightarrow> Inl InvalidNetwork
         | Some ip \<Rightarrow>
             res_bind (case prefix of None \<Rightarrow> Inr (address_bits ip) | Some p \<Rightarrow> ok_or InvalidNetwork (parse_uint 255 (trim p)))
               (\<lambda>n. if n > address_bits ip then Inl InvalidNetwork else Inr \<lparr>cidr_address = ip, cidr_prefix = n\<rparr>))"

definition mask_u32 :: "nat \<Rightarrow> 32 word" where
  "mask_u32 prefix = (if prefix = 0 then 0 else push_bit (32 - prefix) (- 1))"

definition mask_u128 :: "nat \<Rightarrow> 128 word" where
  "mask_u128 prefix = (if prefix = 0 then 0 else push_bit (128 - prefix) (- 1))"

definition cidr_contains :: "cidr \<Rightarrow> ip_addr \<Rightarrow> bool" where
  "cidr_contains c ip =
     (case (cidr_address c, ip) of
        (V4 network, V4 candidate) \<Rightarrow>
          network AND mask_u32 (cidr_prefix c) = candidate AND mask_u32 (cidr_prefix c)
      | (V6 network, V6 candidate) \<Rightarrow>
          network AND mask_u128 (cidr_prefix c) = candidate AND mask_u128 (cidr_prefix c)
      | _ \<Rightarrow> False)"

datatype ip_verdict = IpAllowed | IpDenied string string

definition covers :: "(string \<Rightarrow> ip_addr option) \<Rightarrow> ip_addr \<Rightarrow> string \<Rightarrow> bool" where
  "covers parse_ip ip entry = (case cidr_parse parse_ip entry of Inl _ \<Rightarrow> False | Inr network \<Rightarrow> cidr_contains network ip)"

definition check_ip :: "(string \<Rightarrow> ip_addr option) \<Rightarrow> security_policy \<Rightarrow> ip_addr option \<Rightarrow> ip_verdict" where
  "check_ip parse_ip p address =
     (case address of
        None \<Rightarrow> IpAllowed
      | Some ip \<Rightarrow>
          (case find (covers parse_ip ip) (sp_ip_denylist p) of
             Some entry \<Rightarrow> IpDenied (trim entry) ''denylist''
           | None \<Rightarrow>
               (let allowlist = filter (\<lambda>entry. trim entry \<noteq> []) (sp_ip_allowlist p) in
                if allowlist = [] then IpAllowed
                else if list_ex (covers parse_ip ip) allowlist then IpAllowed
                else IpDenied (str_join '', '' (sp_ip_allowlist p)) ''allowlist'')))"

subsection \<open>Saving a patch\<close>

definition range_check :: "int option \<Rightarrow> string \<Rightarrow> int \<Rightarrow> int \<Rightarrow> identity_error + unit" where
  "range_check v field lo hi =
     (case v of None \<Rightarrow> Inr () | Some x \<Rightarrow> if x < lo \<or> x > hi then Inl (InvalidPolicy field) else Inr ())"

definition network_check :: "(string \<Rightarrow> ip_addr option) \<Rightarrow> string \<Rightarrow> string list option \<Rightarrow> identity_error + unit" where
  "network_check parse_ip field entries =
     (case entries of
        None \<Rightarrow> Inr ()
      | Some es \<Rightarrow>
          if list_ex (\<lambda>e. trim e \<noteq> [] \<and> (case cidr_parse parse_ip (trim e) of Inl _ \<Rightarrow> True | Inr _ \<Rightarrow> False)) es
          then Inl (InvalidPolicy field) else Inr ())"

definition validate_patch :: "(string \<Rightarrow> ip_addr option) \<Rightarrow> policy_patch \<Rightarrow> identity_error + unit" where
  "validate_patch parse_ip patch =
     res_bind (range_check (pp_password_min_length patch) ''password_min_length'' 8 128) (\<lambda>_.
     res_bind (range_check (pp_password_require_classes patch) ''password_require_classes'' 1 4) (\<lambda>_.
     res_bind (range_check (pp_password_history patch) ''password_history'' 0 24) (\<lambda>_.
     res_bind (range_check (pp_password_expiry_days patch) ''password_expiry_days'' 0 730) (\<lambda>_.
     res_bind (range_check (pp_lockout_attempts patch) ''lockout_attempts'' 3 50) (\<lambda>_.
     res_bind (range_check (pp_lockout_minutes patch) ''lockout_minutes'' 1 1440) (\<lambda>_.
     res_bind (range_check (pp_session_idle_minutes patch) ''session_idle_minutes'' 5 10080) (\<lambda>_.
     res_bind (range_check (pp_session_absolute_days patch) ''session_absolute_days'' 1 365) (\<lambda>_.
     res_bind (range_check (pp_session_concurrent_max patch) ''session_concurrent_max'' 1 100) (\<lambda>_.
     res_bind (range_check (pp_device_trust_days patch) ''device_trust_days'' 0 365) (\<lambda>_.
     res_bind (network_check parse_ip ''ip_allowlist'' (pp_ip_allowlist patch)) (\<lambda>_.
              network_check parse_ip ''ip_denylist'' (pp_ip_denylist patch))))))))))))"

definition coalesce :: "'a \<Rightarrow> 'a option \<Rightarrow> 'a" where
  "coalesce d v = (case v of None \<Rightarrow> d | Some x \<Rightarrow> x)"

definition apply_patch :: "policy_patch \<Rightarrow> string list option \<Rightarrow> string list option \<Rightarrow> uuid option \<Rightarrow> instant \<Rightarrow>
    security_policy \<Rightarrow> security_policy" where
  "apply_patch patch allow deny updated_by now p =
     p\<lparr>sp_password_min_length := coalesce (sp_password_min_length p) (pp_password_min_length patch),
       sp_password_require_classes := coalesce (sp_password_require_classes p) (pp_password_require_classes patch),
       sp_password_history := coalesce (sp_password_history p) (pp_password_history patch),
       sp_password_expiry_days := coalesce (sp_password_expiry_days p) (pp_password_expiry_days patch),
       sp_lockout_attempts := coalesce (sp_lockout_attempts p) (pp_lockout_attempts patch),
       sp_lockout_minutes := coalesce (sp_lockout_minutes p) (pp_lockout_minutes patch),
       sp_ip_allowlist := coalesce (sp_ip_allowlist p) allow,
       sp_ip_denylist := coalesce (sp_ip_denylist p) deny,
       sp_session_idle_minutes := coalesce (sp_session_idle_minutes p) (pp_session_idle_minutes patch),
       sp_session_absolute_days := coalesce (sp_session_absolute_days p) (pp_session_absolute_days patch),
       sp_session_concurrent_max := coalesce (sp_session_concurrent_max p) (pp_session_concurrent_max patch),
       sp_device_trust_days := coalesce (sp_device_trust_days p) (pp_device_trust_days patch),
       sp_mfa_required := coalesce (sp_mfa_required p) (pp_mfa_required patch),
       sp_updated_by := updated_by, sp_updated_at := now\<rparr>"

text \<open>The cast of an optional array of texts to networks: one bad element fails the statement.\<close>

definition cast_cidrs :: "(string \<Rightarrow> string option) \<Rightarrow> string list option \<Rightarrow> identity_error + string list option" where
  "cast_cidrs to_cidr entries =
     (case entries of
        None \<Rightarrow> Inr None
      | Some es \<Rightarrow> res_bind (collect_results (map (\<lambda>e. ok_or IdDatabase (to_cidr e)) es)) (\<lambda>cs. Inr (Some cs)))"

definition update_policy ::
  "(string \<Rightarrow> ip_addr option) \<Rightarrow> (string \<Rightarrow> string option) \<Rightarrow> uuid list \<Rightarrow> instant \<Rightarrow> security_policy list \<Rightarrow> uuid \<Rightarrow>
   policy_patch \<Rightarrow> uuid option \<Rightarrow> (identity_error + security_policy \<times> security_policy) \<times> security_policy list" where
  "update_policy parse_ip to_cidr organizations now rows organization_id patch updated_by =
     (case validate_patch parse_ip patch of
        Inl e \<Rightarrow> (Inl e, rows)
      | Inr _ \<Rightarrow>
          (case ensure_policy organizations now rows organization_id of
             (Inl e, rows') \<Rightarrow> (Inl e, rows')
           | (Inr before, rows') \<Rightarrow>
               (case (cast_cidrs to_cidr (pp_ip_allowlist patch), cast_cidrs to_cidr (pp_ip_denylist patch)) of
                  (Inr allow, Inr deny) \<Rightarrow>
                    (let change = apply_patch patch allow deny updated_by now
                     in (Inr (before, change before),
                         map (\<lambda>p. if sp_organization_id p = organization_id then change p else p) rows'))
                | _ \<Rightarrow> (Inl IdDatabase, rows'))))"

subsection \<open>The diff of a save\<close>

record policy_change =
  pc_field :: string
  pc_before :: string
  pc_after :: string

definition show_bool :: "bool \<Rightarrow> string" where
  "show_bool b = (if b then ''true'' else ''false'')"

text \<open>The fields of the document in the order the diff reports them, each with its text form.\<close>

definition policy_columns :: "(string \<times> (security_policy \<Rightarrow> string)) list" where
  "policy_columns =
     [(''password_min_length'', show_int \<circ> sp_password_min_length),
      (''password_require_classes'', show_int \<circ> sp_password_require_classes),
      (''password_history'', show_int \<circ> sp_password_history),
      (''password_expiry_days'', show_int \<circ> sp_password_expiry_days),
      (''lockout_attempts'', show_int \<circ> sp_lockout_attempts),
      (''lockout_minutes'', show_int \<circ> sp_lockout_minutes),
      (''ip_allowlist'', str_join '', '' \<circ> sp_ip_allowlist),
      (''ip_denylist'', str_join '', '' \<circ> sp_ip_denylist),
      (''session_idle_minutes'', show_int \<circ> sp_session_idle_minutes),
      (''session_absolute_days'', show_int \<circ> sp_session_absolute_days),
      (''session_concurrent_max'', show_int \<circ> sp_session_concurrent_max),
      (''device_trust_days'', show_int \<circ> sp_device_trust_days),
      (''mfa_required'', show_bool \<circ> sp_mfa_required)]"

definition policy_diff :: "security_policy \<Rightarrow> security_policy \<Rightarrow> policy_change list" where
  "policy_diff before after =
     map (\<lambda>(field, text). \<lparr>pc_field = field, pc_before = text before, pc_after = text after\<rparr>)
       (filter (\<lambda>(field, text). text before \<noteq> text after) policy_columns)"

subsection \<open>Addresses and networks\<close>

lemma mask_eq_prefix:
  fixes a b :: "'w::len word"
  assumes "k \<le> LENGTH('w)"
  shows "a AND push_bit k (- 1) = b AND push_bit k (- 1) \<longleftrightarrow> drop_bit k a = drop_bit k b"
proof
  assume eq: "a AND push_bit k (- 1) = b AND push_bit k (- 1)"
  show "drop_bit k a = drop_bit k b"
  proof (rule bit_word_eqI)
    fix n assume "n < LENGTH('w)"
    from eq have "bit (a AND push_bit k (- 1)) (k + n) = bit (b AND push_bit k (- 1)) (k + n)" by simp
    then show "bit (drop_bit k a) n = bit (drop_bit k b) n"
      using bit_imp_le_length[of a "k + n"] bit_imp_le_length[of b "k + n"]
      by (auto simp: bit_simps)
  qed
next
  assume eq: "drop_bit k a = drop_bit k b"
  show "a AND push_bit k (- 1) = b AND push_bit k (- 1)"
  proof (rule bit_word_eqI)
    fix n assume n: "n < LENGTH('w)"
    show "bit (a AND push_bit k (- 1)) n = bit (b AND push_bit k (- 1)) n"
    proof (cases "k \<le> n")
      case True
      from eq have "bit (drop_bit k a) (n - k) = bit (drop_bit k b) (n - k)" by simp
      then show ?thesis using True n by (simp add: bit_simps)
    qed (simp add: bit_simps)
  qed
qed

text \<open>
  A network covers exactly the addresses of its family that agree with it on its prefix: on the
  leading \<open>n\<close> bits, from no bit at all (every address) to all of them (one address).
\<close>

theorem cidr_contains_prefix:
  "cidr_contains \<lparr>cidr_address = V4 a, cidr_prefix = n\<rparr> (V4 b) = (drop_bit (32 - n) a = drop_bit (32 - n) b) \<and>
   cidr_contains \<lparr>cidr_address = V6 c, cidr_prefix = n\<rparr> (V6 d) = (drop_bit (128 - n) c = drop_bit (128 - n) d) \<and>
   \<not> cidr_contains \<lparr>cidr_address = V4 a, cidr_prefix = n\<rparr> (V6 d) \<and>
   \<not> cidr_contains \<lparr>cidr_address = V6 c, cidr_prefix = n\<rparr> (V4 b)"
proof -
  have "drop_bit 32 x = 0" for x :: "32 word" by (rule bit_word_eqI) (simp add: bit_simps)
  moreover have "drop_bit 128 x = 0" for x :: "128 word" by (rule bit_word_eqI) (simp add: bit_simps)
  ultimately show ?thesis
    using mask_eq_prefix[of "32 - n" a b] mask_eq_prefix[of "128 - n" c d]
    by (simp add: cidr_contains_def mask_u32_def mask_u128_def)
qed

text \<open>
  The verdict on a known address: refused when an entry of the denylist covers it; otherwise let
  through exactly when the allowlist names nothing or one of its entries covers it. Neither the order
  of the lists nor entries that cannot be read matter.
\<close>

theorem check_ip_exact:
  "check_ip parse_ip p (Some ip) = IpAllowed \<longleftrightarrow>
     \<not> ((\<exists>e \<in> set (sp_ip_denylist p). covers parse_ip ip e) \<or>
        (\<exists>e \<in> set (sp_ip_allowlist p). trim e \<noteq> []) \<and>
        \<not> (\<exists>e \<in> set (sp_ip_allowlist p). trim e \<noteq> [] \<and> covers parse_ip ip e))"
proof (cases "find (covers parse_ip ip) (sp_ip_denylist p)")
  case None
  then have "\<not> (\<exists>e \<in> set (sp_ip_denylist p). covers parse_ip ip e)" by (simp add: find_None_iff)
  moreover have "filter (\<lambda>entry. trim entry \<noteq> []) (sp_ip_allowlist p) = [] \<longleftrightarrow>
      \<not> (\<exists>e \<in> set (sp_ip_allowlist p). trim e \<noteq> [])" by (auto simp: filter_empty_conv)
  ultimately show ?thesis using None by (auto simp: check_ip_def Let_def list_ex_iff)
next
  case (Some e)
  then show ?thesis using find_Some_mem[OF Some] by (auto simp: check_ip_def)
qed

subsection \<open>Ranges\<close>

definition policy_ok :: "security_policy \<Rightarrow> bool" where
  "policy_ok p \<longleftrightarrow> sp_password_min_length p \<in> {8..128} \<and> sp_password_require_classes p \<in> {1..4} \<and>
     sp_password_history p \<in> {0..24} \<and> sp_password_expiry_days p \<in> {0..730} \<and> sp_lockout_attempts p \<in> {3..50} \<and>
     sp_lockout_minutes p \<in> {1..1440} \<and> sp_session_idle_minutes p \<in> {5..10080} \<and>
     sp_session_absolute_days p \<in> {1..365} \<and> sp_session_concurrent_max p \<in> {1..100} \<and> sp_device_trust_days p \<in> {0..365}"

lemma range_check_ok: "range_check v field lo hi = Inr () \<longleftrightarrow> (\<forall>x. v = Some x \<longrightarrow> x \<in> {lo..hi})"
  by (auto simp: range_check_def split: option.split)

lemma range_coalesce: "range_check v field lo hi = Inr () \<Longrightarrow> d \<in> {lo..hi} \<Longrightarrow> coalesce d v \<in> {lo..hi}"
  by (auto simp: range_check_ok coalesce_def split: option.split)

lemma res_bind_unit: "res_bind r f = Inr () \<longleftrightarrow> r = Inr () \<and> f () = Inr ()"
  by (cases r) simp_all

lemma apply_patch_ok:
  assumes "validate_patch parse_ip patch = Inr ()" and "policy_ok p"
  shows "policy_ok (apply_patch patch allow deny updated_by now p)"
  using assms unfolding validate_patch_def res_bind_unit policy_ok_def apply_patch_def
  by (simp del: atLeastAtMost_iff) (blast intro: range_coalesce)

lemma default_policy_ok: "policy_ok (default_policy o1 now)"
  by (simp add: policy_ok_def default_policy_def)

lemma ensure_policy_ok:
  assumes "list_all policy_ok rows" and "ensure_policy organizations now rows o1 = (r, rows')"
  shows "list_all policy_ok rows'" and "r = Inr p \<Longrightarrow> policy_ok p \<and> sp_organization_id p = o1"
proof -
  have "list_all policy_ok rows' \<and> (\<forall>p. r = Inr p \<longrightarrow> policy_ok p \<and> sp_organization_id p = o1)"
  proof (cases "get_policy rows o1")
    case (Some q)
    then have "q \<in> set rows \<and> sp_organization_id q = o1" unfolding get_policy_def by (rule find_Some_mem)
    then show ?thesis using assms Some by (auto simp: ensure_policy_def list_all_iff)
  next
    case None
    then have "get_policy (rows @ [default_policy o1 now]) o1 = Some (default_policy o1 now)"
      unfolding get_policy_def by (simp add: find_snoc) (simp add: default_policy_def)
    moreover have "sp_organization_id (default_policy o1 now) = o1" by (simp add: default_policy_def)
    ultimately show ?thesis using assms None default_policy_ok
      by (auto simp: ensure_policy_def Let_def split: if_split_asm)
  qed
  then show "list_all policy_ok rows'" and "r = Inr p \<Longrightarrow> policy_ok p \<and> sp_organization_id p = o1" by blast+
qed

text \<open>
  No save leaves a policy out of its ranges, and the audit trail is exact: whatever the patch, the
  address lists and the answer, every stored policy stays within the ranges of the table; and a save
  that succeeds answers the states before and after, whose reported changes name exactly the fields
  whose text differs.
\<close>

theorem update_policy_in_range:
  assumes "list_all policy_ok rows"
    and "update_policy parse_ip to_cidr organizations now rows o1 patch updated_by = (answer, rows')"
  shows "list_all policy_ok rows' \<and>
    (\<forall>before after. answer = Inr (before, after) \<longrightarrow>
       policy_ok after \<and> sp_organization_id after = o1 \<and>
       map pc_field (policy_diff before after) = map fst (filter (\<lambda>(field, text). text before \<noteq> text after) policy_columns))"
proof (cases "validate_patch parse_ip patch")
  case (Inr u)
  then have v: "validate_patch parse_ip patch = Inr ()" by simp
  obtain r rows1 where e: "ensure_policy organizations now rows o1 = (r, rows1)" by fastforce
  note ok = ensure_policy_ok[OF assms(1) e]
  have "map pc_field (policy_diff b a) = map fst (filter (\<lambda>(field, text). text b \<noteq> text a) policy_columns)" for a b
    by (simp add: policy_diff_def case_prod_beta comp_def)
  moreover have "sp_organization_id (apply_patch patch allow deny updated_by now p) = sp_organization_id p" for allow deny p
    by (simp add: apply_patch_def)
  moreover have "list_all policy_ok (map (\<lambda>p. if sp_organization_id p = o1 then apply_patch patch allow deny updated_by now p else p) rows1)"
    for allow deny using ok(1) apply_patch_ok[OF v] by (auto simp: list_all_iff)
  ultimately show ?thesis using assms(2) v e ok apply_patch_ok[OF v]
    by (auto simp: update_policy_def Let_def split: sum.split_asm)
qed (use assms in \<open>auto simp: update_policy_def\<close>)

theorem update_policy_in_range_witness:
  "\<exists>answer rows'. update_policy (\<lambda>_. None) Some [7] 5 [] 7
     \<lparr>pp_password_min_length = Some 12, pp_password_require_classes = None, pp_password_history = None,
      pp_password_expiry_days = None, pp_lockout_attempts = None, pp_lockout_minutes = None, pp_ip_allowlist = None,
      pp_ip_denylist = Some [], pp_session_idle_minutes = None, pp_session_absolute_days = None,
      pp_session_concurrent_max = None, pp_device_trust_days = None, pp_mfa_required = None\<rparr> None = (answer, rows') \<and>
     list_all policy_ok rows' \<and> length rows' = 1"
proof -
  let ?patch = "\<lparr>pp_password_min_length = Some 12, pp_password_require_classes = None, pp_password_history = None,
      pp_password_expiry_days = None, pp_lockout_attempts = None, pp_lockout_minutes = None, pp_ip_allowlist = None,
      pp_ip_denylist = Some [], pp_session_idle_minutes = None, pp_session_absolute_days = None,
      pp_session_concurrent_max = None, pp_device_trust_days = None, pp_mfa_required = None\<rparr>"
  obtain answer rows' where u: "update_policy (\<lambda>_. None) Some [7] 5 [] 7 ?patch None = (answer, rows')" by fastforce
  have v: "validate_patch (\<lambda>_. None) ?patch = Inr ()" by (simp add: validate_patch_def range_check_def network_check_def)
  have "length rows' = 1" using u
    by (simp add: update_policy_def v ensure_policy_def get_policy_def cast_cidrs_def default_policy_def Let_def) auto
  then show ?thesis using u update_policy_in_range[OF _ u] by auto
qed

end
