(* ===== verification/Lockout.thy ===== *)
theory Lockout
  imports Json SecurityPolicy
begin

text \<open>
  The brute-force policy (\<open>crates/security/src/lockout.rs\<close>): its document, ranges, lock threshold and
  progressive delay, the evaluation the panel's tester shows, and the resolution of the thresholds in
  force (\<open>enforce.rs\<close>). The reader serde derives for the document is an argument.
\<close>

definition LOCK_MIN_WINDOW :: int where "LOCK_MIN_WINDOW = 60"
definition LOCK_MAX_WINDOW :: int where "LOCK_MAX_WINDOW = 86400"
definition MIN_ATTEMPTS :: int where "MIN_ATTEMPTS = 1"
definition MAX_ATTEMPTS :: int where "MAX_ATTEMPTS = 50"
definition MIN_LOCKOUT_MINUTES :: int where "MIN_LOCKOUT_MINUTES = 1"
definition MAX_LOCKOUT_MINUTES :: int where "MAX_LOCKOUT_MINUTES = 1440"
definition MIN_DELAY_SECONDS :: int where "MIN_DELAY_SECONDS = 1"
definition MAX_DELAY_SECONDS :: int where "MAX_DELAY_SECONDS = 60"

lemmas lockout_bounds = LOCK_MIN_WINDOW_def LOCK_MAX_WINDOW_def MIN_ATTEMPTS_def MAX_ATTEMPTS_def MIN_LOCKOUT_MINUTES_def
  MAX_LOCKOUT_MINUTES_def MIN_DELAY_SECONDS_def MAX_DELAY_SECONDS_def

record lockout_policy =
  lk_window_seconds :: int
  lk_attempts :: int
  lk_lockout_minutes :: int
  lk_progressive_delay :: bool
  lk_base_delay_seconds :: int
  lk_reset_on_success :: bool

definition default_lockout :: lockout_policy where
  "default_lockout =
     \<lparr>lk_window_seconds = 900, lk_attempts = 5, lk_lockout_minutes = 15, lk_progressive_delay = True,
      lk_base_delay_seconds = 2, lk_reset_on_success = True\<rparr>"

datatype lockout_error = WindowRange int | AttemptsRange int | MinutesRange int | DelayRange int | NotSettings
  | MissingFields "string list" | UnreadableSettings

definition validated :: "lockout_policy \<Rightarrow> lockout_error + lockout_policy" where
  "validated p =
     (if \<not> (LOCK_MIN_WINDOW \<le> lk_window_seconds p \<and> lk_window_seconds p \<le> LOCK_MAX_WINDOW) then Inl (WindowRange (lk_window_seconds p))
      else if \<not> (MIN_ATTEMPTS \<le> lk_attempts p \<and> lk_attempts p \<le> MAX_ATTEMPTS) then Inl (AttemptsRange (lk_attempts p))
      else if \<not> (MIN_LOCKOUT_MINUTES \<le> lk_lockout_minutes p \<and> lk_lockout_minutes p \<le> MAX_LOCKOUT_MINUTES)
      then Inl (MinutesRange (lk_lockout_minutes p))
      else if \<not> (MIN_DELAY_SECONDS \<le> lk_base_delay_seconds p \<and> lk_base_delay_seconds p \<le> MAX_DELAY_SECONDS)
      then Inl (DelayRange (lk_base_delay_seconds p))
      else Inr p)"

definition locks_at :: "lockout_policy \<Rightarrow> int \<Rightarrow> bool" where
  "locks_at p failures \<longleftrightarrow> failures \<ge> lk_attempts p"

definition lock_seconds :: "lockout_policy \<Rightarrow> int" where
  "lock_seconds p = lk_lockout_minutes p * 60"

definition delay_for :: "lockout_policy \<Rightarrow> int \<Rightarrow> int" where
  "delay_for p failures =
     (if \<not> lk_progressive_delay p \<or> failures < 1 then 0
      else (let exponent = nat (min (failures - 1) MAX_DELAY_SECONDS);
                delay = lk_base_delay_seconds p * 2 ^ min exponent 31
            in min delay MAX_DELAY_SECONDS))"

record lockout_state =
  lo_failures :: int
  lo_would_lock :: bool
  lo_next_delay_seconds :: int
  lo_attempts_remaining :: int

definition evaluate_lockout :: "lockout_policy \<Rightarrow> int \<Rightarrow> lockout_error + lockout_state" where
  "evaluate_lockout p raw =
     res_bind (validated p) (\<lambda>p. let failures = max raw 0 in
       Inr \<lparr>lo_failures = failures, lo_would_lock = locks_at p failures, lo_next_delay_seconds = delay_for p failures,
            lo_attempts_remaining = max (lk_attempts p - failures) 0\<rparr>)"

definition lockout_fields :: "string list" where
  "lockout_fields = [''window_seconds'', ''attempts'', ''lockout_minutes'', ''progressive_delay'', ''base_delay_seconds'',
     ''reset_on_success'']"

definition unwritten :: "'n json \<Rightarrow> bool" where
  "unwritten v \<longleftrightarrow> is_null v \<or> as_object v = Some []"

definition parse_lockout :: "('n json \<Rightarrow> lockout_policy option) \<Rightarrow> 'n json \<Rightarrow> lockout_error + lockout_policy" where
  "parse_lockout read_policy v =
     (if unwritten v then Inr default_lockout
      else (case as_object v of
              None \<Rightarrow> Inl NotSettings
            | Some m \<Rightarrow>
                (let missing = filter (\<lambda>field. bt_get m field = None) lockout_fields in
                 if missing \<noteq> [] then Inl (MissingFields missing)
                 else res_bind (ok_or UnreadableSettings (read_policy v)) validated)))"

subsection \<open>The thresholds in force\<close>

record enforced_lockout =
  en_attempts :: int
  en_lockout_minutes :: int
  en_window_seconds :: int

definition enforced_of :: "lockout_policy \<Rightarrow> enforced_lockout" where
  "enforced_of p = \<lparr>en_attempts = lk_attempts p, en_lockout_minutes = lk_lockout_minutes p, en_window_seconds = lk_window_seconds p\<rparr>"

definition resolve_lockout ::
  "('n json \<Rightarrow> lockout_policy option) \<Rightarrow> 'n json \<Rightarrow> security_policy list \<Rightarrow> uuid option \<Rightarrow> enforced_lockout" where
  "resolve_lockout read_policy stored policies organization_id =
     (case parse_lockout read_policy stored of
        Inr p \<Rightarrow> if \<not> unwritten stored then enforced_of p
                 else (case organization_id of
                         None \<Rightarrow> enforced_of default_lockout
                       | Some o1 \<Rightarrow>
                           (case get_policy policies o1 of
                              Some q \<Rightarrow> \<lparr>en_attempts = sp_lockout_attempts q, en_lockout_minutes = sp_lockout_minutes q,
                                         en_window_seconds = lk_window_seconds default_lockout\<rparr>
                            | None \<Rightarrow> enforced_of default_lockout))
      | Inl _ \<Rightarrow> (case organization_id of
                    None \<Rightarrow> enforced_of default_lockout
                  | Some o1 \<Rightarrow>
                      (case get_policy policies o1 of
                         Some q \<Rightarrow> \<lparr>en_attempts = sp_lockout_attempts q, en_lockout_minutes = sp_lockout_minutes q,
                                    en_window_seconds = lk_window_seconds default_lockout\<rparr>
                       | None \<Rightarrow> enforced_of default_lockout)))"

subsection \<open>Properties\<close>

definition lockout_ok :: "lockout_policy \<Rightarrow> bool" where
  "lockout_ok p \<longleftrightarrow> validated p = Inr p"

lemma validated_Inr: "validated p = Inr q \<Longrightarrow> q = p \<and> lockout_ok p"
  by (auto simp: validated_def lockout_ok_def split: if_split_asm)

lemma lockout_ok_bounds: "lockout_ok p \<Longrightarrow> 60 \<le> lk_window_seconds p \<and> lk_window_seconds p \<le> 86400 \<and> 1 \<le> lk_attempts p \<and> lk_attempts p \<le> 50 \<and>
   1 \<le> lk_lockout_minutes p \<and> lk_lockout_minutes p \<le> 1440 \<and> 1 \<le> lk_base_delay_seconds p \<and> lk_base_delay_seconds p \<le> 60"
  by (auto simp: lockout_ok_def validated_def lockout_bounds split: if_split_asm)

lemma six_doublings: "6 \<le> n \<Longrightarrow> (1::int) \<le> b \<Longrightarrow> 60 \<le> b * 2 ^ n"
proof -
  assume "6 \<le> n" "1 \<le> b"
  then have "(2::int) ^ 6 \<le> 2 ^ n" by (intro power_increasing) simp_all
  then have "1 * 60 \<le> b * 2 ^ n" using \<open>1 \<le> b\<close> by (intro mult_mono) simp_all
  then show ?thesis by simp
qed

text \<open>
  The progressive delay is the documented one, for every count of failures and without overflow: a
  valid policy delays the \<open>n\<close>-th attempt by the base delay doubled \<open>n - 1\<close> times, capped at one
  minute - the two bounds on the exponent never show -, and the product the code forms before the cap
  fits a 64-bit integer.
\<close>

theorem delay_exact:
  assumes "lockout_ok p" and "lk_progressive_delay p"
  shows "delay_for p (int n + 1) = min 60 (lk_base_delay_seconds p * 2 ^ n) \<and> delay_for p 0 = 0 \<and>
    lk_base_delay_seconds p * 2 ^ min (nat (min (int n) MAX_DELAY_SECONDS)) 31 < 2 ^ 63"
proof -
  let ?b = "lk_base_delay_seconds p"
  have b: "1 \<le> ?b" "?b \<le> 60" using lockout_ok_bounds[OF assms(1)] by simp_all
  define e where "e = min (nat (min (int n) MAX_DELAY_SECONDS)) 31"
  have d: "delay_for p (int n + 1) = min (?b * 2 ^ e) 60"
    using assms(2) by (simp add: delay_for_def Let_def e_def MAX_DELAY_SECONDS_def)
  have "min (?b * 2 ^ e) 60 = min 60 (?b * 2 ^ n)"
  proof (cases "n \<le> 31")
    case True
    then have "e = n" by (simp add: e_def MAX_DELAY_SECONDS_def)
    then show ?thesis by simp
  next
    case False
    then have "6 \<le> e" "6 \<le> n" by (simp_all add: e_def MAX_DELAY_SECONDS_def)
    then have "60 \<le> ?b * 2 ^ e" "60 \<le> ?b * 2 ^ n" using six_doublings[OF _ b(1)] by blast+
    then show ?thesis by simp
  qed
  moreover have "?b * 2 ^ e < 2 ^ 63"
  proof -
    have "(2::int) ^ e \<le> 2 ^ 31" by (intro power_increasing) (simp_all add: e_def)
    then have "?b * 2 ^ e \<le> 60 * 2 ^ 31" using b by (intro mult_mono) simp_all
    then show ?thesis by simp
  qed
  ultimately show ?thesis using d by (simp add: e_def delay_for_def)
qed

theorem delay_exact_witness: "delay_for default_lockout (int 4 + 1) = 32 \<and> delay_for default_lockout (int 200 + 1) = 60"
proof -
  have ok: "lockout_ok default_lockout" "lk_progressive_delay default_lockout"
    by (simp_all add: lockout_ok_def validated_def default_lockout_def lockout_bounds)
  have "(60::int) \<le> 2 * 2 ^ 200" by simp
  then show ?thesis using delay_exact[OF ok, of 4] delay_exact[OF ok, of 200] by (simp add: default_lockout_def)
qed

text \<open>
  The tester cannot promise what sign-in would not do: it answers exactly for valid policies; it
  announces a lock exactly when no attempts remain, and otherwise the lock comes after exactly the
  number of further failures it announces.
\<close>

theorem evaluate_lockout_exact:
  "(\<exists>s. evaluate_lockout p n = Inr s) = lockout_ok p \<and>
   (case evaluate_lockout p n of
      Inl _ \<Rightarrow> True
    | Inr s \<Rightarrow> lo_would_lock s = (lo_attempts_remaining s = 0) \<and>
        (lo_would_lock s \<or> locks_at p (lo_failures s + k) = (k \<ge> lo_attempts_remaining s)))"
proof (cases "validated p")
  case (Inl e)
  then show ?thesis by (simp add: evaluate_lockout_def lockout_ok_def)
next
  case (Inr q)
  then have q: "q = p" "lockout_ok p" using validated_Inr by blast+
  show ?thesis
  proof (cases "lk_attempts p \<le> max n 0")
    case True
    then show ?thesis using Inr q by (auto simp: evaluate_lockout_def Let_def locks_at_def)
  next
    case False
    then show ?thesis using Inr q by (auto simp: evaluate_lockout_def Let_def locks_at_def)
  qed
qed

lemma resolve_lockout_bounds:
  assumes "list_all policy_ok policies"
  shows "1 \<le> en_attempts (resolve_lockout read_policy stored policies o1) \<and> en_attempts (resolve_lockout read_policy stored policies o1) \<le> 50 \<and>
    1 \<le> en_lockout_minutes (resolve_lockout read_policy stored policies o1) \<and>
    60 \<le> en_window_seconds (resolve_lockout read_policy stored policies o1) \<and>
    en_window_seconds (resolve_lockout read_policy stored policies o1) \<le> 86400"
proof -
  have legacy: "get_policy policies i = Some q \<Longrightarrow> policy_ok q" for i q
    using assms unfolding get_policy_def list_all_iff by (blast dest: find_Some_mem)
  have parsed: "parse_lockout read_policy stored = Inr p \<Longrightarrow> lockout_ok p" for p
    by (auto simp: parse_lockout_def Let_def res_bind_Inr_conv default_lockout_def lockout_ok_def validated_def lockout_bounds
        split: if_split_asm option.split_asm)
  show ?thesis
    by (auto simp: resolve_lockout_def enforced_of_def default_lockout_def policy_ok_def
        dest!: legacy parsed lockout_ok_bounds split: sum.split option.split)
qed

end
