(* ===== verification/Totp.thy ===== *)
theory Totp
  imports Prelude
begin

text \<open>
  One-time passwords (\<open>crates/identity/src/totp.rs\<close>): HOTP's truncation, the time steps a code is
  accepted in, and the Base32 form of a secret. HMAC-SHA1 is third-party code and an argument
  \<open>hmac\<close>; bytes are \<open>8 word\<close>, the shift registers of the codec \<open>64 word\<close>.
\<close>

unbundle bit_operations_syntax

definition DIGITS :: nat where "DIGITS = 6"
definition STEP_SECONDS :: nat where "STEP_SECONDS = 30"
definition DEFAULT_WINDOW :: nat where "DEFAULT_WINDOW = 1"

type_synonym hmac = "8 word list \<Rightarrow> 8 word list \<Rightarrow> 8 word list"

definition to_be_bytes :: "64 word \<Rightarrow> 8 word list" where
  "to_be_bytes c = map (\<lambda>i. ucast (drop_bit (8 * (7 - i)) c)) [0..<8]"

definition hotp :: "hmac \<Rightarrow> 8 word list \<Rightarrow> nat \<Rightarrow> 32 word" where
  "hotp hmac secret counter =
     (let digest = hmac secret (to_be_bytes (of_nat counter));
          offset = unat (digest ! 19 AND 0x0f);
          binary = push_bit 24 (ucast (digest ! offset) AND 0x7f) OR push_bit 16 (ucast (digest ! (offset + 1))) OR
                   push_bit 8 (ucast (digest ! (offset + 2))) OR ucast (digest ! (offset + 3))
      in binary mod 10 ^ DIGITS)"

definition counter_for :: "int \<Rightarrow> nat" where
  "counter_for unix_seconds = nat (max unix_seconds 0) div STEP_SECONDS"

definition totp :: "hmac \<Rightarrow> 8 word list \<Rightarrow> int \<Rightarrow> 32 word" where
  "totp hmac secret unix_seconds = hotp hmac secret (counter_for unix_seconds)"

definition checked_sub :: "nat \<Rightarrow> nat \<Rightarrow> nat option" where
  "checked_sub a b = (if b \<le> a then Some (a - b) else None)"

definition checked_add :: "nat \<Rightarrow> nat \<Rightarrow> nat option" where
  "checked_add a b = (if a + b < 2 ^ 64 then Some (a + b) else None)"

definition totp_verify :: "hmac \<Rightarrow> 8 word list \<Rightarrow> string \<Rightarrow> int \<Rightarrow> nat \<Rightarrow> bool" where
  "totp_verify hmac secret entered unix_seconds window =
     (case parse_uint (2 ^ 32 - 1) (trim entered) of
        None \<Rightarrow> False
      | Some candidate \<Rightarrow>
          (let counter = counter_for unix_seconds in
           list_ex (\<lambda>offset. list_ex (\<lambda>step. case step of None \<Rightarrow> False | Some s \<Rightarrow> unat (hotp hmac secret s) = candidate)
             [checked_sub counter offset, checked_add counter offset]) [0..<Suc window]))"

definition pad_left :: "nat \<Rightarrow> string \<Rightarrow> string" where
  "pad_left n s = replicate (n - length s) CHR ''0'' @ s"

definition format_code :: "32 word \<Rightarrow> string" where
  "format_code v = pad_left DIGITS (show_nat (unat v))"

subsection \<open>Base32\<close>

definition BASE32_ALPHABET :: string where
  "BASE32_ALPHABET = ''ABCDEFGHIJKLMNOPQRSTUVWXYZ234567''"

fun chunks5 :: "8 word list \<Rightarrow> 8 word list list" where
  "chunks5 (a # b # c # d # e # rest) = [a, b, c, d, e] # chunks5 rest"
| "chunks5 [] = []"
| "chunks5 bs = [bs]"

definition encode_chunk :: "8 word list \<Rightarrow> string" where
  "encode_chunk chunk =
     (let bits = fold (\<lambda>byte bits. push_bit 8 bits OR ucast byte) chunk (0 :: 64 word);
          bits = push_bit (40 - length chunk * 8) bits;
          characters = (case length chunk of Suc 0 \<Rightarrow> 2 | Suc (Suc 0) \<Rightarrow> 4 | Suc (Suc (Suc 0)) \<Rightarrow> 5
                          | Suc (Suc (Suc (Suc 0))) \<Rightarrow> 7 | _ \<Rightarrow> 8)
      in map (\<lambda>index. BASE32_ALPHABET ! unat (drop_bit (35 - index * 5) bits AND 0x1f)) [0..<characters])"

definition base32_encode :: "8 word list \<Rightarrow> string" where
  "base32_encode bytes = concat (map encode_chunk (chunks5 bytes))"

fun position :: "('a \<Rightarrow> bool) \<Rightarrow> 'a list \<Rightarrow> nat option" where
  "position P [] = None"
| "position P (x # xs) = (if P x then Some 0 else map_option Suc (position P xs))"

definition upper :: "char \<Rightarrow> char" where
  "upper c = (if is_ascii_lowercase c then char_of (code c - 32) else c)"

fun decode_loop :: "64 word \<Rightarrow> nat \<Rightarrow> string \<Rightarrow> 8 word list option" where
  "decode_loop buffer bits [] = Some []"
| "decode_loop buffer bits (c # cs) =
     (if upper c \<in> {CHR ''='', CHR '' '', CHR ''-''} then decode_loop buffer bits cs
      else case position (\<lambda>candidate. candidate = upper c) BASE32_ALPHABET of
             None \<Rightarrow> None
           | Some value \<Rightarrow>
               (let buffer' = push_bit 5 buffer OR of_nat value; bits' = bits + 5 in
                if bits' \<ge> 8
                then map_option ((#) (ucast (drop_bit (bits' - 8) buffer' AND 0xff))) (decode_loop buffer' (bits' - 8) cs)
                else decode_loop buffer' bits' cs))"

definition base32_decode :: "string \<Rightarrow> 8 word list option" where
  "base32_decode text = decode_loop 0 0 text"

subsection \<open>The enrolment address\<close>

definition hex_upper :: "nat \<Rightarrow> char" where
  "hex_upper n = (if n < 10 then char_of (48 + n) else char_of (55 + n))"

definition encode_label :: "string \<Rightarrow> string" where
  "encode_label value = concat (map (\<lambda>byte.
     (let c = char_of (unat byte) in
      if is_ascii_alphanumeric c \<or> c \<in> {CHR ''-'', CHR ''.'', CHR ''_'', CHR ''~''} then [c]
      else [CHR ''%'', hex_upper (unat byte div 16), hex_upper (unat byte mod 16)])) (as_bytes value))"

definition otpauth_uri :: "string \<Rightarrow> string \<Rightarrow> string \<Rightarrow> string" where
  "otpauth_uri issuer account secret_base32 =
     ''otpauth://totp/'' @ encode_label issuer @ '':'' @ encode_label account @ ''?secret='' @ secret_base32 @
     ''&issuer='' @ encode_label issuer @ ''&algorithm=SHA1&digits='' @ show_nat DIGITS @ ''&period='' @ show_nat STEP_SECONDS"

subsection \<open>Secrets read back\<close>

lemma alphabet_read: "v < 32 \<Longrightarrow> position (\<lambda>candidate. candidate = BASE32_ALPHABET ! v) BASE32_ALPHABET = Some v \<and>
    upper (BASE32_ALPHABET ! v) = BASE32_ALPHABET ! v \<and> BASE32_ALPHABET ! v \<notin> {CHR ''='', CHR '' '', CHR ''-''}"
proof -
  have "list_all (\<lambda>v. position (\<lambda>candidate. candidate = BASE32_ALPHABET ! v) BASE32_ALPHABET = Some v \<and>
    upper (BASE32_ALPHABET ! v) = BASE32_ALPHABET ! v \<and> BASE32_ALPHABET ! v \<notin> {CHR ''='', CHR '' '', CHR ''-''}) [0..<32]"
    by code_simp
  then show "v < 32 \<Longrightarrow> ?thesis" by (simp add: list_all_iff)
qed

lemma masks: "(0x1f :: 64 word) = mask 5" "(0xff :: 64 word) = mask 8"
  by (simp_all add: mask_eq_exp_minus_1)

lemma group_small: "unat (w AND 0x1f :: 64 word) < 32"
  unfolding masks take_bit_eq_mask[symmetric] using take_bit_nat_less_exp[of 5 "unat w"] by (simp add: unsigned_take_bit_eq)

text \<open>The shift register of the decoder: taking in a group, and reading a byte off.\<close>

definition feed :: "64 word \<Rightarrow> 64 word \<Rightarrow> 64 word" where
  "feed buffer v = push_bit 5 buffer OR (v AND 0x1f)"

definition cut :: "nat \<Rightarrow> 64 word \<Rightarrow> 8 word" where
  "cut k buffer = ucast (drop_bit k buffer AND 0xff)"

definition symbol :: "64 word \<Rightarrow> nat \<Rightarrow> char" where
  "symbol w k = BASE32_ALPHABET ! unat (drop_bit k w AND 0x1f)"

lemma bit_feed: "bit (feed buffer v) n \<longleftrightarrow> n < 64 \<and> (if n < 5 then bit v n else bit buffer (n - 5))"
  by (auto simp: feed_def masks bit_simps dest: bit_imp_le_length)

lemma bit_cut: "n < 8 \<Longrightarrow> bit (cut k buffer) n \<longleftrightarrow> bit buffer (k + n)"
  by (simp add: cut_def masks bit_simps)

lemma decode_symbol:
  "decode_loop buffer bits (symbol w k # cs) =
     (let buffer' = feed buffer (drop_bit k w) in
      if bits + 5 \<ge> 8 then map_option ((#) (cut (bits + 5 - 8) buffer')) (decode_loop buffer' (bits + 5 - 8) cs)
      else decode_loop buffer' (bits + 5) cs)"
  using alphabet_read[OF group_small, of "drop_bit k w"] by (simp add: Let_def symbol_def feed_def cut_def)

lemma byte_eqI: "list_all (\<lambda>n. bit a n = bit b n) [0, 1, 2, 3, 4, 5, 6, 7] \<Longrightarrow> a = (b :: 8 word)"
proof (rule bit_word_eqI)
  fix n assume h: "list_all (\<lambda>n. bit a n = bit b n) [0, 1, 2, 3, 4, 5, 6, 7]" and "n < LENGTH(8)"
  have eq: "[0, 1, 2, 3, 4, 5, 6, 7] = [0..<8::nat]" by (simp add: upt_rec)
  show "bit a n = bit b n" using h \<open>n < LENGTH(8)\<close> unfolding eq list_all_iff by simp
qed

text \<open>Eight groups of a 40-bit window give back its five bytes.\<close>

lemma window_bytes:
  fixes w buffer :: "64 word"
  defines "f1 \<equiv> feed buffer (drop_bit 35 w)" defines "f2 \<equiv> feed f1 (drop_bit 30 w)" defines "f3 \<equiv> feed f2 (drop_bit 25 w)"
  defines "f4 \<equiv> feed f3 (drop_bit 20 w)" defines "f5 \<equiv> feed f4 (drop_bit 15 w)" defines "f6 \<equiv> feed f5 (drop_bit 10 w)"
  defines "f7 \<equiv> feed f6 (drop_bit 5 w)" defines "f8 \<equiv> feed f7 (drop_bit 0 w)"
  shows "cut 2 f2 = ucast (drop_bit 32 w)" "cut 4 f4 = ucast (drop_bit 24 w)" "cut 1 f5 = ucast (drop_bit 16 w)"
    "cut 3 f7 = ucast (drop_bit 8 w)" "cut 0 f8 = ucast w"
  by (rule byte_eqI, simp add: bit_cut bit_feed bit_drop_bit_eq bit_unsigned_iff assms flip: numeral_2_eq_2)+

lemma decode_window:
  "decode_loop buffer 0 (map (symbol w) [35, 30]) = Some [ucast (drop_bit 32 w)]"
  "decode_loop buffer 0 (map (symbol w) [35, 30, 25, 20]) = Some [ucast (drop_bit 32 w), ucast (drop_bit 24 w)]"
  "decode_loop buffer 0 (map (symbol w) [35, 30, 25, 20, 15]) = Some [ucast (drop_bit 32 w), ucast (drop_bit 24 w), ucast (drop_bit 16 w)]"
  "decode_loop buffer 0 (map (symbol w) [35, 30, 25, 20, 15, 10, 5]) =
     Some [ucast (drop_bit 32 w), ucast (drop_bit 24 w), ucast (drop_bit 16 w), ucast (drop_bit 8 w)]"
  using window_bytes[of buffer w] by (simp_all add: decode_symbol del: decode_loop.simps(2))

lemma append_five: "(@) [a, b, c, d, e] = (\<lambda>xs. a # b # c # d # e # xs)"
  by (rule ext) simp

lemma decode_window_full:
  "\<exists>buffer'. decode_loop buffer 0 (map (symbol w) [35, 30, 25, 20, 15, 10, 5, 0] @ cs) =
     map_option ((@) [ucast (drop_bit 32 w), ucast (drop_bit 24 w), ucast (drop_bit 16 w), ucast (drop_bit 8 w), ucast w]) (decode_loop buffer' 0 cs)"
proof -
  define f where "f = fold (\<lambda>k b. feed b (drop_bit k w)) [35, 30, 25, 20, 15, 10, 5, 0] buffer"
  have "decode_loop buffer 0 (map (symbol w) [35, 30, 25, 20, 15, 10, 5, 0] @ cs) =
     map_option ((@) [ucast (drop_bit 32 w), ucast (drop_bit 24 w), ucast (drop_bit 16 w), ucast (drop_bit 8 w), ucast w]) (decode_loop f 0 cs)"
    using window_bytes[where buffer = buffer and w = w]
    by (simp add: decode_symbol option.map_comp comp_def f_def append_five del: decode_loop.simps(2))
  then show ?thesis by blast
qed

definition chunk_window :: "8 word list \<Rightarrow> 64 word" where
  "chunk_window chunk = push_bit (40 - length chunk * 8) (fold (\<lambda>byte bits. push_bit 8 bits OR ucast byte) chunk 0)"

lemma encode_chunk_symbols:
  "encode_chunk [a] = map (symbol (chunk_window [a])) [35, 30]"
  "encode_chunk [a, b] = map (symbol (chunk_window [a, b])) [35, 30, 25, 20]"
  "encode_chunk [a, b, c] = map (symbol (chunk_window [a, b, c])) [35, 30, 25, 20, 15]"
  "encode_chunk [a, b, c, d] = map (symbol (chunk_window [a, b, c, d])) [35, 30, 25, 20, 15, 10, 5]"
  "encode_chunk [a, b, c, d, e] = map (symbol (chunk_window [a, b, c, d, e])) [35, 30, 25, 20, 15, 10, 5, 0]"
  unfolding encode_chunk_def Let_def chunk_window_def[symmetric] symbol_def[symmetric] by (simp_all add: upt_rec)

lemma byte_beyond: "8 \<le> n \<Longrightarrow> \<not> bit (b :: 8 word) n"
  using bit_imp_le_length[of b n] by auto

lemma chunk_window_bytes:
  "ucast (drop_bit 32 (chunk_window [a, b, c, d, e])) = a" "ucast (drop_bit 24 (chunk_window [a, b, c, d, e])) = b"
  "ucast (drop_bit 16 (chunk_window [a, b, c, d, e])) = c" "ucast (drop_bit 8 (chunk_window [a, b, c, d, e])) = d"
  "ucast (chunk_window [a, b, c, d, e]) = e"
  by (rule byte_eqI, simp add: chunk_window_def bit_simps byte_beyond)+

lemma chunk_window_pad:
  "chunk_window [a] = chunk_window [a, 0, 0, 0, 0]" "chunk_window [a, b] = chunk_window [a, b, 0, 0, 0]"
  "chunk_window [a, b, c] = chunk_window [a, b, c, 0, 0]" "chunk_window [a, b, c, d] = chunk_window [a, b, c, d, 0]"
  by (simp_all add: chunk_window_def)

lemma concat_one: "concat (map f [x]) = f x"
  by simp

text \<open>
  A secret survives the authenticator: decoding the Base32 text of any byte string gives the bytes
  back, whatever its length.
\<close>

theorem base32_roundtrip: "base32_decode (base32_encode bytes) = Some bytes"
proof -
  have "decode_loop buffer 0 (base32_encode bytes) = Some bytes" for buffer
  proof (induction bytes arbitrary: buffer rule: chunks5.induct)
    case (1 a b c d e rest)
    obtain buffer' where "decode_loop buffer 0 (encode_chunk [a, b, c, d, e] @ base32_encode rest) =
        map_option ((@) [a, b, c, d, e]) (decode_loop buffer' 0 (base32_encode rest))"
      using decode_window_full[of buffer "chunk_window [a, b, c, d, e]" "base32_encode rest"]
      unfolding encode_chunk_symbols(5) chunk_window_bytes by blast
    then show ?case using "1.IH" by (simp add: base32_encode_def)
  qed (simp_all only: base32_encode_def chunks5.simps concat_one encode_chunk_symbols decode_window
        chunk_window_pad chunk_window_bytes list.simps(8) concat.simps(1) decode_loop.simps(1))
  then show ?thesis by (simp add: base32_decode_def)
qed

subsection \<open>The window a code is accepted in\<close>

text \<open>
  A code is accepted exactly in its time steps: the trimmed text reads as a number, and that number
  is the one-time password of the current step or of one of the \<open>window\<close> steps before or after it (no
  step before the epoch, none past the 64-bit counter).
\<close>

theorem totp_verify_exact:
  "totp_verify hmac secret entered now window \<longleftrightarrow>
     (\<exists>step. parse_uint (2 ^ 32 - 1) (trim entered) = Some (unat (hotp hmac secret step)) \<and>
        counter_for now \<le> step + window \<and> step \<le> counter_for now + window \<and>
        (step \<le> counter_for now \<or> step < 2 ^ 64))"
proof (cases "parse_uint (2 ^ 32 - 1) (trim entered)")
  case (Some c)
  let ?k = "counter_for now"
  define hit where "hit offset \<longleftrightarrow> (offset \<le> ?k \<and> unat (hotp hmac secret (?k - offset)) = c) \<or>
        (?k + offset < 2 ^ 64 \<and> unat (hotp hmac secret (?k + offset)) = c)" for offset
  have inner: "list_ex (\<lambda>step. case step of None \<Rightarrow> False | Some s \<Rightarrow> unat (hotp hmac secret s) = c)
      [checked_sub ?k offset, checked_add ?k offset] = hit offset" for offset
    by (simp add: checked_sub_def checked_add_def hit_def)
  have "totp_verify hmac secret entered now window \<longleftrightarrow> list_ex hit [0..<Suc window]"
    unfolding totp_verify_def Some option.case Let_def inner ..
  also have "\<dots> \<longleftrightarrow> (\<exists>offset \<le> window. hit offset)" unfolding list_ex_iff set_upt atLeastLessThanSuc_atLeastAtMost by auto
  also have "\<dots> \<longleftrightarrow>
      (\<exists>offset \<le> window. (offset \<le> ?k \<and> unat (hotp hmac secret (?k - offset)) = c) \<or>
        (?k + offset < 2 ^ 64 \<and> unat (hotp hmac secret (?k + offset)) = c))" unfolding hit_def ..
  also have "\<dots> \<longleftrightarrow> (\<exists>step. unat (hotp hmac secret step) = c \<and> ?k \<le> step + window \<and> step \<le> ?k + window \<and> (step \<le> ?k \<or> step < 2 ^ 64))"
  proof
    assume "\<exists>offset \<le> window. (offset \<le> ?k \<and> unat (hotp hmac secret (?k - offset)) = c) \<or>
        (?k + offset < 2 ^ 64 \<and> unat (hotp hmac secret (?k + offset)) = c)"
    then obtain o1 where o1: "o1 \<le> window" "(o1 \<le> ?k \<and> unat (hotp hmac secret (?k - o1)) = c) \<or>
        (?k + o1 < 2 ^ 64 \<and> unat (hotp hmac secret (?k + o1)) = c)" by blast
    from o1(2) show "\<exists>step. unat (hotp hmac secret step) = c \<and> ?k \<le> step + window \<and> step \<le> ?k + window \<and> (step \<le> ?k \<or> step < 2 ^ 64)"
    proof
      assume "o1 \<le> ?k \<and> unat (hotp hmac secret (?k - o1)) = c"
      then show ?thesis using o1(1) by (intro exI[of _ "?k - o1"]) auto
    next
      assume "?k + o1 < 2 ^ 64 \<and> unat (hotp hmac secret (?k + o1)) = c"
      then show ?thesis using o1(1) by (intro exI[of _ "?k + o1"]) auto
    qed
  next
    assume "\<exists>step. unat (hotp hmac secret step) = c \<and> ?k \<le> step + window \<and> step \<le> ?k + window \<and> (step \<le> ?k \<or> step < 2 ^ 64)"
    then obtain s where s: "unat (hotp hmac secret s) = c" "?k \<le> s + window" "s \<le> ?k + window" "s \<le> ?k \<or> s < 2 ^ 64" by blast
    show "\<exists>offset \<le> window. (offset \<le> ?k \<and> unat (hotp hmac secret (?k - offset)) = c) \<or>
        (?k + offset < 2 ^ 64 \<and> unat (hotp hmac secret (?k + offset)) = c)"
    proof (cases "s \<le> ?k")
      case True
      then show ?thesis using s by (intro exI[of _ "?k - s"]) simp
    next
      case False
      then show ?thesis using s by (intro exI[of _ "s - ?k"]) simp
    qed
  qed
  finally show ?thesis using Some by auto
qed (simp add: totp_verify_def)

lemma hotp_bound: "unat (hotp hmac secret counter) < 10 ^ 6"
proof -
  have "hotp hmac secret counter < 10 ^ DIGITS"
    unfolding hotp_def Let_def by (rule word_mod_less_divisor) (simp add: DIGITS_def)
  then have "unat (hotp hmac secret counter) < unat (10 ^ DIGITS :: 32 word)" by (simp only: word_less_nat_alt)
  then show ?thesis by (simp add: DIGITS_def)
qed

end
