(* ===== verification/Mfa.thy ===== *)
theory Mfa
  imports Totp SecurityPolicy
begin

text \<open>
  Second factors (\<open>crates/identity/src/mfa.rs\<close>): enrolment and confirmation of TOTP factors, passkeys,
  single-use recovery codes and the verification of a code. Encryption is third-party: \<open>seal\<close> and
  \<open>unseal\<close> are arguments (the latter answers the text of a secret), as is the digest \<open>sha256\<close>. Random
  bytes and identifiers are arguments.
\<close>

subsection \<open>State\<close>

record mfa_factor =
  mf_id :: uuid
  mf_user_id :: uuid
  mf_kind :: string
  mf_label :: string
  mf_secret_ciphertext :: "string option"
  mf_credential_id :: "string option"
  mf_public_key :: "string option"
  mf_sign_count :: int
  mf_transports :: "string list"
  mf_confirmed_at :: "instant option"
  mf_last_used_at :: "instant option"
  mf_created_at :: instant
  mf_revoked_at :: "instant option"

record recovery_code =
  rc_user_id :: uuid
  rc_code_hash :: string
  rc_used_at :: "instant option"

record mfa_db =
  md_factors :: "mfa_factor list"
  md_codes :: "recovery_code list"

datatype verification = VerifiedTotp uuid | VerifiedRecovery

record totp_enrollment =
  te_factor :: mfa_factor
  te_secret :: string
  te_otpauth_uri :: string

definition RECOVERY_CODE_COUNT :: nat where "RECOVERY_CODE_COUNT = 10"
definition RECOVERY_CODE_CHARS :: nat where "RECOVERY_CODE_CHARS = 5"
definition RECOVERY_ALPHABET :: string where "RECOVERY_ALPHABET = ''ABCDEFGHJKLMNPQRSTUVWXYZ23456789''"
definition MAX_LABEL_LENGTH :: nat where "MAX_LABEL_LENGTH = 64"

subsection \<open>Reading factors\<close>

definition live_factor :: "uuid \<Rightarrow> mfa_factor \<Rightarrow> bool" where
  "live_factor user f \<longleftrightarrow> mf_user_id f = user \<and> mf_revoked_at f = None"

definition list_factors :: "mfa_db \<Rightarrow> uuid \<Rightarrow> mfa_factor list" where
  "list_factors db user = sort_key (\<lambda>f. - mf_created_at f) (filter (live_factor user) (md_factors db))"

definition confirmed_count :: "mfa_db \<Rightarrow> uuid \<Rightarrow> nat" where
  "confirmed_count db user =
     length (filter (\<lambda>f. live_factor user f \<and> mf_confirmed_at f \<noteq> None \<and> mf_kind f \<in> {''totp'', ''webauthn''}) (md_factors db))"

definition has_confirmed_factor :: "mfa_db \<Rightarrow> uuid \<Rightarrow> bool" where
  "has_confirmed_factor db user \<longleftrightarrow> confirmed_count db user > 0"

definition find_factor :: "mfa_db \<Rightarrow> uuid \<Rightarrow> uuid \<Rightarrow> mfa_factor option" where
  "find_factor db user i = find (\<lambda>f. mf_id f = i \<and> live_factor user f) (md_factors db)"

definition list_passkeys :: "mfa_db \<Rightarrow> uuid \<Rightarrow> mfa_factor list" where
  "list_passkeys db user =
     sort_key (\<lambda>f. - mf_created_at f) (filter (\<lambda>f. live_factor user f \<and> mf_kind f = ''webauthn'') (md_factors db))"

definition find_passkey :: "mfa_db \<Rightarrow> uuid \<Rightarrow> string \<Rightarrow> mfa_factor option" where
  "find_passkey db user credential =
     find (\<lambda>f. live_factor user f \<and> mf_kind f = ''webauthn'' \<and> mf_credential_id f = Some credential) (md_factors db)"

definition passkey_exists :: "mfa_db \<Rightarrow> string \<Rightarrow> bool" where
  "passkey_exists db credential =
     list_ex (\<lambda>f. mf_kind f = ''webauthn'' \<and> mf_credential_id f = Some credential \<and> mf_revoked_at f = None) (md_factors db)"

subsection \<open>Recovery codes\<close>

definition generate_recovery_code :: "8 word list \<Rightarrow> string" where
  "generate_recovery_code bytes =
     (let characters = map (\<lambda>b. RECOVERY_ALPHABET ! (unat b mod length RECOVERY_ALPHABET)) bytes
      in take RECOVERY_CODE_CHARS characters @ ''-'' @ drop RECOVERY_CODE_CHARS characters)"

definition normalize_code :: "string \<Rightarrow> string" where
  "normalize_code entered = map upper (filter is_ascii_alphanumeric entered)"

definition hash_recovery_code :: "(string \<Rightarrow> string) \<Rightarrow> string \<Rightarrow> string" where
  "hash_recovery_code sha256 entered = sha256 (''omnion.recovery.v1'' @ normalize_code entered)"

text \<open>Each code is inserted by a statement of its own; a repeated code violates the unique index, and
  the ones written before it stay.\<close>

fun insert_codes :: "(string \<Rightarrow> string) \<Rightarrow> uuid \<Rightarrow> string list \<Rightarrow> mfa_db \<Rightarrow> (identity_error + unit) \<times> mfa_db" where
  "insert_codes sha256 user [] db = (Inr (), db)"
| "insert_codes sha256 user (c # cs) db =
     (let h = hash_recovery_code sha256 c in
      if list_ex (\<lambda>r. rc_user_id r = user \<and> rc_code_hash r = h) (md_codes db) then (Inl IdDatabase, db)
      else insert_codes sha256 user cs
             (db\<lparr>md_codes := md_codes db @ [\<lparr>rc_user_id = user, rc_code_hash = h, rc_used_at = None\<rparr>]\<rparr>))"

definition delete_codes :: "uuid \<Rightarrow> mfa_db \<Rightarrow> mfa_db" where
  "delete_codes user db = db\<lparr>md_codes := filter (\<lambda>r. rc_user_id r \<noteq> user) (md_codes db)\<rparr>"

definition refresh_recovery_codes ::
  "(string \<Rightarrow> string) \<Rightarrow> 8 word list list \<Rightarrow> mfa_db \<Rightarrow> uuid \<Rightarrow> (identity_error + string list) \<times> mfa_db" where
  "refresh_recovery_codes sha256 random db user =
     (let codes = map generate_recovery_code (take RECOVERY_CODE_COUNT random) in
      case insert_codes sha256 user codes (delete_codes user db) of
        (Inl e, db') \<Rightarrow> (Inl e, db')
      | (Inr _, db') \<Rightarrow> (Inr codes, db'))"

definition remaining_recovery_codes :: "mfa_db \<Rightarrow> uuid \<Rightarrow> nat" where
  "remaining_recovery_codes db user = length (filter (\<lambda>r. rc_user_id r = user \<and> rc_used_at r = None) (md_codes db))"

subsection \<open>Enrolment\<close>

definition update_factor :: "(mfa_factor \<Rightarrow> bool) \<Rightarrow> (mfa_factor \<Rightarrow> mfa_factor) \<Rightarrow> mfa_db \<Rightarrow> mfa_db" where
  "update_factor P g db = db\<lparr>md_factors := map (\<lambda>f. if P f then g f else f) (md_factors db)\<rparr>"

definition factor_label :: "string option \<Rightarrow> string" where
  "factor_label label =
     (let l = (case label of None \<Rightarrow> [] | Some v \<Rightarrow> trim v)
      in take MAX_LABEL_LENGTH (if l = [] then ''Authenticator app'' else l))"

definition pending_totp :: "uuid \<Rightarrow> mfa_factor \<Rightarrow> bool" where
  "pending_totp user f \<longleftrightarrow> live_factor user f \<and> mf_kind f = ''totp'' \<and> mf_confirmed_at f = None"

definition enroll_totp ::
  "(string \<Rightarrow> string) \<Rightarrow> 8 word list \<Rightarrow> uuid \<Rightarrow> instant \<Rightarrow> mfa_db \<Rightarrow> uuid \<Rightarrow>
   string option \<Rightarrow> string \<Rightarrow> string \<Rightarrow> totp_enrollment \<times> mfa_db" where
  "enroll_totp seal secret fresh now db user label issuer account =
     (let secret_base32 = base32_encode secret;
          db1 = update_factor (pending_totp user) (\<lambda>f. f\<lparr>mf_revoked_at := Some now\<rparr>) db;
          factor = \<lparr>mf_id = fresh, mf_user_id = user, mf_kind = ''totp'', mf_label = factor_label label,
                    mf_secret_ciphertext = Some (seal secret_base32), mf_credential_id = None, mf_public_key = None,
                    mf_sign_count = 0, mf_transports = [], mf_confirmed_at = None, mf_last_used_at = None,
                    mf_created_at = now, mf_revoked_at = None\<rparr>
      in (\<lparr>te_factor = factor, te_secret = secret_base32, te_otpauth_uri = otpauth_uri issuer account secret_base32\<rparr>,
          db1\<lparr>md_factors := md_factors db1 @ [factor]\<rparr>))"

definition confirm_totp ::
  "hmac \<Rightarrow> (string \<Rightarrow> string option) \<Rightarrow> (string \<Rightarrow> string) \<Rightarrow> 8 word list list \<Rightarrow> instant \<Rightarrow> mfa_db \<Rightarrow> uuid \<Rightarrow> uuid \<Rightarrow>
   string \<Rightarrow> int \<Rightarrow> (identity_error + string list) \<times> mfa_db" where
  "confirm_totp hmac unseal sha256 random now db user factor_id entered unix_seconds =
     (case find_factor db user factor_id of
        None \<Rightarrow> (Inl FactorNotFound, db)
      | Some factor \<Rightarrow>
          if mf_kind factor \<noteq> ''totp'' then (Inl InvalidFactor, db)
          else (case Option.bind (Option.bind (mf_secret_ciphertext factor) unseal) base32_decode of
                  None \<Rightarrow> (Inl Crypto, db)
                | Some secret \<Rightarrow>
                    if \<not> totp_verify hmac secret entered unix_seconds DEFAULT_WINDOW then (Inl InvalidFactor, db)
                    else refresh_recovery_codes sha256 random
                           (update_factor (\<lambda>f. mf_id f = factor_id)
                              (\<lambda>f. f\<lparr>mf_confirmed_at := Some now, mf_last_used_at := Some now\<rparr>) db) user))"

subsection \<open>Verifying a code\<close>

definition totp_matches :: "hmac \<Rightarrow> (string \<Rightarrow> string option) \<Rightarrow> string \<Rightarrow> int \<Rightarrow> mfa_factor \<Rightarrow> bool" where
  "totp_matches hmac unseal entered unix_seconds f \<longleftrightarrow>
     mf_kind f = ''totp'' \<and> mf_confirmed_at f \<noteq> None \<and>
     (case Option.bind (Option.bind (mf_secret_ciphertext f) unseal) base32_decode of
        None \<Rightarrow> False
      | Some secret \<Rightarrow> totp_verify hmac secret entered unix_seconds DEFAULT_WINDOW)"

definition spendable :: "uuid \<Rightarrow> string \<Rightarrow> recovery_code \<Rightarrow> bool" where
  "spendable user h r \<longleftrightarrow> rc_user_id r = user \<and> rc_code_hash r = h \<and> rc_used_at r = None"

definition verify_code ::
  "hmac \<Rightarrow> (string \<Rightarrow> string option) \<Rightarrow> (string \<Rightarrow> string) \<Rightarrow> instant \<Rightarrow> mfa_db \<Rightarrow> uuid \<Rightarrow> string \<Rightarrow> int \<Rightarrow>
   verification option \<times> mfa_db" where
  "verify_code hmac unseal sha256 now db user raw unix_seconds =
     (let entered = trim raw in
      if entered = [] then (None, db)
      else (case find (totp_matches hmac unseal entered unix_seconds) (list_factors db user) of
              Some f \<Rightarrow>
                (Some (VerifiedTotp (mf_id f)),
                 update_factor (\<lambda>g. mf_id g = mf_id f) (\<lambda>g. g\<lparr>mf_last_used_at := Some now\<rparr>) db)
            | None \<Rightarrow>
                (let h = hash_recovery_code sha256 entered in
                 if list_ex (spendable user h) (md_codes db)
                 then (Some VerifiedRecovery,
                       db\<lparr>md_codes := map (\<lambda>r. if spendable user h r then r\<lparr>rc_used_at := Some now\<rparr> else r) (md_codes db)\<rparr>)
                 else (None, db))))"

definition reset_mfa :: "instant \<Rightarrow> mfa_db \<Rightarrow> uuid \<Rightarrow> nat \<times> mfa_db" where
  "reset_mfa now db user =
     (length (filter (live_factor user) (md_factors db)),
      delete_codes user (update_factor (live_factor user) (\<lambda>f. f\<lparr>mf_revoked_at := Some now\<rparr>) db))"

definition revoke_factor :: "instant \<Rightarrow> mfa_db \<Rightarrow> uuid \<Rightarrow> uuid \<Rightarrow> bool \<times> mfa_db" where
  "revoke_factor now db user i =
     (list_ex (\<lambda>f. mf_id f = i \<and> live_factor user f) (md_factors db),
      update_factor (\<lambda>f. mf_id f = i \<and> live_factor user f) (\<lambda>f. f\<lparr>mf_revoked_at := Some now\<rparr>) db)"

subsection \<open>Passkeys\<close>

definition create_passkey ::
  "uuid \<Rightarrow> instant \<Rightarrow> mfa_db \<Rightarrow> uuid \<Rightarrow> string \<Rightarrow> string \<Rightarrow> string \<Rightarrow> int \<Rightarrow> string list \<Rightarrow> identity_error + mfa_factor \<times> mfa_db" where
  "create_passkey fresh now db user raw credential public_key sign_count transports =
     (let label = (if trim raw = [] then ''Passkey'' else take MAX_LABEL_LENGTH (trim raw));
          factor = \<lparr>mf_id = fresh, mf_user_id = user, mf_kind = ''webauthn'', mf_label = label,
                    mf_secret_ciphertext = None, mf_credential_id = Some credential, mf_public_key = Some public_key,
                    mf_sign_count = sign_count, mf_transports = transports, mf_confirmed_at = Some now,
                    mf_last_used_at = Some now, mf_created_at = now, mf_revoked_at = None\<rparr>
      in if list_ex (\<lambda>f. mf_credential_id f = Some credential \<and> mf_revoked_at f = None) (md_factors db) then Inl IdDatabase
         else Inr (factor, db\<lparr>md_factors := md_factors db @ [factor]\<rparr>))"

definition record_passkey_use :: "instant \<Rightarrow> mfa_db \<Rightarrow> uuid \<Rightarrow> int \<Rightarrow> mfa_db" where
  "record_passkey_use now db i sign_count =
     update_factor (\<lambda>f. mf_id f = i) (\<lambda>f. f\<lparr>mf_last_used_at := Some now, mf_sign_count := sign_count\<rparr>) db"

subsection \<open>Steps of the tables\<close>

text \<open>Every operation on the second factors, as a relation between table states; \<open>renews\<close> says whose
  recovery codes the step replaces or deletes.\<close>

inductive mfa_step :: "uuid option \<Rightarrow> mfa_db \<Rightarrow> mfa_db \<Rightarrow> bool" where
  step_enroll: "enroll_totp seal secret fresh now db user label issuer account = (e, db') \<Longrightarrow> mfa_step None db db'"
| step_confirm: "confirm_totp hmac unseal sha256 random now db user i entered t = (r, db') \<Longrightarrow> mfa_step (Some user) db db'"
| step_refresh: "refresh_recovery_codes sha256 random db user = (r, db') \<Longrightarrow> mfa_step (Some user) db db'"
| step_verify: "verify_code hmac unseal sha256 now db user entered t = (v, db') \<Longrightarrow> mfa_step None db db'"
| step_reset: "reset_mfa now db user = (n, db') \<Longrightarrow> mfa_step (Some user) db db'"
| step_revoke_factor: "revoke_factor now db user i = (b, db') \<Longrightarrow> mfa_step None db db'"
| step_passkey: "create_passkey fresh now db user label credential key count transports = Inr (f, db') \<Longrightarrow> mfa_step None db db'"
| step_passkey_use: "record_passkey_use now db i count = db' \<Longrightarrow> mfa_step None db db'"

definition codes_ok :: "mfa_db \<Rightarrow> bool" where
  "codes_ok db \<longleftrightarrow> distinct (map (\<lambda>r. (rc_user_id r, rc_code_hash r)) (md_codes db))"

definition one_pending :: "mfa_db \<Rightarrow> bool" where
  "one_pending db \<longleftrightarrow> (\<forall>user. length (filter (pending_totp user) (md_factors db)) \<le> 1)"

definition live_credentials :: "mfa_db \<Rightarrow> string option list" where
  "live_credentials db = map mf_credential_id (filter (\<lambda>f. mf_credential_id f \<noteq> None \<and> mf_revoked_at f = None) (md_factors db))"

definition mfa_ok :: "mfa_db \<Rightarrow> bool" where
  "mfa_ok db \<longleftrightarrow> codes_ok db \<and> one_pending db \<and> distinct (live_credentials db)"

text \<open>An update that never makes a factor pending or live again, and keeps its owner and credential.\<close>

definition calm :: "(mfa_factor \<Rightarrow> mfa_factor) \<Rightarrow> bool" where
  "calm g \<longleftrightarrow> (\<forall>f. mf_user_id (g f) = mf_user_id f \<and> mf_kind (g f) = mf_kind f \<and> mf_credential_id (g f) = mf_credential_id f \<and>
     (mf_revoked_at f \<noteq> None \<longrightarrow> mf_revoked_at (g f) \<noteq> None) \<and> (mf_confirmed_at f \<noteq> None \<longrightarrow> mf_confirmed_at (g f) \<noteq> None))"

lemma update_factor_codes [simp]: "md_codes (update_factor P g db) = md_codes db"
  by (simp add: update_factor_def)

lemma filter_map_le:
  assumes "\<And>x. Q (h x) \<Longrightarrow> Q x"
  shows "length (filter Q (map h xs)) \<le> length (filter Q xs)"
  using assms by (induction xs) (auto intro: le_SucI)

lemma distinct_filter_map:
  assumes "\<And>x. Q (h x) \<Longrightarrow> Q x" and "\<And>x. k (h x) = k x" and "distinct (map k (filter Q xs))"
  shows "distinct (map k (filter Q (map h xs)))"
proof -
  have sub: "k ` set (filter Q (map h xs)) \<subseteq> k ` set (filter Q xs)" for xs using assms(1,2) by (force simp: image_iff)
  show ?thesis using assms(3)
  proof (induction xs)
    case (Cons x xs)
    show ?case
    proof (cases "Q (h x)")
      case True
      then have "Q x" using assms(1) by blast
      then have "k x \<notin> k ` set (filter Q xs)" "distinct (map k (filter Q xs))" using Cons.prems by auto
      then show ?thesis using True Cons.IH sub[of xs] assms(2) by auto
    qed (use Cons in \<open>auto split: if_split_asm\<close>)
  qed simp
qed

lemma update_factor_ok:
  assumes "calm g" and "mfa_ok db"
  shows "mfa_ok (update_factor P g db)"
proof -
  let ?h = "\<lambda>f. if P f then g f else f"
  have p: "pending_totp user (?h f) \<Longrightarrow> pending_totp user f" for user f
    using assms(1) by (auto simp: calm_def pending_totp_def live_factor_def split: if_split_asm)
  have c: "mf_credential_id (?h f) \<noteq> None \<and> mf_revoked_at (?h f) = None \<Longrightarrow> mf_credential_id f \<noteq> None \<and> mf_revoked_at f = None"
      "mf_credential_id (?h f) = mf_credential_id f" for f
    using assms(1) by (auto simp: calm_def split: if_split_asm)
  have "length (filter (pending_totp user) (map ?h (md_factors db))) \<le> 1" for user
    using filter_map_le[of "pending_totp user" ?h "md_factors db"] p assms(2)
    by (meson le_trans mfa_ok_def one_pending_def)
  moreover have "distinct (map mf_credential_id (filter (\<lambda>f. mf_credential_id f \<noteq> None \<and> mf_revoked_at f = None) (map ?h (md_factors db))))"
    using distinct_filter_map[where Q = "\<lambda>f. mf_credential_id f \<noteq> None \<and> mf_revoked_at f = None" and h = ?h and k = mf_credential_id, OF c(1) c(2), of "md_factors db"] assms(2) unfolding mfa_ok_def live_credentials_def by blast
  ultimately show ?thesis using assms(2)
    unfolding mfa_ok_def codes_ok_def one_pending_def live_credentials_def update_factor_def by simp
qed

lemma calm_simps [simp]:
  "calm (\<lambda>f. f\<lparr>mf_revoked_at := Some now\<rparr>)" "calm (\<lambda>f. f\<lparr>mf_last_used_at := Some now\<rparr>)"
  "calm (\<lambda>f. f\<lparr>mf_confirmed_at := Some now, mf_last_used_at := Some now\<rparr>)"
  "calm (\<lambda>f. f\<lparr>mf_last_used_at := Some now, mf_sign_count := n\<rparr>)"
  by (simp_all add: calm_def)

lemma codes_only_ok: "codes_ok db' \<Longrightarrow> md_factors db' = md_factors db \<Longrightarrow> mfa_ok db \<Longrightarrow> mfa_ok db'"
  by (simp add: mfa_ok_def one_pending_def live_credentials_def)

lemma insert_codes_ok: "codes_ok db \<Longrightarrow> codes_ok (snd (insert_codes sha256 user cs db)) \<and>
   md_factors (snd (insert_codes sha256 user cs db)) = md_factors db"
proof (induction cs arbitrary: db)
  case (Cons c cs)
  show ?case
  proof (cases "list_ex (\<lambda>r. rc_user_id r = user \<and> rc_code_hash r = hash_recovery_code sha256 c) (md_codes db)")
    case False
    then have "codes_ok (db\<lparr>md_codes := md_codes db @ [\<lparr>rc_user_id = user, rc_code_hash = hash_recovery_code sha256 c, rc_used_at = None\<rparr>]\<rparr>)"
      using Cons.prems by (auto simp: codes_ok_def list_ex_iff)
    then show ?thesis using False Cons.IH by (simp add: Let_def)
  qed (use Cons.prems in \<open>simp add: Let_def\<close>)
qed simp

lemma delete_codes_ok: "codes_ok db \<Longrightarrow> codes_ok (delete_codes user db)"
  by (simp add: codes_ok_def delete_codes_def distinct_map_filter)

lemma refresh_ok: "mfa_ok db \<Longrightarrow> refresh_recovery_codes sha256 random db user = (r, db') \<Longrightarrow> mfa_ok db'"
proof -
  assume ok: "mfa_ok db" and e: "refresh_recovery_codes sha256 random db user = (r, db')"
  let ?i = "insert_codes sha256 user (map generate_recovery_code (take RECOVERY_CODE_COUNT random)) (delete_codes user db)"
  have "db' = snd ?i" using e by (auto simp: refresh_recovery_codes_def Let_def split: prod.split_asm sum.split_asm)
  moreover have "codes_ok (delete_codes user db)" using ok by (simp add: mfa_ok_def delete_codes_ok)
  moreover have "md_factors (delete_codes user db) = md_factors db" by (simp add: delete_codes_def)
  ultimately have "codes_ok db'" "md_factors db' = md_factors db"
    using insert_codes_ok[of "delete_codes user db" sha256 user "map generate_recovery_code (take RECOVERY_CODE_COUNT random)"]
    by metis+
  then show "mfa_ok db'" using ok codes_only_ok by blast
qed

lemma enroll_ok: "mfa_ok db \<Longrightarrow> mfa_ok (snd (enroll_totp seal secret fresh now db user label issuer account))"
proof -
  assume ok: "mfa_ok db"
  let ?db1 = "update_factor (pending_totp user) (\<lambda>f. f\<lparr>mf_revoked_at := Some now\<rparr>) db"
  have ok1: "mfa_ok ?db1" using ok by (intro update_factor_ok) simp_all
  have "\<not> pending_totp user (f\<lparr>mf_revoked_at := Some now\<rparr>)" for f by (simp add: pending_totp_def live_factor_def)
  then have none: "filter (pending_totp user) (md_factors ?db1) = []"
    by (auto simp: update_factor_def filter_empty_conv)
  obtain f where f: "snd (enroll_totp seal secret fresh now db user label issuer account) = ?db1\<lparr>md_factors := md_factors ?db1 @ [f]\<rparr>"
      "mf_user_id f = user" "mf_credential_id f = None"
    by (simp add: enroll_totp_def Let_def)
  have "length (filter (pending_totp u) (md_factors ?db1 @ [f])) \<le> 1" for u
  proof (cases "u = user")
    case False
    then have "\<not> pending_totp u f" using f(2) by (simp add: pending_totp_def live_factor_def)
    then show ?thesis using ok1 unfolding mfa_ok_def one_pending_def by simp
  qed (use none in simp)
  then show ?thesis using ok1 f(3) unfolding f(1) mfa_ok_def codes_ok_def one_pending_def live_credentials_def by simp
qed

lemma codes_ok_map:
  "(\<And>r. rc_user_id (g r) = rc_user_id r \<and> rc_code_hash (g r) = rc_code_hash r) \<Longrightarrow> codes_ok db \<Longrightarrow>
   codes_ok (db\<lparr>md_codes := map g (md_codes db)\<rparr>)"
  by (simp add: codes_ok_def comp_def)

lemma confirm_totp_cases:
  assumes "confirm_totp hmac unseal sha256 random now db user i entered t = (r, db')"
  shows "db' = db \<or> refresh_recovery_codes sha256 random (update_factor (\<lambda>f. mf_id f = i)
      (\<lambda>f. f\<lparr>mf_confirmed_at := Some now, mf_last_used_at := Some now\<rparr>) db) user = (r, db')"
  using assms unfolding confirm_totp_def by (auto split: option.split_asm if_split_asm)

lemma verify_ok: "mfa_ok db \<Longrightarrow> mfa_ok (snd (verify_code hmac unseal sha256 now db user raw t))"
proof -
  assume ok: "mfa_ok db"
  have "mfa_ok (update_factor P (\<lambda>g. g\<lparr>mf_last_used_at := Some now\<rparr>) db)" for P using ok by (intro update_factor_ok) simp_all
  moreover have "mfa_ok (db\<lparr>md_codes := map (\<lambda>r. if Q r then r\<lparr>rc_used_at := Some now\<rparr> else r) (md_codes db)\<rparr>)" for Q
    by (rule codes_only_ok[OF _ _ ok]) (use ok in \<open>auto simp: mfa_ok_def intro!: codes_ok_map\<close>)
  ultimately show ?thesis using ok by (auto simp: verify_code_def Let_def split: option.split)
qed

lemma mfa_step_ok: "mfa_step w db db' \<Longrightarrow> mfa_ok db \<Longrightarrow> mfa_ok db'"
proof (induction rule: mfa_step.induct)
  case (step_enroll seal secret fresh now db user label issuer account e db')
  then show ?case using enroll_ok[OF step_enroll.prems, of seal secret fresh now user label issuer account] by simp
next
  case (step_confirm hmac unseal sha256 random now db user i entered t r db')
  have "mfa_ok (update_factor (\<lambda>f. mf_id f = i) (\<lambda>f. f\<lparr>mf_confirmed_at := Some now, mf_last_used_at := Some now\<rparr>) db)"
    using step_confirm.prems by (intro update_factor_ok) simp_all
  then show ?case using confirm_totp_cases[OF step_confirm.hyps] step_confirm.prems refresh_ok by blast
next
  case (step_verify hmac unseal sha256 now db user entered t v db')
  then show ?case using verify_ok[OF step_verify.prems, of hmac unseal sha256 now user entered t] by simp
next
  case (step_reset now db user n db')
  have del: "mfa_ok d \<Longrightarrow> mfa_ok (delete_codes user d)" for d
    by (rule codes_only_ok[of _ d]) (auto simp: mfa_ok_def delete_codes_ok, simp add: delete_codes_def)
  have "mfa_ok (update_factor (live_factor user) (\<lambda>f. f\<lparr>mf_revoked_at := Some now\<rparr>) db)"
    using step_reset.prems by (intro update_factor_ok) simp_all
  then have "mfa_ok (delete_codes user (update_factor (live_factor user) (\<lambda>f. f\<lparr>mf_revoked_at := Some now\<rparr>) db))"
    by (rule del)
  then show ?case using step_reset by (simp add: reset_mfa_def)
next
  case (step_revoke_factor now db user i b db')
  then show ?case by (auto simp: revoke_factor_def intro!: update_factor_ok)
next
  case (step_passkey fresh now db user label credential key count transports f db')
  then have new: "f \<in> set (md_factors db) \<Longrightarrow> mf_revoked_at f = None \<Longrightarrow> mf_credential_id f \<noteq> Some credential" for f
    by (auto simp: create_passkey_def Let_def list_ex_iff split: if_split_asm)
  obtain f' where f': "db' = db\<lparr>md_factors := md_factors db @ [f']\<rparr>" "mf_credential_id f' = Some credential" "mf_kind f' = ''webauthn''"
    using step_passkey by (auto simp: create_passkey_def Let_def split: if_split_asm)
  show ?case using step_passkey.prems new f'(2,3) unfolding f'(1)
    by (auto simp: mfa_ok_def codes_ok_def one_pending_def live_credentials_def pending_totp_def)
next
  case (step_passkey_use now db i count db')
  then show ?case by (auto simp: record_passkey_use_def intro!: update_factor_ok)
qed (use refresh_ok in blast)

definition mfa_reach :: "mfa_db \<Rightarrow> mfa_db \<Rightarrow> bool" where
  "mfa_reach = (\<lambda>db db'. \<exists>w. mfa_step w db db')\<^sup>*\<^sup>*"

text \<open>
  The second-factor tables stay consistent under every operation, in any order: an account has at
  most one authenticator enrolment pending, no recovery code is stored twice for an account, and no
  authenticator credential belongs to two live passkeys.
\<close>

theorem mfa_tables_ok:
  assumes "mfa_ok db" and "mfa_reach db db'"
  shows "mfa_ok db'"
  using assms(2,1) unfolding mfa_reach_def by (induction rule: rtranclp_induct) (auto intro: mfa_step_ok)

definition no_factors :: mfa_db where
  "no_factors = \<lparr>md_factors = [], md_codes = []\<rparr>"

theorem mfa_tables_ok_witness:
  "\<exists>db'. mfa_reach no_factors db' \<and> length (md_factors db') = 2 \<and> mfa_ok db'"
proof -
  let ?e = "\<lambda>i db. snd (enroll_totp id [1, 2] i 5 db 3 None ''Omnion'' ''a@b.c'')"
  have step: "mfa_step None db (?e i db)" for i db by (rule step_enroll[OF prod.collapse[symmetric]])
  have "mfa_reach no_factors (?e 2 (?e 1 no_factors))"
    unfolding mfa_reach_def by (rule rtranclp_trans[OF r_into_rtranclp r_into_rtranclp]) (use step in blast)+
  moreover have "length (md_factors (?e 2 (?e 1 no_factors))) = 2"
    by (simp add: enroll_totp_def Let_def update_factor_def no_factors_def)
  moreover have "mfa_ok no_factors" by (simp add: mfa_ok_def codes_ok_def one_pending_def live_credentials_def no_factors_def)
  ultimately show ?thesis using mfa_tables_ok by blast
qed

subsection \<open>Recovery codes work once\<close>

definition spent :: "uuid \<Rightarrow> string \<Rightarrow> mfa_db \<Rightarrow> bool" where
  "spent user h db \<longleftrightarrow> \<not> list_ex (spendable user h) (md_codes db)"

lemma insert_codes_spent: "u \<noteq> user \<Longrightarrow> spent user h db \<Longrightarrow> spent user h (snd (insert_codes sha256 u cs db))"
  by (induction cs arbitrary: db) (auto simp: Let_def spent_def spendable_def)

lemma delete_codes_spent: "spent user h db \<Longrightarrow> spent user h (delete_codes u db)"
  by (auto simp: spent_def delete_codes_def list_ex_iff)

lemma refresh_spent: "u \<noteq> user \<Longrightarrow> spent user h db \<Longrightarrow> refresh_recovery_codes sha256 random db u = (r, db') \<Longrightarrow> spent user h db'"
proof -
  assume a: "u \<noteq> user" "spent user h db" "refresh_recovery_codes sha256 random db u = (r, db')"
  then have "db' = snd (insert_codes sha256 u (map generate_recovery_code (take RECOVERY_CODE_COUNT random)) (delete_codes u db))"
    by (auto simp: refresh_recovery_codes_def Let_def split: prod.split_asm sum.split_asm)
  then show "spent user h db'" using a delete_codes_spent insert_codes_spent by metis
qed

lemma verify_spent: "spent user h db \<Longrightarrow> spent user h (snd (verify_code hmac unseal sha256 now db u raw t))"
  by (auto simp: verify_code_def Let_def spent_def list_ex_iff spendable_def update_factor_def split: option.split)

lemma mfa_step_spent: "mfa_step w db db' \<Longrightarrow> w \<noteq> Some user \<Longrightarrow> spent user h db \<Longrightarrow> spent user h db'"
proof (induction rule: mfa_step.induct)
  case (step_verify hmac unseal sha256 now db u entered t v db')
  then show ?case using verify_spent[OF step_verify.prems(2), of hmac unseal sha256 now u entered t] by simp
next
  case (step_confirm hmac unseal sha256 random now db u i entered t r db')
  have "spent user h (update_factor P g db)" for P g using step_confirm.prems by (simp add: spent_def)
  moreover have "u \<noteq> user" using step_confirm.prems(1) by simp
  ultimately show ?case using confirm_totp_cases[OF step_confirm.hyps] step_confirm.prems(2) refresh_spent by blast
next
  case (step_refresh sha256 random db u r db')
  then show ?case using refresh_spent by blast
next
  case (step_reset now db u n db')
  then show ?case by (auto simp: reset_mfa_def spent_def delete_codes_def list_ex_iff)
qed (auto simp: spent_def enroll_totp_def revoke_factor_def create_passkey_def record_passkey_use_def Let_def split: if_split_asm)

text \<open>
  A recovery code works exactly once: after it has verified, no sequence of operations - other
  verifications, enrolments, passkeys, other accounts' resets - makes it, in whatever spelling, verify
  as a recovery code again, until its owner's codes are replaced.
\<close>

theorem recovery_code_once:
  assumes "verify_code hmac unseal sha256 now db user entered t = (Some VerifiedRecovery, db1)"
    and "(\<lambda>a b. \<exists>w. w \<noteq> Some user \<and> mfa_step w a b)\<^sup>*\<^sup>* db1 db2"
    and "normalize_code (trim again) = normalize_code (trim entered)"
  shows "fst (verify_code hmac' unseal' sha256 later db2 user again t') \<noteq> Some VerifiedRecovery"
proof -
  let ?h = "hash_recovery_code sha256 (trim entered)"
  have "spent user ?h db1"
    using assms(1) by (auto simp: verify_code_def Let_def spent_def list_ex_iff spendable_def split: if_split_asm option.split_asm)
  with assms(2) have "spent user ?h db2" by (induction rule: rtranclp_induct) (use mfa_step_spent in blast)+
  moreover have "hash_recovery_code sha256 (trim again) = ?h" using assms(3) by (simp add: hash_recovery_code_def)
  ultimately show ?thesis by (simp add: verify_code_def Let_def spent_def split: option.split)
qed

theorem recovery_code_once_witness:
  "\<exists>db1. verify_code (\<lambda>_ _. []) Some id 5 \<lparr>md_factors = [], md_codes = [\<lparr>rc_user_id = 3,
      rc_code_hash = ''omnion.recovery.v1AB'', rc_used_at = None\<rparr>]\<rparr> 3 ''a-b'' 0 = (Some VerifiedRecovery, db1) \<and>
     fst (verify_code (\<lambda>_ _. []) Some id 6 db1 3 ''AB'' 0) \<noteq> Some VerifiedRecovery"
proof -
  let ?db = "\<lparr>md_factors = [], md_codes = [\<lparr>rc_user_id = 3, rc_code_hash = ''omnion.recovery.v1AB'', rc_used_at = None\<rparr>]\<rparr>"
  have t: "trim ''a-b'' = ''a-b''" "trim ''AB'' = ''AB''"
    by (simp_all add: trim_def trim_start_def trim_end_def is_whitespace_def code_def)
  have n: "normalize_code ''a-b'' = ''AB''" "normalize_code ''AB'' = ''AB''" by code_simp+
  obtain db1 where v: "verify_code (\<lambda>_ _. []) Some id 5 ?db 3 ''a-b'' 0 = (Some VerifiedRecovery, db1)"
    by (simp add: verify_code_def list_factors_def Let_def t hash_recovery_code_def n spendable_def)
  from recovery_code_once[OF v rtranclp.rtrancl_refl, of "''AB''" "\<lambda>_ _. []" Some 6 0] t n v show ?thesis by auto
qed

end
