(* ===== verification/SignIn.thy ===== *)
theory SignIn
  imports Lockout Mfa
begin

text \<open>
  Signing in (\<open>crates/identity/src/signin.rs\<close>): the address lists, the lockout, the password and the
  second factor, in the order the code checks them, with the log of attempts, the challenges and the
  account rows as explicit state. Also the normalisation of an address (\<open>users.rs\<close>) and the lockout
  queries of \<open>crates/security/src/limiter_store.rs\<close>. Password verification, the token digest, the address
  parser and serde's reader are the arguments of \<open>sign_env\<close>. One call reads one clock.
\<close>

subsection \<open>State\<close>

record id_user =
  iu_id :: uuid
  iu_organization_id :: "uuid option"
  iu_email :: string
  iu_display_name :: string
  iu_status :: string
  iu_created_at :: instant

definition user_is_active :: "id_user \<Rightarrow> bool" where
  "user_is_active u \<longleftrightarrow> iu_status u = ''active''"

record account_row =
  ar_user :: id_user
  ar_password_hash :: "string option"
  ar_locked_until :: "instant option"
  ar_failed_count :: int
  ar_last_sign_in_at :: "instant option"

record attempt_record =
  at_email :: string
  at_user_id :: "uuid option"
  at_organization_id :: "uuid option"
  at_ip :: "string option"
  at_user_agent :: "string option"
  at_outcome :: string
  at_reason :: "string option"
  at_created_at :: instant

record challenge =
  ch_user_id :: uuid
  ch_purpose :: string
  ch_token_hash :: string
  ch_ip :: "string option"
  ch_user_agent :: "string option"
  ch_expires_at :: instant
  ch_consumed_at :: "instant option"

record 'n sign_db =
  sg_users :: "account_row list"
  sg_attempts :: "attempt_record list"
  sg_challenges :: "challenge list"
  sg_policies :: "security_policy list"
  sg_organizations :: "uuid list"
  sg_lockout :: "'n json"
  sg_mfa :: mfa_db

record 'n sign_env =
  ev_verify :: "string \<Rightarrow> string \<Rightarrow> identity_error + bool"
  ev_dummy :: "string \<Rightarrow> identity_error + unit"
  ev_hash_token :: "string \<Rightarrow> string"
  ev_parse_ip :: "string \<Rightarrow> ip_addr option"
  ev_read_lockout :: "'n json \<Rightarrow> lockout_policy option"

definition CHALLENGE_TTL_MINUTES :: int where "CHALLENGE_TTL_MINUTES = 5"
definition DEFAULT_ADDRESS_FAILURE_MULTIPLE :: int where "DEFAULT_ADDRESS_FAILURE_MULTIPLE = 3"
definition PURPOSE_LOGIN :: string where "PURPOSE_LOGIN = ''login''"
definition PURPOSE_STEP_UP :: string where "PURPOSE_STEP_UP = ''step_up''"
definition MAX_EMAIL_LENGTH :: nat where "MAX_EMAIL_LENGTH = 254"

datatype sign_in_outcome =
    Authenticated id_user "string option"
  | InvalidCredentials
  | AccountDisabled string
  | AccountLocked instant bool uuid "uuid option" int
  | IpBlocked string string

definition minutes :: "int \<Rightarrow> instant" where
  "minutes n = seconds (60 * n)"

subsection \<open>Accounts\<close>

definition normalize_email :: "string \<Rightarrow> identity_error + string" where
  "normalize_email email =
     (let trimmed = trim email in
      if trimmed = [] then Inl InvalidEmail
      else if str_len trimmed > MAX_EMAIL_LENGTH then Inl InvalidEmail
      else if list_ex is_whitespace trimmed then Inl InvalidEmail
      else (case split_once CHR ''@'' trimmed of
              None \<Rightarrow> Inl InvalidEmail
            | Some (local, domain) \<Rightarrow>
                if local = [] \<or> domain = [] \<or>
                   \<not> (CHR ''.'' \<in> set domain \<and> hd domain \<noteq> CHR ''.'' \<and> last domain \<noteq> CHR ''.'' \<and> CHR ''@'' \<notin> set domain)
                then Inl InvalidEmail
                else Inr (to_lowercase trimmed)))"

definition find_sign_account :: "'n sign_db \<Rightarrow> string \<Rightarrow> account_row option" where
  "find_sign_account db email =
     (case find (\<lambda>r. iu_email (ar_user r) = email) (sg_users db) of
        None \<Rightarrow> None
      | Some r \<Rightarrow> if ar_password_hash r = None then None else Some r)"

definition find_user :: "'n sign_db \<Rightarrow> uuid \<Rightarrow> id_user option" where
  "find_user db i = map_option ar_user (find (\<lambda>r. iu_id (ar_user r) = i) (sg_users db))"

definition update_user :: "uuid \<Rightarrow> (account_row \<Rightarrow> account_row) \<Rightarrow> 'n sign_db \<Rightarrow> 'n sign_db" where
  "update_user i g db = db\<lparr>sg_users := map (\<lambda>r. if iu_id (ar_user r) = i then g r else r) (sg_users db)\<rparr>"

definition clear_failures :: "instant \<Rightarrow> uuid \<Rightarrow> 'n sign_db \<Rightarrow> 'n sign_db" where
  "clear_failures now i =
     update_user i (\<lambda>r. r\<lparr>ar_failed_count := 0, ar_locked_until := None, ar_last_sign_in_at := Some now\<rparr>)"

definition is_locked :: "instant \<Rightarrow> account_row \<Rightarrow> bool" where
  "is_locked now r = (case ar_locked_until r of None \<Rightarrow> False | Some until \<Rightarrow> until > now)"

text \<open>The unlock of the panel (\<open>limiter_store.rs\<close>).\<close>

definition unlock_account :: "instant \<Rightarrow> 'n sign_db \<Rightarrow> uuid \<Rightarrow> bool \<times> 'n sign_db" where
  "unlock_account now db i =
     (list_ex (\<lambda>r. iu_id (ar_user r) = i \<and> is_locked now r) (sg_users db),
      db\<lparr>sg_users := map (\<lambda>r. if iu_id (ar_user r) = i \<and> is_locked now r
           then r\<lparr>ar_locked_until := None, ar_failed_count := 0\<rparr> else r) (sg_users db)\<rparr>)"

subsection \<open>The log\<close>

definition record_attempt :: "attempt_record \<Rightarrow> 'n sign_db \<Rightarrow> 'n sign_db" where
  "record_attempt a db = db\<lparr>sg_attempts := sg_attempts db @ [a]\<rparr>"

definition recent_failures_from_address :: "instant \<Rightarrow> 'n sign_db \<Rightarrow> string \<Rightarrow> int \<Rightarrow> int" where
  "recent_failures_from_address now db ip window_minutes =
     int (length (filter (\<lambda>a. at_ip a = Some ip \<and> at_outcome a \<in> {''failed'', ''locked''} \<and>
        at_created_at a > now - minutes window_minutes) (sg_attempts db)))"

definition failures_in_window :: "instant \<Rightarrow> 'n sign_db \<Rightarrow> uuid \<Rightarrow> int \<Rightarrow> int" where
  "failures_in_window now db i window_seconds =
     int (length (filter (\<lambda>a. at_user_id a = Some i \<and> at_created_at a > now - seconds (max 1 (min window_seconds LOCK_MAX_WINDOW)) \<and>
        at_outcome a \<in> {''failed'', ''locked'', ''blocked''}) (sg_attempts db)))"

definition clear_address_failures :: "'n sign_db \<Rightarrow> 'n sign_db" where
  "clear_address_failures db =
     db\<lparr>sg_attempts := filter (\<lambda>a. at_outcome a \<notin> {''failed'', ''locked''}) (sg_attempts db)\<rparr>"

definition failure_lock :: "instant \<Rightarrow> enforced_lockout \<Rightarrow> int \<Rightarrow> account_row \<Rightarrow> account_row" where
  "failure_lock now lockout n r =
     r\<lparr>ar_failed_count := n,
       ar_locked_until := (if n \<ge> en_attempts lockout then Some (now + minutes (en_lockout_minutes lockout)) else ar_locked_until r)\<rparr>"

definition register_failure ::
  "instant \<Rightarrow> 'n sign_db \<Rightarrow> uuid \<Rightarrow> enforced_lockout \<Rightarrow> (identity_error + int \<times> instant option) \<times> 'n sign_db" where
  "register_failure now db i lockout =
     (let n = failures_in_window now db i (en_window_seconds lockout) + 1 in
      case find (\<lambda>r. iu_id (ar_user r) = i) (sg_users db) of
        None \<Rightarrow> (Inl IdDatabase, db)
      | Some r \<Rightarrow> (Inr (n, ar_locked_until (failure_lock now lockout n r)), update_user i (failure_lock now lockout n) db))"

subsection \<open>Challenges\<close>

definition live_challenge :: "instant \<Rightarrow> string \<Rightarrow> string \<Rightarrow> challenge \<Rightarrow> bool" where
  "live_challenge now h purpose c \<longleftrightarrow>
     ch_token_hash c = h \<and> ch_purpose c = purpose \<and> ch_consumed_at c = None \<and> ch_expires_at c > now"

definition create_challenge ::
  "'n sign_env \<Rightarrow> string \<Rightarrow> instant \<Rightarrow> 'n sign_db \<Rightarrow> uuid \<Rightarrow> string \<Rightarrow> string option \<Rightarrow> string option \<Rightarrow>
   (identity_error + string) \<times> 'n sign_db" where
  "create_challenge env token now db user purpose ip user_agent =
     (let retired = map (\<lambda>c. if ch_user_id c = user \<and> ch_purpose c = purpose \<and> ch_consumed_at c = None
                             then c\<lparr>ch_consumed_at := Some now\<rparr> else c) (sg_challenges db);
          row = \<lparr>ch_user_id = user, ch_purpose = purpose, ch_token_hash = ev_hash_token env token, ch_ip = ip,
                 ch_user_agent = user_agent, ch_expires_at = now + minutes CHALLENGE_TTL_MINUTES, ch_consumed_at = None\<rparr>
      in if list_ex (\<lambda>c. ch_token_hash c = ev_hash_token env token) (sg_challenges db)
         then (Inl IdDatabase, db\<lparr>sg_challenges := retired\<rparr>)
         else (Inr token, db\<lparr>sg_challenges := retired @ [row]\<rparr>))"

definition peek_challenge :: "'n sign_env \<Rightarrow> instant \<Rightarrow> 'n sign_db \<Rightarrow> string \<Rightarrow> string \<Rightarrow> uuid option" where
  "peek_challenge env now db token purpose =
     map_option ch_user_id (find (live_challenge now (ev_hash_token env token) purpose) (sg_challenges db))"

definition consume_challenge :: "'n sign_env \<Rightarrow> instant \<Rightarrow> 'n sign_db \<Rightarrow> string \<Rightarrow> string \<Rightarrow> uuid option \<times> 'n sign_db" where
  "consume_challenge env now db token purpose =
     (peek_challenge env now db token purpose,
      db\<lparr>sg_challenges := map (\<lambda>c. if live_challenge now (ev_hash_token env token) purpose c
           then c\<lparr>ch_consumed_at := Some now\<rparr> else c) (sg_challenges db)\<rparr>)"

subsection \<open>Signing in\<close>

text \<open>The parts of one attempt that every log row repeats.\<close>

record attempt_context =
  ac_email :: string
  ac_account :: "account_row option"
  ac_ip :: "string option"
  ac_user_agent :: "string option"
  ac_now :: instant

definition log_as :: "attempt_context \<Rightarrow> string \<Rightarrow> string option \<Rightarrow> attempt_record" where
  "log_as c outcome reason =
     \<lparr>at_email = ac_email c, at_user_id = map_option (iu_id \<circ> ar_user) (ac_account c),
      at_organization_id = Option.bind (ac_account c) (iu_organization_id \<circ> ar_user),
      at_ip = ac_ip c, at_user_agent = ac_user_agent c, at_outcome = outcome, at_reason = reason, at_created_at = ac_now c\<rparr>"

definition address_refusal ::
  "'n sign_env \<Rightarrow> 'n sign_db \<Rightarrow> security_policy option \<Rightarrow> enforced_lockout \<Rightarrow> attempt_context \<Rightarrow> (string \<times> string \<times> string) option" where
  "address_refusal env db policy lockout c =
     (case (case policy of
              None \<Rightarrow> IpAllowed
            | Some p \<Rightarrow> check_ip (ev_parse_ip env) p (Option.bind (ac_ip c) (ev_parse_ip env))) of
        IpDenied rule reason \<Rightarrow> Some (reason, rule, ''address '' @ reason @ '': '' @ rule)
      | IpAllowed \<Rightarrow>
          (case ac_ip c of
             None \<Rightarrow> None
           | Some ip \<Rightarrow>
               (let failures = recent_failures_from_address (ac_now c) db ip (en_lockout_minutes lockout);
                    limit = en_attempts lockout * DEFAULT_ADDRESS_FAILURE_MULTIPLE
                in if failures \<ge> limit
                   then Some (''address_failures'', ip,
                          show_int failures @ '' recent failures from this address (limit '' @ show_int limit @ '')'')
                   else None)))"

definition wrong_password ::
  "'n sign_db \<Rightarrow> enforced_lockout \<Rightarrow> attempt_context \<Rightarrow> account_row \<Rightarrow> (identity_error + sign_in_outcome) \<times> 'n sign_db" where
  "wrong_password db lockout c account =
     (case register_failure (ac_now c) db (iu_id (ar_user account)) lockout of
        (Inl e, db1) \<Rightarrow> (Inl e, db1)
      | (Inr (n, locked_until), db1) \<Rightarrow>
          (let locked = (case locked_until of None \<Rightarrow> False | Some until \<Rightarrow> until > ac_now c);
               db2 = record_attempt (log_as c (if locked then ''locked'' else ''failed'')
                       (Some (''attempt '' @ show_int n @ '' of '' @ show_int (en_attempts lockout)))) db1
           in (Inr (case locked_until of
                      None \<Rightarrow> InvalidCredentials
                    | Some until \<Rightarrow>
                        if locked
                        then AccountLocked until True (iu_id (ar_user account)) (iu_organization_id (ar_user account)) (en_attempts lockout)
                        else InvalidCredentials), db2)))"

definition right_password ::
  "'n sign_env \<Rightarrow> string \<Rightarrow> 'n sign_db \<Rightarrow> attempt_context \<Rightarrow> account_row \<Rightarrow> (identity_error + sign_in_outcome) \<times> 'n sign_db" where
  "right_password env token db c account =
     (let user = ar_user account in
      if \<not> user_is_active user
      then (Inr (AccountDisabled (iu_status user)), record_attempt (log_as c ''failed'' (Some (''account status '' @ iu_status user))) db)
      else (let db1 = clear_failures (ac_now c) (iu_id user) db in
            if has_confirmed_factor (sg_mfa db1) (iu_id user)
            then (case create_challenge env token (ac_now c) db1 (iu_id user) PURPOSE_LOGIN (ac_ip c) (ac_user_agent c) of
                    (Inl e, db2) \<Rightarrow> (Inl e, db2)
                  | (Inr ch, db2) \<Rightarrow> (Inr (Authenticated user (Some ch)), record_attempt (log_as c ''mfa_required'' None) db2))
            else (Inr (Authenticated user None), record_attempt (log_as c ''success'' None) db1)))"

definition check_account ::
  "'n sign_env \<Rightarrow> string \<Rightarrow> 'n sign_db \<Rightarrow> enforced_lockout \<Rightarrow> attempt_context \<Rightarrow> string \<Rightarrow> (identity_error + sign_in_outcome) \<times> 'n sign_db" where
  "check_account env token db lockout c password =
     (case ac_account c of
        None \<Rightarrow>
          (case ev_dummy env password of
             Inl e \<Rightarrow> (Inl e, db)
           | Inr _ \<Rightarrow> (Inr InvalidCredentials, record_attempt (log_as c ''failed'' (Some ''unknown address'')) db))
      | Some account \<Rightarrow>
          if is_locked (ac_now c) account
          then (Inr (AccountLocked (the (ar_locked_until account)) False (iu_id (ar_user account))
                       (iu_organization_id (ar_user account)) (en_attempts lockout)),
                record_attempt (log_as c ''locked'' (Some ''the account is locked'')) db)
          else (case ev_verify env password (the (ar_password_hash account)) of
                  Inl e \<Rightarrow> (Inl e, db)
                | Inr False \<Rightarrow> wrong_password db lockout c account
                | Inr True \<Rightarrow> right_password env token db c account))"

definition attempt_of ::
  "'n sign_db \<Rightarrow> instant \<Rightarrow> string \<Rightarrow> string option \<Rightarrow> string option \<Rightarrow> attempt_context" where
  "attempt_of db now email ip user_agent =
     \<lparr>ac_email = (case normalize_email email of Inr e \<Rightarrow> e | Inl _ \<Rightarrow> to_lowercase (trim email)),
      ac_account = (case normalize_email email of Inr e \<Rightarrow> find_sign_account db e | Inl _ \<Rightarrow> None),
      ac_ip = ip, ac_user_agent = user_agent, ac_now = now\<rparr>"

definition account_organization :: "attempt_context \<Rightarrow> uuid option" where
  "account_organization c = Option.bind (ac_account c) (iu_organization_id \<circ> ar_user)"

definition sign_in ::
  "'n sign_env \<Rightarrow> string \<Rightarrow> instant \<Rightarrow> 'n sign_db \<Rightarrow> string \<Rightarrow> string \<Rightarrow> string option \<Rightarrow> string option \<Rightarrow>
   (identity_error + sign_in_outcome) \<times> 'n sign_db" where
  "sign_in env token now db email password ip user_agent =
     (let c = attempt_of db now email ip user_agent in
      case policy_for_account (sg_organizations db) now (sg_policies db) (account_organization c) of
        (Inl e, rows) \<Rightarrow> (Inl e, db\<lparr>sg_policies := rows\<rparr>)
      | (Inr policy, rows) \<Rightarrow>
          (let db1 = db\<lparr>sg_policies := rows\<rparr>;
               lockout = resolve_lockout (ev_read_lockout env) (sg_lockout db1) rows (account_organization c)
           in case address_refusal env db1 policy lockout c of
                Some (reason, rule, text) \<Rightarrow> (Inr (IpBlocked reason rule), record_attempt (log_as c ''blocked'' (Some text)) db1)
              | None \<Rightarrow> check_account env token db1 lockout c password))"

definition complete_mfa_login ::
  "'n sign_env \<Rightarrow> hmac \<Rightarrow> (string \<Rightarrow> string option) \<Rightarrow> (string \<Rightarrow> string) \<Rightarrow> instant \<Rightarrow> 'n sign_db \<Rightarrow> string \<Rightarrow> string \<Rightarrow>
   string option \<Rightarrow> string option \<Rightarrow> (identity_error + (id_user \<times> verification) option) \<times> 'n sign_db" where
  "complete_mfa_login env hmac unseal sha256 now db token entered ip user_agent =
     (case consume_challenge env now db token PURPOSE_LOGIN of
        (None, db1) \<Rightarrow> (Inr None, db1)
      | (Some i, db1) \<Rightarrow>
          (case find_user db1 i of
             None \<Rightarrow> (Inr None, db1)
           | Some user \<Rightarrow>
               (case verify_code hmac unseal sha256 now (sg_mfa db1) i entered (now div 1000000000) of
                  (v, mfa) \<Rightarrow>
                    (let db2 = db1\<lparr>sg_mfa := mfa\<rparr>;
                         row = \<lparr>at_email = iu_email user, at_user_id = Some (iu_id user),
                                at_organization_id = iu_organization_id user, at_ip = ip, at_user_agent = user_agent,
                                at_outcome = (if v = None then ''failed'' else ''success''),
                                at_reason = (if v = None then Some ''second factor did not match'' else None), at_created_at = now\<rparr>
                     in (case v of None \<Rightarrow> Inl InvalidFactor | Some w \<Rightarrow> Inr (Some (user, w)), record_attempt row db2)))))"

definition session_policy_for ::
  "instant \<Rightarrow> 'n sign_db \<Rightarrow> uuid option \<Rightarrow> (identity_error + session_policy) \<times> 'n sign_db" where
  "session_policy_for now db organization_id =
     (case policy_for_account (sg_organizations db) now (sg_policies db) organization_id of
        (Inl e, rows) \<Rightarrow> (Inl e, db\<lparr>sg_policies := rows\<rparr>)
      | (Inr None, rows) \<Rightarrow> (Inr default_session_policy, db\<lparr>sg_policies := rows\<rparr>)
      | (Inr (Some p), rows) \<Rightarrow> (Inr (session_policy_of p), db\<lparr>sg_policies := rows\<rparr>))"

subsection \<open>What one attempt does\<close>

lemma find_sign_account_mem:
  "find_sign_account db email = Some r \<Longrightarrow> r \<in> set (sg_users db) \<and> iu_email (ar_user r) = email \<and> ar_password_hash r \<noteq> None"
  unfolding find_sign_account_def by (auto split: option.split_asm if_split_asm dest: find_Some_mem)

lemma attempt_of_account:
  assumes "ac_account (attempt_of db now email ip ua) = Some r"
  shows "r \<in> set (sg_users db) \<and> normalize_email email = Inr (iu_email (ar_user r)) \<and> ar_password_hash r \<noteq> None"
  using assms by (auto simp: attempt_of_def split: sum.split_asm dest: find_sign_account_mem)

lemma attempt_of_simps [simp]:
  "ac_now (attempt_of db now email ip ua) = now" "ac_ip (attempt_of db now email ip ua) = ip"
  by (simp_all add: attempt_of_def)

text \<open>The three ways an attempt changes the accounts: not at all, a failure of one account, a success of one account.\<close>

datatype sign_effect = Quiet | Failure account_row int | Success account_row

definition effect_users :: "instant \<Rightarrow> enforced_lockout \<Rightarrow> sign_effect \<Rightarrow> account_row list \<Rightarrow> account_row list" where
  "effect_users now lockout e users =
     (case e of
        Quiet \<Rightarrow> users
      | Failure r n \<Rightarrow> map (\<lambda>x. if iu_id (ar_user x) = iu_id (ar_user r) then failure_lock now lockout n x else x) users
      | Success r \<Rightarrow> map (\<lambda>x. if iu_id (ar_user x) = iu_id (ar_user r)
          then x\<lparr>ar_failed_count := 0, ar_locked_until := None, ar_last_sign_in_at := Some now\<rparr> else x) users)"

definition effect_ok :: "'n sign_env \<Rightarrow> 'n sign_db \<Rightarrow> enforced_lockout \<Rightarrow> attempt_context \<Rightarrow> sign_effect \<Rightarrow> attempt_record list \<Rightarrow> bool" where
  "effect_ok env db lockout c e rows =
     (case e of
        Quiet \<Rightarrow> True
      | Failure r n \<Rightarrow> ac_account c = Some r \<and> \<not> is_locked (ac_now c) r \<and>
          n = failures_in_window (ac_now c) db (iu_id (ar_user r)) (en_window_seconds lockout) + 1 \<and>
          (\<exists>a. rows = [a] \<and> at_user_id a = Some (iu_id (ar_user r)) \<and> at_outcome a \<in> {''failed'', ''locked''} \<and> at_created_at a = ac_now c)
      | Success r \<Rightarrow> ac_account c = Some r \<and> \<not> is_locked (ac_now c) r)"

definition answers_wrong :: "identity_error + sign_in_outcome \<Rightarrow> bool" where
  "answers_wrong a = (case a of Inr InvalidCredentials \<Rightarrow> True | Inr (AccountLocked _ newly _ _ _) \<Rightarrow> newly | _ \<Rightarrow> False)"

text \<open>What every attempt leaves behind, with the thresholds \<open>lockout\<close> it used.\<close>

definition sign_result ::
  "'n sign_env \<Rightarrow> 'n sign_db \<Rightarrow> enforced_lockout \<Rightarrow> attempt_context \<Rightarrow> identity_error + sign_in_outcome \<Rightarrow> 'n sign_db \<Rightarrow> bool" where
  "sign_result env db lockout c out db' \<longleftrightarrow>
     (\<exists>e rows. sg_users db' = effect_users (ac_now c) lockout e (sg_users db) \<and> sg_attempts db' = sg_attempts db @ rows \<and>
        effect_ok env db lockout c e rows \<and>
        (answers_wrong out \<and> ac_account c \<noteq> None \<longrightarrow> (\<exists>r n. e = Failure r n)) \<and> (\<forall>r n. e = Failure r n \<longrightarrow> answers_wrong out)) \<and>
     sg_lockout db' = sg_lockout db"

lemma sign_result_quiet:
  "sg_users db' = sg_users db \<Longrightarrow> sg_attempts db' = sg_attempts db @ rows \<Longrightarrow> sg_lockout db' = sg_lockout db \<Longrightarrow>
   \<not> answers_wrong out \<or> ac_account c = None \<Longrightarrow> sign_result env db lockout c out db'"
  unfolding sign_result_def by (intro conjI exI[of _ Quiet] exI[of _ rows]) (auto simp: effect_users_def effect_ok_def)

lemma wrong_password_result:
  assumes "ac_account c = Some r" and "\<not> is_locked (ac_now c) r" and "r \<in> set (sg_users db)"
    and "wrong_password db lockout c r = (out, db')"
  shows "sign_result env db lockout c out db'"
proof -
  let ?i = "iu_id (ar_user r)"
  define n where "n = failures_in_window (ac_now c) db ?i (en_window_seconds lockout) + 1"
  obtain x where x: "find (\<lambda>r. iu_id (ar_user r) = ?i) (sg_users db) = Some x" "iu_id (ar_user x) = ?i"
  proof (cases "find (\<lambda>r. iu_id (ar_user r) = ?i) (sg_users db)")
    case None
    then show ?thesis using assms(3) by (auto simp: find_None_all)
  next
    case (Some y)
    then show ?thesis using that find_Some_mem[OF Some] by blast
  qed
  define locked_until where "locked_until = ar_locked_until (failure_lock (ac_now c) lockout n x)"
  define locked where "locked = (case locked_until of None \<Rightarrow> False | Some until \<Rightarrow> until > ac_now c)"
  have w: "wrong_password db lockout c r =
      (Inr (case locked_until of None \<Rightarrow> InvalidCredentials
         | Some until \<Rightarrow> if locked then AccountLocked until True ?i (iu_organization_id (ar_user r)) (en_attempts lockout) else InvalidCredentials),
       record_attempt (log_as c (if locked then ''locked'' else ''failed'')
         (Some (''attempt '' @ show_int n @ '' of '' @ show_int (en_attempts lockout)))) (update_user ?i (failure_lock (ac_now c) lockout n) db))"
    unfolding wrong_password_def register_failure_def Let_def n_def[symmetric] x(1) locked_def locked_until_def by simp
  have "answers_wrong out" using w assms(4) by (auto simp: answers_wrong_def split: option.split if_split)
  moreover have "effect_ok env db lockout c (Failure r n) [log_as c (if locked then ''locked'' else ''failed'')
         (Some (''attempt '' @ show_int n @ '' of '' @ show_int (en_attempts lockout)))]"
    using assms(1,2) by (simp add: effect_ok_def n_def log_as_def)
  ultimately show ?thesis using w assms(4) unfolding sign_result_def
    by (intro conjI exI[of _ "Failure r n"] exI) (auto simp: effect_users_def record_attempt_def update_user_def)
qed

lemma create_challenge_keeps:
  assumes "create_challenge env token now db user purpose ip ua = (out, db')"
  shows "sg_users db' = sg_users db \<and> sg_attempts db' = sg_attempts db \<and> sg_lockout db' = sg_lockout db \<and> sg_mfa db' = sg_mfa db"
  using assms by (auto simp: create_challenge_def Let_def split: if_split_asm)

lemma right_password_result:
  assumes "ac_account c = Some r" and "\<not> is_locked (ac_now c) r" and "right_password env token db c r = (out, db')"
  shows "sign_result env db lockout c out db'"
proof (cases "user_is_active (ar_user r)")
  case False
  then show ?thesis using assms(3)
    by (auto simp: right_password_def Let_def record_attempt_def answers_wrong_def intro!: sign_result_quiet)
next
  case True
  define db1 where "db1 = clear_failures (ac_now c) (iu_id (ar_user r)) db"
  have d: "sg_users db1 = effect_users (ac_now c) lockout (Success r) (sg_users db)" "sg_attempts db1 = sg_attempts db" "sg_lockout db1 = sg_lockout db"
    by (simp_all add: db1_def clear_failures_def update_user_def effect_users_def)
  have "\<exists>rows. sg_users db' = sg_users db1 \<and> sg_attempts db' = sg_attempts db1 @ rows \<and> sg_lockout db' = sg_lockout db1 \<and> \<not> answers_wrong out"
  proof (cases "has_confirmed_factor (sg_mfa db1) (iu_id (ar_user r))")
    case True
    obtain o2 db2 where cc: "create_challenge env token (ac_now c) db1 (iu_id (ar_user r)) PURPOSE_LOGIN (ac_ip c) (ac_user_agent c) = (o2, db2)" by fastforce
    note keep = create_challenge_keeps[OF cc]
    show ?thesis using assms(3) \<open>user_is_active (ar_user r)\<close> True keep cc
      by (cases o2) (auto simp: right_password_def Let_def db1_def[symmetric] record_attempt_def answers_wrong_def)
  next
    case False
    then show ?thesis using assms(3) \<open>user_is_active (ar_user r)\<close>
      by (auto simp: right_password_def Let_def db1_def[symmetric] record_attempt_def answers_wrong_def)
  qed
  then obtain rows where "sg_users db' = sg_users db1" "sg_attempts db' = sg_attempts db1 @ rows" "sg_lockout db' = sg_lockout db1"
    "\<not> answers_wrong out" by blast
  then show ?thesis using d assms(1,2) unfolding sign_result_def
    by (intro conjI exI[of _ "Success r"] exI[of _ rows]) (auto simp: effect_ok_def)
qed

lemma check_account_result:
  assumes "\<And>r. ac_account c = Some r \<Longrightarrow> r \<in> set (sg_users db)" and "check_account env token db lockout c password = (out, db')"
  shows "sign_result env db lockout c out db'"
proof (cases "ac_account c")
  case None
  then show ?thesis using assms(2)
    by (auto simp: check_account_def record_attempt_def answers_wrong_def split: sum.split_asm intro!: sign_result_quiet)
next
  case (Some r)
  show ?thesis
  proof (cases "is_locked (ac_now c) r")
    case True
    then show ?thesis using assms(2) Some
      by (auto simp: check_account_def record_attempt_def answers_wrong_def intro!: sign_result_quiet)
  next
    case False
    have m: "r \<in> set (sg_users db)" using assms(1) Some by simp
    consider (err) e where "ev_verify env password (the (ar_password_hash r)) = Inl e"
      | (no) "ev_verify env password (the (ar_password_hash r)) = Inr False"
      | (yes) "ev_verify env password (the (ar_password_hash r)) = Inr True"
      by (cases "ev_verify env password (the (ar_password_hash r))") auto
    then show ?thesis
    proof cases
      case err
      then show ?thesis using assms(2) Some False
        by (auto simp: check_account_def answers_wrong_def intro!: sign_result_quiet)
    next
      case no
      then show ?thesis using assms(2) Some False wrong_password_result[OF Some False m] by (simp add: check_account_def)
    next
      case yes
      then show ?thesis using assms(2) Some False right_password_result[OF Some False] by (simp add: check_account_def)
    qed
  qed
qed

lemma failures_policies [simp]: "failures_in_window now (db\<lparr>sg_policies := rows\<rparr>) i w = failures_in_window now db i w"
  by (simp add: failures_in_window_def)

lemma sign_result_policies: "sign_result env (db\<lparr>sg_policies := rows\<rparr>) lockout c out db' = sign_result env db lockout c out db'"
  unfolding sign_result_def effect_ok_def failures_policies by simp

lemma sign_in_result:
  assumes "sign_in env token now db email password ip ua = (out, db')"
  shows "\<exists>rows. sign_result env db (resolve_lockout (ev_read_lockout env) (sg_lockout db) rows
    (account_organization (attempt_of db now email ip ua))) (attempt_of db now email ip ua) out db'"
proof -
  let ?c = "attempt_of db now email ip ua"
  obtain p rows where p: "policy_for_account (sg_organizations db) now (sg_policies db) (account_organization ?c) = (p, rows)" by fastforce
  let ?db1 = "db\<lparr>sg_policies := rows\<rparr>" and ?lockout = "resolve_lockout (ev_read_lockout env) (sg_lockout db) rows (account_organization ?c)"
  have mem: "ac_account ?c = Some r \<Longrightarrow> r \<in> set (sg_users ?db1)" for r using attempt_of_account by fastforce
  have "sign_result env ?db1 ?lockout ?c out db'"
  proof (cases p)
    case (Inl e)
    then show ?thesis using assms p by (auto simp: sign_in_def Let_def answers_wrong_def intro!: sign_result_quiet)
  next
    case (Inr policy)
    then have s: "sign_in env token now db email password ip ua =
        (case address_refusal env ?db1 policy ?lockout ?c of
           Some (reason, rule, text) \<Rightarrow> (Inr (IpBlocked reason rule), record_attempt (log_as ?c ''blocked'' (Some text)) ?db1)
         | None \<Rightarrow> check_account env token ?db1 ?lockout ?c password)"
      using p by (simp add: sign_in_def Let_def split: option.split)
    show ?thesis
    proof (cases "address_refusal env ?db1 policy ?lockout ?c")
      case None
      then show ?thesis using assms check_account_result[OF mem] unfolding s by simp
    next
      case (Some t)
      then show ?thesis using assms unfolding s
        by (cases t) (auto simp: record_attempt_def answers_wrong_def intro!: sign_result_quiet)
    qed
  qed
  then show ?thesis using sign_result_policies by blast
qed

subsection \<open>Who gets in\<close>

lemma wrong_password_refuses: "wrong_password db lockout c r \<noteq> (Inr (Authenticated u ch), db')"
  unfolding wrong_password_def by (auto simp: Let_def split: prod.split sum.split option.split)

lemma address_refusal_None:
  assumes "address_refusal env db (Some p) lockout c = None"
  shows "check_ip (ev_parse_ip env) p (Option.bind (ac_ip c) (ev_parse_ip env)) = IpAllowed"
  using assms by (auto simp: address_refusal_def split: ip_verdict.split_asm)

text \<open>
  C14. Nobody is let in by mistake: a sign-in that authenticates an account had a stored account with the
  normalised address whose password hash verifies the password, an active account that was not locked
  at that instant, and an address the organization's lists admit; and it skips the second factor
  exactly when the account has no confirmed one.
\<close>

theorem sign_in_sound:
  assumes "sign_in env token now db email password ip ua = (Inr (Authenticated u ch), db')"
  shows "\<exists>r h. r \<in> set (sg_users db) \<and> ar_user r = u \<and> normalize_email email = Inr (iu_email u) \<and>
    ar_password_hash r = Some h \<and> ev_verify env password h = Inr True \<and> user_is_active u \<and> \<not> is_locked now r \<and>
    (ch = None) = (\<not> has_confirmed_factor (sg_mfa db) (iu_id u)) \<and>
    (\<forall>o1 p. iu_organization_id u = Some o1 \<and> get_policy (sg_policies db) o1 = Some p \<longrightarrow>
       check_ip (ev_parse_ip env) p (Option.bind ip (ev_parse_ip env)) = IpAllowed)"
proof -
  let ?c = "attempt_of db now email ip ua"
  obtain p rows where p: "policy_for_account (sg_organizations db) now (sg_policies db) (account_organization ?c) = (p, rows)" by fastforce
  let ?db1 = "db\<lparr>sg_policies := rows\<rparr>" and ?lockout = "resolve_lockout (ev_read_lockout env) (sg_lockout db) rows (account_organization ?c)"
  obtain policy where policy: "p = Inr policy" "address_refusal env ?db1 policy ?lockout ?c = None"
      "check_account env token ?db1 ?lockout ?c password = (Inr (Authenticated u ch), db')"
    using assms p by (cases p) (auto simp: sign_in_def Let_def split: option.split_asm)
  obtain r where r: "ac_account ?c = Some r" "\<not> is_locked now r" "ev_verify env password (the (ar_password_hash r)) = Inr True"
      "right_password env token ?db1 ?c r = (Inr (Authenticated u ch), db')"
    using policy(3)
    by (auto simp: check_account_def wrong_password_refuses split: option.split_asm if_split_asm sum.split_asm bool.split_asm)
  have u: "ar_user r = u" "user_is_active u"
    using r(4) by (auto simp: right_password_def Let_def split: if_split_asm prod.split_asm sum.split_asm)
  have ch: "(ch = None) = (\<not> has_confirmed_factor (sg_mfa db) (iu_id u))"
    using r(4) u by (auto simp: right_password_def Let_def clear_failures_def update_user_def create_challenge_def
        split: if_split_asm prod.split_asm sum.split_asm)
  note mem = attempt_of_account[OF r(1)]
  have "check_ip (ev_parse_ip env) q (Option.bind ip (ev_parse_ip env)) = IpAllowed"
    if q: "iu_organization_id u = Some o1" "get_policy (sg_policies db) o1 = Some q" for o1 q
  proof -
    have "account_organization ?c = Some o1" using r(1) u q(1) by (simp add: account_organization_def)
    then have "policy = Some q" using p policy(1) q(2) by (simp add: policy_for_account_def ensure_policy_def)
    then have "address_refusal env ?db1 (Some q) ?lockout ?c = None" using policy(2) by simp
    from address_refusal_None[OF this] show ?thesis by (simp add: attempt_of_def)
  qed
  then show ?thesis using mem u ch r(2,3) by (intro exI[of _ r]) auto
qed

definition sample_user :: id_user where
  "sample_user = \<lparr>iu_id = 3, iu_organization_id = None, iu_email = ''a@b.c'', iu_display_name = ''A'', iu_status = ''active'', iu_created_at = 0\<rparr>"

definition sample_account :: account_row where
  "sample_account = \<lparr>ar_user = sample_user, ar_password_hash = Some ''pw'', ar_locked_until = None, ar_failed_count = 0, ar_last_sign_in_at = None\<rparr>"

definition sample_sign_db :: "unit sign_db" where
  "sample_sign_db = \<lparr>sg_users = [sample_account], sg_attempts = [], sg_challenges = [], sg_policies = [], sg_organizations = [],
     sg_lockout = JObject (map (\<lambda>field. (field, JNull)) lockout_fields), sg_mfa = \<lparr>md_factors = [], md_codes = []\<rparr>\<rparr>"

definition sample_env :: "unit sign_env" where
  "sample_env = \<lparr>ev_verify = (\<lambda>p h. Inr (p = h)), ev_dummy = (\<lambda>_. Inr ()), ev_hash_token = id, ev_parse_ip = (\<lambda>_. None),
     ev_read_lockout = (\<lambda>_. Some default_lockout)\<rparr>"

lemma sample_email: "normalize_email ''a@b.c'' = Inr ''a@b.c''" by code_simp

lemma sample_sign_in: "\<exists>db'. sign_in sample_env [] 5 sample_sign_db ''a@b.c'' ''pw'' None None = (Inr (Authenticated sample_user None), db')"
  by (simp add: sign_in_def Let_def attempt_of_def sample_email find_sign_account_def sample_sign_db_def sample_account_def
      sample_user_def account_organization_def policy_for_account_def address_refusal_def check_account_def is_locked_def
      sample_env_def right_password_def user_is_active_def has_confirmed_factor_def confirmed_count_def clear_failures_def update_user_def)

theorem sign_in_sound_witness:
  "\<exists>db'. sign_in sample_env [] 5 sample_sign_db ''a@b.c'' ''pw'' None None = (Inr (Authenticated sample_user None), db') \<and>
     \<not> has_confirmed_factor (sg_mfa sample_sign_db) (iu_id sample_user)"
  using sample_sign_in sign_in_sound by blast

subsection \<open>Guessing passwords\<close>

type_synonym sign_event = "string \<times> instant \<times> string \<times> string \<times> string option \<times> string option"

definition sign_event :: "'n sign_env \<Rightarrow> 'n sign_db \<Rightarrow> sign_event \<Rightarrow> (identity_error + sign_in_outcome) \<times> 'n sign_db" where
  "sign_event env db e = (case e of (token, now, email, password, ip, ua) \<Rightarrow> sign_in env token now db email password ip ua)"

definition event_time :: "sign_event \<Rightarrow> instant" where
  "event_time e = fst (snd e)"

text \<open>The event is answered as a wrong password of the account.\<close>

definition guesses :: "'n sign_env \<Rightarrow> uuid \<Rightarrow> 'n sign_db \<Rightarrow> sign_event \<Rightarrow> bool" where
  "guesses env i db e = (case e of (token, now, email, password, ip, ua) \<Rightarrow>
     (case ac_account (attempt_of db now email ip ua) of None \<Rightarrow> False | Some r \<Rightarrow> iu_id (ar_user r) = i) \<and>
     answers_wrong (fst (sign_event env db e)))"

fun guess_count :: "'n sign_env \<Rightarrow> uuid \<Rightarrow> 'n sign_db \<Rightarrow> sign_event list \<Rightarrow> nat" where
  "guess_count env i db [] = 0"
| "guess_count env i db (e # es) =
     (if guesses env i db e then 1 else 0) + guess_count env i (snd (sign_event env db e)) es"

definition recorded :: "uuid \<Rightarrow> instant \<Rightarrow> 'n sign_db \<Rightarrow> nat" where
  "recorded i from_time db = length (filter (\<lambda>a. at_user_id a = Some i \<and> at_outcome a \<in> {''failed'', ''locked''} \<and> at_created_at a \<ge> from_time) (sg_attempts db))"

definition shut :: "uuid \<Rightarrow> instant \<Rightarrow> 'n sign_db \<Rightarrow> bool" where
  "shut i horizon db \<longleftrightarrow> (\<forall>r \<in> set (sg_users db). iu_id (ar_user r) = i \<longrightarrow> (\<exists>t. ar_locked_until r = Some t \<and> t \<ge> horizon))"

lemma shut_locked: "shut i horizon db \<Longrightarrow> now < horizon \<Longrightarrow> r \<in> set (sg_users db) \<Longrightarrow> iu_id (ar_user r) = i \<Longrightarrow> is_locked now r"
  unfolding shut_def is_locked_def by fastforce

lemma recorded_window:
  assumes "now < from_time + d" and "d \<le> seconds w" and "1 \<le> w" and "w \<le> LOCK_MAX_WINDOW"
  shows "int (recorded i from_time db) \<le> failures_in_window now db i w"
proof -
  have c: "max 1 (min w LOCK_MAX_WINDOW) = w" using assms(3,4) by simp
  have "length (filter (\<lambda>a. at_user_id a = Some i \<and> at_outcome a \<in> {''failed'', ''locked''} \<and> at_created_at a \<ge> from_time) xs) \<le>
      length (filter (\<lambda>a. at_user_id a = Some i \<and> at_created_at a > now - seconds w \<and> at_outcome a \<in> {''failed'', ''locked'', ''blocked''}) xs)" for xs
    using assms(1,2) by (induction xs) auto
  then show ?thesis unfolding recorded_def failures_in_window_def c by simp
qed

text \<open>A step of the budget: with \<open>k\<close> guesses used so far.\<close>

definition spends :: "uuid \<Rightarrow> enforced_lockout \<Rightarrow> instant \<Rightarrow> instant \<Rightarrow> nat \<Rightarrow> 'n sign_db \<Rightarrow> bool" where
  "spends i lockout from_time d k db \<longleftrightarrow>
     int k \<le> en_attempts lockout \<and> k \<le> recorded i from_time db \<and> (int k = en_attempts lockout \<longrightarrow> shut i (from_time + d) db)"

lemma effect_users_user: "map ar_user (effect_users now lockout e users) = map ar_user users"
  by (auto simp: effect_users_def failure_lock_def split: sign_effect.split)

lemma sign_result_spends:
  assumes res: "sign_result env db lockout c out db'" and inv: "spends i lockout from_time d k db"
    and time: "from_time \<le> ac_now c" "ac_now c < from_time + d" and d: "d \<le> seconds (en_window_seconds lockout)" "d \<le> minutes (en_lockout_minutes lockout)"
    and w: "1 \<le> en_window_seconds lockout" "en_window_seconds lockout \<le> LOCK_MAX_WINDOW"
    and mem: "\<And>r. ac_account c = Some r \<Longrightarrow> r \<in> set (sg_users db)"
    and g: "g \<longleftrightarrow> (case ac_account c of None \<Rightarrow> False | Some r \<Rightarrow> iu_id (ar_user r) = i) \<and> answers_wrong out"
  shows "spends i lockout from_time d (k + (if g then 1 else 0)) db'"
proof -
  obtain e rows where e: "sg_users db' = effect_users (ac_now c) lockout e (sg_users db)" "sg_attempts db' = sg_attempts db @ rows"
      "effect_ok env db lockout c e rows" "answers_wrong out \<and> ac_account c \<noteq> None \<longrightarrow> (\<exists>r n. e = Failure r n)"
      "\<forall>r n. e = Failure r n \<longrightarrow> answers_wrong out"
    using res unfolding sign_result_def by blast
  have mono: "recorded i from_time db \<le> recorded i from_time db'" by (simp add: recorded_def e(2))
  have open_if: "int k < en_attempts lockout" if "ac_account c = Some r" "iu_id (ar_user r) = i" "\<not> is_locked (ac_now c) r" for r
    using inv shut_locked[OF _ time(2) mem] that unfolding spends_def by force
  show ?thesis
  proof (cases g)
    case True
    then obtain r n where r: "e = Failure r n" "ac_account c = Some r" "iu_id (ar_user r) = i" using e(3,4) g
      by (auto simp: effect_ok_def split: option.split_asm)
    then have f: "\<not> is_locked (ac_now c) r" "n = failures_in_window (ac_now c) db i (en_window_seconds lockout) + 1"
        "\<exists>a. rows = [a] \<and> at_user_id a = Some i \<and> at_outcome a \<in> {''failed'', ''locked''} \<and> at_created_at a = ac_now c"
      using e(3) by (auto simp: effect_ok_def)
    have less: "int k < en_attempts lockout" using open_if r(2,3) f(1) by blast
    have "recorded i from_time db' = Suc (recorded i from_time db)" using f(3) time(1) by (auto simp: recorded_def e(2))
    then have rec: "k + 1 \<le> recorded i from_time db'" using inv by (simp add: spends_def)
    have n: "int k + 1 \<le> n" using f(2) recorded_window[OF time(2) d(1) w, of i db] inv by (simp add: spends_def)
    have "shut i (from_time + d) db'" if "int (k + 1) = en_attempts lockout"
      using that n r(1,3) time(1) d(2) by (auto simp: shut_def e(1) effect_users_def failure_lock_def split: if_split_asm)
    then show ?thesis using True less rec by (simp add: spends_def)
  next
    case False
    have "shut i (from_time + d) db'" if full: "int k = en_attempts lockout"
    proof -
      have s: "shut i (from_time + d) db" using inv full by (simp add: spends_def)
      show ?thesis
      proof (cases e)
        case Quiet
        then show ?thesis using s by (simp add: shut_def e(1) effect_users_def)
      next
        case (Failure r n)
        then have "iu_id (ar_user r) \<noteq> i" using False g e(3,5) by (auto simp: effect_ok_def)
        then show ?thesis using s Failure by (auto simp: shut_def e(1) effect_users_def failure_lock_def)
      next
        case (Success r)
        then have "ac_account c = Some r" "\<not> is_locked (ac_now c) r" using e(3) by (simp_all add: effect_ok_def)
        then have "iu_id (ar_user r) \<noteq> i" using open_if full by force
        then show ?thesis using s Success by (auto simp: shut_def e(1) effect_users_def)
      qed
    qed
    then show ?thesis using False inv mono by (auto simp: spends_def)
  qed
qed

definition saved_lockout :: "'n sign_env \<Rightarrow> 'n sign_db \<Rightarrow> lockout_policy \<Rightarrow> bool" where
  "saved_lockout env db p \<longleftrightarrow> \<not> unwritten (sg_lockout db) \<and> parse_lockout (ev_read_lockout env) (sg_lockout db) = Inr p"

lemma saved_lockout_ok: "saved_lockout env db p \<Longrightarrow> lockout_ok p"
  by (auto simp: saved_lockout_def parse_lockout_def Let_def res_bind_Inr_conv split: if_split_asm option.split_asm dest!: validated_Inr)

lemma sign_event_spends:
  assumes "saved_lockout env db p" and "spends i (enforced_of p) from_time d k db" and "from_time \<le> event_time e" "event_time e < from_time + d"
    and "d \<le> seconds (lk_window_seconds p)" "d \<le> minutes (lk_lockout_minutes p)"
  shows "spends i (enforced_of p) from_time d (k + (if guesses env i db e then 1 else 0)) (snd (sign_event env db e)) \<and>
    saved_lockout env (snd (sign_event env db e)) p"
proof -
  obtain token now email password ip ua where ev: "e = (token, now, email, password, ip, ua)" by (cases e)
  obtain out db' where s: "sign_in env token now db email password ip ua = (out, db')" by fastforce
  from sign_in_result[OF s] assms(1) have res: "sign_result env db (enforced_of p) (attempt_of db now email ip ua) out db'"
    by (auto simp: saved_lockout_def resolve_lockout_def)
  have b: "1 \<le> lk_window_seconds p" "lk_window_seconds p \<le> LOCK_MAX_WINDOW"
    using lockout_ok_bounds[OF saved_lockout_ok[OF assms(1)]] by (simp_all add: LOCK_MAX_WINDOW_def)
  have "spends i (enforced_of p) from_time d (k + (if guesses env i db e then 1 else 0)) db'"
    by (rule sign_result_spends[OF res assms(2)])
      (use assms(3-6) b s in \<open>auto simp: ev event_time_def guesses_def sign_event_def enforced_of_def dest: attempt_of_account split: option.split\<close>)
  moreover have "sg_lockout db' = sg_lockout db" using res by (simp add: sign_result_def)
  ultimately show ?thesis using assms(1) s by (simp add: ev sign_event_def saved_lockout_def)
qed

lemma guess_count_bound:
  assumes "saved_lockout env db p" and "spends i (enforced_of p) from_time d k db"
    and "list_all (\<lambda>e. from_time \<le> event_time e \<and> event_time e < from_time + d) events"
    and "d \<le> seconds (lk_window_seconds p)" "d \<le> minutes (lk_lockout_minutes p)"
  shows "int (k + guess_count env i db events) \<le> lk_attempts p"
  using assms(1-3)
proof (induction events arbitrary: db k)
  case Nil
  then show ?case by (simp add: spends_def enforced_of_def)
next
  case (Cons e es)
  note step = sign_event_spends[OF Cons.prems(1,2) _ _ assms(4,5), of e]
  have "int ((k + (if guesses env i db e then 1 else 0)) + guess_count env i (snd (sign_event env db e)) es) \<le> lk_attempts p"
    by (rule Cons.IH) (use step Cons.prems(3) in auto)
  then show ?case by (simp add: add.assoc)
qed



subsection \<open>What the unlock and a success leave behind\<close>

text \<open>A success adds a row to the log and takes none away: \<open>reset_on_success\<close> is not read by the count.\<close>

lemma success_keeps_failures:
  assumes "right_password env token db c r = (Inr (Authenticated u ch), db')"
  shows "failures_in_window later db' i w = failures_in_window later db i w"
  using assms by (auto simp: right_password_def Let_def clear_failures_def update_user_def create_challenge_def
      record_attempt_def failures_in_window_def log_as_def split: if_split_asm prod.split_asm sum.split_asm)

text \<open>
  Unlocking an account does not reset the count of failures a lock is decided on: with the failures
  still in the log's window, the next wrong password locks the account again, whatever the cleared
  counter column says.
\<close>

theorem unlock_relocks:
  assumes "unlock_account now db i = (True, db1)"
    and "en_attempts lockout \<le> failures_in_window later db i (en_window_seconds lockout) + 1"
  shows "\<exists>n db2. register_failure later db1 i lockout = (Inr (n, Some (later + minutes (en_lockout_minutes lockout))), db2)"
proof -
  have "failures_in_window later db1 i w = failures_in_window later db i w" for w
    using assms(1) by (auto simp: unlock_account_def failures_in_window_def)
  note count = this
  have "\<exists>r \<in> set (sg_users db). iu_id (ar_user r) = i" using assms(1) by (auto simp: unlock_account_def list_ex_iff)
  moreover have "map (iu_id \<circ> ar_user) (sg_users db1) = map (iu_id \<circ> ar_user) (sg_users db)" using assms(1) by (auto simp: unlock_account_def)
  ultimately have "i \<in> set (map (iu_id \<circ> ar_user) (sg_users db1))" by auto
  then have "\<exists>r \<in> set (sg_users db1). iu_id (ar_user r) = i" by auto
  then obtain r where "find (\<lambda>r. iu_id (ar_user r) = i) (sg_users db1) = Some r"
    by (cases "find (\<lambda>r. iu_id (ar_user r) = i) (sg_users db1)") (auto simp: find_None_iff)
  then show ?thesis using assms(2) count by (simp add: register_failure_def Let_def failure_lock_def)
qed

theorem unlock_relocks_witness:
  "\<exists>n db2. register_failure 7 (snd (unlock_account 5 (sample_sign_db\<lparr>sg_users := [sample_account\<lparr>ar_locked_until := Some 9\<rparr>]\<rparr>) 3)) 3
     \<lparr>en_attempts = 1, en_lockout_minutes = 1, en_window_seconds = 60\<rparr> = (Inr (n, Some (7 + minutes 1)), db2)"
proof -
  let ?db = "sample_sign_db\<lparr>sg_users := [sample_account\<lparr>ar_locked_until := Some 9\<rparr>]\<rparr>"
  let ?l = "\<lparr>en_attempts = 1, en_lockout_minutes = 1, en_window_seconds = 60\<rparr>"
  have u: "unlock_account 5 ?db 3 = (True, snd (unlock_account 5 ?db 3))"
    by (simp add: unlock_account_def is_locked_def sample_account_def sample_user_def)
  have "en_attempts ?l \<le> failures_in_window 7 ?db 3 (en_window_seconds ?l) + 1"
    by (simp add: failures_in_window_def)
  from unlock_relocks[OF u this] show ?thesis by simp
qed

subsection \<open>Challenges work once\<close>

inductive sign_step :: "'n sign_env \<Rightarrow> 'n sign_db \<Rightarrow> 'n sign_db \<Rightarrow> bool" for env where
  step_sign_in: "sign_step env db (snd (sign_in env token now db email password ip ua))"
| step_complete: "sign_step env db (snd (complete_mfa_login env hmac unseal sha256 now db token entered ip ua))"
| step_challenge: "sign_step env db (snd (create_challenge env token now db user purpose ip ua))"
| step_consume: "sign_step env db (snd (consume_challenge env now db token purpose))"
| step_unlock: "sign_step env db (snd (unlock_account now db i))"
| step_clear: "sign_step env db (clear_address_failures db)"

definition used_up :: "string \<Rightarrow> 'n sign_db \<Rightarrow> bool" where
  "used_up h db \<longleftrightarrow> list_ex (\<lambda>c. ch_token_hash c = h) (sg_challenges db) \<and>
     list_all (\<lambda>c. ch_token_hash c = h \<longrightarrow> ch_consumed_at c \<noteq> None) (sg_challenges db)"

lemma used_up_other [simp]:
  "used_up h (db\<lparr>sg_users := x\<rparr>) = used_up h db" "used_up h (db\<lparr>sg_attempts := y\<rparr>) = used_up h db"
  "used_up h (db\<lparr>sg_policies := z\<rparr>) = used_up h db"
  by (simp_all add: used_up_def)

lemma create_challenge_used: "used_up h db \<Longrightarrow> used_up h (snd (create_challenge env token now db user purpose ip ua))"
  by (auto simp: used_up_def create_challenge_def Let_def list_ex_iff list_all_iff)

lemma consume_challenge_used: "used_up h db \<Longrightarrow> used_up h (snd (consume_challenge env now db token purpose))"
  by (auto simp: used_up_def consume_challenge_def list_ex_iff list_all_iff live_challenge_def)

lemma complete_mfa_challenges:
  "sg_challenges (snd (complete_mfa_login env hmac unseal sha256 now db token entered ip ua)) =
   sg_challenges (snd (consume_challenge env now db token PURPOSE_LOGIN))"
  by (auto simp: complete_mfa_login_def Let_def record_attempt_def split: prod.split option.split)

lemma right_password_used: "used_up h db \<Longrightarrow> used_up h (snd (right_password env token db c r))"
proof -
  assume u: "used_up h db"
  define db1 where "db1 = clear_failures (ac_now c) (iu_id (ar_user r)) db"
  have "used_up h db1" using u by (simp add: db1_def clear_failures_def update_user_def)
  note created = create_challenge_used[OF this, of env token "ac_now c" "iu_id (ar_user r)" PURPOSE_LOGIN "ac_ip c" "ac_user_agent c"]
  show ?thesis using u \<open>used_up h db1\<close> created unfolding right_password_def Let_def db1_def[symmetric]
    by (auto simp: record_attempt_def split: prod.split sum.split)
qed

lemma check_account_used: "used_up h db \<Longrightarrow> used_up h (snd (check_account env token db lockout c password))"
proof -
  assume u: "used_up h db"
  have "used_up h (snd (wrong_password db lockout c r))" for r
    using u by (auto simp: wrong_password_def register_failure_def update_user_def record_attempt_def Let_def split: option.split)
  then show ?thesis using right_password_used[OF u] u
    by (auto simp: check_account_def record_attempt_def split: option.split sum.split bool.split)
qed

lemma sign_step_used: "sign_step env db db' \<Longrightarrow> used_up h db \<Longrightarrow> used_up h db'"
proof (induction rule: sign_step.induct)
  case (step_sign_in db token now email password ip ua)
  have "used_up h (db\<lparr>sg_policies := rows\<rparr>)" for rows using step_sign_in by simp
  then show ?case
    by (auto simp: check_account_used sign_in_def Let_def record_attempt_def split: prod.split sum.split option.split)
next
  case (step_complete db hmac unseal sha256 now token entered ip ua)
  then show ?case using consume_challenge_used[OF step_complete, of env now token PURPOSE_LOGIN]
    by (simp add: used_up_def complete_mfa_challenges)
qed (auto simp: create_challenge_used consume_challenge_used unlock_account_def clear_address_failures_def)

text \<open>
  A second-factor challenge is answered once: after any answer that found it, right or wrong, no
  sequence of sign-ins, other challenges, unlocks and answers makes the same token find a challenge
  again. The uniqueness of the token digest is what keeps a later challenge from reviving it.
\<close>

theorem challenge_once:
  assumes "distinct (map ch_token_hash (sg_challenges db))"
    and "consume_challenge env now db token PURPOSE_LOGIN = (Some user, db1)" and "(sign_step env)\<^sup>*\<^sup>* db1 db2"
  shows "fst (complete_mfa_login env hmac unseal sha256 later db2 token entered ip ua) = Inr None"
proof -
  let ?h = "ev_hash_token env token" and ?live = "live_challenge now (ev_hash_token env token) PURPOSE_LOGIN"
  obtain c where c: "c \<in> set (sg_challenges db)" "?live c"
    using assms(2) by (auto simp: consume_challenge_def peek_challenge_def dest: find_Some_mem)
  have only: "x = c" if "x \<in> set (sg_challenges db)" "ch_token_hash x = ?h" for x
    using assms(1) c that inj_onD[of ch_token_hash "set (sg_challenges db)" x c] by (simp add: distinct_map live_challenge_def)
  have rows: "sg_challenges db1 = map (\<lambda>x. if ?live x then x\<lparr>ch_consumed_at := Some now\<rparr> else x) (sg_challenges db)"
    using assms(2) by (auto simp: consume_challenge_def)
  have "ch_token_hash c = ?h" using c(2) by (simp add: live_challenge_def)
  moreover have "c\<lparr>ch_consumed_at := Some now\<rparr> \<in> set (sg_challenges db1)" unfolding rows using c by force
  ultimately have "\<exists>x \<in> set (sg_challenges db1). ch_token_hash x = ?h"
    by (intro bexI[of _ "c\<lparr>ch_consumed_at := Some now\<rparr>"]) simp_all
  moreover have "ch_consumed_at x \<noteq> None" if x: "x \<in> set (sg_challenges db1)" "ch_token_hash x = ?h" for x
  proof -
    from x(1) obtain y where y: "y \<in> set (sg_challenges db)" "x = (if ?live y then y\<lparr>ch_consumed_at := Some now\<rparr> else y)"
      unfolding rows by auto
    then have "ch_token_hash y = ?h" using x(2) by (simp split: if_split_asm)
    with only y(1) have "y = c" by blast
    then show ?thesis using y(2) c(2) by simp
  qed
  ultimately have "used_up ?h db1" by (simp add: used_up_def list_ex_iff list_all_iff)
  with assms(3) have "used_up ?h db2" by (induction rule: rtranclp_induct) (use sign_step_used in blast)+
  then have "find (live_challenge later ?h PURPOSE_LOGIN) (sg_challenges db2) = None"
    by (auto simp: find_None_iff used_up_def list_all_iff live_challenge_def)
  then show ?thesis by (simp add: complete_mfa_login_def consume_challenge_def peek_challenge_def)
qed

theorem challenge_once_witness:
  "\<exists>db1. consume_challenge sample_env 5 (snd (create_challenge sample_env ''t'' 5 sample_sign_db 3 PURPOSE_LOGIN None None)) ''t'' PURPOSE_LOGIN
       = (Some 3, db1) \<and>
     fst (complete_mfa_login sample_env (\<lambda>_ _. []) Some id 6 db1 ''t'' ''000000'' None None) = Inr None"
proof -
  let ?db = "snd (create_challenge sample_env ''t'' 5 sample_sign_db 3 PURPOSE_LOGIN None None)"
  have rows: "sg_challenges ?db = [\<lparr>ch_user_id = 3, ch_purpose = PURPOSE_LOGIN, ch_token_hash = ''t'', ch_ip = None,
      ch_user_agent = None, ch_expires_at = 5 + minutes CHALLENGE_TTL_MINUTES, ch_consumed_at = None\<rparr>]"
    by (simp add: create_challenge_def Let_def sample_sign_db_def sample_env_def)
  obtain db1 where c: "consume_challenge sample_env 5 ?db ''t'' PURPOSE_LOGIN = (Some 3, db1)"
    unfolding consume_challenge_def peek_challenge_def rows
    by (simp add: live_challenge_def sample_env_def minutes_def seconds_def CHALLENGE_TTL_MINUTES_def)
  have "distinct (map ch_token_hash (sg_challenges ?db))" by (simp add: rows)
  from challenge_once[OF this c rtranclp.rtrancl_refl] c show ?thesis by blast
qed

end
