(* ===== verification/Base64Url.thy ===== *)
theory Base64Url
  imports Prelude
begin

text \<open>
  Base64url without padding: \<open>crates/core/src/base64url.rs\<close>, and the second encoder of
  \<open>crates/security/src/csrf.rs\<close>, on bytes as 8-bit words and groups as 32-bit words.
\<close>

unbundle bit_operations_syntax

definition ALPHABET :: string where
  "ALPHABET = ''ABCDEFGHIJKLMNOPQRSTUVWXYZabcdefghijklmnopqrstuvwxyz0123456789-_''"

definition letter :: "32 word \<Rightarrow> char" where
  "letter v = ALPHABET ! unat (v AND 63)"

definition byte_at :: "8 word list \<Rightarrow> nat \<Rightarrow> 32 word" where
  "byte_at chunk i = (if i < length chunk then ucast (chunk ! i) else 0)"

definition chunk_bits :: "8 word list \<Rightarrow> 32 word" where
  "chunk_bits chunk = fold (\<lambda>i bits. push_bit 8 bits OR byte_at chunk i) [0..<3] 0"

definition encode_chunk :: "8 word list \<Rightarrow> string" where
  "encode_chunk chunk =
     (let bits = chunk_bits chunk; significant = length chunk * 8 in
      [letter (drop_bit 18 bits), letter (drop_bit 12 bits)] @
      (if significant > 8 then [letter (drop_bit 6 bits)] else []) @
      (if significant > 16 then [letter bits] else []))"

fun b64_encode :: "8 word list \<Rightarrow> string" where
  "b64_encode [] = []"
| "b64_encode (a # b # c # rest) = encode_chunk [a, b, c] @ b64_encode rest"
| "b64_encode chunk = encode_chunk chunk"

definition value_of :: "char \<Rightarrow> 8 word option" where
  "value_of c = map_option of_nat (find (\<lambda>i. ALPHABET ! i = c) [0..<length ALPHABET])"

fun decode_bits :: "string \<Rightarrow> 32 word \<Rightarrow> 32 word option" where
  "decode_bits [] bits = Some bits"
| "decode_bits (c # cs) bits =
     (case value_of c of None \<Rightarrow> None | Some v \<Rightarrow> decode_bits cs (push_bit 6 bits OR ucast v))"

definition decode_chunk :: "string \<Rightarrow> 8 word list option" where
  "decode_chunk chunk =
     Option.bind (decode_bits chunk 0) (\<lambda>bits0.
       (let taken = length chunk; bits = push_bit (6 * (4 - taken)) bits0 in
        if taken = 2 then Some [ucast (drop_bit 16 bits)]
        else if taken = 3 then Some [ucast (drop_bit 16 bits), ucast (drop_bit 8 bits)]
        else if taken = 4 then Some [ucast (drop_bit 16 bits), ucast (drop_bit 8 bits), ucast bits]
        else None))"

fun decode_chunks :: "string \<Rightarrow> 8 word list option" where
  "decode_chunks [] = Some []"
| "decode_chunks (a # b # c # d # rest) =
     Option.bind (decode_chunk [a, b, c, d]) (\<lambda>x. Option.bind (decode_chunks rest) (\<lambda>y. Some (x @ y)))"
| "decode_chunks chunk = decode_chunk chunk"

definition b64_decode :: "string \<Rightarrow> 8 word list option" where
  "b64_decode input = (if str_len input mod 4 = 1 then None else decode_chunks input)"

text \<open>The encoder of the CSRF module.\<close>

definition csrf_chunk :: "8 word list \<Rightarrow> string" where
  "csrf_chunk chunk =
     (let b0 = byte_at chunk 0; b1 = byte_at chunk 1; b2 = byte_at chunk 2;
          triple = push_bit 16 b0 OR push_bit 8 b1 OR b2 in
      [letter (drop_bit 18 triple), letter (drop_bit 12 triple)] @
      (if length chunk > 1 then [letter (drop_bit 6 triple)] else []) @
      (if length chunk > 2 then [letter triple] else []))"

fun csrf_encode :: "8 word list \<Rightarrow> string" where
  "csrf_encode [] = []"
| "csrf_encode (a # b # c # rest) = csrf_chunk [a, b, c] @ csrf_encode rest"
| "csrf_encode chunk = csrf_chunk chunk"

subsection \<open>Letters\<close>

lemma alphabet: "length ALPHABET = 64" "distinct ALPHABET" "list_all (\<lambda>c. code c < 128) ALPHABET"
  by (simp_all add: ALPHABET_def code_def)

lemma value_of_nth: "i < 64 \<Longrightarrow> value_of (ALPHABET ! i) = Some (of_nat i)"
proof -
  assume i: "i < 64"
  have "find (\<lambda>j. ALPHABET ! j = ALPHABET ! i) [0..<64] = Some i"
    unfolding find_Some_iff using i alphabet by (intro exI[of _ i]) (auto simp: nth_eq_iff_index_eq)
  then show ?thesis by (simp add: value_of_def alphabet)
qed

lemma six_bits: "v AND 63 = take_bit 6 (v :: 32 word)"
  by (simp add: take_bit_eq_mask mask_eq_exp_minus_1)

lemma value_of_letter: "value_of (letter v) = Some (ucast (take_bit 6 v))"
proof -
  have "unat (take_bit 6 v) < 64" using take_bit_nat_less_exp[of 6 "unat v"] by (simp add: unsigned_take_bit_eq)
  then have "value_of (ALPHABET ! unat (take_bit 6 v)) = Some (of_nat (unat (take_bit 6 v)))" by (rule value_of_nth)
  then show ?thesis by (simp add: letter_def six_bits)
qed

lemma low_bits: "(ucast (ucast (take_bit 6 v) :: 8 word) :: 32 word) = take_bit 6 v"
  by (rule bit_word_eqI) (auto simp: bit_simps)

lemma decode_letters:
  "decode_bits (map letter vs) bits = Some (fold (\<lambda>v bits. push_bit 6 bits OR take_bit 6 v) vs bits)"
  by (induction vs arbitrary: bits) (simp_all add: value_of_letter low_bits)

subsection \<open>Groups\<close>

lemma three: "[0..<3] = [0, 1, 2]"
  by code_simp

lemma chunk_bits_simps:
  "chunk_bits [a] = push_bit 16 (ucast a)" "chunk_bits [a, b] = push_bit 16 (ucast a) OR push_bit 8 (ucast b)"
  "chunk_bits [a, b, c] = push_bit 16 (ucast a) OR push_bit 8 (ucast b) OR ucast c"
  unfolding chunk_bits_def byte_at_def three by (rule bit_word_eqI; auto simp: bit_simps)+

lemma six_splits:
  fixes w :: "32 word"
  shows "push_bit 6 (take_bit 6 (drop_bit 18 w)) OR take_bit 6 (drop_bit 12 w) = take_bit 12 (drop_bit 12 w)"
    "push_bit 6 (take_bit 12 (drop_bit 12 w)) OR take_bit 6 (drop_bit 6 w) = take_bit 18 (drop_bit 6 w)"
    "push_bit 6 (take_bit 18 (drop_bit 6 w)) OR take_bit 6 w = take_bit 24 w"
proof -
  have split6: "push_bit 6 (take_bit k (drop_bit 6 v)) OR take_bit 6 v = take_bit (k + 6) v" for k and v :: "32 word"
  proof (rule bit_word_eqI)
    fix n assume "n < LENGTH(32)"
    then show "bit (push_bit 6 (take_bit k (drop_bit 6 v)) OR take_bit 6 v) n = bit (take_bit (k + 6) v) n"
      by (cases "n < 6") (auto simp: bit_simps)
  qed
  show "push_bit 6 (take_bit 6 (drop_bit 18 w)) OR take_bit 6 (drop_bit 12 w) = take_bit 12 (drop_bit 12 w)"
    using split6[of 6 "drop_bit 12 w"] by (simp add: drop_bit_drop_bit)
  show "push_bit 6 (take_bit 12 (drop_bit 12 w)) OR take_bit 6 (drop_bit 6 w) = take_bit 18 (drop_bit 6 w)"
    using split6[of 12 "drop_bit 6 w"] by (simp add: drop_bit_drop_bit)
  show "push_bit 6 (take_bit 18 (drop_bit 6 w)) OR take_bit 6 w = take_bit 24 w" using split6[of 18 w] by simp
qed

lemma decode_encode_chunk:
  "decode_chunk (encode_chunk [a]) = Some [a]" "decode_chunk (encode_chunk [a, b]) = Some [a, b]"
  "decode_chunk (encode_chunk [a, b, c]) = Some [a, b, c]"
proof -
  define w1 where "w1 = chunk_bits [a]"
  define w2 where "w2 = chunk_bits [a, b]"
  define w3 where "w3 = chunk_bits [a, b, c]"
  have e1: "encode_chunk [a] = map letter [drop_bit 18 w1, drop_bit 12 w1]" by (simp add: encode_chunk_def w1_def Let_def)
  have e2: "encode_chunk [a, b] = map letter [drop_bit 18 w2, drop_bit 12 w2, drop_bit 6 w2]" by (simp add: encode_chunk_def w2_def Let_def)
  have e3: "encode_chunk [a, b, c] = map letter [drop_bit 18 w3, drop_bit 12 w3, drop_bit 6 w3, w3]" by (simp add: encode_chunk_def w3_def Let_def)
  have "decode_chunk (encode_chunk [a]) = Some [ucast (drop_bit 16 (push_bit 12 (take_bit 12 (drop_bit 12 w1))))]"
    unfolding e1 decode_chunk_def decode_letters by (simp add: six_splits Let_def)
  moreover have "ucast (drop_bit 16 (push_bit 12 (take_bit 12 (drop_bit 12 w1)))) = a"
    by (rule bit_word_eqI) (auto simp: w1_def chunk_bits_simps bit_simps)
  ultimately show "decode_chunk (encode_chunk [a]) = Some [a]" by simp
  have "decode_chunk (encode_chunk [a, b]) =
      Some [ucast (drop_bit 16 (push_bit 6 (take_bit 18 (drop_bit 6 w2)))), ucast (drop_bit 8 (push_bit 6 (take_bit 18 (drop_bit 6 w2))))]"
    unfolding e2 decode_chunk_def decode_letters by (simp add: six_splits Let_def)
  moreover have "ucast (drop_bit 16 (push_bit 6 (take_bit 18 (drop_bit 6 w2)))) = a" "ucast (drop_bit 8 (push_bit 6 (take_bit 18 (drop_bit 6 w2)))) = b"
    by (rule bit_word_eqI, auto simp: w2_def chunk_bits_simps bit_simps dest: bit_imp_le_length)+
  ultimately show "decode_chunk (encode_chunk [a, b]) = Some [a, b]" by simp
  have "decode_chunk (encode_chunk [a, b, c]) =
      Some [ucast (drop_bit 16 (take_bit 24 w3)), ucast (drop_bit 8 (take_bit 24 w3)), ucast (take_bit 24 w3)]"
    unfolding e3 decode_chunk_def decode_letters by (simp add: six_splits Let_def)
  moreover have "ucast (drop_bit 16 (take_bit 24 w3)) = a" "ucast (drop_bit 8 (take_bit 24 w3)) = b" "ucast (take_bit 24 w3) = c"
    by (rule bit_word_eqI, auto simp: w3_def chunk_bits_simps bit_simps dest: bit_imp_le_length)+
  ultimately show "decode_chunk (encode_chunk [a, b, c]) = Some [a, b, c]" by simp
qed

lemma encode_chunk_letters:
  "encode_chunk [a] = [letter (drop_bit 18 (chunk_bits [a])), letter (drop_bit 12 (chunk_bits [a]))]"
  "encode_chunk [a, b] = map letter [drop_bit 18 (chunk_bits [a, b]), drop_bit 12 (chunk_bits [a, b]), drop_bit 6 (chunk_bits [a, b])]"
  "encode_chunk [a, b, c] =
     map letter [drop_bit 18 (chunk_bits [a, b, c]), drop_bit 12 (chunk_bits [a, b, c]), drop_bit 6 (chunk_bits [a, b, c]), chunk_bits [a, b, c]]"
  by (simp_all add: encode_chunk_def Let_def)

lemma decode_chunks_encode: "decode_chunks (b64_encode bs) = Some bs"
proof (induction bs rule: b64_encode.induct, goal_cases)
  case (2 a b c rest)
  show ?case using 2 decode_encode_chunk(3)[of a b c] by (simp add: encode_chunk_letters)
next
  case (3 a)
  show ?case using decode_encode_chunk(1)[of a] by (simp add: encode_chunk_letters)
next
  case (4 a b)
  show ?case using decode_encode_chunk(2)[of a b] by (simp add: encode_chunk_letters)
qed simp

lemma letter_ascii: "code (letter v) < 128"
proof -
  have "unat (take_bit 6 v) < 64" using take_bit_nat_less_exp[of 6 "unat v"] by (simp add: unsigned_take_bit_eq)
  then have "ALPHABET ! unat (take_bit 6 v) \<in> set ALPHABET" using alphabet(1) by simp
  then show ?thesis using alphabet(3) by (simp add: letter_def six_bits list_all_iff)
qed

lemma encoded_length: "str_len (b64_encode bs) mod 4 \<noteq> 1"
proof (induction bs rule: b64_encode.induct)
  case (2 a b c rest)
  have "str_len (b64_encode (a # b # c # rest)) = 4 + str_len (b64_encode rest)"
    by (simp add: encode_chunk_letters str_len_def letter_ascii)
  then show ?case using 2 by simp
qed (simp_all add: encode_chunk_letters str_len_def letter_ascii)

lemma base64_decodes: "b64_decode (b64_encode bs) = Some bs"
  using encoded_length[of bs] by (simp add: b64_decode_def decode_chunks_encode)

lemma base64_inj: "b64_encode x = b64_encode y \<longleftrightarrow> x = y"
  by (metis base64_decodes option.inject)

lemma csrf_encode_same: "csrf_encode bs = b64_encode bs"
proof -
  have t: "push_bit 16 (byte_at xs 0) OR push_bit 8 (byte_at xs 1) OR byte_at xs 2 = chunk_bits xs" for xs
    unfolding chunk_bits_def three by (rule bit_word_eqI) (auto simp: bit_simps)
  have "csrf_chunk xs = encode_chunk xs" if "xs \<noteq> []" for xs
    using that unfolding csrf_chunk_def encode_chunk_def Let_def t by (cases xs) auto
  then show ?thesis by (induction bs rule: b64_encode.induct) simp_all
qed

subsection \<open>Guarantees\<close>

text \<open>C24. What is encoded decodes to the same bytes, of any length, and the two encoders of the platform, the one of the core and the
  one the CSRF tokens are written with, are the same function.\<close>

theorem base64url_roundtrip: "b64_decode (b64_encode bs) = Some bs \<and> csrf_encode bs = b64_encode bs"
  by (simp add: base64_decodes csrf_encode_same)

text \<open>The decoder takes the bits it drops for granted, so two texts can decode to the same bytes.\<close>

lemma decoding_not_injective: "b64_decode ''AA'' = b64_decode ''AB''"
  by code_simp

end
