(* ===== verification/Sessions.thy ===== *)
theory Sessions
  imports SignIn
begin

text \<open>
  Sessions and devices (\<open>crates/identity/src/sessions.rs\<close>, \<open>devices.rs\<close>) and the handlers that start and
  end a session (\<open>apps/api/src/routes/auth.rs\<close>). The digest of a token, PostgreSQL's \<open>inet\<close> cast and its
  \<open>ilike\<close> are the arguments of \<open>session_env\<close>; a token, random bytes in hexadecimal, and new identifiers are
  arguments. One call reads one clock.
\<close>

subsection \<open>State\<close>

definition SESSION_TTL_DAYS :: int where "SESSION_TTL_DAYS = 30"
definition SESSION_TTL_SECONDS :: int where "SESSION_TTL_SECONDS = SESSION_TTL_DAYS * 24 * 60 * 60"
definition DEFAULT_IDLE_MINUTES :: int where "DEFAULT_IDLE_MINUTES = 120"
definition STEP_UP_WINDOW_MINUTES :: int where "STEP_UP_WINDOW_MINUTES = 10"
definition TOKEN_BYTES :: nat where "TOKEN_BYTES = 32"
definition MAX_USER_AGENT_LENGTH :: nat where "MAX_USER_AGENT_LENGTH = 512"
definition MAX_REASON_LENGTH :: nat where "MAX_REASON_LENGTH = 120"
definition MAX_AGENT_LENGTH :: nat where "MAX_AGENT_LENGTH = 400"

record session =
  se_id :: uuid
  se_user_id :: uuid
  se_created_at :: instant
  se_expires_at :: instant
  se_last_seen_at :: "instant option"
  se_absolute_expires_at :: "instant option"
  se_device_id :: "uuid option"
  se_auth_methods :: "string list"
  se_revoked_at :: "instant option"
  se_revoke_reason :: "string option"
  se_step_up_at :: "instant option"

text \<open>The columns no reader gets.\<close>

record session_row = session +
  sr_token_hash :: string
  sr_user_agent :: "string option"
  sr_ip_address :: "string option"
  sr_revoked_by :: "uuid option"

record new_session =
  ns_user_agent :: "string option"
  ns_ip_address :: "string option"
  ns_device_id :: "uuid option"
  ns_auth_methods :: "string list"

record device =
  dv_id :: uuid
  dv_user_id :: uuid
  dv_fingerprint :: string
  dv_label :: string
  dv_platform :: string
  dv_browser :: string
  dv_first_seen_at :: instant
  dv_last_seen_at :: instant
  dv_trusted_until :: "instant option"
  dv_revoked_at :: "instant option"
  dv_created_at :: instant

record 'n session_db =
  ss_sign :: "'n sign_db"
  ss_sessions :: "session_row list"
  ss_devices :: "device list"

record session_env =
  sv_hash :: "string \<Rightarrow> string"
  sv_inet :: "string \<Rightarrow> string option"
  sv_ilike :: "string \<Rightarrow> string \<Rightarrow> bool"

definition put_session :: "(session_row \<Rightarrow> bool) \<Rightarrow> (session_row \<Rightarrow> session_row) \<Rightarrow> 'n session_db \<Rightarrow> 'n session_db" where
  "put_session P g db = db\<lparr>ss_sessions := map (\<lambda>s. if P s then g s else s) (ss_sessions db)\<rparr>"

definition put_device :: "(device \<Rightarrow> bool) \<Rightarrow> (device \<Rightarrow> device) \<Rightarrow> 'n session_db \<Rightarrow> 'n session_db" where
  "put_device P g db = db\<lparr>ss_devices := map (\<lambda>d. if P d then g d else d) (ss_devices db)\<rparr>"

subsection \<open>Sessions\<close>

definition hash_token :: "session_env \<Rightarrow> string \<Rightarrow> string" where
  "hash_token env token = sv_hash env token"

definition truncate_text :: "string \<Rightarrow> nat \<Rightarrow> string" where
  "truncate_text value n = take n value"

definition is_ascii_hexdigit :: "char \<Rightarrow> bool" where
  "is_ascii_hexdigit c \<longleftrightarrow> is_ascii_digit c \<or> (let x = to_ascii_lowercase [c] in x \<in> set (map (\<lambda>d. [d]) ''abcdef''))"

definition validate_token_shape :: "string \<Rightarrow> identity_error + unit" where
  "validate_token_shape token =
     (if str_len token = TOKEN_BYTES * 2 \<and> list_all is_ascii_hexdigit token then Inr () else Inl InvalidToken)"

definition session_live :: "instant \<Rightarrow> session_row \<Rightarrow> bool" where
  "session_live now s \<longleftrightarrow> se_revoked_at s = None \<and> se_expires_at s > now"

definition revoke_row :: "instant \<Rightarrow> string \<Rightarrow> session_row \<Rightarrow> session_row" where
  "revoke_row now reason s = s\<lparr>se_revoked_at := Some now, se_revoke_reason := Some reason\<rparr>"

definition session_row_of :: "session_env \<Rightarrow> string \<Rightarrow> uuid \<Rightarrow> instant \<Rightarrow> uuid \<Rightarrow> new_session \<Rightarrow> session_policy \<Rightarrow> session_row" where
  "session_row_of env token fresh now user_id new policy =
     (let stop = now + seconds (absolute_days policy * 86400) in
      \<lparr>se_id = fresh, se_user_id = user_id, se_created_at = now, se_expires_at = stop, se_last_seen_at = None,
       se_absolute_expires_at = Some stop, se_device_id = ns_device_id new, se_auth_methods = ns_auth_methods new,
       se_revoked_at = None, se_revoke_reason = None, se_step_up_at = None, sr_token_hash = hash_token env token,
       sr_user_agent = map_option (\<lambda>v. truncate_text v MAX_USER_AGENT_LENGTH) (ns_user_agent new),
       sr_ip_address = Option.bind (ns_ip_address new) (sv_inet env), sr_revoked_by = None\<rparr>)"

text \<open>The insertion, with the cast of the address, the account it references and the unique index on the digest.\<close>

definition insert_session ::
  "session_env \<Rightarrow> string \<Rightarrow> uuid \<Rightarrow> instant \<Rightarrow> uuid \<Rightarrow> new_session \<Rightarrow> session_policy \<Rightarrow> 'n session_db \<Rightarrow>
   (identity_error + session_row) \<times> 'n session_db" where
  "insert_session env token fresh now user_id new policy db =
     (let row = session_row_of env token fresh now user_id new policy in
      if ns_ip_address new \<noteq> None \<and> sr_ip_address row = None then (Inl IdDatabase, db)
      else if find_user (ss_sign db) user_id = None then (Inl IdDatabase, db)
      else if list_ex (\<lambda>s. sr_token_hash s = sr_token_hash row) (ss_sessions db) then (Inl IdDatabase, db)
      else (Inr row, db\<lparr>ss_sessions := ss_sessions db @ [row]\<rparr>))"

text \<open>The sessions over the cap: the live ones of the account but the new one, newest first, after the first few.\<close>

definition over_cap :: "instant \<Rightarrow> uuid \<Rightarrow> uuid \<Rightarrow> nat \<Rightarrow> 'n session_db \<Rightarrow> session_row list" where
  "over_cap now user_id new_id keep db =
     drop keep (sort_key (\<lambda>s. - se_created_at s)
       (filter (\<lambda>s. se_user_id s = user_id \<and> session_live now s \<and> se_id s \<noteq> new_id) (ss_sessions db)))"

definition retire_over_cap :: "instant \<Rightarrow> uuid \<Rightarrow> uuid \<Rightarrow> nat \<Rightarrow> 'n session_db \<Rightarrow> 'n session_db" where
  "retire_over_cap now user_id new_id keep db =
     put_session (\<lambda>s. se_id s \<in> set (map se_id (over_cap now user_id new_id keep db))) (revoke_row now ''concurrent_cap'') db"

definition create_session_with_policy ::
  "session_env \<Rightarrow> string \<Rightarrow> uuid \<Rightarrow> instant \<Rightarrow> uuid \<Rightarrow> new_session \<Rightarrow> session_policy \<Rightarrow> 'n session_db \<Rightarrow>
   (identity_error + session \<times> string) \<times> 'n session_db" where
  "create_session_with_policy env token fresh now user_id new policy db =
     (case insert_session env token fresh now user_id new policy db of
        (Inl e, db1) \<Rightarrow> (Inl e, db1)
      | (Inr row, db1) \<Rightarrow>
          (let keep = max (concurrent_max policy) 1 - 1;
               db2 = (if keep \<ge> 0 then retire_over_cap now user_id (se_id row) (nat keep) db1 else db1)
           in (Inr (session.truncate row, token), db2)))"

definition create_session ::
  "session_env \<Rightarrow> string \<Rightarrow> uuid \<Rightarrow> instant \<Rightarrow> uuid \<Rightarrow> string option \<Rightarrow> string option \<Rightarrow> 'n session_db \<Rightarrow>
   (identity_error + session \<times> string) \<times> 'n session_db" where
  "create_session env token fresh now user_id user_agent ip db =
     create_session_with_policy env token fresh now user_id
       \<lparr>ns_user_agent = user_agent, ns_ip_address = ip, ns_device_id = None, ns_auth_methods = [''password'']\<rparr>
       default_session_policy db"

definition idle_minutes_of :: "'n session_db \<Rightarrow> uuid option \<Rightarrow> int" where
  "idle_minutes_of db organization_id =
     (case Option.bind organization_id (get_policy (sg_policies (ss_sign db))) of
        None \<Rightarrow> DEFAULT_IDLE_MINUTES | Some p \<Rightarrow> sp_session_idle_minutes p)"

definition idle_since :: "('a session_scheme) \<Rightarrow> instant" where
  "idle_since s = (case se_last_seen_at s of None \<Rightarrow> se_created_at s | Some t \<Rightarrow> t)"

definition session_resolves :: "session_env \<Rightarrow> instant \<Rightarrow> 'n session_db \<Rightarrow> string \<Rightarrow> session_row \<Rightarrow> bool" where
  "session_resolves env now db token s \<longleftrightarrow>
     sr_token_hash s = hash_token env token \<and> session_live now s \<and>
     (case se_absolute_expires_at s of None \<Rightarrow> True | Some t \<Rightarrow> t > now) \<and>
     (case find_user (ss_sign db) (se_user_id s) of
        None \<Rightarrow> False
      | Some u \<Rightarrow> idle_since s > now - minutes (idle_minutes_of db (iu_organization_id u)) \<and> iu_status u = ''active'')"

definition resolve_session :: "session_env \<Rightarrow> instant \<Rightarrow> 'n session_db \<Rightarrow> string \<Rightarrow> (session \<times> id_user) option" where
  "resolve_session env now db token =
     Option.bind (find (session_resolves env now db token) (ss_sessions db)) (\<lambda>s.
       map_option (\<lambda>u. (session.truncate s, u)) (find_user (ss_sign db) (se_user_id s)))"

definition touch_session :: "instant \<Rightarrow> uuid \<Rightarrow> 'n session_db \<Rightarrow> 'n session_db" where
  "touch_session now i =
     put_session (\<lambda>s. se_id s = i \<and> (case se_last_seen_at s of None \<Rightarrow> True | Some t \<Rightarrow> t < now - minutes 1))
       (\<lambda>s. s\<lparr>se_last_seen_at := Some now\<rparr>)"

definition revoke_session :: "session_env \<Rightarrow> instant \<Rightarrow> string \<Rightarrow> 'n session_db \<Rightarrow> bool \<times> 'n session_db" where
  "revoke_session env now token db =
     (let hit = (\<lambda>s. sr_token_hash s = hash_token env token \<and> se_revoked_at s = None) in
      (list_ex hit (ss_sessions db),
       put_session hit (\<lambda>s. s\<lparr>se_revoked_at := Some now,
         se_revoke_reason := (case se_revoke_reason s of None \<Rightarrow> Some ''logout'' | r \<Rightarrow> r)\<rparr>) db))"

definition revoked_by_row :: "instant \<Rightarrow> uuid option \<Rightarrow> string \<Rightarrow> session_row \<Rightarrow> session_row" where
  "revoked_by_row now revoked_by reason s =
     (revoke_row now (truncate_text reason MAX_REASON_LENGTH) s)\<lparr>sr_revoked_by := revoked_by\<rparr>"

definition revoke_session_by_id ::
  "instant \<Rightarrow> uuid \<Rightarrow> uuid option \<Rightarrow> string \<Rightarrow> 'n session_db \<Rightarrow> session option \<times> 'n session_db" where
  "revoke_session_by_id now i revoked_by reason db =
     (let hit = (\<lambda>s. se_id s = i \<and> se_revoked_at s = None) in
      (map_option (\<lambda>s. session.truncate (revoked_by_row now revoked_by reason s)) (find hit (ss_sessions db)),
       put_session hit (revoked_by_row now revoked_by reason) db))"

definition sign_out_all :: "instant \<Rightarrow> uuid \<Rightarrow> uuid option \<Rightarrow> string \<Rightarrow> 'n session_db \<Rightarrow> uuid list \<times> 'n session_db" where
  "sign_out_all now user_id revoked_by reason db =
     (let hit = (\<lambda>s. se_user_id s = user_id \<and> se_revoked_at s = None) in
      (map se_id (filter hit (ss_sessions db)), put_session hit (revoked_by_row now revoked_by reason) db))"

definition revoke_sessions_for_user :: "instant \<Rightarrow> uuid \<Rightarrow> 'n session_db \<Rightarrow> nat \<times> 'n session_db" where
  "revoke_sessions_for_user now user_id db =
     (case sign_out_all now user_id None ''password_reset'' db of (ids, db') \<Rightarrow> (length ids, db'))"

definition mark_step_up :: "instant \<Rightarrow> uuid \<Rightarrow> 'n session_db \<Rightarrow> 'n session_db" where
  "mark_step_up now i = put_session (\<lambda>s. se_id s = i) (\<lambda>s. s\<lparr>se_step_up_at := Some now\<rparr>)"

definition step_up_is_fresh :: "('a session_scheme) \<Rightarrow> instant \<Rightarrow> int \<Rightarrow> bool" where
  "step_up_is_fresh s now window_minutes \<longleftrightarrow>
     (case se_step_up_at s of None \<Rightarrow> False | Some t \<Rightarrow> t \<ge> now - minutes window_minutes)"

subsection \<open>The panel's list\<close>

record session_view =
  vw_id :: uuid
  vw_user_id :: uuid
  vw_user_email :: string
  vw_user_display_name :: string
  vw_ip_address :: "string option"
  vw_user_agent :: "string option"
  vw_device_label :: "string option"
  vw_auth_methods :: "string list"
  vw_created_at :: instant
  vw_last_seen_at :: "instant option"
  vw_expires_at :: instant
  vw_absolute_expires_at :: "instant option"
  vw_revoked_at :: "instant option"
  vw_revoke_reason :: "string option"
  vw_step_up_at :: "instant option"

record session_filter =
  sf_user_id :: "uuid option"
  sf_organization_id :: "uuid option"
  sf_search :: "string option"
  sf_include_inactive :: bool

definition view_of :: "'n session_db \<Rightarrow> session_row \<Rightarrow> id_user \<Rightarrow> session_view" where
  "view_of db s u = \<lparr>vw_id = se_id s, vw_user_id = se_user_id s, vw_user_email = iu_email u, vw_user_display_name = iu_display_name u,
     vw_ip_address = sr_ip_address s, vw_user_agent = sr_user_agent s,
     vw_device_label = map_option dv_label (find (\<lambda>d. Some (dv_id d) = se_device_id s) (ss_devices db)),
     vw_auth_methods = se_auth_methods s, vw_created_at = se_created_at s, vw_last_seen_at = se_last_seen_at s,
     vw_expires_at = se_expires_at s, vw_absolute_expires_at = se_absolute_expires_at s, vw_revoked_at = se_revoked_at s,
     vw_revoke_reason = se_revoke_reason s, vw_step_up_at = se_step_up_at s\<rparr>"

definition list_sessions :: "session_env \<Rightarrow> instant \<Rightarrow> session_filter \<Rightarrow> 'n session_db \<Rightarrow> session_view list" where
  "list_sessions env now f db =
     (let pattern = map_option (\<lambda>v. ''%'' @ to_lowercase (trim v) @ ''%'') (sf_search f);
          wanted = (\<lambda>s u. (sf_user_id f = None \<or> sf_user_id f = Some (se_user_id s)) \<and>
            (sf_organization_id f = None \<or> sf_organization_id f = iu_organization_id u) \<and>
            (sf_include_inactive f \<or> session_live now s) \<and>
            (case pattern of None \<Rightarrow> True | Some p \<Rightarrow> sv_ilike env (iu_email u) p \<or> sv_ilike env (iu_display_name u) p))
      in take 500 (sort_key (\<lambda>v. - vw_created_at v) (concat (map (\<lambda>s. case find_user (ss_sign db) (se_user_id s) of
           None \<Rightarrow> [] | Some u \<Rightarrow> if wanted s u then [view_of db s u] else []) (ss_sessions db)))))"

definition state_of :: "session_view \<Rightarrow> instant \<Rightarrow> int \<Rightarrow> string" where
  "state_of v now idle =
     (if vw_revoked_at v \<noteq> None then ''revoked''
      else if vw_expires_at v \<le> now \<or> (case vw_absolute_expires_at v of None \<Rightarrow> False | Some t \<Rightarrow> t \<le> now) then ''expired''
      else if (case vw_last_seen_at v of None \<Rightarrow> vw_created_at v | Some t \<Rightarrow> t) \<le> now - minutes idle then ''idle''
      else ''live'')"

definition idle_minutes_for_organization :: "'n session_db \<Rightarrow> uuid option \<Rightarrow> int" where
  "idle_minutes_for_organization db organization_id =
     (case organization_id of
        None \<Rightarrow> DEFAULT_IDLE_MINUTES
      | Some org \<Rightarrow> (case get_policy (sg_policies (ss_sign db)) org of
                     None \<Rightarrow> DEFAULT_IDLE_MINUTES | Some p \<Rightarrow> sp_session_idle_minutes p))"

subsection \<open>Devices\<close>

definition normalize_agent :: "string option \<Rightarrow> string" where
  "normalize_agent user_agent =
     take MAX_AGENT_LENGTH (str_join '' '' (split_whitespace (case user_agent of None \<Rightarrow> [] | Some a \<Rightarrow> a)))"

definition fingerprint :: "session_env \<Rightarrow> string option \<Rightarrow> string" where
  "fingerprint env user_agent = sv_hash env (''omnion.device.v1'' @ normalize_agent user_agent)"

definition agent_platform :: "string \<Rightarrow> string" where
  "agent_platform agent =
     (if str_contains agent ''Android'' then ''Android''
      else if str_contains agent ''iPhone'' \<or> str_contains agent ''iPad'' then ''iOS''
      else if str_contains agent ''Windows'' then ''Windows''
      else if str_contains agent ''Macintosh'' \<or> str_contains agent ''Mac OS X'' then ''macOS''
      else if str_contains agent ''Linux'' then ''Linux''
      else ''Unknown'')"

definition agent_browser :: "string \<Rightarrow> string" where
  "agent_browser agent =
     (if str_contains agent ''Edg/'' then ''Edge''
      else if str_contains agent ''OPR/'' \<or> str_contains agent ''Opera'' then ''Opera''
      else if str_contains agent ''Firefox/'' then ''Firefox''
      else if str_contains agent ''Chrome/'' \<and> \<not> str_contains agent ''Chromium/'' then ''Chrome''
      else if str_contains agent ''Chromium/'' then ''Chromium''
      else if str_contains agent ''Safari/'' then ''Safari''
      else if str_contains agent ''curl/'' then ''curl''
      else ''Unknown'')"

definition describe :: "string option \<Rightarrow> string \<times> string \<times> string" where
  "describe user_agent =
     (let agent = normalize_agent user_agent; platform = agent_platform agent; browser = agent_browser agent;
          label = (if platform = ''Unknown'' \<and> browser = ''Unknown'' then ''Unidentified device''
            else if browser = ''Unknown'' then platform @ '' device''
            else if platform = ''Unknown'' then browser @ '' client''
            else browser @ '' on '' @ platform)
      in (label, platform, browser))"

definition upsert_device ::
  "session_env \<Rightarrow> uuid \<Rightarrow> instant \<Rightarrow> uuid \<Rightarrow> string option \<Rightarrow> int \<Rightarrow> 'n session_db \<Rightarrow> (identity_error + device) \<times> 'n session_db" where
  "upsert_device env fresh now user_id user_agent trust_days db =
     (let f = fingerprint env user_agent;
          trusted = (if trust_days > 0 then Some (now + seconds (trust_days * 86400)) else None);
          same = (\<lambda>d. dv_user_id d = user_id \<and> dv_fingerprint d = f) in
      case describe user_agent of (label, platform, browser) \<Rightarrow>
        (case find same (ss_devices db) of
           Some d \<Rightarrow>
             (let d' = d\<lparr>dv_label := label, dv_platform := platform, dv_browser := browser, dv_last_seen_at := now,
                         dv_trusted_until := (case dv_trusted_until d of None \<Rightarrow> trusted | t \<Rightarrow> t), dv_revoked_at := None\<rparr>
              in (Inr d', put_device same (\<lambda>_. d') db))
         | None \<Rightarrow>
             (let d = \<lparr>dv_id = fresh, dv_user_id = user_id, dv_fingerprint = f, dv_label = label, dv_platform = platform,
                       dv_browser = browser, dv_first_seen_at = now, dv_last_seen_at = now, dv_trusted_until = trusted,
                       dv_revoked_at = None, dv_created_at = now\<rparr>
              in if find_user (ss_sign db) user_id = None then (Inl IdDatabase, db)
                 else (Inr d, db\<lparr>ss_devices := ss_devices db @ [d]\<rparr>))))"

definition find_device :: "'n session_db \<Rightarrow> uuid \<Rightarrow> device option" where
  "find_device db i = find (\<lambda>d. dv_id d = i) (ss_devices db)"

definition set_trust :: "uuid \<Rightarrow> instant option \<Rightarrow> 'n session_db \<Rightarrow> device option \<times> 'n session_db" where
  "set_trust i trusted_until db =
     (let db' = put_device (\<lambda>d. dv_id d = i) (\<lambda>d. d\<lparr>dv_trusted_until := trusted_until\<rparr>) db in (find_device db' i, db'))"

definition forget_device :: "instant \<Rightarrow> uuid \<Rightarrow> 'n session_db \<Rightarrow> device option \<times> 'n session_db" where
  "forget_device now i db =
     (let db' = put_device (\<lambda>d. dv_id d = i) (\<lambda>d. d\<lparr>dv_revoked_at := Some now\<rparr>) db in (find_device db' i, db'))"

subsection \<open>Starting and ending a session\<close>

definition device_trusted :: "instant \<Rightarrow> device \<Rightarrow> bool" where
  "device_trusted now d \<longleftrightarrow> (case dv_trusted_until d of None \<Rightarrow> False | Some t \<Rightarrow> t > now)"

definition trust_days_of :: "instant \<Rightarrow> 'n sign_db \<Rightarrow> uuid option \<Rightarrow> (identity_error + int) \<times> 'n sign_db" where
  "trust_days_of now db organization_id =
     (case organization_id of
        None \<Rightarrow> (Inr 30, db)
      | Some org \<Rightarrow>
          (case ensure_policy (sg_organizations db) now (sg_policies db) org of
             (Inl e, rows) \<Rightarrow> (Inl e, db\<lparr>sg_policies := rows\<rparr>)
           | (Inr p, rows) \<Rightarrow> (Inr (sp_device_trust_days p), db\<lparr>sg_policies := rows\<rparr>)))"

definition start_session ::
  "session_env \<Rightarrow> string \<Rightarrow> uuid \<Rightarrow> uuid \<Rightarrow> instant \<Rightarrow> id_user \<Rightarrow> string option \<Rightarrow> string option \<Rightarrow> string list \<Rightarrow> 'n session_db \<Rightarrow>
   (identity_error + session \<times> string \<times> device \<times> bool) \<times> 'n session_db" where
  "start_session env token fresh fresh_device now user user_agent ip auth_methods db =
     (case session_policy_for now (ss_sign db) (iu_organization_id user) of
        (Inl e, sg) \<Rightarrow> (Inl e, db\<lparr>ss_sign := sg\<rparr>)
      | (Inr policy, sg) \<Rightarrow>
          (case trust_days_of now sg (iu_organization_id user) of
             (Inl e, sg2) \<Rightarrow> (Inl e, db\<lparr>ss_sign := sg2\<rparr>)
           | (Inr trust_days, sg2) \<Rightarrow>
               (case upsert_device env fresh_device now (iu_id user) user_agent trust_days (db\<lparr>ss_sign := sg2\<rparr>) of
                  (Inl e, db2) \<Rightarrow> (Inl e, db2)
                | (Inr d, db2) \<Rightarrow>
                    (case create_session_with_policy env token fresh now (iu_id user)
                            \<lparr>ns_user_agent = user_agent, ns_ip_address = ip, ns_device_id = Some (dv_id d), ns_auth_methods = auth_methods\<rparr>
                            policy db2 of
                       (Inl e, db3) \<Rightarrow> (Inl e, db3)
                     | (Inr (s, t), db3) \<Rightarrow> (Inr (s, t, d, device_trusted now d), db3)))))"

definition logout :: "session_env \<Rightarrow> instant \<Rightarrow> string option \<Rightarrow> 'n session_db \<Rightarrow> 'n session_db" where
  "logout env now cookie db = (case cookie of None \<Rightarrow> db | Some token \<Rightarrow> snd (revoke_session env now token db))"

end
