(* ===== verification/RowLog.thy ===== *)
theory RowLog
  imports Prelude
begin

text \<open>
  A table whose rows are never deleted: every operation changes rows in place, within what \<open>kept\<close> allows, and appends rows of its
  own, under an identifying column that stays unique. The locale \<open>row_log\<close> is the interface the
  session and the key tables provide.
\<close>

definition grows :: "('r \<Rightarrow> 'r \<Rightarrow> bool) \<Rightarrow> ('r \<Rightarrow> 'k) \<Rightarrow> 'r list \<Rightarrow> 'r list \<Rightarrow> bool" where
  "grows kept ident xs ys \<longleftrightarrow> (\<exists>old new. ys = old @ new \<and> list_all2 kept xs old) \<and>
     (distinct (map ident xs) \<longrightarrow> distinct (map ident ys))"

lemma growsE:
  assumes "grows kept ident xs ys"
  obtains old new where "ys = old @ new" "list_all2 kept xs old"
  using assms unfolding grows_def by blast

locale row_log =
  fixes kept :: "'r \<Rightarrow> 'r \<Rightarrow> bool" and ident :: "'r \<Rightarrow> 'k"
  assumes kept_refl: "kept r r"
    and kept_trans: "kept r s \<Longrightarrow> kept s t \<Longrightarrow> kept r t"
    and kept_ident: "kept r s \<Longrightarrow> ident s = ident r"
begin

lemma grows_refl: "grows kept ident xs xs"
  unfolding grows_def by (intro conjI impI exI[of _ xs] exI[of _ "[]"]) (simp_all add: list.rel_refl kept_refl)

lemma grows_trans:
  assumes "grows kept ident xs ys" "grows kept ident ys zs"
  shows "grows kept ident xs zs"
proof -
  obtain old new where a: "ys = old @ new" "list_all2 kept xs old" using assms(1) by (rule growsE)
  obtain old' new' where b: "zs = old' @ new'" "list_all2 kept ys old'" using assms(2) by (rule growsE)
  obtain p q where pq: "old' = p @ q" "list_all2 kept old p" using b(2) unfolding a(1) list_all2_append1 by blast
  have "list_all2 kept xs p" using list_all2_trans[of kept kept kept, OF kept_trans a(2) pq(2)] .
  moreover have "zs = p @ (q @ new')" using b(1) pq(1) by simp
  ultimately show ?thesis using assms unfolding grows_def by blast
qed

lemma same_idents: "list_all2 kept xs ys \<Longrightarrow> map ident ys = map ident xs"
  by (induction rule: list_all2_induct) (simp_all add: kept_ident)

lemma grows_update:
  assumes "\<forall>r \<in> set xs. P r \<longrightarrow> kept r (f r)"
  shows "grows kept ident xs (map (\<lambda>r. if P r then f r else r) xs)"
proof -
  let ?ys = "map (\<lambda>r. if P r then f r else r) xs"
  have l: "list_all2 kept xs ?ys"
    using assms by (simp add: list_all2_map2 list.rel_refl_strong kept_refl)
  show ?thesis unfolding grows_def same_idents[OF l] using l by (intro conjI impI exI[of _ ?ys] exI[of _ "[]"]) simp_all
qed

lemma grows_insert: "ident r \<notin> ident ` set xs \<Longrightarrow> grows kept ident xs (xs @ [r])"
  unfolding grows_def by (intro conjI impI exI[of _ xs] exI[of _ "[r]"]) (simp_all add: list.rel_refl kept_refl)

text \<open>A row of the later table with the identifier of a row of the earlier one is that row, within what is kept.\<close>

lemma grown_row:
  assumes "grows kept ident xs ys" "distinct (map ident xs)" "r \<in> set xs" "s \<in> set ys" "ident s = ident r"
  shows "kept r s"
proof -
  obtain old new where a: "ys = old @ new" "list_all2 kept xs old" using assms(1) by (rule growsE)
  obtain k where k: "k < length xs" "r = xs ! k" using assms(3) by (metis in_set_conv_nth)
  have o: "old ! k \<in> set ys" "kept r (old ! k)" using k a list_all2_lengthD[OF a(2)] list_all2_nthD[OF a(2) k(1)] by simp_all
  have "distinct (map ident ys)" using assms(1,2) unfolding grows_def by blast
  then have "inj_on ident (set ys)" by (simp add: distinct_map)
  then have "s = old ! k" using inj_onD[of ident _ s, OF _ _ assms(4) o(1)] assms(5) kept_ident[OF o(2)] by simp
  then show ?thesis using o(2) by simp
qed

text \<open>And a row of the earlier table is still there.\<close>

lemma grown_still:
  assumes "grows kept ident xs ys" "r \<in> set xs"
  shows "\<exists>s. s \<in> set ys \<and> kept r s"
proof -
  obtain old new where a: "ys = old @ new" "list_all2 kept xs old" using assms(1) by (rule growsE)
  obtain k where k: "k < length xs" "r = xs ! k" using assms(2) by (metis in_set_conv_nth)
  show ?thesis using k a list_all2_lengthD[OF a(2)] list_all2_nthD[OF a(2) k(1)] by (intro exI[of _ "old ! k"]) simp
qed

end

end
