(* ===== verification/SessionLaws.thy ===== *)
theory SessionLaws
  imports Sessions RowLog
begin

text \<open>
  What sessions promise: who a token resolves to and when, that an ended session stays ended whatever
  happens after, the cap on live sessions, and that the panel's \<open>live\<close> is the resolver's.
\<close>

subsection \<open>Rows under the operations\<close>

text \<open>What no operation changes of a row, and that a revocation is never taken back.\<close>

definition row_kept :: "session_row \<Rightarrow> session_row \<Rightarrow> bool" where
  "row_kept s t \<longleftrightarrow> se_id t = se_id s \<and> se_user_id t = se_user_id s \<and> sr_token_hash t = sr_token_hash s \<and>
     se_expires_at t = se_expires_at s \<and> se_absolute_expires_at t = se_absolute_expires_at s \<and> se_created_at t = se_created_at s \<and>
     (se_revoked_at s \<noteq> None \<longrightarrow> se_revoked_at t \<noteq> None)"

definition hashes :: "'n session_db \<Rightarrow> string list" where
  "hashes db = map sr_token_hash (ss_sessions db)"

definition sessions_kept :: "'n session_db \<Rightarrow> 'n session_db \<Rightarrow> bool" where
  "sessions_kept db db' \<longleftrightarrow> grows row_kept sr_token_hash (ss_sessions db) (ss_sessions db')"

lemma row_kept_refl [simp]: "row_kept s s"
  by (simp add: row_kept_def)

interpretation session_log: row_log row_kept sr_token_hash
  by unfold_locales (simp_all add: row_kept_def)

lemma sessions_kept_same: "ss_sessions db' = ss_sessions db \<Longrightarrow> sessions_kept db db'"
  by (simp add: sessions_kept_def session_log.grows_refl)

lemma sessions_kept_trans: "sessions_kept db db1 \<Longrightarrow> sessions_kept db1 db2 \<Longrightarrow> sessions_kept db db2"
  unfolding sessions_kept_def by (rule session_log.grows_trans)

lemma put_session_kept: "\<forall>s \<in> set (ss_sessions db). P s \<longrightarrow> row_kept s (g s) \<Longrightarrow> sessions_kept db (put_session P g db)"
  by (simp add: sessions_kept_def put_session_def session_log.grows_update)

lemma revoked_rows_kept [simp]:
  "row_kept s (revoke_row now reason s)" "row_kept s (revoked_by_row now by reason s)"
  by (simp_all add: row_kept_def revoke_row_def revoked_by_row_def)

lemma session_ops_kept:
  "sessions_kept db (touch_session now i db)" "sessions_kept db (snd (revoke_session env now token db))"
  "sessions_kept db (snd (revoke_session_by_id now i by reason db))" "sessions_kept db (snd (sign_out_all now u by reason db))"
  "sessions_kept db (mark_step_up now i db)" "sessions_kept db (retire_over_cap now u i keep db)"
  unfolding touch_session_def revoke_session_def revoke_session_by_id_def sign_out_all_def mark_step_up_def retire_over_cap_def Let_def snd_conv
  by (rule put_session_kept, simp add: row_kept_def revoke_row_def revoked_by_row_def)+

lemma insert_session_cases:
  assumes "insert_session env token fresh now u new policy db = (r, db')"
  obtains "r = Inl IdDatabase" "db' = db"
  | row where "r = Inr row" "db' = db\<lparr>ss_sessions := ss_sessions db @ [row]\<rparr>" "find_user (ss_sign db) u \<noteq> None"
      "hash_token env token \<notin> set (hashes db)" "sr_token_hash row = hash_token env token" "se_id row = fresh" "se_user_id row = u"
      "se_revoked_at row = None" "se_created_at row = now" "se_last_seen_at row = None"
      "se_expires_at row = now + seconds (absolute_days policy * 86400)" "se_absolute_expires_at row = Some (se_expires_at row)"
proof -
  let ?row = "session_row_of env token fresh now u new policy"
  note row = session_row_of_def[of env token fresh now u new policy, unfolded Let_def]
  show thesis
  proof (cases "(ns_ip_address new \<noteq> None \<and> sr_ip_address ?row = None) \<or> find_user (ss_sign db) u = None \<or>
      list_ex (\<lambda>s. sr_token_hash s = sr_token_hash ?row) (ss_sessions db)")
    case True
    then have "insert_session env token fresh now u new policy db = (Inl IdDatabase, db)" unfolding insert_session_def Let_def by argo
    then show thesis using assms that(1) by simp
  next
    case False
    then have "insert_session env token fresh now u new policy db = (Inr ?row, db\<lparr>ss_sessions := ss_sessions db @ [?row]\<rparr>)"
      unfolding insert_session_def Let_def by argo
    moreover have "hash_token env token \<notin> set (hashes db)" using False by (auto simp: hashes_def list_ex_iff row)
    ultimately show thesis using assms False by (intro that(2)[of ?row]) (auto simp: row)
  qed
qed

lemma insert_session_kept: "sessions_kept db (snd (insert_session env token fresh now u new policy db))"
proof -
  obtain r db' where i: "insert_session env token fresh now u new policy db = (r, db')" by fastforce
  then show ?thesis
  proof (cases rule: insert_session_cases)
    case (2 row)
    then show ?thesis using session_log.grows_insert[of row "ss_sessions db"] i by (simp add: sessions_kept_def hashes_def)
  qed (simp add: i sessions_kept_same)
qed

lemma create_session_kept: "sessions_kept db (snd (create_session_with_policy env token fresh now u new policy db))"
  using insert_session_kept[of db env token fresh now u new policy]
  unfolding create_session_with_policy_def Let_def
  by (auto split: prod.splits sum.splits intro: sessions_kept_trans[OF _ session_ops_kept(6)])

subsection \<open>The machine\<close>

text \<open>Every operation on sessions, every operation on devices, and any change of the accounts, policies and
  organizations beside them.\<close>

inductive session_step :: "session_env \<Rightarrow> 'n session_db \<Rightarrow> 'n session_db \<Rightarrow> bool" for env where
  st_create: "session_step env db (snd (create_session_with_policy env token fresh now u new policy db))"
| st_start: "session_step env db (snd (start_session env token fresh fresh_device now user agent ip methods db))"
| st_touch: "session_step env db (touch_session now i db)"
| st_revoke: "session_step env db (snd (revoke_session env now token db))"
| st_revoke_id: "session_step env db (snd (revoke_session_by_id now i by reason db))"
| st_sign_out: "session_step env db (snd (sign_out_all now u by reason db))"
| st_step_up: "session_step env db (mark_step_up now i db)"
| st_devices: "session_step env db (db\<lparr>ss_devices := ds\<rparr>)"
| st_accounts: "session_step env db (db\<lparr>ss_sign := sg\<rparr>)"

lemma upsert_device_sessions: "ss_sessions (snd (upsert_device env fresh now u agent days db)) = ss_sessions db"
  by (simp add: upsert_device_def Let_def put_device_def split: prod.split option.split)

lemma start_session_kept: "sessions_kept db (snd (start_session env token fresh fresh_device now user agent ip methods db))"
proof -
  have up: "sessions_kept db db2" if "upsert_device env fresh_device now (iu_id user) agent days (db\<lparr>ss_sign := sg\<rparr>) = (r, db2)" for r db2 days sg
    using upsert_device_sessions[of env fresh_device now "iu_id user" agent days "db\<lparr>ss_sign := sg\<rparr>"] that by (intro sessions_kept_same) simp
  have cr: "sessions_kept db2 db3" if "create_session_with_policy env token fresh now (iu_id user) new policy db2 = (r, db3)" for r db2 db3 new policy
    using create_session_kept[of db2 env token fresh now "iu_id user" new policy] that by simp
  show ?thesis
    unfolding start_session_def
    by (auto simp: sessions_kept_same split: prod.splits sum.splits intro: up sessions_kept_trans[OF up cr])
qed

lemma session_step_kept: "session_step env db db' \<Longrightarrow> sessions_kept db db'"
  by (induction rule: session_step.induct)
    (simp_all add: create_session_kept start_session_kept session_ops_kept sessions_kept_same)

lemma session_path_kept: "(session_step env)\<^sup>*\<^sup>* db db' \<Longrightarrow> sessions_kept db db'"
  by (induction rule: rtranclp_induct) (auto intro: sessions_kept_same session_step_kept sessions_kept_trans)

lemma kept_row:
  assumes "sessions_kept db db'" "distinct (hashes db)" "s \<in> set (ss_sessions db)" "t \<in> set (ss_sessions db')" "sr_token_hash t = sr_token_hash s"
  shows "row_kept s t"
  using session_log.grown_row[of "ss_sessions db" "ss_sessions db'"] assms unfolding sessions_kept_def hashes_def by blast

subsection \<open>The cap\<close>

lemma over_cap_part:
  "sort_key (\<lambda>s. - se_created_at s) (filter (\<lambda>s. se_user_id s = u \<and> session_live now s \<and> se_id s \<noteq> i) (ss_sessions db)) = xs \<Longrightarrow>
     over_cap now u i keep db = drop keep xs"
  by (simp add: over_cap_def)

lemma filter_length_sort: "length (filter P (sort_key f xs)) = length (filter P xs)"
  by (simp add: filter_sort)

lemma retire_leaves:
  "length (filter (\<lambda>s. se_user_id s = u \<and> session_live now s \<and> se_id s \<noteq> i) (ss_sessions (retire_over_cap now u i keep db))) \<le> keep"
proof -
  let ?mine = "\<lambda>s. se_user_id s = u \<and> session_live now s \<and> se_id s \<noteq> i"
  define xs where "xs = sort_key (\<lambda>s. - se_created_at s) (filter ?mine (ss_sessions db))"
  define gone where "gone = set (map se_id (drop keep xs))"
  have ids: "set (map se_id (over_cap now u i keep db)) = gone" by (simp add: over_cap_def xs_def gone_def)
  have row: "?mine (if se_id s \<in> gone then revoke_row now r s else s) \<longleftrightarrow> ?mine s \<and> se_id s \<notin> gone" for r s
    by (simp add: revoke_row_def session_live_def)
  have "length (filter ?mine (ss_sessions (retire_over_cap now u i keep db))) =
      length (filter (\<lambda>s. ?mine s \<and> se_id s \<notin> gone) (ss_sessions db))"
    unfolding retire_over_cap_def put_session_def ids by (simp add: filter_map comp_def row)
  also have "\<dots> = length (filter (\<lambda>s. se_id s \<notin> gone) xs)"
    unfolding xs_def filter_length_sort filter_filter by (metis (mono_tags, lifting))
  also have "\<dots> = length (filter (\<lambda>s. se_id s \<notin> gone) (take keep xs)) + length (filter (\<lambda>s. se_id s \<notin> gone) (drop keep xs))"
    by (metis append_take_drop_id filter_append length_append)
  also have "filter (\<lambda>s. se_id s \<notin> gone) (drop keep xs) = []" by (auto simp: gone_def filter_empty_conv)
  also have "length (filter (\<lambda>s. se_id s \<notin> gone) (take keep xs)) + length [] \<le> keep"
    using length_filter_le[of "\<lambda>s. se_id s \<notin> gone" "take keep xs"] by simp
  finally show ?thesis .
qed

lemma in_take_or_drop: "x \<in> set xs \<Longrightarrow> x \<in> set (take n xs) \<or> x \<in> set (drop n xs)"
  by (metis Un_iff append_take_drop_id set_append)

lemma sorted_take_drop:
  assumes "x \<in> set (take n (sort_key f xs))" "y \<in> set (drop n (sort_key f xs))"
  shows "f x \<le> (f y :: int)"
proof -
  have "sorted (map f (take n (sort_key f xs) @ drop n (sort_key f xs)))" by simp
  then have "sorted (map f (take n (sort_key f xs)) @ map f (drop n (sort_key f xs)))" by (simp only: map_append)
  then show ?thesis using assms by (auto simp: sorted_append)
qed

text \<open>A retired session is no younger than one that stays.\<close>

lemma retire_oldest:
  assumes "distinct (map se_id (ss_sessions db))"
    and a: "a \<in> set (ss_sessions db)" "se_user_id a = u" "session_live now a" "se_id a \<noteq> i" "a \<in> set (ss_sessions (retire_over_cap now u i keep db))"
    and b: "b \<in> set (ss_sessions db)" "session_live now b" "b \<notin> set (ss_sessions (retire_over_cap now u i keep db))"
  shows "se_created_at b \<le> se_created_at a"
proof -
  let ?xs = "sort_key (\<lambda>s. - se_created_at s) (filter (\<lambda>s. se_user_id s = u \<and> session_live now s \<and> se_id s \<noteq> i) (ss_sessions db))"
  let ?gone = "set (map se_id (over_cap now u i keep db))"
  have gone: "over_cap now u i keep db = drop keep ?xs" by (simp add: over_cap_def)
  have inj: "x = y" if "x \<in> set (ss_sessions db)" "y \<in> set (ss_sessions db)" "se_id x = se_id y" for x y
    using assms(1) that by (auto simp: distinct_map dest: inj_onD)
  have rows: "ss_sessions (retire_over_cap now u i keep db) =
      map (\<lambda>s. if se_id s \<in> ?gone then revoke_row now ''concurrent_cap'' s else s) (ss_sessions db)"
    by (simp add: retire_over_cap_def put_session_def)
  have "se_id a \<notin> ?gone"
  proof
    assume g: "se_id a \<in> ?gone"
    obtain s where s: "s \<in> set (ss_sessions db)" "a = (if se_id s \<in> ?gone then revoke_row now ''concurrent_cap'' s else s)"
      using a(5) unfolding rows by auto
    have "se_id (if se_id s \<in> ?gone then revoke_row now ''concurrent_cap'' s else s) = se_id s" by (simp add: revoke_row_def)
    then have "se_id s = se_id a" unfolding s(2)[symmetric] by (rule sym)
    then have "se_id s \<in> ?gone" using g by metis
    then have eq: "a = revoke_row now ''concurrent_cap'' s" by (rule trans[OF s(2) if_P])
    have "\<not> session_live now (revoke_row now ''concurrent_cap'' s)" by (simp add: revoke_row_def session_live_def)
    then have "\<not> session_live now a" unfolding eq[symmetric] .
    then show False using a(3) by (rule notE)
  qed
  moreover have "a \<in> set ?xs" unfolding set_sort set_filter by (intro CollectI conjI a(1-4))
  then have "a \<in> set (take keep ?xs) \<or> a \<in> set (drop keep ?xs)" by (rule in_take_or_drop)
  ultimately have at: "a \<in> set (take keep ?xs)" unfolding gone by auto
  have "se_id b \<in> ?gone"
  proof (rule ccontr)
    assume "se_id b \<notin> ?gone"
    then have "b \<in> set (ss_sessions (retire_over_cap now u i keep db))" unfolding rows set_map by (intro image_eqI[OF _ b(1)]) simp
    then show False using b(3) by blast
  qed
  then obtain c where c: "c \<in> set (drop keep ?xs)" "se_id c = se_id b" unfolding gone by auto
  then have "c \<in> set ?xs" by (meson in_set_dropD)
  then have "c = b" using inj[of c b] c(2) b(1) by simp
  then show ?thesis using sorted_take_drop[OF at c(1)] by simp
qed

lemma create_session_Inr:
  assumes "create_session_with_policy env token fresh now u new policy db = (Inr (s, t), db')"
  obtains row db1 where "insert_session env token fresh now u new policy db = (Inr row, db1)" "s = session.truncate row" "t = token"
    "db' = retire_over_cap now u (se_id row) (nat (max (concurrent_max policy) 1 - 1)) db1"
  using assms unfolding create_session_with_policy_def Let_def by (auto split: prod.splits sum.splits if_splits)

lemma retire_keeps: "se_id r = i \<Longrightarrow> r \<in> set (ss_sessions db) \<Longrightarrow> r \<in> set (ss_sessions (retire_over_cap now u i keep db))"
  by (force simp: retire_over_cap_def put_session_def over_cap_def dest: in_set_dropD)

lemma retire_other [simp]: "ss_sign (retire_over_cap now u i keep db) = ss_sign db" "hashes (retire_over_cap now u i keep db) = hashes db"
  by (auto simp: retire_over_cap_def put_session_def hashes_def revoke_row_def)

subsection \<open>Who a token resolves to\<close>

lemma resolve_unique:
  assumes "distinct (hashes db)" "s \<in> set (ss_sessions db)" "sr_token_hash s = hash_token env token"
  shows "resolve_session env now db token =
    (if session_resolves env now db token s then map_option (\<lambda>u. (session.truncate s, u)) (find_user (ss_sign db) (se_user_id s)) else None)"
proof -
  have inj: "t = s" if "t \<in> set (ss_sessions db)" "session_resolves env now db token t" for t
    using inj_onD[of sr_token_hash "set (ss_sessions db)" t s] assms that by (simp add: session_resolves_def hashes_def distinct_map)
  show ?thesis
  proof (cases "find (session_resolves env now db token) (ss_sessions db)")
    case None
    then have "\<not> session_resolves env now db token s" using assms(2) by (simp add: find_None_iff)
    then show ?thesis using None by (simp add: resolve_session_def)
  next
    case (Some t)
    then have "t \<in> set (ss_sessions db)" "session_resolves env now db token t" by (auto simp: find_Some_iff)
    then have "t = s" "session_resolves env now db token s" using inj by blast+
    then show ?thesis using Some by (simp add: resolve_session_def)
  qed
qed

lemma kept_never_resolves:
  assumes kept: "sessions_kept db db'" and "distinct (hashes db)" and "s \<in> set (ss_sessions db)"
    and "sr_token_hash s = hash_token env token" and "se_revoked_at s \<noteq> None \<or> se_expires_at s \<le> now"
  shows "resolve_session env now db' token = None"
proof -
  have "\<not> session_resolves env now db' token t" if t: "t \<in> set (ss_sessions db')" for t
  proof
    assume r: "session_resolves env now db' token t"
    then have "sr_token_hash t = sr_token_hash s" using assms(4) by (simp add: session_resolves_def)
    then have "row_kept s t" by (rule kept_row[OF kept assms(2,3) t])
    then show False using r assms(5) by (auto simp: row_kept_def session_resolves_def session_live_def)
  qed
  then have "find (session_resolves env now db' token) (ss_sessions db') = None" by (simp add: find_None_iff)
  then show ?thesis by (simp add: resolve_session_def)
qed

text \<open>C17. A session that was revoked or has passed its end never resolves again, whatever sessions are created, started, touched,
  revoked or stepped up after, and whatever becomes of the accounts, policies and devices.\<close>

theorem ended_session_stays_ended:
  assumes "(session_step env)\<^sup>*\<^sup>* db db'" and "distinct (hashes db)" and "s \<in> set (ss_sessions db)"
    and "sr_token_hash s = hash_token env token" and "se_revoked_at s \<noteq> None \<or> se_expires_at s \<le> now"
  shows "resolve_session env now db' token = None"
  using session_path_kept[OF assms(1)] assms(2-) by (rule kept_never_resolves)

text \<open>A stored token resolves exactly when the panel shows its session as live under the idle window of the account's
  organization and the account is active; then it resolves to that session and that account.\<close>

theorem resolves_when_live:
  assumes "distinct (hashes db)" and "s \<in> set (ss_sessions db)" and "sr_token_hash s = hash_token env token"
    and "find_user (ss_sign db) (se_user_id s) = Some u"
  shows "resolve_session env now db token =
    (if state_of (view_of db s u) now (idle_minutes_for_organization db (iu_organization_id u)) = ''live'' \<and> user_is_active u
     then Some (session.truncate s, u) else None)"
proof -
  have idle: "idle_minutes_for_organization db (iu_organization_id u) = idle_minutes_of db (iu_organization_id u)"
    by (simp add: idle_minutes_for_organization_def idle_minutes_of_def split: option.split)
  have "session_resolves env now db token s \<longleftrightarrow>
      state_of (view_of db s u) now (idle_minutes_of db (iu_organization_id u)) = ''live'' \<and> user_is_active u"
    using assms(3,4) by (auto simp: session_resolves_def session_live_def state_of_def view_of_def idle_since_def user_is_active_def split: option.splits)
  then show ?thesis unfolding resolve_unique[OF assms(1-3)] idle assms(4) by simp
qed

lemma filter_but_one: "length (filter P xs) \<le> length (filter (\<lambda>x. P x \<and> \<not> Q x) xs) + length (filter Q xs)"
  by (induction xs) auto

text \<open>C18. After a session is created its account has at most as many live sessions as the policy allows, one at least; the new one
  is among the stored ones, and every session retired for it is no younger than those that stay.\<close>

theorem session_cap:
  assumes "create_session_with_policy env token fresh now u new policy db = (Inr (s, token'), db')"
    and "fresh \<notin> se_id ` set (ss_sessions db)" and "distinct (map se_id (ss_sessions db))"
  shows "length (filter (\<lambda>r. se_user_id r = u \<and> session_live now r) (ss_sessions db')) \<le> nat (max (concurrent_max policy) 1) \<and>
    s \<in> session.truncate ` set (ss_sessions db') \<and> token' = token \<and>
    {(a, b). {a, b} \<subseteq> set (ss_sessions db) \<and> session_live now a \<and> session_live now b \<and> se_user_id a = u \<and>
       a \<in> set (ss_sessions db') \<and> b \<notin> set (ss_sessions db')} \<subseteq> {(a, b). se_created_at b \<le> se_created_at a}"
proof -
  obtain row db1 where c: "insert_session env token fresh now u new policy db = (Inr row, db1)" "s = session.truncate row" "token' = token"
    "db' = retire_over_cap now u (se_id row) (nat (max (concurrent_max policy) 1 - 1)) db1"
    using create_session_Inr[OF assms(1)] by blast
  from c(1) have i: "db1 = db\<lparr>ss_sessions := ss_sessions db @ [row]\<rparr>" "se_id row = fresh"
    by (cases rule: insert_session_cases, simp_all)+
  let ?mine = "\<lambda>r. se_user_id r = u \<and> session_live now r"
  have new: "row \<in> set (ss_sessions db')" unfolding c(4) by (rule retire_keeps) (simp_all add: i)
  have ids: "distinct (map se_id (ss_sessions db1))" using assms(2,3) i by auto
  have same: "map se_id (ss_sessions db') = map se_id (ss_sessions db1)"
    unfolding c(4) by (simp add: retire_over_cap_def put_session_def revoke_row_def)
  have one: "length (filter (\<lambda>r. se_id r = fresh) xs) \<le> 1" if "distinct (map se_id xs)" for xs :: "session_row list"
    using that
  proof (induction xs)
    case (Cons x xs)
    then show ?case by (cases "se_id x = fresh") (auto simp: filter_empty_conv image_iff)
  qed simp
  have "length (filter ?mine (ss_sessions db')) \<le>
      length (filter (\<lambda>r. ?mine r \<and> se_id r \<noteq> fresh) (ss_sessions db')) + length (filter (\<lambda>r. se_id r = fresh) (ss_sessions db'))" (is "_ \<le> ?a + ?b")
    using filter_but_one[of ?mine "ss_sessions db'" "\<lambda>r. se_id r = fresh"] by simp
  moreover have "?b \<le> 1" using one ids same by simp
  moreover have "?a \<le> nat (max (concurrent_max policy) 1 - 1)" unfolding c(4) i(2) using retire_leaves[of u now fresh _ db1] by simp
  ultimately have "length (filter ?mine (ss_sessions db')) \<le> nat (max (concurrent_max policy) 1)" by simp
  moreover have "se_created_at b \<le> se_created_at a" if "a \<in> set (ss_sessions db)" "b \<in> set (ss_sessions db)" "session_live now a" "session_live now b"
    "se_user_id a = u" "a \<in> set (ss_sessions db')" "b \<notin> set (ss_sessions db')" for a b
  proof (rule retire_oldest[OF ids])
    show "a \<in> set (ss_sessions (retire_over_cap now u fresh (nat (max (concurrent_max policy) 1 - 1)) db1))"
      "b \<notin> set (ss_sessions (retire_over_cap now u fresh (nat (max (concurrent_max policy) 1 - 1)) db1))"
      using that(6,7) c(4) i(2) by simp_all
    show "se_id a \<noteq> fresh" using that(1) assms(2) by blast
  qed (use that i in simp_all)
  ultimately show ?thesis using new c(2,3) by auto
qed

text \<open>A new session resolves to its account from the moment it is created until its idle window or its lifetime has passed.\<close>

theorem new_session_resolves:
  assumes "create_session_with_policy env token fresh now u new policy db = (Inr (s, token'), db')" and "distinct (hashes db)"
    and "find_user (ss_sign db) u = Some user" and "user_is_active user" and "now \<le> t"
    and "t < now + seconds (absolute_days policy * 86400)" and "t < now + minutes (idle_minutes_of db (iu_organization_id user))"
  shows "resolve_session env t db' token' = Some (s, user)"
proof -
  obtain row db1 where c: "insert_session env token fresh now u new policy db = (Inr row, db1)" "s = session.truncate row" "token' = token"
    "db' = retire_over_cap now u (se_id row) (nat (max (concurrent_max policy) 1 - 1)) db1"
    using create_session_Inr[OF assms(1)] by blast
  from c(1) have i: "db1 = db\<lparr>ss_sessions := ss_sessions db @ [row]\<rparr>" "sr_token_hash row = hash_token env token" "se_user_id row = u"
      "se_revoked_at row = None" "se_created_at row = now" "se_last_seen_at row = None" "hash_token env token \<notin> set (hashes db)"
      "se_expires_at row = now + seconds (absolute_days policy * 86400)" "se_absolute_expires_at row = Some (se_expires_at row)"
    by (cases rule: insert_session_cases, simp_all)+
  have sign: "ss_sign db' = ss_sign db" unfolding c(4) i(1) by simp
  have "row \<in> set (ss_sessions db')" unfolding c(4) by (rule retire_keeps) (simp_all add: i(1))
  moreover have "hashes db' = hashes db @ [hash_token env token]" unfolding c(4) retire_other(2) using i(1,2) by (simp add: hashes_def)
  then have "distinct (hashes db')" using assms(2) i(7) by simp
  moreover have "session_resolves env t db' token row"
    using assms(3-7) i sign by (simp add: session_resolves_def session_live_def idle_since_def idle_minutes_of_def user_is_active_def)
  ultimately show ?thesis unfolding c(2,3) using resolve_unique[of db' row env token t] i(2,3) assms(3) sign by simp
qed

subsection \<open>A sample session\<close>

definition sample_session_env :: session_env where
  "sample_session_env = \<lparr>sv_hash = id, sv_inet = Some, sv_ilike = (\<lambda>_ _. True)\<rparr>"

definition sample_home :: "unit session_db" where
  "sample_home = \<lparr>ss_sign = sample_sign_db, ss_sessions = [], ss_devices = []\<rparr>"

definition sample_new :: new_session where
  "sample_new = \<lparr>ns_user_agent = None, ns_ip_address = None, ns_device_id = None, ns_auth_methods = []\<rparr>"

definition sample_row :: session_row where
  "sample_row = session_row_of sample_session_env ''t'' 1 0 3 sample_new default_session_policy"

definition sample_opened :: "unit session_db" where
  "sample_opened = sample_home\<lparr>ss_sessions := [sample_row]\<rparr>"

definition sample_closed :: "unit session_db" where
  "sample_closed = snd (sign_out_all 5 3 None ''admin_revoke'' sample_opened)"

lemma sample_created: "create_session_with_policy sample_session_env ''t'' 1 0 3 sample_new default_session_policy sample_home =
    (Inr (session.truncate sample_row, ''t''), sample_opened)"
  by code_simp

theorem ended_session_stays_ended_witness: "resolve_session sample_session_env 9 (touch_session 6 1 sample_closed) ''t'' = None"
proof (rule ended_session_stays_ended[where s = "hd (ss_sessions sample_closed)"])
  show "(session_step sample_session_env)\<^sup>*\<^sup>* sample_closed (touch_session 6 1 sample_closed)" by (rule r_into_rtranclp) (rule st_touch)
  show "distinct (hashes sample_closed)" by code_simp
  have "ss_sessions sample_closed \<noteq> []" by code_simp
  then show "hd (ss_sessions sample_closed) \<in> set (ss_sessions sample_closed)" by (rule hd_in_set)
  show "sr_token_hash (hd (ss_sessions sample_closed)) = hash_token sample_session_env ''t''" by code_simp
  show "se_revoked_at (hd (ss_sessions sample_closed)) \<noteq> None \<or> se_expires_at (hd (ss_sessions sample_closed)) \<le> 9" by code_simp
qed

theorem resolves_when_live_witness:
  "resolve_session sample_session_env 9 sample_opened ''t'' =
    (if state_of (view_of sample_opened sample_row sample_user) 9 (idle_minutes_for_organization sample_opened (iu_organization_id sample_user)) = ''live'' \<and>
        user_is_active sample_user
     then Some (session.truncate sample_row, sample_user) else None)"
proof (rule resolves_when_live)
  show "distinct (hashes sample_opened)" by code_simp
  show "sample_row \<in> set (ss_sessions sample_opened)" by (simp add: sample_opened_def)
  show "sr_token_hash sample_row = hash_token sample_session_env ''t''" by code_simp
  show "find_user (ss_sign sample_opened) (se_user_id sample_row) = Some sample_user" by code_simp
qed

theorem session_cap_witness:
  "length (filter (\<lambda>r. se_user_id r = 3 \<and> session_live 0 r) (ss_sessions sample_opened)) \<le> nat (max (concurrent_max default_session_policy) 1) \<and>
    session.truncate sample_row \<in> session.truncate ` set (ss_sessions sample_opened) \<and> ''t'' = ''t'' \<and>
    {(a, b). {a, b} \<subseteq> set (ss_sessions sample_home) \<and> session_live 0 a \<and> session_live 0 b \<and> se_user_id a = 3 \<and>
       a \<in> set (ss_sessions sample_opened) \<and> b \<notin> set (ss_sessions sample_opened)} \<subseteq> {(a, b). se_created_at b \<le> se_created_at a}"
  by (rule session_cap[OF sample_created]) (simp_all add: sample_home_def)

theorem new_session_resolves_witness: "resolve_session sample_session_env 60 sample_opened ''t'' = Some (session.truncate sample_row, sample_user)"
proof (rule new_session_resolves[OF sample_created])
  show "distinct (hashes sample_home)" by code_simp
  show "find_user (ss_sign sample_home) 3 = Some sample_user" by code_simp
  show "user_is_active sample_user" by code_simp
  show "(60 :: instant) < 0 + seconds (absolute_days default_session_policy * 86400)" by code_simp
  show "60 < 0 + minutes (idle_minutes_of sample_home (iu_organization_id sample_user))" by code_simp
qed simp

end
