(* ===== verification/Csrf.thy ===== *)
theory Csrf
  imports Base64Url SessionLaws
begin

text \<open>
  The CSRF check of cookie-authenticated changes: \<open>crates/security/src/csrf.rs\<close>, the cookies of
  \<open>apps/api/src/cookies.rs\<close> and the refusal of \<open>apps/api/src/headers_middleware.rs\<close>. HMAC-SHA256 and the
  printing of a UUID are arguments; header values that are not text are \<open>None\<close>.
\<close>

type_synonym bytes = "8 word list"

subsection \<open>Tokens\<close>

definition CSRF_COOKIE :: string where "CSRF_COOKIE = ''omnion_csrf''"
definition CSRF_TTL_SECONDS :: int where "CSRF_TTL_SECONDS = 8 * 60 * 60"
definition PROTECTED_METHODS :: "string list" where "PROTECTED_METHODS = [''POST'', ''PUT'', ''PATCH'', ''DELETE'']"

definition method_is_protected :: "string \<Rightarrow> bool" where
  "method_is_protected m \<longleftrightarrow> list_ex (\<lambda>p. eq_ignore_ascii_case m p) PROTECTED_METHODS"

definition derive_token :: "(bytes \<Rightarrow> bytes \<Rightarrow> bytes) \<Rightarrow> bytes \<Rightarrow> string \<Rightarrow> string" where
  "derive_token hmac secret session_id = csrf_encode (hmac secret (as_bytes ''omnion.csrf.v1:'' @ as_bytes session_id))"

definition constant_time_eq :: "bytes \<Rightarrow> bytes \<Rightarrow> bool" where
  "constant_time_eq left right \<longleftrightarrow>
     (if length left \<noteq> length right then False
      else fold (\<lambda>(a, b) diff. or diff (xor a b)) (zip left right) 0 = 0)"

definition token_digest :: "(bytes \<Rightarrow> bytes \<Rightarrow> bytes) \<Rightarrow> string \<Rightarrow> bytes" where
  "token_digest hmac t = hmac (as_bytes ''omnion.csrf.compare'') (as_bytes ''omnion.csrf.token:'' @ as_bytes t)"

definition tokens_match :: "(bytes \<Rightarrow> bytes \<Rightarrow> bytes) \<Rightarrow> string \<Rightarrow> string \<Rightarrow> bool" where
  "tokens_match hmac expected presented \<longleftrightarrow> constant_time_eq (token_digest hmac expected) (token_digest hmac presented)"

text \<open>A refusal, or \<open>None\<close> for the branch the code marks unreachable, which panics.\<close>

datatype csrf_refusal = CsrfMissing | CsrfForeign

definition csrf_refuse :: "(bytes \<Rightarrow> bytes \<Rightarrow> bytes) \<Rightarrow> string option \<Rightarrow> string \<Rightarrow> csrf_refusal option" where
  "csrf_refuse hmac presented expected =
     (case presented of
        None \<Rightarrow> Some CsrfMissing
      | Some t \<Rightarrow> if tokens_match hmac expected t then None else Some CsrfForeign)"

definition csrf_verify :: "(bytes \<Rightarrow> bytes \<Rightarrow> bytes) \<Rightarrow> string \<Rightarrow> string option \<Rightarrow> (csrf_refusal + unit) option" where
  "csrf_verify hmac expected presented =
     (if (case presented of None \<Rightarrow> False | Some t \<Rightarrow> tokens_match hmac expected t) then Some (Inr ())
      else map_option Inl (csrf_refuse hmac presented expected))"

definition token_cookie :: "string \<Rightarrow> int \<Rightarrow> bool \<Rightarrow> string" where
  "token_cookie token max_age secure =
     CSRF_COOKIE @ ''='' @ token @ ''; Path=/; SameSite=Strict; Max-Age='' @ show_int max_age @ (if secure then ''; Secure'' else [])"

definition cleared_cookie :: "bool \<Rightarrow> string" where
  "cleared_cookie secure = CSRF_COOKIE @ ''=; Path=/; SameSite=Strict; Max-Age=0'' @ (if secure then ''; Secure'' else [])"

definition not_empty :: "string option \<Rightarrow> string option" where
  "not_empty v = (case v of Some [] \<Rightarrow> None | _ \<Rightarrow> v)"

definition cookie_pairs :: "string \<Rightarrow> (string \<times> string) list" where
  "cookie_pairs raw = List.map_filter (split_once CHR ''='') (split_on CHR '';'' raw)"

definition presented_token :: "string option \<Rightarrow> string option \<Rightarrow> string option" where
  "presented_token cookie_header request_header =
     (case not_empty (map_option trim request_header) of
        Some v \<Rightarrow> Some v
      | None \<Rightarrow>
          (case cookie_header of
             None \<Rightarrow> None
           | Some raw \<Rightarrow> not_empty (map_option (\<lambda>(_, v). trim v) (find (\<lambda>(n, _). trim n = CSRF_COOKIE) (cookie_pairs raw)))))"

subsection \<open>Cookies\<close>

definition SESSION_COOKIE :: string where "SESSION_COOKIE = ''omnion_session''"

record csrf_request =
  rq_method :: string
  rq_cookies :: "string option list"
  rq_csrf :: "string option"
  rq_authorization :: "string option"

definition session_pair :: "string \<Rightarrow> string option" where
  "session_pair pair =
     (case split_once CHR ''='' pair of
        None \<Rightarrow> None
      | Some (name, v) \<Rightarrow> if trim name \<noteq> SESSION_COOKIE then None else not_empty (Some (trim v)))"

definition session_token :: "csrf_request \<Rightarrow> string option" where
  "session_token r =
     (case List.map_filter session_pair (concat (map (split_on CHR '';'') (List.map_filter id (rq_cookies r)))) of
        [] \<Rightarrow> None | v # _ \<Rightarrow> Some v)"

definition session_cookie :: "string \<Rightarrow> int \<Rightarrow> bool \<Rightarrow> string" where
  "session_cookie token max_age secure =
     SESSION_COOKIE @ ''='' @ token @ ''; Path=/; HttpOnly; SameSite=Lax; Max-Age='' @ show_int max_age @ (if secure then ''; Secure'' else [])"

definition cleared_session_cookie :: "bool \<Rightarrow> string" where
  "cleared_session_cookie secure = SESSION_COOKIE @ ''=; Path=/; HttpOnly; SameSite=Lax; Max-Age=0'' @ (if secure then ''; Secure'' else [])"

record csrf_env =
  ce_sessions :: session_env
  ce_hmac :: "bytes \<Rightarrow> bytes \<Rightarrow> bytes"
  ce_secret :: "bytes option"
  ce_uuid_text :: "uuid \<Rightarrow> string"

definition csrf_cookie_for :: "csrf_env \<Rightarrow> uuid \<Rightarrow> bool \<Rightarrow> string option" where
  "csrf_cookie_for env session_id secure =
     map_option (\<lambda>secret. token_cookie (derive_token (ce_hmac env) secret (ce_uuid_text env session_id))
       (min SESSION_TTL_SECONDS CSRF_TTL_SECONDS) secure) (ce_secret env)"

definition signout_cookies :: "bool \<Rightarrow> string list" where
  "signout_cookies secure = [cleared_session_cookie secure, cleared_cookie secure]"

subsection \<open>The refusal\<close>

definition bearer_token :: "csrf_request \<Rightarrow> string option" where
  "bearer_token r =
     Option.bind (rq_authorization r) (\<lambda>v.
     Option.bind (case strip_prefix ''Bearer '' v of Some t \<Rightarrow> Some t | None \<Rightarrow> strip_prefix ''bearer '' v) (\<lambda>t.
       not_empty (Some (trim t))))"

definition first_cookies :: "csrf_request \<Rightarrow> string option" where
  "first_cookies r = (case rq_cookies r of [] \<Rightarrow> None | c # _ \<Rightarrow> c)"

text \<open>The code of the refusal if there is one; the outer \<open>None\<close> is a panic.\<close>

definition refuse_if_needed :: "csrf_env \<Rightarrow> instant \<Rightarrow> 'n session_db \<Rightarrow> csrf_request \<Rightarrow> string option option" where
  "refuse_if_needed env now db r =
     (if \<not> method_is_protected (rq_method r) then Some None
      else if bearer_token r \<noteq> None then Some None
      else (case session_token r of
              None \<Rightarrow> Some None
            | Some token \<Rightarrow>
                (case ce_secret env of
                   None \<Rightarrow> Some (Some ''csrf_unavailable'')
                 | Some secret \<Rightarrow>
                     (case resolve_session (ce_sessions env) now db token of
                        None \<Rightarrow> Some None
                      | Some (s, _) \<Rightarrow>
                          (let expected = derive_token (ce_hmac env) secret (ce_uuid_text env (se_id s));
                               presented = presented_token (first_cookies r) (rq_csrf r)
                           in map_option (\<lambda>v. case v of Inl _ \<Rightarrow> Some ''csrf_failed'' | Inr _ \<Rightarrow> None)
                                (csrf_verify (ce_hmac env) expected presented))))))"

subsection \<open>Bytes\<close>

lemma code_inj: "code a = code b \<Longrightarrow> a = b"
  by (simp add: code_def)

lemma small_word_eq: "m < 256 \<Longrightarrow> n < 256 \<Longrightarrow> (of_nat m :: 8 word) = of_nat n \<longleftrightarrow> m = n"
  by (simp add: word_of_nat_eq_iff take_bit_nat_eq_self)

lemma code_small: "code c < 256"
  by (simp add: code_def)

lemma utf8_char_prefix:
  assumes "utf8_char a @ xs = utf8_char b @ ys"
  shows "a = b \<and> xs = ys"
proof -
  note small = code_small[of a] code_small[of b]
  have half: "code c div 64 < 4" for c using code_small[of c] by (simp add: less_mult_imp_div_less)
  have one: "code c < 128 \<Longrightarrow> code c \<noteq> 192 + code d div 64" for c d by simp
  have "code a = code b \<and> xs = ys"
  proof (cases "code a < 128"; cases "code b < 128")
    assume "code a < 128" "code b < 128"
    then show ?thesis using assms small by (simp add: utf8_char_def small_word_eq)
  next
    assume "code a < 128" "\<not> code b < 128"
    then show ?thesis using assms small half[of b] small_word_eq[of "code a" "192 + code b div 64"] by (simp add: utf8_char_def)
  next
    assume "\<not> code a < 128" "code b < 128"
    then show ?thesis using assms small half[of a] small_word_eq[of "192 + code a div 64" "code b"] by (simp add: utf8_char_def)
  next
    assume "\<not> code a < 128" "\<not> code b < 128"
    then have "code a div 64 = code b div 64" "code a mod 64 = code b mod 64" "xs = ys"
      using assms half[of a] half[of b] small_word_eq[of "192 + code a div 64" "192 + code b div 64"]
        small_word_eq[of "128 + code a mod 64" "128 + code b mod 64"] by (simp_all add: utf8_char_def)
    then show ?thesis by (metis div_mult_mod_eq)
  qed
  then show ?thesis using code_inj by blast
qed

lemma as_bytes_inj: "as_bytes s = as_bytes t \<Longrightarrow> s = t"
proof (induction s arbitrary: t)
  case Nil
  then show ?case by (cases t) (auto simp: as_bytes_def utf8_char_def split: if_splits)
next
  case (Cons a s)
  then obtain b u where t: "t = b # u" by (cases t) (auto simp: as_bytes_def utf8_char_def split: if_splits)
  have "utf8_char a @ as_bytes s = utf8_char b @ as_bytes u" using Cons.prems t by (simp add: as_bytes_def)
  then show ?case using Cons.IH utf8_char_prefix t by blast
qed

lemma or_zero: "or d e = 0 \<longleftrightarrow> d = 0 \<and> e = (0 :: 8 word)"
  by (auto simp: bit_eq_iff bit_simps)

lemma fold_diff: "fold (\<lambda>(a, b) diff. or diff (xor a b)) ps d = (0 :: 8 word) \<longleftrightarrow> d = 0 \<and> (\<forall>(a, b) \<in> set ps. a = b)"
proof (induction ps arbitrary: d)
  case (Cons p ps)
  have "xor (fst p) (snd p) = 0 \<longleftrightarrow> fst p = snd p" by (auto simp: bit_eq_iff bit_simps)
  then have "or d (xor (fst p) (snd p)) = 0 \<longleftrightarrow> d = 0 \<and> fst p = snd p" by (auto simp: or_zero)
  then show ?case using Cons by (simp add: split_def)
qed simp

lemma digests_equal_iff: "constant_time_eq xs ys \<longleftrightarrow> xs = ys"
  unfolding constant_time_eq_def fold_diff by (auto simp: list_eq_iff_nth_eq set_zip)

subsection \<open>Guarantees\<close>

lemma tokens_match_iff:
  assumes "\<forall>k x y. hmac k x = hmac k y \<longrightarrow> x = y"
  shows "tokens_match hmac a b \<longleftrightarrow> a = b"
proof
  assume "tokens_match hmac a b"
  then have "as_bytes ''omnion.csrf.token:'' @ as_bytes a = as_bytes ''omnion.csrf.token:'' @ as_bytes b"
    using assms unfolding tokens_match_def digests_equal_iff token_digest_def by blast
  then show "a = b" using as_bytes_inj by simp
qed (simp add: tokens_match_def digests_equal_iff)

lemma csrf_verify_total: "csrf_verify hmac expected presented =
    Some (case presented of None \<Rightarrow> Inl CsrfMissing | Some t \<Rightarrow> if tokens_match hmac expected t then Inr () else Inl CsrfForeign)"
  by (simp add: csrf_verify_def csrf_refuse_def split: option.split)


definition sample_csrf_env :: csrf_env where
  "sample_csrf_env = \<lparr>ce_sessions = sample_session_env, ce_hmac = (\<lambda>_ x. x), ce_secret = Some [7], ce_uuid_text = (\<lambda>i. replicate i CHR ''a'')\<rparr>"

definition sample_change :: csrf_request where
  "sample_change = \<lparr>rq_method = ''post'', rq_cookies = [Some ''theme=dark; omnion_session=t''], rq_csrf = Some '' b2huby '', rq_authorization = None\<rparr>"


subsection \<open>Where the check and its intent part\<close>

text \<open>The cookie alone presents the token, so nothing has to be echoed; and the cookie is handed out for at most eight hours, at
  sign-in only, while the session it serves lives for as long as the policy says.\<close>

theorem cookie_presents_itself: "presented_token (Some ''omnion_session=t; omnion_csrf=x'') None = Some ''x''"
  by code_simp

theorem csrf_cookie_outlived: "min SESSION_TTL_SECONDS CSRF_TTL_SECONDS = 8 * 60 * 60 \<and> CSRF_TTL_SECONDS < SESSION_TTL_SECONDS"
  by code_simp

end
