(* ===== verification/EventModel.thy ===== *)
theory EventModel
  imports Json "HOL-Library.Word"
begin

text \<open>
  Rows, request shapes, validation and signatures of the event bus (\<open>crates/events/src/model.rs\<close>,
  \<open>error.rs\<close>, \<open>validation.rs\<close>, \<open>signature.rs\<close>, \<open>sender.rs\<close>). Messages of refusals are dropped. The
  URL parser, HMAC-SHA256, the hex codec, the random bytes and the JSON writer are arguments.
\<close>

subsection \<open>Errors\<close>

datatype events_error =
    EvStore
  | EndpointNotFound
  | EndpointNameTaken string
  | InvalidEndpoint
  | InvalidEvent
  | EvClient
  | RedeliveryRefused string
  | InvalidRetention
  | OrganizationNotFound uuid

fun events_error_code :: "events_error \<Rightarrow> string" where
  "events_error_code EvStore = ''internal_error''"
| "events_error_code EndpointNotFound = ''webhook_endpoint_not_found''"
| "events_error_code (EndpointNameTaken _) = ''webhook_name_taken''"
| "events_error_code InvalidEndpoint = ''invalid_webhook_endpoint''"
| "events_error_code InvalidEvent = ''invalid_event''"
| "events_error_code EvClient = ''internal_error''"
| "events_error_code (RedeliveryRefused c) = c"
| "events_error_code InvalidRetention = ''invalid_retention_window''"
| "events_error_code (OrganizationNotFound _) = ''organization_not_found''"

subsection \<open>Rows\<close>

definition DEFAULT_MAX_ATTEMPTS :: int where "DEFAULT_MAX_ATTEMPTS = 5"
definition DEFAULT_EVENT_RETENTION_DAYS :: int where "DEFAULT_EVENT_RETENTION_DAYS = 30"
definition MIN_RETENTION_DAYS :: int where "MIN_RETENTION_DAYS = 1"
definition MAX_RETENTION_DAYS :: int where "MAX_RETENTION_DAYS = 3650"

record 'n bus_event =
  ev_id :: int
  ev_name :: string
  ev_organization_id :: "uuid option"
  ev_site_id :: "uuid option"
  ev_actor_user_id :: "uuid option"
  ev_payload :: "'n json"
  ev_created_at :: instant

record 'n new_event =
  ne_name :: string
  ne_organization_id :: "uuid option"
  ne_site_id :: "uuid option"
  ne_actor_user_id :: "uuid option"
  ne_payload :: "'n json"

definition new_event_named :: "string \<Rightarrow> 'n new_event" where
  "new_event_named name = \<lparr>ne_name = name, ne_organization_id = None, ne_site_id = None, ne_actor_user_id = None, ne_payload = JObject []\<rparr>"

definition event_organization :: "uuid option \<Rightarrow> 'n new_event \<Rightarrow> 'n new_event" where
  "event_organization organization_id n = n\<lparr>ne_organization_id := organization_id\<rparr>"

definition event_site :: "uuid option \<Rightarrow> 'n new_event \<Rightarrow> 'n new_event" where
  "event_site site_id n = n\<lparr>ne_site_id := site_id\<rparr>"

definition event_actor :: "uuid option \<Rightarrow> 'n new_event \<Rightarrow> 'n new_event" where
  "event_actor actor_user_id n = n\<lparr>ne_actor_user_id := actor_user_id\<rparr>"

definition event_payload :: "'n json \<Rightarrow> 'n new_event \<Rightarrow> 'n new_event" where
  "event_payload payload n = n\<lparr>ne_payload := payload\<rparr>"

record webhook_endpoint =
  we_id :: uuid
  we_organization_id :: uuid
  we_name :: string
  we_url :: string
  we_secret :: string
  we_events :: "string list"
  we_enabled :: bool
  we_created_by :: "uuid option"
  we_created_at :: instant
  we_updated_at :: instant

definition endpoint_subscribed_to :: "webhook_endpoint \<Rightarrow> string \<Rightarrow> bool" where
  "endpoint_subscribed_to w name \<longleftrightarrow> list_ex (\<lambda>entry. entry = name) (we_events w)"

record new_endpoint =
  nw_organization_id :: uuid
  nw_name :: string
  nw_url :: string
  nw_secret :: string
  nw_events :: "string list"
  nw_created_by :: "uuid option"

record endpoint_changes =
  ec_name :: "string option"
  ec_url :: "string option"
  ec_events :: "string list option"
  ec_enabled :: "bool option"
  ec_secret :: "string option"

definition changes_is_empty :: "endpoint_changes \<Rightarrow> bool" where
  "changes_is_empty c \<longleftrightarrow> ec_name c = None \<and> ec_url c = None \<and> ec_events c = None \<and> ec_enabled c = None \<and> ec_secret c = None"

datatype delivery_status = DlPending | DlDelivered | DlFailed

definition delivery_str :: "delivery_status \<Rightarrow> string" where
  "delivery_str s = (case s of DlPending \<Rightarrow> ''pending'' | DlDelivered \<Rightarrow> ''delivered'' | DlFailed \<Rightarrow> ''failed'')"

definition delivery_parse :: "string \<Rightarrow> delivery_status option" where
  "delivery_parse raw =
     (if raw = ''pending'' then Some DlPending else if raw = ''delivered'' then Some DlDelivered
      else if raw = ''failed'' then Some DlFailed else None)"

lemma delivery_parse_str [simp]: "delivery_parse (delivery_str s) = Some s"
  by (cases s) (simp_all add: delivery_parse_def delivery_str_def)

lemma delivery_str_inj [simp]: "delivery_str s = delivery_str t \<longleftrightarrow> s = t"
  by (metis delivery_parse_str option.inject)

text \<open>A row of \<open>webhook_deliveries\<close>; the name of its event is joined where it is shown.\<close>

record delivery =
  dl_id :: uuid
  dl_endpoint_id :: uuid
  dl_event_id :: int
  dl_status :: string
  dl_attempts :: int
  dl_max_attempts :: int
  dl_next_attempt_at :: instant
  dl_claimed_at :: "instant option"
  dl_response_status :: "int option"
  dl_error :: "string option"
  dl_delivered_at :: "instant option"
  dl_created_at :: instant
  dl_trigger :: string
  dl_duration_ms :: "int option"
  dl_redeliver_count :: int
  dl_replayed_at :: "instant option"

record 'n delivery_job =
  dj_delivery_id :: uuid
  dj_endpoint_id :: uuid
  dj_endpoint_name :: string
  dj_endpoint_url :: string
  dj_endpoint_secret :: string
  dj_event_id :: int
  dj_event_name :: string
  dj_event_payload :: "'n json"
  dj_organization_id :: "uuid option"
  dj_site_id :: "uuid option"
  dj_actor_user_id :: "uuid option"
  dj_event_created_at :: instant
  dj_attempts :: int
  dj_max_attempts :: int

record retention_report =
  rr_run_id :: uuid
  rr_organization_id :: "uuid option"
  rr_window_days :: int
  rr_cutoff :: instant
  rr_events_deleted :: int
  rr_deliveries_deleted :: int
  rr_finished_at :: instant

record retention_run =
  ru_id :: uuid
  ru_organization_id :: "uuid option"
  ru_started_at :: instant
  ru_finished_at :: "instant option"
  ru_window_days :: int
  ru_cutoff :: instant
  ru_events_deleted :: int
  ru_deliveries_deleted :: int
  ru_error :: "string option"

record retention_status =
  rs_organization_id :: "uuid option"
  rs_window_days :: int
  rs_last_run :: "retention_run option"
  rs_events :: nat
  rs_due :: nat

subsection \<open>Validation\<close>

definition EV_MAX_EVENT_NAME :: nat where "EV_MAX_EVENT_NAME = 96"
definition EV_MAX_EVENT_SEGMENT :: nat where "EV_MAX_EVENT_SEGMENT = 32"
definition MAX_SUBSCRIPTIONS :: nat where "MAX_SUBSCRIPTIONS = 32"
definition MIN_SECRET :: nat where "MIN_SECRET = 16"
definition MAX_SECRET :: nat where "MAX_SECRET = 128"
definition MAX_ENDPOINT_NAME :: nat where "MAX_ENDPOINT_NAME = 64"
definition MAX_URL :: nat where "MAX_URL = 2048"

definition name_char :: "char \<Rightarrow> bool" where
  "name_char c \<longleftrightarrow> is_ascii_lowercase c \<or> is_ascii_digit c \<or> c = CHR ''_''"

definition event_segment_ok :: "string \<Rightarrow> bool" where
  "event_segment_ok segment \<longleftrightarrow>
     (case segment of [] \<Rightarrow> False
      | c # cs \<Rightarrow> is_ascii_lowercase c \<and> list_all name_char cs \<and> str_len segment \<le> EV_MAX_EVENT_SEGMENT)"

definition validate_event_name :: "string \<Rightarrow> events_error + string" where
  "validate_event_name raw =
     (let name = trim raw; segments = split_on CHR ''.'' name in
      if name = [] then Inl InvalidEvent
      else if str_len name > EV_MAX_EVENT_NAME then Inl InvalidEvent
      else if length segments < 2 then Inl InvalidEvent
      else if list_all event_segment_ok segments then Inr name else Inl InvalidEvent)"

definition push_new :: "string list \<Rightarrow> string \<Rightarrow> string list" where
  "push_new names n = (if n \<in> set names then names else names @ [n])"

definition validate_subscriptions :: "string list \<Rightarrow> events_error + string list" where
  "validate_subscriptions raw =
     (if raw = [] then Inl InvalidEndpoint
      else if length raw > MAX_SUBSCRIPTIONS then Inl InvalidEndpoint
      else res_bind (collect_results (map validate_event_name raw)) (\<lambda>names. Inr (sort (foldl push_new [] names))))"

definition is_control :: "char \<Rightarrow> bool" where
  "is_control c \<longleftrightarrow> code c < 32 \<or> 127 \<le> code c \<and> code c < 160"

definition validate_endpoint_name :: "string \<Rightarrow> events_error + string" where
  "validate_endpoint_name raw =
     (let name = trim raw in
      if name = [] then Inl InvalidEndpoint
      else if length name > MAX_ENDPOINT_NAME then Inl InvalidEndpoint
      else if list_ex is_control name then Inl InvalidEndpoint else Inr name)"

record parsed_url =
  pu_scheme :: string
  pu_host :: "string option"
  pu_text :: string

definition validate_url :: "(string \<Rightarrow> parsed_url option) \<Rightarrow> string \<Rightarrow> events_error + string" where
  "validate_url parse_url raw =
     (let url = trim raw in
      if str_len url > MAX_URL then Inl InvalidEndpoint
      else if list_ex is_whitespace url then Inl InvalidEndpoint
      else (case parse_url url of
              None \<Rightarrow> Inl InvalidEndpoint
            | Some p \<Rightarrow>
                if pu_scheme p = ''http'' \<or> pu_scheme p = ''https''
                then (if pu_host p = None \<or> pu_host p = Some [] then Inl InvalidEndpoint else Inr (pu_text p))
                else Inl InvalidEndpoint))"

definition validate_secret :: "string \<Rightarrow> events_error + string" where
  "validate_secret raw =
     (let secret = trim raw in
      if str_len secret < MIN_SECRET then Inl InvalidEndpoint
      else if str_len secret > MAX_SECRET then Inl InvalidEndpoint else Inr secret)"

type_synonym bytes = "8 word list"

definition generate_secret :: "(bytes \<Rightarrow> string) \<Rightarrow> bytes \<Rightarrow> string" where
  "generate_secret hex_encode random = hex_encode random"

definition validate_retention_window :: "int \<Rightarrow> events_error + int" where
  "validate_retention_window days =
     (if \<not> (MIN_RETENTION_DAYS \<le> days \<and> days \<le> MAX_RETENTION_DAYS) then Inl InvalidRetention else Inr days)"

subsection \<open>Signatures\<close>

definition SIGNATURE_VERSION :: string where "SIGNATURE_VERSION = ''v1''"

definition ascii_bytes :: "string \<Rightarrow> bytes" where
  "ascii_bytes s = map (\<lambda>c. word_of_nat (code c)) s"

definition signed_mac :: "(bytes \<Rightarrow> bytes \<Rightarrow> bytes) \<Rightarrow> bytes \<Rightarrow> int \<Rightarrow> bytes \<Rightarrow> bytes" where
  "signed_mac hmac secret timestamp body = hmac secret (ascii_bytes (show_int timestamp) @ ascii_bytes ''.'' @ body)"

definition webhook_sign :: "(bytes \<Rightarrow> bytes \<Rightarrow> bytes) \<Rightarrow> (bytes \<Rightarrow> string) \<Rightarrow> bytes \<Rightarrow> int \<Rightarrow> bytes \<Rightarrow> string" where
  "webhook_sign hmac hex_encode secret timestamp body = hex_encode (signed_mac hmac secret timestamp body)"

definition signature_header :: "(bytes \<Rightarrow> bytes \<Rightarrow> bytes) \<Rightarrow> (bytes \<Rightarrow> string) \<Rightarrow> bytes \<Rightarrow> int \<Rightarrow> bytes \<Rightarrow> string" where
  "signature_header hmac hex_encode secret timestamp body = SIGNATURE_VERSION @ ''='' @ webhook_sign hmac hex_encode secret timestamp body"

definition webhook_verify ::
  "(bytes \<Rightarrow> bytes \<Rightarrow> bytes) \<Rightarrow> (string \<Rightarrow> bytes option) \<Rightarrow> bytes \<Rightarrow> int \<Rightarrow> bytes \<Rightarrow> string \<Rightarrow> bool" where
  "webhook_verify hmac hex_decode secret timestamp body header =
     (case Option.bind (strip_prefix SIGNATURE_VERSION (trim header)) (strip_prefix ''='') of
        None \<Rightarrow> False
      | Some encoded \<Rightarrow> (case hex_decode encoded of None \<Rightarrow> False | Some expected \<Rightarrow> signed_mac hmac secret timestamp body = expected))"

subsection \<open>Sending\<close>

datatype delivery_outcome = Delivered int | DeliveryFailed "int option" string

text \<open>Trimming a message for the delivery row; \<open>ellipsis\<close> stands for the character the code appends,
  which lies beyond the code points of this model.\<close>

definition trim_message :: "string \<Rightarrow> string \<Rightarrow> nat \<Rightarrow> string" where
  "trim_message ellipsis text most =
     (let trimmed = trim (map (\<lambda>c. if is_control c then CHR '' '' else c) text) in
      if length trimmed \<le> most then trimmed else take most trimmed @ ellipsis)"

definition MAX_REPORTED_BODY :: nat where "MAX_REPORTED_BODY = 200"

text \<open>What the HTTP client answered: a status and a body, or that it could not reach the receiver.\<close>

definition delivery_result :: "string \<Rightarrow> string + int \<times> string \<Rightarrow> delivery_outcome" where
  "delivery_result ellipsis response =
     (case response of
        Inr (status, body) \<Rightarrow>
          if 200 \<le> status \<and> status \<le> 299 then Delivered status
          else DeliveryFailed (Some status)
                 (''the receiver answered '' @ show_int status @ '': '' @ trim_message ellipsis body MAX_REPORTED_BODY)
      | Inl reason \<Rightarrow> DeliveryFailed None (''the receiver could not be reached: '' @ reason))"

end
