(* ===== verification/EventCatalogue.thy ===== *)
theory EventCatalogue
  imports EventModel "HOL-Library.List_Lexorder" "HOL-Library.Char_ord"
begin

text \<open>
  The event catalogue (\<open>crates/events/src/catalogue.rs\<close>): the table, its lookups, and the turning of an
  operator's selection into the stored subscription list. The descriptions of the rows, which no
  operation reads, are left out.
\<close>

subsection \<open>The table\<close>

datatype field_kind = FkUuid | FkString | FkInteger | FkBoolean | FkTimestamp | FkJson | FkAny

definition field_kind_str :: "field_kind \<Rightarrow> string" where
  "field_kind_str k = (case k of FkUuid \<Rightarrow> ''uuid'' | FkString \<Rightarrow> ''string'' | FkInteger \<Rightarrow> ''integer'' | FkBoolean \<Rightarrow> ''boolean''
     | FkTimestamp \<Rightarrow> ''timestamp'' | FkJson \<Rightarrow> ''json'' | FkAny \<Rightarrow> ''any'')"

definition field_kind_parse :: "string \<Rightarrow> field_kind" where
  "field_kind_parse raw =
     (if raw = ''uuid'' then FkUuid else if raw = ''string'' then FkString else if raw = ''integer'' then FkInteger
      else if raw = ''boolean'' then FkBoolean else if raw = ''timestamp'' then FkTimestamp
      else if raw = ''json'' then FkJson else FkAny)"

lemma field_kind_roundtrip [simp]: "field_kind_parse (field_kind_str k) = k"
  by (cases k) (simp_all add: field_kind_parse_def field_kind_str_def)

record event_field =
  ef_name :: string
  ef_kind :: field_kind
  ef_required :: bool

datatype event_status = Live | Reserved

definition event_status_str :: "event_status \<Rightarrow> string" where
  "event_status_str s = (case s of Live \<Rightarrow> ''live'' | Reserved \<Rightarrow> ''reserved'')"

definition event_status_parse :: "string \<Rightarrow> event_status" where
  "event_status_parse raw = (if raw = ''reserved'' then Reserved else Live)"

record event_definition =
  ed_name :: string
  ed_area :: string
  ed_status :: event_status
  ed_payload_fields :: "event_field list"

abbreviation event_field :: "string \<Rightarrow> field_kind \<Rightarrow> bool \<Rightarrow> event_field" where
  "event_field name kind required \<equiv> \<lparr>ef_name = name, ef_kind = kind, ef_required = required\<rparr>"

abbreviation event_row :: "string \<Rightarrow> string \<Rightarrow> event_status \<Rightarrow> event_field list \<Rightarrow> event_definition" where
  "event_row name area status payload \<equiv> \<lparr>ed_name = name, ed_area = area, ed_status = status, ed_payload_fields = payload\<rparr>"

definition catalogue_content_events :: "event_definition list" where
  "catalogue_content_events = [
     event_row ''page.created'' ''content'' Live
       [event_field ''page_id'' FkUuid True, event_field ''site_id'' FkUuid True,
        event_field ''slug'' FkString True, event_field ''status'' FkString True],
     event_row ''page.updated'' ''content'' Live
       [event_field ''page_id'' FkUuid True, event_field ''site_id'' FkUuid True,
        event_field ''slug'' FkString True, event_field ''status'' FkString False],
     event_row ''page.published'' ''content'' Live
       [event_field ''page_id'' FkUuid True, event_field ''site_id'' FkUuid True,
        event_field ''slug'' FkString True, event_field ''status'' FkString False,
        event_field ''revision_id'' FkUuid True, event_field ''revision_no'' FkInteger True,
        event_field ''title'' FkString False],
     event_row ''page.unpublished'' ''content'' Reserved
       [event_field ''page_id'' FkUuid True, event_field ''site_id'' FkUuid True,
        event_field ''slug'' FkString True, event_field ''status'' FkString False],
     event_row ''page.deleted'' ''content'' Live
       [event_field ''page_id'' FkUuid True, event_field ''site_id'' FkUuid True,
        event_field ''slug'' FkString True],
     event_row ''page.restored'' ''content'' Live
       [event_field ''page_id'' FkUuid True, event_field ''site_id'' FkUuid True,
        event_field ''slug'' FkString True],
     event_row ''translation.updated'' ''content'' Live
       [event_field ''page_id'' FkUuid True, event_field ''site_id'' FkUuid True,
        event_field ''locale'' FkString True],
     event_row ''translation.published'' ''content'' Reserved
       [event_field ''page_id'' FkUuid True, event_field ''site_id'' FkUuid True,
        event_field ''locale'' FkString True]]"

definition catalogue_media_events :: "event_definition list" where
  "catalogue_media_events = [
     event_row ''media.created'' ''media'' Live
       [event_field ''media_id'' FkUuid True, event_field ''site_id'' FkUuid True,
        event_field ''filename'' FkString True, event_field ''content_type'' FkString False],
     event_row ''media.updated'' ''media'' Live
       [event_field ''media_id'' FkUuid True, event_field ''site_id'' FkUuid False,
        event_field ''filename'' FkString False],
     event_row ''media.deleted'' ''media'' Live
       [event_field ''media_id'' FkUuid True, event_field ''site_id'' FkUuid False],
     event_row ''media.restored'' ''media'' Live
       [event_field ''media_id'' FkUuid True],
     event_row ''media.purged'' ''media'' Live
       [event_field ''media_id'' FkUuid True],
     event_row ''media.version_created'' ''media'' Live
       [event_field ''media_id'' FkUuid True, event_field ''version'' FkInteger True],
     event_row ''media.folder_created'' ''media'' Live
       [event_field ''folder_id'' FkUuid True, event_field ''parent_id'' FkUuid False],
     event_row ''media.folder_moved'' ''media'' Live
       [event_field ''folder_id'' FkUuid True, event_field ''parent_id'' FkUuid False],
     event_row ''media.folder_deleted'' ''media'' Live
       [event_field ''folder_id'' FkUuid True],
     event_row ''media.share_created'' ''media'' Live
       [event_field ''share_id'' FkUuid True, event_field ''media_id'' FkUuid True,
        event_field ''url'' FkString False],
     event_row ''media.share_revoked'' ''media'' Live
       [event_field ''share_id'' FkUuid True, event_field ''media_id'' FkUuid False],
     event_row ''media.scan_flagged'' ''media'' Live
       [event_field ''media_id'' FkUuid True, event_field ''reason'' FkString True],
     event_row ''media.retention_applied'' ''media'' Live
       [event_field ''rule'' FkString True, event_field ''affected'' FkInteger False],
     event_row ''media.duplicate_merged'' ''media'' Live
       [event_field ''kept_media_id'' FkUuid True, event_field ''merged_media_id'' FkUuid True,
        event_field ''affected'' FkInteger False],
     event_row ''media.storage_updated'' ''media'' Live
       [event_field ''driver'' FkString True],
     event_row ''media.preset_created'' ''media'' Live
       [event_field ''preset_id'' FkUuid True, event_field ''name'' FkString True],
     event_row ''media.grant_changed'' ''media'' Live
       [event_field ''media_id'' FkUuid True, event_field ''subject'' FkString True],
     event_row ''media.grant_removed'' ''media'' Live
       [event_field ''media_id'' FkUuid True, event_field ''subject'' FkString True],
     event_row ''media.hold_placed'' ''media'' Live
       [event_field ''media_id'' FkUuid True, event_field ''site_id'' FkUuid True,
        event_field ''filename'' FkString False, event_field ''reason'' FkString True],
     event_row ''media.hold_released'' ''media'' Live
       [event_field ''media_id'' FkUuid True, event_field ''site_id'' FkUuid True,
        event_field ''filename'' FkString False, event_field ''reason'' FkString True]]"

definition catalogue_identity_events :: "event_definition list" where
  "catalogue_identity_events = [
     event_row ''user.created'' ''identity'' Live
       [event_field ''user_id'' FkUuid True, event_field ''email'' FkString False,
        event_field ''role'' FkString False],
     event_row ''user.updated'' ''identity'' Live
       [event_field ''user_id'' FkUuid True, event_field ''email'' FkString False,
        event_field ''role'' FkString False],
     event_row ''user.deleted'' ''identity'' Live
       [event_field ''user_id'' FkUuid True],
     event_row ''iam.mfa_enrolled'' ''identity'' Live
       [event_field ''user_id'' FkUuid True, event_field ''method'' FkString False],
     event_row ''iam.mfa_removed'' ''identity'' Live
       [event_field ''user_id'' FkUuid True, event_field ''method'' FkString False],
     event_row ''iam.session_revoked'' ''identity'' Live
       [event_field ''user_id'' FkUuid True, event_field ''session_id'' FkUuid False],
     event_row ''iam.policy_changed'' ''identity'' Live
       [event_field ''policy'' FkString False, event_field ''action'' FkString True],
     event_row ''iam.binding_created'' ''identity'' Live
       [event_field ''subject'' FkString True, event_field ''role'' FkString True],
     event_row ''iam.user_provisioned'' ''identity'' Live
       [event_field ''user_id'' FkUuid True, event_field ''provider'' FkString True],
     event_row ''iam.provider_connected'' ''identity'' Live
       [event_field ''provider'' FkString True, event_field ''connected'' FkBoolean True],
     event_row ''iam.approval_requested'' ''identity'' Live
       [event_field ''subject'' FkString True, event_field ''permission'' FkString False],
     event_row ''iam.approval_decided'' ''identity'' Live
       [event_field ''subject'' FkString True, event_field ''permission'' FkString False,
        event_field ''approved'' FkBoolean False]]"

definition catalogue_security_events :: "event_definition list" where
  "catalogue_security_events = [
     event_row ''security.scan.completed'' ''security'' Live
       [event_field ''run_id'' FkUuid True, event_field ''checks'' FkInteger True],
     event_row ''security.headers.updated'' ''security'' Live
       [event_field ''csp_mode'' FkString True, event_field ''directives'' FkString False],
     event_row ''security.rate_limits.updated'' ''security'' Live
       [event_field ''scopes'' FkInteger True],
     event_row ''security.lockout.released'' ''security'' Live
       [event_field ''user_id'' FkUuid True],
     event_row ''security.lockout.triggered'' ''security'' Live
       [event_field ''user_id'' FkUuid True, event_field ''attempts'' FkInteger True,
        event_field ''lockout_minutes'' FkInteger False],
     event_row ''security.finding.opened'' ''security'' Live
       [event_field ''finding_id'' FkUuid True, event_field ''severity'' FkString True,
        event_field ''source'' FkString True, event_field ''component'' FkString False,
        event_field ''component_version'' FkString False, event_field ''fixed_in'' FkString False],
     event_row ''security.ip_rule.changed'' ''security'' Live
       [event_field ''action'' FkString True, event_field ''rule_id'' FkUuid True,
        event_field ''kind'' FkString True, event_field ''cidr'' FkString True]]"

definition catalogue_tenancy_events :: "event_definition list" where
  "catalogue_tenancy_events = [
     event_row ''site.created'' ''tenancy'' Live
       [event_field ''site_id'' FkUuid True, event_field ''key'' FkString True,
        event_field ''name'' FkString False],
     event_row ''site.updated'' ''tenancy'' Live
       [event_field ''site_id'' FkUuid True, event_field ''name'' FkString False],
     event_row ''site.archived'' ''tenancy'' Live
       [event_field ''site_id'' FkUuid True],
     event_row ''domain.added'' ''tenancy'' Live
       [event_field ''domain_id'' FkUuid True, event_field ''site_id'' FkUuid True,
        event_field ''hostname'' FkString True],
     event_row ''domain.verified'' ''tenancy'' Reserved
       [event_field ''domain_id'' FkUuid True, event_field ''site_id'' FkUuid True,
        event_field ''hostname'' FkString True],
     event_row ''domain.removed'' ''tenancy'' Live
       [event_field ''domain_id'' FkUuid True, event_field ''site_id'' FkUuid False,
        event_field ''hostname'' FkString False]]"

definition catalogue_plugins_events :: "event_definition list" where
  "catalogue_plugins_events = [
     event_row ''plugin.installed'' ''plugins'' Reserved
       [event_field ''plugin'' FkString True, event_field ''version'' FkString False],
     event_row ''plugin.activated'' ''plugins'' Reserved
       [event_field ''plugin'' FkString True],
     event_row ''plugin.deactivated'' ''plugins'' Reserved
       [event_field ''plugin'' FkString True],
     event_row ''plugin.uninstalled'' ''plugins'' Reserved
       [event_field ''plugin'' FkString True],
     event_row ''theme.activated'' ''themes'' Live
       [event_field ''theme'' FkString True, event_field ''site_id'' FkUuid False],
     event_row ''workflow.run.started'' ''workflows'' Reserved
       [event_field ''workflow_id'' FkUuid True, event_field ''run_id'' FkUuid True,
        event_field ''site_id'' FkUuid False],
     event_row ''workflow.run.completed'' ''workflows'' Reserved
       [event_field ''workflow_id'' FkUuid True, event_field ''run_id'' FkUuid True,
        event_field ''duration_ms'' FkInteger False],
     event_row ''workflow.run.failed'' ''workflows'' Reserved
       [event_field ''workflow_id'' FkUuid True, event_field ''run_id'' FkUuid True,
        event_field ''error'' FkString False]]"

definition catalogue_webhooks_events :: "event_definition list" where
  "catalogue_webhooks_events = [
     event_row ''webhook.endpoint.created'' ''webhooks'' Live
       [event_field ''endpoint_id'' FkUuid True, event_field ''endpoint_name'' FkString True,
        event_field ''url'' FkString False],
     event_row ''webhook.endpoint.updated'' ''webhooks'' Live
       [event_field ''endpoint_id'' FkUuid True, event_field ''endpoint_name'' FkString True],
     event_row ''webhook.endpoint.removed'' ''webhooks'' Live
       [event_field ''endpoint_id'' FkUuid True, event_field ''endpoint_name'' FkString True],
     event_row ''webhook.endpoint.tested'' ''webhooks'' Live
       [event_field ''endpoint_id'' FkUuid True, event_field ''event_id'' FkInteger False],
     event_row ''webhook.secret.rotated'' ''webhooks'' Live
       [event_field ''endpoint_id'' FkUuid True, event_field ''endpoint_name'' FkString True],
     event_row ''webhook.test'' ''webhooks'' Live
       [event_field ''endpoint_id'' FkUuid True],
     event_row ''webhook.delivery.failed'' ''webhooks'' Live
       [event_field ''delivery_id'' FkUuid True, event_field ''endpoint_id'' FkUuid True,
        event_field ''endpoint_name'' FkString True, event_field ''event_name'' FkString True,
        event_field ''attempts'' FkInteger False, event_field ''response_status'' FkInteger False],
     event_row ''webhook.retention.changed'' ''webhooks'' Live
       [event_field ''previous_window_days'' FkInteger False,
        event_field ''window_days'' FkInteger True],
     event_row ''webhook.retention.swept'' ''webhooks'' Live
       [event_field ''window_days'' FkInteger False, event_field ''events_deleted'' FkInteger False,
        event_field ''deliveries_deleted'' FkInteger False]]"

definition catalogue_analytics_events :: "event_definition list" where
  "catalogue_analytics_events = [
     event_row ''analytics.traffic_spike'' ''analytics'' Live
       [event_field ''site_id'' FkUuid False, event_field ''metric'' FkString False],
     event_row ''analytics.goal_reached'' ''analytics'' Live
       [event_field ''goal_id'' FkUuid False, event_field ''site_id'' FkUuid False],
     event_row ''analytics.retention_purged'' ''analytics'' Live
       [event_field ''rule'' FkString True, event_field ''affected'' FkInteger False],
     event_row ''analytics.erasure_completed'' ''analytics'' Live
       [event_field ''subject'' FkString False],
     event_row ''search.reindexed'' ''search'' Live
       [event_field ''scope'' FkString False, event_field ''indexed'' FkInteger False],
     event_row ''notification.created'' ''notifications'' Live
       [event_field ''notification_id'' FkUuid True, event_field ''channel'' FkString False],
     event_row ''notification.routed'' ''notifications'' Live
       [event_field ''notification_id'' FkUuid False, event_field ''route'' FkString False,
        event_field ''event_name'' FkString False],
     event_row ''notification.preferences.changed'' ''notifications'' Live
       [event_field ''user_id'' FkUuid True, event_field ''field'' FkString False]]"

definition catalogue_health_events :: "event_definition list" where
  "catalogue_health_events = [
     event_row ''health.service.degraded'' ''health'' Live
       [event_field ''service'' FkString True, event_field ''from_state'' FkString True,
        event_field ''to_state'' FkString True, event_field ''message'' FkString False,
        event_field ''incident_id'' FkUuid False, event_field ''suppressed'' FkBoolean False],
     event_row ''health.service.recovered'' ''health'' Live
       [event_field ''service'' FkString True, event_field ''from_state'' FkString True,
        event_field ''to_state'' FkString True, event_field ''duration_seconds'' FkInteger False,
        event_field ''incident_id'' FkUuid False],
     event_row ''health.threshold.breached'' ''health'' Live
       [event_field ''metric'' FkString True, event_field ''value'' FkInteger False,
        event_field ''crit_limit'' FkInteger False, event_field ''window_start'' FkTimestamp False],
     event_row ''health.incident.acknowledged'' ''health'' Live
       [event_field ''incident_id'' FkUuid True, event_field ''service'' FkString True,
        event_field ''actor'' FkUuid True, event_field ''note'' FkString False],
     event_row ''health.checks.completed'' ''health'' Live
       [event_field ''state'' FkString True, event_field ''services'' FkInteger True,
        event_field ''worst_service'' FkString False, event_field ''samples'' FkInteger False]]"

definition catalogue_backups_events :: "event_definition list" where
  "catalogue_backups_events = [
     event_row ''backup.restored'' ''backups'' Live
       [event_field ''backup_id'' FkUuid True, event_field ''parts'' FkInteger False,
        event_field ''objects_restored'' FkInteger False,
        event_field ''objects_failed'' FkInteger False,
        event_field ''safety_backup_id'' FkUuid False],
     event_row ''notification.delivery.succeeded'' ''notifications'' Live
       [event_field ''notification_id'' FkUuid True, event_field ''channel'' FkString True,
        event_field ''test'' FkBoolean True, event_field ''delivered'' FkBoolean False]]"

definition catalogue_commerce_events :: "event_definition list" where
  "catalogue_commerce_events = [
     event_row ''order.created'' ''commerce'' Reserved
       [event_field ''order_id'' FkUuid True, event_field ''site_id'' FkUuid False,
        event_field ''total'' FkString False]]"

definition EVENT_CATALOGUE :: "event_definition list" where
  "EVENT_CATALOGUE =
     catalogue_content_events @ catalogue_media_events @ catalogue_identity_events @
     catalogue_security_events @ catalogue_tenancy_events @ catalogue_plugins_events @
     catalogue_webhooks_events @ catalogue_analytics_events @ catalogue_health_events @
     catalogue_backups_events @ catalogue_commerce_events"

subsection \<open>Lookups\<close>

definition event_group :: "string \<Rightarrow> string" where
  "event_group name = hd (split_on CHR ''.'' name)"

definition required_fields :: "event_definition \<Rightarrow> event_field list" where
  "required_fields d = filter ef_required (ed_payload_fields d)"

definition catalogue_lookup :: "string \<Rightarrow> event_definition option" where
  "catalogue_lookup name = find (\<lambda>d. ed_name d = name) EVENT_CATALOGUE"

definition event_is_known :: "string \<Rightarrow> bool" where
  "event_is_known name \<longleftrightarrow> catalogue_lookup name \<noteq> None"

definition event_areas :: "string list" where
  "event_areas = foldl push_new [] (map ed_area EVENT_CATALOGUE)"

definition in_area :: "string \<Rightarrow> event_definition list" where
  "in_area area = filter (\<lambda>d. ed_area d = area) EVENT_CATALOGUE"

definition group_members :: "string \<Rightarrow> string list" where
  "group_members stem = map ed_name (filter (\<lambda>d. event_group (ed_name d) = stem) EVENT_CATALOGUE)"

definition GROUP_SUFFIX :: string where "GROUP_SUFFIX = ''.*''"

definition strip_suffix :: "string \<Rightarrow> string \<Rightarrow> string option" where
  "strip_suffix p s = (if ends_with s p then Some (take (length s - length p) s) else None)"

definition is_group :: "string \<Rightarrow> bool" where
  "is_group pattern \<longleftrightarrow>
     (case strip_suffix GROUP_SUFFIX pattern of None \<Rightarrow> False | Some g \<Rightarrow> g \<noteq> [] \<and> list_all is_ascii_lowercase g)"

definition group_of :: "string \<Rightarrow> string option" where
  "group_of pattern = (if is_group pattern then strip_suffix GROUP_SUFFIX pattern else None)"

definition validate_group :: "string \<Rightarrow> events_error + unit" where
  "validate_group stem = res_bind (validate_event_name (stem @ ''.probe'')) (\<lambda>_. Inr ())"

definition live_names :: "string list" where
  "live_names = map ed_name (filter (\<lambda>d. ed_status d = Live) EVENT_CATALOGUE)"

subsection \<open>Subscriptions\<close>

text \<open>The loop of \<open>reconcile\<close>; the tree set is a list kept sorted and distinct.\<close>

fun reconcile_all :: "string list \<Rightarrow> string list \<Rightarrow> events_error + string list" where
  "reconcile_all names [] = Inr names"
| "reconcile_all names (raw # rest) =
     (let pattern = trim raw in
      if pattern = [] then Inl InvalidEndpoint
      else (case group_of pattern of
              Some stem \<Rightarrow>
                res_bind (validate_group stem) (\<lambda>_.
                  reconcile_all (fold insort_insert (group_members stem) (insort_insert pattern names)) rest)
            | None \<Rightarrow>
                res_bind (validate_event_name pattern) (\<lambda>name. reconcile_all (insort_insert name names) rest)))"

definition reconcile :: "string list \<Rightarrow> events_error + string list" where
  "reconcile subscriptions =
     (if subscriptions = [] then Inl InvalidEndpoint
      else if length subscriptions > MAX_SUBSCRIPTIONS then Inl InvalidEndpoint
      else reconcile_all [] subscriptions)"

definition subscribed_to :: "string list \<Rightarrow> string \<Rightarrow> bool" where
  "subscribed_to subscriptions event \<longleftrightarrow>
     list_ex (\<lambda>e. e = event) subscriptions \<or> list_ex (\<lambda>e. e = event_group event @ GROUP_SUFFIX) subscriptions"

subsection \<open>What a stored list covers\<close>

definition pattern_names :: "string \<Rightarrow> string set" where
  "pattern_names p = (case group_of p of Some stem \<Rightarrow> insert p (set (group_members stem)) | None \<Rightarrow> {p})"

lemma validate_event_name_Inr: "validate_event_name raw = Inr n \<Longrightarrow> n = trim raw"
  by (simp add: validate_event_name_def Let_def split: if_split_asm)

lemma set_fold_insert: "set (fold insort_insert xs ys) = set xs \<union> set ys"
  by (induction xs arbitrary: ys) (auto simp: set_insort_insert)

lemma sorted_fold_insert: "sorted ys \<and> distinct ys \<Longrightarrow> sorted (fold insort_insert xs ys) \<and> distinct (fold insort_insert xs ys)"
  by (induction xs arbitrary: ys) (simp_all add: sorted_insort_insert distinct_insort_insert)

lemma reconcile_all_names:
  "reconcile_all names subs = Inr r \<Longrightarrow> sorted names \<and> distinct names \<Longrightarrow>
   set r = set names \<union> (\<Union>raw \<in> set subs. pattern_names (trim raw)) \<and> sorted r \<and> distinct r"
proof (induction subs arbitrary: names)
  case (Cons raw subs)
  have ne: "trim raw \<noteq> []" using Cons.prems(1) by (auto simp: Let_def)
  show ?case
  proof (cases "group_of (trim raw)")
    case (Some stem)
    let ?names = "fold insort_insert (group_members stem) (insort_insert (trim raw) names)"
    have step: "reconcile_all ?names subs = Inr r"
      using Cons.prems(1) ne Some by (simp add: Let_def res_bind_Inr_conv)
    have "sorted ?names \<and> distinct ?names"
      using Cons.prems(2) by (intro sorted_fold_insert) (simp add: sorted_insort_insert distinct_insort_insert)
    from Cons.IH[OF step this] show ?thesis
      using Some by (auto simp: set_fold_insert set_insort_insert pattern_names_def)
  next
    case None
    obtain n where n: "validate_event_name (trim raw) = Inr n" "reconcile_all (insort_insert n names) subs = Inr r"
      using Cons.prems(1) ne None by (auto simp: Let_def res_bind_Inr_conv)
    have "n = trim raw" using validate_event_name_Inr[OF n(1)] by simp
    then show ?thesis
      using Cons.IH[OF n(2)] Cons.prems(2) None
      by (auto simp: sorted_insort_insert distinct_insort_insert set_insort_insert pattern_names_def)
  qed
qed simp

lemma reconcile_names:
  assumes "reconcile subs = Inr names"
  shows "set names = (\<Union>raw \<in> set subs. pattern_names (trim raw))" "sorted names" "distinct names"
  using reconcile_all_names[of "[]" subs names] assms by (simp_all add: reconcile_def split: if_split_asm)

lemma group_member_group: "e \<in> set (group_members stem) \<Longrightarrow> event_group e = stem"
  by (auto simp: group_members_def)

lemma group_of_text: "group_of p = Some stem \<Longrightarrow> p = stem @ GROUP_SUFFIX"
  unfolding group_of_def strip_suffix_def ends_with_def
  by (auto split: if_split_asm) (metis append_take_drop_id)

lemma catalogue_has_no_wildcard: "list_all (\<lambda>d. \<not> ends_with (ed_name d) GROUP_SUFFIX) EVENT_CATALOGUE"
  by code_simp

lemma member_no_wildcard: "e \<in> set (group_members stem) \<Longrightarrow> e \<noteq> g @ GROUP_SUFFIX"
  using catalogue_has_no_wildcard by (auto simp: group_members_def list_all_iff ends_with_def)

text \<open>The list stored for a selection is strictly sorted and covers exactly what was selected: an event
  is covered when it, or the wildcard of its group, was typed. The expansion of a wildcard to the names
  of the catalogue adds nothing and loses nothing, whatever names come later.\<close>

theorem reconcile_covers:
  assumes "reconcile subs = Inr names"
  shows "sorted_wrt (<) names \<and>
    (subscribed_to names e \<longleftrightarrow> e \<in> trim ` set subs \<or> event_group e @ GROUP_SUFFIX \<in> trim ` set subs)"
proof -
  note names = reconcile_names[OF assms]
  have "trim raw \<in> set names" if "raw \<in> set subs" for raw
    using that unfolding names(1) pattern_names_def by (auto split: option.split)
  then have typed: "trim ` set subs \<subseteq> set names" by (rule image_subsetI)
  have from_event: "e \<in> trim ` set subs \<or> event_group e @ GROUP_SUFFIX \<in> trim ` set subs" if e: "e \<in> set names"
  proof -
    from e obtain raw where raw: "raw \<in> set subs" "e \<in> pattern_names (trim raw)" unfolding names(1) by auto
    then consider "e = trim raw" | stem where "group_of (trim raw) = Some stem" "e \<in> set (group_members stem)"
      unfolding pattern_names_def by (auto split: option.split_asm)
    then show ?thesis
    proof cases
      case 2
      then have "trim raw = event_group e @ GROUP_SUFFIX" using group_of_text group_member_group by metis
      then show ?thesis using raw(1) by (metis imageI)
    qed (use raw in blast)
  qed
  have from_group: "event_group e @ GROUP_SUFFIX \<in> trim ` set subs" if w: "event_group e @ GROUP_SUFFIX \<in> set names"
  proof -
    from w obtain raw where raw: "raw \<in> set subs" "event_group e @ GROUP_SUFFIX \<in> pattern_names (trim raw)" unfolding names(1) by auto
    then have "event_group e @ GROUP_SUFFIX = trim raw"
      unfolding pattern_names_def using member_no_wildcard by (auto split: option.split_asm)
    then show ?thesis using raw(1) by (metis imageI)
  qed
  have "sorted_wrt (<) names" using names(2,3) by (simp add: strict_sorted_iff)
  moreover have "subscribed_to names e \<longleftrightarrow> e \<in> set names \<or> event_group e @ GROUP_SUFFIX \<in> set names"
    by (auto simp: subscribed_to_def list_ex_iff)
  ultimately show ?thesis using typed from_event from_group by blast
qed

theorem reconcile_covers_witness:
  "sorted_wrt (<) [''media.created'', ''order.*'', ''order.created''] \<and>
   (subscribed_to [''media.created'', ''order.*'', ''order.created''] ''order.paid'' \<longleftrightarrow>
     ''order.paid'' \<in> trim ` set ['' order.*'', ''media.created''] \<or>
     event_group ''order.paid'' @ GROUP_SUFFIX \<in> trim ` set ['' order.*'', ''media.created''])"
proof (rule reconcile_covers)
  show "reconcile ['' order.*'', ''media.created''] = Inr [''media.created'', ''order.*'', ''order.created'']"
    by code_simp
qed

text \<open>Three groups are a legal selection, and their expansion is longer than the column of the endpoint
  accepts: the store refuses it with a database error.\<close>

theorem expansion_exceeds_column:
  "(case reconcile [''media.*'', ''iam.*'', ''page.*''] of Inr names \<Rightarrow> length names = 38 | Inl _ \<Rightarrow> False) \<and> MAX_SUBSCRIPTIONS = 32"
  by code_simp

end
