(* ===== verification/EventStore.thy ===== *)
theory EventStore
  imports EventCatalogue "HOL-Library.Product_Lexorder"
begin

text \<open>
  The bus and its delivery queue (\<open>crates/events/src/store.rs\<close>, \<open>bus.rs\<close>): events, endpoints,
  deliveries and retention runs as tables, one definition per statement, with the constraints of the
  migrations. A transaction that fails leaves the tables as they were. Identifiers the database
  generates are arguments; the statistics and the filtered page of the panel are left out.
\<close>

record 'n bus_db =
  bd_organizations :: "(uuid \<times> int) list"
  bd_events :: "'n bus_event list"
  bd_endpoints :: "webhook_endpoint list"
  bd_deliveries :: "delivery list"
  bd_runs :: "retention_run list"

subsection \<open>Constraints\<close>

definition event_name_allowed :: "string \<Rightarrow> bool" where
  "event_name_allowed name \<longleftrightarrow> length (split_on CHR ''.'' name) \<ge> 2 \<and>
     list_all (\<lambda>s. case s of [] \<Rightarrow> False | c # cs \<Rightarrow> is_ascii_lowercase c \<and> list_all name_char cs) (split_on CHR ''.'' name)"

definition btrim :: "string \<Rightarrow> string" where
  "btrim s = rev (dropWhile (\<lambda>c. c = CHR '' '') (rev (dropWhile (\<lambda>c. c = CHR '' '') s)))"

definition url_allowed :: "string \<Rightarrow> bool" where
  "url_allowed url \<longleftrightarrow> (case strip_prefix ''http://'' url of Some r \<Rightarrow> r \<noteq> [] \<and> list_all (\<lambda>c. \<not> is_whitespace c) r
     | None \<Rightarrow> (case strip_prefix ''https://'' url of Some r \<Rightarrow> r \<noteq> [] \<and> list_all (\<lambda>c. \<not> is_whitespace c) r | None \<Rightarrow> False))"

definition endpoint_allowed :: "webhook_endpoint \<Rightarrow> bool" where
  "endpoint_allowed w \<longleftrightarrow>
     1 \<le> length (btrim (we_name w)) \<and> length (btrim (we_name w)) \<le> 64 \<and> url_allowed (we_url w) \<and>
     16 \<le> length (we_secret w) \<and> length (we_secret w) \<le> 128 \<and> 1 \<le> length (we_events w) \<and> length (we_events w) \<le> 32"

definition endpoint_key :: "webhook_endpoint \<Rightarrow> uuid \<times> string" where
  "endpoint_key w = (we_organization_id w, to_lowercase (we_name w))"

definition delivery_allowed :: "delivery \<Rightarrow> bool" where
  "delivery_allowed d \<longleftrightarrow>
     delivery_parse (dl_status d) \<noteq> None \<and> 0 \<le> dl_attempts d \<and> 1 \<le> dl_max_attempts d \<and> dl_max_attempts d \<le> 10 \<and>
     dl_trigger d \<in> {''event'', ''test'', ''replay''} \<and> (case dl_duration_ms d of None \<Rightarrow> True | Some n \<Rightarrow> 0 \<le> n) \<and>
     0 \<le> dl_redeliver_count d \<and> dl_redeliver_count d \<le> 10"

subsection \<open>Recording\<close>

definition event_row_of :: "instant \<Rightarrow> int \<Rightarrow> 'n new_event \<Rightarrow> 'n bus_event" where
  "event_row_of now i new = \<lparr>ev_id = i, ev_name = ne_name new, ev_organization_id = ne_organization_id new,
     ev_site_id = ne_site_id new, ev_actor_user_id = ne_actor_user_id new, ev_payload = ne_payload new, ev_created_at = now\<rparr>"

definition insert_event :: "instant \<Rightarrow> 'n bus_db \<Rightarrow> int \<Rightarrow> 'n new_event \<Rightarrow> (events_error + 'n bus_event) \<times> 'n bus_db" where
  "insert_event now db i new =
     (if \<not> event_name_allowed (ne_name new) then (Inl EvStore, db)
      else if (case ne_organization_id new of None \<Rightarrow> False | Some org \<Rightarrow> org \<notin> set (map fst (bd_organizations db))) then (Inl EvStore, db)
      else (Inr (event_row_of now i new), db\<lparr>bd_events := bd_events db @ [event_row_of now i new]\<rparr>))"

definition new_delivery :: "instant \<Rightarrow> string \<Rightarrow> int \<Rightarrow> uuid \<Rightarrow> uuid \<Rightarrow> delivery" where
  "new_delivery now trigger event_id i endpoint_id =
     \<lparr>dl_id = i, dl_endpoint_id = endpoint_id, dl_event_id = event_id, dl_status = delivery_str DlPending, dl_attempts = 0,
      dl_max_attempts = DEFAULT_MAX_ATTEMPTS, dl_next_attempt_at = now, dl_claimed_at = None, dl_response_status = None,
      dl_error = None, dl_delivered_at = None, dl_created_at = now, dl_trigger = trigger, dl_duration_ms = None,
      dl_redeliver_count = 0, dl_replayed_at = None\<rparr>"

text \<open>\<open>insert ... select ... on conflict (endpoint_id, event_id) do nothing\<close> for the chosen endpoints.\<close>

definition enqueue :: "instant \<Rightarrow> string \<Rightarrow> (nat \<Rightarrow> uuid) \<Rightarrow> 'n bus_event \<Rightarrow> (webhook_endpoint \<Rightarrow> bool) \<Rightarrow> 'n bus_db \<Rightarrow> nat \<times> 'n bus_db" where
  "enqueue now trigger ids event chosen db =
     (let targets = filter (\<lambda>w. chosen w \<and> (we_id w, ev_id event) \<notin> set (map (\<lambda>d. (dl_endpoint_id d, dl_event_id d)) (bd_deliveries db)))
            (bd_endpoints db);
          rows = map (\<lambda>(k, w). new_delivery now trigger (ev_id event) (ids k) (we_id w)) (enumerate 0 targets)
      in (length rows, db\<lparr>bd_deliveries := bd_deliveries db @ rows\<rparr>))"

definition fanout_target :: "'n bus_event \<Rightarrow> uuid \<Rightarrow> webhook_endpoint \<Rightarrow> bool" where
  "fanout_target event organization_id w \<longleftrightarrow>
     we_enabled w \<and> we_organization_id w = organization_id \<and>
     (ev_name event \<in> set (we_events w) \<or> event_group (ev_name event) @ ''.*'' \<in> set (we_events w))"

definition enqueue_fanout :: "instant \<Rightarrow> (nat \<Rightarrow> uuid) \<Rightarrow> 'n bus_event \<Rightarrow> 'n bus_db \<Rightarrow> nat \<times> 'n bus_db" where
  "enqueue_fanout now ids event db =
     (case ev_organization_id event of
        None \<Rightarrow> (0, db)
      | Some organization_id \<Rightarrow> enqueue now ''event'' ids event (fanout_target event organization_id) db)"

definition enqueue_for_endpoints :: "instant \<Rightarrow> (nat \<Rightarrow> uuid) \<Rightarrow> 'n bus_event \<Rightarrow> uuid list \<Rightarrow> 'n bus_db \<Rightarrow> nat \<times> 'n bus_db" where
  "enqueue_for_endpoints now ids event endpoint_ids db =
     (if endpoint_ids = [] then (0, db) else enqueue now ''test'' ids event (\<lambda>w. we_id w \<in> set endpoint_ids) db)"

record 'n emit_report =
  er_event :: "'n bus_event"
  er_deliveries :: nat

definition prepare_event :: "'n new_event \<Rightarrow> events_error + 'n new_event" where
  "prepare_event new =
     res_bind (validate_event_name (ne_name new)) (\<lambda>name.
       if \<not> is_object (ne_payload new) then Inl InvalidEvent else Inr (new\<lparr>ne_name := name\<rparr>))"

definition emit :: "instant \<Rightarrow> 'n bus_db \<Rightarrow> int \<Rightarrow> (nat \<Rightarrow> uuid) \<Rightarrow> 'n new_event \<Rightarrow> (events_error + 'n emit_report) \<times> 'n bus_db" where
  "emit now db i ids new =
     (case prepare_event new of
        Inl e \<Rightarrow> (Inl e, db)
      | Inr new' \<Rightarrow>
          (case insert_event now db i new' of
             (Inl e, _) \<Rightarrow> (Inl e, db)
           | (Inr event, db1) \<Rightarrow>
               (case enqueue_fanout now ids event db1 of
                  (n, db2) \<Rightarrow> (Inr \<lparr>er_event = event, er_deliveries = n\<rparr>, db2))))"

definition emit_to ::
  "instant \<Rightarrow> 'n bus_db \<Rightarrow> int \<Rightarrow> (nat \<Rightarrow> uuid) \<Rightarrow> 'n new_event \<Rightarrow> uuid list \<Rightarrow> (events_error + 'n emit_report) \<times> 'n bus_db" where
  "emit_to now db i ids new endpoint_ids =
     (case prepare_event new of
        Inl e \<Rightarrow> (Inl e, db)
      | Inr new' \<Rightarrow>
          (case insert_event now db i new' of
             (Inl e, _) \<Rightarrow> (Inl e, db)
           | (Inr event, db1) \<Rightarrow>
               (case enqueue_for_endpoints now ids event endpoint_ids db1 of
                  (n, db2) \<Rightarrow> (Inr \<lparr>er_event = event, er_deliveries = n\<rparr>, db2))))"

subsection \<open>Endpoints\<close>

definition endpoint_of :: "instant \<Rightarrow> uuid \<Rightarrow> new_endpoint \<Rightarrow> webhook_endpoint" where
  "endpoint_of now i new =
     \<lparr>we_id = i, we_organization_id = nw_organization_id new, we_name = nw_name new, we_url = nw_url new,
      we_secret = nw_secret new, we_events = nw_events new, we_enabled = True, we_created_by = nw_created_by new,
      we_created_at = now, we_updated_at = now\<rparr>"

definition insert_endpoint :: "instant \<Rightarrow> 'n bus_db \<Rightarrow> uuid \<Rightarrow> new_endpoint \<Rightarrow> (events_error + webhook_endpoint) \<times> 'n bus_db" where
  "insert_endpoint now db i new =
     (let w = endpoint_of now i new in
      if \<not> endpoint_allowed w then (Inl EvStore, db)
      else if endpoint_key w \<in> set (map endpoint_key (bd_endpoints db)) then (Inl (EndpointNameTaken (nw_name new)), db)
      else if we_organization_id w \<notin> set (map fst (bd_organizations db)) then (Inl EvStore, db)
      else (Inr w, db\<lparr>bd_endpoints := bd_endpoints db @ [w]\<rparr>))"

definition find_endpoint :: "'n bus_db \<Rightarrow> uuid \<Rightarrow> webhook_endpoint option" where
  "find_endpoint db i = find (\<lambda>w. we_id w = i) (bd_endpoints db)"

definition list_endpoints :: "'n bus_db \<Rightarrow> uuid option \<Rightarrow> webhook_endpoint list" where
  "list_endpoints db organization_id =
     sort_key (\<lambda>w. (to_lowercase (we_name w), we_created_at w))
       (filter (\<lambda>w. organization_id = None \<or> Some (we_organization_id w) = organization_id) (bd_endpoints db))"

definition given_or :: "'a option \<Rightarrow> 'a \<Rightarrow> 'a" where
  "given_or x y = (case x of Some v \<Rightarrow> v | None \<Rightarrow> y)"

definition changed_endpoint :: "instant \<Rightarrow> endpoint_changes \<Rightarrow> webhook_endpoint \<Rightarrow> webhook_endpoint" where
  "changed_endpoint now c w =
     w\<lparr>we_name := given_or (ec_name c) (we_name w), we_url := given_or (ec_url c) (we_url w),
       we_events := given_or (ec_events c) (we_events w), we_enabled := given_or (ec_enabled c) (we_enabled w),
       we_secret := given_or (ec_secret c) (we_secret w), we_updated_at := now\<rparr>"

definition update_endpoint ::
  "instant \<Rightarrow> 'n bus_db \<Rightarrow> uuid \<Rightarrow> endpoint_changes \<Rightarrow> (events_error + webhook_endpoint option) \<times> 'n bus_db" where
  "update_endpoint now db i c =
     (case find_endpoint db i of
        None \<Rightarrow> (Inr None, db)
      | Some w \<Rightarrow>
          (let w' = changed_endpoint now c w in
           if \<not> endpoint_allowed w' then (Inl EvStore, db)
           else if endpoint_key w' \<in> set (map endpoint_key (filter (\<lambda>x. we_id x \<noteq> i) (bd_endpoints db)))
             then (Inl (case ec_name c of Some name \<Rightarrow> EndpointNameTaken name | None \<Rightarrow> EvStore), db)
           else (Inr (Some w'), db\<lparr>bd_endpoints := map (\<lambda>x. if we_id x = i then w' else x) (bd_endpoints db)\<rparr>)))"

definition delete_endpoint :: "'n bus_db \<Rightarrow> uuid \<Rightarrow> bool \<times> 'n bus_db" where
  "delete_endpoint db i =
     (find_endpoint db i \<noteq> None,
      db\<lparr>bd_endpoints := filter (\<lambda>w. we_id w \<noteq> i) (bd_endpoints db),
         bd_deliveries := filter (\<lambda>d. dl_endpoint_id d \<noteq> i) (bd_deliveries db)\<rparr>)"

subsection \<open>Redelivery\<close>

datatype redeliver_refusal = Unknown | AlreadyPending | OverCap

definition refusal_code :: "redeliver_refusal \<Rightarrow> string" where
  "refusal_code r = (case r of Unknown \<Rightarrow> ''delivery_not_found'' | AlreadyPending \<Rightarrow> ''delivery_already_pending''
     | OverCap \<Rightarrow> ''redeliver_limit_reached'')"

definition refusal_message :: "redeliver_refusal \<Rightarrow> string" where
  "refusal_message r = (case r of Unknown \<Rightarrow> ''no such delivery on this endpoint''
     | AlreadyPending \<Rightarrow> ''this delivery is already queued for another attempt''
     | OverCap \<Rightarrow> ''this delivery has already been sent again ten times'')"

definition MAX_REDELIVERIES :: int where "MAX_REDELIVERIES = 10"

definition put_delivery :: "(delivery \<Rightarrow> bool) \<Rightarrow> (delivery \<Rightarrow> delivery) \<Rightarrow> 'n bus_db \<Rightarrow> 'n bus_db" where
  "put_delivery P g db = db\<lparr>bd_deliveries := map (\<lambda>d. if P d then g d else d) (bd_deliveries db)\<rparr>"

definition replayed :: "instant \<Rightarrow> delivery \<Rightarrow> delivery" where
  "replayed now d = d\<lparr>dl_status := delivery_str DlPending, dl_attempts := 0, dl_next_attempt_at := now, dl_claimed_at := None,
     dl_response_status := None, dl_error := None, dl_delivered_at := None, dl_duration_ms := None, dl_trigger := ''replay'',
     dl_redeliver_count := dl_redeliver_count d + 1, dl_replayed_at := Some now\<rparr>"

definition on_endpoint :: "uuid \<Rightarrow> uuid \<Rightarrow> delivery \<Rightarrow> bool" where
  "on_endpoint endpoint_id delivery_id d \<longleftrightarrow> dl_id d = delivery_id \<and> dl_endpoint_id d = endpoint_id"

definition replayable :: "uuid \<Rightarrow> uuid \<Rightarrow> delivery \<Rightarrow> bool" where
  "replayable endpoint_id delivery_id d \<longleftrightarrow>
     on_endpoint endpoint_id delivery_id d \<and> dl_status d \<noteq> delivery_str DlPending \<and> dl_redeliver_count d < MAX_REDELIVERIES"

definition redeliver :: "instant \<Rightarrow> 'n bus_db \<Rightarrow> uuid \<Rightarrow> uuid \<Rightarrow> (events_error + int) \<times> 'n bus_db" where
  "redeliver now db endpoint_id delivery_id =
     (case find (replayable endpoint_id delivery_id) (bd_deliveries db) of
        Some d \<Rightarrow> (Inr (dl_redeliver_count d + 1), put_delivery (replayable endpoint_id delivery_id) (replayed now) db)
      | None \<Rightarrow>
          (Inl (RedeliveryRefused (refusal_code
             (case find (on_endpoint endpoint_id delivery_id) (bd_deliveries db) of
                None \<Rightarrow> Unknown
              | Some d \<Rightarrow> if dl_status d = delivery_str DlPending then AlreadyPending else OverCap))), db))"

fun redeliver_many :: "instant \<Rightarrow> 'n bus_db \<Rightarrow> uuid \<Rightarrow> uuid list \<Rightarrow> (uuid \<times> (events_error + int)) list \<times> 'n bus_db" where
  "redeliver_many now db endpoint_id [] = ([], db)"
| "redeliver_many now db endpoint_id (i # is) =
     (case redeliver now db endpoint_id i of
        (outcome, db1) \<Rightarrow> (case redeliver_many now db1 endpoint_id is of (outcomes, db2) \<Rightarrow> ((i, outcome) # outcomes, db2)))"

subsection \<open>Reading\<close>

definition list_deliveries :: "'n bus_db \<Rightarrow> uuid \<Rightarrow> nat \<Rightarrow> delivery list" where
  "list_deliveries db endpoint_id limit =
     take limit (rev (sort_key (\<lambda>d. (dl_created_at d, dl_id d)) (filter (\<lambda>d. dl_endpoint_id d = endpoint_id) (bd_deliveries db))))"

record event_filter =
  ff_organization_id :: "uuid option"
  ff_names :: "string list"
  ff_site_id :: "uuid option"
  ff_actor_user_id :: "uuid option"
  ff_from :: "instant option"
  ff_to :: "instant option"
  ff_before :: "int option"
  ff_limit :: nat

record 'n event_page =
  ep_events :: "'n bus_event list"
  ep_has_more :: bool

definition opt_eq :: "'a option \<Rightarrow> 'a option \<Rightarrow> bool" where
  "opt_eq wanted x \<longleftrightarrow> wanted = None \<or> x = wanted"

definition event_passes :: "event_filter \<Rightarrow> 'n bus_event \<Rightarrow> bool" where
  "event_passes f e \<longleftrightarrow>
     opt_eq (ff_organization_id f) (ev_organization_id e) \<and> (ff_names f = [] \<or> ev_name e \<in> set (ff_names f)) \<and>
     opt_eq (ff_site_id f) (ev_site_id e) \<and> opt_eq (ff_actor_user_id f) (ev_actor_user_id e) \<and>
     (case ff_from f of None \<Rightarrow> True | Some t \<Rightarrow> t \<le> ev_created_at e) \<and>
     (case ff_to f of None \<Rightarrow> True | Some t \<Rightarrow> ev_created_at e \<le> t) \<and>
     (case ff_before f of None \<Rightarrow> True | Some i \<Rightarrow> ev_id e < i)"

definition list_events :: "'n bus_db \<Rightarrow> event_filter \<Rightarrow> 'n event_page" where
  "list_events db f =
     (let rows = take (ff_limit f + 1) (sort_key (\<lambda>e. - ev_id e) (filter (event_passes f) (bd_events db)))
      in \<lparr>ep_events = take (ff_limit f) rows, ep_has_more = length rows > ff_limit f\<rparr>)"

subsection \<open>Retention\<close>

definition days :: "int \<Rightarrow> int" where
  "days n = seconds (86400 * n)"

definition retention_window :: "'n bus_db \<Rightarrow> uuid option \<Rightarrow> int" where
  "retention_window db organization_id =
     (case Option.bind organization_id (map_of (bd_organizations db)) of None \<Rightarrow> DEFAULT_EVENT_RETENTION_DAYS | Some d \<Rightarrow> d)"

definition set_retention_window :: "'n bus_db \<Rightarrow> uuid \<Rightarrow> int \<Rightarrow> (events_error + int) \<times> 'n bus_db" where
  "set_retention_window db organization_id d =
     (if organization_id \<notin> set (map fst (bd_organizations db)) then (Inl (OrganizationNotFound organization_id), db)
      else if \<not> (1 \<le> d \<and> d \<le> 3650) then (Inl EvStore, db)
      else (Inr d, db\<lparr>bd_organizations := map (\<lambda>(o1, w). if o1 = organization_id then (o1, d) else (o1, w)) (bd_organizations db)\<rparr>))"

definition owed :: "'n bus_db \<Rightarrow> 'n bus_event \<Rightarrow> bool" where
  "owed db e \<longleftrightarrow> list_ex (\<lambda>d. dl_event_id d = ev_id e \<and> dl_status d = delivery_str DlPending) (bd_deliveries db)"

definition sweepable :: "'n bus_db \<Rightarrow> instant \<Rightarrow> 'n bus_event \<Rightarrow> bool" where
  "sweepable db cutoff e \<longleftrightarrow> ev_created_at e < cutoff \<and> \<not> owed db e"

definition retention_counts :: "instant \<Rightarrow> 'n bus_db \<Rightarrow> uuid option \<Rightarrow> nat \<times> nat" where
  "retention_counts now db organization_id =
     (let events = filter (\<lambda>e. opt_eq organization_id (ev_organization_id e)) (bd_events db);
          cutoff = now - days (retention_window db organization_id)
      in (length events, length (filter (sweepable db cutoff) events)))"

definition finished_runs :: "'n bus_db \<Rightarrow> uuid option \<Rightarrow> retention_run list" where
  "finished_runs db organization_id =
     rev (sort_key ru_started_at (filter (\<lambda>r. ru_organization_id r = organization_id \<and> ru_finished_at r \<noteq> None) (bd_runs db)))"

definition retention_status_of :: "instant \<Rightarrow> 'n bus_db \<Rightarrow> uuid option \<Rightarrow> retention_status" where
  "retention_status_of now db organization_id =
     (case retention_counts now db organization_id of
        (events, due) \<Rightarrow>
          \<lparr>rs_organization_id = organization_id, rs_window_days = retention_window db organization_id,
           rs_last_run = (case finished_runs db organization_id of [] \<Rightarrow> None | r # _ \<Rightarrow> Some r), rs_events = events, rs_due = due\<rparr>)"

definition list_retention_runs :: "'n bus_db \<Rightarrow> uuid option \<Rightarrow> int \<Rightarrow> retention_run list" where
  "list_retention_runs db organization_id limit = take (nat (max 1 (min limit 50))) (finished_runs db organization_id)"

definition organizations_with_events :: "'n bus_db \<Rightarrow> int \<Rightarrow> (uuid option \<times> int) list" where
  "organizations_with_events db batch =
     take (nat (max 1 (min batch 500)))
       (map (\<lambda>o1. (o1, retention_window db o1))
         (sort_key (\<lambda>o1. Min (set (map ev_created_at (filter (\<lambda>e. ev_organization_id e = o1) (bd_events db)))))
           (remdups (map ev_organization_id (bd_events db)))))"

definition swept :: "'n bus_db \<Rightarrow> uuid option \<Rightarrow> instant \<Rightarrow> 'n bus_event \<Rightarrow> bool" where
  "swept db organization_id cutoff e \<longleftrightarrow> ev_organization_id e = organization_id \<and> sweepable db cutoff e"

definition sweep_events :: "instant \<Rightarrow> 'n bus_db \<Rightarrow> uuid \<Rightarrow> uuid option \<Rightarrow> int \<Rightarrow> retention_report \<times> 'n bus_db" where
  "sweep_events now db run_id organization_id window_days =
     (let cutoff = now - days window_days;
          gone = filter (swept db organization_id cutoff) (bd_events db);
          deliveries = filter (\<lambda>d. dl_event_id d \<in> set (map ev_id gone)) (bd_deliveries db);
          run = \<lparr>ru_id = run_id, ru_organization_id = organization_id, ru_started_at = now, ru_finished_at = Some now,
                 ru_window_days = window_days, ru_cutoff = cutoff, ru_events_deleted = min (int (length gone)) (2 ^ 31 - 1),
                 ru_deliveries_deleted = min (int (length deliveries)) (2 ^ 31 - 1), ru_error = None\<rparr>
      in (\<lparr>rr_run_id = run_id, rr_organization_id = organization_id, rr_window_days = window_days, rr_cutoff = cutoff,
           rr_events_deleted = int (length gone), rr_deliveries_deleted = int (length deliveries), rr_finished_at = now\<rparr>,
          db\<lparr>bd_events := filter (\<lambda>e. \<not> swept db organization_id cutoff e) (bd_events db),
             bd_deliveries := filter (\<lambda>d. dl_event_id d \<notin> set (map ev_id gone)) (bd_deliveries db),
             bd_runs := bd_runs db @ [run]\<rparr>))"

definition delivery_counts_since :: "'n bus_db \<Rightarrow> uuid option \<Rightarrow> instant \<Rightarrow> (string \<times> nat) list" where
  "delivery_counts_since db organization_id since =
     (let names = concat (map (\<lambda>d. map ev_name (filter (\<lambda>e. ev_id e = dl_event_id d \<and> opt_eq organization_id (ev_organization_id e)) (bd_events db)))
            (filter (\<lambda>d. since \<le> dl_created_at d) (bd_deliveries db)))
      in map (\<lambda>n. (n, count_list names n)) (remdups names))"

subsection \<open>Claiming and settling\<close>

definition lease_free :: "instant \<Rightarrow> int \<Rightarrow> delivery \<Rightarrow> bool" where
  "lease_free now lease d \<longleftrightarrow> (case dl_claimed_at d of None \<Rightarrow> True | Some t \<Rightarrow> t \<le> now - seconds lease)"

definition endpoint_enabled :: "'n bus_db \<Rightarrow> uuid \<Rightarrow> bool" where
  "endpoint_enabled db i \<longleftrightarrow> list_ex (\<lambda>w. we_id w = i \<and> we_enabled w) (bd_endpoints db)"

definition delivery_due :: "instant \<Rightarrow> 'n bus_db \<Rightarrow> int \<Rightarrow> delivery \<Rightarrow> bool" where
  "delivery_due now db lease d \<longleftrightarrow>
     dl_status d = delivery_str DlPending \<and> endpoint_enabled db (dl_endpoint_id d) \<and> dl_next_attempt_at d \<le> now \<and> lease_free now lease d"

definition claimed_row :: "instant \<Rightarrow> delivery \<Rightarrow> delivery" where
  "claimed_row now d = d\<lparr>dl_attempts := dl_attempts d + 1, dl_claimed_at := Some now\<rparr>"

definition due_deliveries :: "instant \<Rightarrow> 'n bus_db \<Rightarrow> nat \<Rightarrow> int \<Rightarrow> delivery list" where
  "due_deliveries now db batch lease =
     take batch (sort_key (\<lambda>d. (dl_next_attempt_at d, dl_created_at d)) (filter (delivery_due now db lease) (bd_deliveries db)))"

definition job_of :: "'n bus_db \<Rightarrow> delivery \<Rightarrow> 'n delivery_job option" where
  "job_of db d =
     (case (find_endpoint db (dl_endpoint_id d), find (\<lambda>e. ev_id e = dl_event_id d) (bd_events db)) of
        (Some w, Some e) \<Rightarrow>
          Some \<lparr>dj_delivery_id = dl_id d, dj_endpoint_id = dl_endpoint_id d, dj_endpoint_name = we_name w, dj_endpoint_url = we_url w,
            dj_endpoint_secret = we_secret w, dj_event_id = dl_event_id d, dj_event_name = ev_name e, dj_event_payload = ev_payload e,
            dj_organization_id = ev_organization_id e, dj_site_id = ev_site_id e, dj_actor_user_id = ev_actor_user_id e,
            dj_event_created_at = ev_created_at e, dj_attempts = dl_attempts d, dj_max_attempts = dl_max_attempts d\<rparr>
      | _ \<Rightarrow> None)"

definition claim_due :: "instant \<Rightarrow> 'n bus_db \<Rightarrow> nat \<Rightarrow> int \<Rightarrow> 'n delivery_job list \<times> 'n bus_db" where
  "claim_due now db batch lease =
     (let ids = map dl_id (due_deliveries now db batch lease);
          db' = put_delivery (\<lambda>d. dl_id d \<in> set ids) (claimed_row now) db
      in (List.map_filter (job_of db')
            (sort_key (\<lambda>d. (dl_next_attempt_at d, dl_created_at d)) (filter (\<lambda>d. dl_id d \<in> set ids) (bd_deliveries db'))), db'))"

definition cancelled_delivery :: "delivery \<Rightarrow> delivery" where
  "cancelled_delivery d = d\<lparr>dl_status := delivery_str DlFailed, dl_claimed_at := None,
     dl_error := Some ''the endpoint was switched off before the delivery went out''\<rparr>"

definition cancellable :: "instant \<Rightarrow> 'n bus_db \<Rightarrow> int \<Rightarrow> delivery \<Rightarrow> bool" where
  "cancellable now db lease d \<longleftrightarrow>
     list_ex (\<lambda>w. we_id w = dl_endpoint_id d \<and> \<not> we_enabled w) (bd_endpoints db) \<and> dl_status d = delivery_str DlPending \<and>
     lease_free now lease d"

definition cancel_pending_for_disabled :: "instant \<Rightarrow> 'n bus_db \<Rightarrow> int \<Rightarrow> nat \<times> 'n bus_db" where
  "cancel_pending_for_disabled now db lease =
     (length (filter (cancellable now db lease) (bd_deliveries db)), put_delivery (cancellable now db lease) cancelled_delivery db)"

definition mark_delivered :: "instant \<Rightarrow> uuid \<Rightarrow> int option \<Rightarrow> int option \<Rightarrow> 'n bus_db \<Rightarrow> 'n bus_db" where
  "mark_delivered now i response_status duration =
     put_delivery (\<lambda>d. dl_id d = i) (\<lambda>d. d\<lparr>dl_status := delivery_str DlDelivered, dl_delivered_at := Some now,
       dl_response_status := response_status, dl_duration_ms := (if duration = None then dl_duration_ms d else duration),
       dl_error := None, dl_claimed_at := None\<rparr>)"

definition mark_retry :: "uuid \<Rightarrow> int option \<Rightarrow> string \<Rightarrow> instant \<Rightarrow> int option \<Rightarrow> 'n bus_db \<Rightarrow> 'n bus_db" where
  "mark_retry i response_status message next_at duration =
     put_delivery (\<lambda>d. dl_id d = i) (\<lambda>d. d\<lparr>dl_next_attempt_at := next_at, dl_response_status := response_status,
       dl_error := Some message, dl_claimed_at := None,
       dl_duration_ms := (if duration = None then dl_duration_ms d else duration)\<rparr>)"

definition mark_failed :: "uuid \<Rightarrow> int option \<Rightarrow> string \<Rightarrow> int option \<Rightarrow> 'n bus_db \<Rightarrow> 'n bus_db" where
  "mark_failed i response_status message duration =
     put_delivery (\<lambda>d. dl_id d = i) (\<lambda>d. d\<lparr>dl_status := delivery_str DlFailed, dl_response_status := response_status,
       dl_error := Some message, dl_claimed_at := None,
       dl_duration_ms := (if duration = None then dl_duration_ms d else duration)\<rparr>)"

definition delivery_milliseconds :: "int \<Rightarrow> int" where
  "delivery_milliseconds d = (if d < 0 then - ((- d) div 1000000) else d div 1000000)"

definition delivery_retry_delay :: "int \<Rightarrow> int \<Rightarrow> int \<Rightarrow> int" where
  "delivery_retry_delay attempt base most =
     (let shift = nat (max 1 (min attempt 16) - 1); factor = 2 ^ shift; base_ms = max 1 (delivery_milliseconds base);
          cap_ms = max (delivery_milliseconds most) base_ms
      in 1000000 * min (min (base_ms * factor) (2 ^ 63 - 1)) cap_ms)"

end
