(* ===== verification/IpRules.thy ===== *)
theory IpRules
  imports SecurityPolicy EventStore
begin

text \<open>
  The IP access rules: the evaluator (\<open>crates/security/src/ip_rules.rs\<close>), the table (\<open>ip_store.rs\<close>), the
  layer that judges every request (\<open>apps/api/src/security_ip.rs\<close>) and its handlers
  (\<open>apps/api/src/routes/security_ip.rs\<close>). The parsers of addresses, networks and timestamps, the \<open>ipnet\<close>
  crate and PostgreSQL's \<open>cidr\<close> cast are the arguments of \<open>ip_env\<close>; messages are dropped, and so is the metadata of an audit entry.
\<close>

definition MAX_NOTE :: nat where "MAX_NOTE = 200"

datatype rule_kind = Allow | Deny

definition rule_kind_str :: "rule_kind \<Rightarrow> string" where
  "rule_kind_str k = (case k of Allow \<Rightarrow> ''allow'' | Deny \<Rightarrow> ''deny'')"

text \<open>The errors of the store, as \<open>SecurityError\<close> has them.\<close>

datatype ip_error = IpDatabase | IpInvalid

definition parse_rule_kind :: "string \<Rightarrow> ip_error + rule_kind" where
  "parse_rule_kind v = (if v = ''allow'' then Inr Allow else if v = ''deny'' then Inr Deny else Inl IpInvalid)"

record ip_rule =
  ir_id :: uuid
  ir_kind :: rule_kind
  ir_cidr :: string
  ir_note :: string
  ir_created_by :: "uuid option"
  ir_created_at :: instant
  ir_expires_at :: "instant option"

record ip_rule_row =
  iw_id :: uuid
  iw_kind :: string
  iw_cidr :: string
  iw_note :: string
  iw_created_by :: "uuid option"
  iw_created_at :: instant
  iw_expires_at :: "instant option"

record 'net ip_env =
  ie_parse_ip :: "string \<Rightarrow> ip_addr option"
  ie_parse_u8 :: "string \<Rightarrow> nat option"
  ie_network :: "ip_addr \<Rightarrow> nat \<Rightarrow> 'net option"
  ie_trunc :: "'net \<Rightarrow> 'net"
  ie_text :: "'net \<Rightarrow> string"
  ie_parse_network :: "string \<Rightarrow> 'net option"
  ie_contains :: "'net \<Rightarrow> ip_addr \<Rightarrow> bool"
  ie_cidr :: "string \<Rightarrow> string option"
  ie_timestamp :: "string \<Rightarrow> instant option"

subsection \<open>Parsing\<close>

definition is_ipv4 :: "ip_addr \<Rightarrow> bool" where
  "is_ipv4 a = (case a of V4 _ \<Rightarrow> True | V6 _ \<Rightarrow> False)"

definition rule_cidr :: "'net ip_env \<Rightarrow> string \<Rightarrow> ip_error + string" where
  "rule_cidr env raw =
     (let trimmed = trim raw;
          (address_text, prefix_text) = (case split_once CHR ''/'' trimmed of
            Some (a, p) \<Rightarrow> (a, Some p) | None \<Rightarrow> (trimmed, None)) in
      if trimmed = [] then Inl IpInvalid
      else res_bind (ok_or IpInvalid (ie_parse_ip env (trim address_text))) (\<lambda>address.
           let full = (if is_ipv4 address then 32 else 128) in
           res_bind (case prefix_text of None \<Rightarrow> Inr full | Some p \<Rightarrow> ok_or IpInvalid (ie_parse_u8 env (trim p))) (\<lambda>prefix.
           res_bind (ok_or IpInvalid (ie_network env address prefix)) (\<lambda>network.
             if ie_trunc env network \<noteq> network then Inl IpInvalid else Inr (ie_text env network)))))"

definition network_text :: "'net ip_env \<Rightarrow> ip_addr \<Rightarrow> nat \<Rightarrow> ip_error + string" where
  "network_text env address prefix =
     (case ie_network env address prefix of None \<Rightarrow> Inl IpInvalid | Some n \<Rightarrow> Inr (ie_text env (ie_trunc env n)))"

subsection \<open>Evaluation\<close>

record ip_verdict =
  vd_blocked :: bool
  vd_decision :: "rule_kind option"
  vd_matched_rule :: "ip_rule option"
  vd_expired :: "ip_rule option"

definition unconstrained :: ip_verdict where
  "unconstrained = \<lparr>vd_blocked = False, vd_decision = None, vd_matched_rule = None, vd_expired = None\<rparr>"

definition rule_contains :: "'net ip_env \<Rightarrow> string \<Rightarrow> ip_addr \<Rightarrow> bool" where
  "rule_contains env text address = (case ie_parse_network env text of None \<Rightarrow> False | Some n \<Rightarrow> ie_contains env n address)"

definition rule_expired :: "instant \<Rightarrow> ip_rule \<Rightarrow> bool" where
  "rule_expired now r = (case ir_expires_at r of None \<Rightarrow> False | Some t \<Rightarrow> t \<le> now)"

definition or_else :: "'a option \<Rightarrow> 'a option \<Rightarrow> 'a option" where
  "or_else a b = (case a of None \<Rightarrow> b | Some x \<Rightarrow> Some x)"

text \<open>One pass of the loop over the first denying, the first allowing and the first expired denying rule.\<close>

definition weigh_rule ::
  "'net ip_env \<Rightarrow> ip_addr \<Rightarrow> instant \<Rightarrow> ip_rule \<Rightarrow> ip_rule option \<times> ip_rule option \<times> ip_rule option \<Rightarrow>
   ip_rule option \<times> ip_rule option \<times> ip_rule option" where
  "weigh_rule env address now r acc =
     (case acc of (denied, allowed, expired) \<Rightarrow>
        if \<not> rule_contains env (ir_cidr r) address then (denied, allowed, expired)
        else if rule_expired now r then (denied, allowed, or_else expired (if ir_kind r = Deny then Some r else None))
        else (case ir_kind r of
                Deny \<Rightarrow> (or_else denied (Some r), allowed, expired)
              | Allow \<Rightarrow> (denied, or_else allowed (Some r), expired)))"

definition evaluate_rules :: "'net ip_env \<Rightarrow> ip_rule list \<Rightarrow> ip_addr option \<Rightarrow> instant \<Rightarrow> ip_verdict" where
  "evaluate_rules env rules address now =
     (case address of
        None \<Rightarrow> unconstrained
      | Some a \<Rightarrow>
          (case fold (weigh_rule env a now) rules (None, None, None) of
             (Some d, _, expired) \<Rightarrow> \<lparr>vd_blocked = True, vd_decision = Some Deny, vd_matched_rule = Some d, vd_expired = expired\<rparr>
           | (None, Some al, expired) \<Rightarrow> \<lparr>vd_blocked = False, vd_decision = Some Allow, vd_matched_rule = Some al, vd_expired = expired\<rparr>
           | (None, None, expired) \<Rightarrow> unconstrained\<lparr>vd_expired := expired\<rparr>))"

subsection \<open>The table\<close>

record ip_audit =
  ia_actor :: uuid
  ia_action :: string
  ia_organization_id :: "uuid option"
  ia_target :: uuid

text \<open>The table, the accounts it references, the audit trail, the bus, and the rule set of the running process, if its router has
  been built.\<close>

record 'n ip_db =
  id_rules :: "ip_rule_row list"
  id_users :: "uuid list"
  id_audit :: "ip_audit list"
  id_bus :: "'n bus_db"
  id_live :: "ip_rule list option"

definition into_rule :: "ip_rule_row \<Rightarrow> ip_error + ip_rule" where
  "into_rule w = res_bind (parse_rule_kind (iw_kind w)) (\<lambda>k.
     Inr \<lparr>ir_id = iw_id w, ir_kind = k, ir_cidr = iw_cidr w, ir_note = iw_note w, ir_created_by = iw_created_by w,
          ir_created_at = iw_created_at w, ir_expires_at = iw_expires_at w\<rparr>)"

definition newest_first :: "ip_rule_row list \<Rightarrow> ip_rule_row list" where
  "newest_first ws = sort_key (\<lambda>w. - iw_created_at w) (sort_key iw_id ws)"

definition list_ip_rules :: "'n ip_db \<Rightarrow> ip_error + ip_rule list" where
  "list_ip_rules db = collect_results (map into_rule (newest_first (id_rules db)))"

definition IP_MAX_PAGE :: int where "IP_MAX_PAGE = 200"

definition list_rules_of_kind :: "'n ip_db \<Rightarrow> rule_kind \<Rightarrow> int \<Rightarrow> ip_error + ip_rule list" where
  "list_rules_of_kind db k limit =
     collect_results (map into_rule (take (nat (max 1 (min limit IP_MAX_PAGE)))
       (newest_first (filter (\<lambda>w. iw_kind w = rule_kind_str k) (id_rules db)))))"

definition rule_counts :: "'n ip_db \<Rightarrow> nat \<times> nat" where
  "rule_counts db = (length (filter (\<lambda>w. iw_kind w = ''deny'') (id_rules db)), length (filter (\<lambda>w. iw_kind w = ''allow'') (id_rules db)))"

definition find_rule_row :: "'net ip_env \<Rightarrow> 'n ip_db \<Rightarrow> rule_kind \<Rightarrow> string \<Rightarrow> ip_error + ip_rule option" where
  "find_rule_row env db k text =
     (case ie_cidr env text of
        None \<Rightarrow> Inl IpDatabase
      | Some c \<Rightarrow> (case find (\<lambda>w. iw_kind w = rule_kind_str k \<and> iw_cidr w = c) (id_rules db) of
                    None \<Rightarrow> Inr None | Some w \<Rightarrow> res_bind (into_rule w) (\<lambda>r. Inr (Some r))))"

definition find_rule_by_id :: "'n ip_db \<Rightarrow> uuid \<Rightarrow> ip_error + ip_rule option" where
  "find_rule_by_id db i =
     (case find (\<lambda>w. iw_id w = i) (id_rules db) of None \<Rightarrow> Inr None | Some w \<Rightarrow> res_bind (into_rule w) (\<lambda>r. Inr (Some r)))"

text \<open>The constraints of the table: the keys, the kind, the note, the expiry, the account.\<close>

definition rule_row_allowed :: "'n ip_db \<Rightarrow> ip_rule_row \<Rightarrow> bool" where
  "rule_row_allowed db w \<longleftrightarrow>
     \<not> list_ex (\<lambda>x. iw_id x = iw_id w) (id_rules db) \<and> (iw_kind w = ''allow'' \<or> iw_kind w = ''deny'') \<and> list_ex (\<lambda>c. c \<noteq> CHR '' '') (iw_note w) \<and>
     (case iw_expires_at w of None \<Rightarrow> True | Some t \<Rightarrow> t > iw_created_at w) \<and>
     (case iw_created_by w of None \<Rightarrow> True | Some u \<Rightarrow> u \<in> set (id_users db)) \<and>
     \<not> list_ex (\<lambda>x. iw_kind x = iw_kind w \<and> iw_cidr x = iw_cidr w) (id_rules db)"

definition add_ip_rule ::
  "'net ip_env \<Rightarrow> uuid \<Rightarrow> instant \<Rightarrow> rule_kind \<Rightarrow> string \<Rightarrow> string \<Rightarrow> instant option \<Rightarrow> uuid \<Rightarrow> 'n ip_db \<Rightarrow> (ip_error + ip_rule) \<times> 'n ip_db" where
  "add_ip_rule env fresh now k text note expires_at created_by db =
     (case find_rule_row env db k text of
        Inl e \<Rightarrow> (Inl e, db)
      | Inr (Some _) \<Rightarrow> (Inl IpInvalid, db)
      | Inr None \<Rightarrow>
          (case ie_cidr env text of
             None \<Rightarrow> (Inl IpDatabase, db)
           | Some c \<Rightarrow>
               (let w = \<lparr>iw_id = fresh, iw_kind = rule_kind_str k, iw_cidr = c, iw_note = note, iw_created_by = Some created_by,
                         iw_created_at = now, iw_expires_at = expires_at\<rparr>
                in if rule_row_allowed db w then (into_rule w, db\<lparr>id_rules := id_rules db @ [w]\<rparr>) else (Inl IpDatabase, db))))"

definition remove_ip_rule :: "uuid \<Rightarrow> 'n ip_db \<Rightarrow> bool \<times> 'n ip_db" where
  "remove_ip_rule i db = (list_ex (\<lambda>w. iw_id w = i) (id_rules db), db\<lparr>id_rules := filter (\<lambda>w. iw_id w \<noteq> i) (id_rules db)\<rparr>)"

subsection \<open>The layer\<close>

text \<open>What a router built in a process that has no rule set installs.\<close>

definition ensure_installed :: "'n ip_db \<Rightarrow> 'n ip_db" where
  "ensure_installed db = (case id_live db of Some _ \<Rightarrow> db | None \<Rightarrow> db\<lparr>id_live := Some []\<rparr>)"

definition from_store :: "'n ip_db \<Rightarrow> ip_rule list" where
  "from_store db = (case list_ip_rules db of Inl _ \<Rightarrow> [] | Inr rules \<Rightarrow> rules)"

definition reload_from_store :: "'n ip_db \<Rightarrow> bool \<times> 'n ip_db" where
  "reload_from_store db =
     (case list_ip_rules db of
        Inl _ \<Rightarrow> (False, db)
      | Inr rules \<Rightarrow> (case id_live db of None \<Rightarrow> (False, db) | Some _ \<Rightarrow> (True, db\<lparr>id_live := Some rules\<rparr>)))"

definition decide_address :: "'net ip_env \<Rightarrow> bool \<Rightarrow> instant \<Rightarrow> ip_rule list \<Rightarrow> ip_addr option \<Rightarrow> string + unit" where
  "decide_address env unaddressed_allowed now rules address =
     (if rules = [] then Inr ()
      else (case address of
              None \<Rightarrow> if unaddressed_allowed then Inr () else Inl ''ip_unknown''
            | Some a \<Rightarrow> if vd_blocked (evaluate_rules env rules (Some a) now) then Inl ''ip_denied'' else Inr ()))"

text \<open>A request, judged by the rule set of the process.\<close>

definition judge_request :: "'net ip_env \<Rightarrow> bool \<Rightarrow> instant \<Rightarrow> 'n ip_db \<Rightarrow> ip_addr option \<Rightarrow> string + unit" where
  "judge_request env unaddressed_allowed now db address =
     decide_address env unaddressed_allowed now (case id_live db of None \<Rightarrow> [] | Some rules \<Rightarrow> rules) address"

subsection \<open>The handlers\<close>

definition map_ip_error :: "ip_error \<Rightarrow> string" where
  "map_ip_error e = (case e of IpInvalid \<Rightarrow> ''invalid_security_input'' | IpDatabase \<Rightarrow> ''internal_error'')"

definition api_result :: "ip_error + 'a \<Rightarrow> string + 'a" where
  "api_result r = (case r of Inl e \<Rightarrow> Inl (map_ip_error e) | Inr x \<Rightarrow> Inr x)"

record create_rule =
  cr_kind :: string
  cr_cidr :: string
  cr_note :: string
  cr_expires_at :: "string option"

record ip_caller =
  ic_user_id :: uuid
  ic_organization_id :: "uuid option"
  ic_address :: "ip_addr option"

definition get_ip_rules :: "'n ip_db \<Rightarrow> string + ip_rule list \<times> nat \<times> nat" where
  "get_ip_rules db = res_bind (api_result (list_ip_rules db)) (\<lambda>rules. Inr (rules, rule_counts db))"

definition check_rule_form :: "'net ip_env \<Rightarrow> create_rule \<Rightarrow> string + rule_kind \<times> string \<times> string \<times> instant option" where
  "check_rule_form env body =
     res_bind (api_result (parse_rule_kind (trim (cr_kind body)))) (\<lambda>k.
     res_bind (api_result (rule_cidr env (cr_cidr body))) (\<lambda>text.
       let note = trim (cr_note body) in
       if note = [] then Inl ''invalid_security_input''
       else if length note > MAX_NOTE then Inl ''invalid_security_input''
       else res_bind (case map_option trim (cr_expires_at body) of
                        None \<Rightarrow> Inr None
                      | Some raw \<Rightarrow> if raw = [] then Inr None
                          else (case ie_timestamp env raw of None \<Rightarrow> Inl ''invalid_security_input'' | Some t \<Rightarrow> Inr (Some t))) (\<lambda>expires.
         Inr (k, text, note, expires))))"

definition rule_event :: "(uuid \<Rightarrow> string) \<Rightarrow> ip_caller \<Rightarrow> string \<Rightarrow> uuid \<Rightarrow> rule_kind \<Rightarrow> string \<Rightarrow> 'n new_event" where
  "rule_event uuid_text caller action i k text =
     \<lparr>ne_name = ''security.ip_rule.changed'', ne_organization_id = ic_organization_id caller, ne_site_id = None,
      ne_actor_user_id = Some (ic_user_id caller),
      ne_payload = JObject (bt_collect [(''action'', JString action), (''rule_id'', JString (uuid_text i)),
        (''kind'', JString (rule_kind_str k)), (''cidr'', JString text)])\<rparr>"

definition audit_rule :: "ip_caller \<Rightarrow> string \<Rightarrow> uuid \<Rightarrow> 'n ip_db \<Rightarrow> 'n ip_db" where
  "audit_rule caller action i db = db\<lparr>id_audit := id_audit db @ [\<lparr>ia_actor = ic_user_id caller, ia_action = action,
     ia_organization_id = ic_organization_id caller, ia_target = i\<rparr>]\<rparr>"

text \<open>What both handlers do once the row is written: the audit entry, the running rule set, the event, whose failure is logged.\<close>

definition announce_rule ::
  "(uuid \<Rightarrow> string) \<Rightarrow> instant \<Rightarrow> int \<Rightarrow> (nat \<Rightarrow> uuid) \<Rightarrow> ip_caller \<Rightarrow> string \<Rightarrow> uuid \<Rightarrow> rule_kind \<Rightarrow> string \<Rightarrow> 'n ip_db \<Rightarrow> 'n ip_db" where
  "announce_rule uuid_text now event_id delivery_ids caller action i k text db =
     (let db1 = snd (reload_from_store (audit_rule caller (''security.ip_rule.'' @ action) i db)) in
      db1\<lparr>id_bus := snd (emit now (id_bus db1) event_id delivery_ids (rule_event uuid_text caller action i k text))\<rparr>)"

text \<open>The two writes. \<open>audited\<close> says whether the audit entry can be written: the row stays when it cannot, and the handler stops.\<close>

definition post_ip_rule ::
  "bool \<Rightarrow> 'net ip_env \<Rightarrow> (uuid \<Rightarrow> string) \<Rightarrow> uuid \<Rightarrow> instant \<Rightarrow> int \<Rightarrow> (nat \<Rightarrow> uuid) \<Rightarrow> ip_caller \<Rightarrow> create_rule \<Rightarrow> 'n ip_db \<Rightarrow>
   (string + ip_rule \<times> bool) \<times> 'n ip_db" where
  "post_ip_rule audited env uuid_text fresh now event_id delivery_ids caller body db =
     (case check_rule_form env body of
        Inl e \<Rightarrow> (Inl e, db)
      | Inr (k, text, note, expires) \<Rightarrow>
          (case add_ip_rule env fresh now k text note expires (ic_user_id caller) db of
             (Inl e, db1) \<Rightarrow> (Inl (map_ip_error e), db1)
           | (Inr rule, db1) \<Rightarrow>
               (case list_ip_rules db1 of
                  Inl e \<Rightarrow> (Inl (map_ip_error e), db1)
                | Inr rules \<Rightarrow>
                    if \<not> audited then (Inl ''internal_error'', db1)
                    else (Inr (rule, vd_blocked (evaluate_rules env rules (ic_address caller) now)),
                     announce_rule uuid_text now event_id delivery_ids caller ''added'' (ir_id rule) (ir_kind rule) (ir_cidr rule) db1))))"

definition delete_ip_rule ::
  "bool \<Rightarrow> (uuid \<Rightarrow> string) \<Rightarrow> instant \<Rightarrow> int \<Rightarrow> (nat \<Rightarrow> uuid) \<Rightarrow> ip_caller \<Rightarrow> uuid \<Rightarrow> 'n ip_db \<Rightarrow> (string + unit) \<times> 'n ip_db" where
  "delete_ip_rule audited uuid_text now event_id delivery_ids caller i db =
     (case find_rule_by_id db i of
        Inl e \<Rightarrow> (Inl (map_ip_error e), db)
      | Inr None \<Rightarrow> (Inl ''not_found'', db)
      | Inr (Some existing) \<Rightarrow>
          (case remove_ip_rule i db of
             (False, db1) \<Rightarrow> (Inl ''not_found'', db1)
           | (True, db1) \<Rightarrow>
               if \<not> audited then (Inl ''internal_error'', db1)
               else (Inr (), announce_rule uuid_text now event_id delivery_ids caller ''removed'' i (ir_kind existing) (ir_cidr existing) db1)))"

definition test_address :: "'net ip_env \<Rightarrow> instant \<Rightarrow> string \<Rightarrow> 'n ip_db \<Rightarrow> string + ip_verdict" where
  "test_address env now raw db =
     (case ie_parse_ip env (trim raw) of
        None \<Rightarrow> Inl ''invalid_security_input''
      | Some a \<Rightarrow> res_bind (api_result (list_ip_rules db)) (\<lambda>rules. Inr (evaluate_rules env rules (Some a) now)))"

end
