(* ===== verification/IpLaws.thy ===== *)
theory IpLaws
  imports IpRules
begin

text \<open>
  What the IP access rules promise: the verdict as a property of the set of rules, and that a denied
  network is refused from the write that denies it on, as long as the process runs; and what a restart
  does to that.
\<close>

subsection \<open>The verdict\<close>

definition rule_covers :: "'net ip_env \<Rightarrow> ip_addr \<Rightarrow> instant \<Rightarrow> rule_kind \<Rightarrow> bool \<Rightarrow> ip_rule \<Rightarrow> bool" where
  "rule_covers env a now k expired r \<longleftrightarrow> rule_contains env (ir_cidr r) a \<and> ir_kind r = k \<and> rule_expired now r = expired"

lemma or_else_simps [simp]: "or_else None b = b" "or_else (Some x) b = Some x"
  by (simp_all add: or_else_def)

lemma or_else_assoc: "or_else (or_else a b) c = or_else a (or_else b c)"
  by (cases a) simp_all

lemma or_else_find: "or_else (if P x then Some x else None) (find P xs) = find P (x # xs)"
  by simp

lemma weigh_rule_cases: "weigh_rule env a now r (d, al, ex) =
    (or_else d (if rule_covers env a now Deny False r then Some r else None), or_else al (if rule_covers env a now Allow False r then Some r else None),
     or_else ex (if rule_covers env a now Deny True r then Some r else None))"
  by (cases d; cases al; cases ex) (auto simp: weigh_rule_def rule_covers_def or_else_def split: rule_kind.split)

lemma fold_weigh: "fold (weigh_rule env a now) rules (d, al, ex) =
    (or_else d (find (rule_covers env a now Deny False) rules), or_else al (find (rule_covers env a now Allow False) rules),
     or_else ex (find (rule_covers env a now Deny True) rules))"
proof (induction rules arbitrary: d al ex)
  case (Cons r rules)
  show ?case by (simp only: fold.simps comp_def weigh_rule_cases Cons or_else_assoc or_else_find)
qed (simp add: or_else_def split: option.split)

lemma evaluate_rules_find: "evaluate_rules env rules (Some a) now =
    (let expired = find (rule_covers env a now Deny True) rules in
     case find (rule_covers env a now Deny False) rules of
       Some d \<Rightarrow> \<lparr>vd_blocked = True, vd_decision = Some Deny, vd_matched_rule = Some d, vd_expired = expired\<rparr>
     | None \<Rightarrow> (case find (rule_covers env a now Allow False) rules of
         Some al \<Rightarrow> \<lparr>vd_blocked = False, vd_decision = Some Allow, vd_matched_rule = Some al, vd_expired = expired\<rparr>
       | None \<Rightarrow> unconstrained\<lparr>vd_expired := expired\<rparr>))"
  by (simp add: evaluate_rules_def fold_weigh Let_def split: option.split)

lemma blocked_iff: "vd_blocked (evaluate_rules env rules (Some a) now) \<longleftrightarrow> list_ex (rule_covers env a now Deny False) rules"
  by (auto simp: evaluate_rules_find Let_def unconstrained_def find_None_iff list_ex_iff dest: find_Some_mem split: option.split)

subsection \<open>The running rule set\<close>

definition row_kind_ok :: "ip_rule_row \<Rightarrow> bool" where
  "row_kind_ok w \<longleftrightarrow> iw_kind w = ''allow'' \<or> iw_kind w = ''deny''"

definition rows_ok :: "'n ip_db \<Rightarrow> bool" where
  "rows_ok db \<longleftrightarrow> (\<forall>w \<in> set (id_rules db). row_kind_ok w)"

definition rule_of :: "ip_rule_row \<Rightarrow> ip_rule" where
  "rule_of w = \<lparr>ir_id = iw_id w, ir_kind = (if iw_kind w = ''allow'' then Allow else Deny), ir_cidr = iw_cidr w, ir_note = iw_note w,
     ir_created_by = iw_created_by w, ir_created_at = iw_created_at w, ir_expires_at = iw_expires_at w\<rparr>"

lemma into_rule_ok: "into_rule w = (if row_kind_ok w then Inr (rule_of w) else Inl IpInvalid)"
  by (simp add: into_rule_def parse_rule_kind_def row_kind_ok_def rule_of_def)

lemma collect_map: "\<forall>x \<in> set xs. f x = Inr (g x) \<Longrightarrow> collect_results (map f xs) = Inr (map g xs)"
  by (induction xs) simp_all

lemma collect_map_Inl: "x \<in> set xs \<Longrightarrow> f x = Inl e \<Longrightarrow> \<exists>e'. collect_results (map f xs) = Inl e'"
proof (induction xs)
  case (Cons y ys)
  then show ?case by (cases "f y") auto
qed simp

lemma newest_first_set [simp]: "set (newest_first ws) = set ws"
  by (simp add: newest_first_def)

lemma list_rules_ok: "rows_ok db \<longleftrightarrow> (\<exists>rules. list_ip_rules db = Inr rules)"
proof
  assume "rows_ok db"
  then show "\<exists>rules. list_ip_rules db = Inr rules"
    using collect_map[of "newest_first (id_rules db)" into_rule rule_of] by (auto simp: list_ip_rules_def rows_ok_def into_rule_ok)
next
  assume ok: "\<exists>rules. list_ip_rules db = Inr rules"
  show "rows_ok db" unfolding rows_ok_def
  proof
    fix w assume w: "w \<in> set (id_rules db)"
    show "row_kind_ok w"
    proof (rule ccontr)
      assume "\<not> row_kind_ok w"
      then have "into_rule w = Inl IpInvalid" by (simp add: into_rule_ok)
      then show False using ok w collect_map_Inl[of w "newest_first (id_rules db)" into_rule IpInvalid] by (auto simp: list_ip_rules_def)
    qed
  qed
qed

definition in_force :: "'n ip_db \<Rightarrow> bool" where
  "in_force db \<longleftrightarrow> rows_ok db \<and> id_live db = Some (map rule_of (newest_first (id_rules db)))"

lemma list_rules_eq: "rows_ok db \<Longrightarrow> list_ip_rules db = Inr (map rule_of (newest_first (id_rules db)))"
  unfolding list_ip_rules_def by (rule collect_map) (simp add: rows_ok_def into_rule_ok)

lemma announce_in_force:
  assumes "rows_ok db" "id_live db \<noteq> None"
  shows "in_force (announce_rule uuid_text now event_id ids caller action i k net db) \<and>
    id_rules (announce_rule uuid_text now event_id ids caller action i k net db) = id_rules db"
proof -
  have r: "list_ip_rules (audit_rule caller action' i db) = Inr (map rule_of (newest_first (id_rules db)))" for action'
    using list_rules_eq[of "audit_rule caller action' i db"] assms(1) by (simp add: audit_rule_def rows_ok_def)
  show ?thesis using assms r
    by (auto simp: announce_rule_def reload_from_store_def in_force_def audit_rule_def rows_ok_def Let_def split: option.splits)
qed

lemma add_ip_rule_cases:
  assumes "add_ip_rule env fresh now k net note expires u db = (r, db')"
  obtains e where "r = Inl e" "db' = db"
  | w where "db' = db\<lparr>id_rules := id_rules db @ [w]\<rparr>" "row_kind_ok w" "r = Inr (rule_of w)"
proof -
  have kind: "row_kind_ok w \<Longrightarrow> into_rule w = Inr (rule_of w)" for w by (simp add: into_rule_ok)
  have allowed: "rule_row_allowed db w \<Longrightarrow> row_kind_ok w" for w by (simp add: rule_row_allowed_def row_kind_ok_def)
  show thesis
  proof (cases "find_rule_row env db k net")
    case (Inl e)
    then show thesis using assms by (intro that(1)[of e]) (auto simp: add_ip_rule_def)
  next
    case (Inr found)
    show thesis
    proof (cases found)
      case (Some x)
      then show thesis using assms Inr by (intro that(1)[of IpInvalid]) (auto simp: add_ip_rule_def)
    next
      case None
      show thesis
      proof (cases "ie_cidr env net")
        case None
        then show thesis using assms Inr \<open>found = None\<close> by (intro that(1)[of IpDatabase]) (auto simp: add_ip_rule_def)
      next
        case (Some c)
        let ?w = "\<lparr>iw_id = fresh, iw_kind = rule_kind_str k, iw_cidr = c, iw_note = note, iw_created_by = Some u, iw_created_at = now, iw_expires_at = expires\<rparr>"
        have a: "add_ip_rule env fresh now k net note expires u db =
            (if rule_row_allowed db ?w then (into_rule ?w, db\<lparr>id_rules := id_rules db @ [?w]\<rparr>) else (Inl IpDatabase, db))"
          using Inr \<open>found = None\<close> Some by (simp add: add_ip_rule_def Let_def)
        show thesis
        proof (cases "rule_row_allowed db ?w")
          case True
          then show thesis using assms a kind[OF allowed[OF True]] allowed[OF True] by (intro that(2)[of ?w]) auto
        next
          case False
          then show thesis using assms a by (intro that(1)[of IpDatabase]) auto
        qed
      qed
    qed
  qed
qed

lemma post_in_force:
  assumes "post_ip_rule True env uuid_text fresh now event_id ids caller body db = (r, db')" "rows_ok db" "id_live db \<noteq> None"
  shows "db' = db \<or> in_force db'"
proof (cases "check_rule_form env body")
  case (Inl e)
  then show ?thesis using assms(1) by (simp add: post_ip_rule_def)
next
  case (Inr form)
  obtain k net nte expires where form: "form = (k, net, nte, expires)" by (cases form)
  obtain q db1 where a: "add_ip_rule env fresh now k net nte expires (ic_user_id caller) db = (q, db1)" by fastforce
  from a show ?thesis
  proof (cases rule: add_ip_rule_cases)
    case (1 e)
    then show ?thesis using assms(1) Inr form a by (simp add: post_ip_rule_def)
  next
    case (2 w)
    have ok: "rows_ok db1" using assms(2) 2(1,2) by (simp add: rows_ok_def)
    have "id_live db1 \<noteq> None" using assms(3) 2(1) by simp
    then show ?thesis using assms(1) Inr form a 2(3) list_rules_eq[OF ok] announce_in_force[OF ok] by (auto simp: post_ip_rule_def)
  qed
qed

lemma delete_in_force:
  assumes "delete_ip_rule True uuid_text now event_id ids caller i db = (r, db')" "rows_ok db" "id_live db \<noteq> None"
  shows "db' = db \<or> in_force db'"
proof (cases "list_ex (\<lambda>w. iw_id w = i) (id_rules db)")
  case True
  have ok: "rows_ok (db\<lparr>id_rules := filter (\<lambda>w. iw_id w \<noteq> i) (id_rules db)\<rparr>)" using assms(2) by (simp add: rows_ok_def)
  show ?thesis using assms announce_in_force[OF ok] True
    by (auto simp: delete_ip_rule_def remove_ip_rule_def split: sum.splits option.splits)
next
  case False
  then have "find (\<lambda>w. iw_id w = i) (id_rules db) = None" by (auto simp: find_None_iff list_ex_iff)
  then show ?thesis using assms(1) by (simp add: delete_ip_rule_def find_rule_by_id_def)
qed

text \<open>What happens to a running process: the two handlers, from any caller, while their audit entries can be written, and changes beside them.\<close>

inductive ip_step :: "'net ip_env \<Rightarrow> 'n ip_db \<Rightarrow> 'n ip_db \<Rightarrow> bool" for env where
  is_post: "ip_step env db (snd (post_ip_rule True env uuid_text fresh now event_id ids caller body db))"
| is_delete: "ip_step env db (snd (delete_ip_rule True uuid_text now event_id ids caller i db))"
| is_users: "ip_step env db (db\<lparr>id_users := us\<rparr>)"
| is_bus: "ip_step env db (db\<lparr>id_bus := b\<rparr>)"

lemma in_force_running: "in_force db \<Longrightarrow> rows_ok db \<and> id_live db \<noteq> None"
  by (simp add: in_force_def)

lemma ip_step_in_force: "ip_step env db db' \<Longrightarrow> in_force db \<Longrightarrow> in_force db'"
proof (induction rule: ip_step.induct)
  case (is_post db uuid_text fresh now event_id ids caller body)
  then show ?case using post_in_force[of env uuid_text fresh now event_id ids caller body db _ "snd (post_ip_rule True env uuid_text fresh now event_id ids caller body db)", OF prod.collapse[symmetric]]
      in_force_running[OF is_post] by auto
next
  case (is_delete db uuid_text now event_id ids caller i)
  then show ?case using delete_in_force[of uuid_text now event_id ids caller i db _ "snd (delete_ip_rule True uuid_text now event_id ids caller i db)", OF prod.collapse[symmetric]]
      in_force_running[OF is_delete] by auto
qed (simp_all add: in_force_def rows_ok_def)

lemma ip_path_in_force: "(ip_step env)\<^sup>*\<^sup>* db db' \<Longrightarrow> in_force db \<Longrightarrow> in_force db'"
  by (induction rule: rtranclp_induct) (simp_all add: ip_step_in_force)

lemma post_succeeds_in_force:
  assumes "post_ip_rule True env uuid_text fresh now event_id ids caller body db = (Inr x, db')" "rows_ok db" "id_live db \<noteq> None"
  shows "in_force db'"
proof -
  obtain k net nte expires where f: "check_rule_form env body = Inr (k, net, nte, expires)"
    using assms(1) by (cases "check_rule_form env body") (auto simp: post_ip_rule_def)
  obtain q db1 where a: "add_ip_rule env fresh now k net nte expires (ic_user_id caller) db = (q, db1)" by fastforce
  from a show ?thesis
  proof (cases rule: add_ip_rule_cases)
    case (1 e)
    then show ?thesis using assms(1) f a by (simp add: post_ip_rule_def)
  next
    case (2 w)
    have ok: "rows_ok db1" using assms(2) 2(1,2) by (simp add: rows_ok_def)
    have "id_live db1 \<noteq> None" using assms(3) 2(1) by simp
    then show ?thesis using assms(1) f a 2(3) list_rules_eq[OF ok] announce_in_force[OF ok] by (auto simp: post_ip_rule_def)
  qed
qed

subsection \<open>The claims\<close>

text \<open>The verdict is one of the set of rules, not of their order: an address is blocked exactly when an unexpired denying rule
  contains it, whatever the allowing rules say, and a rule that is reported as matching is the first of those of the verdict.\<close>

lemma find_cases: "find P xs = None \<and> \<not> list_ex P xs \<or> (\<exists>x. find P xs = Some x \<and> list_ex P xs \<and> x \<in> set xs \<and> P x)"
  by (induction xs) auto

lemma decision_of_set: "vd_decision (evaluate_rules env rules (Some a) now) =
    (if list_ex (rule_covers env a now Deny False) rules then Some Deny
     else if list_ex (rule_covers env a now Allow False) rules then Some Allow else None)"
  using find_cases[of "rule_covers env a now Deny False" rules] find_cases[of "rule_covers env a now Allow False" rules]
  by (auto simp: evaluate_rules_find Let_def unconstrained_def)

lemma matched_is_first: "vd_matched_rule (evaluate_rules env rules (Some a) now) =
    (case vd_decision (evaluate_rules env rules (Some a) now) of
       None \<Rightarrow> None | Some k \<Rightarrow> find (rule_covers env a now k False) rules)"
  by (simp add: evaluate_rules_find Let_def unconstrained_def split: option.split)

lemma list_ex_set: "set xs = set ys \<Longrightarrow> list_ex P xs = list_ex P ys"
  by (simp add: list_ex_iff)

text \<open>Denying wins and order does not matter: two rule sets with the same rules give an address the same decision, which is to
  block it exactly when one of their unexpired denying rules contains it, and the rule a verdict names is the first one of its
  kind that contains the address and has not expired.\<close>

theorem verdict_of_rule_set:
  assumes "set rules = set rules'"
  shows "vd_decision (evaluate_rules env rules (Some a) now) = vd_decision (evaluate_rules env rules' (Some a) now) \<and>
    (vd_blocked (evaluate_rules env rules (Some a) now) \<longleftrightarrow>
       list_ex (\<lambda>r. ir_kind r = Deny \<and> rule_contains env (ir_cidr r) a \<and> \<not> rule_expired now r) rules') \<and>
    vd_matched_rule (evaluate_rules env rules (Some a) now) =
      (case vd_decision (evaluate_rules env rules' (Some a) now) of
         None \<Rightarrow> None
       | Some k \<Rightarrow> find (\<lambda>r. rule_contains env (ir_cidr r) a \<and> ir_kind r = k \<and> rule_expired now r = False) rules)"
proof (intro conjI)
  show same: "vd_decision (evaluate_rules env rules (Some a) now) = vd_decision (evaluate_rules env rules' (Some a) now)"
    by (simp add: decision_of_set list_ex_set[OF assms])
  show "vd_blocked (evaluate_rules env rules (Some a) now) \<longleftrightarrow>
      list_ex (\<lambda>r. ir_kind r = Deny \<and> rule_contains env (ir_cidr r) a \<and> \<not> rule_expired now r) rules'"
    unfolding blocked_iff list_ex_set[OF assms] by (auto simp: list_ex_iff rule_covers_def)
  show "vd_matched_rule (evaluate_rules env rules (Some a) now) =
      (case vd_decision (evaluate_rules env rules' (Some a) now) of
         None \<Rightarrow> None
       | Some k \<Rightarrow> find (\<lambda>r. rule_contains env (ir_cidr r) a \<and> ir_kind r = k \<and> rule_expired now r = False) rules)"
    unfolding matched_is_first same rule_covers_def[abs_def] ..
qed

definition sample_ip_env :: "string ip_env" where
  "sample_ip_env = \<lparr>ie_parse_ip = (\<lambda>s. if s = ''10.0.0.1'' then Some (V4 1) else None),
     ie_parse_u8 = (\<lambda>s. if s = ''8'' then Some 8 else None), ie_network = (\<lambda>a p. if p \<le> 32 then Some ''10.0.0.0/8'' else None),
     ie_trunc = id, ie_text = id, ie_parse_network = Some, ie_contains = (\<lambda>n a. n = ''10.0.0.0/8'' \<and> a = V4 1),
     ie_cidr = Some, ie_timestamp = (\<lambda>_. None)\<rparr>"

definition sample_rule :: "rule_kind \<Rightarrow> instant option \<Rightarrow> ip_rule" where
  "sample_rule k e = \<lparr>ir_id = 1, ir_kind = k, ir_cidr = ''10.0.0.0/8'', ir_note = ''the office'', ir_created_by = None,
     ir_created_at = 0, ir_expires_at = e\<rparr>"

theorem verdict_of_rule_set_witness:
  "vd_decision (evaluate_rules sample_ip_env [sample_rule Allow None, sample_rule Deny None] (Some (V4 1)) 5) = Some Deny"
  using verdict_of_rule_set[of "[sample_rule Allow None, sample_rule Deny None]" "[sample_rule Deny None, sample_rule Allow None]"
      sample_ip_env "V4 1" 5]
  by (auto simp: decision_of_set sample_ip_env_def sample_rule_def rule_covers_def rule_contains_def rule_expired_def)

text \<open>The rows an address is denied by.\<close>

definition row_denies :: "'net ip_env \<Rightarrow> instant \<Rightarrow> ip_addr \<Rightarrow> ip_rule_row \<Rightarrow> bool" where
  "row_denies env now a w \<longleftrightarrow> iw_kind w = ''deny'' \<and> rule_contains env (iw_cidr w) a \<and>
     (case iw_expires_at w of None \<Rightarrow> True | Some t \<Rightarrow> now < t)"

lemma rule_of_covers: "row_kind_ok w \<Longrightarrow> rule_covers env a now Deny False (rule_of w) \<longleftrightarrow> row_denies env now a w"
  by (auto simp: rule_covers_def rule_of_def row_denies_def row_kind_ok_def rule_expired_def split: option.split)

lemma in_force_judges:
  assumes "in_force db"
  shows "judge_request env u now db (Some a) = (if list_ex (row_denies env now a) (id_rules db) then Inl ''ip_denied'' else Inr ())"
proof -
  let ?rules = "map rule_of (newest_first (id_rules db))"
  have live: "id_live db = Some ?rules" and ok: "\<And>w. w \<in> set (id_rules db) \<Longrightarrow> row_kind_ok w"
    using assms by (auto simp: in_force_def rows_ok_def)
  have deny: "list_ex (rule_covers env a now Deny False) ?rules \<longleftrightarrow> list_ex (row_denies env now a) (id_rules db)"
    using ok by (auto simp: list_ex_iff rule_of_covers)
  show ?thesis
  proof (cases "?rules = []")
    case True
    then have "\<not> list_ex (row_denies env now a) (id_rules db)" using deny by simp
    then show ?thesis using True by (simp add: judge_request_def decide_address_def live)
  next
    case False
    then show ?thesis using deny by (simp add: judge_request_def decide_address_def live blocked_iff)
  qed
qed


definition sample_ip_db :: "int ip_db" where
  "sample_ip_db = \<lparr>id_rules = [], id_users = [7], id_audit = [],
     id_bus = \<lparr>bd_organizations = [], bd_events = [], bd_endpoints = [], bd_deliveries = [], bd_runs = []\<rparr>, id_live = Some []\<rparr>"

definition sample_post :: "(string + ip_rule \<times> bool) \<times> int ip_db" where
  "sample_post = post_ip_rule True sample_ip_env (\<lambda>_. ''9'') 9 100 1 (\<lambda>k. k) \<lparr>ic_user_id = 7, ic_organization_id = None, ic_address = None\<rparr>
     \<lparr>cr_kind = '' deny'', cr_cidr = ''10.0.0.1/8'', cr_note = ''abuse'', cr_expires_at = None\<rparr> sample_ip_db"

lemma sample_post_facts: "(case fst sample_post of Inl _ \<Rightarrow> False | Inr (_, b) \<Rightarrow> \<not> b)" "rows_ok sample_ip_db"
    "list_ex (row_denies sample_ip_env 200 (V4 1)) (id_rules (snd sample_post))"
  by code_simp+


text \<open>A restart forgets the rules: the router of a fresh process installs an empty set, and no request is refused until the next
  write, whatever the table holds.\<close>

theorem restart_forgets_rules:
  "judge_request env u now (ensure_installed (db\<lparr>id_live := None\<rparr>)) address = Inr ()"
  by (simp add: judge_request_def ensure_installed_def decide_address_def)

text \<open>A rule whose audit entry cannot be written is stored and not in force: the running rule set stays what it was.\<close>

theorem unaudited_rule_not_in_force:
  "id_live (snd (post_ip_rule False env uuid_text fresh now event_id ids caller body db)) = id_live db \<and>
   id_live (snd (delete_ip_rule False uuid_text now event_id ids caller i db)) = id_live db"
  by (auto simp: post_ip_rule_def delete_ip_rule_def add_ip_rule_def remove_ip_rule_def Let_def split: sum.splits prod.splits option.splits bool.splits if_splits)

end
