(* ===== verification/SecurityExports.thy ===== *)
theory SecurityExports
  imports Json
begin

text \<open>
  What leaves the security centre: the findings export (\<open>crates/security/src/csv.rs\<close>, \<open>Finding\<close> of
  \<open>model.rs\<close>), the security-event rows (\<open>events.rs\<close>) and their export (\<open>events_csv.rs\<close>). The printing of an
  instant, a UUID and a JSON number are arguments.
\<close>

subsection \<open>Findings\<close>

record finding =
  fd_id :: uuid
  fd_organization_id :: "uuid option"
  fd_source :: string
  fd_severity :: string
  fd_title :: string
  fd_description :: string
  fd_component :: "string option"
  fd_component_version :: "string option"
  fd_fixed_in :: "string option"
  fd_status :: string
  fd_ignore_reason :: "string option"
  fd_ignored_until :: "instant option"
  fd_acknowledged_by :: "uuid option"
  fd_acknowledged_at :: "instant option"
  fd_note :: "string option"
  fd_first_seen_at :: instant
  fd_last_seen_at :: instant
  fd_fingerprint :: string

definition finding_is_open :: "finding \<Rightarrow> bool" where
  "finding_is_open f \<longleftrightarrow> fd_status f = ''open'' \<or> fd_status f = ''acknowledged''"

definition ignore_has_lapsed :: "finding \<Rightarrow> instant \<Rightarrow> bool" where
  "ignore_has_lapsed f now \<longleftrightarrow> fd_status f = ''ignored'' \<and> (case fd_ignored_until f of None \<Rightarrow> False | Some t \<Rightarrow> t \<le> now)"

subsection \<open>The findings export\<close>

definition CSV_COLUMNS :: "string list" where
  "CSV_COLUMNS = [''severity'', ''status'', ''title'', ''source'', ''component'', ''component_version'', ''fixed_in'', ''first_seen'',
     ''last_seen'', ''ignore_reason'', ''note'', ''id'']"

definition CSV_MAX_EXPORT_ROWS :: nat where "CSV_MAX_EXPORT_ROWS = 50000"

definition LF :: char where "LF = CHR 0x0A"
definition CR :: char where "CR = CHR 0x0D"
definition TAB :: char where "TAB = CHR 0x09"
definition QUOTE :: char where "QUOTE = CHR 0x22"

definition formula_char :: "char \<Rightarrow> bool" where
  "formula_char c \<longleftrightarrow> c = CHR ''='' \<or> c = CHR ''+'' \<or> c = CHR ''-'' \<or> c = CHR ''@''"

definition starts_like_a_formula :: "string \<Rightarrow> bool" where
  "starts_like_a_formula v = (case dropWhile (\<lambda>c. c = CHR '' '' \<or> c = TAB) v of [] \<Rightarrow> False | c # _ \<Rightarrow> formula_char c)"

definition double_quotes :: "string \<Rightarrow> string" where
  "double_quotes v = concat (map (\<lambda>c. if c = QUOTE then [QUOTE, QUOTE] else [c]) v)"

definition guarded_cell :: "string \<Rightarrow> string" where
  "guarded_cell v = (if starts_like_a_formula v then TAB # v else v)"

definition cell_to_csv :: "string \<Rightarrow> string" where
  "cell_to_csv v =
     (let guarded = guarded_cell v;
          needs_quotes = list_ex (\<lambda>c. c \<in> {QUOTE, CHR '','', LF, CR}) guarded \<or>
            (case guarded of [] \<Rightarrow> False | c # _ \<Rightarrow> c = CHR '' '' \<or> c = TAB) \<or> trim guarded = []
      in if needs_quotes then [QUOTE] @ double_quotes guarded @ [QUOTE] else guarded)"

record print_env =
  pe_instant :: "instant \<Rightarrow> string"
  pe_uuid :: "uuid \<Rightarrow> string"

definition text_or_empty :: "string option \<Rightarrow> string" where
  "text_or_empty v = (case v of None \<Rightarrow> [] | Some t \<Rightarrow> t)"

definition finding_cells :: "print_env \<Rightarrow> finding \<Rightarrow> string list" where
  "finding_cells env f =
     [fd_severity f, fd_status f, fd_title f, fd_source f, text_or_empty (fd_component f), text_or_empty (fd_component_version f),
      text_or_empty (fd_fixed_in f), pe_instant env (fd_first_seen_at f), pe_instant env (fd_last_seen_at f),
      text_or_empty (fd_ignore_reason f), text_or_empty (fd_note f), pe_uuid env (fd_id f)]"

definition render_row :: "print_env \<Rightarrow> finding \<Rightarrow> string" where
  "render_row env f = str_join '','' (map cell_to_csv (finding_cells env f))"

text \<open>\<open>None\<close> is the refusal of an export past the cap.\<close>

definition render_findings :: "print_env \<Rightarrow> finding list \<Rightarrow> string option" where
  "render_findings env rows =
     (if length rows > CSV_MAX_EXPORT_ROWS then None
      else Some (str_join '','' CSV_COLUMNS @ [CR, LF] @ concat (map (\<lambda>r. render_row env r @ [CR, LF]) rows)))"

subsection \<open>Security events\<close>

datatype event_source = SrcAudit | SrcSignIn

definition source_str :: "event_source \<Rightarrow> string" where
  "source_str s = (case s of SrcAudit \<Rightarrow> ''audit'' | SrcSignIn \<Rightarrow> ''sign_in'')"

datatype event_category = CatSignIn | CatLockout | CatDenial | CatSettingsChange | CatIpRuleChange | CatOther

definition category_str :: "event_category \<Rightarrow> string" where
  "category_str c = (case c of CatSignIn \<Rightarrow> ''sign_in'' | CatLockout \<Rightarrow> ''lockout'' | CatDenial \<Rightarrow> ''denial''
     | CatSettingsChange \<Rightarrow> ''settings_change'' | CatIpRuleChange \<Rightarrow> ''ip_rule_change'' | CatOther \<Rightarrow> ''other'')"

definition ALL_CATEGORIES :: "event_category list" where
  "ALL_CATEGORIES = [CatSignIn, CatLockout, CatDenial, CatSettingsChange, CatIpRuleChange, CatOther]"

definition category_of_action :: "string \<Rightarrow> event_category" where
  "category_of_action action =
     (if starts_with action ''security.ip_rule'' then CatIpRuleChange
      else if starts_with action ''security.lockout'' \<or> action = ''security.account.unlocked'' then CatLockout
      else if starts_with action ''security.'' then CatSettingsChange
      else if starts_with action ''iam.session_revoked'' then CatOther
      else CatOther)"

definition category_of_outcome :: "string \<Rightarrow> event_category" where
  "category_of_outcome outcome = (if outcome = ''locked'' then CatLockout else CatSignIn)"

record security_event =
  sv_id :: string
  sv_source :: event_source
  sv_occurred_at :: instant
  sv_action :: string
  sv_category :: event_category
  sv_actor :: "string option"
  sv_subject_user_id :: "uuid option"
  sv_client_ip :: "string option"
  sv_user_agent :: "string option"
  sv_outcome :: string
  sv_detail :: "string option"
  sv_organization_id :: "uuid option"

definition describe_outcome :: "string \<Rightarrow> string" where
  "describe_outcome outcome =
     (if outcome = ''success'' then ''signed in''
      else if outcome = ''failed'' then ''wrong password or unknown account''
      else if outcome = ''locked'' then ''account locked out''
      else if outcome = ''blocked'' then ''refused by the address rule''
      else if outcome = ''mfa_required'' then ''second factor required''
      else ''recorded attempt'')"

definition is_refusal :: "string \<Rightarrow> bool" where
  "is_refusal outcome \<longleftrightarrow> outcome = ''failed'' \<or> outcome = ''locked'' \<or> outcome = ''blocked''"

definition EVENT_COLUMNS :: "string list" where
  "EVENT_COLUMNS = [''occurred_at'', ''category'', ''action'', ''outcome'', ''actor'', ''subject_user_id'', ''client_ip'', ''user_agent'',
     ''detail'', ''source'', ''id'']"

definition page_event_id :: "event_source \<Rightarrow> int \<Rightarrow> string" where
  "page_event_id source i = source_str source @ '':'' @ show_int i"

definition search_term :: "string option \<Rightarrow> string option" where
  "search_term raw =
     (case raw of
        None \<Rightarrow> None
      | Some t \<Rightarrow> (if trim t = [] then None
          else Some (concat (map (\<lambda>c. if c = CHR ''%'' \<or> c = CHR ''_'' \<or> c = CHR 0x5C then [CHR 0x5C, c] else [c]) (take 120 (trim t))))))"

definition NEEDLES :: "string list" where
  "NEEDLES = [''password'', ''secret'', ''token'', ''key_material'', ''authorization'', ''credential'', ''bearer'']"

definition is_sensitive_key :: "string \<Rightarrow> bool" where
  "is_sensitive_key key \<longleftrightarrow> list_ex (str_contains (to_ascii_lowercase key)) NEEDLES"

definition metadata_shape :: "('n \<Rightarrow> string) \<Rightarrow> 'n json option \<Rightarrow> string" where
  "metadata_shape number_text v =
     (case v of
        Some (JNumber n) \<Rightarrow> number_text n
      | Some (JBool b) \<Rightarrow> if b then ''true'' else ''false''
      | Some (JArray items) \<Rightarrow> show_nat (length items) @ '' items''
      | Some JNull \<Rightarrow> ''null''
      | None \<Rightarrow> ''null''
      | Some _ \<Rightarrow> ''set'')"

definition summarise_metadata :: "('n \<Rightarrow> string) \<Rightarrow> 'n json \<Rightarrow> string option" where
  "summarise_metadata number_text metadata =
     (case as_object metadata of
        None \<Rightarrow> None
      | Some m \<Rightarrow>
          (let keys = map (\<lambda>k. k @ ''='' @ metadata_shape number_text (bt_get m k)) (filter (\<lambda>k. \<not> is_sensitive_key k) (map fst m)) in
           if keys = [] then None else Some (str_join '', '' (take 8 (sort keys)))))"

definition MAX_PAGE :: nat where "MAX_PAGE = 200"

definition page_size :: "nat option \<Rightarrow> nat" where
  "page_size limit = max 1 (min (case limit of None \<Rightarrow> MAX_PAGE | Some n \<Rightarrow> n) MAX_PAGE)"

subsection \<open>The events export\<close>

definition neutralise :: "string \<Rightarrow> string" where
  "neutralise cell =
     (let front = (case cell of [] \<Rightarrow> [] | c # _ \<Rightarrow> if formula_char c then [TAB] else []);
          needs_quotes = list_ex (\<lambda>c. c \<in> {CHR '','', QUOTE, LF, CR}) cell \<or>
            (case cell of [] \<Rightarrow> False | c # _ \<Rightarrow> c = TAB \<or> c = CHR '' '') \<or>
            (case cell of [] \<Rightarrow> False | c # _ \<Rightarrow> formula_char c)
      in if \<not> needs_quotes then front @ cell
         else front @ [QUOTE] @ double_quotes cell @ [QUOTE])"

definition event_cells :: "print_env \<Rightarrow> security_event \<Rightarrow> string list" where
  "event_cells env e =
     [pe_instant env (sv_occurred_at e), category_str (sv_category e), sv_action e, sv_outcome e, text_or_empty (sv_actor e),
      text_or_empty (map_option (pe_uuid env) (sv_subject_user_id e)), text_or_empty (sv_client_ip e), text_or_empty (sv_user_agent e),
      text_or_empty (sv_detail e), source_str (sv_source e), sv_id e]"

definition render_events :: "print_env \<Rightarrow> security_event list \<Rightarrow> string option" where
  "render_events env rows =
     (if length rows > CSV_MAX_EXPORT_ROWS then None
      else Some (str_join '','' EVENT_COLUMNS @ [LF] @ concat (map (\<lambda>r. str_join '','' (map neutralise (event_cells env r)) @ [LF]) rows)))"

subsection \<open>A reader\<close>

text \<open>RFC 4180: a cell in quotes ends at a quote that no quote follows, a row at a line feed outside quotes; a carriage return
  outside quotes belongs to the end of the row.\<close>

datatype csv_mode = CellStart | Plain | Quoted | Closing

fun read_csv :: "csv_mode \<Rightarrow> string \<Rightarrow> string list \<Rightarrow> string \<Rightarrow> string list list" where
  "read_csv m cell row [] = (if m = CellStart \<and> row = [] then [] else [row @ [cell]])"
| "read_csv Quoted cell row (c # cs) =
     (if c = QUOTE then read_csv Closing cell row cs else read_csv Quoted (cell @ [c]) row cs)"
| "read_csv CellStart cell row (c # cs) =
     (if c = QUOTE then read_csv Quoted [] row cs
      else if c = CHR '','' then read_csv CellStart [] (row @ [cell]) cs
      else if c = LF then (row @ [cell]) # read_csv CellStart [] [] cs
      else if c = CR then read_csv CellStart cell row cs
      else read_csv Plain (cell @ [c]) row cs)"
| "read_csv Plain cell row (c # cs) =
     (if c = CHR '','' then read_csv CellStart [] (row @ [cell]) cs
      else if c = LF then (row @ [cell]) # read_csv CellStart [] [] cs
      else if c = CR then read_csv Plain cell row cs
      else read_csv Plain (cell @ [c]) row cs)"
| "read_csv Closing cell row (c # cs) =
     (if c = QUOTE then read_csv Quoted (cell @ [c]) row cs
      else if c = CHR '','' then read_csv CellStart [] (row @ [cell]) cs
      else if c = LF then (row @ [cell]) # read_csv CellStart [] [] cs
      else if c = CR then read_csv Closing cell row cs
      else read_csv Closing (cell @ [c]) row cs)"

definition parse_csv :: "string \<Rightarrow> string list list" where
  "parse_csv doc = read_csv CellStart [] [] doc"

text \<open>Where a cell may end, and what its end does.\<close>

definition cell_ends :: "string \<Rightarrow> bool" where
  "cell_ends rest \<longleftrightarrow> (\<exists>cs. rest = CHR '','' # cs \<or> rest = LF # cs \<or> rest = CR # LF # cs)"

lemmas csv_chars = LF_def CR_def TAB_def QUOTE_def

lemma read_quoted: "read_csv Quoted cell row (double_quotes v @ QUOTE # rest) = read_csv Closing (cell @ v) row rest"
  by (induction v arbitrary: cell) (auto simp: double_quotes_def)

lemma read_plain:
  "list_all (\<lambda>c. c \<notin> {QUOTE, CHR '','', LF, CR}) v \<Longrightarrow> read_csv Plain cell row (v @ rest) = read_csv Plain (cell @ v) row rest"
  by (induction v arbitrary: cell) auto

text \<open>A mode that has read a whole cell.\<close>

lemma read_end:
  assumes "cell_ends rest" "m = Plain \<or> m = Closing \<or> m = CellStart \<and> cell = []"
  shows "read_csv m cell row rest =
    (case rest of [] \<Rightarrow> [] | c # cs \<Rightarrow> if c = CHR '','' then read_csv CellStart [] (row @ [cell]) cs
       else (row @ [cell]) # read_csv CellStart [] [] (if c = LF then cs else tl cs))"
  using assms unfolding cell_ends_def by (auto simp: csv_chars)

lemma read_cell:
  assumes "cell_ends rest"
  shows "read_csv CellStart [] row (cell_to_csv v @ rest) = read_csv Closing (guarded_cell v) row rest"
proof -
  define g where "g = guarded_cell v"
  show ?thesis
  proof (cases "list_ex (\<lambda>c. c \<in> {QUOTE, CHR '','', LF, CR}) g \<or> (case g of [] \<Rightarrow> False | c # _ \<Rightarrow> c = CHR '' '' \<or> c = TAB) \<or> trim g = []")
    case True
    then have "cell_to_csv v = [QUOTE] @ double_quotes g @ [QUOTE]" unfolding cell_to_csv_def Let_def g_def[symmetric] by argo
    then show ?thesis using read_quoted[of "[]" row g rest] by (simp add: g_def[symmetric])
  next
    case False
    then have c: "cell_to_csv v = g" unfolding cell_to_csv_def Let_def g_def[symmetric] by argo
    have ok: "list_all (\<lambda>c. c \<notin> {QUOTE, CHR '','', LF, CR}) g" using False by (simp add: list_ex_iff list_all_iff)
    have "g \<noteq> []" using False by (auto simp: trim_def trim_start_def trim_end_def)
    then obtain x xs where g: "g = x # xs" by (cases g) auto
    have "read_csv CellStart [] row (g @ rest) = read_csv Plain g row rest" using ok read_plain[of xs "[x]" row rest] by (simp add: g)
    also have "\<dots> = read_csv Closing g row rest" using read_end[OF assms, of Plain g row] read_end[OF assms, of Closing g row] by simp
    finally show ?thesis by (simp add: c g_def)
  qed
qed

lemma read_row:
  assumes "vs \<noteq> []"
  shows "read_csv CellStart [] row (str_join '','' (map cell_to_csv vs) @ [CR, LF] @ rest) =
    (row @ map guarded_cell vs) # read_csv CellStart [] [] rest"
  using assms
proof (induction vs arbitrary: row rule: induct_list012)
  case (2 v)
  have e: "cell_ends ([CR, LF] @ rest)" by (auto simp: cell_ends_def)
  show ?case using read_cell[OF e, of row v] read_end[OF e, of Closing] by (simp add: csv_chars)
next
  case (3 v w vs)
  have e: "cell_ends (CHR '','' # str_join '','' (map cell_to_csv (w # vs)) @ [CR, LF] @ rest)" by (auto simp: cell_ends_def)
  show ?case using read_cell[OF e, of row v] read_end[OF e, of Closing] 3(2)[of "row @ [guarded_cell v]"] by simp
qed simp

lemma guarded_no_formula: "guarded_cell v = c # cs \<Longrightarrow> \<not> formula_char c"
  by (cases v) (auto simp: guarded_cell_def starts_like_a_formula_def formula_char_def TAB_def split: if_splits)

subsection \<open>Guarantees\<close>

text \<open>C23. An export of findings within the cap reads back, by any reader of RFC 4180, as the header and one row per finding, every row
  as wide as the header and every cell its text, with a tab before what a spreadsheet would run; so no cell begins with a character
  that makes it a formula.\<close>

theorem findings_export_exact:
  assumes "length rows \<le> CSV_MAX_EXPORT_ROWS"
  shows "\<exists>doc. render_findings env rows = Some doc \<and>
    parse_csv doc = CSV_COLUMNS # map (\<lambda>f. map guarded_cell (finding_cells env f)) rows \<and>
    {length r | r. r \<in> set (parse_csv doc)} \<subseteq> {length CSV_COLUMNS} \<and>
    {c. \<exists>r cs. r \<in> set (tl (parse_csv doc)) \<and> c # cs \<in> set r} \<inter> {c. formula_char c} = {}"
proof -
  let ?body = "concat (map (\<lambda>r. render_row env r @ [CR, LF]) rows)"
  have body: "read_csv CellStart [] [] (concat (map (\<lambda>r. render_row env r @ [CR, LF]) fs)) = map (\<lambda>f. map guarded_cell (finding_cells env f)) fs" for fs
  proof (induction fs)
    case (Cons f fs)
    have "finding_cells env f \<noteq> []" by (simp add: finding_cells_def)
    from read_row[OF this, of "[]"] show ?case using Cons by (simp add: render_row_def)
  qed simp
  have "map cell_to_csv CSV_COLUMNS = CSV_COLUMNS" "map guarded_cell CSV_COLUMNS = CSV_COLUMNS" by code_simp+
  moreover have "CSV_COLUMNS \<noteq> []" by (simp add: CSV_COLUMNS_def)
  ultimately have doc: "parse_csv (str_join '','' CSV_COLUMNS @ [CR, LF] @ ?body) =
      CSV_COLUMNS # map (\<lambda>f. map guarded_cell (finding_cells env f)) rows"
    using read_row[of CSV_COLUMNS "[]" ?body] body by (simp add: parse_csv_def)
  have width: "length (finding_cells env f) = length CSV_COLUMNS" for f by (simp add: finding_cells_def CSV_COLUMNS_def)
  obtain out where out: "render_findings env rows = Some out" "parse_csv out = CSV_COLUMNS # map (\<lambda>f. map guarded_cell (finding_cells env f)) rows"
    using assms doc by (simp add: render_findings_def)
  have "c \<notin> {c. formula_char c}" if "\<exists>r cs. r \<in> set (tl (parse_csv out)) \<and> c # cs \<in> set r" for c
    using that guarded_no_formula unfolding out(2) by auto metis
  then show ?thesis using out width by (intro exI[of _ out] conjI) auto
qed

definition sample_finding :: finding where
  "sample_finding = \<lparr>fd_id = 1, fd_organization_id = None, fd_source = ''audit'', fd_severity = ''high'', fd_title = ''=x, y'', fd_description = [],
     fd_component = None, fd_component_version = None, fd_fixed_in = None, fd_status = ''open'', fd_ignore_reason = None, fd_ignored_until = None,
     fd_acknowledged_by = None, fd_acknowledged_at = None, fd_note = Some [QUOTE], fd_first_seen_at = 0, fd_last_seen_at = 0, fd_fingerprint = []\<rparr>"

theorem findings_export_exact_witness:
  "\<exists>doc. render_findings \<lparr>pe_instant = show_int, pe_uuid = show_nat\<rparr> [sample_finding] = Some doc \<and>
    parse_csv doc = CSV_COLUMNS # map (\<lambda>f. map guarded_cell (finding_cells \<lparr>pe_instant = show_int, pe_uuid = show_nat\<rparr> f)) [sample_finding] \<and>
    {length r | r. r \<in> set (parse_csv doc)} \<subseteq> {length CSV_COLUMNS} \<and>
    {c. \<exists>r cs. r \<in> set (tl (parse_csv doc)) \<and> c # cs \<in> set r} \<inter> {c. formula_char c} = {}"
  by (rule findings_export_exact) (simp add: CSV_MAX_EXPORT_ROWS_def)

subsection \<open>Where the events export and its intent part\<close>

text \<open>The events export puts the tab before the quotes, so a reader takes the cell for unquoted: a user agent can start a column of its
  own, and its text can be a formula. The guard of the findings export leaves what it takes for a formula one by its own test.\<close>

definition crafted_event :: security_event where
  "crafted_event = \<lparr>sv_id = ''audit:1'', sv_source = SrcAudit, sv_occurred_at = 0, sv_action = ''a'', sv_category = CatOther, sv_actor = None,
     sv_subject_user_id = None, sv_client_ip = None, sv_user_agent = Some ''=a,=b'', sv_outcome = ''x'', sv_detail = None, sv_organization_id = None\<rparr>"

lemma crafted_export: "the (render_events env [crafted_event]) =
    str_join '','' EVENT_COLUMNS @ [LF] @ str_join '','' (map neutralise (event_cells env crafted_event)) @ [LF]"
  by (simp add: render_events_def CSV_MAX_EXPORT_ROWS_def)

theorem events_export_splits_cells:
  "map length (parse_csv (the (render_events \<lparr>pe_instant = show_int, pe_uuid = show_nat\<rparr> [crafted_event]))) = [11, 12] \<and>
   ''=b'' @ [QUOTE] \<in> set (parse_csv (the (render_events \<lparr>pe_instant = show_int, pe_uuid = show_nat\<rparr> [crafted_event])) ! 1)"
  unfolding crafted_export by code_simp

theorem guard_still_a_formula: "starts_like_a_formula (guarded_cell ''=1'')"
  by code_simp

end
