(* ===== verification/ApiKeys.thy ===== *)
theory ApiKeys
  imports IamRoutes Authorize Catalogue EventStore SignIn
begin

text \<open>
  Developer keys: their shape and validation (\<open>crates/developer/src/keys.rs\<close>), the table
  (\<open>keys_store.rs\<close>), and the handlers that issue, rotate and revoke them
  (\<open>apps/api/src/routes/developer.rs\<close>). SHA-256 in hexadecimal and \<open>ilike\<close> are the arguments of
  \<open>key_env\<close>; random bytes and identifiers are arguments, messages are dropped, and \<open>ct_eq\<close> of \<open>subtle\<close>
  is the equality of bytes it is documented to be.
\<close>

definition KEY_NAMESPACE :: string where "KEY_NAMESPACE = ''omndev''"
definition PREFIX_LENGTH :: nat where "PREFIX_LENGTH = 10"
definition SECRET_LENGTH :: nat where "SECRET_LENGTH = 32"
definition ENVIRONMENT_LIVE :: string where "ENVIRONMENT_LIVE = ''live''"
definition ENVIRONMENT_SANDBOX :: string where "ENVIRONMENT_SANDBOX = ''sandbox''"
definition ENVIRONMENTS :: "string list" where "ENVIRONMENTS = [ENVIRONMENT_LIVE, ENVIRONMENT_SANDBOX]"
definition KEY_MIN_NAME_LENGTH :: nat where "KEY_MIN_NAME_LENGTH = 3"
definition KEY_MAX_NAME_LENGTH :: nat where "KEY_MAX_NAME_LENGTH = 64"
definition MAX_SCOPES :: nat where "MAX_SCOPES = 64"
definition KEY_MAX_PAGE :: nat where "KEY_MAX_PAGE = 200"

datatype developer_error = DevInvalid | DevConflict | DevNotFound | DevDatabase

record api_key =
  ak_id :: uuid
  ak_organization_id :: uuid
  ak_name :: string
  ak_environment :: string
  ak_key_prefix :: string
  ak_key_hash :: string
  ak_scopes :: "string list"
  ak_created_by :: "uuid option"
  ak_created_by_name :: string
  ak_last_used_at :: "instant option"
  ak_expires_at :: "instant option"
  ak_revoked_at :: "instant option"
  ak_rotated_from :: "uuid option"
  ak_created_at :: instant

record key_secret =
  ks_token :: string
  ks_prefix :: string
  ks_hash :: string

record new_api_key =
  nk_organization_id :: uuid
  nk_name :: string
  nk_environment :: string
  nk_scopes :: "string list"
  nk_expires_at :: "instant option"
  nk_created_by :: "uuid option"
  nk_created_by_name :: string

record key_env =
  ke_hash :: "string \<Rightarrow> string"
  ke_ilike :: "string \<Rightarrow> string \<Rightarrow> bool"

subsection \<open>Status\<close>

datatype key_status = KeyActive | KeyExpired | KeyRevoked

definition status_at :: "api_key \<Rightarrow> instant \<Rightarrow> key_status" where
  "status_at k now =
     (if ak_revoked_at k \<noteq> None then KeyRevoked
      else if (case ak_expires_at k of None \<Rightarrow> False | Some t \<Rightarrow> t \<le> now) then KeyExpired
      else KeyActive)"

definition api_key_active_at :: "api_key \<Rightarrow> instant \<Rightarrow> bool" where
  "api_key_active_at k now \<longleftrightarrow> status_at k now = KeyActive"

definition key_status_str :: "key_status \<Rightarrow> string" where
  "key_status_str s = (case s of KeyActive \<Rightarrow> ''active'' | KeyExpired \<Rightarrow> ''expired'' | KeyRevoked \<Rightarrow> ''revoked'')"

subsection \<open>Validation\<close>

definition dedupe_scopes :: "string list \<Rightarrow> string list" where
  "dedupe_scopes scopes = remdups_adj (sort (filter (\<lambda>s. s \<noteq> []) (map trim scopes)))"

definition parse_environment :: "string \<Rightarrow> developer_error + string" where
  "parse_environment e = ok_or DevInvalid (find (\<lambda>c. c = e) ENVIRONMENTS)"

definition is_live_environment :: "string \<Rightarrow> bool" where
  "is_live_environment e \<longleftrightarrow> e = ENVIRONMENT_LIVE"

definition name_is_valid :: "string \<Rightarrow> bool" where
  "name_is_valid name \<longleftrightarrow> str_len (trim name) \<ge> KEY_MIN_NAME_LENGTH \<and> str_len (trim name) \<le> KEY_MAX_NAME_LENGTH"

definition validated :: "new_api_key \<Rightarrow> instant \<Rightarrow> developer_error + unit" where
  "validated k now =
     res_bind (parse_environment (nk_environment k)) (\<lambda>_.
       let name = trim (nk_name k); scopes = dedupe_scopes (nk_scopes k) in
       if name = [] then Inl DevInvalid
       else if str_len name < KEY_MIN_NAME_LENGTH \<or> str_len name > KEY_MAX_NAME_LENGTH then Inl DevInvalid
       else if scopes = [] then Inl DevInvalid
       else if length scopes > MAX_SCOPES then Inl DevInvalid
       else if (case nk_expires_at k of None \<Rightarrow> False | Some t \<Rightarrow> t \<le> now) then Inl DevInvalid
       else Inr ())"

definition scope_names_valid :: "string list \<Rightarrow> string list \<Rightarrow> developer_error + unit" where
  "scope_names_valid scopes catalogue =
     (if list_all (\<lambda>s. s \<in> set catalogue) (dedupe_scopes scopes) then Inr () else Inl DevInvalid)"

definition mintable_from :: "string list \<Rightarrow> string list \<Rightarrow> developer_error + string list" where
  "mintable_from requested owned =
     (let scopes = dedupe_scopes requested in
      if list_all (\<lambda>s. s \<in> set owned) scopes then Inr scopes else Inl DevInvalid)"

subsection \<open>Tokens\<close>

definition KEY_ALPHABET :: string where "KEY_ALPHABET = ''abcdefghijklmnopqrstuvwxyz0123456789''"

definition alphabet_char :: "8 word \<Rightarrow> char" where
  "alphabet_char b = KEY_ALPHABET ! (unat b mod length KEY_ALPHABET)"

text \<open>The two random arrays are arguments; of a longer list only as many bytes as the code draws are read.\<close>

definition random_text :: "nat \<Rightarrow> 8 word list \<Rightarrow> string" where
  "random_text n bytes = map (\<lambda>b. alphabet_char (b mod 36)) (take n bytes)"

definition issue :: "key_env \<Rightarrow> 8 word list \<Rightarrow> 8 word list \<Rightarrow> string \<Rightarrow> key_secret" where
  "issue env prefix_bytes secret_bytes environment =
     (let e = (case parse_environment environment of Inl _ \<Rightarrow> ENVIRONMENT_SANDBOX | Inr e \<Rightarrow> e);
          prefix = KEY_NAMESPACE @ ''_'' @ e @ ''_'' @ random_text PREFIX_LENGTH prefix_bytes;
          token = prefix @ ''_'' @ random_text SECRET_LENGTH secret_bytes
      in \<lparr>ks_token = token, ks_prefix = prefix, ks_hash = ke_hash env token\<rparr>)"

definition verify_secret :: "key_env \<Rightarrow> string \<Rightarrow> string \<Rightarrow> bool" where
  "verify_secret env presented stored_hash =
     (let candidate = ke_hash env presented in
      if str_len candidate \<noteq> str_len stored_hash then False else as_bytes candidate = as_bytes stored_hash)"

definition rsplit_once :: "char \<Rightarrow> string \<Rightarrow> (string \<times> string) option" where
  "rsplit_once c s = map_option (\<lambda>(after, before). (rev before, rev after)) (split_once c (rev s))"

subsection \<open>The table\<close>

record key_audit =
  ka_actor :: uuid
  ka_action :: string
  ka_organization_id :: uuid
  ka_target :: uuid

record 'n key_db =
  kd_keys :: "api_key list"
  kd_organizations :: "uuid list"
  kd_users :: "uuid list"
  kd_audit :: "key_audit list"
  kd_bus :: "'n bus_db"

text \<open>The constraints of the table and its indexes: the hash is unique, the name is among the live keys of the organization and
  environment; the prefix is not.\<close>

definition key_row_allowed :: "'n key_db \<Rightarrow> api_key \<Rightarrow> bool" where
  "key_row_allowed db k \<longleftrightarrow>
     (ak_environment k = ''live'' \<or> ak_environment k = ''sandbox'') \<and>
     3 \<le> length (btrim (ak_name k)) \<and> length (btrim (ak_name k)) \<le> 64 \<and>
     1 \<le> length (ak_scopes k) \<and> length (ak_scopes k) \<le> 64 \<and>
     ak_organization_id k \<in> set (kd_organizations db) \<and>
     (case ak_created_by k of None \<Rightarrow> True | Some u \<Rightarrow> u \<in> set (kd_users db)) \<and>
     \<not> list_ex (\<lambda>x. ak_id x = ak_id k \<or> ak_key_hash x = ak_key_hash k) (kd_keys db) \<and>
     \<not> (ak_revoked_at k = None \<and> list_ex (\<lambda>x. ak_revoked_at x = None \<and> ak_organization_id x = ak_organization_id k \<and>
          to_lowercase (ak_name x) = to_lowercase (ak_name k) \<and> ak_environment x = ak_environment k) (kd_keys db))"

definition insert_key :: "api_key \<Rightarrow> 'n key_db \<Rightarrow> (developer_error + api_key) \<times> 'n key_db" where
  "insert_key k db = (if key_row_allowed db k then (Inr k, db\<lparr>kd_keys := kd_keys db @ [k]\<rparr>) else (Inl DevDatabase, db))"

definition put_key :: "(api_key \<Rightarrow> bool) \<Rightarrow> (api_key \<Rightarrow> api_key) \<Rightarrow> 'n key_db \<Rightarrow> 'n key_db" where
  "put_key P f db = db\<lparr>kd_keys := map (\<lambda>k. if P k then f k else k) (kd_keys db)\<rparr>"

definition find_live_by_name :: "'n key_db \<Rightarrow> uuid \<Rightarrow> string \<Rightarrow> string \<Rightarrow> uuid option" where
  "find_live_by_name db organization_id name environment =
     map_option ak_id (find (\<lambda>k. ak_organization_id k = organization_id \<and> to_lowercase (ak_name k) = to_lowercase name \<and>
       ak_environment k = environment \<and> ak_revoked_at k = None) (kd_keys db))"

definition create_api_key ::
  "key_env \<Rightarrow> uuid \<Rightarrow> 8 word list \<Rightarrow> 8 word list \<Rightarrow> new_api_key \<Rightarrow> instant \<Rightarrow> 'n key_db \<Rightarrow>
   (developer_error + api_key \<times> key_secret) \<times> 'n key_db" where
  "create_api_key env fresh pb sb key now db =
     (case validated key now of
        Inl e \<Rightarrow> (Inl e, db)
      | Inr _ \<Rightarrow>
          if find_live_by_name db (nk_organization_id key) (trim (nk_name key)) (nk_environment key) \<noteq> None then (Inl DevConflict, db)
          else (let secret = issue env pb sb (nk_environment key) in
                case insert_key
                    \<lparr>ak_id = fresh, ak_organization_id = nk_organization_id key, ak_name = trim (nk_name key),
                     ak_environment = nk_environment key, ak_key_prefix = ks_prefix secret, ak_key_hash = ks_hash secret,
                     ak_scopes = dedupe_scopes (nk_scopes key), ak_created_by = nk_created_by key,
                     ak_created_by_name = nk_created_by_name key, ak_last_used_at = None, ak_expires_at = nk_expires_at key,
                     ak_revoked_at = None, ak_rotated_from = None, ak_created_at = now\<rparr> db of
                  (Inl e, db1) \<Rightarrow> (Inl e, db1)
                | (Inr row, db1) \<Rightarrow> (Inr (row, secret), db1)))"

definition find_api_key :: "'n key_db \<Rightarrow> uuid \<Rightarrow> uuid \<Rightarrow> api_key option" where
  "find_api_key db organization_id i = find (\<lambda>k. ak_id k = i \<and> ak_organization_id k = organization_id) (kd_keys db)"

definition touch_last_used :: "uuid \<Rightarrow> instant \<Rightarrow> 'n key_db \<Rightarrow> 'n key_db" where
  "touch_last_used i now db = put_key (\<lambda>k. ak_id k = i) (\<lambda>k. k\<lparr>ak_last_used_at := Some now\<rparr>) db"

definition token_prefix :: "string \<Rightarrow> string option" where
  "token_prefix token =
     (let namespace = (case rsplit_once CHR ''_'' token of None \<Rightarrow> token | Some (_, secret) \<Rightarrow> secret) in
      if CHR ''_'' \<notin> set token \<or> namespace = [] then None
      else (case rsplit_once CHR ''_'' token of
              Some (prefix, _) \<Rightarrow> if CHR ''_'' \<in> set prefix then Some prefix else None
            | None \<Rightarrow> None))"

definition authenticate_key :: "key_env \<Rightarrow> string \<Rightarrow> instant \<Rightarrow> 'n key_db \<Rightarrow> api_key option \<times> 'n key_db" where
  "authenticate_key env token now db =
     (case token_prefix token of
        None \<Rightarrow> (None, db)
      | Some prefix \<Rightarrow>
          (case find (\<lambda>k. ak_key_prefix k = prefix) (kd_keys db) of
             None \<Rightarrow> (None, db)
           | Some row \<Rightarrow>
               if \<not> api_key_active_at row now then (None, db)
               else if \<not> verify_secret env token (ak_key_hash row) then (None, db)
               else (Some row, touch_last_used (ak_id row) now db)))"

record key_query =
  kq_organization_id :: uuid
  kq_environment :: "string option"
  kq_status :: "string option"
  kq_search :: "string option"
  kq_limit :: nat
  kq_before :: "instant option"

record key_page =
  kp_keys :: "api_key list"
  kp_next_before :: "instant option"

definition page_from :: "api_key list \<Rightarrow> nat \<Rightarrow> key_page" where
  "page_from rows limit =
     (let has_more = length rows > limit; shown = (if has_more then take limit rows else rows) in
      \<lparr>kp_keys = shown, kp_next_before = (if has_more \<and> shown \<noteq> [] then Some (ak_created_at (last shown)) else None)\<rparr>)"

definition listed_key :: "key_env \<Rightarrow> key_query \<Rightarrow> instant \<Rightarrow> api_key \<Rightarrow> bool" where
  "listed_key env q now k \<longleftrightarrow>
     ak_organization_id k = kq_organization_id q \<and>
     (case kq_environment q of None \<Rightarrow> True | Some e \<Rightarrow> ak_environment k = e) \<and>
     (case kq_status q of None \<Rightarrow> True | Some s \<Rightarrow>
        s = ''revoked'' \<and> ak_revoked_at k \<noteq> None \<or>
        s = ''expired'' \<and> ak_revoked_at k = None \<and> (case ak_expires_at k of None \<Rightarrow> False | Some t \<Rightarrow> t \<le> now) \<or>
        s = ''active'' \<and> ak_revoked_at k = None \<and> (case ak_expires_at k of None \<Rightarrow> True | Some t \<Rightarrow> t > now)) \<and>
     (case kq_search q of None \<Rightarrow> True | Some raw \<Rightarrow> trim raw = [] \<or>
        ke_ilike env (ak_name k) (''%'' @ trim raw @ ''%'') \<or> ke_ilike env (ak_key_prefix k) (''%'' @ trim raw @ ''%'')) \<and>
     (case kq_before q of None \<Rightarrow> True | Some t \<Rightarrow> ak_created_at k < t)"

definition list_api_keys :: "key_env \<Rightarrow> key_query \<Rightarrow> instant \<Rightarrow> 'n key_db \<Rightarrow> key_page" where
  "list_api_keys env q now db =
     (let limit = max 1 (min (kq_limit q) KEY_MAX_PAGE) in
      page_from (take (limit + 1) (sort_key (\<lambda>k. - ak_created_at k) (sort_key (\<lambda>k. - int (ak_id k)) (filter (listed_key env q now) (kd_keys db))))) limit)"

definition rotate_api_key ::
  "key_env \<Rightarrow> uuid \<Rightarrow> 8 word list \<Rightarrow> 8 word list \<Rightarrow> uuid \<Rightarrow> uuid \<Rightarrow> instant \<Rightarrow> 'n key_db \<Rightarrow>
   (developer_error + api_key \<times> key_secret) \<times> 'n key_db" where
  "rotate_api_key env fresh pb sb organization_id i now db =
     (case find_api_key db organization_id i of
        None \<Rightarrow> (Inl DevNotFound, db)
      | Some previous \<Rightarrow>
          if ak_revoked_at previous \<noteq> None then (Inl DevConflict, db)
          else (let secret = issue env pb sb (ak_environment previous) in
                case insert_key (previous\<lparr>ak_id := fresh, ak_name := ak_name previous @ '' (rotated)'', ak_key_prefix := ks_prefix secret,
                    ak_key_hash := ks_hash secret, ak_last_used_at := None, ak_rotated_from := Some (ak_id previous), ak_created_at := now\<rparr>) db of
                  (Inl e, _) \<Rightarrow> (Inl e, db)
                | (Inr row, db1) \<Rightarrow>
                    (Inr (row, secret), put_key (\<lambda>k. ak_id k = ak_id previous) (\<lambda>k. k\<lparr>ak_revoked_at := Some now\<rparr>) db1)))"

definition revoke_api_key :: "uuid \<Rightarrow> uuid \<Rightarrow> instant \<Rightarrow> 'n key_db \<Rightarrow> (developer_error + bool) \<times> 'n key_db" where
  "revoke_api_key organization_id i now db =
     (let P = (\<lambda>k. ak_id k = i \<and> ak_organization_id k = organization_id \<and> ak_revoked_at k = None) in
      if \<not> list_ex P (kd_keys db)
      then (if list_ex (\<lambda>k. ak_id k = i \<and> ak_organization_id k = organization_id) (kd_keys db) then Inr False else Inl DevNotFound, db)
      else (Inr True, put_key P (\<lambda>k. k\<lparr>ak_revoked_at := Some now\<rparr>) db))"

subsection \<open>The handlers\<close>

definition map_developer_error :: "developer_error \<Rightarrow> string" where
  "map_developer_error e = (case e of DevInvalid \<Rightarrow> ''invalid_developer_input'' | DevConflict \<Rightarrow> ''duplicate_name''
     | DevNotFound \<Rightarrow> ''not_found'' | DevDatabase \<Rightarrow> ''internal_error'')"

definition dev_result :: "developer_error + 'a \<Rightarrow> string + 'a" where
  "dev_result r = (case r of Inl e \<Rightarrow> Inl (map_developer_error e) | Inr x \<Rightarrow> Inr x)"

text \<open>What the handler's clock and generators supply, and whether the audit entry can be written.\<close>

record key_call =
  kc_now :: instant
  kc_fresh :: uuid
  kc_prefix_bytes :: "8 word list"
  kc_secret_bytes :: "8 word list"
  kc_event_id :: int
  kc_delivery_ids :: "nat \<Rightarrow> uuid"
  kc_uuid_text :: "uuid \<Rightarrow> string"
  kc_audited :: bool

definition own_organization :: "id_user \<Rightarrow> string + uuid" where
  "own_organization u =
     (case resolve_organization \<lparr>acc_user = iu_id u, acc_organization = iu_organization_id u\<rparr> None of
        Inl _ \<Rightarrow> Inl ''organization_required'' | Inr i \<Rightarrow> Inr i)"

definition display_name :: "id_user \<Rightarrow> string" where
  "display_name u = (if trim (iu_display_name u) \<noteq> [] then trim (iu_display_name u) else trim (iu_email u))"

definition key_event :: "key_call \<Rightarrow> uuid \<Rightarrow> uuid \<Rightarrow> string \<Rightarrow> api_key \<Rightarrow> 'n new_event" where
  "key_event c organization_id actor name k =
     \<lparr>ne_name = name, ne_organization_id = Some organization_id, ne_site_id = None, ne_actor_user_id = Some actor,
      ne_payload = JObject (bt_collect [(''key_id'', JString (kc_uuid_text c (ak_id k))), (''name'', JString (ak_name k)),
        (''environment'', JString (ak_environment k)), (''key_prefix'', JString (ak_key_prefix k)),
        (''scopes'', JArray (map JString (ak_scopes k))), (''status'', JString (key_status_str (status_at k (kc_now c))))])\<rparr>"

definition emit_credential_event :: "key_call \<Rightarrow> uuid \<Rightarrow> uuid \<Rightarrow> string \<Rightarrow> api_key \<Rightarrow> 'n key_db \<Rightarrow> 'n key_db" where
  "emit_credential_event c organization_id actor name k db =
     db\<lparr>kd_bus := snd (emit (kc_now c) (kd_bus db) (kc_event_id c) (kc_delivery_ids c) (key_event c organization_id actor name k))\<rparr>"

definition audit_key :: "key_call \<Rightarrow> uuid \<Rightarrow> uuid \<Rightarrow> string \<Rightarrow> api_key \<Rightarrow> 'n key_db \<Rightarrow> (string + unit) \<times> 'n key_db" where
  "audit_key c organization_id actor action k db =
     (if \<not> kc_audited c then (Inl ''audit_failed'', db)
      else (Inr (), db\<lparr>kd_audit := kd_audit db @ [\<lparr>ka_actor = actor, ka_action = action, ka_organization_id = organization_id, ka_target = ak_id k\<rparr>]\<rparr>))"

text \<open>The event and the audit entry of a change that is already stored.\<close>

definition announce_key :: "key_call \<Rightarrow> uuid \<Rightarrow> uuid \<Rightarrow> string \<Rightarrow> api_key \<Rightarrow> 'n key_db \<Rightarrow> (string + unit) \<times> 'n key_db" where
  "announce_key c organization_id actor name k db =
     audit_key c organization_id actor name k (emit_credential_event c organization_id actor name k db)"

record create_key_body =
  bk_name :: string
  bk_scopes :: "string list"
  bk_environment :: string
  bk_expires_at :: "instant option"

definition held_scopes :: "instant \<Rightarrow> iam_db \<Rightarrow> uuid \<Rightarrow> uuid \<Rightarrow> effective_permissions" where
  "held_scopes now iam user organization_id =
     effective_permissions_for now iam (SubjectUser user) (context_from_scope (ScopeOrganization organization_id))"

definition create_key :: "key_env \<Rightarrow> key_call \<Rightarrow> iam_db \<Rightarrow> id_user \<Rightarrow> create_key_body \<Rightarrow> 'n key_db \<Rightarrow> (string + api_key \<times> string) \<times> 'n key_db" where
  "create_key env c iam u body db =
     (case res_bind (own_organization u) (\<lambda>org.
             res_bind (dev_result (scope_names_valid (bk_scopes body) catalogue_keys)) (\<lambda>_.
             res_bind (dev_result (mintable_from (bk_scopes body) (granted_keys (held_scopes (kc_now c) iam (iu_id u) org)))) (\<lambda>scopes.
               Inr (org, scopes)))) of
        Inl e \<Rightarrow> (Inl e, db)
      | Inr (org, scopes) \<Rightarrow>
          (case create_api_key env (kc_fresh c) (kc_prefix_bytes c) (kc_secret_bytes c)
                  \<lparr>nk_organization_id = org, nk_name = bk_name body, nk_environment = bk_environment body, nk_scopes = scopes,
                   nk_expires_at = bk_expires_at body, nk_created_by = Some (iu_id u), nk_created_by_name = display_name u\<rparr> (kc_now c) db of
             (Inl e, db1) \<Rightarrow> (Inl (map_developer_error e), db1)
           | (Inr (row, secret), db1) \<Rightarrow>
               (case announce_key c org (iu_id u) ''developer.api_key.created'' row db1 of
                  (Inl e, db2) \<Rightarrow> (Inl e, db2)
                | (Inr _, db2) \<Rightarrow> (Inr (row, ks_token secret), db2))))"

definition rotate_key :: "key_env \<Rightarrow> key_call \<Rightarrow> id_user \<Rightarrow> uuid \<Rightarrow> 'n key_db \<Rightarrow> (string + api_key \<times> string) \<times> 'n key_db" where
  "rotate_key env c u i db =
     (case own_organization u of
        Inl e \<Rightarrow> (Inl e, db)
      | Inr org \<Rightarrow>
          (case rotate_api_key env (kc_fresh c) (kc_prefix_bytes c) (kc_secret_bytes c) org i (kc_now c) db of
             (Inl e, db1) \<Rightarrow> (Inl (map_developer_error e), db1)
           | (Inr (row, secret), db1) \<Rightarrow>
               (case announce_key c org (iu_id u) ''developer.api_key.rotated'' row db1 of
                  (Inl e, db2) \<Rightarrow> (Inl e, db2)
                | (Inr _, db2) \<Rightarrow> (Inr (row, ks_token secret), db2))))"

definition revoke_key :: "key_call \<Rightarrow> id_user \<Rightarrow> uuid \<Rightarrow> 'n key_db \<Rightarrow> (string + unit) \<times> 'n key_db" where
  "revoke_key c u i db =
     (case own_organization u of
        Inl e \<Rightarrow> (Inl e, db)
      | Inr org \<Rightarrow>
          (case find_api_key db org i of
             None \<Rightarrow> (Inl ''not_found'', db)
           | Some previous \<Rightarrow>
               (case revoke_api_key org i (kc_now c) db of
                  (Inl e, db1) \<Rightarrow> (Inl (map_developer_error e), db1)
                | (Inr _, db1) \<Rightarrow> announce_key c org (iu_id u) ''developer.api_key.revoked'' previous db1)))"

definition list_keys :: "key_env \<Rightarrow> instant \<Rightarrow> id_user \<Rightarrow> string option \<Rightarrow> string option \<Rightarrow> string option \<Rightarrow> nat option \<Rightarrow> 'n key_db \<Rightarrow> string + api_key list" where
  "list_keys env now u environment status search limit db =
     res_bind (own_organization u) (\<lambda>org. Inr (kp_keys (list_api_keys env
       \<lparr>kq_organization_id = org, kq_environment = environment, kq_status = status, kq_search = search,
        kq_limit = (case limit of None \<Rightarrow> 50 | Some n \<Rightarrow> n), kq_before = None\<rparr> now db)))"

subsection \<open>The scope picker\<close>

text \<open>A row of the picker is the permission and whether the caller may grant it. A definition whose category is new only opens the category.\<close>

type_synonym scope_row = "permission_def \<times> bool"

fun push_scope :: "string \<Rightarrow> scope_row \<Rightarrow> (string \<times> scope_row list) list \<Rightarrow> (string \<times> scope_row list) list option" where
  "push_scope c row [] = None"
| "push_scope c row ((k, rows) # rest) =
     (if k = c then Some ((k, rows @ [row]) # rest) else map_option (\<lambda>r. (k, rows) # r) (push_scope c row rest))"

definition add_scope :: "effective_permissions \<Rightarrow> permission_def \<Rightarrow> (string \<times> scope_row list) list \<Rightarrow> (string \<times> scope_row list) list" where
  "add_scope eff d categories =
     (case push_scope (pd_category d) (d, allows eff (pd_key d)) categories of
        None \<Rightarrow> categories @ [(pd_category d, [])] | Some cs \<Rightarrow> cs)"

definition list_scopes :: "instant \<Rightarrow> iam_db \<Rightarrow> id_user \<Rightarrow> string + (string \<times> scope_row list) list \<times> string list" where
  "list_scopes now iam u =
     res_bind (own_organization u) (\<lambda>org.
       Inr (fold (add_scope (held_scopes now iam (iu_id u) org)) CATALOGUE [], ENVIRONMENTS))"

end
