(* ===== verification/ApiKeyLaws.thy ===== *)
theory ApiKeyLaws
  imports ApiKeys RowLog Csrf
begin

text \<open>
  What developer keys promise: whom a token authenticates, that a revoked or rotated one never does
  again, that no key carries a scope beyond what its issuers held; and where rotation and the scope
  picker part from their intent.
\<close>

subsection \<open>Tokens\<close>

lemma alphabet_no_separator: "CHR ''_'' \<notin> set KEY_ALPHABET" and alphabet_length: "length KEY_ALPHABET = 36"
  by (code_simp, code_simp)

lemma alphabet_char_in: "alphabet_char b \<in> set KEY_ALPHABET"
proof -
  have "unat b mod length KEY_ALPHABET < length KEY_ALPHABET" by (simp add: alphabet_length)
  then show ?thesis unfolding alphabet_char_def by (rule nth_mem)
qed

lemma random_text_no_separator: "CHR ''_'' \<notin> set (random_text n bs)"
proof
  assume "CHR ''_'' \<in> set (random_text n bs)"
  then obtain b where "CHR ''_'' = alphabet_char (b mod 36)" by (auto simp: random_text_def)
  then show False using alphabet_char_in[of "b mod 36"] alphabet_no_separator by metis
qed

lemma split_once_first: "c \<notin> set xs \<Longrightarrow> split_once c (xs @ c # ys) = Some (xs, ys)"
  by (induction xs) auto

lemma rsplit_once_last: "c \<notin> set ys \<Longrightarrow> rsplit_once c (xs @ c # ys) = Some (xs, ys)"
  using split_once_first[of c "rev ys" "rev xs"] by (simp add: rsplit_once_def)

lemma issued_token: "ks_token (issue env pb sb e) = ks_prefix (issue env pb sb e) @ CHR ''_'' # random_text SECRET_LENGTH sb"
  and issued_hash: "ks_hash (issue env pb sb e) = ke_hash env (ks_token (issue env pb sb e))"
  and issued_prefix: "CHR ''_'' \<in> set (ks_prefix (issue env pb sb e))"
  by (simp_all add: issue_def Let_def)

lemma issued_token_prefix:
  assumes "sb \<noteq> []"
  shows "token_prefix (ks_token (issue env pb sb e)) = Some (ks_prefix (issue env pb sb e))"
proof -
  have "random_text SECRET_LENGTH sb \<noteq> []" using assms by (simp add: random_text_def SECRET_LENGTH_def)
  then show ?thesis using issued_prefix[of env pb sb e]
    by (simp add: token_prefix_def issued_token rsplit_once_last random_text_no_separator)
qed

lemma verify_secret_iff: "verify_secret env presented h \<longleftrightarrow> ke_hash env presented = h"
  unfolding verify_secret_def Let_def using as_bytes_inj by auto

subsection \<open>Rows under the operations\<close>

definition key_kept :: "api_key \<Rightarrow> api_key \<Rightarrow> bool" where
  "key_kept k l \<longleftrightarrow> ak_id l = ak_id k \<and> ak_organization_id l = ak_organization_id k \<and> ak_environment l = ak_environment k \<and>
     ak_key_prefix l = ak_key_prefix k \<and> ak_key_hash l = ak_key_hash k \<and> ak_scopes l = ak_scopes k \<and> ak_expires_at l = ak_expires_at k \<and>
     (ak_revoked_at k \<noteq> None \<longrightarrow> ak_revoked_at l \<noteq> None)"

interpretation key_log: row_log key_kept ak_key_hash
  by unfold_locales (simp_all add: key_kept_def)

definition keys_kept :: "'n key_db \<Rightarrow> 'n key_db \<Rightarrow> bool" where
  "keys_kept db db' \<longleftrightarrow> grows key_kept ak_key_hash (kd_keys db) (kd_keys db')"

lemma keys_kept_same: "kd_keys db' = kd_keys db \<Longrightarrow> keys_kept db db'"
  by (simp add: keys_kept_def key_log.grows_refl)

lemma keys_kept_trans: "keys_kept db db1 \<Longrightarrow> keys_kept db1 db2 \<Longrightarrow> keys_kept db db2"
  unfolding keys_kept_def by (rule key_log.grows_trans)

lemma put_key_kept: "\<forall>k \<in> set (kd_keys db). P k \<longrightarrow> key_kept k (f k) \<Longrightarrow> keys_kept db (put_key P f db)"
  by (simp add: keys_kept_def put_key_def key_log.grows_update)

lemma insert_key_cases:
  assumes "insert_key k db = (r, db')"
  obtains "r = Inl DevDatabase" "db' = db"
  | "r = Inr k" "db' = db\<lparr>kd_keys := kd_keys db @ [k]\<rparr>" "key_row_allowed db k"
  using assms unfolding insert_key_def by (auto split: if_splits)

lemma insert_key_kept: "keys_kept db (snd (insert_key k db))"
proof -
  obtain r db' where i: "insert_key k db = (r, db')" by fastforce
  then show ?thesis
  proof (cases rule: insert_key_cases)
    case 2
    then have "ak_key_hash k \<notin> ak_key_hash ` set (kd_keys db)" by (auto simp: key_row_allowed_def list_ex_iff)
    then show ?thesis using key_log.grows_insert[of k "kd_keys db"] i 2 by (simp add: keys_kept_def)
  qed (simp add: i keys_kept_same)
qed

lemma key_ops_kept:
  "keys_kept db (touch_last_used i now db)" "keys_kept db (snd (revoke_api_key org i now db))"
  "keys_kept db (snd (authenticate_key env token now db))" "keys_kept db (snd (create_api_key env fresh pb sb key now db))"
  "keys_kept db (snd (rotate_api_key env fresh pb sb org i now db))"
proof -
  show touch: "keys_kept db (touch_last_used i now db)" for i
    unfolding touch_last_used_def by (rule put_key_kept) (simp add: key_kept_def)
  have "keys_kept db (put_key (\<lambda>k. ak_id k = i \<and> ak_organization_id k = org \<and> ak_revoked_at k = None) (\<lambda>k. k\<lparr>ak_revoked_at := Some now\<rparr>) db)"
    by (rule put_key_kept) (simp add: key_kept_def)
  then show "keys_kept db (snd (revoke_api_key org i now db))" by (simp add: revoke_api_key_def Let_def keys_kept_same)
  show "keys_kept db (snd (authenticate_key env token now db))"
    by (simp add: authenticate_key_def keys_kept_same touch split: option.split)
  show "keys_kept db (snd (create_api_key env fresh pb sb key now db))"
    using insert_key_kept[of db] by (auto simp: create_api_key_def Let_def keys_kept_same split: sum.split prod.split) (metis snd_conv)+
  have rev: "keys_kept d (put_key (\<lambda>k. ak_id k = j) (\<lambda>k. k\<lparr>ak_revoked_at := Some now\<rparr>) d)" for d :: "'n key_db" and j
    by (rule put_key_kept) (simp add: key_kept_def)
  show "keys_kept db (snd (rotate_api_key env fresh pb sb org i now db))"
  proof (cases "find_api_key db org i")
    case (Some previous)
    obtain r db1 where i: "insert_key (previous\<lparr>ak_id := fresh, ak_name := ak_name previous @ '' (rotated)'',
        ak_key_prefix := ks_prefix (issue env pb sb (ak_environment previous)), ak_key_hash := ks_hash (issue env pb sb (ak_environment previous)),
        ak_last_used_at := None, ak_rotated_from := Some (ak_id previous), ak_created_at := now\<rparr>) db = (r, db1)" by fastforce
    have "keys_kept db db1" using insert_key_kept[of db] i by (metis snd_conv)
    then show ?thesis using Some i rev[of db1 "ak_id previous"] keys_kept_trans
      by (auto simp: rotate_api_key_def Let_def keys_kept_same split: sum.split)
  qed (simp add: rotate_api_key_def keys_kept_same)
qed

lemma announce_key_keys [simp]: "kd_keys (snd (announce_key c org u name k db)) = kd_keys db"
  by (simp add: announce_key_def audit_key_def emit_credential_event_def)

lemma announce_eq: "announce_key c org u name k db = (r, db') \<Longrightarrow> kd_keys db' = kd_keys db"
  using announce_key_keys[of c org u name k db] by simp

subsection \<open>The machine\<close>

text \<open>Every operation on the keys, by any caller, and any change of the accounts, organizations, the bus and the audit entries
  beside them. The deletion of an organization takes its keys with it and is not among the moves. Of a creation it is
  recorded that what its caller holds is within \<open>H\<close>.\<close>

inductive key_step :: "key_env \<Rightarrow> string set \<Rightarrow> 'n key_db \<Rightarrow> 'n key_db \<Rightarrow> bool" for env H where
  kt_create: "\<forall>org. iu_organization_id u = Some org \<longrightarrow> set (granted_keys (held_scopes (kc_now c) iam (iu_id u) org)) \<subseteq> H \<Longrightarrow>
     key_step env H db (snd (create_key env c iam u body db))"
| kt_rotate: "key_step env H db (snd (rotate_key env c u i db))"
| kt_revoke: "key_step env H db (snd (revoke_key c u i db))"
| kt_authenticate: "key_step env H db (snd (authenticate_key env token now db))"
| kt_beside: "kd_keys db' = kd_keys db \<Longrightarrow> key_step env H db db'"

lemma own_organization_Inr: "own_organization u = Inr org \<longleftrightarrow> iu_organization_id u = Some org"
  by (auto simp: own_organization_def resolve_organization_def split: option.split)

lemma create_api_key_cases:
  assumes "create_api_key env fresh pb sb key now db = (r, db')"
  obtains e where "r = Inl e" "db' = db"
  | row where "r = Inr (row, issue env pb sb (nk_environment key))" "db' = db\<lparr>kd_keys := kd_keys db @ [row]\<rparr>" "key_row_allowed db row"
      "ak_scopes row = dedupe_scopes (nk_scopes key)" "ak_revoked_at row = None" "ak_expires_at row = nk_expires_at key"
      "ak_key_prefix row = ks_prefix (issue env pb sb (nk_environment key))" "ak_key_hash row = ks_hash (issue env pb sb (nk_environment key))"
      "ak_organization_id row = nk_organization_id key" "validated key now = Inr ()"
proof (cases "validated key now")
  case (Inl e)
  then show thesis using assms by (intro that(1)[of e]) (simp_all add: create_api_key_def)
next
  case (Inr x)
  show thesis
  proof (cases "find_live_by_name db (nk_organization_id key) (trim (nk_name key)) (nk_environment key) = None")
    case False
    then show thesis using assms Inr by (intro that(1)[of DevConflict]) (simp_all add: create_api_key_def)
  next
    case True
    let ?secret = "issue env pb sb (nk_environment key)"
    let ?row = "\<lparr>ak_id = fresh, ak_organization_id = nk_organization_id key, ak_name = trim (nk_name key),
       ak_environment = nk_environment key, ak_key_prefix = ks_prefix ?secret, ak_key_hash = ks_hash ?secret,
       ak_scopes = dedupe_scopes (nk_scopes key), ak_created_by = nk_created_by key, ak_created_by_name = nk_created_by_name key,
       ak_last_used_at = None, ak_expires_at = nk_expires_at key, ak_revoked_at = None, ak_rotated_from = None, ak_created_at = now\<rparr>"
    obtain q db1 where i: "insert_key ?row db = (q, db1)" by fastforce
    have c: "create_api_key env fresh pb sb key now db = (case (q, db1) of (Inl e, db1) \<Rightarrow> (Inl e, db1) | (Inr row, db1) \<Rightarrow> (Inr (row, ?secret), db1))"
      using True Inr i by (simp add: create_api_key_def Let_def)
    from i show thesis
    proof (cases rule: insert_key_cases)
      case 1
      then show thesis using assms c by (intro that(1)[of DevDatabase]) simp_all
    next
      case 2
      then show thesis using assms c Inr by (intro that(2)[of ?row]) simp_all
    qed
  qed
qed

lemma create_key_cases:
  assumes "create_key env c iam u body db = (r, db')"
  obtains e where "r = Inl e" "db' = db"
  | org scopes row secret db1 where "iu_organization_id u = Some org"
      "scope_names_valid (bk_scopes body) catalogue_keys = Inr ()"
      "mintable_from (bk_scopes body) (granted_keys (held_scopes (kc_now c) iam (iu_id u) org)) = Inr scopes"
      "create_api_key env (kc_fresh c) (kc_prefix_bytes c) (kc_secret_bytes c)
         \<lparr>nk_organization_id = org, nk_name = bk_name body, nk_environment = bk_environment body, nk_scopes = scopes,
          nk_expires_at = bk_expires_at body, nk_created_by = Some (iu_id u), nk_created_by_name = display_name u\<rparr> (kc_now c) db =
         (Inr (row, secret), db1)"
      "kd_keys db' = kd_keys db1" "r = Inr (row, ks_token secret) \<or> (\<exists>e. r = Inl e)"
proof -
  let ?checks = "res_bind (own_organization u) (\<lambda>org.
      res_bind (dev_result (scope_names_valid (bk_scopes body) catalogue_keys)) (\<lambda>_.
      res_bind (dev_result (mintable_from (bk_scopes body) (granted_keys (held_scopes (kc_now c) iam (iu_id u) org)))) (\<lambda>scopes. Inr (org, scopes))))"
  show thesis
  proof (cases ?checks)
    case (Inl e)
    then show thesis using assms by (intro that(1)[of e]) (simp_all add: create_key_def)
  next
    case (Inr os)
    obtain org scopes where os: "os = (org, scopes)" by fastforce
    have ok: "iu_organization_id u = Some org" "scope_names_valid (bk_scopes body) catalogue_keys = Inr ()"
        "mintable_from (bk_scopes body) (granted_keys (held_scopes (kc_now c) iam (iu_id u) org)) = Inr scopes"
      using Inr unfolding os res_bind_Inr_conv own_organization_Inr by (auto simp: dev_result_def split: sum.splits)
    let ?key = "\<lparr>nk_organization_id = org, nk_name = bk_name body, nk_environment = bk_environment body, nk_scopes = scopes,
      nk_expires_at = bk_expires_at body, nk_created_by = Some (iu_id u), nk_created_by_name = display_name u\<rparr>"
    obtain q db1 where k: "create_api_key env (kc_fresh c) (kc_prefix_bytes c) (kc_secret_bytes c) ?key (kc_now c) db = (q, db1)" by fastforce
    show thesis
    proof (cases q)
      case (Inl e)
      from k[unfolded Inl] have "db1 = db" by (cases rule: create_api_key_cases) simp_all
      then show thesis using assms Inl Inr os k by (intro that(1)[of "map_developer_error e"]) (simp_all add: create_key_def)
    next
      case (Inr x)
      obtain row secret where x: "x = (row, secret)" by fastforce
      obtain a db2 where a: "announce_key c org (iu_id u) ''developer.api_key.created'' row db1 = (a, db2)" by fastforce
      then have "(r, db') = (case a of Inl e \<Rightarrow> (Inl e, db2) | Inr _ \<Rightarrow> (Inr (row, ks_token secret), db2))"
        using assms Inr x \<open>?checks = Inr os\<close> os k by (simp add: create_key_def split: sum.split)
      then show thesis using announce_eq[OF a] k Inr x by (intro that(2)[OF ok, of row secret db1]) (auto split: sum.splits)
    qed
  qed
qed

lemma create_key_kept: "keys_kept db (snd (create_key env c iam u body db))"
proof -
  obtain r db' where e: "create_key env c iam u body db = (r, db')" by fastforce
  then show ?thesis
  proof (cases rule: create_key_cases)
    case (2 org scopes row secret db1)
    then have "keys_kept db db1" using key_ops_kept(4)[of db env "kc_fresh c"] by (metis snd_conv)
    then show ?thesis using e 2(5) by (simp add: keys_kept_def)
  qed (simp add: e keys_kept_same)
qed

lemma rotate_key_kept: "keys_kept db (snd (rotate_key env c u i db))"
proof (cases "own_organization u")
  case (Inr org)
  obtain r db1 where k: "rotate_api_key env (kc_fresh c) (kc_prefix_bytes c) (kc_secret_bytes c) org i (kc_now c) db = (r, db1)" by fastforce
  then have kept: "keys_kept db db1" using key_ops_kept(5)[of db env "kc_fresh c"] by (metis snd_conv)
  have "kd_keys (snd (rotate_key env c u i db)) = kd_keys db1"
    using k Inr announce_eq by (auto simp: rotate_key_def split: sum.split prod.split)
  then show ?thesis using kept by (simp add: keys_kept_def)
qed (simp add: rotate_key_def keys_kept_same)

lemma revoke_key_kept: "keys_kept db (snd (revoke_key c u i db))"
proof (cases "own_organization u")
  case (Inr org)
  obtain r db1 where k: "revoke_api_key org i (kc_now c) db = (r, db1)" by fastforce
  then have kept: "keys_kept db db1" using key_ops_kept(2)[of db org i] by (metis snd_conv)
  show ?thesis using k Inr kept
    by (auto simp: revoke_key_def keys_kept_def key_log.grows_refl split: sum.split prod.split option.split)
qed (simp add: revoke_key_def keys_kept_same)

lemma key_step_kept: "key_step env H db db' \<Longrightarrow> keys_kept db db'"
  by (induction rule: key_step.induct) (simp_all add: create_key_kept rotate_key_kept revoke_key_kept key_ops_kept keys_kept_same)

lemma key_path_kept: "(key_step env H)\<^sup>*\<^sup>* db db' \<Longrightarrow> keys_kept db db'"
  by (induction rule: rtranclp_induct) (auto intro: keys_kept_same key_step_kept keys_kept_trans)

subsection \<open>Scopes\<close>

lemma dedupe_scopes_set: "set (dedupe_scopes scopes) = trim ` set scopes - {[]}"
  by (auto simp: dedupe_scopes_def)

lemma dedupe_again:
  assumes "mintable_from requested owned = Inr scopes"
  shows "set (dedupe_scopes scopes) = set (dedupe_scopes requested)"
proof -
  have s: "set scopes = trim ` set requested - {[]}" using assms
    by (simp add: mintable_from_def Let_def dedupe_scopes_set[symmetric] split: if_splits)
  have "trim ` set scopes = id ` set scopes" by (rule image_cong) (use s in auto)
  then show ?thesis using s by (simp add: dedupe_scopes_set)
qed

lemma mintable_owned: "mintable_from requested owned = Inr scopes \<Longrightarrow> set (dedupe_scopes requested) \<subseteq> set owned"
  by (auto simp: mintable_from_def Let_def list_all_iff split: if_splits)

lemma scope_names_known: "scope_names_valid scopes catalogue = Inr () \<Longrightarrow> set (dedupe_scopes scopes) \<subseteq> set catalogue"
  by (auto simp: scope_names_valid_def list_all_iff split: if_splits)

definition all_scopes :: "'n key_db \<Rightarrow> string set" where
  "all_scopes db = \<Union> (set ` ak_scopes ` set (kd_keys db))"

lemma all_scopes_same: "kd_keys db' = kd_keys db \<Longrightarrow> all_scopes db' = all_scopes db"
  by (simp add: all_scopes_def)

lemma all_scopes_put: "(\<And>k. ak_scopes (f k) = ak_scopes k) \<Longrightarrow> all_scopes (put_key P f db) = all_scopes db"
  by (auto simp: all_scopes_def put_key_def split: if_splits)

lemma create_key_scopes:
  assumes "\<forall>org. iu_organization_id u = Some org \<longrightarrow> set (granted_keys (held_scopes (kc_now c) iam (iu_id u) org)) \<subseteq> H"
  shows "all_scopes (snd (create_key env c iam u body db)) \<subseteq> all_scopes db \<union> H \<inter> set catalogue_keys"
proof -
  obtain r db' where e: "create_key env c iam u body db = (r, db')" by fastforce
  then show ?thesis
  proof (cases rule: create_key_cases)
    case (2 org scopes row secret db1)
    from 2(4) have "all_scopes db1 = all_scopes db \<union> set (dedupe_scopes scopes)"
      by (cases rule: create_api_key_cases) (auto simp: all_scopes_def)
    moreover have "set (dedupe_scopes scopes) \<subseteq> H \<inter> set catalogue_keys"
      using dedupe_again[OF 2(3)] mintable_owned[OF 2(3)] scope_names_known[OF 2(2)] assms 2(1) by blast
    ultimately show ?thesis using e all_scopes_same[OF 2(5)] by auto
  qed (simp add: e)
qed

lemma rotate_api_key_cases:
  assumes "rotate_api_key env fresh pb sb org i now db = (r, db')"
  obtains e where "r = Inl e" "db' = db"
  | previous row db1 where "find_api_key db org i = Some previous" "ak_revoked_at previous = None"
      "r = Inr (row, issue env pb sb (ak_environment previous))" "ak_scopes row = ak_scopes previous"
      "ak_key_hash row = ks_hash (issue env pb sb (ak_environment previous))" "ak_expires_at row = ak_expires_at previous"
      "db1 = db\<lparr>kd_keys := kd_keys db @ [row]\<rparr>" "key_row_allowed db row"
      "db' = put_key (\<lambda>k. ak_id k = ak_id previous) (\<lambda>k. k\<lparr>ak_revoked_at := Some now\<rparr>) db1"
proof (cases "find_api_key db org i")
  case None
  then show thesis using assms by (intro that(1)[of DevNotFound]) (simp_all add: rotate_api_key_def)
next
  case (Some previous)
  show thesis
  proof (cases "ak_revoked_at previous = None")
    case False
    then show thesis using assms Some by (intro that(1)[of DevConflict]) (simp_all add: rotate_api_key_def)
  next
    case True
    let ?secret = "issue env pb sb (ak_environment previous)"
    let ?row = "previous\<lparr>ak_id := fresh, ak_name := ak_name previous @ '' (rotated)'', ak_key_prefix := ks_prefix ?secret,
       ak_key_hash := ks_hash ?secret, ak_last_used_at := None, ak_rotated_from := Some (ak_id previous), ak_created_at := now\<rparr>"
    obtain q db1 where i: "insert_key ?row db = (q, db1)" by fastforce
    have c: "(r, db') = (case q of Inl e \<Rightarrow> (Inl e, db) | Inr row \<Rightarrow> (Inr (row, ?secret),
        put_key (\<lambda>k. ak_id k = ak_id previous) (\<lambda>k. k\<lparr>ak_revoked_at := Some now\<rparr>) db1))"
      using assms True Some i by (simp add: rotate_api_key_def Let_def split: sum.splits)
    from i show thesis
    proof (cases rule: insert_key_cases)
      case 1
      then show thesis using c by (intro that(1)[of DevDatabase]) simp_all
    next
      case 2
      then show thesis using c Some True by (intro that(2)[of previous ?row db1]) simp_all
    qed
  qed
qed

lemma rotate_scopes: "all_scopes (snd (rotate_api_key env fresh pb sb org i now db)) = all_scopes db"
proof -
  obtain r db' where e: "rotate_api_key env fresh pb sb org i now db = (r, db')" by fastforce
  then show ?thesis
  proof (cases rule: rotate_api_key_cases)
    case (2 previous row db1)
    have "previous \<in> set (kd_keys db)" using 2(1) find_Some_mem unfolding find_api_key_def by fastforce
    then have "all_scopes db1 = all_scopes db" using 2(4,7) by (auto simp: all_scopes_def)
    then show ?thesis using e 2(9) by (simp add: all_scopes_put)
  qed (simp add: e)
qed

lemma rotate_key_keys:
  assumes "own_organization u = Inr org"
  shows "kd_keys (snd (rotate_key env c u i db)) =
    kd_keys (snd (rotate_api_key env (kc_fresh c) (kc_prefix_bytes c) (kc_secret_bytes c) org i (kc_now c) db))"
  using assms announce_eq by (auto simp: rotate_key_def split: sum.split prod.split)

lemma revoke_key_keys:
  assumes "own_organization u = Inr org" "kd_keys (snd (revoke_key c u i db)) \<noteq> kd_keys db"
  shows "kd_keys (snd (revoke_key c u i db)) = kd_keys (snd (revoke_api_key org i (kc_now c) db))"
proof (cases "find_api_key db org i")
  case (Some previous)
  obtain r db1 where k: "revoke_api_key org i (kc_now c) db = (r, db1)" by fastforce
  have "db1 = db" if "r = Inl e" for e using k that by (simp add: revoke_api_key_def Let_def split: if_splits)
  then show ?thesis using k Some assms(1) by (cases r) (simp_all add: revoke_key_def)
qed (use assms in \<open>simp add: revoke_key_def\<close>)

lemma key_step_scopes: "key_step env H db db' \<Longrightarrow> all_scopes db' \<subseteq> all_scopes db \<union> H \<inter> set catalogue_keys"
proof (induction rule: key_step.induct)
  case (kt_create u c iam db body)
  then show ?case by (rule create_key_scopes)
next
  case (kt_rotate db c u i)
  show ?case
  proof (cases "own_organization u")
    case (Inr org)
    have "all_scopes (snd (rotate_key env c u i db)) = all_scopes db"
      by (simp add: all_scopes_same[OF rotate_key_keys[OF Inr]] rotate_scopes)
    then show ?thesis by blast
  qed (simp add: rotate_key_def)
next
  case (kt_revoke db c u i)
  have "all_scopes (snd (revoke_key c u i db)) = all_scopes db"
  proof (cases "kd_keys (snd (revoke_key c u i db)) = kd_keys db")
    case False
    then obtain org where "own_organization u = Inr org" by (cases "own_organization u") (simp_all add: revoke_key_def)
    from all_scopes_same[OF revoke_key_keys[OF this False]] show ?thesis
      by (simp add: revoke_api_key_def Let_def all_scopes_put)
  qed (rule all_scopes_same)
  then show ?case by blast
next
  case (kt_authenticate db token now)
  have "all_scopes (snd (authenticate_key env token now db)) = all_scopes db"
    by (simp add: authenticate_key_def touch_last_used_def all_scopes_put split: option.split)
  then show ?case by blast
qed (simp add: all_scopes_def)

lemma key_path_scopes: "(key_step env H)\<^sup>*\<^sup>* db db' \<Longrightarrow> all_scopes db' \<subseteq> all_scopes db \<union> H \<inter> set catalogue_keys"
  by (induction rule: rtranclp_induct) (use key_step_scopes in blast)+

subsection \<open>Guarantees\<close>

lemma authenticate_key_Some:
  assumes "authenticate_key env token now db = (Some k, db')"
  shows "k \<in> set (kd_keys db) \<and> ke_hash env token = ak_key_hash k \<and> api_key_active_at k now \<and> token_prefix token = Some (ak_key_prefix k)"
  using assms find_Some_mem
  by (auto simp: authenticate_key_def verify_secret_iff split: option.splits if_splits) fastforce+

lemma active_iff: "api_key_active_at k now \<longleftrightarrow> ak_revoked_at k = None \<and> (case ak_expires_at k of None \<Rightarrow> True | Some t \<Rightarrow> now < t)"
  by (auto simp: api_key_active_at_def status_at_def split: option.split)

lemma kept_key_refused:
  assumes "keys_kept db db'" and "distinct (map ak_key_hash (kd_keys db))" and "k \<in> set (kd_keys db)"
    and "ke_hash env token = ak_key_hash k" and "\<not> api_key_active_at k now" and "now \<le> later"
  shows "fst (authenticate_key env token later db') = None"
proof (rule ccontr)
  assume "fst (authenticate_key env token later db') \<noteq> None"
  then obtain l db2 where "authenticate_key env token later db' = (Some l, db2)"
    by (metis option.exhaust prod.collapse)
  from authenticate_key_Some[OF this] have l: "l \<in> set (kd_keys db')" "ak_key_hash l = ak_key_hash k" "api_key_active_at l later"
    using assms(4) by simp_all
  have "key_kept k l" by (rule key_log.grown_row[OF _ assms(2,3) l(1,2)]) (use assms(1) in \<open>simp add: keys_kept_def\<close>)
  then show False using l(3) assms(5,6) unfolding active_iff key_kept_def by (auto split: option.splits)
qed

text \<open>C19. A key that was revoked, rotated or has expired never authenticates again, whatever keys are created, rotated, revoked or
  used after, by whomever.\<close>

theorem dead_key_stays_dead:
  assumes "(key_step env H)\<^sup>*\<^sup>* db db'" and "distinct (map ak_key_hash (kd_keys db))" and "k \<in> set (kd_keys db)"
    and "ke_hash env token = ak_key_hash k" and "\<not> api_key_active_at k now" and "now \<le> later"
  shows "fst (authenticate_key env token later db') = None"
  using key_path_kept[OF assms(1)] assms(2-) by (rule kept_key_refused)

text \<open>C20. No key carries a scope that the catalogue does not have or that nobody who created a key held: from tables without such a
  scope, whoever a token authenticates as, at any time after any operations, has scopes within what the
  creators of keys held.\<close>

theorem scopes_only_narrow:
  assumes "(key_step env H)\<^sup>*\<^sup>* db db'" and "all_scopes db \<subseteq> H \<inter> set catalogue_keys"
    and "authenticate_key env token now db' = (Some k, db2)"
  shows "set (ak_scopes k) \<subseteq> H \<inter> set catalogue_keys"
proof -
  have "set (ak_scopes k) \<subseteq> all_scopes db'" using authenticate_key_Some[OF assms(3)] by (auto simp: all_scopes_def)
  then show ?thesis using key_path_scopes[OF assms(1)] assms(2) by blast
qed

text \<open>The token a creation hands out authenticates as the new key, from then on until the key expires, as long as no other key
  has its prefix; and the key carries exactly the scopes asked for, cleaned, each of them held by the caller.\<close>

theorem issued_token_works:
  assumes "create_key env c iam u body db = (Inr (row, token), db')" and "kc_secret_bytes c \<noteq> []"
    and "ak_key_prefix row \<notin> ak_key_prefix ` set (kd_keys db)"
  shows "fst (authenticate_key env token t db') =
      (if (case ak_expires_at row of None \<Rightarrow> True | Some e \<Rightarrow> t < e) then Some row else None) \<and>
    set (ak_scopes row) = set (dedupe_scopes (bk_scopes body)) \<and>
    set (ak_scopes row) \<subseteq> {s. \<exists>org. iu_organization_id u = Some org \<and> s \<in> set (granted_keys (held_scopes (kc_now c) iam (iu_id u) org))}"
proof -
  from assms(1) show ?thesis
  proof (cases rule: create_key_cases)
    case (2 org scopes r secret db1)
    then have r: "r = row" "token = ks_token secret" by simp_all
    from 2(4) show ?thesis
    proof (cases rule: create_api_key_cases)
      case (2 q)
      let ?secret = "issue env (kc_prefix_bytes c) (kc_secret_bytes c) (bk_environment body)"
      have q: "q = row" "secret = ?secret" using 2(1) r by simp_all
      have prefix: "token_prefix token = Some (ak_key_prefix row)" using issued_token_prefix[OF assms(2)] 2(7) q r by simp
      have "ak_key_prefix k \<noteq> ak_key_prefix row" if "k \<in> set (kd_keys db)" for k using assms(3) that by (metis imageI)
      then have "find (\<lambda>k. ak_key_prefix k = ak_key_prefix row) (kd_keys db) = None" by (simp add: find_None_iff)
      then have "find (\<lambda>k. ak_key_prefix k = ak_key_prefix row) (kd_keys db') = Some row"
        using \<open>kd_keys db' = kd_keys db1\<close> 2(2) q by (simp add: find_snoc)
      moreover have "ke_hash env token = ak_key_hash row" using 2(8) q r issued_hash[of env] by simp
      moreover have "ak_revoked_at row = None" using 2(5) q by simp
      ultimately have "fst (authenticate_key env token t db') = (if (case ak_expires_at row of None \<Rightarrow> True | Some e \<Rightarrow> t < e) then Some row else None)"
        using prefix by (simp add: authenticate_key_def verify_secret_iff active_iff)
      moreover have "set (ak_scopes row) = set (dedupe_scopes (bk_scopes body))"
        using 2(4) q dedupe_again[OF \<open>mintable_from _ _ = Inr scopes\<close>] by simp
      ultimately show ?thesis using mintable_owned[OF \<open>mintable_from _ _ = Inr scopes\<close>] \<open>iu_organization_id u = Some org\<close> by auto
    qed simp
  qed simp
qed

subsection \<open>Where rotation and the picker part from their intent\<close>

text \<open>A rotation consults no permissions: whoever may rotate gets a token with the scopes of the key, held or not.\<close>

theorem rotation_checks_no_scopes:
  assumes "rotate_key env c u i db = (Inr (row, token), db')"
  shows "\<exists>org previous. iu_organization_id u = Some org \<and> find_api_key db org i = Some previous \<and> ak_scopes row = ak_scopes previous \<and>
    token = ks_token (issue env (kc_prefix_bytes c) (kc_secret_bytes c) (ak_environment previous))"
proof (cases "own_organization u")
  case (Inr org)
  obtain r db1 where k: "rotate_api_key env (kc_fresh c) (kc_prefix_bytes c) (kc_secret_bytes c) org i (kc_now c) db = (r, db1)" by fastforce
  from k show ?thesis
  proof (cases rule: rotate_api_key_cases)
    case (1 e)
    then show ?thesis using assms Inr k by (simp add: rotate_key_def)
  next
    case (2 previous row' db2)
    then show ?thesis using assms Inr k by (auto simp: rotate_key_def own_organization_Inr[symmetric] split: prod.splits sum.splits)
  qed
qed (use assms in \<open>simp add: rotate_key_def\<close>)

text \<open>A key whose name has 55 characters or more can never be rotated: the name of its successor is longer than the column takes.\<close>

theorem long_name_never_rotates:
  assumes "find_api_key db org i = Some previous" "ak_revoked_at previous = None" "ak_name previous = CHR ''a'' # rest" "length rest \<ge> 54"
  shows "rotate_api_key env fresh pb sb org i now db = (Inl DevDatabase, db)"
proof -
  have "\<not> key_row_allowed db k" if "ak_name k = CHR ''a'' # rest @ '' (rotated)''" for k
    using assms(4) that by (simp add: key_row_allowed_def btrim_def)
  then show ?thesis using assms(1-3) by (simp add: rotate_api_key_def Let_def insert_key_def)
qed

lemma push_scope_rows:
  "push_scope c row cs = Some cs' \<Longrightarrow> set (concat (map snd cs')) = insert row (set (concat (map snd cs)))"
proof (induction cs arbitrary: cs')
  case (Cons x cs)
  obtain k rows where x: "x = (k, rows)" by fastforce
  show ?case
  proof (cases "k = c")
    case True
    then have "cs' = (k, rows @ [row]) # cs" using Cons.prems x by simp
    then show ?thesis unfolding x by simp
  next
    case False
    then obtain z where z: "push_scope c row cs = Some z" "cs' = (k, rows) # z" using Cons.prems x by auto
    show ?thesis unfolding x z(2) using Cons.IH[OF z(1)] by simp
  qed
qed simp

lemma push_scope_None: "push_scope c row cs = None \<longleftrightarrow> c \<notin> set (map fst cs)"
  by (induction c row cs rule: push_scope.induct) (simp_all split: if_split)

definition picked :: "(string \<times> scope_row list) list \<Rightarrow> string set" where
  "picked cs = pd_key ` fst ` set (concat (map snd cs))"

lemma add_scope_picked: "picked (add_scope eff d cs) = picked cs \<union> (if pd_category d \<in> set (map fst cs) then {pd_key d} else {})"
proof (cases "push_scope (pd_category d) (d, allows eff (pd_key d)) cs")
  case (Some z)
  then have "pd_category d \<in> set (map fst cs)" using push_scope_None[of "pd_category d" "(d, allows eff (pd_key d))" cs] by fastforce
  then show ?thesis unfolding picked_def add_scope_def Some option.case push_scope_rows[OF Some] by simp
next
  case None
  then show ?thesis using push_scope_None[of "pd_category d" "(d, allows eff (pd_key d))" cs] by (simp add: add_scope_def picked_def)
qed

lemma fold_unpicked: "key \<notin> pd_key ` set ds \<Longrightarrow> key \<notin> picked cs \<Longrightarrow> key \<notin> picked (fold (add_scope eff) ds cs)"
  by (induction ds arbitrary: cs) (simp_all add: add_scope_picked)

text \<open>The picker does not offer the first permission of a category, such as the first of the catalogue.\<close>

theorem picker_hides_first_scope:
  assumes "list_scopes now iam u = Inr (categories, environments)"
  shows "''content.pages.read'' \<notin> picked categories"
proof -
  obtain org where c: "categories = fold (add_scope (held_scopes now iam (iu_id u) org)) CATALOGUE []"
    using assms by (auto simp: list_scopes_def res_bind_Inr_conv)
  obtain d rest where d: "CATALOGUE = d # rest" "pd_key d = ''content.pages.read''"
    by (simp add: CATALOGUE_def catalogue_content_and_media_def)
  have "distinct (map pd_key CATALOGUE)" using catalogue_keys_distinct by (simp only: catalogue_keys_def)
  then have "''content.pages.read'' \<notin> pd_key ` set rest" unfolding d(1) using d(2) by simp
  then show ?thesis unfolding c d(1) fold.simps comp_apply by (rule fold_unpicked) (simp add: add_scope_picked, simp add: picked_def)
qed

subsection \<open>A sample key\<close>

definition sample_key_env :: key_env where
  "sample_key_env = \<lparr>ke_hash = id, ke_ilike = (\<lambda>_ _. True)\<rparr>"

definition sample_key :: api_key where
  "sample_key = \<lparr>ak_id = 1, ak_organization_id = 1, ak_name = ''reader'', ak_environment = ''live'', ak_key_prefix = ''omndev_live_x'',
     ak_key_hash = ''omndev_live_x_y'', ak_scopes = [''content.pages.read''], ak_created_by = Some 3, ak_created_by_name = ''Ada'',
     ak_last_used_at = None, ak_expires_at = None, ak_revoked_at = None, ak_rotated_from = None, ak_created_at = 0\<rparr>"

definition sample_keys :: "int key_db" where
  "sample_keys = \<lparr>kd_keys = [sample_key], kd_organizations = [1], kd_users = [3], kd_audit = [],
     kd_bus = \<lparr>bd_organizations = [], bd_events = [], bd_endpoints = [], bd_deliveries = [], bd_runs = []\<rparr>\<rparr>"

definition sample_key_call :: key_call where
  "sample_key_call = \<lparr>kc_now = 10, kc_fresh = 2, kc_prefix_bytes = [1], kc_secret_bytes = [2], kc_event_id = 1, kc_delivery_ids = (\<lambda>k. k),
     kc_uuid_text = show_nat, kc_audited = True\<rparr>"

definition sample_caller :: id_user where
  "sample_caller = \<lparr>iu_id = 3, iu_organization_id = Some 1, iu_email = ''a@b.c'', iu_display_name = ''Ada'', iu_status = ''active'', iu_created_at = 0\<rparr>"

definition sample_rotated :: "int key_db" where
  "sample_rotated = snd (rotate_key sample_key_env sample_key_call sample_caller 1 sample_keys)"

lemma sample_issued: "issue sample_key_env [1] [2] ''live'' =
    \<lparr>ks_token = ''omndev_live_b_c'', ks_prefix = ''omndev_live_b'', ks_hash = ''omndev_live_b_c''\<rparr>"
  by (simp add: issue_def random_text_def alphabet_char_def KEY_ALPHABET_def sample_key_env_def parse_environment_def ENVIRONMENTS_def
    ENVIRONMENT_LIVE_def KEY_NAMESPACE_def PREFIX_LENGTH_def SECRET_LENGTH_def Let_def)

definition sample_successor :: api_key where
  "sample_successor = sample_key\<lparr>ak_id := 2, ak_name := ''reader (rotated)'', ak_key_prefix := ''omndev_live_b'', ak_key_hash := ''omndev_live_b_c'',
     ak_rotated_from := Some 1, ak_created_at := 10\<rparr>"

lemma sample_rotated_api: "rotate_api_key sample_key_env 2 [1] [2] 1 1 10 sample_keys =
    (Inr (sample_successor, \<lparr>ks_token = ''omndev_live_b_c'', ks_prefix = ''omndev_live_b'', ks_hash = ''omndev_live_b_c''\<rparr>),
     sample_keys\<lparr>kd_keys := [sample_key\<lparr>ak_revoked_at := Some 10\<rparr>, sample_successor]\<rparr>)"
proof -
  have key: "ak_environment sample_key = ''live''" "ak_revoked_at sample_key = None" "ak_id sample_key = 1" "ak_name sample_key = ''reader''"
      "find_api_key sample_keys 1 1 = Some sample_key" "kd_keys sample_keys = [sample_key]" "ak_id sample_successor = 2"
    by (simp_all add: find_api_key_def sample_keys_def sample_key_def sample_successor_def)
  have row: "sample_key\<lparr>ak_id := 2, ak_name := ''reader (rotated)'', ak_key_prefix := ''omndev_live_b'', ak_key_hash := ''omndev_live_b_c'',
      ak_last_used_at := None, ak_rotated_from := Some 1, ak_created_at := 10\<rparr> = sample_successor"
    by (simp add: sample_successor_def sample_key_def)
  have "key_row_allowed sample_keys sample_successor" by code_simp
  then show ?thesis using row by (simp add: rotate_api_key_def key sample_issued insert_key_def put_key_def del: One_nat_def)
qed

lemma sample_path: "(key_step sample_key_env {''content.pages.read''})\<^sup>*\<^sup>* sample_keys sample_rotated"
  unfolding sample_rotated_def by (rule r_into_rtranclp, rule kt_rotate)

lemma sample_rotated_keys: "kd_keys sample_rotated = [sample_key\<lparr>ak_revoked_at := Some 10\<rparr>, sample_successor]"
proof -
  have own: "own_organization sample_caller = Inr 1" by (simp add: own_organization_Inr sample_caller_def)
  have c: "kc_fresh sample_key_call = 2" "kc_prefix_bytes sample_key_call = [1]" "kc_secret_bytes sample_key_call = [2]" "kc_now sample_key_call = 10"
    by (simp_all add: sample_key_call_def)
  show ?thesis unfolding sample_rotated_def rotate_key_keys[OF own] c sample_rotated_api by simp
qed

text \<open>The rotated key: its old token is dead, its new one has the scopes of the old.\<close>

theorem dead_key_stays_dead_witness:
  "fst (authenticate_key sample_key_env ''omndev_live_x_y'' 30 (snd (rotate_key sample_key_env sample_key_call sample_caller 2 sample_rotated))) = None"
proof (rule dead_key_stays_dead[where k = "sample_key\<lparr>ak_revoked_at := Some 10\<rparr>" and db = sample_rotated and now = 20 and H = "{}"])
  show "(key_step sample_key_env {})\<^sup>*\<^sup>* sample_rotated (snd (rotate_key sample_key_env sample_key_call sample_caller 2 sample_rotated))"
    by (rule r_into_rtranclp, rule kt_rotate)
qed (simp_all add: sample_rotated_keys sample_key_def sample_successor_def sample_key_env_def active_iff)

theorem scopes_only_narrow_witness:
  "authenticate_key sample_key_env ''omndev_live_b_c'' 30 sample_rotated = (Some sample_successor, touch_last_used 2 30 sample_rotated) \<and>
   set (ak_scopes sample_successor) \<subseteq> {''content.pages.read''} \<inter> set catalogue_keys"
proof
  have "token_prefix ''omndev_live_b_c'' = Some ''omndev_live_b''" by code_simp
  then show a: "authenticate_key sample_key_env ''omndev_live_b_c'' 30 sample_rotated = (Some sample_successor, touch_last_used 2 30 sample_rotated)"
    by (simp add: authenticate_key_def sample_rotated_keys sample_key_def sample_successor_def active_iff verify_secret_iff sample_key_env_def)
  have "''content.pages.read'' \<in> set catalogue_keys" by (simp add: catalogue_keys_def catalogue_defs)
  then have "all_scopes sample_keys \<subseteq> {''content.pages.read''} \<inter> set catalogue_keys"
    by (simp add: all_scopes_def sample_keys_def sample_key_def)
  from scopes_only_narrow[OF sample_path this a] show "set (ak_scopes sample_successor) \<subseteq> {''content.pages.read''} \<inter> set catalogue_keys" .
qed

end
