(* ===== verification/Guards.thy ===== *)
theory Guards
  imports ApiKeyLaws Subjects SessionLaws
begin

text \<open>
  The guard in front of every route (\<open>apps/api/src/guards.rs\<close>, with \<open>CurrentSession::resolve\<close> of
  \<open>auth.rs\<close>): it puts the parts together, the session cookie or the bearer key, the authorisation of
  theory \<open>Authorize\<close> and the scopes of a developer key. The details of a refusal, which repeat the
  simulator's report, and the messages are dropped.
\<close>

datatype guard_kind = GuardSession | GuardSessionOrMachine | GuardSessionOrDeveloperKey

record machine_principal =
  mp_account :: subject
  mp_organization_id :: uuid
  mp_key_id :: uuid
  mp_key_prefix :: "string option"

record current_session =
  cs_user :: id_user
  cs_session :: session
  cs_token :: string

datatype caller = CallerSession current_session | CallerMachine machine_principal

datatype guard_error = GeUnauthenticated | GeInvalidSession | GePermissionDenied | GeScopeMissing | GeInvalidMachineKey | GeStore permissions_error

text \<open>What the guard tells the request log.\<close>

record resolved_principal =
  rp_user_id :: "uuid option"
  rp_user_name :: string
  rp_api_key_id :: "uuid option"
  rp_api_key_prefix :: "string option"
  rp_organization_id :: "uuid option"
  rp_permission :: "string option"

record ('n, 'f) guard_env =
  ge_sessions :: session_env
  ge_keys :: key_env
  ge_hash_secret :: "string \<Rightarrow> string"
  ge_as_f64 :: "'n \<Rightarrow> 'f"
  ge_show_uuid :: "uuid \<Rightarrow> string"

text \<open>The tables the guard reads; the roles, bindings and groups are those of the subjects.\<close>

record 'n guard_db =
  gd_sessions :: "'n session_db"
  gd_subjects :: subject_db
  gd_policies :: "'n policy_db"
  gd_keys :: "'n key_db"

definition user_scope :: "id_user \<Rightarrow> scope" where
  "user_scope u = (case iu_organization_id u of Some org \<Rightarrow> ScopeOrganization org | None \<Rightarrow> ScopeGlobal)"

definition asked :: "string \<Rightarrow> resolved_principal" where
  "asked permission = \<lparr>rp_user_id = None, rp_user_name = [], rp_api_key_id = None, rp_api_key_prefix = None, rp_organization_id = None,
     rp_permission = Some permission\<rparr>"

definition session_principal :: "id_user \<Rightarrow> string \<Rightarrow> resolved_principal" where
  "session_principal u permission = \<lparr>rp_user_id = Some (iu_id u), rp_user_name = display_name u, rp_api_key_id = None, rp_api_key_prefix = None,
     rp_organization_id = iu_organization_id u, rp_permission = Some permission\<rparr>"

definition machine_principal_of :: "machine_principal \<Rightarrow> string \<Rightarrow> resolved_principal" where
  "machine_principal_of m permission = \<lparr>rp_user_id = None, rp_user_name = [], rp_api_key_id = Some (mp_key_id m),
     rp_api_key_prefix = mp_key_prefix m, rp_organization_id = Some (mp_organization_id m), rp_permission = Some permission\<rparr>"

definition resolve_current :: "session_env \<Rightarrow> instant \<Rightarrow> 'n session_db \<Rightarrow> csrf_request \<Rightarrow> guard_error + current_session" where
  "resolve_current env now db r =
     (case session_token r of
        None \<Rightarrow> Inl GeUnauthenticated
      | Some token \<Rightarrow>
          (case resolve_session env now db token of
             None \<Rightarrow> Inl GeInvalidSession
           | Some (s, u) \<Rightarrow> Inr \<lparr>cs_user = u, cs_session = s, cs_token = token\<rparr>))"

type_synonym guard_answer = "(guard_error \<times> resolved_principal option) + caller"

definition check_session ::
  "('n, 'f::linorder) guard_env \<Rightarrow> instant \<Rightarrow> 'n guard_db \<Rightarrow> csrf_request \<Rightarrow> string \<Rightarrow> guard_answer" where
  "check_session env now db r permission =
     (case resolve_current (ge_sessions env) now (gd_sessions db) r of
        Inl e \<Rightarrow> Inl (e, Some (asked permission))
      | Inr cs \<Rightarrow>
          (case authorize (ge_as_f64 env) (ge_show_uuid env) now (sd_iam (gd_subjects db)) (gd_policies db) (iu_id (cs_user cs))
                  (user_scope (cs_user cs)) permission of
             Inl e \<Rightarrow> Inl (GeStore e, None)
           | Inr (Allowed _) \<Rightarrow> Inr (CallerSession cs)
           | Inr (Denied _ _) \<Rightarrow> Inl (GePermissionDenied, Some (session_principal (cs_user cs) permission))))"

text \<open>A developer key: its scopes are the authorisation.\<close>

definition check_developer_key :: "api_key \<Rightarrow> string \<Rightarrow> guard_answer" where
  "check_developer_key k permission =
     (if permission \<notin> set (ak_scopes k)
      then Inl (GeScopeMissing, Some \<lparr>rp_user_id = None, rp_user_name = [], rp_api_key_id = Some (ak_id k),
        rp_api_key_prefix = Some (ak_key_prefix k), rp_organization_id = Some (ak_organization_id k), rp_permission = Some permission\<rparr>)
      else Inr (CallerMachine \<lparr>mp_account = SubjectUser (case ak_created_by k of None \<Rightarrow> 0 | Some u \<Rightarrow> u),
        mp_organization_id = ak_organization_id k, mp_key_id = ak_id k, mp_key_prefix = Some (ak_key_prefix k)\<rparr>))"

definition machine_context :: "service_account \<Rightarrow> resource_context" where
  "machine_context a = \<lparr>rc_organization_id = Some (sa_organization_id a), rc_site_id = None, rc_department = None, rc_module = None, rc_path = None\<rparr>"

definition machine_of :: "authenticated_machine \<Rightarrow> machine_principal" where
  "machine_of m = \<lparr>mp_account = SubjectServiceAccount (sa_id (am_account m)), mp_organization_id = sa_organization_id (am_account m),
     mp_key_id = key_id (am_key m), mp_key_prefix = Some (key_prefix (am_key m))\<rparr>"

definition check_machine ::
  "('n, 'f::linorder) guard_env \<Rightarrow> instant \<Rightarrow> 'n guard_db \<Rightarrow> authenticated_machine \<Rightarrow> string \<Rightarrow> guard_answer" where
  "check_machine env now db m permission =
     (case authorize_subject (ge_as_f64 env) (ge_show_uuid env) now (sd_iam (gd_subjects db)) (gd_policies db)
             (SubjectServiceAccount (sa_id (am_account m))) (machine_context (am_account m)) permission of
        Inr (Allowed _) \<Rightarrow> Inr (CallerMachine (machine_of m))
      | Inr (Denied _ _) \<Rightarrow> Inl (GePermissionDenied, Some (machine_principal_of (machine_of m) permission))
      | Inl e \<Rightarrow> Inl (GeStore e, Some (machine_principal_of (machine_of m) permission)))"

definition check_kind_reporting ::
  "('n, 'f::linorder) guard_env \<Rightarrow> instant \<Rightarrow> 'n guard_db \<Rightarrow> csrf_request \<Rightarrow> string \<Rightarrow> guard_kind \<Rightarrow> guard_answer \<times> 'n guard_db" where
  "check_kind_reporting env now db r permission kind =
     (if session_token r \<noteq> None then (check_session env now db r permission, db)
      else
        (let (developer, db1) =
           (case (kind, bearer_token r) of
              (GuardSessionOrDeveloperKey, Some bearer) \<Rightarrow>
                (case authenticate_key (ge_keys env) bearer now (gd_keys db) of (k, keys) \<Rightarrow> (k, db\<lparr>gd_keys := keys\<rparr>))
            | _ \<Rightarrow> (None, db))
         in case developer of
              Some k \<Rightarrow> (check_developer_key k permission, db1)
            | None \<Rightarrow>
                (case (kind, bearer_token r) of
                   (GuardSessionOrMachine, Some bearer) \<Rightarrow>
                     (case Subjects.authenticate (ge_hash_secret env) now (gd_subjects db1) bearer of
                        (None, subjects) \<Rightarrow> (Inl (GeInvalidMachineKey, None), db1\<lparr>gd_subjects := subjects\<rparr>)
                      | (Some m, subjects) \<Rightarrow> (check_machine env now (db1\<lparr>gd_subjects := subjects\<rparr>) m permission, db1\<lparr>gd_subjects := subjects\<rparr>))
                 | _ \<Rightarrow> (Inl (GeUnauthenticated, Some (asked permission)), db1))))"

definition check_kind ::
  "('n, 'f::linorder) guard_env \<Rightarrow> instant \<Rightarrow> 'n guard_db \<Rightarrow> csrf_request \<Rightarrow> string \<Rightarrow> guard_kind \<Rightarrow> (guard_error + caller) \<times> 'n guard_db" where
  "check_kind env now db r permission kind =
     (case check_kind_reporting env now db r permission kind of
        (Inl (e, _), db') \<Rightarrow> (Inl e, db') | (Inr c, db') \<Rightarrow> (Inr c, db'))"

definition check :: "('n, 'f::linorder) guard_env \<Rightarrow> instant \<Rightarrow> 'n guard_db \<Rightarrow> csrf_request \<Rightarrow> string \<Rightarrow> (guard_error + current_session) \<times> 'n guard_db" where
  "check env now db r permission =
     (case check_kind env now db r permission GuardSession of
        (Inl e, db') \<Rightarrow> (Inl e, db')
      | (Inr (CallerSession cs), db') \<Rightarrow> (Inr cs, db')
      | (Inr (CallerMachine _), db') \<Rightarrow> (Inl GeUnauthenticated, db'))"

text \<open>What the layer attaches to the response, whatever the decision.\<close>

definition principal_of :: "guard_answer \<Rightarrow> string \<Rightarrow> resolved_principal" where
  "principal_of answer permission =
     (case answer of
        Inr (CallerSession cs) \<Rightarrow> session_principal (cs_user cs) permission
      | Inr (CallerMachine m) \<Rightarrow> machine_principal_of m permission
      | Inl (_, Some partial) \<Rightarrow> partial
      | Inl (_, None) \<Rightarrow> asked permission)"

end
