(* ===== verification/GuardLaws.thy ===== *)
theory GuardLaws
  imports Guards
begin

text \<open>
  What the guard promises: nobody passes without a live credential that carries the permission, and a
  credential that has died stays outside, whatever happens to the tables.
\<close>

subsection \<open>Who passes\<close>

text \<open>What a guard vouches for when it lets a caller through.\<close>

definition session_vouched :: "('n, 'f::linorder) guard_env \<Rightarrow> instant \<Rightarrow> 'n guard_db \<Rightarrow> csrf_request \<Rightarrow> string \<Rightarrow> current_session \<Rightarrow> bool" where
  "session_vouched env now db r permission cs \<longleftrightarrow>
     session_token r = Some (cs_token cs) \<and> user_is_active (cs_user cs) \<and>
     find_user (ss_sign (gd_sessions db)) (se_user_id (cs_session cs)) = Some (cs_user cs) \<and>
     (\<exists>s. s \<in> set (ss_sessions (gd_sessions db)) \<and> cs_session cs = session.truncate s \<and> session_live now s \<and>
        sr_token_hash s = hash_token (ge_sessions env) (cs_token cs)) \<and>
     (\<exists>g. authorize (ge_as_f64 env) (ge_show_uuid env) now (sd_iam (gd_subjects db)) (gd_policies db) (iu_id (cs_user cs))
        (user_scope (cs_user cs)) permission = Inr (Allowed g))"

definition developer_key_vouched :: "('n, 'f::linorder) guard_env \<Rightarrow> instant \<Rightarrow> 'n guard_db \<Rightarrow> csrf_request \<Rightarrow> string \<Rightarrow> machine_principal \<Rightarrow> bool" where
  "developer_key_vouched env now db r permission m \<longleftrightarrow>
     session_token r = None \<and>
     (\<exists>token k. bearer_token r = Some token \<and> k \<in> set (kd_keys (gd_keys db)) \<and> ke_hash (ge_keys env) token = ak_key_hash k \<and>
        api_key_active_at k now \<and> permission \<in> set (ak_scopes k) \<and> mp_key_id m = ak_id k \<and> mp_organization_id m = ak_organization_id k)"

definition service_account_vouched :: "('n, 'f::linorder) guard_env \<Rightarrow> instant \<Rightarrow> 'n guard_db \<Rightarrow> csrf_request \<Rightarrow> string \<Rightarrow> machine_principal \<Rightarrow> bool" where
  "service_account_vouched env now db r permission m \<longleftrightarrow>
     session_token r = None \<and>
     (\<exists>a k stored. bearer_token r \<noteq> None \<and> (k, stored) \<in> set (sd_keys (gd_subjects db)) \<and> a \<in> set (sd_accounts (gd_subjects db)) \<and>
        key_service_account_id k = sa_id a \<and> account_is_active_at a now \<and> key_is_active_at k now \<and>
        m = machine_of \<lparr>am_account = a, am_key = k\<rparr> \<and>
        (\<exists>g. authorize_subject (ge_as_f64 env) (ge_show_uuid env) now (sd_iam (gd_subjects db)) (gd_policies db)
           (SubjectServiceAccount (sa_id a)) (machine_context a) permission = Inr (Allowed g)))"

lemma resolve_session_Some:
  assumes "resolve_session env now db token = Some (s, u)"
  shows "user_is_active u \<and> find_user (ss_sign db) (se_user_id s) = Some u \<and>
    (\<exists>row. row \<in> set (ss_sessions db) \<and> s = session.truncate row \<and> session_live now row \<and> sr_token_hash row = hash_token env token)"
proof -
  obtain row where f: "find (session_resolves env now db token) (ss_sessions db) = Some row" "s = session.truncate row"
      "find_user (ss_sign db) (se_user_id row) = Some u"
    using assms by (auto simp: resolve_session_def split: Option.bind_splits)
  then have "session_resolves env now db token row" "row \<in> set (ss_sessions db)" using find_Some_mem by fastforce+
  then show ?thesis using f by (auto simp: session_resolves_def user_is_active_def session.truncate_def)
qed

lemma check_session_vouched:
  assumes "check_session env now db r permission = Inr c"
  shows "\<exists>cs. c = CallerSession cs \<and> session_vouched env now db r permission cs"
proof -
  obtain cs g where cs: "resolve_current (ge_sessions env) now (gd_sessions db) r = Inr cs" "c = CallerSession cs"
      "authorize (ge_as_f64 env) (ge_show_uuid env) now (sd_iam (gd_subjects db)) (gd_policies db) (iu_id (cs_user cs))
        (user_scope (cs_user cs)) permission = Inr (Allowed g)"
    using assms by (auto simp: check_session_def split: sum.splits decision.splits)
  obtain token s u where t: "session_token r = Some token" "resolve_session (ge_sessions env) now (gd_sessions db) token = Some (s, u)"
      "cs = \<lparr>cs_user = u, cs_session = s, cs_token = token\<rparr>"
    using cs(1) by (auto simp: resolve_current_def split: option.splits)
  show ?thesis using cs resolve_session_Some[OF t(2)] t by (simp add: session_vouched_def)
qed

lemma authenticate_Some:
  assumes "Subjects.authenticate hash now db token = (Some m, db')"
  shows "(\<exists>stored. (am_key m, stored) \<in> set (sd_keys db)) \<and> am_account m \<in> set (sd_accounts db) \<and>
    key_service_account_id (am_key m) = sa_id (am_account m) \<and> account_is_active_at (am_account m) now \<and> key_is_active_at (am_key m) now \<and>
    sd_iam db' = sd_iam db"
proof -
  obtain prefix secret where "split_token token = Some (prefix, secret)"
    using assms by (auto simp: authenticate_def split: option.splits)
  then obtain k stored a where f: "find (\<lambda>(k, _). key_prefix k = prefix \<and> find_account db (key_service_account_id k) \<noteq> None) (sd_keys db) = Some (k, stored)"
      "find_account db (key_service_account_id k) = Some a" "account_is_active_at a now" "key_is_active_at k now"
      "m = \<lparr>am_account = a, am_key = k\<rparr>" "db' = record_use now k a db"
    using assms by (auto simp: authenticate_def split: option.splits if_splits)
  have "(k, stored) \<in> set (sd_keys db)" using find_Some_mem[OF f(1)] by simp
  moreover have "a \<in> set (sd_accounts db)" "sa_id a = key_service_account_id k" using find_Some_mem f(2) unfolding find_account_def by fastforce+
  ultimately show ?thesis using f by (auto simp: record_use_def)
qed

text \<open>The answer without a cookie, by the kind of the guard.\<close>

lemma check_kind_bearer:
  assumes "session_token r = None"
  shows "fst (check_kind_reporting env now db r permission GuardSession) = Inl (GeUnauthenticated, Some (asked permission))"
    and "fst (check_kind_reporting env now db r permission GuardSessionOrDeveloperKey) =
      (case bearer_token r of None \<Rightarrow> Inl (GeUnauthenticated, Some (asked permission))
       | Some token \<Rightarrow> (case fst (authenticate_key (ge_keys env) token now (gd_keys db)) of
           None \<Rightarrow> Inl (GeUnauthenticated, Some (asked permission)) | Some k \<Rightarrow> check_developer_key k permission))"
    and "fst (check_kind_reporting env now db r permission GuardSessionOrMachine) =
      (case bearer_token r of None \<Rightarrow> Inl (GeUnauthenticated, Some (asked permission))
       | Some token \<Rightarrow> (case Subjects.authenticate (ge_hash_secret env) now (gd_subjects db) token of
           (None, _) \<Rightarrow> Inl (GeInvalidMachineKey, None) | (Some m, subjects) \<Rightarrow> check_machine env now (db\<lparr>gd_subjects := subjects\<rparr>) m permission))"
  using assms by (simp_all add: check_kind_reporting_def split: option.split prod.split)

lemma check_kind_cookie: "session_token r \<noteq> None \<Longrightarrow> fst (check_kind_reporting env now db r permission kind) = check_session env now db r permission"
  by (simp add: check_kind_reporting_def)

lemma check_machine_vouched:
  assumes "session_token r = None" "bearer_token r = Some token"
    and "Subjects.authenticate (ge_hash_secret env) now (gd_subjects db) token = (Some m, subjects)"
    and "check_machine env now (db\<lparr>gd_subjects := subjects\<rparr>) m permission = Inr c"
  shows "\<exists>p. c = CallerMachine p \<and> service_account_vouched env now db r permission p"
proof -
  note a = authenticate_Some[OF assms(3)]
  have "\<exists>g. authorize_subject (ge_as_f64 env) (ge_show_uuid env) now (sd_iam (gd_subjects db)) (gd_policies db)
      (SubjectServiceAccount (sa_id (am_account m))) (machine_context (am_account m)) permission = Inr (Allowed g)"
    and "c = CallerMachine (machine_of m)"
    using assms(4) a by (auto simp: check_machine_def split: sum.splits decision.splits)
  moreover have "m = \<lparr>am_account = am_account m, am_key = am_key m\<rparr>" by simp
  ultimately show ?thesis unfolding service_account_vouched_def using a assms(1,2) by (metis option.distinct(1))
qed

lemma check_developer_key_vouched:
  assumes "session_token r = None" "bearer_token r = Some token"
    and "fst (authenticate_key (ge_keys env) token now (gd_keys db)) = Some k" and "check_developer_key k permission = Inr c"
  shows "\<exists>p. c = CallerMachine p \<and> developer_key_vouched env now db r permission p"
proof -
  obtain keys where "authenticate_key (ge_keys env) token now (gd_keys db) = (Some k, keys)" using assms(3) by (metis prod.collapse)
  note a = authenticate_key_Some[OF this]
  have "permission \<in> set (ak_scopes k)" "\<exists>p. c = CallerMachine p \<and> mp_key_id p = ak_id k \<and> mp_organization_id p = ak_organization_id k"
    using assms(4) by (auto simp: check_developer_key_def split: if_splits)
  then show ?thesis unfolding developer_key_vouched_def using a assms(1,2) by blast
qed

lemma passed_is_vouched:
  assumes "fst (check_kind_reporting env now db r permission kind) = Inr c"
  shows "(\<exists>cs. c = CallerSession cs \<and> session_vouched env now db r permission cs) \<or>
    (\<exists>m. c = CallerMachine m \<and> (kind = GuardSessionOrDeveloperKey \<and> developer_key_vouched env now db r permission m \<or>
       kind = GuardSessionOrMachine \<and> service_account_vouched env now db r permission m))"
proof (cases "session_token r")
  case (Some token)
  then show ?thesis using assms check_kind_cookie[of r env now db permission kind] check_session_vouched by fastforce
next
  case None
  show ?thesis
  proof (cases kind)
    case GuardSession
    then have "Inl (GeUnauthenticated, Some (asked permission)) = (Inr c :: guard_answer)"
      using assms by (simp only: check_kind_bearer(1)[OF None])
    then show ?thesis by simp
  next
    case GuardSessionOrMachine
    note ans = assms[unfolded GuardSessionOrMachine check_kind_bearer(3)[OF None]]
    obtain token where token: "bearer_token r = Some token" using ans by (cases "bearer_token r") simp_all
    obtain m subjects where a: "Subjects.authenticate (ge_hash_secret env) now (gd_subjects db) token = (m, subjects)" by fastforce
    obtain m' where m: "m = Some m'" using ans token a by (cases m) simp_all
    have "check_machine env now (db\<lparr>gd_subjects := subjects\<rparr>) m' permission = Inr c" using ans token a m by simp
    from check_machine_vouched[OF None token a[unfolded m] this] show ?thesis using GuardSessionOrMachine by blast
  next
    case GuardSessionOrDeveloperKey
    note ans = assms[unfolded GuardSessionOrDeveloperKey check_kind_bearer(2)[OF None]]
    obtain token where token: "bearer_token r = Some token" using ans by (cases "bearer_token r") simp_all
    obtain k where k: "fst (authenticate_key (ge_keys env) token now (gd_keys db)) = Some k"
      using ans token by (cases "fst (authenticate_key (ge_keys env) token now (gd_keys db))") simp_all
    have "check_developer_key k permission = Inr c" using ans token k by simp
    from check_developer_key_vouched[OF None token k this] show ?thesis using GuardSessionOrDeveloperKey by blast
  qed
qed

subsection \<open>The tables over time\<close>

text \<open>Sessions and keys move as their theories say, every request may use a key, and the roles, bindings, accounts and policies may
  change in any way.\<close>

inductive guard_step :: "('n, 'f::linorder) guard_env \<Rightarrow> 'n guard_db \<Rightarrow> 'n guard_db \<Rightarrow> bool" for env where
  gs_sessions: "session_step (ge_sessions env) (gd_sessions db) sessions \<Longrightarrow> guard_step env db (db\<lparr>gd_sessions := sessions\<rparr>)"
| gs_keys: "key_step (ge_keys env) UNIV (gd_keys db) keys \<Longrightarrow> guard_step env db (db\<lparr>gd_keys := keys\<rparr>)"
| gs_subjects: "guard_step env db (db\<lparr>gd_subjects := subjects\<rparr>)"
| gs_policies: "guard_step env db (db\<lparr>gd_policies := policies\<rparr>)"
| gs_request: "guard_step env db (snd (check_kind_reporting env now db r permission kind))"

lemma check_kind_tables:
  "gd_sessions (snd (check_kind_reporting env now db r permission kind)) = gd_sessions db \<and>
   (\<exists>token now'. gd_keys (snd (check_kind_reporting env now db r permission kind)) \<in>
      {gd_keys db, snd (authenticate_key (ge_keys env) token now' (gd_keys db))})"
proof (cases "session_token r \<noteq> None \<or> bearer_token r = None")
  case True
  then show ?thesis by (auto simp: check_kind_reporting_def split: guard_kind.split)
next
  case False
  then obtain token where t: "session_token r = None" "bearer_token r = Some token" by auto
  obtain k keys where k: "authenticate_key (ge_keys env) token now (gd_keys db) = (k, keys)" by fastforce
  obtain m subjects where m: "Subjects.authenticate (ge_hash_secret env) now (gd_subjects db) token = (m, subjects)" by fastforce
  have "gd_sessions (snd (check_kind_reporting env now db r permission kind)) = gd_sessions db \<and>
      gd_keys (snd (check_kind_reporting env now db r permission kind)) \<in> {gd_keys db, snd (authenticate_key (ge_keys env) token now (gd_keys db))}"
    by (cases kind; cases k; cases m) (simp_all add: check_kind_reporting_def t k m)
  then show ?thesis by blast
qed

lemma guard_step_parts:
  assumes "guard_step env db db'"
  shows "sessions_kept (gd_sessions db) (gd_sessions db') \<and> keys_kept (gd_keys db) (gd_keys db')"
  using assms
proof (cases rule: guard_step.cases)
  case (gs_request now r permission kind)
  then show ?thesis using check_kind_tables[of env now db r permission kind] sessions_kept_same keys_kept_same key_ops_kept(3) by (metis insertE singletonD)
qed (simp_all add: sessions_kept_same keys_kept_same session_step_kept key_step_kept)

lemma guard_path_parts:
  "(guard_step env)\<^sup>*\<^sup>* db db' \<Longrightarrow> sessions_kept (gd_sessions db) (gd_sessions db') \<and> keys_kept (gd_keys db) (gd_keys db')"
proof (induction rule: rtranclp_induct)
  case base
  show ?case by (simp add: sessions_kept_same keys_kept_same)
next
  case (step db1 db2)
  then show ?case using guard_step_parts[OF step(2)] sessions_kept_trans keys_kept_trans by blast
qed

subsection \<open>Guarantees\<close>

text \<open>A credential that is over: a session that was revoked or has passed its end, or a developer key that was revoked, rotated or has
  expired, presented without a cookie.\<close>

definition session_over :: "instant \<Rightarrow> session_row \<Rightarrow> bool" where
  "session_over now s \<longleftrightarrow> se_revoked_at s \<noteq> None \<or> se_expires_at s \<le> now"

definition presents_dead :: "('n, 'f::linorder) guard_env \<Rightarrow> instant \<Rightarrow> 'n guard_db \<Rightarrow> csrf_request \<Rightarrow> bool" where
  "presents_dead env now db r \<longleftrightarrow>
     (case session_token r of
        Some token \<Rightarrow> list_ex (\<lambda>s. sr_token_hash s = hash_token (ge_sessions env) token \<and> session_over now s) (ss_sessions (gd_sessions db))
      | None \<Rightarrow>
          (case bearer_token r of
             None \<Rightarrow> False
           | Some token \<Rightarrow> list_ex (\<lambda>k. ke_hash (ge_keys env) token = ak_key_hash k \<and> \<not> api_key_active_at k now) (kd_keys (gd_keys db))))"

lemma unresolved_session_refused:
  assumes "session_token r = Some token" "resolve_session (ge_sessions env) now (gd_sessions db) token = None"
  shows "fst (check_kind_reporting env now db r permission kind) = Inl (GeInvalidSession, Some (asked permission))"
  using assms by (simp add: check_kind_cookie check_session_def resolve_current_def)

lemma unknown_key_refused:
  assumes "session_token r = None" "bearer_token r = Some token" "fst (authenticate_key (ge_keys env) token now (gd_keys db)) = None"
  shows "fst (check_kind_reporting env now db r permission GuardSessionOrDeveloperKey) = Inl (GeUnauthenticated, Some (asked permission))"
  using assms by (simp add: check_kind_bearer(2))

lemma dead_stays_outside:
  assumes "(guard_step env)\<^sup>*\<^sup>* db db'" and "distinct (hashes (gd_sessions db))" and "distinct (map ak_key_hash (kd_keys (gd_keys db)))"
    and "presents_dead env now db r" and "now \<le> later" and "kind \<noteq> GuardSessionOrMachine"
  shows "fst (check_kind_reporting env later db' r permission kind) =
    Inl (if session_token r = None then GeUnauthenticated else GeInvalidSession, Some (asked permission))"
proof (cases "session_token r")
  case (Some token)
  then obtain s where s: "s \<in> set (ss_sessions (gd_sessions db))" "sr_token_hash s = hash_token (ge_sessions env) token" "session_over now s"
    using assms(4) by (auto simp: presents_dead_def list_ex_iff)
  have over: "se_revoked_at s \<noteq> None \<or> se_expires_at s \<le> later" using s(3) assms(5) by (auto simp: session_over_def)
  have "resolve_session (ge_sessions env) later (gd_sessions db') token = None"
    by (rule kept_never_resolves[OF _ assms(2) s(1,2) over]) (simp add: guard_path_parts[OF assms(1)])
  then show ?thesis using Some unresolved_session_refused[OF Some] by simp
next
  case None
  then obtain token where token: "bearer_token r = Some token" using assms(4) by (auto simp: presents_dead_def split: option.splits)
  obtain k where k: "k \<in> set (kd_keys (gd_keys db))" "ke_hash (ge_keys env) token = ak_key_hash k" "\<not> api_key_active_at k now"
    using assms(4) None token by (auto simp: presents_dead_def list_ex_iff)
  have "fst (authenticate_key (ge_keys env) token later (gd_keys db')) = None"
    by (rule kept_key_refused[OF _ assms(3) k assms(5)]) (simp add: guard_path_parts[OF assms(1)])
  from unknown_key_refused[OF None token this] show ?thesis
    using None assms(6) by (cases kind) (simp_all add: check_kind_bearer(1))
qed



text \<open>A guard for developer keys refuses every other bearer, that of a service account included.\<close>

lemma developer_guard_refuses_machine_keys:
  assumes "session_token r = None" "bearer_token r = Some token"
    and "find (\<lambda>k. ke_hash (ge_keys env) token = ak_key_hash k) (kd_keys (gd_keys db)) = None"
  shows "fst (check_kind_reporting env now db r permission GuardSessionOrDeveloperKey) = Inl (GeUnauthenticated, Some (asked permission))"
proof (rule unknown_key_refused[OF assms(1,2)], rule ccontr)
  assume "fst (authenticate_key (ge_keys env) token now (gd_keys db)) \<noteq> None"
  then obtain k keys where "authenticate_key (ge_keys env) token now (gd_keys db) = (Some k, keys)" by (metis option.exhaust prod.collapse)
  from authenticate_key_Some[OF this] show False using assms(3) by (auto simp: find_None_iff)
qed

subsection \<open>A sample request\<close>

definition sample_guard_env :: "(int, int) guard_env" where
  "sample_guard_env = \<lparr>ge_sessions = sample_session_env, ge_keys = sample_key_env, ge_hash_secret = id, ge_as_f64 = id, ge_show_uuid = show_nat\<rparr>"

definition sample_bearer :: "string \<Rightarrow> csrf_request" where
  "sample_bearer token = \<lparr>rq_method = ''GET'', rq_cookies = [], rq_csrf = None, rq_authorization = Some (''Bearer '' @ token)\<rparr>"

lemma sample_bearer_tokens: "session_token (sample_bearer ''omndev_live_b_c'') = None" "bearer_token (sample_bearer ''omndev_live_b_c'') = Some ''omndev_live_b_c''"
  "session_token (sample_bearer ''omndev_live_x_y'') = None" "bearer_token (sample_bearer ''omndev_live_x_y'') = Some ''omndev_live_x_y''"
  by code_simp+

definition sample_guarded :: "int guard_db" where
  "sample_guarded = \<lparr>gd_sessions = \<lparr>ss_sign = \<lparr>sg_users = [], sg_attempts = [], sg_challenges = [], sg_policies = [], sg_organizations = [],
       sg_lockout = JNull, sg_mfa = \<lparr>md_factors = [], md_codes = []\<rparr>\<rparr>, ss_sessions = [], ss_devices = []\<rparr>,
     gd_subjects = \<lparr>sd_iam = empty_db, sd_groups = [], sd_accounts = [], sd_keys = []\<rparr>, gd_policies = empty_policy_db, gd_keys = sample_rotated\<rparr>"

definition sample_machine :: machine_principal where
  "sample_machine = \<lparr>mp_account = SubjectUser 3, mp_organization_id = 1, mp_key_id = 2, mp_key_prefix = Some ''omndev_live_b''\<rparr>"

lemma sample_passes:
  "fst (check_kind_reporting sample_guard_env 30 sample_guarded (sample_bearer ''omndev_live_b_c'') ''content.pages.read'' GuardSessionOrDeveloperKey) =
     Inr (CallerMachine sample_machine)"
proof -
  have "token_prefix ''omndev_live_b_c'' = Some ''omndev_live_b''" by code_simp
  then have "fst (authenticate_key sample_key_env ''omndev_live_b_c'' 30 sample_rotated) = Some sample_successor"
    by (simp add: authenticate_key_def sample_rotated_keys sample_key_def sample_successor_def active_iff verify_secret_iff sample_key_env_def)
  then show ?thesis
    by (simp add: check_kind_bearer(2) sample_bearer_tokens check_developer_key_def sample_guard_env_def sample_guarded_def sample_machine_def
      sample_successor_def sample_key_def)
qed



end
