(* ===== verification/Cron.thy ===== *)
theory Cron
  imports Prelude
begin

text \<open>
  The schedules of the workflow engine (\<open>crates/workflows/src/cron.rs\<close>): parsing the five fields and
  the next run. A date is its day number since the epoch; the calendar of the \<open>time\<close> crate (month, day
  of the month, weekday, last representable date) is an argument. The loop that lists a stepped range
  is a partial function, because its counter saturates. The texts of error messages are dropped.
\<close>

subsection \<open>Errors\<close>

datatype workflow_error = WfDatabase | WfAudit | WfInvalid string

definition workflow_error_code :: "workflow_error \<Rightarrow> string" where
  "workflow_error_code e =
     (case e of WfDatabase \<Rightarrow> ''workflow_store_error'' | WfAudit \<Rightarrow> ''workflow_audit_error'' | WfInvalid c \<Rightarrow> c)"

abbreviation bad_cron :: workflow_error where "bad_cron \<equiv> WfInvalid ''invalid_cron''"

subsection \<open>Fields\<close>

definition MAX_SEARCH_DAYS :: nat where "MAX_SEARCH_DAYS = 366 * 4 + 1"

definition MONTH_NAMES :: "(string \<times> nat) list" where
  "MONTH_NAMES = [(''jan'', 1), (''feb'', 2), (''mar'', 3), (''apr'', 4), (''may'', 5), (''jun'', 6), (''jul'', 7),
     (''aug'', 8), (''sep'', 9), (''oct'', 10), (''nov'', 11), (''dec'', 12)]"

definition WEEKDAY_NAMES :: "(string \<times> nat) list" where
  "WEEKDAY_NAMES = [(''sun'', 0), (''mon'', 1), (''tue'', 2), (''wed'', 3), (''thu'', 4), (''fri'', 5), (''sat'', 6)]"

definition value_of :: "string \<Rightarrow> nat \<Rightarrow> nat \<Rightarrow> (string \<times> nat) list \<Rightarrow> workflow_error + nat" where
  "value_of raw0 lo hi names =
     (let raw = trim raw0 in
      case parse_uint 255 raw of
        Some v \<Rightarrow> if v < lo \<or> v > hi then Inl bad_cron else Inr v
      | None \<Rightarrow>
          (case find (\<lambda>(name, _). name = to_ascii_lowercase raw) names of
             Some (_, v) \<Rightarrow> Inr v
           | None \<Rightarrow> Inl bad_cron))"

text \<open>\<open>while value <= end\<close>, with the saturating addition of a \<open>u8\<close>.\<close>

partial_function (option) fill :: "nat \<Rightarrow> nat \<Rightarrow> nat \<Rightarrow> nat list \<Rightarrow> nat list option" where
  "fill stop step value vals =
     (if value \<le> stop
      then fill stop step (min 255 (value + step)) (if value \<in> set vals then vals else vals @ [value])
      else Some vals)"

declare fill.simps [code]

definition split_step :: "string \<Rightarrow> workflow_error + string \<times> nat" where
  "split_step item =
     (case split_once CHR ''/'' item of
        None \<Rightarrow> Inr (item, 1)
      | Some (span, step) \<Rightarrow>
          (case parse_uint 255 (trim step) of
             None \<Rightarrow> Inl bad_cron
           | Some n \<Rightarrow> if n = 0 then Inl bad_cron else Inr (trim span, n)))"

definition range_bounds :: "nat \<Rightarrow> nat \<Rightarrow> (string \<times> nat) list \<Rightarrow> string \<Rightarrow> nat \<Rightarrow> workflow_error + nat \<times> nat" where
  "range_bounds lo hi names span step =
     (if span = ''*'' then Inr (lo, hi)
      else (case split_once CHR ''-'' span of
              Some (left, right) \<Rightarrow>
                res_bind (value_of left lo hi names) (\<lambda>a. res_bind (value_of right lo hi names) (\<lambda>b. Inr (a, b)))
            | None \<Rightarrow>
                res_bind (value_of span lo hi names) (\<lambda>single. Inr (if step > 1 then (single, hi) else (single, single)))))"

text \<open>The first value, the last and the step of one item.\<close>

definition item_range :: "nat \<Rightarrow> nat \<Rightarrow> (string \<times> nat) list \<Rightarrow> string \<Rightarrow> workflow_error + nat \<times> nat \<times> nat" where
  "item_range lo hi names raw =
     (let item = trim raw in
      if item = [] then Inl bad_cron
      else res_bind (split_step item) (\<lambda>(span, step).
             res_bind (range_bounds lo hi names span step) (\<lambda>(start, stop).
               if start > stop then Inl bad_cron else Inr (start, stop, step))))"

fun parse_items :: "nat \<Rightarrow> nat \<Rightarrow> (string \<times> nat) list \<Rightarrow> string list \<Rightarrow> nat list \<Rightarrow> (workflow_error + nat list) option" where
  "parse_items lo hi names [] vals = Some (Inr vals)"
| "parse_items lo hi names (item # items) vals =
     (case item_range lo hi names item of
        Inl e \<Rightarrow> Some (Inl e)
      | Inr (start, stop, step) \<Rightarrow>
          Option.bind (fill stop step start vals) (parse_items lo hi names items))"

definition parse_field :: "string \<Rightarrow> nat \<Rightarrow> nat \<Rightarrow> (string \<times> nat) list \<Rightarrow> (workflow_error + nat list) option" where
  "parse_field field lo hi names =
     map_option (\<lambda>r. res_bind r (\<lambda>vals. if vals = [] then Inl bad_cron else Inr (sort vals)))
       (parse_items lo hi names (split_on CHR '','' field) [])"

subsection \<open>Schedules\<close>

record cron_schedule =
  cr_minutes :: "nat list"
  cr_hours :: "nat list"
  cr_days :: "nat list"
  cr_months :: "nat list"
  cr_weekdays :: "nat list"
  cr_day_wildcard :: bool
  cr_weekday_wildcard :: bool
  cr_expression :: string

text \<open>The \<open>?\<close> operator on a computation that may not return.\<close>

definition run_bind :: "('e + 'a) option \<Rightarrow> ('a \<Rightarrow> ('e + 'b) option) \<Rightarrow> ('e + 'b) option" where
  "run_bind r f = Option.bind r (\<lambda>v. case v of Inl e \<Rightarrow> Some (Inl e) | Inr x \<Rightarrow> f x)"

definition normalize_weekdays :: "nat list \<Rightarrow> nat list" where
  "normalize_weekdays days = remdups_adj (sort (map (\<lambda>v. if v = 7 then 0 else v) days))"

definition cron_parse :: "string \<Rightarrow> (workflow_error + cron_schedule) option" where
  "cron_parse expression =
     (case split_whitespace expression of
        [f0, f1, f2, f3, f4] \<Rightarrow>
          run_bind (parse_field f0 0 59 []) (\<lambda>minutes.
          run_bind (parse_field f1 0 23 []) (\<lambda>hours.
          run_bind (parse_field f2 1 31 []) (\<lambda>days.
          run_bind (parse_field f3 1 12 MONTH_NAMES) (\<lambda>months.
          run_bind (parse_field f4 0 7 WEEKDAY_NAMES) (\<lambda>weekdays.
            Some (Inr \<lparr>cr_minutes = minutes, cr_hours = hours, cr_days = days, cr_months = months,
              cr_weekdays = normalize_weekdays weekdays, cr_day_wildcard = (trim f2 = ''*''),
              cr_weekday_wildcard = (trim f4 = ''*''), cr_expression = trim expression\<rparr>))))))
      | _ \<Rightarrow> Some (Inl bad_cron))"

subsection \<open>The next run\<close>

record calendar =
  cal_month :: "int \<Rightarrow> nat"
  cal_day :: "int \<Rightarrow> nat"
  cal_weekday :: "int \<Rightarrow> nat"
  cal_last :: int

definition minute_ns :: int where "minute_ns = 60000000000"
definition day_ns :: int where "day_ns = 86400000000000"

definition matches_day :: "calendar \<Rightarrow> cron_schedule \<Rightarrow> int \<Rightarrow> bool" where
  "matches_day cal s date \<longleftrightarrow>
     cal_month cal date \<in> set (cr_months s) \<and>
     (let day_of_month = cal_day cal date \<in> set (cr_days s); day_of_week = cal_weekday cal date \<in> set (cr_weekdays s)
      in if cr_day_wildcard s then (cr_weekday_wildcard s \<or> day_of_week)
         else if cr_weekday_wildcard s then day_of_month else day_of_month \<or> day_of_week)"

definition cron_at :: "int \<Rightarrow> nat \<Rightarrow> nat \<Rightarrow> workflow_error + instant" where
  "cron_at date hour minute =
     (if hour > 23 \<or> minute > 59 then Inl bad_cron
      else Inr (date * day_ns + (int hour * 60 + int minute) * minute_ns))"

fun scan :: "instant \<Rightarrow> (workflow_error + instant) list \<Rightarrow> workflow_error + instant option" where
  "scan from_time [] = Inr None"
| "scan from_time (c # cs) =
     res_bind c (\<lambda>candidate. if candidate \<le> from_time then scan from_time cs else Inr (Some candidate))"

definition day_candidates :: "cron_schedule \<Rightarrow> int \<Rightarrow> (workflow_error + instant) list" where
  "day_candidates s date = concat (map (\<lambda>hour. map (\<lambda>minute. cron_at date hour minute) (cr_minutes s)) (cr_hours s))"

fun search_days :: "calendar \<Rightarrow> cron_schedule \<Rightarrow> instant \<Rightarrow> nat \<Rightarrow> int \<Rightarrow> workflow_error + instant" where
  "search_days cal s from_time 0 date = Inl bad_cron"
| "search_days cal s from_time (Suc n) date =
     res_bind (if matches_day cal s date then scan from_time (day_candidates s date) else Inr None) (\<lambda>found.
       case found of
         Some t \<Rightarrow> Inr t
       | None \<Rightarrow> if date \<ge> cal_last cal then Inl bad_cron else search_days cal s from_time n (date + 1))"

definition first_date :: "instant \<Rightarrow> int" where
  "first_date from_time = (let later = from_time + minute_ns; start = later - later mod minute_ns in start div day_ns)"

definition next_after :: "calendar \<Rightarrow> cron_schedule \<Rightarrow> instant \<Rightarrow> workflow_error + instant" where
  "next_after cal s from_time = search_days cal s from_time MAX_SEARCH_DAYS (first_date from_time)"


subsection \<open>Parsing returns\<close>

definition stepped :: "nat \<Rightarrow> nat \<Rightarrow> nat \<Rightarrow> nat set" where
  "stepped start stop step = {v. start \<le> v \<and> v \<le> stop \<and> step dvd (v - start)}"

lemma stepped_rec: "0 < step \<Longrightarrow> stepped start stop step =
  (if start \<le> stop then insert start (stepped (start + step) stop step) else {})"
proof -
  assume step: "0 < step"
  have fwd: "v = start \<or> start + step \<le> v \<and> step dvd (v - (start + step))" if v: "start \<le> v" "step dvd (v - start)" for v
  proof (cases "v = start")
    case False
    then have "step \<le> v - start" using v by (intro dvd_imp_le) auto
    moreover have "step dvd (v - start - step)" by (rule dvd_diff_nat[OF v(2) dvd_refl])
    then have "step dvd (v - (start + step))" by (simp only: diff_diff_left)
    ultimately show ?thesis using v by auto
  qed simp
  have bwd: "step dvd (v - start)" if "start + step \<le> v" "step dvd (v - (start + step))" for v
  proof -
    have "v - start = v - (start + step) + step" using that(1) by simp
    then show ?thesis using that(2) by (metis dvd_add dvd_refl)
  qed
  show ?thesis
  proof (rule set_eqI)
    fix v show "v \<in> stepped start stop step \<longleftrightarrow> v \<in> (if start \<le> stop then insert start (stepped (start + step) stop step) else {})"
      using fwd[of v] bwd[of v] by (auto simp: stepped_def)
  qed
qed

definition item_values :: "nat \<Rightarrow> nat \<Rightarrow> (string \<times> nat) list \<Rightarrow> string \<Rightarrow> nat set" where
  "item_values lo hi names item =
     (case item_range lo hi names item of Inl _ \<Rightarrow> {} | Inr (start, stop, step) \<Rightarrow> stepped start stop step)"

lemma fill_returns:
  assumes "stop < 255" and "0 < step" and "distinct vals"
  shows "\<exists>vals'. fill stop step start vals = Some vals' \<and> set vals' = set vals \<union> stepped start stop step \<and> distinct vals'"
  using assms(3)
proof (induction "Suc stop - start" arbitrary: start vals rule: less_induct)
  case less
  show ?case
  proof (cases "start \<le> stop")
    case False
    then show ?thesis using less.prems assms(2) by (subst fill.simps) (simp add: stepped_rec)
  next
    case True
    let ?vs = "if start \<in> set vals then vals else vals @ [start]" and ?more = "min 255 (start + step)"
    have "stepped ?more stop step = stepped (start + step) stop step" using assms(1) by (auto simp: stepped_def min_def)
    moreover have "Suc stop - ?more < Suc stop - start" using True assms by (auto simp: min_def)
    moreover have "distinct ?vs" using less.prems by simp
    ultimately obtain vs' where "fill stop step ?more ?vs = Some vs'" "distinct vs'"
        "set vs' = set ?vs \<union> stepped (start + step) stop step" using less.hyps by metis
    then show ?thesis using True assms(2) by (subst fill.simps) (auto simp: stepped_rec[of step start])
  qed
qed

lemma parse_uint_255: "parse_uint 255 s = Some n \<Longrightarrow> n \<le> 255"
  by (rule parse_uint_le)

lemma split_step_pos: "split_step item = Inr (span, step) \<Longrightarrow> 0 < step"
  by (auto simp: split_step_def split: option.split_asm if_split_asm)

lemma value_of_bounds: "value_of raw lo hi names = Inr v \<Longrightarrow> list_all (\<lambda>(_, v). lo \<le> v \<and> v \<le> hi) names \<Longrightarrow> lo \<le> v \<and> v \<le> hi"
  by (auto simp: value_of_def Let_def list_all_iff split: option.split_asm if_split_asm dest!: find_Some_mem)

lemma item_range_Inr:
  assumes "item_range lo hi names raw = Inr (start, stop, step)" and "list_all (\<lambda>(_, v). lo \<le> v \<and> v \<le> hi) names" and "lo \<le> hi"
  shows "0 < step \<and> lo \<le> start \<and> start \<le> stop \<and> stop \<le> hi"
  using assms by (auto simp: item_range_def range_bounds_def Let_def res_bind_Inr_conv
      split: if_split_asm option.split_asm dest!: split_step_pos value_of_bounds)

lemma parse_items_returns:
  assumes "hi < 255" and "lo \<le> hi" and "list_all (\<lambda>(_, v). lo \<le> v \<and> v \<le> hi) names" and "distinct vals"
  shows "(\<exists>e. parse_items lo hi names items vals = Some (Inl e)) \<or>
    (\<exists>vals'. parse_items lo hi names items vals = Some (Inr vals') \<and> distinct vals' \<and>
       set vals' = set vals \<union> \<Union> (item_values lo hi names ` set items))"
  using assms(4)
proof (induction items arbitrary: vals)
  case (Cons item items)
  show ?case
  proof (cases "item_range lo hi names item")
    case (Inr t)
    obtain start stop step where t: "t = (start, stop, step)" by (cases t)
    have "0 < step" "stop < 255" using item_range_Inr[OF Inr[unfolded t] assms(3,2)] assms(1) by auto
    then obtain vs where vs: "fill stop step start vals = Some vs" "set vs = set vals \<union> stepped start stop step" "distinct vs"
      using fill_returns[OF _ _ Cons.prems] by metis
    then show ?thesis using Cons.IH[OF vs(3)] Inr t by (auto simp: item_values_def)
  qed simp
qed simp

lemma parse_field_returns:
  assumes "hi < 255" and "lo \<le> hi" and "list_all (\<lambda>(_, v). lo \<le> v \<and> v \<le> hi) names"
  shows "(\<exists>e. parse_field field lo hi names = Some (Inl e)) \<or>
    (\<exists>vals. parse_field field lo hi names = Some (Inr vals) \<and> sorted vals \<and> distinct vals \<and> vals \<noteq> [] \<and>
       set vals \<subseteq> {lo..hi} \<and>
       set vals = \<Union> (item_values lo hi names ` set (split_on CHR '','' field)))"
proof -
  let ?items = "split_on CHR '','' field"
  have "item_values lo hi names item \<subseteq> {lo..hi}" for item
  proof (cases "item_range lo hi names item")
    case (Inr t)
    obtain start stop step where t: "t = (start, stop, step)" by (cases t)
    show ?thesis using item_range_Inr[OF Inr[unfolded t] assms(3,2)] Inr t by (auto simp: item_values_def stepped_def)
  qed (simp add: item_values_def)
  then have sub: "\<Union> (item_values lo hi names ` set ?items) \<subseteq> {lo..hi}" by blast
  have "distinct ([] :: nat list)" by simp
  from parse_items_returns[OF assms this, of ?items] show ?thesis
  proof (elim disjE exE conjE)
    fix vs assume "parse_items lo hi names ?items [] = Some (Inr vs)" "distinct vs"
      "set vs = set [] \<union> \<Union> (item_values lo hi names ` set ?items)"
    then show ?thesis using sub by (cases "vs = []") (auto simp: parse_field_def sort_key_Nil_iff)
  qed (simp_all add: parse_field_def)
qed

lemma name_tables: "list_all (\<lambda>(_, v). 1 \<le> v \<and> v \<le> 12) MONTH_NAMES" "list_all (\<lambda>(_, v). 0 \<le> v \<and> v \<le> 7) WEEKDAY_NAMES"
  by (simp_all add: MONTH_NAMES_def WEEKDAY_NAMES_def)

definition schedule_ok :: "cron_schedule \<Rightarrow> bool" where
  "schedule_ok s \<longleftrightarrow> sorted (cr_minutes s) \<and> sorted (cr_hours s) \<and> distinct (cr_hours s) \<and> cr_minutes s \<noteq> [] \<and> cr_hours s \<noteq> [] \<and>
     set (cr_minutes s) \<subseteq> {0..59} \<and> set (cr_hours s) \<subseteq> {0..23} \<and> set (cr_days s) \<subseteq> {1..31} \<and>
     set (cr_months s) \<subseteq> {1..12} \<and> set (cr_weekdays s) \<subseteq> {0..6}"

lemma run_bind_simps [simp]: "run_bind (Some (Inl e)) f = Some (Inl e)" "run_bind (Some (Inr x)) f = f x"
  by (simp_all add: run_bind_def)

lemma weekdays_small: "set days \<subseteq> {0..7} \<Longrightarrow> set (normalize_weekdays days) \<subseteq> {0..6}"
  by (force simp: normalize_weekdays_def)

lemma cron_parse_returns: "(\<exists>e. cron_parse expression = Some (Inl e)) \<or> (\<exists>s. cron_parse expression = Some (Inr s) \<and> schedule_ok s)"
proof -
  have minutes: "(\<exists>e. parse_field f 0 59 [] = Some (Inl e)) \<or> (\<exists>v. parse_field f 0 59 [] = Some (Inr v) \<and> sorted v \<and> v \<noteq> [] \<and> set v \<subseteq> {0..59})" for f
    using parse_field_returns[of 59 0 "[]" f] by auto
  have hours: "(\<exists>e. parse_field f 0 23 [] = Some (Inl e)) \<or> (\<exists>v. parse_field f 0 23 [] = Some (Inr v) \<and> sorted v \<and> distinct v \<and> v \<noteq> [] \<and> set v \<subseteq> {0..23})" for f
    using parse_field_returns[of 23 0 "[]" f] by auto
  have days: "(\<exists>e. parse_field f 1 31 [] = Some (Inl e)) \<or> (\<exists>v. parse_field f 1 31 [] = Some (Inr v) \<and> set v \<subseteq> {1..31})" for f
    using parse_field_returns[of 31 1 "[]" f] by auto
  have months: "(\<exists>e. parse_field f 1 12 MONTH_NAMES = Some (Inl e)) \<or> (\<exists>v. parse_field f 1 12 MONTH_NAMES = Some (Inr v) \<and> set v \<subseteq> {1..12})" for f
    using parse_field_returns[of 12 1 MONTH_NAMES f] name_tables by auto
  have weekdays: "(\<exists>e. parse_field f 0 7 WEEKDAY_NAMES = Some (Inl e)) \<or> (\<exists>v. parse_field f 0 7 WEEKDAY_NAMES = Some (Inr v) \<and> set v \<subseteq> {0..7})" for f
    using parse_field_returns[of 7 0 WEEKDAY_NAMES f] name_tables by auto
  show ?thesis
  proof (cases "\<exists>f0 f1 f2 f3 f4. split_whitespace expression = [f0, f1, f2, f3, f4]")
    case True
    then obtain f0 f1 f2 f3 f4 where f: "split_whitespace expression = [f0, f1, f2, f3, f4]" by blast
    show ?thesis
      using minutes[of f0] hours[of f1] days[of f2] months[of f3] weekdays[of f4] weekdays_small
      unfolding cron_parse_def f by (elim disjE exE conjE) (simp_all add: schedule_ok_def)
  next
    case False
    then show ?thesis by (auto simp: cron_parse_def split: list.split)
  qed
qed

text \<open>
  Parsing a schedule always returns, an error or a schedule, for every text: the loop that lists a
  stepped range ends although its counter saturates. What it returns has its minutes and hours in
  order and every field inside its range.
\<close>

theorem cron_parse_total: "\<exists>r. cron_parse expression = Some r \<and> (case r of Inl _ \<Rightarrow> True | Inr s \<Rightarrow> schedule_ok s)"
  using cron_parse_returns[of expression] by auto

subsection \<open>The next run is the first one\<close>

definition fires :: "calendar \<Rightarrow> cron_schedule \<Rightarrow> instant \<Rightarrow> bool" where
  "fires cal s t \<longleftrightarrow> (\<exists>date. \<exists>hour \<in> set (cr_hours s). \<exists>minute \<in> set (cr_minutes s).
     matches_day cal s date \<and> t = date * day_ns + (int hour * 60 + int minute) * minute_ns)"

definition day_times :: "cron_schedule \<Rightarrow> int \<Rightarrow> instant list" where
  "day_times s date = concat (map (\<lambda>hour. map (\<lambda>minute. date * day_ns + (int hour * 60 + int minute) * minute_ns) (cr_minutes s)) (cr_hours s))"

lemma day_candidates_times: "schedule_ok s \<Longrightarrow> day_candidates s date = map Inr (day_times s date)"
proof -
  assume ok: "schedule_ok s"
  show ?thesis unfolding day_candidates_def day_times_def map_concat map_map comp_def
    by (intro arg_cong[where f = concat] map_cong refl) (use ok in \<open>auto simp: schedule_ok_def cron_at_def\<close>)
qed

lemma sorted_day_times:
  assumes "schedule_ok s"
  shows "sorted (day_times s date)"
proof -
  have "sorted (map (\<lambda>minute. date * day_ns + (int hour * 60 + int minute) * minute_ns) mins)" if "sorted mins" for hour mins
    using that by (induction mins) (auto simp: minute_ns_def)
  note times = this
  have "sorted hs \<Longrightarrow> distinct hs \<Longrightarrow>
      sorted (concat (map (\<lambda>hour. map (\<lambda>minute. date * day_ns + (int hour * 60 + int minute) * minute_ns) (cr_minutes s)) hs))" for hs
  proof (induction hs)
    case (Cons h hs)
    have "(int h * 60 + int m) * minute_ns \<le> (int h' * 60 + int m') * minute_ns"
      if "m \<in> set (cr_minutes s)" "h' \<in> set hs" "m' \<in> set (cr_minutes s)" for m h' m'
    proof -
      have "h \<le> h'" "h \<noteq> h'" using Cons.prems that(2) by auto
      moreover have "m \<le> 59" using assms that(1) by (auto simp: schedule_ok_def)
      ultimately show ?thesis by (simp add: minute_ns_def)
    qed
    moreover have "sorted (cr_minutes s)" using assms by (simp add: schedule_ok_def)
    ultimately show ?case using Cons times by (simp add: sorted_append)
  qed simp
  then show ?thesis using assms by (simp add: day_times_def schedule_ok_def)
qed

lemma scan_find: "scan from_time (map Inr ts) = Inr (find (\<lambda>t. from_time < t) ts)"
  by (induction ts) auto

lemma find_sorted:
  assumes "sorted ts"
  shows "case find (\<lambda>t. from_time < (t :: int)) ts of None \<Rightarrow> \<forall>u \<in> set ts. u \<le> from_time
    | Some t \<Rightarrow> t \<in> set ts \<and> from_time < t \<and> (\<forall>u \<in> set ts. from_time < u \<longrightarrow> t \<le> u)"
  using assms by (induction ts) (auto split: option.splits)

lemma day_times_date: "schedule_ok s \<Longrightarrow> t \<in> set (day_times s date) \<Longrightarrow> t div day_ns = date"
proof -
  assume ok: "schedule_ok s" and t: "t \<in> set (day_times s date)"
  from t obtain h m where h: "h \<in> set (cr_hours s)" "m \<in> set (cr_minutes s)"
    and "t = date * day_ns + (int h * 60 + int m) * minute_ns" unfolding day_times_def by auto
  then have hm: "h \<le> 23" "m \<le> 59" "t = (int h * 60 + int m) * minute_ns + date * day_ns"
    using ok h by (auto simp: schedule_ok_def)
  have "0 \<le> (int h * 60 + int m) * minute_ns" "(int h * 60 + int m) * minute_ns < day_ns"
    using hm(1,2) by (auto simp: minute_ns_def day_ns_def)
  then show ?thesis unfolding hm(3) by (simp add: day_ns_def)
qed

lemma fires_iff: "fires cal s t \<longleftrightarrow> (\<exists>date. matches_day cal s date \<and> t \<in> set (day_times s date))"
  by (auto simp: fires_def day_times_def)

lemma fires_date: "schedule_ok s \<Longrightarrow> fires cal s t \<longleftrightarrow> matches_day cal s (t div day_ns) \<and> t \<in> set (day_times s (t div day_ns))"
  using day_times_date fires_iff by metis

lemma search_days_exact:
  assumes "schedule_ok s" and "\<And>u. from_time < u \<Longrightarrow> fires cal s u \<Longrightarrow> date \<le> u div day_ns"
  shows "case search_days cal s from_time n date of
      Inr t \<Rightarrow> from_time < t \<and> fires cal s t \<and> \<not> (\<exists>u. from_time < u \<and> u < t \<and> fires cal s u)
    | Inl _ \<Rightarrow> \<not> (\<exists>u. from_time < u \<and> fires cal s u \<and> u div day_ns < date + int n \<and> u div day_ns \<le> max date (cal_last cal))"
  using assms(2)
proof (induction n arbitrary: date)
  case 0
  then show ?case by force
next
  case (Suc n)
  let ?found = "if matches_day cal s date then find (\<lambda>t. from_time < t) (day_times s date) else None"
  have step: "search_days cal s from_time (Suc n) date = (case ?found of Some t \<Rightarrow> Inr t
      | None \<Rightarrow> if date \<ge> cal_last cal then Inl bad_cron else search_days cal s from_time n (date + 1))"
    by (simp add: day_candidates_times[OF assms(1)] scan_find)
  note least = find_sorted[OF sorted_day_times[OF assms(1), of date], of from_time]
  show ?case
  proof (cases ?found)
    case (Some t)
    then have t: "matches_day cal s date" "find (\<lambda>t. from_time < t) (day_times s date) = Some t" by (simp_all split: if_split_asm)
    then have f: "t \<in> set (day_times s date)" "from_time < t" "\<forall>u \<in> set (day_times s date). from_time < u \<longrightarrow> t \<le> u" using least by simp_all
    have "t \<le> u" if u: "from_time < u" "fires cal s u" for u
    proof (cases "u div day_ns = date")
      case True
      then show ?thesis using f(3) u fires_date[OF assms(1)] by auto
    next
      case False
      then have "t div day_ns < u div day_ns" using Suc.prems[OF u] day_times_date[OF assms(1) f(1)] by simp
      then show ?thesis by (smt (verit) zdiv_mono1 day_ns_def)
    qed
    then show ?thesis unfolding step Some using f t(1) fires_iff by (force simp: not_le)
  next
    case None
    have later: "date + 1 \<le> u div day_ns" if u: "from_time < u" "fires cal s u" for u
    proof -
      have "u div day_ns \<noteq> date"
      proof
        assume d: "u div day_ns = date"
        then have "matches_day cal s date" "u \<in> set (day_times s date)" using u(2) fires_date[OF assms(1)] by auto
        then show False using None least u(1) by (auto split: if_split_asm option.split_asm)
      qed
      then show ?thesis using Suc.prems[OF u] by simp
    qed
    show ?thesis
    proof (cases "date \<ge> cal_last cal")
      case True
      then show ?thesis unfolding step None using later by force
    next
      case False
      then show ?thesis unfolding step None using Suc.IH[OF later] by (auto simp: max_def split: sum.splits)
    qed
  qed
qed

lemma first_date_bound: "from_time < u \<Longrightarrow> u mod minute_ns = 0 \<Longrightarrow> first_date from_time \<le> u div day_ns"
proof -
  assume u: "from_time < u" "u mod minute_ns = 0"
  have m: "0 < minute_ns" by (simp add: minute_ns_def)
  define k where "k = u div minute_ns"
  have uk: "u = k * minute_ns" using u(2) div_mult_mod_eq[of u minute_ns] by (simp add: k_def)
  have "from_time div minute_ns < k"
  proof (rule ccontr)
    assume "\<not> from_time div minute_ns < k"
    then have "k * minute_ns \<le> from_time div minute_ns * minute_ns" using m by (simp add: mult_right_mono)
    also have "\<dots> \<le> from_time" using div_mult_mod_eq[of from_time minute_ns] m by (smt (verit) pos_mod_sign)
    finally show False using u(1) unfolding uk by simp
  qed
  moreover have "(from_time + minute_ns) div minute_ns = from_time div minute_ns + 1"
    using div_add_self2[of minute_ns from_time] m by simp
  ultimately have "(from_time + minute_ns) div minute_ns * minute_ns \<le> u" using m unfolding uk by (simp add: mult_right_mono)
  then have "from_time + minute_ns - (from_time + minute_ns) mod minute_ns \<le> u"
    by (simp only: minus_mod_eq_div_mult)
  then show ?thesis unfolding first_date_def Let_def by (simp add: zdiv_mono1 day_ns_def)
qed

text \<open>
  C32. The next run of a parsed schedule is its first one: a time strictly later than the given instant
  at which the schedule fires, with none in between; and an error is answered only when the schedule
  does not fire on any day of the searched horizon that the calendar can represent.
\<close>

theorem next_run_exact:
  assumes "cron_parse expression = Some (Inr s)"
  shows "case next_after cal s from_time of
      Inr t \<Rightarrow> from_time < t \<and> fires cal s t \<and> \<not> (\<exists>u. from_time < u \<and> u < t \<and> fires cal s u)
    | Inl _ \<Rightarrow> \<not> (\<exists>u. from_time < u \<and> fires cal s u \<and> u div day_ns < first_date from_time + int MAX_SEARCH_DAYS \<and>
        u div day_ns \<le> max (first_date from_time) (cal_last cal))"
proof -
  have ok: "schedule_ok s" using cron_parse_returns[of expression] assms by auto
  have "u mod minute_ns = 0" if "fires cal s u" for u
  proof -
    from that obtain d h m where "u = d * day_ns + (int h * 60 + int m) * minute_ns" unfolding fires_def by blast
    then have "u = (d * 1440 + (int h * 60 + int m)) * minute_ns" by (simp add: day_ns_def minute_ns_def)
    then show ?thesis by simp
  qed
  then show ?thesis unfolding next_after_def
    by (intro search_days_exact[OF ok]) (use first_date_bound in blast)
qed

lemma sample_cron: "cron_parse ''*/30 6,7-8 1 jan *'' = Some (Inr \<lparr>cr_minutes = [0, 30], cr_hours = [6, 7, 8], cr_days = [1],
  cr_months = [1], cr_weekdays = [0, 1, 2, 3, 4, 5, 6], cr_day_wildcard = False, cr_weekday_wildcard = True,
  cr_expression = ''*/30 6,7-8 1 jan *''\<rparr>)"
  by code_simp

definition sample_calendar :: calendar where
  "sample_calendar = \<lparr>cal_month = (\<lambda>d. nat (d div 31 mod 12) + 1), cal_day = (\<lambda>d. nat (d mod 31) + 1),
     cal_weekday = (\<lambda>d. nat (d mod 7)), cal_last = 1000000\<rparr>"

theorem next_run_exact_witness:
  "\<exists>s. cron_parse ''*/30 6,7-8 1 jan *'' = Some (Inr s) \<and>
     (case next_after sample_calendar s 0 of Inr t \<Rightarrow> fires sample_calendar s t | Inl _ \<Rightarrow> True)"
proof -
  obtain s where s: "cron_parse ''*/30 6,7-8 1 jan *'' = Some (Inr s)" using sample_cron by blast
  from next_run_exact[OF s, where cal = sample_calendar and from_time = 0] show ?thesis using s by (auto split: sum.splits)
qed

end
