(* ===== verification/WorkflowModel.thy ===== *)
theory WorkflowModel
  imports Json Cron
begin

text \<open>
  What a workflow is (\<open>crates/workflows/src/model.rs\<close>, \<open>definition.rs\<close>, \<open>actions.rs\<close>): the stored
  names of its states, the rows of a definition, the rules a definition satisfies, and the built-in
  actions. Numbers in JSON are a type parameter; \<open>as_i64\<close> reads one and \<open>of_i64\<close> writes one. The texts
  of rule violations are dropped, their codes are kept.
\<close>

subsection \<open>Names\<close>

datatype trigger_kind = Manual | Schedule | Event
datatype step_kind = Task | Wait
datatype execution_status = ExRunning | ExCompleted | ExFailed | ExCancelled
datatype step_status = StPending | StRunning | StWaiting | StSucceeded | StFailed | StCancelled

definition trigger_str :: "trigger_kind \<Rightarrow> string" where
  "trigger_str k = (case k of Manual \<Rightarrow> ''manual'' | Schedule \<Rightarrow> ''schedule'' | Event \<Rightarrow> ''event'')"

definition trigger_parse :: "string \<Rightarrow> trigger_kind option" where
  "trigger_parse raw =
     (if raw = ''manual'' then Some Manual else if raw = ''schedule'' then Some Schedule
      else if raw = ''event'' then Some Event else None)"

definition is_automatic :: "trigger_kind \<Rightarrow> bool" where
  "is_automatic k \<longleftrightarrow> k = Schedule \<or> k = Event"

definition kind_str :: "step_kind \<Rightarrow> string" where
  "kind_str k = (case k of Task \<Rightarrow> ''task'' | Wait \<Rightarrow> ''wait'')"

definition kind_parse :: "string \<Rightarrow> step_kind option" where
  "kind_parse raw = (if raw = ''task'' then Some Task else if raw = ''wait'' then Some Wait else None)"

definition execution_str :: "execution_status \<Rightarrow> string" where
  "execution_str s = (case s of ExRunning \<Rightarrow> ''running'' | ExCompleted \<Rightarrow> ''completed'' | ExFailed \<Rightarrow> ''failed''
     | ExCancelled \<Rightarrow> ''cancelled'')"

definition execution_parse :: "string \<Rightarrow> execution_status option" where
  "execution_parse raw =
     (if raw = ''running'' then Some ExRunning else if raw = ''completed'' then Some ExCompleted
      else if raw = ''failed'' then Some ExFailed else if raw = ''cancelled'' then Some ExCancelled else None)"

definition is_terminal :: "execution_status \<Rightarrow> bool" where
  "is_terminal s \<longleftrightarrow> s \<noteq> ExRunning"

definition step_str :: "step_status \<Rightarrow> string" where
  "step_str s = (case s of StPending \<Rightarrow> ''pending'' | StRunning \<Rightarrow> ''running'' | StWaiting \<Rightarrow> ''waiting''
     | StSucceeded \<Rightarrow> ''succeeded'' | StFailed \<Rightarrow> ''failed'' | StCancelled \<Rightarrow> ''cancelled'')"

definition step_parse :: "string \<Rightarrow> step_status option" where
  "step_parse raw =
     (if raw = ''pending'' then Some StPending else if raw = ''running'' then Some StRunning
      else if raw = ''waiting'' then Some StWaiting else if raw = ''succeeded'' then Some StSucceeded
      else if raw = ''failed'' then Some StFailed else if raw = ''cancelled'' then Some StCancelled else None)"

definition is_open :: "step_status \<Rightarrow> bool" where
  "is_open s \<longleftrightarrow> s = StPending \<or> s = StRunning \<or> s = StWaiting"

lemma names_roundtrip [simp]:
  "trigger_parse (trigger_str k) = Some k" "kind_parse (kind_str l) = Some l"
  "execution_parse (execution_str e) = Some e" "step_parse (step_str s) = Some s"
  by (simp_all add: trigger_parse_def trigger_str_def kind_parse_def kind_str_def execution_parse_def execution_str_def
      step_parse_def step_str_def split: trigger_kind.split step_kind.split execution_status.split step_status.split)

lemma names_inj [simp]:
  "execution_str a = execution_str b \<longleftrightarrow> a = b" "step_str c = step_str d \<longleftrightarrow> c = d" "kind_str k = kind_str l \<longleftrightarrow> k = l"
  by (metis names_roundtrip(3) option.inject, metis names_roundtrip(4) option.inject, metis names_roundtrip(2) option.inject)

subsection \<open>Actions\<close>

definition ACTIONS :: "string list" where
  "ACTIONS = [''noop'', ''echo'', ''fail'', ''transient'']"

definition HOST_ACTIONS :: "string list" where
  "HOST_ACTIONS = [''send_email'', ''comment_revision'']"

definition action_keys :: "string list" where
  "action_keys = ACTIONS @ HOST_ACTIONS"

definition is_action :: "string \<Rightarrow> bool" where
  "is_action key \<longleftrightarrow> key \<in> set ACTIONS \<or> key \<in> set HOST_ACTIONS"

definition is_host_action :: "string \<Rightarrow> bool" where
  "is_host_action key \<longleftrightarrow> key \<in> set HOST_ACTIONS"

definition require_text :: "'n json \<Rightarrow> string \<Rightarrow> workflow_error + unit" where
  "require_text params key =
     (let text = (case Option.bind (jget params key) as_str of None \<Rightarrow> [] | Some t \<Rightarrow> t) in
      if trim text = [] then Inl (WfInvalid ''invalid_step_params'') else Inr ())"

definition get_i64 :: "('n \<Rightarrow> int option) \<Rightarrow> 'n json \<Rightarrow> string \<Rightarrow> int option" where
  "get_i64 as_i64 params key = Option.bind (Option.bind (jget params key) as_number) as_i64"

definition validate_params :: "('n \<Rightarrow> int option) \<Rightarrow> string \<Rightarrow> 'n json \<Rightarrow> workflow_error + unit" where
  "validate_params as_i64 action params =
     (if action = ''noop'' then Inr ()
      else if action = ''echo'' then
        (if jget params ''value'' = None then Inl (WfInvalid ''invalid_step_params'') else Inr ())
      else if action = ''fail'' then Inr ()
      else if action = ''transient'' then
        (case get_i64 as_i64 params ''fail_times'' of
           Some n \<Rightarrow> if 1 \<le> n \<and> n \<le> 4 then Inr () else Inl (WfInvalid ''invalid_step_params'')
         | None \<Rightarrow> Inl (WfInvalid ''invalid_step_params''))
      else if action = ''send_email'' then
        res_bind (require_text params ''to'') (\<lambda>_. res_bind (require_text params ''subject'') (\<lambda>_. require_text params ''body''))
      else if action = ''comment_revision'' then
        res_bind (require_text params ''revision_id'') (\<lambda>_. require_text params ''body'')
      else Inl (WfInvalid ''invalid_step_action''))"

definition run_action :: "('n \<Rightarrow> int option) \<Rightarrow> (int \<Rightarrow> 'n) \<Rightarrow> string \<Rightarrow> 'n json \<Rightarrow> int \<Rightarrow> string + 'n json" where
  "run_action as_i64 of_i64 action params attempt =
     (if is_host_action action
      then Inl (''`'' @ action @ ''` is a host action; the process must install an action handler to run it'')
      else if action = ''noop'' then Inr (JObject [(''action'', JString ''noop'')])
      else if action = ''echo'' then
        Inr (JObject [(''action'', JString ''echo''), (''value'', case jget params ''value'' of None \<Rightarrow> JNull | Some v \<Rightarrow> v)])
      else if action = ''fail'' then
        Inl (case Option.bind (jget params ''message'') as_str of None \<Rightarrow> ''the fail action always fails'' | Some m \<Rightarrow> m)
      else if action = ''transient'' then
        (let fail_times = (case get_i64 as_i64 params ''fail_times'' of None \<Rightarrow> 2 ^ 31 - 1 | Some n \<Rightarrow> n) in
         if attempt \<le> fail_times
         then Inl (''simulated transient failure on attempt '' @ show_int attempt @ '' of '' @ show_int fail_times)
         else Inr (JObject [(''action'', JString ''transient''), (''attempt'', JNumber (of_i64 attempt))]))
      else Inl (''`'' @ action @ ''` is not a built-in action''))"

subsection \<open>Definitions\<close>

definition MAX_STEPS :: nat where "MAX_STEPS = 50"
definition MAX_CONDITIONS :: nat where "MAX_CONDITIONS = 10"
definition MAX_EVENT_NAME :: nat where "MAX_EVENT_NAME = 96"
definition MAX_EVENT_SEGMENT :: nat where "MAX_EVENT_SEGMENT = 32"
definition WF_MAX_ATTEMPTS :: int where "WF_MAX_ATTEMPTS = 5"
definition MAX_WAIT_SECONDS :: int where "MAX_WAIT_SECONDS = 86400"
definition MAX_STEP_NAME :: nat where "MAX_STEP_NAME = 80"

record trigger =
  tg_kind :: trigger_kind
  tg_cron :: "string option"
  tg_event :: "string option"

definition manual_trigger :: trigger where
  "manual_trigger = \<lparr>tg_kind = Manual, tg_cron = None, tg_event = None\<rparr>"

definition schedule_trigger :: "string \<Rightarrow> trigger" where
  "schedule_trigger cron = \<lparr>tg_kind = Schedule, tg_cron = Some cron, tg_event = None\<rparr>"

definition event_trigger :: "string \<Rightarrow> trigger" where
  "event_trigger name = \<lparr>tg_kind = Event, tg_cron = None, tg_event = Some name\<rparr>"

definition segment_ok :: "string \<Rightarrow> bool" where
  "segment_ok segment \<longleftrightarrow>
     segment \<noteq> [] \<and> str_len segment \<le> MAX_EVENT_SEGMENT \<and> is_ascii_lowercase (hd segment) \<and>
     list_all (\<lambda>c. is_ascii_lowercase c \<or> is_ascii_digit c \<or> c = CHR ''_'') segment"

definition event_name :: "trigger \<Rightarrow> workflow_error + string" where
  "event_name t =
     (let raw = trim (case tg_event t of None \<Rightarrow> [] | Some e \<Rightarrow> e); segments = split_on CHR ''.'' raw in
      if raw = [] then Inl (WfInvalid ''invalid_trigger'')
      else if str_len raw > MAX_EVENT_NAME then Inl (WfInvalid ''invalid_trigger'')
      else if \<not> (length segments \<ge> 2 \<and> list_all segment_ok segments) then Inl (WfInvalid ''invalid_trigger'')
      else Inr raw)"

definition validate_trigger :: "calendar \<Rightarrow> instant \<Rightarrow> trigger \<Rightarrow> (workflow_error + instant option) option" where
  "validate_trigger cal now t =
     (case tg_kind t of
        Manual \<Rightarrow>
          Some (if tg_cron t \<noteq> None then Inl (WfInvalid ''invalid_trigger'')
                else if tg_event t \<noteq> None then Inl (WfInvalid ''invalid_trigger'') else Inr None)
      | Schedule \<Rightarrow>
          if tg_event t \<noteq> None then Some (Inl (WfInvalid ''invalid_trigger''))
          else (let raw = trim (case tg_cron t of None \<Rightarrow> [] | Some c \<Rightarrow> c) in
                if raw = [] then Some (Inl (WfInvalid ''invalid_trigger''))
                else run_bind (cron_parse raw) (\<lambda>s. Some (res_bind (next_after cal s now) (\<lambda>at. Inr (Some at)))))
      | Event \<Rightarrow>
          if tg_cron t \<noteq> None then Some (Inl (WfInvalid ''invalid_trigger''))
          else Some (res_bind (event_name t) (\<lambda>_. Inr None)))"

record 'n step_definition =
  sd_name :: string
  sd_kind :: step_kind
  sd_action :: "string option"
  sd_params :: "'n json"
  sd_max_attempts :: int

definition wait_seconds_from :: "('n \<Rightarrow> int option) \<Rightarrow> 'n json \<Rightarrow> workflow_error + int" where
  "wait_seconds_from as_i64 params =
     (case get_i64 as_i64 params ''seconds'' of
        None \<Rightarrow> Inl (WfInvalid ''invalid_wait'')
      | Some n \<Rightarrow> if 1 \<le> n \<and> n \<le> MAX_WAIT_SECONDS then Inr n else Inl (WfInvalid ''invalid_wait''))"

definition task_step :: "string \<Rightarrow> string \<Rightarrow> 'n json \<Rightarrow> 'n step_definition" where
  "task_step name action params = \<lparr>sd_name = name, sd_kind = Task, sd_action = Some action, sd_params = params, sd_max_attempts = 1\<rparr>"

definition wait_step :: "(int \<Rightarrow> 'n) \<Rightarrow> string \<Rightarrow> int \<Rightarrow> 'n step_definition" where
  "wait_step of_i64 name n = \<lparr>sd_name = name, sd_kind = Wait, sd_action = None,
     sd_params = JObject [(''seconds'', JNumber (of_i64 n))], sd_max_attempts = 1\<rparr>"

definition retrying :: "int \<Rightarrow> 'n step_definition \<Rightarrow> 'n step_definition" where
  "retrying n s = s\<lparr>sd_max_attempts := n\<rparr>"

definition validate_attempts :: "'n step_definition \<Rightarrow> workflow_error + unit" where
  "validate_attempts s = (if 1 \<le> sd_max_attempts s \<and> sd_max_attempts s \<le> WF_MAX_ATTEMPTS then Inr () else Inl (WfInvalid ''invalid_max_attempts''))"

definition validate_step :: "('n \<Rightarrow> int option) \<Rightarrow> 'n step_definition \<Rightarrow> workflow_error + unit" where
  "validate_step as_i64 s =
     (let name = trim (sd_name s) in
      if name = [] then Inl (WfInvalid ''invalid_step_name'')
      else if length name > MAX_STEP_NAME then Inl (WfInvalid ''invalid_step_name'')
      else if \<not> is_object (sd_params s) then Inl (WfInvalid ''invalid_step_params'')
      else (case sd_kind s of
              Task \<Rightarrow>
                (let action = trim (case sd_action s of None \<Rightarrow> [] | Some a \<Rightarrow> a) in
                 if \<not> is_action action then Inl (WfInvalid ''invalid_step_action'')
                 else res_bind (validate_params as_i64 action (sd_params s)) (\<lambda>_. validate_attempts s))
            | Wait \<Rightarrow>
                if sd_action s \<noteq> None then Inl (WfInvalid ''invalid_wait'')
                else if sd_max_attempts s \<noteq> 1 then Inl (WfInvalid ''invalid_max_attempts'')
                else res_bind (wait_seconds_from as_i64 (sd_params s)) (\<lambda>_. Inr ())))"

record 'n workflow_definition =
  df_trigger :: trigger
  df_conditions :: "'n json list"
  df_steps :: "'n step_definition list"

fun validate_steps :: "('n \<Rightarrow> int option) \<Rightarrow> string list \<Rightarrow> 'n step_definition list \<Rightarrow> workflow_error + unit" where
  "validate_steps as_i64 seen [] = Inr ()"
| "validate_steps as_i64 seen (s # ss) =
     res_bind (validate_step as_i64 s) (\<lambda>_.
       let name = trim (sd_name s) in
       if name \<in> set seen then Inl (WfInvalid ''invalid_step_name'') else validate_steps as_i64 (seen @ [name]) ss)"

definition validate_conditions :: "'n workflow_definition \<Rightarrow> workflow_error + unit" where
  "validate_conditions d =
     (if length (df_conditions d) > MAX_CONDITIONS then Inl (WfInvalid ''invalid_conditions'')
      else if df_conditions d = [] then Inr ()
      else if tg_kind (df_trigger d) \<noteq> Event then Inl (WfInvalid ''invalid_conditions'')
      else if list_all is_object (df_conditions d) then Inr () else Inl (WfInvalid ''invalid_conditions''))"

definition validate_definition ::
  "('n \<Rightarrow> int option) \<Rightarrow> calendar \<Rightarrow> instant \<Rightarrow> 'n workflow_definition \<Rightarrow> (workflow_error + unit) option" where
  "validate_definition as_i64 cal now d =
     (if df_steps d = [] then Some (Inl (WfInvalid ''invalid_steps''))
      else if length (df_steps d) > MAX_STEPS then Some (Inl (WfInvalid ''invalid_steps''))
      else run_bind (Some (validate_steps as_i64 [] (df_steps d))) (\<lambda>_.
           run_bind (Some (validate_conditions d)) (\<lambda>_.
           run_bind (validate_trigger cal now (df_trigger d)) (\<lambda>_. Some (Inr ())))))"

definition new_definition ::
  "('n \<Rightarrow> int option) \<Rightarrow> calendar \<Rightarrow> instant \<Rightarrow> trigger \<Rightarrow> 'n step_definition list \<Rightarrow> (workflow_error + 'n workflow_definition) option" where
  "new_definition as_i64 cal now t steps =
     (let d = \<lparr>df_trigger = t, df_conditions = [], df_steps = steps\<rparr>
      in run_bind (validate_definition as_i64 cal now d) (\<lambda>_. Some (Inr d)))"

end
