(* ===== verification/WorkflowStore.thy ===== *)
theory WorkflowStore
  imports WorkflowModel "HOL-Library.Product_Lexorder"
begin

text \<open>
  The durable step store of the workflow engine (\<open>crates/workflows/src/store.rs\<close>, the rows of
  \<open>model.rs\<close>): definitions, runs and steps as tables, one definition per statement. The check
  constraints of the step table are the conditions \<open>row_allowed\<close>; a statement that would break one
  fails as a database error. Status columns hold the stored names.
\<close>

subsection \<open>Rows\<close>

record 'n workflow =
  wf_id :: uuid
  wf_organization_id :: uuid
  wf_site_id :: "uuid option"
  wf_name :: string
  wf_description :: string
  wf_enabled :: bool
  wf_trigger_kind :: string
  wf_schedule :: "string option"
  wf_trigger_event :: "string option"
  wf_conditions :: "'n json"
  wf_next_run_at :: "instant option"
  wf_steps :: "'n json"
  wf_last_triggered_at :: "instant option"
  wf_trigger_count :: int
  wf_created_by :: "uuid option"
  wf_created_at :: instant
  wf_updated_at :: instant

definition workflow_trigger :: "'n workflow \<Rightarrow> trigger_kind" where
  "workflow_trigger w = (case trigger_parse (wf_trigger_kind w) of None \<Rightarrow> Manual | Some k \<Rightarrow> k)"

text \<open>\<open>read_steps\<close> is serde's reading of the stored steps.\<close>

definition workflow_definitions ::
  "('n json \<Rightarrow> 'n step_definition list option) \<Rightarrow> 'n workflow \<Rightarrow> workflow_error + 'n step_definition list" where
  "workflow_definitions read_steps w = ok_or (WfInvalid ''workflow_definition_unreadable'') (read_steps (wf_steps w))"

record 'n new_workflow =
  nf_organization_id :: uuid
  nf_site_id :: "uuid option"
  nf_name :: string
  nf_description :: string
  nf_enabled :: bool
  nf_trigger :: trigger_kind
  nf_schedule :: "string option"
  nf_trigger_event :: "string option"
  nf_conditions :: "'n json"
  nf_next_run_at :: "instant option"
  nf_steps :: "'n json"
  nf_created_by :: "uuid option"

record execution =
  ex_id :: uuid
  ex_workflow_id :: uuid
  ex_organization_id :: uuid
  ex_status :: string
  ex_trigger_kind :: string
  ex_triggered_by :: "uuid option"
  ex_started_at :: instant
  ex_finished_at :: "instant option"
  ex_error :: "string option"

definition execution_is_terminal :: "execution \<Rightarrow> bool" where
  "execution_is_terminal e = (case execution_parse (ex_status e) of None \<Rightarrow> False | Some s \<Rightarrow> is_terminal s)"

record 'n wf_step =
  ws_id :: uuid
  ws_execution_id :: uuid
  ws_step_no :: int
  ws_name :: string
  ws_kind :: string
  ws_action :: "string option"
  ws_params :: "'n json"
  ws_status :: string
  ws_attempts :: int
  ws_max_attempts :: int
  ws_available_at :: instant
  ws_started_at :: "instant option"
  ws_finished_at :: "instant option"
  ws_output :: "'n json option"
  ws_error :: "string option"

record wf_audit =
  wa_action :: string
  wa_organization_id :: uuid
  wa_target :: uuid
  wa_error :: "string option"

record 'n wf_db =
  wd_workflows :: "'n workflow list"
  wd_executions :: "execution list"
  wd_steps :: "'n wf_step list"
  wd_audit :: "wf_audit list"

text \<open>The check constraints of \<open>workflows\<close> and of \<open>workflow_steps\<close>; \<open>btrim\<close> removes blanks only.\<close>

definition not_blank :: "string \<Rightarrow> bool" where
  "not_blank s \<longleftrightarrow> filter (\<lambda>c. c \<noteq> CHR '' '') s \<noteq> []"

definition workflow_allowed :: "'n workflow \<Rightarrow> bool" where
  "workflow_allowed w \<longleftrightarrow>
     not_blank (wf_name w) \<and> as_array (wf_steps w) \<noteq> None \<and>
     (wf_trigger_kind w = trigger_str Manual \<and> wf_schedule w = None \<and> wf_next_run_at w = None \<or>
      wf_trigger_kind w = trigger_str Schedule \<and> wf_schedule w \<noteq> None \<or>
      wf_trigger_kind w = trigger_str Event \<and> wf_schedule w = None \<and> wf_next_run_at w = None) \<and>
     (wf_trigger_kind w = trigger_str Event) = (wf_trigger_event w \<noteq> None) \<and>
     (case as_array (wf_conditions w) of None \<Rightarrow> False | Some cs \<Rightarrow> wf_trigger_kind w = trigger_str Event \<or> cs = []) \<and>
     0 \<le> wf_trigger_count w"

definition attempts_allowed :: "'n wf_step \<Rightarrow> bool" where
  "attempts_allowed s \<longleftrightarrow>
     (if ws_kind s = kind_str Task then 0 \<le> ws_attempts s \<and> ws_attempts s \<le> ws_max_attempts s
      else ws_kind s = kind_str Wait \<and> 0 \<le> ws_attempts s \<and> ws_attempts s \<le> 2)"

definition row_allowed :: "'n wf_step \<Rightarrow> bool" where
  "row_allowed s \<longleftrightarrow>
     ws_step_no s > 0 \<and> not_blank (ws_name s) \<and>
     (if ws_kind s = kind_str Task then ws_action s \<noteq> None else ws_kind s = kind_str Wait \<and> ws_action s = None) \<and>
     1 \<le> ws_max_attempts s \<and> ws_max_attempts s \<le> 5 \<and> attempts_allowed s"

subsection \<open>Definitions\<close>

definition workflow_of :: "instant \<Rightarrow> uuid \<Rightarrow> 'n new_workflow \<Rightarrow> 'n workflow" where
  "workflow_of now fresh new =
     \<lparr>wf_id = fresh, wf_organization_id = nf_organization_id new, wf_site_id = nf_site_id new, wf_name = nf_name new,
      wf_description = nf_description new, wf_enabled = nf_enabled new, wf_trigger_kind = trigger_str (nf_trigger new),
      wf_schedule = nf_schedule new, wf_trigger_event = nf_trigger_event new, wf_conditions = nf_conditions new,
      wf_next_run_at = nf_next_run_at new, wf_steps = nf_steps new, wf_last_triggered_at = None, wf_trigger_count = 0,
      wf_created_by = nf_created_by new, wf_created_at = now, wf_updated_at = now\<rparr>"

definition insert_workflow :: "instant \<Rightarrow> 'n wf_db \<Rightarrow> uuid \<Rightarrow> 'n new_workflow \<Rightarrow> (workflow_error + 'n workflow) \<times> 'n wf_db" where
  "insert_workflow now db fresh new =
     (if \<not> workflow_allowed (workflow_of now fresh new) then (Inl WfDatabase, db)
      else (Inr (workflow_of now fresh new), db\<lparr>wd_workflows := wd_workflows db @ [workflow_of now fresh new]\<rparr>))"

definition in_scope :: "uuid option \<Rightarrow> uuid option \<Rightarrow> 'n workflow \<Rightarrow> bool" where
  "in_scope organization_id site_id w \<longleftrightarrow>
     (organization_id = None \<or> Some (wf_organization_id w) = organization_id) \<and> (site_id = None \<or> wf_site_id w = site_id)"

definition list_workflows :: "'n wf_db \<Rightarrow> uuid option \<Rightarrow> uuid option \<Rightarrow> 'n workflow list" where
  "list_workflows db organization_id site_id =
     sort_key (\<lambda>w. (- wf_created_at w, wf_id w)) (filter (in_scope organization_id site_id) (wd_workflows db))"

definition find_workflow :: "'n wf_db \<Rightarrow> uuid \<Rightarrow> 'n workflow option" where
  "find_workflow db i = find (\<lambda>w. wf_id w = i) (wd_workflows db)"

record 'n workflow_update =
  wu_name :: string
  wu_description :: string
  wu_site_id :: "uuid option"
  wu_enabled :: bool
  wu_trigger :: trigger_kind
  wu_schedule :: "string option"
  wu_trigger_event :: "string option"
  wu_conditions :: "'n json"
  wu_next_run_at :: "instant option"
  wu_steps :: "'n json"

definition put_workflow :: "uuid \<Rightarrow> ('n workflow \<Rightarrow> 'n workflow) \<Rightarrow> 'n wf_db \<Rightarrow> 'n wf_db" where
  "put_workflow i g db = db\<lparr>wd_workflows := map (\<lambda>w. if wf_id w = i then g w else w) (wd_workflows db)\<rparr>"

definition updated_row :: "instant \<Rightarrow> 'n workflow_update \<Rightarrow> 'n workflow \<Rightarrow> 'n workflow" where
  "updated_row now u w = w\<lparr>wf_name := wu_name u, wf_description := wu_description u, wf_site_id := wu_site_id u,
     wf_enabled := wu_enabled u, wf_trigger_kind := trigger_str (wu_trigger u), wf_schedule := wu_schedule u,
     wf_next_run_at := wu_next_run_at u, wf_steps := wu_steps u, wf_trigger_event := wu_trigger_event u,
     wf_conditions := wu_conditions u, wf_updated_at := now\<rparr>"

definition update_workflow ::
  "instant \<Rightarrow> 'n wf_db \<Rightarrow> uuid \<Rightarrow> 'n workflow_update \<Rightarrow> (workflow_error + 'n workflow option) \<times> 'n wf_db" where
  "update_workflow now db i u =
     (case find_workflow db i of
        None \<Rightarrow> (Inr None, db)
      | Some w \<Rightarrow>
          if \<not> workflow_allowed (updated_row now u w) then (Inl WfDatabase, db)
          else (Inr (Some (updated_row now u w)), put_workflow i (updated_row now u) db))"

text \<open>Deleting a definition removes its runs and their steps with it.\<close>

definition delete_workflow :: "'n wf_db \<Rightarrow> uuid \<Rightarrow> bool \<times> 'n wf_db" where
  "delete_workflow db i =
     (let gone = map ex_id (filter (\<lambda>e. ex_workflow_id e = i) (wd_executions db))
      in (find_workflow db i \<noteq> None,
          db\<lparr>wd_workflows := filter (\<lambda>w. wf_id w \<noteq> i) (wd_workflows db),
             wd_executions := filter (\<lambda>e. ex_workflow_id e \<noteq> i) (wd_executions db),
             wd_steps := filter (\<lambda>s. ws_execution_id s \<notin> set gone) (wd_steps db)\<rparr>))"

subsection \<open>Schedules\<close>

definition schedule_due :: "instant \<Rightarrow> 'n workflow \<Rightarrow> bool" where
  "schedule_due now w \<longleftrightarrow> wf_enabled w \<and> wf_trigger_kind w = trigger_str Schedule \<and>
     (case wf_next_run_at w of None \<Rightarrow> False | Some t \<Rightarrow> t \<le> now)"

text \<open>The loop over the due rows: the claimed ones so far and the new table; an error rolls back.\<close>

fun claim_rows ::
  "calendar \<Rightarrow> instant \<Rightarrow> 'n workflow list \<Rightarrow> 'n workflow list \<Rightarrow> 'n wf_db \<Rightarrow> (workflow_error + 'n workflow list \<times> 'n wf_db) option" where
  "claim_rows cal now claimed [] db = Some (Inr (claimed, db))"
| "claim_rows cal now claimed (w # ws) db =
     Option.bind (cron_parse (case wf_schedule w of None \<Rightarrow> [] | Some e \<Rightarrow> e)) (\<lambda>parsed.
       case parsed of
         Inr s \<Rightarrow>
           (case next_after cal s now of
              Inl e \<Rightarrow> Some (Inl e)
            | Inr t \<Rightarrow> claim_rows cal now (claimed @ [w]) ws (put_workflow (wf_id w) (\<lambda>x. x\<lparr>wf_next_run_at := Some t\<rparr>) db))
       | Inl _ \<Rightarrow> claim_rows cal now claimed ws (put_workflow (wf_id w) (\<lambda>x. x\<lparr>wf_enabled := False, wf_updated_at := now\<rparr>) db))"

definition due_schedules :: "instant \<Rightarrow> 'n wf_db \<Rightarrow> nat \<Rightarrow> 'n workflow list" where
  "due_schedules now db limit = take limit (sort_key (\<lambda>w. (the (wf_next_run_at w), wf_id w)) (filter (schedule_due now) (wd_workflows db)))"

definition claim_due_schedules ::
  "calendar \<Rightarrow> instant \<Rightarrow> 'n wf_db \<Rightarrow> nat \<Rightarrow> ((workflow_error + 'n workflow list) \<times> 'n wf_db) option" where
  "claim_due_schedules cal now db limit =
     map_option (\<lambda>r. case r of Inl e \<Rightarrow> (Inl e, db) | Inr (claimed, db') \<Rightarrow> (Inr claimed, db'))
       (claim_rows cal now [] (due_schedules now db limit) db)"

subsection \<open>Starting a run\<close>

definition step_row :: "instant \<Rightarrow> uuid \<Rightarrow> uuid \<Rightarrow> nat \<Rightarrow> 'n step_definition \<Rightarrow> 'n wf_step" where
  "step_row now i execution_id index s =
     \<lparr>ws_id = i, ws_execution_id = execution_id, ws_step_no = int index + 1, ws_name = trim (sd_name s),
      ws_kind = kind_str (sd_kind s), ws_action = sd_action s, ws_params = sd_params s, ws_status = step_str StPending,
      ws_attempts = 0, ws_max_attempts = sd_max_attempts s, ws_available_at = now, ws_started_at = None,
      ws_finished_at = None, ws_output = None, ws_error = None\<rparr>"

definition step_rows :: "instant \<Rightarrow> (nat \<Rightarrow> uuid) \<Rightarrow> uuid \<Rightarrow> 'n step_definition list \<Rightarrow> 'n wf_step list" where
  "step_rows now ids execution_id steps = map (\<lambda>(index, s). step_row now (ids index) execution_id index s) (enumerate 0 steps)"

definition execution_row :: "instant \<Rightarrow> uuid \<Rightarrow> 'n workflow \<Rightarrow> trigger_kind \<Rightarrow> uuid option \<Rightarrow> execution" where
  "execution_row now i w kind triggered_by =
     \<lparr>ex_id = i, ex_workflow_id = wf_id w, ex_organization_id = wf_organization_id w, ex_status = execution_str ExRunning,
      ex_trigger_kind = trigger_str kind, ex_triggered_by = triggered_by, ex_started_at = now, ex_finished_at = None,
      ex_error = None\<rparr>"

text \<open>The identifiers the database generates are the arguments \<open>fresh\<close> and \<open>ids\<close>.\<close>

definition create_execution ::
  "instant \<Rightarrow> 'n wf_db \<Rightarrow> uuid \<Rightarrow> (nat \<Rightarrow> uuid) \<Rightarrow> 'n workflow \<Rightarrow> trigger_kind \<Rightarrow> uuid option \<Rightarrow> 'n step_definition list \<Rightarrow>
   (workflow_error + execution \<times> 'n wf_step list) \<times> 'n wf_db" where
  "create_execution now db fresh ids w kind triggered_by steps =
     (let e = execution_row now fresh w kind triggered_by; rows = step_rows now ids fresh steps in
      if find_workflow db (wf_id w) = None then (Inl WfDatabase, db)
      else if \<not> list_all row_allowed rows then (Inl WfDatabase, db)
      else (Inr (e, rows), db\<lparr>wd_executions := wd_executions db @ [e], wd_steps := wd_steps db @ rows\<rparr>))"

definition list_event_rules :: "'n wf_db \<Rightarrow> uuid \<Rightarrow> uuid option \<Rightarrow> string \<Rightarrow> 'n workflow list" where
  "list_event_rules db organization_id site_id name =
     sort_key (\<lambda>w. (wf_created_at w, wf_id w)) (filter (\<lambda>w. wf_trigger_kind w = trigger_str Event \<and> wf_enabled w \<and>
       wf_trigger_event w = Some name \<and> wf_organization_id w = organization_id \<and>
       (wf_site_id w = None \<or> site_id \<noteq> None \<and> wf_site_id w = site_id)) (wd_workflows db))"

definition list_event_workflows :: "'n wf_db \<Rightarrow> uuid option \<Rightarrow> uuid option \<Rightarrow> 'n workflow list" where
  "list_event_workflows db organization_id site_id =
     sort_key (\<lambda>w. (- wf_created_at w, wf_id w)) (filter (\<lambda>w. wf_trigger_kind w = trigger_str Event \<and>
       in_scope organization_id site_id w) (wd_workflows db))"

definition note_match :: "instant \<Rightarrow> uuid \<Rightarrow> 'n wf_db \<Rightarrow> 'n wf_db" where
  "note_match now i = put_workflow i (\<lambda>w. w\<lparr>wf_last_triggered_at := Some now, wf_trigger_count := wf_trigger_count w + 1\<rparr>)"

definition find_execution :: "'n wf_db \<Rightarrow> uuid \<Rightarrow> execution option" where
  "find_execution db i = find (\<lambda>e. ex_id e = i) (wd_executions db)"

definition list_executions :: "'n wf_db \<Rightarrow> uuid \<Rightarrow> nat \<Rightarrow> execution list" where
  "list_executions db i limit =
     take limit (rev (sort_key (\<lambda>e. (ex_started_at e, ex_id e)) (filter (\<lambda>e. ex_workflow_id e = i) (wd_executions db))))"

definition list_steps :: "'n wf_db \<Rightarrow> uuid \<Rightarrow> 'n wf_step list" where
  "list_steps db i = sort_key ws_step_no (filter (\<lambda>s. ws_execution_id s = i) (wd_steps db))"

subsection \<open>Moving a step\<close>

definition open_strs :: "string set" where
  "open_strs = {step_str StPending, step_str StRunning, step_str StWaiting}"

definition put_step :: "('n wf_step \<Rightarrow> bool) \<Rightarrow> ('n wf_step \<Rightarrow> 'n wf_step) \<Rightarrow> 'n wf_db \<Rightarrow> 'n wf_db" where
  "put_step P g db = db\<lparr>wd_steps := map (\<lambda>s. if P s then g s else s) (wd_steps db)\<rparr>"

definition is_running :: "'n wf_db \<Rightarrow> uuid \<Rightarrow> bool" where
  "is_running db i \<longleftrightarrow> list_ex (\<lambda>e. ex_id e = i \<and> ex_status e = execution_str ExRunning) (wd_executions db)"

definition step_due :: "instant \<Rightarrow> 'n wf_db \<Rightarrow> 'n wf_step \<Rightarrow> bool" where
  "step_due now db s \<longleftrightarrow>
     is_running db (ws_execution_id s) \<and> ws_status s \<in> {step_str StPending, step_str StWaiting} \<and> ws_available_at s \<le> now \<and>
     \<not> list_ex (\<lambda>earlier. ws_execution_id earlier = ws_execution_id s \<and> ws_step_no earlier < ws_step_no s \<and>
         ws_status earlier \<in> open_strs) (wd_steps db)"

definition run_started :: "'n wf_db \<Rightarrow> uuid \<Rightarrow> instant" where
  "run_started db i = (case find_execution db i of None \<Rightarrow> 0 | Some e \<Rightarrow> ex_started_at e)"

record 'n claimed_step =
  cs_id :: uuid
  cs_execution_id :: uuid
  cs_step_no :: int
  cs_name :: string
  cs_kind :: string
  cs_action :: "string option"
  cs_params :: "'n json"
  cs_attempts :: int
  cs_max_attempts :: int

definition claimed_of :: "'n wf_step \<Rightarrow> 'n claimed_step" where
  "claimed_of s = \<lparr>cs_id = ws_id s, cs_execution_id = ws_execution_id s, cs_step_no = ws_step_no s, cs_name = ws_name s,
     cs_kind = ws_kind s, cs_action = ws_action s, cs_params = ws_params s, cs_attempts = ws_attempts s,
     cs_max_attempts = ws_max_attempts s\<rparr>"

definition claim_row :: "instant \<Rightarrow> 'n wf_step \<Rightarrow> 'n wf_step" where
  "claim_row now s = s\<lparr>ws_status := step_str StRunning, ws_attempts := ws_attempts s + 1, ws_started_at := Some now\<rparr>"

definition claim_due_step :: "instant \<Rightarrow> 'n wf_db \<Rightarrow> (workflow_error + 'n claimed_step option) \<times> 'n wf_db" where
  "claim_due_step now db =
     (case sort_key (\<lambda>s. (run_started db (ws_execution_id s), ws_execution_id s, ws_step_no s)) (filter (step_due now db) (wd_steps db)) of
        [] \<Rightarrow> (Inr None, db)
      | s # _ \<Rightarrow>
          if \<not> attempts_allowed (claim_row now s) then (Inl WfDatabase, db)
          else (Inr (Some (claimed_of (claim_row now s))), put_step (\<lambda>x. ws_id x = ws_id s) (claim_row now) db))"

definition claim_held :: "uuid \<Rightarrow> 'n wf_step \<Rightarrow> bool" where
  "claim_held i s \<longleftrightarrow> ws_id s = i \<and> ws_status s = step_str StRunning"

definition set_step_waiting :: "uuid \<Rightarrow> instant \<Rightarrow> 'n wf_db \<Rightarrow> 'n wf_db" where
  "set_step_waiting i available_at =
     put_step (claim_held i) (\<lambda>s. s\<lparr>ws_status := step_str StWaiting, ws_started_at := None, ws_available_at := available_at\<rparr>)"

definition complete_step :: "instant \<Rightarrow> uuid \<Rightarrow> 'n json \<Rightarrow> 'n wf_db \<Rightarrow> 'n wf_db" where
  "complete_step now i output =
     put_step (claim_held i) (\<lambda>s. s\<lparr>ws_status := step_str StSucceeded, ws_finished_at := Some now, ws_output := Some output, ws_error := None\<rparr>)"

definition retry_step :: "uuid \<Rightarrow> string \<Rightarrow> instant \<Rightarrow> 'n wf_db \<Rightarrow> 'n wf_db" where
  "retry_step i message available_at =
     put_step (claim_held i) (\<lambda>s. s\<lparr>ws_status := step_str StPending, ws_error := Some message, ws_available_at := available_at, ws_started_at := None\<rparr>)"

definition fail_step :: "instant \<Rightarrow> uuid \<Rightarrow> string \<Rightarrow> 'n wf_db \<Rightarrow> 'n wf_db" where
  "fail_step now i message =
     put_step (claim_held i) (\<lambda>s. s\<lparr>ws_status := step_str StFailed, ws_finished_at := Some now, ws_error := Some message\<rparr>)"

definition cancelled_row :: "instant \<Rightarrow> 'n wf_step \<Rightarrow> 'n wf_step" where
  "cancelled_row now s =
     s\<lparr>ws_status := step_str StCancelled, ws_finished_at := Some now, ws_error := Some ''the run was cancelled''\<rparr>"

definition cancel_step :: "instant \<Rightarrow> uuid \<Rightarrow> 'n wf_db \<Rightarrow> 'n wf_db" where
  "cancel_step now i = put_step (\<lambda>s. ws_id s = i \<and> ws_status s \<in> open_strs) (cancelled_row now)"

subsection \<open>Settling a run\<close>

definition put_execution :: "(execution \<Rightarrow> bool) \<Rightarrow> (execution \<Rightarrow> execution) \<Rightarrow> 'n wf_db \<Rightarrow> 'n wf_db" where
  "put_execution P g db = db\<lparr>wd_executions := map (\<lambda>e. if P e then g e else e) (wd_executions db)\<rparr>"

definition count_steps :: "'n wf_db \<Rightarrow> uuid \<Rightarrow> string set \<Rightarrow> nat" where
  "count_steps db i statuses = length (filter (\<lambda>s. ws_execution_id s = i \<and> ws_status s \<in> statuses) (wd_steps db))"

definition run_verdict :: "'n wf_db \<Rightarrow> uuid \<Rightarrow> execution_status" where
  "run_verdict db i =
     (if count_steps db i {step_str StFailed} > 0 then ExFailed
      else if count_steps db i {step_str StCancelled} > 0 then ExCancelled else ExCompleted)"

definition first_failure :: "'n wf_db \<Rightarrow> uuid \<Rightarrow> string option" where
  "first_failure db i =
     (case sort_key ws_step_no (filter (\<lambda>s. ws_execution_id s = i \<and> ws_status s = step_str StFailed) (wd_steps db)) of
        [] \<Rightarrow> None | s # _ \<Rightarrow> ws_error s)"

definition settled_row :: "instant \<Rightarrow> execution_status \<Rightarrow> string option \<Rightarrow> execution \<Rightarrow> execution" where
  "settled_row now status failure e = e\<lparr>ex_status := execution_str status, ex_finished_at := Some now, ex_error := failure\<rparr>"

definition settle_execution :: "instant \<Rightarrow> 'n wf_db \<Rightarrow> uuid \<Rightarrow> execution_status option \<times> 'n wf_db" where
  "settle_execution now db i =
     (if count_steps db i open_strs > 0 then (None, db)
      else (let status = run_verdict db i; failure = (if status = ExFailed then first_failure db i else None)
            in (if is_running db i then Some status else None,
                put_execution (\<lambda>e. ex_id e = i \<and> ex_status e = execution_str ExRunning)
                  (settled_row now status failure) db)))"

definition cancel_execution :: "instant \<Rightarrow> 'n wf_db \<Rightarrow> uuid \<Rightarrow> execution option \<times> 'n wf_db" where
  "cancel_execution now db i =
     (if \<not> is_running db i then (None, db)
      else (let db1 = put_execution (\<lambda>e. ex_id e = i \<and> ex_status e = execution_str ExRunning)
                  (\<lambda>e. e\<lparr>ex_status := execution_str ExCancelled, ex_finished_at := Some now\<rparr>) db
            in (find_execution db1 i,
                put_step (\<lambda>s. ws_execution_id s = i \<and> ws_status s \<in> {step_str StPending, step_str StWaiting}) (cancelled_row now) db1)))"

subsection \<open>Repairs\<close>

definition resumed :: "'n json" where
  "resumed = JObject [(''resumed'', JBool True), (''waited'', JBool True)]"

definition due_waits :: "instant \<Rightarrow> 'n wf_db \<Rightarrow> nat \<Rightarrow> 'n wf_step list" where
  "due_waits now db limit = take limit (sort_key ws_available_at (filter (\<lambda>s. ws_status s = step_str StWaiting \<and>
     ws_available_at s \<le> now \<and> is_running db (ws_execution_id s)) (wd_steps db)))"

definition resolve_due_waits :: "instant \<Rightarrow> 'n wf_db \<Rightarrow> nat \<Rightarrow> uuid list \<times> 'n wf_db" where
  "resolve_due_waits now db limit =
     (let due = due_waits now db limit
      in (map ws_execution_id due,
          put_step (\<lambda>s. ws_id s \<in> set (map ws_id due))
            (\<lambda>s. s\<lparr>ws_status := step_str StSucceeded, ws_finished_at := Some now, ws_output := Some resumed\<rparr>) db))"

definition stale_steps :: "instant \<Rightarrow> 'n wf_db \<Rightarrow> int \<Rightarrow> nat \<Rightarrow> 'n wf_step list" where
  "stale_steps now db lease_seconds limit =
     take limit (sort_key (\<lambda>s. the (ws_started_at s)) (filter (\<lambda>s. ws_status s = step_str StRunning \<and>
       is_running db (ws_execution_id s) \<and>
       (case ws_started_at s of None \<Rightarrow> False | Some t \<Rightarrow> t < now - seconds lease_seconds)) (wd_steps db)))"

fun settle_all :: "instant \<Rightarrow> uuid list \<Rightarrow> uuid list \<Rightarrow> 'n wf_db \<Rightarrow> uuid list \<times> 'n wf_db" where
  "settle_all now settled [] db = (settled, db)"
| "settle_all now settled (i # is) db =
     (case settle_execution now db i of (r, db') \<Rightarrow> settle_all now (if r \<noteq> None then settled @ [i] else settled) is db')"

definition reconcile_executions :: "instant \<Rightarrow> 'n wf_db \<Rightarrow> nat \<Rightarrow> uuid list \<times> 'n wf_db" where
  "reconcile_executions now db limit =
     settle_all now [] (map ex_id (take limit (sort_key ex_started_at (filter (\<lambda>e. ex_status e = execution_str ExRunning \<and>
       count_steps db (ex_id e) open_strs = 0) (wd_executions db))))) db"

definition whole_milliseconds :: "int \<Rightarrow> int" where
  "whole_milliseconds d = (if d < 0 then - ((- d) div 1000000) else d div 1000000)"

definition retry_delay :: "int \<Rightarrow> int \<Rightarrow> int \<Rightarrow> int" where
  "retry_delay attempt base most =
     (let shift = nat (max 1 (min attempt 16) - 1); factor = 2 ^ shift; base_ms = max 1 (whole_milliseconds base);
          cap_ms = max (whole_milliseconds most) base_ms
      in 1000000 * min (min (base_ms * factor) (2 ^ 63 - 1)) cap_ms)"

end
