(* ===== verification/WorkflowEngine.thy ===== *)
theory WorkflowEngine
  imports WorkflowStore
begin

text \<open>
  One tick of the runner and one sweep (\<open>crates/workflows/src/engine.rs\<close>, \<open>handler.rs\<close>), and the state
  machine they drive. The action of a claimed step runs between the claim and the writes that follow, so
  \<open>advance_step\<close> takes the outcome from \<open>perform\<close>; other statements may come in between. A call reads
  one clock. The process's action handler, serde's reader and the calendar are arguments; log lines are
  dropped, audit rows are kept.
\<close>

subsection \<open>Configuration and reports\<close>

record runner_config =
  rn_tick :: int
  rn_sweep :: int
  rn_batch :: nat
  rn_sweep_batch :: nat
  rn_scheduler_batch :: nat
  rn_retry_base :: int
  rn_retry_max :: int
  rn_lease :: int

definition default_runner :: runner_config where
  "default_runner = \<lparr>rn_tick = seconds 1, rn_sweep = seconds 30, rn_batch = 16, rn_sweep_batch = 100, rn_scheduler_batch = 8,
     rn_retry_base = seconds 5, rn_retry_max = seconds 300, rn_lease = seconds 300\<rparr>"

record tick_report =
  tr_started :: nat
  tr_start_failures :: nat
  tr_steps_run :: nat
  tr_waits_parked :: nat
  tr_retries :: nat
  tr_completed :: nat
  tr_failed :: nat
  tr_cancelled :: nat

definition empty_report :: tick_report where
  "empty_report = \<lparr>tr_started = 0, tr_start_failures = 0, tr_steps_run = 0, tr_waits_parked = 0, tr_retries = 0,
     tr_completed = 0, tr_failed = 0, tr_cancelled = 0\<rparr>"

definition report_is_idle :: "tick_report \<Rightarrow> bool" where
  "report_is_idle r \<longleftrightarrow> tr_started r = 0 \<and> tr_steps_run r = 0"

record sweep_report =
  sw_waits_resolved :: nat
  sw_steps_reclaimed :: nat
  sw_executions_settled :: nat

record step_outcome =
  so_waited :: bool
  so_retried :: bool
  so_settled :: "execution_status option"

definition no_outcome :: step_outcome where
  "no_outcome = \<lparr>so_waited = False, so_retried = False, so_settled = None\<rparr>"

record action_context =
  at_organization_id :: uuid
  at_site_id :: "uuid option"
  at_execution_id :: uuid
  at_step_id :: uuid
  at_step_no :: int
  at_attempt :: int

type_synonym 'n action_handler = "string \<Rightarrow> 'n json \<Rightarrow> action_context \<Rightarrow> string + 'n json"

definition no_action_handler :: "'n action_handler" where
  "no_action_handler action params context = Inl (''`'' @ action @ ''` needs an action handler; this process installed none'')"

record 'n wf_env =
  en_as_i64 :: "'n \<Rightarrow> int option"
  en_of_i64 :: "int \<Rightarrow> 'n"
  en_read_steps :: "'n json \<Rightarrow> 'n step_definition list option"
  en_handler :: "'n action_handler"
  en_config :: runner_config
  en_calendar :: calendar

subsection \<open>Audit\<close>

definition settlement_action :: "execution_status \<Rightarrow> string option" where
  "settlement_action s = (case s of ExCompleted \<Rightarrow> Some ''workflow.execution.completed'' | ExFailed \<Rightarrow> Some ''workflow.execution.failed''
     | ExCancelled \<Rightarrow> Some ''workflow.execution.cancelled'' | ExRunning \<Rightarrow> None)"

definition record_settlement :: "execution \<Rightarrow> execution_status \<Rightarrow> 'n wf_db \<Rightarrow> 'n wf_db" where
  "record_settlement e status db =
     (case settlement_action status of
        None \<Rightarrow> db
      | Some action \<Rightarrow>
          db\<lparr>wd_audit := wd_audit db @ [\<lparr>wa_action = action, wa_organization_id = ex_organization_id e, wa_target = ex_id e,
            wa_error = Option.bind (find_execution db (ex_id e)) ex_error\<rparr>]\<rparr>)"

definition record_start :: "'n workflow \<Rightarrow> execution \<Rightarrow> 'n wf_db \<Rightarrow> 'n wf_db" where
  "record_start w e db = db\<lparr>wd_audit := wd_audit db @ [\<lparr>wa_action = ''workflow.execution.started'',
     wa_organization_id = wf_organization_id w, wa_target = ex_id e, wa_error = None\<rparr>]\<rparr>"

definition audit_settlement :: "uuid \<Rightarrow> 'n wf_db \<Rightarrow> 'n wf_db" where
  "audit_settlement i db =
     (case find_execution db i of
        None \<Rightarrow> db
      | Some e \<Rightarrow> (case execution_parse (ex_status e) of
                  None \<Rightarrow> db
                | Some status \<Rightarrow> if is_terminal status then record_settlement e status db else db))"

definition settle_if_open :: "instant \<Rightarrow> uuid \<Rightarrow> 'n wf_db \<Rightarrow> 'n wf_db" where
  "settle_if_open now i db =
     (case settle_execution now db i of (r, db') \<Rightarrow> if r \<noteq> None then audit_settlement i db' else db')"

subsection \<open>Starting a run\<close>

definition start_run_with ::
  "instant \<Rightarrow> 'n wf_db \<Rightarrow> uuid \<Rightarrow> (nat \<Rightarrow> uuid) \<Rightarrow> 'n workflow \<Rightarrow> trigger_kind \<Rightarrow> uuid option \<Rightarrow> 'n step_definition list \<Rightarrow>
   (workflow_error + execution) \<times> 'n wf_db" where
  "start_run_with now db fresh ids w kind triggered_by steps =
     (case create_execution now db fresh ids w kind triggered_by steps of
        (Inl e, db') \<Rightarrow> (Inl e, db')
      | (Inr (e, _), db') \<Rightarrow> (Inr e, record_start w e db'))"

definition start_run ::
  "'n wf_env \<Rightarrow> instant \<Rightarrow> 'n wf_db \<Rightarrow> uuid \<Rightarrow> (nat \<Rightarrow> uuid) \<Rightarrow> 'n workflow \<Rightarrow> trigger_kind \<Rightarrow> uuid option \<Rightarrow>
   (workflow_error + execution) \<times> 'n wf_db" where
  "start_run env now db fresh ids w kind triggered_by =
     (case workflow_definitions (en_read_steps env) w of
        Inl e \<Rightarrow> (Inl e, db)
      | Inr steps \<Rightarrow> start_run_with now db fresh ids w kind triggered_by steps)"

subsection \<open>Advancing a claimed step\<close>

definition settle_after_step :: "instant \<Rightarrow> 'n claimed_step \<Rightarrow> 'n wf_db \<Rightarrow> (workflow_error + execution_status option) \<times> 'n wf_db" where
  "settle_after_step now c db =
     (case find_execution db (cs_execution_id c) of
        None \<Rightarrow> (Inr None, db)
      | Some e \<Rightarrow>
          (case execution_parse (ex_status e) of
             None \<Rightarrow> (Inl (WfInvalid ''workflow_store_error''), db)
           | Some ExRunning \<Rightarrow>
               (case settle_execution now db (cs_execution_id c) of
                  (Some status, db') \<Rightarrow> (Inr (Some status), record_settlement e status db')
                | (None, db') \<Rightarrow> (Inr None, db'))
           | Some _ \<Rightarrow> (Inr None, cancel_step now (cs_id c) db)))"

definition claim_site :: "'n wf_db \<Rightarrow> uuid \<Rightarrow> uuid option" where
  "claim_site db i = Option.bind (find_execution db i) (\<lambda>e. Option.bind (find_workflow db (ex_workflow_id e)) wf_site_id)"

definition context_of :: "'n wf_db \<Rightarrow> 'n claimed_step \<Rightarrow> action_context" where
  "context_of db c = \<lparr>at_organization_id = (case find_execution db (cs_execution_id c) of None \<Rightarrow> 0 | Some e \<Rightarrow> ex_organization_id e),
     at_site_id = claim_site db (cs_execution_id c), at_execution_id = cs_execution_id c, at_step_id = cs_id c,
     at_step_no = cs_step_no c, at_attempt = cs_attempts c\<rparr>"

text \<open>The outcome of the action of a claimed task step.\<close>

definition perform :: "'n wf_env \<Rightarrow> 'n wf_db \<Rightarrow> 'n claimed_step \<Rightarrow> string + 'n json" where
  "perform env db c =
     (let action = (case cs_action c of None \<Rightarrow> [] | Some a \<Rightarrow> a) in
      if is_host_action action then en_handler env action (cs_params c) (context_of db c)
      else run_action (en_as_i64 env) (en_of_i64 env) action (cs_params c) (cs_attempts c))"

definition finish :: "instant \<Rightarrow> 'n claimed_step \<Rightarrow> 'n wf_db \<Rightarrow> (workflow_error + step_outcome) \<times> 'n wf_db" where
  "finish now c db =
     (case settle_after_step now c db of
        (Inl e, db') \<Rightarrow> (Inl e, db')
      | (Inr settled, db') \<Rightarrow> (Inr (no_outcome\<lparr>so_settled := settled\<rparr>), db'))"

definition advance_wait :: "'n wf_env \<Rightarrow> instant \<Rightarrow> 'n claimed_step \<Rightarrow> 'n wf_db \<Rightarrow> (workflow_error + step_outcome) \<times> 'n wf_db" where
  "advance_wait env now c db =
     (if cs_attempts c > 1 then finish now c (complete_step now (cs_id c) resumed db)
      else (case wait_seconds_from (en_as_i64 env) (cs_params c) of
              Inl e \<Rightarrow> (Inl e, db)
            | Inr n \<Rightarrow>
                (case settle_after_step now c (set_step_waiting (cs_id c) (now + seconds n) db) of
                   (Inl e, db') \<Rightarrow> (Inl e, db')
                 | (Inr _, db') \<Rightarrow> (Inr (no_outcome\<lparr>so_waited := True\<rparr>), db'))))"

definition advance_task ::
  "'n wf_env \<Rightarrow> instant \<Rightarrow> 'n claimed_step \<Rightarrow> string + 'n json \<Rightarrow> 'n wf_db \<Rightarrow> (workflow_error + step_outcome) \<times> 'n wf_db" where
  "advance_task env now c outcome db =
     (case outcome of
        Inr output \<Rightarrow> finish now c (complete_step now (cs_id c) output db)
      | Inl message \<Rightarrow>
          if cs_attempts c < min (cs_max_attempts c) WF_MAX_ATTEMPTS
          then (Inr (no_outcome\<lparr>so_retried := True\<rparr>),
                retry_step (cs_id c) message
                  (now + retry_delay (cs_attempts c) (rn_retry_base (en_config env)) (rn_retry_max (en_config env))) db)
          else finish now c (fail_step now (cs_id c) message db))"

definition advance_step ::
  "'n wf_env \<Rightarrow> instant \<Rightarrow> 'n claimed_step \<Rightarrow> string + 'n json \<Rightarrow> 'n wf_db \<Rightarrow> (workflow_error + step_outcome) \<times> 'n wf_db" where
  "advance_step env now c outcome db =
     (case kind_parse (cs_kind c) of
        None \<Rightarrow> (Inl (WfInvalid ''workflow_store_error''), db)
      | Some Wait \<Rightarrow> advance_wait env now c db
      | Some Task \<Rightarrow> advance_task env now c outcome db)"

subsection \<open>A tick\<close>

text \<open>The list of identifiers the database generates is at least as long as the list of due schedules.\<close>

fun start_due ::
  "'n wf_env \<Rightarrow> instant \<Rightarrow> (uuid \<times> (nat \<Rightarrow> uuid)) list \<Rightarrow> 'n workflow list \<Rightarrow> tick_report \<Rightarrow> 'n wf_db \<Rightarrow> tick_report \<times> 'n wf_db" where
  "start_due env now ((fresh, ids) # rest) (w # ws) r db =
     (case start_run env now db fresh ids w Schedule None of
        (Inr _, db') \<Rightarrow> start_due env now rest ws (r\<lparr>tr_started := tr_started r + 1\<rparr>) db'
      | (Inl _, db') \<Rightarrow> start_due env now rest ws (r\<lparr>tr_start_failures := tr_start_failures r + 1\<rparr>) db')"
| "start_due env now _ _ r db = (r, db)"

definition count_outcome :: "step_outcome \<Rightarrow> tick_report \<Rightarrow> tick_report" where
  "count_outcome o1 r =
     (let r1 = (if so_waited o1 then r\<lparr>tr_waits_parked := tr_waits_parked r + 1\<rparr> else r);
          r2 = (if so_retried o1 then r1\<lparr>tr_retries := tr_retries r1 + 1\<rparr> else r1)
      in (case so_settled o1 of
            Some ExCompleted \<Rightarrow> r2\<lparr>tr_completed := tr_completed r2 + 1\<rparr>
          | Some ExFailed \<Rightarrow> r2\<lparr>tr_failed := tr_failed r2 + 1\<rparr>
          | Some ExCancelled \<Rightarrow> r2\<lparr>tr_cancelled := tr_cancelled r2 + 1\<rparr>
          | _ \<Rightarrow> r2))"

fun run_batch :: "'n wf_env \<Rightarrow> instant \<Rightarrow> nat \<Rightarrow> tick_report \<Rightarrow> 'n wf_db \<Rightarrow> (workflow_error + tick_report) \<times> 'n wf_db" where
  "run_batch env now 0 r db = (Inr r, db)"
| "run_batch env now (Suc n) r db =
     (case claim_due_step now db of
        (Inl e, db1) \<Rightarrow> (Inl e, db1)
      | (Inr None, db1) \<Rightarrow> (Inr r, db1)
      | (Inr (Some c), db1) \<Rightarrow>
          (case advance_step env now c (perform env db1 c) db1 of
             (Inl e, db2) \<Rightarrow> (Inl e, db2)
           | (Inr o1, db2) \<Rightarrow> run_batch env now n (count_outcome o1 (r\<lparr>tr_steps_run := tr_steps_run r + 1\<rparr>)) db2))"

definition tick_with ::
  "'n wf_env \<Rightarrow> instant \<Rightarrow> (uuid \<times> (nat \<Rightarrow> uuid)) list \<Rightarrow> 'n wf_db \<Rightarrow> ((workflow_error + tick_report) \<times> 'n wf_db) option" where
  "tick_with env now fresh db =
     map_option (\<lambda>r. case r of
         (Inl e, db1) \<Rightarrow> (Inl e, db1)
       | (Inr due, db1) \<Rightarrow>
           (case start_due env now fresh due empty_report db1 of
              (r1, db2) \<Rightarrow> run_batch env now (rn_batch (en_config env)) r1 db2))
       (claim_due_schedules (en_calendar env) now db (rn_scheduler_batch (en_config env)))"

subsection \<open>A sweep\<close>

definition reclaim_step :: "'n wf_env \<Rightarrow> instant \<Rightarrow> 'n wf_step \<Rightarrow> 'n wf_db \<Rightarrow> 'n wf_db" where
  "reclaim_step env now s db =
     (case kind_parse (ws_kind s) of
        Some Wait \<Rightarrow>
          if ws_attempts s > 1 then complete_step now (ws_id s) resumed db
          else (case wait_seconds_from (en_as_i64 env) (ws_params s) of
                  Inr n \<Rightarrow> set_step_waiting (ws_id s) (now + seconds n) db
                | Inl _ \<Rightarrow> fail_step now (ws_id s) ''the wait step could not be resumed after a restart'' db)
      | Some Task \<Rightarrow>
          if ws_attempts s < min (ws_max_attempts s) WF_MAX_ATTEMPTS
          then retry_step (ws_id s) ''the previous attempt was lost when its runner stopped'' now db
          else fail_step now (ws_id s) ''the last attempt was lost when its runner stopped'' db
      | None \<Rightarrow> fail_step now (ws_id s) ''the step carries an unknown kind'' db)"

definition whole_seconds :: "int \<Rightarrow> int" where
  "whole_seconds d = (if d < 0 then - ((- d) div 1000000000) else d div 1000000000)"

definition reclaim_stale_steps :: "'n wf_env \<Rightarrow> instant \<Rightarrow> 'n wf_db \<Rightarrow> uuid list \<times> 'n wf_db" where
  "reclaim_stale_steps env now db =
     (let stale = stale_steps now db (max 1 (whole_seconds (rn_lease (en_config env)))) (rn_sweep_batch (en_config env))
      in (map ws_execution_id stale, fold (reclaim_step env now) stale db))"

definition sweep :: "'n wf_env \<Rightarrow> instant \<Rightarrow> 'n wf_db \<Rightarrow> sweep_report \<times> 'n wf_db" where
  "sweep env now db =
     (case resolve_due_waits now db (rn_sweep_batch (en_config env)) of (resolved, db1) \<Rightarrow>
      case reclaim_stale_steps env now db1 of (reclaimed, db2) \<Rightarrow>
        (let db3 = fold (settle_if_open now) (resolved @ reclaimed) db2 in
         case reconcile_executions now db3 (rn_sweep_batch (en_config env)) of (recovered, db4) \<Rightarrow>
           (\<lparr>sw_waits_resolved = length resolved, sw_steps_reclaimed = length reclaimed, sw_executions_settled = length recovered\<rparr>,
            fold audit_settlement recovered db4)))"

end
