(* ===== verification/WorkflowRuns.thy ===== *)
theory WorkflowRuns
  imports WorkflowEngine
begin

text \<open>
  The workflow engine as a state machine: the tables together with the claims whose runner has not
  finished, every statement of the engine as a step, the invariants of the tables, and what they mean
  for runs. A claim whose lease expired is taken to be lost, as the sweeper assumes; a separate
  theorem shows what happens when it is not.
\<close>

subsection \<open>Steps of the machine\<close>

type_synonym 'n engine_state = "'n wf_db \<times> 'n claimed_step list"

datatype engine_move = MvStart | MvClaim | MvOther

inductive engine_step :: "'n wf_env \<Rightarrow> engine_move \<Rightarrow> 'n engine_state \<Rightarrow> 'n engine_state \<Rightarrow> bool" for env where
  es_start: "fresh \<notin> ex_id ` set (wd_executions db) \<Longrightarrow> inj_on ids {..<length steps} \<Longrightarrow>
    (\<And>k. ids k \<notin> ws_id ` set (wd_steps db) \<and> ids k \<notin> cs_id ` set fl) \<Longrightarrow>
    engine_step env MvStart (db, fl) (snd (start_run_with now db fresh ids w kind triggered_by steps), fl)"
| es_claim: "claim_due_step now db = (Inr (Some c), db') \<Longrightarrow> engine_step env MvClaim (db, fl) (db', c # fl)"
| es_advance: "c \<in> set fl \<Longrightarrow> engine_step env MvOther (db, fl) (snd (advance_step env now c outcome db), filter (\<lambda>x. cs_id x \<noteq> cs_id c) fl)"
| es_reclaim: "s \<in> set (wd_steps db) \<Longrightarrow> ws_status s = step_str StRunning \<Longrightarrow>
    engine_step env MvOther (db, fl) (reclaim_step env now s db, filter (\<lambda>x. cs_id x \<noteq> ws_id s) fl)"
| es_waits: "engine_step env MvOther (db, fl) (snd (resolve_due_waits now db limit), fl)"
| es_settle: "engine_step env MvOther (db, fl) (settle_if_open now i db, fl)"
| es_reconcile: "reconcile_executions now db limit = (recovered, db') \<Longrightarrow>
    engine_step env MvOther (db, fl) (fold audit_settlement recovered db', fl)"
| es_cancel: "engine_step env MvOther (db, fl) (snd (cancel_execution now db i), fl)"
| es_delete: "engine_step env MvOther (db, fl) (snd (delete_workflow db i), fl)"
| es_insert: "engine_step env MvOther (db, fl) (snd (insert_workflow now db fresh new), fl)"
| es_update: "engine_step env MvOther (db, fl) (snd (update_workflow now db i u), fl)"
| es_match: "engine_step env MvOther (db, fl) (note_match now i db, fl)"
| es_schedules: "claim_due_schedules cal now db limit = Some (r, db') \<Longrightarrow> engine_step env MvOther (db, fl) (db', fl)"

subsection \<open>The invariant\<close>

definition moved_strs :: "string set" where
  "moved_strs = {step_str StRunning, step_str StWaiting, step_str StSucceeded, step_str StFailed}"

definition step_ok :: "'n wf_step \<Rightarrow> bool" where
  "step_ok s \<longleftrightarrow> row_allowed s \<and>
     (\<exists>st. ws_status s = step_str st \<and>
        (st = StPending \<longrightarrow> (if ws_kind s = kind_str Task then ws_attempts s < ws_max_attempts s else ws_attempts s = 0)) \<and>
        (st = StRunning \<longrightarrow> 1 \<le> ws_attempts s) \<and>
        (st = StWaiting \<longrightarrow> ws_kind s = kind_str Wait \<and> ws_attempts s = 1))"

definition run_steps :: "'n wf_db \<Rightarrow> uuid \<Rightarrow> 'n wf_step list" where
  "run_steps db i = filter (\<lambda>s. ws_execution_id s = i) (wd_steps db)"

definition run_ok :: "'n wf_step list \<Rightarrow> execution \<Rightarrow> bool" where
  "run_ok rows e \<longleftrightarrow> (\<exists>st. ex_status e = execution_str st \<and>
     (st = ExCompleted \<longrightarrow> list_all (\<lambda>s. ws_status s = step_str StSucceeded) rows) \<and>
     (st = ExFailed \<longrightarrow> list_all (\<lambda>s. ws_status s \<notin> open_strs) rows \<and>
        (\<exists>s ss. sort_key ws_step_no (filter (\<lambda>s. ws_status s = step_str StFailed) rows) = s # ss \<and> ex_error e = ws_error s)))"

definition order_ok :: "'n wf_step list \<Rightarrow> bool" where
  "order_ok rows \<longleftrightarrow> (\<forall>s \<in> set rows. \<forall>t \<in> set rows. ws_execution_id s = ws_execution_id t \<longrightarrow>
     ws_step_no s < ws_step_no t \<longrightarrow> ws_status t \<in> moved_strs \<longrightarrow> ws_status s \<notin> open_strs)"

definition flight_ok :: "'n wf_step list \<Rightarrow> 'n claimed_step list \<Rightarrow> bool" where
  "flight_ok rows fl \<longleftrightarrow> (\<forall>c \<in> set fl. \<forall>s \<in> set rows. ws_id s = cs_id c \<longrightarrow> claimed_of s = c \<and> ws_status s = step_str StRunning)"

definition engine_ok :: "'n engine_state \<Rightarrow> bool" where
  "engine_ok x \<longleftrightarrow> (case x of (db, fl) \<Rightarrow>
     distinct (map ws_id (wd_steps db)) \<and> distinct (map ex_id (wd_executions db)) \<and>
     ws_execution_id ` set (wd_steps db) \<subseteq> ex_id ` set (wd_executions db) \<and>
     (\<forall>s \<in> set (wd_steps db). step_ok s) \<and> order_ok (wd_steps db) \<and>
     (\<forall>e \<in> set (wd_executions db). run_ok (run_steps db (ex_id e)) e) \<and> flight_ok (wd_steps db) fl)"

lemma status_sets [simp]:
  "step_str st \<in> open_strs \<longleftrightarrow> is_open st"
  "step_str st \<in> moved_strs \<longleftrightarrow> st = StRunning \<or> st = StWaiting \<or> st = StSucceeded \<or> st = StFailed"
  by (auto simp: open_strs_def moved_strs_def is_open_def)

text \<open>What a statement on steps may do to a row: keep who it is, move an open row to an allowed one, and
  move it on only behind closed rows.\<close>

definition same_step :: "'n wf_step \<Rightarrow> 'n wf_step \<Rightarrow> bool" where
  "same_step s t \<longleftrightarrow> ws_id t = ws_id s \<and> ws_execution_id t = ws_execution_id s \<and> ws_step_no t = ws_step_no s"

definition front :: "'n wf_step list \<Rightarrow> 'n wf_step \<Rightarrow> bool" where
  "front rows t \<longleftrightarrow> (\<forall>s \<in> set rows. ws_execution_id s = ws_execution_id t \<and> ws_step_no s < ws_step_no t \<longrightarrow> ws_status s \<notin> open_strs)"

definition good_move :: "'n wf_step list \<Rightarrow> 'n wf_step \<Rightarrow> 'n wf_step \<Rightarrow> bool" where
  "good_move rows s t \<longleftrightarrow> same_step s t \<and> ws_status s \<in> open_strs \<and> step_ok t \<and>
     (ws_status t \<in> moved_strs \<longrightarrow> ws_status s \<in> moved_strs \<or> front rows s)"

lemma put_step_steps: "wd_steps (put_step P g db) = map (\<lambda>s. if P s then g s else s) (wd_steps db)"
  by (simp add: put_step_def)

lemma put_step_other [simp]: "wd_executions (put_step P g db) = wd_executions db" "wd_workflows (put_step P g db) = wd_workflows db"
    "wd_audit (put_step P g db) = wd_audit db"
  by (simp_all add: put_step_def)

lemma run_steps_put:
  assumes "\<And>s. s \<in> set (wd_steps db) \<Longrightarrow> P s \<Longrightarrow> same_step s (g s)"
  shows "run_steps (put_step P g db) i = map (\<lambda>s. if P s then g s else s) (run_steps db i)"
proof -
  have "filter (\<lambda>s. ws_execution_id s = i) (map (\<lambda>s. if P s then g s else s) xs) =
      map (\<lambda>s. if P s then g s else s) (filter (\<lambda>s. ws_execution_id s = i) xs)"
    if "\<And>s. s \<in> set xs \<Longrightarrow> P s \<Longrightarrow> same_step s (g s)" for xs
    using that by (induction xs) (auto simp: same_step_def)
  then show ?thesis using assms by (simp add: run_steps_def put_step_steps)
qed

lemma run_ok_closed: "run_ok rows e \<Longrightarrow> ex_status e = execution_str ExCompleted \<or> ex_status e = execution_str ExFailed \<Longrightarrow>
  s \<in> set rows \<Longrightarrow> ws_status s \<notin> open_strs"
  by (auto simp: run_ok_def list_all_iff is_open_def)

lemma run_ok_running: "ex_status e = execution_str ExRunning \<or> ex_status e = execution_str ExCancelled \<Longrightarrow> run_ok rows e"
  by (auto simp: run_ok_def)

lemma engine_ok_put_step:
  assumes ok: "engine_ok (db, fl)"
    and move: "\<And>s. s \<in> set (wd_steps db) \<Longrightarrow> P s \<Longrightarrow> good_move (wd_steps db) s (g s)"
    and fl: "set fl' \<subseteq> set fl" "\<And>c s. c \<in> set fl' \<Longrightarrow> s \<in> set (wd_steps db) \<Longrightarrow> P s \<Longrightarrow> ws_id s \<noteq> cs_id c"
  shows "engine_ok (put_step P g db, fl')"
proof -
  let ?f = "\<lambda>s. if P s then g s else s"
  have same: "same_step s (?f s)" if "s \<in> set (wd_steps db)" for s
    using move[OF that] by (auto simp: good_move_def same_step_def)
  have "map ws_id (map ?f (wd_steps db)) = map ws_id (wd_steps db)"
    "map ws_execution_id (map ?f (wd_steps db)) = map ws_execution_id (wd_steps db)"
    using same by (simp_all add: same_step_def)
  then have ids: "map ws_id (map ?f (wd_steps db)) = map ws_id (wd_steps db)"
    "ws_execution_id ` set (map ?f (wd_steps db)) = ws_execution_id ` set (wd_steps db)"
    by (simp, metis set_map)
  have "order_ok (map ?f (wd_steps db))"
  proof (unfold order_ok_def, intro ballI impI)
    fix s' t' assume m: "s' \<in> set (map ?f (wd_steps db))" "t' \<in> set (map ?f (wd_steps db))" "ws_execution_id s' = ws_execution_id t'"
      "ws_step_no s' < ws_step_no t'" "ws_status t' \<in> moved_strs"
    obtain s t where s: "s \<in> set (wd_steps db)" "s' = ?f s" and t: "t \<in> set (wd_steps db)" "t' = ?f t" using m(1,2) by auto
    have link: "ws_execution_id s = ws_execution_id t" "ws_step_no s < ws_step_no t"
      using m(3,4) same[OF s(1)] same[OF t(1)] unfolding s(2) t(2) by (auto simp: same_step_def)
    have "ws_status t \<in> moved_strs \<or> front (wd_steps db) t"
      using m(5) move[OF t(1)] unfolding t(2) by (auto simp: good_move_def split: if_split_asm)
    then have "ws_status s \<notin> open_strs"
      using ok s(1) t(1) link unfolding engine_ok_def order_ok_def front_def by fastforce
    then show "ws_status s' \<notin> open_strs" using move[OF s(1)] unfolding s(2) by (auto simp: good_move_def)
  qed
  moreover have "run_ok (run_steps (put_step P g db) (ex_id e)) e" if e: "e \<in> set (wd_executions db)" for e
  proof (cases "ex_status e = execution_str ExCompleted \<or> ex_status e = execution_str ExFailed")
    case True
    have old: "run_ok (run_steps db (ex_id e)) e" using ok e by (simp add: engine_ok_def)
    have "\<not> P s" if "s \<in> set (run_steps db (ex_id e))" for s
      using run_ok_closed[OF old True that] move[of s] that by (auto simp: good_move_def run_steps_def)
    then have "run_steps (put_step P g db) (ex_id e) = run_steps db (ex_id e)"
      using run_steps_put[of db P g "ex_id e"] move by (auto simp: good_move_def intro!: map_idI)
    then show ?thesis using old by simp
  next
    case False
    have "run_ok (run_steps db (ex_id e)) e" using ok e by (simp add: engine_ok_def)
    then show ?thesis using False unfolding run_ok_def by blast
  qed
  moreover have "flight_ok (map ?f (wd_steps db)) fl'"
  proof (unfold flight_ok_def, intro ballI impI)
    fix c s' assume c: "c \<in> set fl'" "s' \<in> set (map ?f (wd_steps db))" "ws_id s' = cs_id c"
    then obtain s where s: "s \<in> set (wd_steps db)" "s' = ?f s" by auto
    have "ws_id s = cs_id c" using same[OF s(1)] c(3) unfolding s(2) by (simp add: same_step_def)
    moreover from this have "\<not> P s" using fl(2)[OF c(1) s(1)] by blast
    ultimately show "claimed_of s' = c \<and> ws_status s' = step_str StRunning"
      using ok c(1) fl(1) s by (auto simp: engine_ok_def flight_ok_def)
  qed
  moreover have "step_ok t" if "t \<in> set (map ?f (wd_steps db))" for t
    using that ok move by (auto simp: engine_ok_def good_move_def)
  ultimately show ?thesis using ok unfolding engine_ok_def prod.case put_step_steps put_step_other ids by blast
qed


lemma engine_ok_other [simp]:
  "engine_ok (db\<lparr>wd_audit := a\<rparr>, fl) = engine_ok (db, fl)" "engine_ok (db\<lparr>wd_workflows := w\<rparr>, fl) = engine_ok (db, fl)"
  by (simp_all add: engine_ok_def run_steps_def)

lemma engine_ok_fl: "engine_ok (db, fl) \<Longrightarrow> set fl' \<subseteq> set fl \<Longrightarrow> engine_ok (db, fl')"
  by (auto simp: engine_ok_def flight_ok_def)

lemma engine_ok_step: "engine_ok (db, fl) \<Longrightarrow> s \<in> set (wd_steps db) \<Longrightarrow> step_ok s"
  by (simp add: engine_ok_def)

subsection \<open>Settling\<close>

lemma count_steps_run: "count_steps db i st = length (filter (\<lambda>s. ws_status s \<in> st) (run_steps db i))"
  by (simp add: count_steps_def run_steps_def conj_commute)

lemma first_failure_run: "first_failure db i = (case sort_key ws_step_no (filter (\<lambda>s. ws_status s = step_str StFailed) (run_steps db i)) of
    [] \<Rightarrow> None | s # _ \<Rightarrow> ws_error s)"
  by (simp add: first_failure_def run_steps_def conj_commute)

lemma verdict_ok:
  assumes "\<forall>s \<in> set (run_steps db i). step_ok s" and "count_steps db i open_strs = 0"
    and "ex_status e = execution_str (run_verdict db i)"
    and "ex_error e = (if run_verdict db i = ExFailed then first_failure db i else None)"
  shows "run_ok (run_steps db i) e"
proof -
  let ?rows = "run_steps db i"
  have closed: "\<forall>s \<in> set ?rows. ws_status s \<notin> open_strs" using assms(2) by (simp add: count_steps_run filter_empty_conv)
  show ?thesis
  proof (cases "run_verdict db i")
    case ExCompleted
    then have "\<forall>s \<in> set ?rows. ws_status s \<noteq> step_str StFailed \<and> ws_status s \<noteq> step_str StCancelled"
      by (auto simp: run_verdict_def count_steps_run filter_empty_conv split: if_split_asm)
    moreover have "\<exists>st. ws_status s = step_str st" if "s \<in> set ?rows" for s using assms(1) that by (auto simp: step_ok_def)
    ultimately have "ws_status s = step_str StSucceeded" if s: "s \<in> set ?rows" for s
    proof -
      obtain st where "ws_status s = step_str st" using s \<open>\<And>s. s \<in> set ?rows \<Longrightarrow> \<exists>st. ws_status s = step_str st\<close> by blast
      then show ?thesis using s closed \<open>\<forall>s \<in> set ?rows. ws_status s \<noteq> step_str StFailed \<and> ws_status s \<noteq> step_str StCancelled\<close>
        by (cases st) (auto simp: is_open_def)
    qed
    then show ?thesis using assms(3) ExCompleted by (auto simp: run_ok_def list_all_iff)
  next
    case ExFailed
    then have "filter (\<lambda>s. ws_status s = step_str StFailed) ?rows \<noteq> []"
      by (auto simp: run_verdict_def count_steps_run split: if_split_asm)
    then obtain s ss where "sort_key ws_step_no (filter (\<lambda>s. ws_status s = step_str StFailed) ?rows) = s # ss"
      by (metis list.exhaust sort_key_Nil_iff)
    then show ?thesis using assms(3,4) ExFailed closed by (auto simp: run_ok_def list_all_iff first_failure_run)
  next
    case ExRunning
    then show ?thesis using assms(3) by (simp add: run_ok_running)
  next
    case ExCancelled
    then show ?thesis using assms(3) by (simp add: run_ok_running)
  qed
qed

lemma put_execution_simps [simp]: "wd_steps (put_execution P g db) = wd_steps db" "wd_audit (put_execution P g db) = wd_audit db"
    "wd_executions (put_execution P g db) = map (\<lambda>e. if P e then g e else e) (wd_executions db)"
    "wd_workflows (put_execution P g db) = wd_workflows db" "run_steps (put_execution P g db) i = run_steps db i"
  by (simp_all add: put_execution_def run_steps_def)

lemma engine_ok_put_execution:
  assumes ok: "engine_ok (db, fl)" and same: "\<And>e. ex_id (g e) = ex_id e"
    and rows: "\<And>e. e \<in> set (wd_executions db) \<Longrightarrow> P e \<Longrightarrow> run_ok (run_steps db (ex_id e)) (g e)"
  shows "engine_ok (put_execution P g db, fl)"
proof -
  let ?f = "\<lambda>e. if P e then g e else e"
  have ids: "map ex_id (map ?f (wd_executions db)) = map ex_id (wd_executions db)" using same by simp
  then have img: "ex_id ` set (map ?f (wd_executions db)) = ex_id ` set (wd_executions db)" by (metis set_map)
  have run: "\<forall>e \<in> set (map ?f (wd_executions db)). run_ok (run_steps db (ex_id e)) e"
  proof
    fix e assume "e \<in> set (map ?f (wd_executions db))"
    then obtain e0 where e0: "e = ?f e0" "e0 \<in> set (wd_executions db)" unfolding set_map by (rule imageE)
    have "run_ok (run_steps db (ex_id e0)) e0" using ok e0(2) by (simp add: engine_ok_def)
    then show "run_ok (run_steps db (ex_id e)) e" using rows[OF e0(2)] same[of e0] e0(1) by (cases "P e0") simp_all
  qed
  note old = ok[unfolded engine_ok_def prod.case]
  show ?thesis unfolding engine_ok_def prod.case put_execution_simps ids img
    using old run by (elim conjE) (intro conjI; assumption)
qed

lemma settle_execution_db:
  "snd (settle_execution now db i) = (if count_steps db i open_strs > 0 then db
     else put_execution (\<lambda>e. ex_id e = i \<and> ex_status e = execution_str ExRunning)
       (settled_row now (run_verdict db i) (if run_verdict db i = ExFailed then first_failure db i else None)) db)"
  by (simp add: settle_execution_def Let_def)

lemma settle_execution_ok:
  assumes "engine_ok (db, fl)" and "settle_execution now db i = (r, db')"
  shows "engine_ok (db', fl)"
proof -
  have db': "db' = snd (settle_execution now db i)" using assms(2) by simp
  show ?thesis
  proof (cases "count_steps db i open_strs > 0")
    case False
    have rows: "\<forall>s \<in> set (run_steps db i). step_ok s" using assms(1) by (simp add: engine_ok_def run_steps_def)
    show ?thesis unfolding db' settle_execution_db if_not_P[OF False]
      by (rule engine_ok_put_execution[OF assms(1)])
        (use verdict_ok[OF rows] False in \<open>auto simp: settled_row_def\<close>)
  qed (use assms(1) db' in \<open>simp add: settle_execution_db\<close>)
qed

lemma record_settlement_ok [simp]: "engine_ok (record_settlement e status db, fl) = engine_ok (db, fl)"
  by (simp add: record_settlement_def split: option.split)

lemma audit_settlement_ok [simp]: "engine_ok (audit_settlement i db, fl) = engine_ok (db, fl)"
  by (simp add: audit_settlement_def split: option.split)

lemma settle_if_open_ok: "engine_ok (db, fl) \<Longrightarrow> engine_ok (settle_if_open now i db, fl)"
  using settle_execution_ok by (fastforce simp: settle_if_open_def split: prod.split)

lemma settle_all_ok: "engine_ok (db, fl) \<Longrightarrow> engine_ok (snd (settle_all now settled is db), fl)"
proof (induction "is" arbitrary: settled db)
  case (Cons i "is")
  obtain r db' where s: "settle_execution now db i = (r, db')" by fastforce
  then show ?case using Cons.IH[OF settle_execution_ok[OF Cons.prems s]] by simp
qed simp

lemma fold_audit_ok: "engine_ok (db, fl) \<Longrightarrow> engine_ok (fold audit_settlement is db, fl)"
  by (induction "is" arbitrary: db) simp_all

subsection \<open>Statements on steps\<close>

lemma flight_row: "engine_ok (db, fl) \<Longrightarrow> c \<in> set fl \<Longrightarrow> s \<in> set (wd_steps db) \<Longrightarrow> claim_held (cs_id c) s \<Longrightarrow> claimed_of s = c"
  by (auto simp: engine_ok_def flight_ok_def claim_held_def)

lemma step_ok_cases:
  assumes "step_ok s"
  obtains st where "ws_status s = step_str st" "row_allowed s"
    "st = StPending \<Longrightarrow> (if ws_kind s = kind_str Task then ws_attempts s < ws_max_attempts s else ws_attempts s = 0)"
    "st = StRunning \<Longrightarrow> 1 \<le> ws_attempts s" "st = StWaiting \<Longrightarrow> ws_kind s = kind_str Wait \<and> ws_attempts s = 1"
  using assms unfolding step_ok_def by blast

lemma step_ok_status: "step_ok s \<Longrightarrow> row_allowed t \<Longrightarrow> ws_status t = step_str st \<Longrightarrow> st \<notin> {StPending, StRunning, StWaiting} \<Longrightarrow> step_ok t"
  by (auto simp: step_ok_def)

lemma row_allowed_cong:
  "ws_step_no t = ws_step_no s \<Longrightarrow> ws_name t = ws_name s \<Longrightarrow> ws_kind t = ws_kind s \<Longrightarrow> ws_action t = ws_action s \<Longrightarrow>
   ws_max_attempts t = ws_max_attempts s \<Longrightarrow> ws_attempts t = ws_attempts s \<Longrightarrow> row_allowed t = row_allowed s"
  by (simp add: row_allowed_def attempts_allowed_def)

lemma claim_held_ok:
  assumes ok: "engine_ok (db, fl)"
    and g: "\<And>s. s \<in> set (wd_steps db) \<Longrightarrow> claim_held i s \<Longrightarrow> same_step s (g s) \<and> step_ok (g s)"
    and fl: "set fl' \<subseteq> set fl" "i \<notin> cs_id ` set fl'"
  shows "engine_ok (put_step (claim_held i) g db, fl')"
  by (rule engine_ok_put_step[OF ok _ fl(1)]) (use g fl(2) in \<open>force simp: good_move_def claim_held_def is_open_def\<close>)+

lemma closing_ok:
  assumes ok: "engine_ok (db, fl)" and fl: "set fl' \<subseteq> set fl" "i \<notin> cs_id ` set fl'"
  shows "engine_ok (complete_step now i out db, fl')" "engine_ok (fail_step now i message db, fl')"
  unfolding complete_step_def fail_step_def
  by (rule claim_held_ok[OF ok _ fl]; drule engine_ok_step[OF ok]; simp add: same_step_def step_ok_def row_allowed_def attempts_allowed_def)+

lemma waiting_ok:
  assumes ok: "engine_ok (db, fl)" and fl: "set fl' \<subseteq> set fl" "i \<notin> cs_id ` set fl'"
    and w: "\<And>s. s \<in> set (wd_steps db) \<Longrightarrow> claim_held i s \<Longrightarrow> kind_parse (ws_kind s) = Some Wait \<and> ws_attempts s \<le> 1"
  shows "engine_ok (set_step_waiting i at db, fl')"
  unfolding set_step_waiting_def
proof (rule claim_held_ok[OF ok _ fl])
  fix s assume s: "s \<in> set (wd_steps db)" "claim_held i s"
  have "ws_kind s = kind_str Wait" using w[OF s] by (simp add: kind_parse_def kind_str_def split: if_split_asm)
  moreover have "1 \<le> ws_attempts s" using engine_ok_step[OF ok s(1)] s(2) by (auto simp: step_ok_def claim_held_def)
  ultimately show "same_step s (s\<lparr>ws_status := step_str StWaiting, ws_started_at := None, ws_available_at := at\<rparr>) \<and>
      step_ok (s\<lparr>ws_status := step_str StWaiting, ws_started_at := None, ws_available_at := at\<rparr>)"
    using engine_ok_step[OF ok s(1)] w[OF s] by (auto simp: same_step_def step_ok_def row_allowed_def attempts_allowed_def)
qed

lemma retry_ok:
  assumes ok: "engine_ok (db, fl)" and fl: "set fl' \<subseteq> set fl" "i \<notin> cs_id ` set fl'"
    and w: "\<And>s. s \<in> set (wd_steps db) \<Longrightarrow> claim_held i s \<Longrightarrow> kind_parse (ws_kind s) = Some Task \<and> ws_attempts s < ws_max_attempts s"
  shows "engine_ok (retry_step i message at db, fl')"
  unfolding retry_step_def
proof (rule claim_held_ok[OF ok _ fl])
  fix s assume s: "s \<in> set (wd_steps db)" "claim_held i s"
  have "ws_kind s = kind_str Task" using w[OF s] by (simp add: kind_parse_def kind_str_def split: if_split_asm)
  then show "same_step s (s\<lparr>ws_status := step_str StPending, ws_error := Some message, ws_available_at := at, ws_started_at := None\<rparr>) \<and>
      step_ok (s\<lparr>ws_status := step_str StPending, ws_error := Some message, ws_available_at := at, ws_started_at := None\<rparr>)"
    using engine_ok_step[OF ok s(1)] w[OF s] by (auto simp: same_step_def step_ok_def row_allowed_def attempts_allowed_def)
qed


lemma cancel_row_ok: "step_ok s \<Longrightarrow> same_step s (cancelled_row now s) \<and> step_ok (cancelled_row now s) \<and> ws_status (cancelled_row now s) = step_str StCancelled"
  by (simp add: same_step_def step_ok_def row_allowed_def attempts_allowed_def cancelled_row_def)

lemma cancel_step_ok: "engine_ok (db, fl) \<Longrightarrow> i \<notin> cs_id ` set fl \<Longrightarrow> engine_ok (cancel_step now i db, fl)"
  unfolding cancel_step_def
  by (rule engine_ok_put_step) (use engine_ok_step cancel_row_ok in \<open>force simp: good_move_def\<close>)+

lemma cancel_execution_ok:
  assumes "engine_ok (db, fl)"
  shows "engine_ok (snd (cancel_execution now db i), fl)"
proof (cases "is_running db i")
  case True
  let ?db1 = "put_execution (\<lambda>e. ex_id e = i \<and> ex_status e = execution_str ExRunning)
      (\<lambda>e. e\<lparr>ex_status := execution_str ExCancelled, ex_finished_at := Some now\<rparr>) db"
  have one: "engine_ok (?db1, fl)" by (rule engine_ok_put_execution[OF assms]) (simp_all add: run_ok_running)
  have "engine_ok (put_step (\<lambda>s. ws_execution_id s = i \<and> ws_status s \<in> {step_str StPending, step_str StWaiting}) (cancelled_row now) ?db1, fl)"
  proof (rule engine_ok_put_step[OF one _ order_refl])
    fix s assume s: "s \<in> set (wd_steps ?db1)" "ws_execution_id s = i \<and> ws_status s \<in> {step_str StPending, step_str StWaiting}"
    then show "good_move (wd_steps ?db1) s (cancelled_row now s)"
      using cancel_row_ok[OF engine_ok_step[OF one s(1)], of now] by (auto simp: good_move_def is_open_def)
  next
    fix c s assume "c \<in> set fl" "s \<in> set (wd_steps ?db1)" "ws_execution_id s = i \<and> ws_status s \<in> {step_str StPending, step_str StWaiting}"
    then show "ws_id s \<noteq> cs_id c" using assms by (auto simp: engine_ok_def flight_ok_def)
  qed
  then show ?thesis unfolding cancel_execution_def Let_def using True by (simp only: not_True_eq_False if_False snd_conv)
qed (use assms in \<open>simp add: cancel_execution_def\<close>)

lemma due_waits_mem: "s \<in> set (due_waits now db limit) \<Longrightarrow> s \<in> set (wd_steps db) \<and> ws_status s = step_str StWaiting"
  unfolding due_waits_def by (drule in_set_takeD) simp

lemma engine_ok_unique: "engine_ok (db, fl) \<Longrightarrow> s \<in> set (wd_steps db) \<Longrightarrow> t \<in> set (wd_steps db) \<Longrightarrow> ws_id s = ws_id t \<Longrightarrow> s = t"
  by (auto simp: engine_ok_def distinct_map dest: inj_onD)

lemma resolve_due_waits_ok:
  assumes "engine_ok (db, fl)"
  shows "engine_ok (snd (resolve_due_waits now db limit), fl)"
proof -
  have waits: "ws_status s = step_str StWaiting"
    if s: "s \<in> set (wd_steps db)" "ws_id s \<in> set (map ws_id (due_waits now db limit))" for s
  proof -
    from s(2) obtain t where t: "ws_id s = ws_id t" "t \<in> set (due_waits now db limit)" unfolding set_map by (rule imageE)
    note due = due_waits_mem[OF t(2)]
    from due have "s = t" using engine_ok_unique[OF assms s(1) _ t(1)] by blast
    then show ?thesis using due by simp
  qed
  show ?thesis unfolding resolve_due_waits_def Let_def snd_conv
  proof (rule engine_ok_put_step[OF assms _ order_refl])
    fix s assume s: "s \<in> set (wd_steps db)" "ws_id s \<in> set (map ws_id (due_waits now db limit))"
    let ?t = "s\<lparr>ws_status := step_str StSucceeded, ws_finished_at := Some now, ws_output := Some resumed\<rparr>"
    have "step_ok ?t" using engine_ok_step[OF assms s(1)] by (simp add: step_ok_def row_allowed_def attempts_allowed_def)
    then show "good_move (wd_steps db) s ?t" by (simp add: good_move_def same_step_def waits[OF s] is_open_def)
  next
    fix c s assume c: "c \<in> set fl" "s \<in> set (wd_steps db)" "ws_id s \<in> set (map ws_id (due_waits now db limit))"
    have "flight_ok (wd_steps db) fl" using assms by (simp add: engine_ok_def)
    then show "ws_id s \<noteq> cs_id c" using waits[OF c(2,3)] c(1,2) by (auto simp: flight_ok_def)
  qed
qed

subsection \<open>Claims\<close>

lemma sort_head_mem: "sort_key f (filter P xs) = y # ys \<Longrightarrow> y \<in> set xs \<and> P y"
proof -
  assume "sort_key f (filter P xs) = y # ys"
  then have "set (y # ys) = set (filter P xs)" by (metis set_sort)
  then show "y \<in> set xs \<and> P y" by auto
qed

lemma claim_due_step_cases:
  assumes "claim_due_step now db = (r, db')"
  obtains "r = Inr None" "db' = db"
  | s where "s \<in> set (wd_steps db)" "step_due now db s" "\<not> attempts_allowed (claim_row now s)" "r = Inl WfDatabase" "db' = db"
  | s where "s \<in> set (wd_steps db)" "step_due now db s" "attempts_allowed (claim_row now s)"
      "r = Inr (Some (claimed_of (claim_row now s)))" "db' = put_step (\<lambda>x. ws_id x = ws_id s) (claim_row now) db"
proof (cases "sort_key (\<lambda>s. (run_started db (ws_execution_id s), ws_execution_id s, ws_step_no s)) (filter (step_due now db) (wd_steps db))")
  case Nil
  then show thesis using assms that(1) by (simp add: claim_due_step_def)
next
  case (Cons s ss)
  note s = sort_head_mem[OF Cons]
  show thesis
  proof (cases "attempts_allowed (claim_row now s)")
    case True
    then show thesis using assms Cons s by (intro that(3)[of s]) (simp_all add: claim_due_step_def)
  next
    case False
    then show thesis using assms Cons s by (intro that(2)[of s]) (simp_all add: claim_due_step_def)
  qed
qed

lemma row_allowedD:
  assumes "row_allowed s"
  shows "0 \<le> ws_attempts s" "1 \<le> ws_max_attempts s" "ws_kind s = kind_str Task \<or> ws_kind s = kind_str Wait"
  using assms unfolding row_allowed_def attempts_allowed_def by (cases "ws_kind s = kind_str Task"; simp only: if_True if_False; blast)+

lemma claim_allowed: "step_ok s \<Longrightarrow> step_due now db s \<Longrightarrow> attempts_allowed (claim_row now s) \<and> step_ok (claim_row now s)"
proof -
  assume ok: "step_ok s" and due: "step_due now db s"
  obtain st where st: "ws_status s = step_str st" "row_allowed s"
    "st = StPending \<longrightarrow> (if ws_kind s = kind_str Task then ws_attempts s < ws_max_attempts s else ws_attempts s = 0)"
    "st = StWaiting \<longrightarrow> ws_kind s = kind_str Wait \<and> ws_attempts s = 1"
    using ok unfolding step_ok_def by blast
  have "st = StPending \<or> st = StWaiting" using due st(1) by (simp add: step_due_def)
  moreover have "0 \<le> ws_attempts s" "1 \<le> ws_max_attempts s" "ws_kind s = kind_str Task \<or> ws_kind s = kind_str Wait"
    using row_allowedD[OF st(2)] .
  ultimately have a: "attempts_allowed (claim_row now s)" "0 \<le> ws_attempts s"
    using st(3,4) by (auto simp: attempts_allowed_def claim_row_def)
  moreover have "row_allowed (claim_row now s)" using st(2) a(1) by (simp add: row_allowed_def claim_row_def)
  ultimately show ?thesis by (simp add: step_ok_def claim_row_def)
qed

lemma step_due_front: "step_due now db s \<Longrightarrow> front (wd_steps db) s"
  by (auto simp: step_due_def front_def list_ex_iff)

lemma claim_ok:
  assumes ok: "engine_ok (db, fl)" and c: "claim_due_step now db = (Inr (Some c), db')"
  shows "engine_ok (db', c # fl)"
proof -
  from c obtain s where s: "s \<in> set (wd_steps db)" "step_due now db s" "c = claimed_of (claim_row now s)"
      "db' = put_step (\<lambda>x. ws_id x = ws_id s) (claim_row now) db"
    by (rule claim_due_step_cases) auto
  have only: "x = s" if "x \<in> set (wd_steps db)" "ws_id x = ws_id s" for x using engine_ok_unique[OF ok that(1) s(1) that(2)] .
  have "engine_ok (db', fl)" unfolding s(4)
  proof (rule engine_ok_put_step[OF ok _ order_refl])
    fix x assume x: "x \<in> set (wd_steps db)" "ws_id x = ws_id s"
    then have "x = s" by (rule only)
    then show "good_move (wd_steps db) x (claim_row now x)"
      using claim_allowed[OF engine_ok_step[OF ok s(1)] s(2)] s(2) step_due_front[OF s(2)]
      by (auto simp: good_move_def same_step_def claim_row_def step_due_def is_open_def)
  next
    fix k x assume "k \<in> set fl" "x \<in> set (wd_steps db)" "ws_id x = ws_id s"
    then show "ws_id x \<noteq> cs_id k" using only ok s(1,2) by (auto simp: engine_ok_def flight_ok_def step_due_def)
  qed
  moreover have "claimed_of x = c \<and> ws_status x = step_str StRunning" if x: "x \<in> set (wd_steps db')" "ws_id x = cs_id c" for x
  proof -
    obtain y where y: "y \<in> set (wd_steps db)" "x = (if ws_id y = ws_id s then claim_row now y else y)"
      using x(1) unfolding s(4) put_step_steps set_map by blast
    then have "ws_id y = ws_id s" using x(2) s(3) by (auto simp: claimed_of_def claim_row_def split: if_split_asm)
    then have "y = s" using only y(1) by blast
    then show ?thesis using y(2) s(3) by (simp add: claim_row_def)
  qed
  ultimately show ?thesis by (auto simp: engine_ok_def flight_ok_def)
qed

subsection \<open>Advancing, reclaiming, starting, deleting\<close>

lemma snd_ok: "engine_ok (snd (settle_execution now db i), fl)" if "engine_ok (db, fl)" for now i
  using settle_execution_ok[OF that, of now i] by (metis prod.collapse)

lemma settle_after_step_ok:
  assumes ok: "engine_ok (db, fl)" and c: "cs_id c \<notin> cs_id ` set fl"
  shows "engine_ok (snd (settle_after_step now c db), fl)"
proof (cases "find_execution db (cs_execution_id c)")
  case (Some e)
  note e = Some
  show ?thesis
  proof (cases "execution_parse (ex_status e)")
    case (Some st)
    show ?thesis
    proof (cases "st = ExRunning")
      case True
      obtain r db' where r: "settle_execution now db (cs_execution_id c) = (r, db')" by fastforce
      note settle_execution_ok[OF ok r]
      then show ?thesis using e Some True r by (cases r) (simp_all add: settle_after_step_def)
    next
      case False
      then have "snd (settle_after_step now c db) = cancel_step now (cs_id c) db"
        using e Some by (cases st) (simp_all add: settle_after_step_def)
      then show ?thesis using cancel_step_ok[OF ok c] by simp
    qed
  qed (use e ok in \<open>simp add: settle_after_step_def\<close>)
qed (use ok in \<open>simp add: settle_after_step_def\<close>)

lemma finish_db: "snd (finish now c db) = snd (settle_after_step now c db)"
  by (simp add: finish_def split: prod.split sum.split)

lemma advance_step_ok:
  assumes ok: "engine_ok (db, fl)" and c: "c \<in> set fl"
  shows "engine_ok (snd (advance_step env now c outcome db), filter (\<lambda>x. cs_id x \<noteq> cs_id c) fl)" (is "engine_ok (_, ?fl)")
proof -
  have sub: "set ?fl \<subseteq> set fl" and out: "cs_id c \<notin> cs_id ` set ?fl" by auto
  note closing = closing_ok[OF ok sub out] and settle = settle_after_step_ok[OF _ out] and stay = engine_ok_fl[OF ok sub]
  have row: "ws_kind s = cs_kind c" "ws_attempts s = cs_attempts c" "ws_max_attempts s = cs_max_attempts c"
    if s: "s \<in> set (wd_steps db)" "claim_held (cs_id c) s" for s
    using flight_row[OF ok c s] by (auto simp: claimed_of_def)
  consider "kind_parse (cs_kind c) = None" | "kind_parse (cs_kind c) = Some Wait" | "kind_parse (cs_kind c) = Some Task"
    by (cases "kind_parse (cs_kind c)") (auto intro: step_kind.exhaust)
  then show ?thesis
  proof cases
    case 1
    then show ?thesis using stay by (simp add: advance_step_def)
  next
    case 2
    show ?thesis
    proof (cases "cs_attempts c > 1")
      case True
      then show ?thesis using 2 settle[OF closing(1)] by (simp add: advance_step_def advance_wait_def finish_db)
    next
      case False
      then have "engine_ok (set_step_waiting (cs_id c) at db, ?fl)" for at
        using 2 by (intro waiting_ok[OF ok sub out]) (simp add: row)
      then show ?thesis using 2 False stay settle
        by (simp add: advance_step_def advance_wait_def split: sum.split prod.split) (metis snd_conv)
    qed
  next
    case 3
    show ?thesis
    proof (cases outcome)
      case (Inr out)
      then show ?thesis using 3 settle[OF closing(1)] by (simp add: advance_step_def advance_task_def finish_db)
    next
      case (Inl message)
      show ?thesis
      proof (cases "cs_attempts c < min (cs_max_attempts c) WF_MAX_ATTEMPTS")
        case True
        then have "engine_ok (retry_step (cs_id c) message at db, ?fl)" for at
          using 3 by (intro retry_ok[OF ok sub out]) (simp add: row)
        then show ?thesis using 3 Inl True by (simp add: advance_step_def advance_task_def)
      next
        case False
        then show ?thesis using 3 Inl settle[OF closing(2)] by (simp add: advance_step_def advance_task_def finish_db del: min_less_iff_conj)
      qed
    qed
  qed
qed

lemma reclaim_step_ok:
  assumes ok: "engine_ok (db, fl)" and s: "s \<in> set (wd_steps db)"
  shows "engine_ok (reclaim_step env now s db, filter (\<lambda>x. cs_id x \<noteq> ws_id s) fl)" (is "engine_ok (_, ?fl)")
proof -
  have sub: "set ?fl \<subseteq> set fl" and out: "ws_id s \<notin> cs_id ` set ?fl" by auto
  note closing = closing_ok[OF ok sub out]
  have only: "x = s" if "x \<in> set (wd_steps db)" "claim_held (ws_id s) x" for x
    using engine_ok_unique[OF ok that(1) s] that(2) by (simp add: claim_held_def)
  consider "kind_parse (ws_kind s) = None" | "kind_parse (ws_kind s) = Some Wait" | "kind_parse (ws_kind s) = Some Task"
    by (cases "kind_parse (ws_kind s)") (auto intro: step_kind.exhaust)
  then show ?thesis
  proof cases
    case 1
    then show ?thesis using closing by (simp add: reclaim_step_def)
  next
    case 2
    have "engine_ok (set_step_waiting (ws_id s) at db, ?fl)" if "ws_attempts s \<le> 1" for at
      using 2 that by (intro waiting_ok[OF ok sub out]) (auto dest!: only)
    then show ?thesis using 2 closing by (simp add: reclaim_step_def split: sum.split)
  next
    case 3
    have "engine_ok (retry_step (ws_id s) message at db, ?fl)" if "ws_attempts s < min (ws_max_attempts s) WF_MAX_ATTEMPTS" for message at
      using 3 that by (intro retry_ok[OF ok sub out]) (auto dest!: only)
    then show ?thesis using 3 closing by (simp add: reclaim_step_def del: min_less_iff_conj)
  qed
qed

lemma step_rows_simps:
  "map ws_id (step_rows now ids i steps) = map ids [0..<length steps]"
  "r \<in> set (step_rows now ids i steps) \<Longrightarrow> ws_execution_id r = i \<and> ws_status r = step_str StPending \<and> ws_attempts r = 0"
  by (auto simp: step_rows_def step_row_def enumerate_eq_zip map_zip_map2[symmetric] zip_map_fst_snd intro: nth_equalityI)

lemma create_execution_cases:
  assumes "create_execution now db fresh ids w kind by steps = (r, db')"
  obtains e where "r = Inl e" "db' = db"
  | "r = Inr (execution_row now fresh w kind by, step_rows now ids fresh steps)"
    "list_all row_allowed (step_rows now ids fresh steps)" "find_workflow db (wf_id w) \<noteq> None"
    "db' = db\<lparr>wd_executions := wd_executions db @ [execution_row now fresh w kind by], wd_steps := wd_steps db @ step_rows now ids fresh steps\<rparr>"
proof -
  let ?rows = "step_rows now ids fresh steps"
  show thesis
  proof (cases "find_workflow db (wf_id w) = None \<or> \<not> list_all row_allowed ?rows")
    case True
    then have "create_execution now db fresh ids w kind by steps = (Inl WfDatabase, db)"
      unfolding create_execution_def Let_def by argo
    then show thesis using assms by (intro that(1)[of WfDatabase]) simp_all
  next
    case False
    then have "create_execution now db fresh ids w kind by steps = (Inr (execution_row now fresh w kind by, ?rows),
        db\<lparr>wd_executions := wd_executions db @ [execution_row now fresh w kind by], wd_steps := wd_steps db @ ?rows\<rparr>)"
      unfolding create_execution_def Let_def by argo
    then show thesis using assms False by (intro that(2)) simp_all
  qed
qed

lemma start_run_ok:
  assumes ok: "engine_ok (db, fl)" and fresh: "fresh \<notin> ex_id ` set (wd_executions db)" "inj_on ids {..<length steps}"
    and new: "\<And>k. ids k \<notin> ws_id ` set (wd_steps db) \<and> ids k \<notin> cs_id ` set fl"
  shows "engine_ok (snd (start_run_with now db fresh ids w kind triggered_by steps), fl)"
proof -
  obtain r db' where c: "create_execution now db fresh ids w kind triggered_by steps = (r, db')" by fastforce
  then show ?thesis
  proof (cases rule: create_execution_cases)
    case (1 e)
    then show ?thesis using c ok by (simp add: start_run_with_def)
  next
    case 2
    let ?rows = "step_rows now ids fresh steps" and ?e = "execution_row now fresh w kind triggered_by"
    note old = ok[unfolded engine_ok_def prod.case]
    have rows: "ws_execution_id x = fresh" "ws_status x = step_str StPending" "ws_attempts x = 0" "row_allowed x" if "x \<in> set ?rows" for x
      using step_rows_simps(2)[OF that] 2(2) that by (auto simp: list_all_iff)
    have rids: "distinct (map ws_id ?rows)"
      unfolding step_rows_simps(1) using fresh(2) by (simp add: distinct_map atLeast_upt)
    have "set (map ws_id ?rows) = ids ` {..<length steps}" unfolding step_rows_simps(1) by (simp add: atLeast_upt)
    then have rid: "ws_id x \<in> range ids" if "x \<in> set ?rows" for x using that by (auto simp: set_eq_iff)
    have e: "ex_id ?e = fresh" "ex_status ?e = execution_str ExRunning" by (simp_all add: execution_row_def)
    have parent: "ws_execution_id x \<noteq> fresh" if "x \<in> set (wd_steps db)" for x using old fresh(1) that by auto
    have "\<forall>j \<in> set (map ws_id ?rows). j \<notin> set (map ws_id (wd_steps db))"
    proof
      fix j assume "j \<in> set (map ws_id ?rows)"
      then obtain x where "j = ws_id x" "x \<in> set ?rows" unfolding set_map by (rule imageE)
      moreover then obtain k where "ws_id x = ids k" using rid by blast
      ultimately show "j \<notin> set (map ws_id (wd_steps db))" using new[of k] by simp
    qed
    then have "set (map ws_id (wd_steps db)) \<inter> set (map ws_id ?rows) = {}" by (simp only: disjoint_iff) blast
    moreover have "distinct (map ws_id (wd_steps db))" using old by (rule conjunct1)
    ultimately have "distinct (map ws_id (wd_steps db @ ?rows))" unfolding map_append distinct_append using rids by (intro conjI)
    moreover have "distinct (map ex_id (wd_executions db @ [?e]))" using old fresh(1) e by simp
    moreover have "ws_execution_id ` set (wd_steps db @ ?rows) \<subseteq> ex_id ` set (wd_executions db @ [?e])"
      using old rows(1) e(1) by auto
    moreover have "\<forall>x \<in> set (wd_steps db @ ?rows). step_ok x"
    proof
      fix x assume "x \<in> set (wd_steps db @ ?rows)"
      then consider "x \<in> set (wd_steps db)" | "x \<in> set ?rows" by auto
      then show "step_ok x"
      proof cases
        case 2
        have "1 \<le> ws_max_attempts x" using row_allowedD(2)[OF rows(4)[OF 2]] .
        then show ?thesis using rows(2-4)[OF 2] by (simp add: step_ok_def)
      qed (use old in blast)
    qed
    moreover have "order_ok (wd_steps db @ ?rows)"
    proof (unfold order_ok_def, intro ballI impI)
      fix s t assume m: "s \<in> set (wd_steps db @ ?rows)" "t \<in> set (wd_steps db @ ?rows)" "ws_execution_id s = ws_execution_id t"
        "ws_step_no s < ws_step_no t" "ws_status t \<in> moved_strs"
      have "t \<notin> set ?rows" using rows(2)[of t] m(5) by auto
      then have t: "t \<in> set (wd_steps db)" using m(2) by simp
      then have "s \<in> set (wd_steps db)" using parent[OF t] rows(1)[of s] m(1,3) by auto
      then show "ws_status s \<notin> open_strs" using t m(3-5) old unfolding order_ok_def by blast
    qed
    moreover have "run_ok (filter (\<lambda>x. ws_execution_id x = ex_id k) (wd_steps db @ ?rows)) k" if k: "k \<in> set (wd_executions db @ [?e])" for k
    proof (cases "k = ?e")
      case True
      then show ?thesis using e(2) by (simp add: run_ok_running)
    next
      case False
      then have "k \<in> set (wd_executions db)" using k by simp
      moreover from this have "filter (\<lambda>x. ws_execution_id x = ex_id k) ?rows = []"
        using fresh(1) rows(1) by (force simp: filter_empty_conv)
      ultimately show ?thesis using old by (simp add: run_steps_def)
    qed
    moreover have "flight_ok (wd_steps db @ ?rows) fl"
    proof (unfold flight_ok_def, intro ballI impI)
      fix k s assume m: "k \<in> set fl" "s \<in> set (wd_steps db @ ?rows)" "ws_id s = cs_id k"
      have "s \<notin> set ?rows"
      proof
        assume "s \<in> set ?rows"
        then obtain k' where "ws_id s = ids k'" using rid by blast
        then show False using new[of k'] imageI[OF m(1), of cs_id] m(3) by simp
      qed
      then show "claimed_of s = k \<and> ws_status s = step_str StRunning" using old m unfolding flight_ok_def by auto
    qed
    ultimately have "engine_ok (db', fl)" unfolding engine_ok_def run_steps_def 2(4) by simp
    then show ?thesis using c 2(1) by (simp add: start_run_with_def record_start_def)
  qed
qed

lemma delete_workflow_ok:
  assumes ok: "engine_ok (db, fl)"
  shows "engine_ok (snd (delete_workflow db i), fl)"
proof -
  note old = ok[unfolded engine_ok_def prod.case]
  define gone where "gone = ex_id ` set (filter (\<lambda>e. ex_workflow_id e = i) (wd_executions db))"
  define keep where "keep = filter (\<lambda>s. ws_execution_id s \<notin> gone) (wd_steps db)"
  have sub: "set keep \<subseteq> set (wd_steps db)" by (auto simp: keep_def)
  have alive: "ex_id e \<notin> gone" if "e \<in> set (wd_executions db)" "ex_workflow_id e \<noteq> i" for e
    using that old by (auto simp: gone_def distinct_map dest: inj_onD)
  have rows: "filter (\<lambda>s. ws_execution_id s = j) keep = run_steps db j" if "j \<notin> gone" for j
    using that by (auto simp: keep_def run_steps_def intro: filter_cong)
  have "distinct (map ws_id keep)" using old by (simp add: keep_def distinct_map_filter)
  moreover have "distinct (map ex_id (filter (\<lambda>e. ex_workflow_id e \<noteq> i) (wd_executions db)))" using old by (simp add: distinct_map_filter)
  moreover have "ws_execution_id ` set keep \<subseteq> ex_id ` set (filter (\<lambda>e. ex_workflow_id e \<noteq> i) (wd_executions db))"
  proof
    fix j assume "j \<in> ws_execution_id ` set keep"
    then have "j \<in> ex_id ` set (wd_executions db)" "j \<notin> gone" using old by (auto simp: keep_def)
    then show "j \<in> ex_id ` set (filter (\<lambda>e. ex_workflow_id e \<noteq> i) (wd_executions db))" by (auto simp: gone_def)
  qed
  moreover have "order_ok keep" using old sub unfolding order_ok_def by blast
  moreover have "flight_ok keep fl" using old sub unfolding flight_ok_def by blast
  moreover have "\<forall>s \<in> set keep. step_ok s" using old sub by blast
  moreover have "\<forall>e \<in> set (filter (\<lambda>e. ex_workflow_id e \<noteq> i) (wd_executions db)). run_ok (filter (\<lambda>s. ws_execution_id s = ex_id e) keep) e"
    using old alive rows by simp
  ultimately show ?thesis
    unfolding delete_workflow_def Let_def snd_conv engine_ok_def run_steps_def keep_def gone_def by simp
qed

lemma claim_rows_db: "claim_rows cal now claimed ws db = Some (Inr (claimed', db')) \<Longrightarrow>
  wd_steps db' = wd_steps db \<and> wd_executions db' = wd_executions db \<and> wd_audit db' = wd_audit db"
proof (induction ws arbitrary: claimed db)
  case (Cons w ws)
  then show ?case
    by (fastforce simp: put_workflow_def split: Option.bind_split_asm sum.split_asm)
qed simp

lemma claim_due_schedules_db: "claim_due_schedules cal now db limit = Some (r, db') \<Longrightarrow>
  wd_steps db' = wd_steps db \<and> wd_executions db' = wd_executions db \<and> wd_audit db' = wd_audit db"
proof -
  assume "claim_due_schedules cal now db limit = Some (r, db')"
  then obtain z where z: "claim_rows cal now [] (due_schedules now db limit) db = Some z"
      "(case z of Inl e \<Rightarrow> (Inl e, db) | Inr (claimed, db') \<Rightarrow> (Inr claimed, db')) = (r, db')"
    unfolding claim_due_schedules_def by (cases "claim_rows cal now [] (due_schedules now db limit) db") simp_all
  then show ?thesis by (cases z) (auto dest: claim_rows_db)
qed

lemma engine_ok_tables: "engine_ok (db, fl) \<Longrightarrow> wd_steps db' = wd_steps db \<Longrightarrow> wd_executions db' = wd_executions db \<Longrightarrow> engine_ok (db', fl)"
  by (simp add: engine_ok_def run_steps_def)

lemma engine_step_ok: "engine_step env m x y \<Longrightarrow> engine_ok x \<Longrightarrow> engine_ok y"
proof (induction rule: engine_step.induct)
  case (es_reconcile now db limit recovered db' fl)
  have "engine_ok (snd (reconcile_executions now db limit), fl)"
    unfolding reconcile_executions_def by (rule settle_all_ok[OF es_reconcile(2)])
  then show ?case using fold_audit_ok es_reconcile(1) by simp
next
  case (es_schedules cal now db limit r db' fl)
  then show ?case using claim_due_schedules_db engine_ok_tables by blast
qed (simp_all add: start_run_ok claim_ok advance_step_ok reclaim_step_ok resolve_due_waits_ok settle_if_open_ok cancel_execution_ok
  delete_workflow_ok insert_workflow_def update_workflow_def note_match_def put_workflow_def split: option.split)

end
