(* ===== verification/WorkflowLaws.thy ===== *)
theory WorkflowLaws
  imports WorkflowRuns
begin

text \<open>
  What the state machine of the workflow engine promises: paths of the machine, how rows evolve along
  them, the bound on claims, and the tick and the sweep as paths.
\<close>

subsection \<open>Paths\<close>

inductive engine_path :: "'n wf_env \<Rightarrow> engine_move list \<Rightarrow> 'n engine_state \<Rightarrow> 'n engine_state \<Rightarrow> bool" for env where
  ep_nil: "engine_path env [] x x"
| ep_step: "engine_step env m x y \<Longrightarrow> engine_path env ms y z \<Longrightarrow> engine_path env (m # ms) x z"

inductive_cases engine_path_consE: "engine_path env (m # ms) x z"

lemma path_ok: "engine_path env ms x y \<Longrightarrow> engine_ok x \<Longrightarrow> engine_ok y"
  by (induction rule: engine_path.induct) (use engine_step_ok in blast)+

lemma path_append: "engine_path env ms x y \<Longrightarrow> engine_path env ns y z \<Longrightarrow> engine_path env (ms @ ns) x z"
  by (induction rule: engine_path.induct) (auto intro: ep_step)

lemma path_one: "engine_step env m x y \<Longrightarrow> engine_path env [m] x y"
  by (rule ep_step[OF _ ep_nil])

definition path :: "'n wf_env \<Rightarrow> 'n engine_state \<Rightarrow> 'n engine_state \<Rightarrow> bool" where
  "path env x y \<longleftrightarrow> (\<exists>ms. engine_path env ms x y)"

lemma path_intros: "path env x x" "engine_step env m x y \<Longrightarrow> path env x y"
  unfolding path_def by (blast intro: ep_nil path_one)+

lemma path_trans [trans]: "path env x y \<Longrightarrow> path env y z \<Longrightarrow> path env x z"
  unfolding path_def using path_append by blast

lemma empty_ok: "wd_steps db = [] \<Longrightarrow> wd_executions db = [] \<Longrightarrow> engine_ok (db, [])"
  by (simp add: engine_ok_def order_ok_def flight_ok_def)

subsection \<open>How rows evolve\<close>

definition step_evolves :: "'n wf_step \<Rightarrow> 'n wf_step \<Rightarrow> bool" where
  "step_evolves s t \<longleftrightarrow> same_step s t \<and> ws_kind t = ws_kind s \<and> ws_max_attempts t = ws_max_attempts s \<and>
     ws_attempts s \<le> ws_attempts t \<and> (ws_status s \<in> open_strs \<or> t = s)"

definition run_evolves :: "execution \<Rightarrow> execution \<Rightarrow> bool" where
  "run_evolves e f \<longleftrightarrow> ex_id f = ex_id e \<and> (ex_status e = execution_str ExRunning \<or> f = e)"

definition evolves :: "'n wf_db \<Rightarrow> 'n wf_db \<Rightarrow> bool" where
  "evolves db db' \<longleftrightarrow> list_all2 step_evolves (wd_steps db) (wd_steps db') \<and>
     list_all2 run_evolves (wd_executions db) (wd_executions db')"

lemma step_evolves_refl [simp]: "step_evolves s s"
  by (simp add: step_evolves_def same_step_def)

lemma run_evolves_refl [simp]: "run_evolves e e"
  by (simp add: run_evolves_def)

lemma step_evolves_trans: "step_evolves r s \<Longrightarrow> step_evolves s t \<Longrightarrow> step_evolves r t"
  unfolding step_evolves_def same_step_def by (elim conjE disjE) simp_all

lemma run_evolves_trans: "run_evolves d e \<Longrightarrow> run_evolves e f \<Longrightarrow> run_evolves d f"
  unfolding run_evolves_def by (elim conjE disjE) simp_all

lemma evolves_refl [simp]: "evolves db db"
  by (simp add: evolves_def list_all2_refl)

lemma evolves_same: "wd_steps db' = wd_steps db \<Longrightarrow> wd_executions db' = wd_executions db \<Longrightarrow> evolves db db'"
  by (simp add: evolves_def list_all2_refl)

lemma list_all2_transitive: "list_all2 R xs ys \<Longrightarrow> list_all2 R ys zs \<Longrightarrow> (\<And>a b c. R a b \<Longrightarrow> R b c \<Longrightarrow> R a c) \<Longrightarrow> list_all2 R xs zs"
  by (rule list_all2_trans[of R R R]) blast+

lemma evolves_trans: "evolves db db1 \<Longrightarrow> evolves db1 db2 \<Longrightarrow> evolves db db2"
  unfolding evolves_def
  by (elim conjE) (intro conjI; erule (1) list_all2_transitive; erule (1) step_evolves_trans run_evolves_trans)

lemma list_all2_map_self: "(\<And>x. x \<in> set xs \<Longrightarrow> R x (f x)) \<Longrightarrow> list_all2 R xs (map f xs)"
  by (induction xs) auto

lemma put_step_evolves: "(\<And>s. s \<in> set (wd_steps db) \<Longrightarrow> P s \<Longrightarrow> step_evolves s (g s)) \<Longrightarrow> evolves db (put_step P g db)"
  by (auto simp: evolves_def put_step_steps list_all2_refl intro!: list_all2_map_self)

lemma put_execution_evolves: "(\<And>e. e \<in> set (wd_executions db) \<Longrightarrow> P e \<Longrightarrow> run_evolves e (g e)) \<Longrightarrow> evolves db (put_execution P g db)"
  by (auto simp: evolves_def list_all2_refl intro!: list_all2_map_self)

lemmas evolves_row = step_evolves_def same_step_def claim_held_def cancelled_row_def is_open_def claim_row_def

lemma step_ops_evolve [simp]:
  "evolves db (complete_step now i out db)" "evolves db (fail_step now i message db)" "evolves db (set_step_waiting i at db)"
  "evolves db (retry_step i message at db)" "evolves db (cancel_step now i db)"
  unfolding complete_step_def fail_step_def set_step_waiting_def retry_step_def cancel_step_def
  by (rule put_step_evolves; simp add: evolves_row)+

lemma settle_execution_evolves: "evolves db (snd (settle_execution now db i))"
  unfolding settle_execution_db by (auto intro!: put_execution_evolves evolves_refl simp: run_evolves_def settled_row_def)

lemma settle_execution_evolves': "settle_execution now db i = (r, db') \<Longrightarrow> evolves db db'"
  using settle_execution_evolves[of db now i] by simp

lemma audit_evolves: "evolves db (record_settlement e status db)" "evolves db (audit_settlement i db)" "evolves db (fold audit_settlement is db)"
proof -
  show a: "evolves db (record_settlement e status db)" for e status db
    by (rule evolves_same) (simp_all add: record_settlement_def split: option.split)
  show b: "evolves db (audit_settlement i db)" for i db
    unfolding audit_settlement_def using a by (auto intro: evolves_refl split: option.split)
  show "evolves db (fold audit_settlement is db)"
    by (induction "is" arbitrary: db) (auto intro: evolves_refl evolves_trans[OF b])
qed

lemma settle_if_open_evolves: "evolves db (settle_if_open now i db)"
  unfolding settle_if_open_def
  by (auto intro: evolves_trans audit_evolves settle_execution_evolves' split: prod.split)

lemma settle_all_evolves: "evolves db (snd (settle_all now settled is db))"
proof (induction "is" arbitrary: settled db)
  case (Cons i "is")
  obtain r db1 where s: "settle_execution now db i = (r, db1)" by fastforce
  show ?case using evolves_trans[OF settle_execution_evolves'[OF s] Cons.IH] s by simp
qed (simp add: evolves_refl)

lemma settle_after_step_evolves [simp]: "evolves db (snd (settle_after_step now c db))"
proof (cases "find_execution db (cs_execution_id c)")
  case (Some e)
  note e = Some
  obtain r db1 where s: "settle_execution now db (cs_execution_id c) = (r, db1)" by fastforce
  note ev = settle_execution_evolves'[OF s]
  show ?thesis
    using e s ev evolves_trans[OF ev audit_evolves(1)]
    by (cases r) (simp_all add: settle_after_step_def split: option.split execution_status.split)
qed (simp add: settle_after_step_def evolves_refl)

lemma finish_evolves [simp]: "evolves db (snd (finish now c (complete_step now i out db)))" "evolves db (snd (finish now c (fail_step now i message db)))"
  unfolding finish_db by (rule evolves_trans[OF _ settle_after_step_evolves], simp)+

lemma advance_step_evolves: "evolves db (snd (advance_step env now c outcome db))"
proof (cases "kind_parse (cs_kind c)")
  case (Some k)
  have wait: "evolves db (snd (advance_wait env now c db))"
  proof (cases "wait_seconds_from (en_as_i64 env) (cs_params c)")
    case (Inr n)
    obtain r db1 where r: "settle_after_step now c (set_step_waiting (cs_id c) (now + seconds n) db) = (r, db1)" by fastforce
    have "evolves db db1"
      using evolves_trans[OF step_ops_evolve(3)[of db "cs_id c" "now + seconds n"] settle_after_step_evolves[of _ now c]] r by simp
    then show ?thesis using Inr r by (simp add: advance_wait_def split: sum.split)
  qed (simp add: advance_wait_def)
  have task: "evolves db (snd (advance_task env now c outcome db))"
    unfolding advance_task_def
    by (simp split: sum.split)
  show ?thesis using Some wait task by (cases k) (simp_all add: advance_step_def)
qed (simp add: advance_step_def evolves_refl)

lemma reclaim_step_evolves: "evolves db (reclaim_step env now s db)"
  unfolding reclaim_step_def by (simp split: option.split step_kind.split sum.split)

lemma cancel_execution_evolves: "evolves db (snd (cancel_execution now db i))"
proof -
  have "evolves db (put_execution (\<lambda>e. ex_id e = i \<and> ex_status e = execution_str ExRunning)
      (\<lambda>e. e\<lparr>ex_status := execution_str ExCancelled, ex_finished_at := Some now\<rparr>) db)" (is "evolves db ?db1")
    by (rule put_execution_evolves) (simp add: run_evolves_def)
  moreover have "evolves ?db1 (put_step (\<lambda>s. ws_execution_id s = i \<and> ws_status s \<in> {step_str StPending, step_str StWaiting}) (cancelled_row now) ?db1)"
    by (rule put_step_evolves) (auto simp: evolves_row)
  ultimately show ?thesis
    unfolding cancel_execution_def Let_def using evolves_trans evolves_refl by (simp only: snd_conv split: if_split) blast
qed

lemma claim_evolves: "claim_due_step now db = (r, db') \<Longrightarrow> engine_ok (db, fl) \<Longrightarrow> evolves db db'"
proof (erule claim_due_step_cases)
  fix s assume ok: "engine_ok (db, fl)" and s: "s \<in> set (wd_steps db)" "step_due now db s" "db' = put_step (\<lambda>x. ws_id x = ws_id s) (claim_row now) db"
  show "evolves db db'" unfolding s(3)
  proof (rule put_step_evolves)
    fix x assume "x \<in> set (wd_steps db)" "ws_id x = ws_id s"
    then have "x = s" by (rule engine_ok_unique[OF ok _ s(1)])
    then show "step_evolves x (claim_row now x)" using s(2) by (auto simp: evolves_row step_due_def)
  qed
qed (simp_all add: evolves_refl)

lemma resolve_due_waits_evolves:
  assumes "engine_ok (db, fl)"
  shows "evolves db (snd (resolve_due_waits now db limit))"
  unfolding resolve_due_waits_def Let_def snd_conv
proof (rule put_step_evolves)
  fix s assume s: "s \<in> set (wd_steps db)" "ws_id s \<in> set (map ws_id (due_waits now db limit))"
  from s(2) obtain t where t: "ws_id s = ws_id t" "t \<in> set (due_waits now db limit)" unfolding set_map by (rule imageE)
  have "s = t" using engine_ok_unique[OF assms s(1) _ t(1)] due_waits_mem[OF t(2)] by blast
  then have "ws_status s = step_str StWaiting" using due_waits_mem[OF t(2)] by simp
  then show "step_evolves s (s\<lparr>ws_status := step_str StSucceeded, ws_finished_at := Some now, ws_output := Some resumed\<rparr>)"
    by (simp add: evolves_row)
qed

text \<open>Every step of the machine evolves the rows it keeps; only a start adds rows, only a deletion removes some.\<close>

definition mostly_evolves :: "'n wf_db \<Rightarrow> 'n wf_db \<Rightarrow> bool" where
  "mostly_evolves db db' \<longleftrightarrow> evolves db db' \<or>
     (\<exists>es ss. wd_steps db' = wd_steps db @ ss \<and> wd_executions db' = wd_executions db @ es) \<or>
     (\<exists>P Q. wd_steps db' = filter P (wd_steps db) \<and> wd_executions db' = filter Q (wd_executions db))"

lemma start_run_rows: "\<exists>es ss. wd_steps (snd (start_run_with now db fresh ids w kind by steps)) = wd_steps db @ ss \<and>
  wd_executions (snd (start_run_with now db fresh ids w kind by steps)) = wd_executions db @ es"
proof -
  obtain r db' where c: "create_execution now db fresh ids w kind by steps = (r, db')" by fastforce
  then show ?thesis
    by (cases rule: create_execution_cases) (use c in \<open>auto simp: start_run_with_def record_start_def\<close>)
qed

lemma delete_workflow_rows: "\<exists>P Q. wd_steps (snd (delete_workflow db i)) = filter P (wd_steps db) \<and>
  wd_executions (snd (delete_workflow db i)) = filter Q (wd_executions db)"
  unfolding delete_workflow_def Let_def by auto

lemma engine_step_evolves:
  assumes "engine_step env m (db, fl) (db', fl')" and "engine_ok (db, fl)"
  shows "(m = MvStart \<or> evolves db db' \<or> (\<exists>P Q. wd_steps db' = filter P (wd_steps db) \<and> wd_executions db' = filter Q (wd_executions db))) \<and> mostly_evolves db db'"
  using assms
proof (cases rule: engine_step.cases)
  case (es_start fresh ids steps now w kind triggered_by)
  then show ?thesis using start_run_rows unfolding mostly_evolves_def by blast
next
  case (es_claim now c)
  have "evolves db db'" using claim_evolves[OF es_claim(3) assms(2)] .
  then show ?thesis by (simp add: mostly_evolves_def)
next
  case (es_delete i)
  then show ?thesis using delete_workflow_rows unfolding mostly_evolves_def by blast
next
  case (es_reconcile now limit recovered db1)
  have "evolves db db1" using es_reconcile(4) settle_all_evolves unfolding reconcile_executions_def by (metis snd_conv)
  then have "evolves db db'" unfolding es_reconcile(2) by (rule evolves_trans[OF _ audit_evolves(3)])
  then show ?thesis by (simp add: mostly_evolves_def)
next
  case (es_schedules cal now limit r)
  then have "evolves db db'" using claim_due_schedules_db evolves_same by blast
  then show ?thesis by (simp add: mostly_evolves_def)
qed (auto simp: mostly_evolves_def advance_step_evolves reclaim_step_evolves resolve_due_waits_evolves settle_if_open_evolves
  cancel_execution_evolves insert_workflow_def update_workflow_def note_match_def put_workflow_def intro: evolves_same split: option.split)

subsection \<open>The bound on claims\<close>

definition claims_left :: "'n wf_step \<Rightarrow> nat" where
  "claims_left s = nat ((if ws_kind s = kind_str Task then ws_max_attempts s else 2) - ws_attempts s)"

definition claim_budget :: "'n wf_db \<Rightarrow> nat" where
  "claim_budget db = (\<Sum>s \<leftarrow> wd_steps db. claims_left s)"

lemma evolves_budget: "list_all2 step_evolves xs ys \<Longrightarrow> (\<Sum>s \<leftarrow> ys. claims_left s) \<le> (\<Sum>s \<leftarrow> xs. claims_left s)"
  by (induction rule: list_all2_induct) (auto simp: step_evolves_def claims_left_def intro!: add_mono)

lemma sum_filter_le: "(\<Sum>x \<leftarrow> filter P xs. f x) \<le> (\<Sum>x \<leftarrow> xs. f x :: nat)"
  by (induction xs) auto

lemma sum_map_less: "(\<And>x. x \<in> set xs \<Longrightarrow> f (g x) \<le> (f x :: nat)) \<Longrightarrow> y \<in> set xs \<Longrightarrow> f (g y) < f y \<Longrightarrow>
  (\<Sum>x \<leftarrow> map g xs. f x) < (\<Sum>x \<leftarrow> xs. f x)"
proof (induction xs)
  case (Cons x xs)
  have le: "(\<Sum>x \<leftarrow> map g xs. f x) \<le> (\<Sum>x \<leftarrow> xs. f x)"
    using Cons.prems(1) by (induction xs) (auto intro!: add_mono)
  show ?case
  proof (cases "y = x")
    case True
    then show ?thesis using le Cons.prems(3) by simp
  next
    case False
    then show ?thesis using Cons by (auto intro!: add_le_less_mono)
  qed
qed simp

lemma claim_spends:
  assumes ok: "engine_ok (db, fl)" and c: "claim_due_step now db = (Inr (Some c), db')"
  shows "claim_budget db' < claim_budget db"
proof -
  from c obtain s where s: "s \<in> set (wd_steps db)" "step_due now db s" "db' = put_step (\<lambda>x. ws_id x = ws_id s) (claim_row now) db"
      "attempts_allowed (claim_row now s)"
    by (rule claim_due_step_cases) auto
  let ?g = "\<lambda>x. if ws_id x = ws_id s then claim_row now x else x"
  have "claims_left (?g s) < claims_left s"
    using s(4) by (simp add: claims_left_def claim_row_def attempts_allowed_def split: if_split_asm)
  moreover have "claims_left (?g x) \<le> claims_left x" for x by (simp add: claims_left_def claim_row_def nat_mono)
  ultimately show ?thesis
    unfolding claim_budget_def s(3) put_step_steps by (intro sum_map_less[OF _ s(1)])
qed

lemma engine_step_budget:
  assumes "engine_step env m (db, fl) (db', fl')" "engine_ok (db, fl)" "m \<noteq> MvStart"
  shows "claim_budget db' + (if m = MvClaim then 1 else 0) \<le> claim_budget db"
proof (cases "m = MvClaim")
  case True
  from assms(1) show ?thesis
    by (cases rule: engine_step.cases) (use True claim_spends[OF assms(2)] in \<open>auto simp: Suc_le_eq\<close>)
next
  case False
  have "claim_budget db' \<le> claim_budget db"
    using engine_step_evolves[OF assms(1,2)] assms(3) evolves_budget sum_filter_le
    unfolding evolves_def claim_budget_def by metis
  then show ?thesis using False by simp
qed

lemma path_budget: "engine_path env ms x y \<Longrightarrow> engine_ok x \<Longrightarrow> MvStart \<notin> set ms \<Longrightarrow>
  claim_budget (fst y) + count_list ms MvClaim \<le> claim_budget (fst x)"
proof (induction rule: engine_path.induct)
  case (ep_step m x y ms z)
  obtain db fl db' fl' where x: "x = (db, fl)" "y = (db', fl')" by (cases x, cases y)
  have "claim_budget db' + (if m = MvClaim then 1 else 0) \<le> claim_budget db"
    by (rule engine_step_budget[OF ep_step.hyps(1)[unfolded x] ep_step.prems(1)[unfolded x]]) (use ep_step.prems(2) in auto)
  moreover have "claim_budget (fst z) + count_list ms MvClaim \<le> claim_budget db'"
    using ep_step.IH engine_step_ok[OF ep_step.hyps(1) ep_step.prems(1)] ep_step.prems(2) unfolding x by simp
  ultimately show ?case unfolding x by (auto split: if_split_asm)
qed simp

subsection \<open>The tick and the sweep as paths\<close>

text \<open>The identifiers the database generates in one tick: none is in use, no two are the same.\<close>

fun fresh_ids :: "'n wf_db \<Rightarrow> (uuid \<times> (nat \<Rightarrow> uuid)) list \<Rightarrow> bool" where
  "fresh_ids db [] \<longleftrightarrow> True"
| "fresh_ids db (f # fs) \<longleftrightarrow>
     fst f \<notin> ex_id ` set (wd_executions db) \<and> fst f \<notin> fst ` set fs \<and> inj (snd f) \<and>
     (\<forall>k. snd f k \<notin> ws_id ` set (wd_steps db)) \<and> (\<forall>g \<in> set fs. range (snd f) \<inter> range (snd g) = {}) \<and> fresh_ids db fs"

lemma fresh_ids_more:
  assumes "fresh_ids db fs" "wd_executions db' = wd_executions db @ es" "ex_id ` set es \<inter> fst ` set fs = {}"
    "wd_steps db' = wd_steps db @ ss" "\<forall>g \<in> set fs. ws_id ` set ss \<inter> range (snd g) = {}"
  shows "fresh_ids db' fs"
  using assms
proof (induction fs)
  case (Cons f fs)
  have "fst f \<notin> ex_id ` set es" using Cons.prems(3) by auto
  moreover have "\<forall>k. snd f k \<notin> ws_id ` set ss" using Cons.prems(5) by auto
  moreover have "fresh_ids db' fs" using Cons by auto
  ultimately show ?case using Cons.prems(1,2,4) by (simp add: image_Un)
qed simp

lemma start_run_path:
  assumes ids: "fresh_ids db ((fresh, ids) # fs)" and r: "start_run env now db fresh ids w kind by = (r, db')"
  shows "path env (db, []) (db', []) \<and> fresh_ids db' fs"
proof (cases "workflow_definitions (en_read_steps env) w")
  case (Inl e)
  then show ?thesis using r ids by (auto simp: start_run_def intro: path_intros)
next
  case (Inr steps)
  then have db': "db' = snd (start_run_with now db fresh ids w kind by steps)" using r by (simp add: start_run_def)
  have "engine_step env MvStart (db, []) (db', [])"
    unfolding db' by (rule es_start) (use ids in \<open>auto simp: inj_on_def inj_def\<close>)
  moreover have "fresh_ids db' fs"
  proof -
    obtain r1 db1 where c: "create_execution now db fresh ids w kind by steps = (r1, db1)" by fastforce
    then show ?thesis
    proof (cases rule: create_execution_cases)
      case (1 e)
      then show ?thesis using ids c unfolding db' by (simp add: start_run_with_def)
    next
      case 2
      have "set (map ws_id (step_rows now ids fresh steps)) \<subseteq> range ids" unfolding step_rows_simps(1) by auto
      then have rows: "ws_id ` set (step_rows now ids fresh steps) \<subseteq> range ids" by simp
      show ?thesis
      proof (rule fresh_ids_more[where es = "[execution_row now fresh w kind by]" and ss = "step_rows now ids fresh steps"])
        show "fresh_ids db fs" using ids by simp
        show "\<forall>g \<in> set fs. ws_id ` set (step_rows now ids fresh steps) \<inter> range (snd g) = {}"
        proof
          fix g assume "g \<in> set fs"
          then have "range ids \<inter> range (snd g) = {}" using ids by simp
          then show "ws_id ` set (step_rows now ids fresh steps) \<inter> range (snd g) = {}" using rows by blast
        qed
      qed (use ids c 2 in \<open>simp_all add: db' start_run_with_def record_start_def execution_row_def\<close>)
    qed
  qed
  ultimately show ?thesis using path_intros(2) by blast
qed

lemma start_due_path: "fresh_ids db fresh \<Longrightarrow> path env (db, []) (snd (start_due env now fresh ws r db), [])"
proof (induction ws arbitrary: fresh r db)
  case (Cons w ws)
  note prems = Cons.prems and IH = Cons.IH
  show ?case
  proof (cases fresh)
    case (Cons f rest)
    obtain i ids where f: "f = (i, ids)" by fastforce
    obtain r1 db1 where s: "start_run env now db i ids w Schedule None = (r1, db1)" by fastforce
    note step = start_run_path[OF prems[unfolded Cons f] s]
    show ?thesis using Cons f s step path_trans[OF conjunct1[OF step] IH[OF conjunct2[OF step]]] by (cases r1) simp_all
  qed (simp add: path_intros)
qed (simp add: path_intros)

lemma claimed_step_path:
  assumes "claim_due_step now db = (Inr (Some c), db1)" "advance_step env now c outcome db1 = (r, db2)"
  shows "path env (db, []) (db2, [])"
proof -
  have "engine_step env MvClaim (db, []) (db1, [c])" by (rule es_claim[OF assms(1)])
  moreover have "engine_step env MvOther (db1, [c]) (db2, [])"
    using es_advance[of c "[c]" env db1 now outcome] assms(2) by simp
  ultimately show ?thesis using path_intros(2) path_trans by blast
qed

lemma run_batch_path: "path env (db, []) (snd (run_batch env now n r db), [])"
proof (induction n arbitrary: r db)
  case (Suc n)
  obtain c db1 where c: "claim_due_step now db = (c, db1)" by fastforce
  show ?case
  proof (cases "\<exists>k. c = Inr (Some k)")
    case True
    then obtain k where k: "c = Inr (Some k)" by blast
    obtain o1 db2 where a: "advance_step env now k (perform env db1 k) db1 = (o1, db2)" by fastforce
    note one = claimed_step_path[OF c[unfolded k] a]
    show ?thesis using c k a one path_trans[OF one Suc.IH] by (simp split: sum.split)
  next
    case False
    then have "db1 = db" using c claim_due_step_cases[OF c] by metis
    then show ?thesis using c False by (cases c) (auto simp: path_intros split: option.split)
  qed
qed (simp add: path_intros)

lemma reclaim_keeps:
  assumes "x \<in> set (wd_steps db)" "ws_id x \<noteq> ws_id s"
  shows "x \<in> set (wd_steps (reclaim_step env now s db))"
proof -
  have "x \<in> set (wd_steps (put_step (claim_held (ws_id s)) g db))" for g
  proof -
    have "\<not> claim_held (ws_id s) x" using assms(2) by (auto simp: claim_held_def)
    then show ?thesis using assms(1) unfolding put_step_steps by (force simp: image_iff)
  qed
  then show ?thesis
    unfolding reclaim_step_def complete_step_def fail_step_def set_step_waiting_def retry_step_def
    by (simp split: option.split step_kind.split sum.split)
qed

lemma reclaim_all_path:
  assumes "distinct (map ws_id stale)" "\<forall>s \<in> set stale. s \<in> set (wd_steps db) \<and> ws_status s = step_str StRunning"
  shows "path env (db, []) (fold (reclaim_step env now) stale db, [])"
  using assms
proof (induction stale arbitrary: db)
  case (Cons s ss)
  have one: "engine_step env MvOther (db, []) (reclaim_step env now s db, [])"
    using es_reclaim[of s db env "[]" now] Cons.prems(2) by simp
  have "\<forall>x \<in> set ss. x \<in> set (wd_steps (reclaim_step env now s db)) \<and> ws_status x = step_str StRunning"
  proof
    fix x assume x: "x \<in> set ss"
    then have "ws_id x \<noteq> ws_id s" using Cons.prems(1) by (auto simp: image_iff)
    then show "x \<in> set (wd_steps (reclaim_step env now s db)) \<and> ws_status x = step_str StRunning"
      using Cons.prems(2) x reclaim_keeps[of x db s env now] by simp
  qed
  then show ?case using Cons.IH Cons.prems(1) path_trans[OF path_intros(2)[OF one]] by simp
qed (simp add: path_intros)

lemma stale_steps_mem: "s \<in> set (stale_steps now db lease limit) \<Longrightarrow> s \<in> set (wd_steps db) \<and> ws_status s = step_str StRunning"
  unfolding stale_steps_def by (drule in_set_takeD) simp

lemma stale_steps_distinct: "engine_ok (db, fl) \<Longrightarrow> distinct (map ws_id (stale_steps now db lease limit))"
proof -
  assume ok: "engine_ok (db, fl)"
  have d: "distinct (map ws_id (wd_steps db))" using ok by (simp add: engine_ok_def)
  have "inj_on ws_id (set (stale_steps now db lease limit))"
    using engine_ok_unique[OF ok] stale_steps_mem by (blast intro: inj_onI)
  moreover have "distinct (stale_steps now db lease limit)"
    using d by (simp add: stale_steps_def distinct_map)
  ultimately show ?thesis by (simp add: distinct_map)
qed

lemma settle_each_path: "path env (db, []) (fold (settle_if_open now) is db, [])"
proof (induction "is" arbitrary: db)
  case (Cons i "is")
  show ?case using path_trans[OF path_intros(2)[OF es_settle] Cons.IH] by simp
qed (simp add: path_intros)

lemma sweep_path:
  assumes ok: "engine_ok (db, [])"
  shows "path env (db, []) (snd (sweep env now db), [])"
proof -
  let ?cfg = "en_config env"
  obtain resolved db1 where w: "resolve_due_waits now db (rn_sweep_batch ?cfg) = (resolved, db1)" by fastforce
  have p1: "engine_step env MvOther (db, []) (db1, [])"
    using es_waits[of env db "[]" now "rn_sweep_batch ?cfg"] w by simp
  have ok1: "engine_ok (db1, [])" by (rule engine_step_ok[OF p1 ok])
  obtain reclaimed db2 where r: "reclaim_stale_steps env now db1 = (reclaimed, db2)" by fastforce
  have p2: "path env (db1, []) (db2, [])"
    using r reclaim_all_path[OF stale_steps_distinct[OF ok1]] stale_steps_mem
    by (simp add: reclaim_stale_steps_def Let_def) blast
  let ?db3 = "fold (settle_if_open now) (resolved @ reclaimed) db2"
  obtain recovered db4 where c: "reconcile_executions now ?db3 (rn_sweep_batch ?cfg) = (recovered, db4)" by fastforce
  have p4: "path env (?db3, []) (fold audit_settlement recovered db4, [])"
    by (rule path_intros(2)[OF es_reconcile[OF c]])
  have "path env (db, []) (fold audit_settlement recovered db4, [])"
    by (rule path_trans[OF path_intros(2)[OF p1] path_trans[OF p2 path_trans[OF settle_each_path p4]]])
  then show ?thesis unfolding sweep_def w prod.case r Let_def c by simp
qed

lemma tick_path:
  assumes ids: "fresh_ids db fresh" and t: "tick_with env now fresh db = Some (r, db')"
  shows "path env (db, []) (db', [])"
proof -
  obtain z db1 where z: "claim_due_schedules (en_calendar env) now db (rn_scheduler_batch (en_config env)) = Some (z, db1)"
    using t by (auto simp: tick_with_def)
  have p1: "path env (db, []) (db1, [])" by (rule path_intros(2)[OF es_schedules[OF z]])
  show ?thesis
  proof (cases z)
    case (Inl e)
    then show ?thesis using t z p1 by (simp add: tick_with_def)
  next
    case (Inr due)
    have "fresh_ids db1 fresh"
      by (rule fresh_ids_more[OF ids, where es = "[]" and ss = "[]"]) (use claim_due_schedules_db[OF z] in simp_all)
    note p2 = start_due_path[OF this, of env now due empty_report]
    obtain r1 db2 where s: "start_due env now fresh due empty_report db1 = (r1, db2)" by fastforce
    have "db' = snd (run_batch env now (rn_batch (en_config env)) r1 db2)" using t z Inr s by (simp add: tick_with_def)
    then show ?thesis using path_trans[OF p1 path_trans[OF p2 run_batch_path]] s by simp
  qed
qed

lemma path_keeps_ok: "path env x y \<Longrightarrow> engine_ok x \<Longrightarrow> engine_ok y"
  unfolding path_def using path_ok by blast

end
