(* ===== verification/WorkflowGuarantees.thy ===== *)
theory WorkflowGuarantees
  imports WorkflowLaws
begin

text \<open>
  The properties of the workflow engine, over the paths of its state machine from empty tables, with a
  sample run of two steps on which they are applied.
\<close>

subsection \<open>A sample run\<close>

definition sample_env :: "int wf_env" where
  "sample_env = \<lparr>en_as_i64 = Some, en_of_i64 = (\<lambda>n. n), en_read_steps = (\<lambda>_. None), en_handler = no_action_handler,
     en_config = default_runner, en_calendar = sample_calendar\<rparr>"

definition sample_empty :: "int wf_db" where
  "sample_empty = \<lparr>wd_workflows = [], wd_executions = [], wd_steps = [], wd_audit = []\<rparr>"

definition sample_rule :: "int new_workflow" where
  "sample_rule = \<lparr>nf_organization_id = 1, nf_site_id = None, nf_name = ''w'', nf_description = [], nf_enabled = True,
     nf_trigger = Manual, nf_schedule = None, nf_trigger_event = None, nf_conditions = JArray [], nf_next_run_at = None,
     nf_steps = JArray [], nf_created_by = None\<rparr>"

definition sample_defined :: "int wf_db" where
  "sample_defined = snd (insert_workflow 0 sample_empty 1 sample_rule)"

definition sample_steps :: "int step_definition list" where
  "sample_steps = [task_step ''a'' ''noop'' (JObject []), task_step ''b'' ''fail'' (JObject [])]"

definition sample_started :: "int wf_db" where
  "sample_started = snd (start_run_with 0 sample_defined 2 (\<lambda>k. 10 + k) (workflow_of 0 1 sample_rule) Manual None sample_steps)"

definition sample_running :: "int wf_db" where
  "sample_running = snd (run_batch sample_env 0 1 empty_report sample_started)"

definition sample_settled :: "int wf_db" where
  "sample_settled = snd (run_batch sample_env 0 2 empty_report sample_started)"

lemma sample_defined_tables: "wd_steps sample_defined = []" "wd_executions sample_defined = []"
  by code_simp+

lemma sample_started_path: "path sample_env (sample_empty, []) (sample_started, [])"
proof -
  have "engine_step sample_env MvOther (sample_empty, []) (sample_defined, [])"
    unfolding sample_defined_def by (rule es_insert)
  moreover have "engine_step sample_env MvStart (sample_defined, []) (sample_started, [])"
    unfolding sample_started_def
    by (rule es_start) (simp_all add: sample_defined_tables)
  ultimately show ?thesis using path_intros(2) path_trans by blast
qed

lemma sample_paths:
  "path sample_env (sample_empty, []) (sample_running, [])" "path sample_env (sample_empty, []) (sample_settled, [])"
  unfolding sample_running_def sample_settled_def by (rule path_trans[OF sample_started_path run_batch_path])+

lemma sample_empty_tables: "wd_steps sample_empty = []" "wd_executions sample_empty = []"
  by (simp_all add: sample_empty_def)

subsection \<open>Guarantees\<close>

lemma path_from_empty: "path env (db0, []) (db, fl) \<Longrightarrow> wd_steps db0 = [] \<Longrightarrow> wd_executions db0 = [] \<Longrightarrow> engine_ok (db, fl)"
  using path_keeps_ok empty_ok by blast

lemma list_all2_right: "list_all2 R xs ys \<Longrightarrow> y \<in> set ys \<Longrightarrow> \<exists>x \<in> set xs. R x y"
  by (induction rule: list_all2_induct) auto

lemma engine_ok_run_unique: "engine_ok (db, fl) \<Longrightarrow> e \<in> set (wd_executions db) \<Longrightarrow> f \<in> set (wd_executions db) \<Longrightarrow> ex_id e = ex_id f \<Longrightarrow> e = f"
  by (auto simp: engine_ok_def distinct_map dest: inj_onD)

lemma claim_result:
  assumes "engine_ok (db, fl)" "claim_due_step now db = (r, db')"
  shows "r \<noteq> Inl e"
  using assms(2)
proof (cases rule: claim_due_step_cases)
  case (2 s)
  then show ?thesis using claim_allowed[OF engine_ok_step[OF assms(1) 2(1)] 2(2)] by blast
qed simp_all



text \<open>C26. The steps of a run are taken in order, one at a time: once a step has been claimed, every
  earlier step of its run is closed, and two steps of a run are never running or parked together.\<close>

theorem steps_in_order:
  assumes "path env (db0, []) (db, fl)" and "wd_steps db0 = []" and "wd_executions db0 = []"
    and "s \<in> set (wd_steps db)" "t \<in> set (wd_steps db)" "ws_execution_id s = ws_execution_id t" "ws_step_no s < ws_step_no t"
    and "ws_status t \<in> {step_str StRunning, step_str StWaiting, step_str StSucceeded, step_str StFailed}"
  shows "ws_status s \<in> {step_str StSucceeded, step_str StFailed, step_str StCancelled}"
proof -
  note ok = path_from_empty[OF assms(1-3)]
  have "ws_status s \<notin> open_strs"
    using ok assms(4-8) unfolding engine_ok_def order_ok_def moved_strs_def by blast
  moreover obtain st where "ws_status s = step_str st" using engine_ok_step[OF ok assms(4)] by (rule step_ok_cases)
  ultimately show ?thesis by (cases st) (simp_all add: is_open_def)
qed

theorem steps_in_order_witness:
  "ws_status (hd (wd_steps sample_settled)) \<in> {step_str StSucceeded, step_str StFailed, step_str StCancelled}"
proof -
  have "hd (wd_steps sample_settled) \<in> set (wd_steps sample_settled)" "last (wd_steps sample_settled) \<in> set (wd_steps sample_settled)"
    by code_simp+
  then show ?thesis
    by (rule steps_in_order[OF sample_paths(2) sample_empty_tables]) code_simp+
qed

text \<open>C27. A settled run says what its steps did: a completed run has only succeeded steps, and a failed run
  has no open step and carries the error of its first failed step.\<close>

theorem settled_run_verdict:
  assumes "path env (db0, []) (db, fl)" and "wd_steps db0 = []" and "wd_executions db0 = []"
    and "e \<in> set (wd_executions db)"
  shows "case execution_parse (ex_status e) of
      Some ExCompleted \<Rightarrow> list_all (\<lambda>s. ws_status s = step_str StSucceeded) (run_steps db (ex_id e))
    | Some ExFailed \<Rightarrow> list_all (\<lambda>s. ws_status s \<notin> open_strs) (run_steps db (ex_id e)) \<and>
        (\<exists>s ss. sort_key ws_step_no (filter (\<lambda>s. ws_status s = step_str StFailed) (run_steps db (ex_id e))) = s # ss \<and>
           ex_error e = ws_error s)
    | _ \<Rightarrow> True"
proof -
  have "run_ok (run_steps db (ex_id e)) e" using path_from_empty[OF assms(1-3)] assms(4) by (simp add: engine_ok_def)
  then obtain st where "ex_status e = execution_str st"
     "st = ExCompleted \<longrightarrow> list_all (\<lambda>s. ws_status s = step_str StSucceeded) (run_steps db (ex_id e))"
     "st = ExFailed \<longrightarrow> list_all (\<lambda>s. ws_status s \<notin> open_strs) (run_steps db (ex_id e)) \<and>
        (\<exists>s ss. sort_key ws_step_no (filter (\<lambda>s. ws_status s = step_str StFailed) (run_steps db (ex_id e))) = s # ss \<and> ex_error e = ws_error s)"
    unfolding run_ok_def by blast
  then show ?thesis by (cases st) simp_all
qed

theorem settled_run_verdict_witness:
  "case execution_parse (ex_status (hd (wd_executions sample_settled))) of
      Some ExCompleted \<Rightarrow> list_all (\<lambda>s. ws_status s = step_str StSucceeded) (run_steps sample_settled (ex_id (hd (wd_executions sample_settled))))
    | Some ExFailed \<Rightarrow> list_all (\<lambda>s. ws_status s \<notin> open_strs) (run_steps sample_settled (ex_id (hd (wd_executions sample_settled)))) \<and>
        (\<exists>s ss. sort_key ws_step_no (filter (\<lambda>s. ws_status s = step_str StFailed) (run_steps sample_settled (ex_id (hd (wd_executions sample_settled))))) = s # ss \<and>
           ex_error (hd (wd_executions sample_settled)) = ws_error s)
    | _ \<Rightarrow> True"
proof -
  have "hd (wd_executions sample_settled) \<in> set (wd_executions sample_settled)" by code_simp
  then show ?thesis by (rule settled_run_verdict[OF sample_paths(2) sample_empty_tables])
qed



text \<open>C29. Retries are bounded: while no further run is started, the number of claims is at most the attempts
  the steps have left, so every run is claimed finitely often.\<close>

theorem claims_bounded:
  assumes "path env (db0, []) (db, fl)" and "wd_steps db0 = []" and "wd_executions db0 = []"
    and "engine_path env moves (db, fl) (db', fl')" and "MvStart \<notin> set moves"
  shows "count_list moves MvClaim + claim_budget db' \<le> claim_budget db"
  using path_budget[OF assms(4) path_from_empty[OF assms(1-3)] assms(5)] by simp

definition sample_claimed :: "int wf_db" where
  "sample_claimed = snd (claim_due_step 0 sample_started)"

definition sample_claim :: "int claimed_step" where
  "sample_claim = claimed_of (hd (wd_steps sample_claimed))"

lemma sample_claim_path: "engine_path sample_env [MvClaim, MvOther] (sample_started, []) (sample_running, [])"
proof -
  have "claim_due_step 0 sample_started = (Inr (Some sample_claim), sample_claimed)" by code_simp
  note c = es_claim[OF this, of sample_env "[]"]
  have "snd (advance_step sample_env 0 sample_claim (perform sample_env sample_claimed sample_claim) sample_claimed) = sample_running" by code_simp
  then have a: "engine_step sample_env MvOther (sample_claimed, [sample_claim]) (sample_running, [])"
    using es_advance[of sample_claim "[sample_claim]" sample_env sample_claimed 0 "perform sample_env sample_claimed sample_claim"] by simp
  show ?thesis by (rule ep_step[OF c ep_step[OF a ep_nil]])
qed

theorem claims_bounded_witness:
  "count_list [MvClaim, MvOther] MvClaim + claim_budget sample_running \<le> claim_budget sample_started"
  by (rule claims_bounded[OF sample_started_path sample_empty_tables sample_claim_path]) simp

lemma first_open:
  assumes "s \<in> set xs" "P s"
  obtains m where "m \<in> set xs" "P m" "\<forall>x \<in> set xs. P x \<longrightarrow> ws_step_no m \<le> ws_step_no x"
proof -
  let ?A = "ws_step_no ` {x \<in> set xs. P x}"
  have "finite ?A" "?A \<noteq> {}" using assms by auto
  then have "Min ?A \<in> ?A" by (rule Min_in)
  then obtain m where "m \<in> set xs" "P m" "ws_step_no m = Min ?A" by auto
  then show thesis using that \<open>finite ?A\<close> by simp
qed

lemma due_is_claimed:
  assumes "engine_ok (db, fl)" "s \<in> set (wd_steps db)" "step_due now db s"
  shows "\<exists>c. fst (claim_due_step now db) = Inr (Some c)"
proof -
  have "filter (step_due now db) (wd_steps db) \<noteq> []" using assms(2,3) by (auto simp: filter_empty_conv)
  then have "fst (claim_due_step now db) \<noteq> Inr None"
    by (cases "sort_key (\<lambda>s. (run_started db (ws_execution_id s), ws_execution_id s, ws_step_no s)) (filter (step_due now db) (wd_steps db))")
      (simp_all add: claim_due_step_def sort_key_Nil_iff)
  moreover obtain r db' where r: "claim_due_step now db = (r, db')" by fastforce
  ultimately show ?thesis using claim_result[OF assms(1) r] by (cases r) auto
qed



subsection \<open>The runner and the sweeper\<close>


definition sample_fresh :: "(uuid \<times> (nat \<Rightarrow> uuid)) list" where
  "sample_fresh = [(5, \<lambda>k. 20 + k)]"


subsection \<open>Accepted definitions\<close>

lemma validate_steps_each: "validate_steps as_i64 seen steps = Inr () \<Longrightarrow> s \<in> set steps \<Longrightarrow> validate_step as_i64 s = Inr ()"
  by (induction steps arbitrary: seen) (auto simp: Let_def res_bind_Inr_conv split: if_split_asm)

lemma trimmed_not_blank: "trim s \<noteq> [] \<Longrightarrow> not_blank (trim s)"
proof -
  assume "trim s \<noteq> []"
  then have ne: "dropWhile is_whitespace (rev (trim_start s)) \<noteq> []" by (simp add: trim_def trim_end_def)
  define c where "c = hd (dropWhile is_whitespace (rev (trim_start s)))"
  have "\<not> is_whitespace c" unfolding c_def using ne by (rule hd_dropWhile)
  moreover have "is_whitespace CHR '' ''" by code_simp
  ultimately have "c \<noteq> CHR '' ''" by blast
  moreover have "c \<in> set (trim s)" using hd_in_set[OF ne] by (simp add: c_def trim_def trim_end_def)
  ultimately have "c \<in> set (filter (\<lambda>c. c \<noteq> CHR '' '') (trim s))" by simp
  then show ?thesis unfolding not_blank_def by (metis list.set(1) empty_iff)
qed

lemma validate_step_row:
  assumes "validate_step as_i64 s = Inr ()"
  shows "row_allowed (step_row now i e k s)"
proof -
  have "trim (sd_name s) \<noteq> []" using assms by (simp add: validate_step_def Let_def split: if_split_asm)
  note name = trimmed_not_blank[OF this]
  show ?thesis
  proof (cases "sd_kind s")
    case Task
    then have t: "is_action (trim (case sd_action s of None \<Rightarrow> [] | Some a \<Rightarrow> a))" "validate_attempts s = Inr ()"
      using assms by (simp_all add: validate_step_def Let_def res_bind_Inr_conv split: if_split_asm)
    have "\<not> is_action (trim [])" by code_simp
    then have "sd_action s \<noteq> None" using t(1) by (cases "sd_action s") simp_all
    moreover have "1 \<le> sd_max_attempts s" "sd_max_attempts s \<le> 5"
      using t(2) by (simp_all add: validate_attempts_def WF_MAX_ATTEMPTS_def split: if_split_asm)
    ultimately show ?thesis using name Task by (simp add: row_allowed_def attempts_allowed_def step_row_def)
  next
    case Wait
    then show ?thesis using assms name
      by (simp add: row_allowed_def attempts_allowed_def step_row_def validate_step_def Let_def split: if_split_asm)
  qed
qed

text \<open>A definition that validation accepts always starts: every step row it produces satisfies the step
  table's constraints, so a run of a stored workflow is created with one pending step per definition step, in order.\<close>

theorem accepted_definition_starts:
  assumes "validate_definition as_i64 cal now d = Some (Inr ())" and "find_workflow db (wf_id w) \<noteq> None"
  shows "\<exists>e rows db'. create_execution at db fresh ids w kind by (df_steps d) = (Inr (e, rows), db') \<and>
    map ws_step_no rows = map (\<lambda>k. int k + 1) [0..<length (df_steps d)] \<and>
    map ws_name rows = map (\<lambda>s. trim (sd_name s)) (df_steps d)"
proof -
  have v: "validate_steps as_i64 [] (df_steps d) = Inr ()"
    using assms(1) by (simp add: validate_definition_def run_bind_def split: if_split_asm sum.split_asm)
  have "list_all row_allowed (step_rows at ids fresh (df_steps d))"
    unfolding list_all_iff
  proof
    fix r assume "r \<in> set (step_rows at ids fresh (df_steps d))"
    then obtain k where k: "k < length (df_steps d)" "r = step_row at (ids k) fresh k (df_steps d ! k)"
      by (auto simp: step_rows_def in_set_enumerate_eq)
    show "row_allowed r" unfolding k(2) by (rule validate_step_row[OF validate_steps_each[OF v nth_mem[OF k(1)]]])
  qed
  moreover have "map ws_step_no (step_rows at ids fresh (df_steps d)) = map (\<lambda>k. int k + 1) [0..<length (df_steps d)]"
     "map ws_name (step_rows at ids fresh (df_steps d)) = map (\<lambda>s. trim (sd_name s)) (df_steps d)"
    by (auto simp: step_rows_def step_row_def enumerate_eq_zip intro!: nth_equalityI)
  ultimately show ?thesis using assms(2) by (auto simp: create_execution_def Let_def)
qed

definition sample_definition :: "int workflow_definition" where
  "sample_definition = \<lparr>df_trigger = manual_trigger, df_conditions = [], df_steps = sample_steps\<rparr>"

theorem accepted_definition_starts_witness:
  "\<exists>e rows db'. create_execution 0 sample_defined 2 (\<lambda>k. 10 + k) (workflow_of 0 1 sample_rule) Manual None (df_steps sample_definition) = (Inr (e, rows), db') \<and>
    map ws_step_no rows = map (\<lambda>k. int k + 1) [0..<length (df_steps sample_definition)] \<and>
    map ws_name rows = map (\<lambda>s. trim (sd_name s)) (df_steps sample_definition)"
proof (rule accepted_definition_starts)
  show "validate_definition Some sample_calendar 0 sample_definition = Some (Inr ())"
    by code_simp
  show "find_workflow sample_defined (wf_id (workflow_of 0 1 sample_rule)) \<noteq> None" by code_simp
qed

subsection \<open>Where the engine and its intent part\<close>

text \<open>A runner that outlives its lease: its claim is reclaimed and handed out again for the last attempt, and
  its late failure then puts the step back with no attempt left.\<close>

definition retried_steps :: "int step_definition list" where
  "retried_steps = [retrying 2 (task_step ''a'' ''fail'' (JObject []))]"

definition late_started :: "int wf_db" where
  "late_started = snd (start_run_with 0 sample_defined 2 (\<lambda>k. 10 + k) (workflow_of 0 1 sample_rule) Manual None retried_steps)"

definition late_claim :: "int claimed_step" where
  "late_claim = claimed_of (hd (wd_steps (snd (claim_due_step 0 late_started))))"

definition late_reclaimed :: "int wf_db" where
  "late_reclaimed = snd (reclaim_stale_steps sample_env (seconds 400) (snd (claim_due_step 0 late_started)))"

definition late_failed :: "int wf_db" where
  "late_failed = snd (advance_step sample_env (seconds 401) late_claim (Inl ''lost'') (snd (claim_due_step (seconds 400) late_reclaimed)))"

definition late_blocked :: "int wf_db" where
  "late_blocked = snd (start_run_with (seconds 402) late_failed 3 (\<lambda>k. 20 + k) (workflow_of 0 1 sample_rule) Manual None sample_steps)"

theorem late_retry_blocks_engine:
  "map ws_status (wd_steps late_failed) = [step_str StPending] \<and>
   map ws_attempts (wd_steps late_failed) = map ws_max_attempts (wd_steps late_failed) \<and>
   claim_due_step (seconds 900) late_blocked = (Inl WfDatabase, late_blocked) \<and>
   run_batch sample_env (seconds 900) 16 empty_report late_blocked = (Inl WfDatabase, late_blocked) \<and>
   map ws_name (filter (step_due (seconds 900) late_blocked) (wd_steps late_blocked)) = [''a'', ''a'']"
  by code_simp

text \<open>A failed step does not stop the steps after it.\<close>

definition failing_first :: "int wf_db" where
  "failing_first = snd (run_batch sample_env 0 16 empty_report (snd (start_run_with 0 sample_defined 2 (\<lambda>k. 10 + k)
     (workflow_of 0 1 sample_rule) Manual None (rev sample_steps))))"

theorem failed_step_continues:
  "map ws_status (wd_steps failing_first) = [step_str StFailed, step_str StSucceeded] \<and>
   map ex_status (wd_executions failing_first) = [execution_str ExFailed]"
  by code_simp

text \<open>A failure with attempts left, reported after its run was cancelled, leaves the step open for good.\<close>

definition cancelled_open :: "int wf_db" where
  "cancelled_open = snd (advance_step sample_env 2 late_claim (Inl ''lost'')
     (snd (cancel_execution 1 (snd (claim_due_step 0 late_started)) 2)))"

theorem retry_after_cancel_stays_open:
  "map ex_status (wd_executions cancelled_open) = [execution_str ExCancelled] \<and>
   map ws_status (wd_steps cancelled_open) = [step_str StPending] \<and>
   map ws_status (wd_steps (snd (sweep sample_env (seconds 900) cancelled_open))) = [step_str StPending]"
  by code_simp

text \<open>Validation trims the action, the run does not.\<close>

theorem untrimmed_action_fails:
  "validate_step Some (task_step ''a'' '' noop '' (JObject [])) = Inr () \<and>
   run_action Some (\<lambda>n. n) '' noop '' (JObject []) 1 = Inl ''` noop ` is not a built-in action''"
  by code_simp

end
