(* ===== verification/EventRunner.thy ===== *)
theory EventRunner
  imports EventStore
begin

text \<open>
  The delivery runner (\<open>crates/events/src/engine.rs\<close>). The receiver's answer and the time it took, the
  clock and the identifiers the database generates are arguments, and so are the conversions of \<open>json!\<close>.
  Logging is left out.
\<close>

definition MAX_ERROR_CHARS :: nat where "MAX_ERROR_CHARS = 500"

definition elapsed_millis :: "nat \<Rightarrow> int option" where
  "elapsed_millis elapsed = (let millis = min (int elapsed) (2 ^ 31 - 1) in if millis < 2 ^ 31 then Some millis else None)"

record delivery_runner =
  dr_batch :: int
  dr_lease_seconds :: nat
  dr_request_timeout :: nat
  dr_retry_base :: int
  dr_retry_max :: int

definition default_delivery_runner :: delivery_runner where
  "default_delivery_runner =
     \<lparr>dr_batch = 20, dr_lease_seconds = 120, dr_request_timeout = 10, dr_retry_base = seconds 15, dr_retry_max = seconds (60 * 15)\<rparr>"

record delivery_tick =
  dt_cancelled :: nat
  dt_claimed :: nat
  dt_delivered :: nat
  dt_retried :: nat
  dt_failed :: nat

definition idle_tick :: delivery_tick where
  "idle_tick = \<lparr>dt_cancelled = 0, dt_claimed = 0, dt_delivered = 0, dt_retried = 0, dt_failed = 0\<rparr>"

definition tick_is_idle :: "delivery_tick \<Rightarrow> bool" where
  "tick_is_idle r \<longleftrightarrow> dt_cancelled r = 0 \<and> dt_claimed r = 0"

record 'n bus_env =
  be_config :: delivery_runner
  be_uuid_json :: "uuid \<Rightarrow> 'n json"
  be_of_i64 :: "int \<Rightarrow> 'n"
  be_ellipsis :: string

definition opt_json :: "('a \<Rightarrow> 'n json) \<Rightarrow> 'a option \<Rightarrow> 'n json" where
  "opt_json g x = (case x of None \<Rightarrow> JNull | Some v \<Rightarrow> g v)"

definition failure_event :: "'n bus_env \<Rightarrow> 'n delivery_job \<Rightarrow> int option \<Rightarrow> string \<Rightarrow> 'n new_event" where
  "failure_event env job status message =
     event_payload
       (JObject [(''attempts'', JNumber (be_of_i64 env (dj_attempts job))), (''delivery_id'', be_uuid_json env (dj_delivery_id job)),
          (''endpoint_id'', be_uuid_json env (dj_endpoint_id job)), (''endpoint_name'', JString (dj_endpoint_name job)),
          (''event_name'', JString (dj_event_name job)), (''reason'', JString message),
          (''status'', opt_json (\<lambda>n. JNumber (be_of_i64 env n)) status)])
       (event_actor (dj_actor_user_id job)
         (event_site (dj_site_id job)
           (event_organization (dj_organization_id job) (new_event_named ''webhook.delivery.failed''))))"

text \<open>What the world answers about one delivery: the outcome, the milliseconds it took, the clock when
  the outcome is written, and the identifiers a failure event would take.\<close>

record job_answer =
  ja_outcome :: delivery_outcome
  ja_elapsed :: nat
  ja_now :: instant
  ja_event_id :: int
  ja_delivery_ids :: "nat \<Rightarrow> uuid"

definition deliver_one ::
  "'n bus_env \<Rightarrow> job_answer \<Rightarrow> 'n delivery_job \<Rightarrow> delivery_tick \<Rightarrow> 'n bus_db \<Rightarrow> delivery_tick \<times> 'n bus_db" where
  "deliver_one env a job r db =
     (let duration = elapsed_millis (ja_elapsed a) in
      case ja_outcome a of
        Delivered status \<Rightarrow>
          (r\<lparr>dt_delivered := dt_delivered r + 1\<rparr>, mark_delivered (ja_now a) (dj_delivery_id job) (Some status) duration db)
      | DeliveryFailed status text \<Rightarrow>
          (let message = trim_message (be_ellipsis env) text MAX_ERROR_CHARS in
           if dj_attempts job < dj_max_attempts job
           then (r\<lparr>dt_retried := dt_retried r + 1\<rparr>,
                 mark_retry (dj_delivery_id job) status message
                   (ja_now a + delivery_retry_delay (dj_attempts job) (dr_retry_base (be_config env)) (dr_retry_max (be_config env)))
                   duration db)
           else (r\<lparr>dt_failed := dt_failed r + 1\<rparr>,
                 snd (emit (ja_now a) (mark_failed (dj_delivery_id job) status message duration db)
                        (ja_event_id a) (ja_delivery_ids a) (failure_event env job status message)))))"

fun deliver_all ::
  "'n bus_env \<Rightarrow> ('n delivery_job \<Rightarrow> job_answer) \<Rightarrow> 'n delivery_job list \<Rightarrow> delivery_tick \<times> 'n bus_db \<Rightarrow> delivery_tick \<times> 'n bus_db" where
  "deliver_all env answer [] s = s"
| "deliver_all env answer (job # jobs) s = deliver_all env answer jobs (deliver_one env (answer job) job (fst s) (snd s))"

text \<open>The two statements at the head of a tick read the clock for themselves.\<close>

definition run_due ::
  "'n bus_env \<Rightarrow> instant \<Rightarrow> instant \<Rightarrow> ('n delivery_job \<Rightarrow> job_answer) \<Rightarrow> 'n bus_db \<Rightarrow> delivery_tick \<times> 'n bus_db" where
  "run_due env now1 now2 answer db =
     (let lease = int (dr_lease_seconds (be_config env)) in
      case cancel_pending_for_disabled now1 db lease of
        (cancelled, db1) \<Rightarrow>
          (case claim_due now2 db1 (nat (dr_batch (be_config env))) lease of
             (jobs, db2) \<Rightarrow>
               deliver_all env answer jobs (idle_tick\<lparr>dt_cancelled := cancelled, dt_claimed := length jobs\<rparr>, db2)))"

end
