(* ===== verification/EventLaws.thy ===== *)
theory EventLaws
  imports EventRunner
begin

text \<open>
  The bus as a machine: every transaction that writes its tables is a move, and the tables' own
  constraints, with the tenant of every fan-out, are an invariant of the paths.
\<close>

subsection \<open>The invariant\<close>

definition delivery_pair :: "delivery \<Rightarrow> uuid \<times> int" where
  "delivery_pair d = (dl_endpoint_id d, dl_event_id d)"

definition same_tenant :: "webhook_endpoint \<Rightarrow> 'n bus_event \<Rightarrow> delivery \<Rightarrow> bool" where
  "same_tenant w e d \<longleftrightarrow> (dl_trigger d = ''event'' \<longrightarrow> ev_organization_id e = Some (we_organization_id w))"

definition linked :: "webhook_endpoint list \<Rightarrow> 'n bus_event list \<Rightarrow> delivery \<Rightarrow> bool" where
  "linked ws es d \<longleftrightarrow>
     (\<exists>w \<in> set ws. we_id w = dl_endpoint_id d \<and> (\<exists>e \<in> set es. ev_id e = dl_event_id d \<and> same_tenant w e d))"

definition events_ok :: "'n bus_event list \<Rightarrow> bool" where
  "events_ok es \<longleftrightarrow> distinct (map ev_id es) \<and> (\<forall>e \<in> set es. event_name_allowed (ev_name e))"

definition endpoints_ok :: "webhook_endpoint list \<Rightarrow> bool" where
  "endpoints_ok ws \<longleftrightarrow> distinct (map we_id ws) \<and> distinct (map endpoint_key ws) \<and> (\<forall>w \<in> set ws. endpoint_allowed w)"

definition deliveries_ok :: "delivery list \<Rightarrow> bool" where
  "deliveries_ok ds \<longleftrightarrow> distinct (map dl_id ds) \<and> distinct (map delivery_pair ds) \<and> (\<forall>d \<in> set ds. delivery_allowed d)"

definition bus_ok :: "'n bus_db \<Rightarrow> bool" where
  "bus_ok db \<longleftrightarrow> events_ok (bd_events db) \<and> endpoints_ok (bd_endpoints db) \<and> deliveries_ok (bd_deliveries db) \<and>
     (\<forall>d \<in> set (bd_deliveries db). linked (bd_endpoints db) (bd_events db) d)"

lemma empty_bus_ok: "bd_events db = [] \<Longrightarrow> bd_endpoints db = [] \<Longrightarrow> bd_deliveries db = [] \<Longrightarrow> bus_ok db"
  by (simp add: bus_ok_def events_ok_def endpoints_ok_def deliveries_ok_def)

lemma linked_mono: "linked ws es d \<Longrightarrow> set ws \<subseteq> set ws' \<Longrightarrow> set es \<subseteq> set es' \<Longrightarrow> linked ws' es' d"
  unfolding linked_def by blast

lemma filtered_map_distinct: "distinct (map f xs) \<Longrightarrow> distinct (map f (filter P xs))"
  by (rule distinct_map_filter)

lemma filtered_ok:
  "events_ok es \<Longrightarrow> events_ok (filter P es)" "endpoints_ok ws \<Longrightarrow> endpoints_ok (filter Q ws)"
  "deliveries_ok ds \<Longrightarrow> deliveries_ok (filter R ds)"
  by (simp_all add: events_ok_def endpoints_ok_def deliveries_ok_def filtered_map_distinct)

subsection \<open>Changing deliveries in place\<close>

definition same_link :: "delivery \<Rightarrow> delivery \<Rightarrow> bool" where
  "same_link d d' \<longleftrightarrow> dl_id d' = dl_id d \<and> dl_endpoint_id d' = dl_endpoint_id d \<and> dl_event_id d' = dl_event_id d \<and>
     (dl_trigger d' = ''event'' \<longrightarrow> dl_trigger d = ''event'')"

lemma same_link_linked: "same_link d d' \<Longrightarrow> linked ws es d \<Longrightarrow> linked ws es d'"
  unfolding same_link_def linked_def same_tenant_def by force

lemma put_delivery_fields [simp]:
  "bd_events (put_delivery P g db) = bd_events db" "bd_endpoints (put_delivery P g db) = bd_endpoints db"
  "bd_organizations (put_delivery P g db) = bd_organizations db" "bd_runs (put_delivery P g db) = bd_runs db"
  "bd_deliveries (put_delivery P g db) = map (\<lambda>d. if P d then g d else d) (bd_deliveries db)"
  by (simp_all add: put_delivery_def)

lemma put_delivery_ok:
  assumes "bus_ok db" "\<forall>d \<in> set (bd_deliveries db). P d \<longrightarrow> same_link d (g d) \<and> (delivery_allowed d \<longrightarrow> delivery_allowed (g d))"
  shows "bus_ok (put_delivery P g db)"
proof -
  let ?h = "\<lambda>d. if P d then g d else d"
  have keys: "map dl_id (map ?h (bd_deliveries db)) = map dl_id (bd_deliveries db)"
    "map delivery_pair (map ?h (bd_deliveries db)) = map delivery_pair (bd_deliveries db)"
    using assms(2) by (auto simp: same_link_def delivery_pair_def)
  have "deliveries_ok (map ?h (bd_deliveries db))"
    using assms unfolding deliveries_ok_def keys bus_ok_def by auto
  moreover have "\<forall>d \<in> set (map ?h (bd_deliveries db)). linked (bd_endpoints db) (bd_events db) d"
    using assms by (auto simp: bus_ok_def intro: same_link_linked)
  ultimately show ?thesis using assms(1) unfolding bus_ok_def put_delivery_fields by blast
qed

lemma delivery_parse_known [simp]: "delivery_parse (delivery_str s) \<noteq> None"
  by simp

lemma elapsed_nonneg: "elapsed_millis n = Some m \<Longrightarrow> 0 \<le> m"
  by (auto simp: elapsed_millis_def Let_def split: if_splits)

definition good_duration :: "int option \<Rightarrow> bool" where
  "good_duration x \<longleftrightarrow> (case x of None \<Rightarrow> True | Some n \<Rightarrow> 0 \<le> n)"

lemma elapsed_good [simp]: "good_duration (elapsed_millis n)"
  by (simp add: good_duration_def elapsed_nonneg split: option.split)

lemma mark_ok:
  assumes "bus_ok db" "good_duration t"
  shows "bus_ok (mark_delivered now i status t db)" "bus_ok (mark_retry i status message at t db)" "bus_ok (mark_failed i status message t db)"
  using assms unfolding mark_delivered_def mark_retry_def mark_failed_def
  by (auto intro!: put_delivery_ok simp: same_link_def delivery_allowed_def good_duration_def)

lemma redeliver_ok: "bus_ok db \<Longrightarrow> bus_ok (snd (redeliver now db w i))"
  unfolding redeliver_def
  by (auto split: option.splits intro!: put_delivery_ok simp: same_link_def replayed_def delivery_allowed_def replayable_def MAX_REDELIVERIES_def)

lemma cancel_ok: "bus_ok db \<Longrightarrow> bus_ok (snd (cancel_pending_for_disabled now db lease))"
  unfolding cancel_pending_for_disabled_def
  by (auto intro!: put_delivery_ok simp: same_link_def cancelled_delivery_def delivery_allowed_def)

lemma claim_state: "snd (claim_due now db batch lease) =
  put_delivery (\<lambda>d. dl_id d \<in> set (map dl_id (due_deliveries now db batch lease))) (claimed_row now) db"
  by (simp add: claim_due_def Let_def)

lemma claim_due_ok: "bus_ok db \<Longrightarrow> bus_ok (snd (claim_due now db batch lease))"
  unfolding claim_state by (auto intro!: put_delivery_ok simp: same_link_def claimed_row_def delivery_allowed_def)

subsection \<open>Recording and fanning out\<close>

definition fresh_deliveries :: "'n bus_db \<Rightarrow> (nat \<Rightarrow> uuid) \<Rightarrow> bool" where
  "fresh_deliveries db ids \<longleftrightarrow> inj ids \<and> range ids \<inter> set (map dl_id (bd_deliveries db)) = {}"

definition fresh_event :: "'n bus_db \<Rightarrow> int \<Rightarrow> bool" where
  "fresh_event db i \<longleftrightarrow> i \<notin> set (map ev_id (bd_events db))"

definition chosen_endpoints :: "'n bus_event \<Rightarrow> (webhook_endpoint \<Rightarrow> bool) \<Rightarrow> 'n bus_db \<Rightarrow> webhook_endpoint list" where
  "chosen_endpoints event chosen db =
     filter (\<lambda>w. chosen w \<and> (we_id w, ev_id event) \<notin> set (map delivery_pair (bd_deliveries db))) (bd_endpoints db)"

definition new_rows :: "instant \<Rightarrow> string \<Rightarrow> (nat \<Rightarrow> uuid) \<Rightarrow> 'n bus_event \<Rightarrow> webhook_endpoint list \<Rightarrow> delivery list" where
  "new_rows now trigger ids event ws = map (\<lambda>(k, w). new_delivery now trigger (ev_id event) (ids k) (we_id w)) (enumerate 0 ws)"

lemma enqueue_rows: "enqueue now trigger ids event chosen db =
  (length (chosen_endpoints event chosen db), db\<lparr>bd_deliveries := bd_deliveries db @ new_rows now trigger ids event (chosen_endpoints event chosen db)\<rparr>)"
  by (simp add: enqueue_def chosen_endpoints_def new_rows_def delivery_pair_def[abs_def] Let_def)

lemma new_delivery_simps [simp]:
  "dl_id (new_delivery now trigger e i w) = i" "dl_endpoint_id (new_delivery now trigger e i w) = w"
  "dl_event_id (new_delivery now trigger e i w) = e" "dl_trigger (new_delivery now trigger e i w) = trigger"
  "dl_status (new_delivery now trigger e i w) = delivery_str DlPending" "dl_claimed_at (new_delivery now trigger e i w) = None"
  "dl_redeliver_count (new_delivery now trigger e i w) = 0"
  "delivery_pair (new_delivery now trigger e i w) = (w, e)"
  by (simp_all add: new_delivery_def delivery_pair_def)

lemma new_delivery_allowed: "trigger \<in> {''event'', ''test'', ''replay''} \<Longrightarrow> delivery_allowed (new_delivery now trigger e i w)"
  by (simp add: new_delivery_def delivery_allowed_def DEFAULT_MAX_ATTEMPTS_def)

lemma new_rows_keys:
  "map dl_id (new_rows now trigger ids event ws) = map ids [0..<length ws]"
  "map delivery_pair (new_rows now trigger ids event ws) = map (\<lambda>w. (we_id w, ev_id event)) ws"
proof -
  have "map dl_id (new_rows now trigger ids event ws) = map ids (map fst (enumerate 0 ws))"
    by (simp add: new_rows_def split_def del: map_fst_enumerate)
  then show "map dl_id (new_rows now trigger ids event ws) = map ids [0..<length ws]" by simp
  have "map delivery_pair (new_rows now trigger ids event ws) = map (\<lambda>w. (we_id w, ev_id event)) (map snd (enumerate 0 ws))"
    by (simp add: new_rows_def split_def del: map_snd_enumerate)
  then show "map delivery_pair (new_rows now trigger ids event ws) = map (\<lambda>w. (we_id w, ev_id event)) ws" by simp
qed

lemma new_rows_mem: "d \<in> set (new_rows now trigger ids event ws) \<Longrightarrow>
  \<exists>k w. w \<in> set ws \<and> d = new_delivery now trigger (ev_id event) (ids k) (we_id w)"
proof -
  assume "d \<in> set (new_rows now trigger ids event ws)"
  then obtain k w where kw: "(k, w) \<in> set (enumerate 0 ws)" and d: "d = new_delivery now trigger (ev_id event) (ids k) (we_id w)"
    by (auto simp: new_rows_def)
  have "w \<in> set (map snd (enumerate 0 ws))" using kw by (force simp del: map_snd_enumerate)
  then show ?thesis using d by auto
qed

lemma targets_distinct: "endpoints_ok (bd_endpoints db) \<Longrightarrow> distinct (map (\<lambda>w. (we_id w, ev_id event)) (chosen_endpoints event chosen db))"
proof -
  assume ok: "endpoints_ok (bd_endpoints db)"
  have "distinct (map we_id (chosen_endpoints event chosen db))"
    unfolding chosen_endpoints_def using ok by (simp add: endpoints_ok_def filtered_map_distinct)
  then show ?thesis by (auto simp: distinct_map inj_on_def)
qed

lemma new_rows_ok:
  assumes "endpoints_ok (bd_endpoints db)" "deliveries_ok (bd_deliveries db)" "fresh_deliveries db ids" "trigger \<in> {''event'', ''test'', ''replay''}"
  shows "deliveries_ok (bd_deliveries db @ new_rows now trigger ids event (chosen_endpoints event chosen db))"
proof -
  let ?ws = "chosen_endpoints event chosen db" and ?rows = "new_rows now trigger ids event (chosen_endpoints event chosen db)"
  have "distinct (map dl_id ?rows)"
    unfolding new_rows_keys using assms(3) by (auto simp: fresh_deliveries_def distinct_map intro: inj_on_subset)
  moreover have "set (map dl_id (bd_deliveries db)) \<inter> set (map dl_id ?rows) = {}"
    unfolding new_rows_keys using assms(3) by (auto simp: fresh_deliveries_def)
  moreover have "distinct (map delivery_pair ?rows)"
    unfolding new_rows_keys by (rule targets_distinct[OF assms(1)])
  moreover have "set (map delivery_pair (bd_deliveries db)) \<inter> set (map delivery_pair ?rows) = {}"
    unfolding new_rows_keys by (auto simp: chosen_endpoints_def)
  moreover have "\<forall>d \<in> set ?rows. delivery_allowed d"
    using new_rows_mem[of _ now trigger ids event ?ws] new_delivery_allowed[OF assms(4)] by blast
  ultimately show ?thesis using assms(2) by (auto simp: deliveries_ok_def simp del: map_map)
qed

lemma enqueue_ok:
  assumes "bus_ok db" "fresh_deliveries db ids" "trigger \<in> {''event'', ''test'', ''replay''}" "event \<in> set (bd_events db)"
    "\<forall>w. chosen w \<longrightarrow> trigger = ''event'' \<longrightarrow> ev_organization_id event = Some (we_organization_id w)"
  shows "bus_ok (snd (enqueue now trigger ids event chosen db))"
proof -
  let ?rows = "new_rows now trigger ids event (chosen_endpoints event chosen db)"
  have link: "linked (bd_endpoints db) (bd_events db) d" if row: "d \<in> set ?rows" for d
  proof -
    obtain k w where w: "w \<in> set (chosen_endpoints event chosen db)" and d: "d = new_delivery now trigger (ev_id event) (ids k) (we_id w)"
      using new_rows_mem[OF row] by blast
    then have "w \<in> set (bd_endpoints db)" "same_tenant w event d"
      using assms(5) by (auto simp: chosen_endpoints_def same_tenant_def)
    then show ?thesis using assms(4) d unfolding linked_def by force
  qed
  have parts: "events_ok (bd_events db)" "endpoints_ok (bd_endpoints db)" "deliveries_ok (bd_deliveries db)"
    "\<forall>d \<in> set (bd_deliveries db). linked (bd_endpoints db) (bd_events db) d"
    using assms(1) unfolding bus_ok_def by blast+
  have "deliveries_ok (bd_deliveries db @ ?rows)"
    by (rule new_rows_ok[OF parts(2,3) assms(2,3)])
  then show ?thesis unfolding enqueue_rows bus_ok_def using parts link by auto
qed

lemma insert_event_cases:
  assumes "insert_event now db i new = (r, db')"
  obtains (kept) "r = Inl EvStore" "db' = db"
  | (inserted) "r = Inr (event_row_of now i new)" "event_name_allowed (ne_name new)"
      "db' = db\<lparr>bd_events := bd_events db @ [event_row_of now i new]\<rparr>"
  using assms unfolding insert_event_def by (simp split: if_splits)

lemma inserted_event_ok:
  assumes "bus_ok db" "fresh_event db i" "event_name_allowed (ne_name new)"
  shows "bus_ok (db\<lparr>bd_events := bd_events db @ [event_row_of now i new]\<rparr>)"
proof -
  have "events_ok (bd_events db @ [event_row_of now i new])"
    using assms by (auto simp: bus_ok_def events_ok_def fresh_event_def event_row_of_def)
  then show ?thesis using assms(1) linked_mono[of "bd_endpoints db" "bd_events db" _ "bd_endpoints db" "bd_events db @ [event_row_of now i new]"]
    unfolding bus_ok_def by auto
qed

text \<open>What an emission leaves: a refusal leaves the tables alone, an acceptance adds the event and the rows
  of its deliveries.\<close>

definition recorded :: "instant \<Rightarrow> int \<Rightarrow> 'n new_event \<Rightarrow> 'n bus_db \<Rightarrow> 'n bus_db" where
  "recorded now i new db = db\<lparr>bd_events := bd_events db @ [event_row_of now i new]\<rparr>"

lemma recorded_fields [simp]:
  "bd_events (recorded now i new db) = bd_events db @ [event_row_of now i new]" "bd_endpoints (recorded now i new db) = bd_endpoints db"
  "bd_deliveries (recorded now i new db) = bd_deliveries db" "bd_organizations (recorded now i new db) = bd_organizations db"
  "fresh_deliveries (recorded now i new db) ids = fresh_deliveries db ids"
  "chosen_endpoints event chosen (recorded now i new db) = chosen_endpoints event chosen db"
  by (simp_all add: recorded_def fresh_deliveries_def chosen_endpoints_def)

lemma emit_cases:
  assumes "emit now db i ids new = (r, db')"
  obtains (refused) e where "r = Inl e" "db' = db"
  | (quiet) new' where "prepare_event new = Inr new'" "event_name_allowed (ne_name new')" "ne_organization_id new' = None"
      "r = Inr \<lparr>er_event = event_row_of now i new', er_deliveries = 0\<rparr>" "db' = recorded now i new' db"
  | (fanned) new' org where "prepare_event new = Inr new'" "event_name_allowed (ne_name new')" "ne_organization_id new' = Some org"
      "(er_deliveries (projr r), db') = enqueue now ''event'' ids (event_row_of now i new') (fanout_target (event_row_of now i new') org) (recorded now i new' db)"
      "r = Inr \<lparr>er_event = event_row_of now i new', er_deliveries = er_deliveries (projr r)\<rparr>"
proof (cases "prepare_event new")
  case (Inl e)
  then show ?thesis using assms refused[of e] by (simp add: emit_def)
next
  case prep: (Inr new')
  obtain r1 db1 where ins: "insert_event now db i new' = (r1, db1)" by (cases "insert_event now db i new'")
  show ?thesis using ins
  proof (cases rule: insert_event_cases)
    case kept
    then show ?thesis using assms prep ins refused[of EvStore] kept by (simp add: emit_def)
  next
    case inserted
    have db1: "db1 = recorded now i new' db" using inserted(3) by (simp add: recorded_def)
    have org: "ev_organization_id (event_row_of now i new') = ne_organization_id new'" by (simp add: event_row_of_def)
    obtain n db2 where en: "enqueue_fanout now ids (event_row_of now i new') db1 = (n, db2)"
      by (cases "enqueue_fanout now ids (event_row_of now i new') db1")
    have out: "r = Inr \<lparr>er_event = event_row_of now i new', er_deliveries = n\<rparr>" "db' = db2"
      using assms prep ins inserted(1) en by (simp_all add: emit_def)
    show ?thesis
    proof (cases "ne_organization_id new'")
      case None
      then show ?thesis using quiet[OF prep inserted(2)] out en db1 by (simp add: enqueue_fanout_def org)
    next
      case (Some x)
      then show ?thesis using fanned[OF prep inserted(2), of x] out en db1 by (simp add: enqueue_fanout_def org)
    qed
  qed
qed

lemma event_row_simps [simp]:
  "ev_id (event_row_of now i new) = i" "ev_name (event_row_of now i new) = ne_name new"
  "ev_organization_id (event_row_of now i new) = ne_organization_id new" "ev_created_at (event_row_of now i new) = now"
  by (simp_all add: event_row_of_def)

lemma recorded_ok: "bus_ok db \<Longrightarrow> fresh_event db i \<Longrightarrow> event_name_allowed (ne_name new) \<Longrightarrow> bus_ok (recorded now i new db)"
  unfolding recorded_def by (rule inserted_event_ok)

lemma emit_ok:
  assumes "bus_ok db" "fresh_event db i" "fresh_deliveries db ids"
  shows "bus_ok (snd (emit now db i ids new))"
proof -
  obtain r db' where e: "emit now db i ids new = (r, db')" by (cases "emit now db i ids new")
  from e have "bus_ok db'"
  proof (cases rule: emit_cases)
    case (refused x)
    then show ?thesis using assms(1) by simp
  next
    case (quiet new')
    show ?thesis unfolding quiet(5) by (rule recorded_ok[OF assms(1,2) quiet(2)])
  next
    case (fanned new' org)
    have "bus_ok (snd (enqueue now ''event'' ids (event_row_of now i new') (fanout_target (event_row_of now i new') org) (recorded now i new' db)))"
      by (rule enqueue_ok[OF recorded_ok[OF assms(1,2) fanned(2)]]) (use assms(3) fanned(3) in \<open>simp_all add: fanout_target_def\<close>)
    then show ?thesis unfolding fanned(4)[symmetric] by simp
  qed
  then show ?thesis using e by simp
qed

lemma emit_to_ok:
  assumes "bus_ok db" "fresh_event db i" "fresh_deliveries db ids"
  shows "bus_ok (snd (emit_to now db i ids new ws))"
proof (cases "prepare_event new")
  case (Inr new')
  obtain r1 db1 where ins: "insert_event now db i new' = (r1, db1)" by (cases "insert_event now db i new'")
  show ?thesis using ins
  proof (cases rule: insert_event_cases)
    case kept
    then show ?thesis using assms(1) Inr ins kept by (simp add: emit_to_def)
  next
    case inserted
    have db1: "db1 = recorded now i new' db" using inserted(3) by (simp add: recorded_def)
    have "bus_ok db1" unfolding db1 by (rule recorded_ok[OF assms(1,2) inserted(2)])
    moreover have "bus_ok (snd (enqueue now ''test'' ids (event_row_of now i new') (\<lambda>w. we_id w \<in> set ws) db1))"
      by (rule enqueue_ok[OF calculation]) (use assms(3) db1 in simp_all)
    ultimately show ?thesis using Inr ins inserted(1)
      by (auto simp: emit_to_def enqueue_for_endpoints_def split: prod.split)
  qed
qed (use assms(1) in \<open>simp add: emit_to_def\<close>)

subsection \<open>Endpoints and sweeps\<close>

lemma insert_endpoint_cases:
  assumes "insert_endpoint now db i new = (r, db')"
  obtains (kept) "db' = db"
  | (inserted) "r = Inr (endpoint_of now i new)" "endpoint_allowed (endpoint_of now i new)"
      "endpoint_key (endpoint_of now i new) \<notin> set (map endpoint_key (bd_endpoints db))"
      "db' = db\<lparr>bd_endpoints := bd_endpoints db @ [endpoint_of now i new]\<rparr>"
proof (cases "endpoint_allowed (endpoint_of now i new) \<and> endpoint_key (endpoint_of now i new) \<notin> set (map endpoint_key (bd_endpoints db)) \<and>
    we_organization_id (endpoint_of now i new) \<in> set (map fst (bd_organizations db))")
  case True
  then show ?thesis using assms inserted by (auto simp: insert_endpoint_def Let_def)
next
  case False
  then have "db' = db" using assms unfolding insert_endpoint_def Let_def by (auto split: if_split_asm)
  then show ?thesis by (rule kept)
qed

lemma insert_endpoint_ok:
  assumes "bus_ok db" "i \<notin> set (map we_id (bd_endpoints db))"
  shows "bus_ok (snd (insert_endpoint now db i new))"
proof -
  obtain r db' where ins: "insert_endpoint now db i new = (r, db')" by (cases "insert_endpoint now db i new")
  from ins have "bus_ok db'"
  proof (cases rule: insert_endpoint_cases)
    case kept
    then show ?thesis using assms(1) by simp
  next
    case inserted
    have "endpoints_ok (bd_endpoints db @ [endpoint_of now i new])"
      using assms inserted(2,3) by (auto simp: bus_ok_def endpoints_ok_def endpoint_of_def simp del: map_map)
    moreover have "\<forall>d \<in> set (bd_deliveries db). linked (bd_endpoints db @ [endpoint_of now i new]) (bd_events db) d"
      using assms(1) linked_mono[of "bd_endpoints db" "bd_events db" _ "bd_endpoints db @ [endpoint_of now i new]" "bd_events db"]
      unfolding bus_ok_def by auto
    ultimately show ?thesis using assms(1) unfolding inserted(4) bus_ok_def by simp
  qed
  then show ?thesis using ins by simp
qed

lemma find_endpoint_Some: "find_endpoint db i = Some w \<Longrightarrow> w \<in> set (bd_endpoints db) \<and> we_id w = i"
  unfolding find_endpoint_def by (auto simp: find_Some_iff)

lemma changed_endpoint_keeps [simp]:
  "we_id (changed_endpoint now c w) = we_id w" "we_organization_id (changed_endpoint now c w) = we_organization_id w"
  by (simp_all add: changed_endpoint_def)

lemma update_endpoint_cases:
  assumes "update_endpoint now db i c = (r, db')"
  obtains (kept) "db' = db"
  | (changed) w where "find_endpoint db i = Some w" "r = Inr (Some (changed_endpoint now c w))" "endpoint_allowed (changed_endpoint now c w)"
      "endpoint_key (changed_endpoint now c w) \<notin> set (map endpoint_key (filter (\<lambda>x. we_id x \<noteq> i) (bd_endpoints db)))"
      "db' = db\<lparr>bd_endpoints := map (\<lambda>x. if we_id x = i then changed_endpoint now c w else x) (bd_endpoints db)\<rparr>"
proof (cases "find_endpoint db i")
  case None
  then show ?thesis using assms kept by (simp add: update_endpoint_def)
next
  case (Some w)
  show ?thesis
  proof (cases "endpoint_allowed (changed_endpoint now c w) \<and>
      endpoint_key (changed_endpoint now c w) \<notin> set (map endpoint_key (filter (\<lambda>x. we_id x \<noteq> i) (bd_endpoints db)))")
    case True
    then show ?thesis using assms Some changed[OF Some] by (auto simp: update_endpoint_def Let_def)
  next
    case False
    then have "db' = db" using assms Some unfolding update_endpoint_def Let_def by (auto split: if_split_asm)
    then show ?thesis by (rule kept)
  qed
qed

lemma distinct_replaced:
  assumes "distinct (map k (filter (\<lambda>x. we_id x \<noteq> i) ws))" "k w' \<notin> set (map k (filter (\<lambda>x. we_id x \<noteq> i) ws))" "distinct (map we_id ws)"
  shows "distinct (map k (map (\<lambda>x. if we_id x = i then w' else x) ws))"
  using assms
proof (induction ws)
  case (Cons x ws)
  show ?case
  proof (cases "we_id x = i")
    case True
    then have others: "we_id y \<noteq> i" if "y \<in> set ws" for y using that Cons.prems(3) \<open>we_id x = i\<close> by (auto simp: image_iff)
    then have "filter (\<lambda>y. we_id y \<noteq> i) ws = ws" "map (\<lambda>y. if we_id y = i then w' else y) ws = ws"
      by (simp_all add: filter_id_conv map_idI)
    then show ?thesis using True Cons.prems by simp
  next
    case False
    then have new: "k x \<noteq> k w'" "k x \<notin> k ` {y \<in> set ws. we_id y \<noteq> i}" using Cons.prems by auto
    have "set (map k (map (\<lambda>y. if we_id y = i then w' else y) ws)) \<subseteq> insert (k w') (k ` {y \<in> set ws. we_id y \<noteq> i})" by auto
    then have "k x \<notin> set (map k (map (\<lambda>y. if we_id y = i then w' else y) ws))" using new by blast
    then show ?thesis using False Cons by simp
  qed
qed simp

lemma update_endpoint_ok:
  assumes "bus_ok db"
  shows "bus_ok (snd (update_endpoint now db i c))"
proof -
  obtain r db' where upd: "update_endpoint now db i c = (r, db')" by (cases "update_endpoint now db i c")
  from upd have "bus_ok db'"
  proof (cases rule: update_endpoint_cases)
    case kept
    then show ?thesis using assms by simp
  next
    case (changed w)
    let ?w' = "changed_endpoint now c w" and ?f = "\<lambda>x. if we_id x = i then changed_endpoint now c w else x"
    have w: "w \<in> set (bd_endpoints db)" "we_id w = i" using find_endpoint_Some[OF changed(1)] by auto
    have ok: "endpoints_ok (bd_endpoints db)" and links: "\<forall>d \<in> set (bd_deliveries db). linked (bd_endpoints db) (bd_events db) d"
      using assms by (auto simp: bus_ok_def)
    have ids: "map we_id (map ?f (bd_endpoints db)) = map we_id (bd_endpoints db)" using w by auto
    have "distinct (map endpoint_key (map ?f (bd_endpoints db)))"
      by (rule distinct_replaced) (use ok changed(4) in \<open>simp_all add: endpoints_ok_def filtered_map_distinct\<close>)
    moreover have "\<forall>x \<in> set (map ?f (bd_endpoints db)). endpoint_allowed x" using ok changed(3) by (auto simp: endpoints_ok_def)
    ultimately have "endpoints_ok (map ?f (bd_endpoints db))" using ok unfolding endpoints_ok_def ids by blast
    moreover have "linked (map ?f (bd_endpoints db)) (bd_events db) d" if "linked (bd_endpoints db) (bd_events db) d" for d
    proof -
      obtain x e where x: "x \<in> set (bd_endpoints db)" "we_id x = dl_endpoint_id d"
        and e: "e \<in> set (bd_events db)" "ev_id e = dl_event_id d" "same_tenant x e d"
        using \<open>linked (bd_endpoints db) (bd_events db) d\<close> unfolding linked_def by blast
      have "we_id x = i \<Longrightarrow> x = w" using ok x(1) w by (auto simp: endpoints_ok_def distinct_map dest: inj_onD)
      then have "?f x \<in> set (map ?f (bd_endpoints db))" "we_id (?f x) = dl_endpoint_id d" "same_tenant (?f x) e d"
        using x e by (auto simp: same_tenant_def)
      then show ?thesis using e unfolding linked_def by blast
    qed
    ultimately show ?thesis using assms links unfolding changed(5) bus_ok_def by simp
  qed
  then show ?thesis using upd by simp
qed

lemma delete_endpoint_ok:
  assumes "bus_ok db"
  shows "bus_ok (snd (delete_endpoint db i))"
proof -
  have "linked (filter (\<lambda>w. we_id w \<noteq> i) (bd_endpoints db)) (bd_events db) d"
    if "linked (bd_endpoints db) (bd_events db) d" "dl_endpoint_id d \<noteq> i" for d
    using that unfolding linked_def by auto
  then show ?thesis using assms by (auto simp: bus_ok_def delete_endpoint_def filtered_ok)
qed

lemma sweep_state:
  "bd_events (snd (sweep_events now db run org d)) = filter (\<lambda>e. \<not> swept db org (now - days d) e) (bd_events db)"
  "bd_deliveries (snd (sweep_events now db run org d)) =
     filter (\<lambda>x. dl_event_id x \<notin> set (map ev_id (filter (swept db org (now - days d)) (bd_events db)))) (bd_deliveries db)"
  "bd_endpoints (snd (sweep_events now db run org d)) = bd_endpoints db"
  "bd_organizations (snd (sweep_events now db run org d)) = bd_organizations db"
  by (simp_all add: sweep_events_def Let_def)

lemma sweep_ok:
  assumes "bus_ok db"
  shows "bus_ok (snd (sweep_events now db run org d))"
proof -
  let ?gone = "swept db org (now - days d)"
  have "linked (bd_endpoints db) (filter (\<lambda>e. \<not> ?gone e) (bd_events db)) x"
    if link: "linked (bd_endpoints db) (bd_events db) x" and kept: "dl_event_id x \<notin> set (map ev_id (filter ?gone (bd_events db)))" for x
  proof -
    obtain w e where we: "w \<in> set (bd_endpoints db)" "we_id w = dl_endpoint_id x" "e \<in> set (bd_events db)" "ev_id e = dl_event_id x" "same_tenant w e x"
      using link unfolding linked_def by blast
    then have "\<not> ?gone e" using kept by force
    then show ?thesis using we unfolding linked_def by auto
  qed
  then show ?thesis using assms unfolding bus_ok_def sweep_state by (simp add: filtered_ok)
qed

lemma set_window_tables: "bd_events (snd (set_retention_window db org d)) = bd_events db"
  "bd_endpoints (snd (set_retention_window db org d)) = bd_endpoints db" "bd_deliveries (snd (set_retention_window db org d)) = bd_deliveries db"
  by (simp_all add: set_retention_window_def)

subsection \<open>Moves\<close>

datatype bus_move =
    BmRecord "nat \<Rightarrow> uuid"
  | BmClaim instant int "uuid list"
  | BmSettle uuid "nat \<Rightarrow> uuid"
  | BmRedeliver uuid
  | BmOther

text \<open>Every transaction that writes the tables. The identifiers the database generates are fresh; a job
  is settled with whatever attempts and names it was claimed with, even if its row has changed since.\<close>

inductive bus_step :: "'n bus_env \<Rightarrow> bus_move \<Rightarrow> 'n bus_db \<Rightarrow> 'n bus_db \<Rightarrow> bool" for env where
  bs_emit: "fresh_event db i \<Longrightarrow> fresh_deliveries db ids \<Longrightarrow> bus_step env (BmRecord ids) db (snd (emit now db i ids new))"
| bs_emit_to: "fresh_event db i \<Longrightarrow> fresh_deliveries db ids \<Longrightarrow> bus_step env (BmRecord ids) db (snd (emit_to now db i ids new ws))"
| bs_claim: "claim_due now db batch lease = (jobs, db') \<Longrightarrow>
     bus_step env (BmClaim now lease (map dl_id (due_deliveries now db batch lease))) db db'"
| bs_settle: "fresh_event db (ja_event_id a) \<Longrightarrow> fresh_deliveries db (ja_delivery_ids a) \<Longrightarrow>
     bus_step env (BmSettle (dj_delivery_id job) (ja_delivery_ids a)) db (snd (deliver_one env a job r db))"
| bs_redeliver: "redeliver now db w i = (Inr n, db') \<Longrightarrow> bus_step env (BmRedeliver i) db db'"
| bs_cancel: "bus_step env BmOther db (snd (cancel_pending_for_disabled now db lease))"
| bs_insert: "i \<notin> set (map we_id (bd_endpoints db)) \<Longrightarrow> bus_step env BmOther db (snd (insert_endpoint now db i new'))"
| bs_update: "bus_step env BmOther db (snd (update_endpoint now db i c))"
| bs_delete: "bus_step env BmOther db (snd (delete_endpoint db i))"
| bs_window: "bus_step env BmOther db (snd (set_retention_window db org d))"
| bs_sweep: "bus_step env BmOther db (snd (sweep_events now db run org' d))"

inductive_simps bus_step_claim_simps: "bus_step env (BmClaim now lease is) db db'"
inductive_cases bus_step_redeliverE: "bus_step env (BmRedeliver i) db db'"

inductive bus_path :: "'n bus_env \<Rightarrow> bus_move list \<Rightarrow> 'n bus_db \<Rightarrow> 'n bus_db \<Rightarrow> bool" for env where
  bp_here: "bus_path env [] db db"
| bp_move: "bus_step env m db db1 \<Longrightarrow> bus_path env ms db1 db2 \<Longrightarrow> bus_path env (m # ms) db db2"

inductive_cases bus_path_consE: "bus_path env (m # ms) db db'"

lemma bus_path_append: "bus_path env ms db db1 \<Longrightarrow> bus_path env ns db1 db2 \<Longrightarrow> bus_path env (ms @ ns) db db2"
  by (induction rule: bus_path.induct) (auto intro: bus_path.intros)

lemma bus_path_one: "bus_step env m db db1 \<Longrightarrow> bus_path env [m] db db1"
  by (rule bp_move[OF _ bp_here])

lemma mark_fresh [simp]:
  "fresh_event (mark_failed i status message t db) k = fresh_event db k"
  "fresh_deliveries (mark_failed i status message t db) ids = fresh_deliveries db ids"
proof -
  have "map dl_id (bd_deliveries (mark_failed i status message t db)) = map dl_id (bd_deliveries db)"
    by (simp add: mark_failed_def)
  then show "fresh_deliveries (mark_failed i status message t db) ids = fresh_deliveries db ids"
    unfolding fresh_deliveries_def by (simp only:)
qed (simp add: mark_failed_def fresh_event_def)

lemma deliver_one_ok:
  assumes "bus_ok db" "fresh_event db (ja_event_id a)" "fresh_deliveries db (ja_delivery_ids a)"
  shows "bus_ok (snd (deliver_one env a job r db))"
proof (cases "ja_outcome a")
  case (Delivered status)
  then show ?thesis using mark_ok(1)[OF assms(1) elapsed_good] by (simp add: deliver_one_def)
next
  case (DeliveryFailed status reason)
  then show ?thesis
    using mark_ok(2,3)[OF assms(1) elapsed_good] emit_ok[OF mark_ok(3)[OF assms(1) elapsed_good]] assms(2,3)
    by (auto simp: deliver_one_def Let_def)
qed

lemma bus_step_ok: "bus_step env m db db' \<Longrightarrow> bus_ok db \<Longrightarrow> bus_ok db'"
proof (induction rule: bus_step.induct)
  case (bs_claim now db batch lease jobs db')
  then show ?case using claim_due_ok[of db now batch lease] by simp
next
  case (bs_redeliver now db w i n db')
  then show ?case using redeliver_ok[of db now w i] by simp
next
  case (bs_window db org d)
  then show ?case by (simp add: bus_ok_def set_window_tables)
qed (simp_all add: emit_ok emit_to_ok deliver_one_ok cancel_ok insert_endpoint_ok update_endpoint_ok delete_endpoint_ok sweep_ok)

lemma bus_path_ok: "bus_path env ms db db' \<Longrightarrow> bus_ok db \<Longrightarrow> bus_ok db'"
  by (induction rule: bus_path.induct) (simp_all add: bus_step_ok)

subsection \<open>Rows and their history\<close>

definition touches :: "uuid \<Rightarrow> bus_move \<Rightarrow> bool" where
  "touches i m \<longleftrightarrow> (case m of BmRecord ids \<Rightarrow> i \<in> range ids | BmClaim now lease is \<Rightarrow> i \<in> set is
     | BmSettle j ids \<Rightarrow> j = i \<or> i \<in> range ids | BmRedeliver j \<Rightarrow> j = i | BmOther \<Rightarrow> False)"

text \<open>The rows a transaction leaves are rows it found, possibly rewritten by \<open>R\<close>, or new rows of kind \<open>N\<close>.\<close>

definition rows_from :: "(delivery \<Rightarrow> delivery \<Rightarrow> bool) \<Rightarrow> (delivery \<Rightarrow> bool) \<Rightarrow> 'n bus_db \<Rightarrow> 'n bus_db \<Rightarrow> bool" where
  "rows_from R N db db' \<longleftrightarrow> (\<forall>d' \<in> set (bd_deliveries db'). (\<exists>d \<in> set (bd_deliveries db). R d d') \<or> N d')"

definition makes_only :: "(delivery \<Rightarrow> bool) \<Rightarrow> (nat \<Rightarrow> uuid) \<Rightarrow> bool" where
  "makes_only N ids \<longleftrightarrow> (\<forall>now trigger e k w. N (new_delivery now trigger e (ids k) w))"

lemma rows_from_put: "\<forall>d \<in> set (bd_deliveries db). P d \<longrightarrow> R d (g d) \<Longrightarrow> \<forall>d. R d d \<Longrightarrow> rows_from R N db (put_delivery P g db)"
  unfolding rows_from_def by fastforce

lemma rows_from_subset: "set (bd_deliveries db') \<subseteq> set (bd_deliveries db) \<Longrightarrow> \<forall>d. R d d \<Longrightarrow> rows_from R N db db'"
  unfolding rows_from_def by blast

lemma enqueue_rows_from:
  assumes "\<forall>d. R d d" "makes_only N ids" "bd_deliveries db1 = bd_deliveries db"
  shows "rows_from R N db (snd (enqueue now trigger ids event chosen db1))"
  unfolding rows_from_def
proof
  fix d assume "d \<in> set (bd_deliveries (snd (enqueue now trigger ids event chosen db1)))"
  then have "d \<in> set (bd_deliveries db) \<or> d \<in> set (new_rows now trigger ids event (chosen_endpoints event chosen db1))"
    using assms(3) by (simp add: enqueue_rows)
  then show "(\<exists>x \<in> set (bd_deliveries db). R x d) \<or> N d"
    using assms(1,2) new_rows_mem[of d now trigger ids event] unfolding makes_only_def by blast
qed

lemma emit_rows_from:
  assumes "\<forall>d. R d d" "makes_only N ids"
  shows "rows_from R N db (snd (emit now db i ids new))"
proof -
  obtain r db' where e: "emit now db i ids new = (r, db')" by (cases "emit now db i ids new")
  from e have "rows_from R N db db'"
  proof (cases rule: emit_cases)
    case (fanned new' org)
    have "db' = snd (enqueue now ''event'' ids (event_row_of now i new') (fanout_target (event_row_of now i new') org) (recorded now i new' db))"
      unfolding fanned(4)[symmetric] by simp
    then show ?thesis by (simp add: enqueue_rows_from assms)
  qed (simp_all add: rows_from_subset assms)
  then show ?thesis using e by simp
qed

lemma emit_to_rows_from:
  assumes "\<forall>d. R d d" "makes_only N ids"
  shows "rows_from R N db (snd (emit_to now db i ids new ws))"
proof (cases "prepare_event new")
  case (Inr new')
  obtain r1 db1 where ins: "insert_event now db i new' = (r1, db1)" by (cases "insert_event now db i new'")
  show ?thesis using ins
  proof (cases rule: insert_event_cases)
    case kept
    then show ?thesis using Inr ins by (simp add: emit_to_def rows_from_subset assms)
  next
    case inserted
    have "bd_deliveries db1 = bd_deliveries db" using inserted(3) by simp
    then have "rows_from R N db (snd (enqueue now ''test'' ids (event_row_of now i new') (\<lambda>w. we_id w \<in> set ws) db1))"
      "rows_from R N db db1"
      by (simp_all add: enqueue_rows_from assms rows_from_subset)
    then show ?thesis using Inr ins inserted(1)
      by (auto simp: emit_to_def enqueue_for_endpoints_def split: prod.split)
  qed
qed (simp add: emit_to_def rows_from_subset assms)

lemma rows_from_trans:
  assumes "rows_from R N db db1" "rows_from R N db1 db2" "\<forall>a b c. R a b \<longrightarrow> R b c \<longrightarrow> R a c" "\<forall>a b. N a \<longrightarrow> R a b \<longrightarrow> N b"
  shows "rows_from R N db db2"
  using assms unfolding rows_from_def by meson

definition untouched :: "uuid \<Rightarrow> delivery \<Rightarrow> delivery \<Rightarrow> bool" where
  "untouched i d d' \<longleftrightarrow> dl_id d' = dl_id d \<and> (dl_id d = i \<longrightarrow> d' = d \<or> d' = cancelled_delivery d)"

lemma untouched_refl [simp]: "untouched i d d"
  by (simp add: untouched_def)

abbreviation other_row :: "uuid \<Rightarrow> delivery \<Rightarrow> bool" where
  "other_row i d \<equiv> dl_id d \<noteq> i"

lemma untouched_closed:
  "\<forall>a b c. untouched i a b \<longrightarrow> untouched i b c \<longrightarrow> untouched i a c" "\<forall>a b. other_row i a \<longrightarrow> untouched i a b \<longrightarrow> other_row i b"
  by (auto simp: untouched_def cancelled_delivery_def)

lemma makes_only_other: "i \<notin> range ids \<Longrightarrow> makes_only (other_row i) ids"
  by (auto simp: makes_only_def)

lemma mark_untouched:
  assumes "j \<noteq> i"
  shows "rows_from (untouched i) N db (mark_delivered now j status t db)" "rows_from (untouched i) N db (mark_retry j status message at t db)"
    "rows_from (untouched i) N db (mark_failed j status message t db)"
  unfolding mark_delivered_def mark_retry_def mark_failed_def using assms by (auto intro!: rows_from_put simp: untouched_def)

lemma deliver_one_untouched:
  assumes "dj_delivery_id job \<noteq> i" "i \<notin> range (ja_delivery_ids a)"
  shows "rows_from (untouched i) (other_row i) db (snd (deliver_one env a job r db))"
proof (cases "ja_outcome a")
  case (Delivered status)
  then show ?thesis using mark_untouched(1)[OF assms(1)] by (simp add: deliver_one_def)
next
  case (DeliveryFailed status reason)
  let ?db1 = "mark_failed (dj_delivery_id job) status (trim_message (be_ellipsis env) reason MAX_ERROR_CHARS) (elapsed_millis (ja_elapsed a)) db"
  have "rows_from (untouched i) (other_row i) db (snd (emit (ja_now a) ?db1 (ja_event_id a) (ja_delivery_ids a) new))" for new
    by (rule rows_from_trans[OF mark_untouched(3)[OF assms(1)] emit_rows_from[OF _ makes_only_other[OF assms(2)]]])
      (simp_all add: untouched_closed(1), simp add: untouched_def)
  moreover have "rows_from (untouched i) (other_row i) db (mark_retry (dj_delivery_id job) status message at t db)" for message at t
    by (rule mark_untouched(2)[OF assms(1)])
  ultimately show ?thesis using DeliveryFailed by (simp add: deliver_one_def Let_def)
qed

lemma bus_step_untouched: "bus_step env m db db' \<Longrightarrow> \<not> touches i m \<Longrightarrow> rows_from (untouched i) (other_row i) db db'"
proof (induction rule: bus_step.induct)
  case (bs_claim now db batch lease jobs db')
  then have db': "db' = snd (claim_due now db batch lease)" by simp
  show ?case unfolding db' claim_state
    using bs_claim(2) by (auto intro!: rows_from_put simp: untouched_def touches_def claimed_row_def)
next
  case (bs_redeliver now db w j n db')
  then have "db' = put_delivery (replayable w j) (replayed now) db" by (auto simp: redeliver_def split: option.splits)
  then show ?case using bs_redeliver(2) by (auto intro!: rows_from_put simp: untouched_def touches_def replayable_def on_endpoint_def replayed_def)
next
  case (bs_cancel db now lease)
  show ?case unfolding cancel_pending_for_disabled_def by (auto intro!: rows_from_put simp: untouched_def cancelled_delivery_def)
next
  case (bs_insert k db now new')
  have "bd_deliveries (snd (insert_endpoint now db k new')) = bd_deliveries db" by (simp add: insert_endpoint_def Let_def)
  then show ?case by (simp add: rows_from_subset)
next
  case (bs_update db now k c)
  have "bd_deliveries (snd (update_endpoint now db k c)) = bd_deliveries db" by (simp add: update_endpoint_def Let_def split: option.split)
  then show ?case by (simp add: rows_from_subset)
qed (auto simp: touches_def rows_from_subset set_window_tables sweep_state delete_endpoint_def makes_only_other emit_rows_from emit_to_rows_from deliver_one_untouched)

lemma bus_path_untouched: "bus_path env ms db db' \<Longrightarrow> \<not> list_ex (touches i) ms \<Longrightarrow> rows_from (untouched i) (other_row i) db db'"
proof (induction rule: bus_path.induct)
  case (bp_move m db db1 ms db2)
  then have "rows_from (untouched i) (other_row i) db db1" "rows_from (untouched i) (other_row i) db1 db2"
    by (simp_all add: bus_step_untouched)
  then show ?case by (rule rows_from_trans) (rule untouched_closed)+
qed (simp add: rows_from_subset)

end
