(* ===== verification/EventGuarantees.thy ===== *)
theory EventGuarantees
  imports EventLaws
begin

text \<open>
  The properties of the event bus and of its delivery queue, with a sample bus on which they are applied.
\<close>

subsection \<open>A sample bus\<close>

definition sample_bus :: "int bus_db" where
  "sample_bus = \<lparr>bd_organizations = [(1, 30)], bd_events = [], bd_endpoints = [], bd_deliveries = [], bd_runs = []\<rparr>"

definition sample_endpoint :: new_endpoint where
  "sample_endpoint = \<lparr>nw_organization_id = 1, nw_name = ''orders'', nw_url = ''https://a.b/c'', nw_secret = ''0123456789abcdef'',
     nw_events = [''order.*'', ''webhook.delivery.failed''], nw_created_by = None\<rparr>"

definition sample_wired :: "int bus_db" where
  "sample_wired = snd (insert_endpoint 0 sample_bus 5 sample_endpoint)"

definition sample_event :: "int new_event" where
  "sample_event = event_organization (Some 1) (new_event_named '' order.paid '')"

definition sample_queued :: "int bus_db" where
  "sample_queued = snd (emit 0 sample_wired 7 (\<lambda>k. 100 + k) sample_event)"

definition sample_bus_env :: "int bus_env" where
  "sample_bus_env = \<lparr>be_config = default_delivery_runner, be_uuid_json = (\<lambda>u. JString (show_nat u)), be_of_i64 = (\<lambda>n. n), be_ellipsis = ''...''\<rparr>"

definition sample_claimed :: "int bus_db" where
  "sample_claimed = snd (claim_due 0 sample_queued 20 120)"

lemma sample_wired_path: "bus_path sample_bus_env [BmOther] sample_bus sample_wired"
  unfolding sample_wired_def by (rule bus_path_one, rule bs_insert) (simp add: sample_bus_def)

lemma sample_wired_rows: "bd_events sample_wired = []" "bd_deliveries sample_wired = []"
  by code_simp+

lemma sample_queued_path: "bus_path sample_bus_env [BmOther, BmRecord (\<lambda>k. 100 + k)] sample_bus sample_queued"
proof -
  have "bus_step sample_bus_env (BmRecord (\<lambda>k. 100 + k)) sample_wired sample_queued"
    unfolding sample_queued_def by (rule bs_emit) (simp_all add: fresh_event_def fresh_deliveries_def sample_wired_rows)
  then show ?thesis using bus_path_append[OF sample_wired_path bus_path_one] by simp
qed

lemma sample_due: "map dl_id (due_deliveries 0 sample_queued 20 120) = [100]"
  by code_simp

lemma sample_claim_step: "bus_step sample_bus_env (BmClaim 0 120 [100]) sample_queued sample_claimed"
  unfolding sample_due[symmetric] sample_claimed_def by (rule bs_claim[of _ _ _ _ "fst (claim_due 0 sample_queued 20 120)"]) simp

lemma sample_due_again: "map dl_id (due_deliveries (seconds 120) sample_claimed 20 120) = [100]"
  by code_simp

lemma sample_reclaim_step:
  "bus_step sample_bus_env (BmClaim (seconds 120) 120 [100]) sample_claimed (snd (claim_due (seconds 120) sample_claimed 20 120))"
  unfolding sample_due_again[symmetric] by (rule bs_claim[of _ _ _ _ "fst (claim_due (seconds 120) sample_claimed 20 120)"]) simp

lemma sample_bus_empty: "bd_events sample_bus = []" "bd_endpoints sample_bus = []" "bd_deliveries sample_bus = []"
  by (simp_all add: sample_bus_def)

lemma sample_ok: "bus_ok sample_wired" "bus_ok sample_queued"
  using bus_path_ok[OF sample_wired_path] bus_path_ok[OF sample_queued_path] empty_bus_ok[OF sample_bus_empty] by blast+

subsection \<open>Tables\<close>

text \<open>C33. From empty tables, no order of emissions, claims, settlements, replays, cancellations, sweeps and
  changes of endpoints breaks the tables' constraints: keys stay unique, an endpoint has at most one delivery
  of an event, every delivery points at rows that exist and is within its column checks, and a delivery that
  a fan-out queued belongs to an endpoint of the organization the event happened in.\<close>

theorem bus_tables_sound:
  assumes "bus_path env ms db0 db" "bd_events db0 = []" "bd_endpoints db0 = []" "bd_deliveries db0 = []"
  shows "bus_ok db"
  by (rule bus_path_ok[OF assms(1) empty_bus_ok[OF assms(2-4)]])

theorem bus_tables_sound_witness: "bus_ok sample_queued"
  by (rule bus_tables_sound[OF sample_queued_path sample_bus_empty])

subsection \<open>Leases\<close>

lemma claimed_rows:
  assumes "bus_step env (BmClaim now lease claimed) db db'" "i \<in> set claimed"
  shows "\<exists>d \<in> set (bd_deliveries db). dl_id d = i \<and> dl_status d = delivery_str DlPending \<and> lease_free now lease d"
    "\<forall>d \<in> set (bd_deliveries db'). dl_id d = i \<longrightarrow> dl_claimed_at d = Some now"
proof -
  obtain batch jobs where ids: "claimed = map dl_id (due_deliveries now db batch lease)" and "claim_due now db batch lease = (jobs, db')"
    using assms(1) unfolding bus_step_claim_simps by auto
  then have c: "db' = snd (claim_due now db batch lease)" by simp
  obtain d where d: "d \<in> set (due_deliveries now db batch lease)" "dl_id d = i" using assms(2) ids by auto
  have "d \<in> set (bd_deliveries db) \<and> delivery_due now db lease d"
    using set_take_subset d(1) unfolding due_deliveries_def by fastforce
  then show "\<exists>d \<in> set (bd_deliveries db). dl_id d = i \<and> dl_status d = delivery_str DlPending \<and> lease_free now lease d"
    using d(2) by (auto simp: delivery_due_def)
  show "\<forall>d \<in> set (bd_deliveries db'). dl_id d = i \<longrightarrow> dl_claimed_at d = Some now"
    unfolding c claim_state ids[symmetric] using assms(2) by (auto simp: claimed_row_def)
qed

text \<open>C34. A claim of a delivery is exclusive for the length of the lease: unless a runner settled the delivery or
  an operator sent it again in between, the next claim of it comes at least one lease later.\<close>

theorem claims_a_lease_apart:
  assumes "bus_step env (BmClaim t1 l1 is1) db0 db1" "i \<in> set is1"
    "bus_path env ms db1 db2" "list_all (\<lambda>m. touches i m = False) ms"
    "bus_step env (BmClaim t2 l2 is2) db2 db3" "i \<in> set is2"
  shows "t1 + seconds l2 \<le> t2"
proof -
  have "\<not> list_ex (touches i) ms" using assms(4) by (simp add: list_all_iff list_ex_iff)
  then have rows: "rows_from (untouched i) (other_row i) db1 db2" by (rule bus_path_untouched[OF assms(3)])
  obtain d where d: "d \<in> set (bd_deliveries db2)" "dl_id d = i" "dl_status d = delivery_str DlPending" "lease_free t2 l2 d"
    using claimed_rows(1)[OF assms(5,6)] by blast
  then obtain d0 where d0: "d0 \<in> set (bd_deliveries db1)" "untouched i d0 d" using rows unfolding rows_from_def by blast
  have "d = d0" using d0(2) d(2,3) by (auto simp: untouched_def cancelled_delivery_def)
  then have "dl_claimed_at d = Some t1" using claimed_rows(2)[OF assms(1,2)] d0(1) d(2) by blast
  then show ?thesis using d(4) by (simp add: lease_free_def)
qed

theorem claims_a_lease_apart_witness: "0 + seconds 120 \<le> seconds 120"
  by (rule claims_a_lease_apart[OF sample_claim_step _ bp_here _ sample_reclaim_step, of 100]) simp_all

subsection \<open>Fan-out\<close>

lemma subscribed_wildcard: "subscribed_to names e \<longleftrightarrow> e \<in> set names \<or> event_group e @ ''.*'' \<in> set names"
  by (auto simp: subscribed_to_def GROUP_SUFFIX_def list_ex_iff)

lemma fresh_event_unqueued:
  assumes "bus_ok db" "fresh_event db i"
  shows "\<forall>d \<in> set (bd_deliveries db). dl_event_id d \<noteq> i"
  using assms unfolding bus_ok_def linked_def fresh_event_def by force

lemma fanout_targets:
  assumes "bus_ok db" "fresh_event db i" "ev_id event = i"
  shows "chosen_endpoints event chosen db = filter chosen (bd_endpoints db)"
  unfolding chosen_endpoints_def using fresh_event_unqueued[OF assms(1,2)] assms(3)
  by (intro filter_cong) (auto simp: delivery_pair_def)

definition audience :: "'n bus_event \<Rightarrow> 'n bus_db \<Rightarrow> webhook_endpoint list" where
  "audience e db = filter (\<lambda>w. we_enabled w \<and> Some (we_organization_id w) = ev_organization_id e \<and> subscribed_to (we_events w) (ev_name e)) (bd_endpoints db)"

text \<open>C35. An accepted emission queues one pending delivery for every enabled endpoint of the event's
  organization whose selection covers the event, for no endpoint of another organization, and touches nothing
  else that was queued; its report counts them.\<close>

theorem emit_fans_out:
  assumes "bus_ok db" "fresh_event db i" "emit now db i ids new = (Inr report, db')"
  shows "bd_deliveries db' = bd_deliveries db @ new_rows now ''event'' ids (er_event report) (audience (er_event report) db) \<and>
    er_deliveries report = length (audience (er_event report) db) \<and>
    bd_events db' = bd_events db @ [er_event report] \<and> bd_endpoints db' = bd_endpoints db"
  using assms(3)
proof (cases rule: emit_cases)
  case (quiet new')
  have "audience (event_row_of now i new') db = []" using quiet(3) by (simp add: audience_def)
  then show ?thesis using quiet(4,5) by (simp add: new_rows_def)
next
  case (fanned new' org)
  let ?e = "event_row_of now i new'"
  have event: "er_event report = ?e" using fanned(5) by (metis emit_report.select_convs(1) sum.inject(2))
  have "chosen_endpoints ?e (fanout_target ?e org) db = filter (fanout_target ?e org) (bd_endpoints db)"
    by (rule fanout_targets[OF assms(1,2)]) simp
  also have "\<dots> = audience ?e db"
    unfolding audience_def by (intro filter_cong) (auto simp: fanout_target_def subscribed_wildcard fanned(3))
  finally have "er_deliveries report = length (audience ?e db)"
    "db' = (recorded now i new' db)\<lparr>bd_deliveries := bd_deliveries db @ new_rows now ''event'' ids ?e (audience ?e db)\<rparr>"
    using fanned(4) by (simp_all add: enqueue_rows)
  then show ?thesis unfolding event by simp
qed simp

definition sample_report :: "int emit_report" where
  "sample_report = projr (fst (emit 0 sample_wired 7 (\<lambda>k. 100 + k) sample_event))"

lemma sample_emission: "emit 0 sample_wired 7 (\<lambda>k. 100 + k) sample_event = (Inr sample_report, sample_queued)"
proof -
  have "isl (fst (emit 0 sample_wired 7 (\<lambda>k. 100 + k) sample_event)) = False" by code_simp
  then show ?thesis by (simp add: sum.expand prod_eq_iff sample_report_def sample_queued_def)
qed

theorem emit_fans_out_witness:
  "er_deliveries sample_report = length (audience (er_event sample_report) sample_wired) \<and> er_deliveries sample_report = 1"
proof -
  have "fresh_event sample_wired 7" by (simp add: fresh_event_def sample_wired_rows)
  then have "er_deliveries sample_report = length (audience (er_event sample_report) sample_wired)"
    using emit_fans_out[OF sample_ok(1) _ sample_emission] by blast
  moreover have "er_deliveries sample_report = 1" by code_simp
  ultimately show ?thesis by simp
qed

subsection \<open>Sending again\<close>

definition left_of :: "uuid \<Rightarrow> delivery \<Rightarrow> nat" where
  "left_of i d = (if dl_id d = i then nat (MAX_REDELIVERIES - dl_redeliver_count d) else 0)"

definition redeliveries_left :: "uuid \<Rightarrow> 'n bus_db \<Rightarrow> nat" where
  "redeliveries_left i db = (\<Sum>d \<leftarrow> bd_deliveries db. left_of i d)"

definition redelivers :: "uuid \<Rightarrow> bus_move \<Rightarrow> bool" where
  "redelivers i m \<longleftrightarrow> (case m of BmRedeliver j \<Rightarrow> j = i | _ \<Rightarrow> False)"

definition creates :: "uuid \<Rightarrow> bus_move \<Rightarrow> bool" where
  "creates i m \<longleftrightarrow> (case m of BmRecord ids \<Rightarrow> i \<in> range ids | BmSettle j ids \<Rightarrow> i \<in> range ids | _ \<Rightarrow> False)"

lemma sum_left_map:
  "\<forall>d \<in> set ds. left_of i (g d) \<le> left_of i d \<Longrightarrow> (\<Sum>d \<leftarrow> map g ds. left_of i d) \<le> (\<Sum>d \<leftarrow> ds. left_of i d)"
  by (induction ds) (auto intro: add_mono)

lemma sum_left_map_less:
  "\<forall>d \<in> set ds. left_of i (g d) \<le> left_of i d \<Longrightarrow> \<exists>d \<in> set ds. left_of i (g d) < left_of i d \<Longrightarrow>
     (\<Sum>d \<leftarrow> map g ds. left_of i d) < (\<Sum>d \<leftarrow> ds. left_of i d)"
proof (induction ds)
  case (Cons x ds)
  have le: "(\<Sum>d \<leftarrow> map g ds. left_of i d) \<le> (\<Sum>d \<leftarrow> ds. left_of i d)" by (rule sum_left_map) (use Cons.prems in simp)
  show ?case
  proof (cases "left_of i (g x) < left_of i x")
    case True
    then show ?thesis using le by simp
  next
    case False
    then have "(\<Sum>d \<leftarrow> map g ds. left_of i d) < (\<Sum>d \<leftarrow> ds. left_of i d)" using Cons by auto
    moreover have "left_of i (g x) \<le> left_of i x" using Cons.prems by simp
    ultimately show ?thesis by simp
  qed
qed simp

lemma sum_left_filter: "(\<Sum>d \<leftarrow> filter P ds. left_of i d) \<le> (\<Sum>d \<leftarrow> ds. left_of i d)"
  by (induction ds) auto

lemma put_left:
  "\<forall>d \<in> set (bd_deliveries db). P d \<longrightarrow> left_of i (g d) \<le> left_of i d \<Longrightarrow> redeliveries_left i (put_delivery P g db) \<le> redeliveries_left i db"
  unfolding redeliveries_left_def put_delivery_fields by (rule sum_left_map) auto

lemma new_rows_left: "i \<notin> range ids \<Longrightarrow> (\<Sum>d \<leftarrow> new_rows now trigger ids e ws. left_of i d) = 0"
  using new_rows_mem[of _ now trigger ids e ws] by (fastforce simp: left_of_def)

lemma enqueue_left: "i \<notin> range ids \<Longrightarrow> redeliveries_left i (snd (enqueue now trigger ids e chosen db)) = redeliveries_left i db"
  by (simp add: redeliveries_left_def enqueue_rows new_rows_left)

lemma recorded_left [simp]: "redeliveries_left i (recorded now k new db) = redeliveries_left i db"
  by (simp add: redeliveries_left_def)

lemma emit_left: "i \<notin> range ids \<Longrightarrow> redeliveries_left i (snd (emit now db k ids new)) = redeliveries_left i db"
proof -
  assume i: "i \<notin> range ids"
  obtain r db' where e: "emit now db k ids new = (r, db')" by (cases "emit now db k ids new")
  from e have "redeliveries_left i db' = redeliveries_left i db"
  proof (cases rule: emit_cases)
    case (fanned new' org)
    have "db' = snd (enqueue now ''event'' ids (event_row_of now k new') (fanout_target (event_row_of now k new') org) (recorded now k new' db))"
      unfolding fanned(4)[symmetric] by simp
    then show ?thesis using i by (simp add: enqueue_left)
  qed simp_all
  then show ?thesis using e by simp
qed

lemma emit_to_left: "i \<notin> range ids \<Longrightarrow> redeliveries_left i (snd (emit_to now db k ids new ws)) = redeliveries_left i db"
proof (cases "prepare_event new")
  case (Inr new')
  assume i: "i \<notin> range ids"
  obtain r1 db1 where ins: "insert_event now db k new' = (r1, db1)" by (cases "insert_event now db k new'")
  show ?thesis using ins
  proof (cases rule: insert_event_cases)
    case inserted
    have "redeliveries_left i db1 = redeliveries_left i db" using inserted(3) by (simp add: redeliveries_left_def)
    moreover have "redeliveries_left i (snd (enqueue now ''test'' ids (event_row_of now k new') (\<lambda>w. we_id w \<in> set ws) db1)) = redeliveries_left i db1"
      using i by (rule enqueue_left)
    ultimately show ?thesis using Inr ins inserted(1)
      by (auto simp: emit_to_def enqueue_for_endpoints_def split: prod.split)
  qed (use Inr ins in \<open>simp add: emit_to_def\<close>)
qed (simp add: emit_to_def)

lemma mark_left:
  "redeliveries_left i (mark_delivered now j status t db) \<le> redeliveries_left i db"
  "redeliveries_left i (mark_retry j status message at t db) \<le> redeliveries_left i db"
  "redeliveries_left i (mark_failed j status message t db) \<le> redeliveries_left i db"
  unfolding mark_delivered_def mark_retry_def mark_failed_def by (auto intro!: put_left simp: left_of_def)

lemma deliver_one_left:
  assumes "i \<notin> range (ja_delivery_ids a)"
  shows "redeliveries_left i (snd (deliver_one env a job r db)) \<le> redeliveries_left i db"
  unfolding deliver_one_def Let_def by (auto simp: mark_left emit_left[OF assms] split: delivery_outcome.split)

lemma redeliver_left:
  assumes "redeliver now db w i = (Inr n, db')"
  shows "redeliveries_left i db' < redeliveries_left i db" "redeliveries_left j db' \<le> redeliveries_left j db"
proof -
  obtain d where d: "find (replayable w i) (bd_deliveries db) = Some d" and db': "db' = put_delivery (replayable w i) (replayed now) db"
    using assms by (auto simp: redeliver_def split: option.splits)
  have le: "\<forall>x \<in> set (bd_deliveries db). left_of k (if replayable w i x then replayed now x else x) \<le> left_of k x" for k
    by (auto simp: left_of_def replayed_def)
  have "d \<in> set (bd_deliveries db)" "replayable w i d" using d by (auto simp: find_Some_iff)
  then have "\<exists>x \<in> set (bd_deliveries db). left_of i (if replayable w i x then replayed now x else x) < left_of i x"
    by (intro bexI[of _ d]) (simp_all add: left_of_def replayed_def replayable_def on_endpoint_def)
  then show "redeliveries_left i db' < redeliveries_left i db"
    unfolding db' redeliveries_left_def put_delivery_fields by (rule sum_left_map_less[OF le])
  show "redeliveries_left j db' \<le> redeliveries_left j db"
    unfolding db' redeliveries_left_def put_delivery_fields by (rule sum_left_map[OF le])
qed

lemma removal_left:
  "redeliveries_left i (snd (delete_endpoint db k)) \<le> redeliveries_left i db"
  "redeliveries_left i (snd (sweep_events now db run org d)) \<le> redeliveries_left i db"
  "redeliveries_left i (snd (set_retention_window db org' d)) = redeliveries_left i db"
  by (simp_all add: redeliveries_left_def delete_endpoint_def sweep_state set_window_tables sum_left_filter)

lemma bus_step_left:
  "bus_step env m db db' \<Longrightarrow> \<not> creates i m \<Longrightarrow> redeliveries_left i db' + (if redelivers i m then 1 else 0) \<le> redeliveries_left i db"
proof (induction rule: bus_step.induct)
  case (bs_claim now db batch lease jobs db')
  then have db': "db' = snd (claim_due now db batch lease)" by simp
  show ?case unfolding db' claim_state redelivers_def by (auto intro!: put_left simp: left_of_def claimed_row_def)
next
  case (bs_redeliver now db w j n db')
  then show ?case using redeliver_left[OF bs_redeliver(1)] by (auto simp: redelivers_def)
next
  case (bs_cancel db now lease)
  show ?case unfolding cancel_pending_for_disabled_def redelivers_def by (auto intro!: put_left simp: left_of_def cancelled_delivery_def)
next
  case (bs_insert k db now new')
  have "bd_deliveries (snd (insert_endpoint now db k new')) = bd_deliveries db" by (simp add: insert_endpoint_def Let_def)
  then show ?case by (simp add: redeliveries_left_def redelivers_def)
next
  case (bs_update db now k c)
  have "bd_deliveries (snd (update_endpoint now db k c)) = bd_deliveries db" by (simp add: update_endpoint_def Let_def split: option.split)
  then show ?case by (simp add: redeliveries_left_def redelivers_def)
qed (auto simp: creates_def redelivers_def emit_left emit_to_left deliver_one_left removal_left)

lemma bus_path_left:
  "bus_path env ms db db' \<Longrightarrow> \<not> list_ex (creates i) ms \<Longrightarrow> redeliveries_left i db' + length (filter (redelivers i) ms) \<le> redeliveries_left i db"
proof (induction rule: bus_path.induct)
  case (bp_move m db db1 ms db2)
  then show ?case using bus_step_left[OF bp_move(1), of i] by (auto split: if_splits)
qed simp

lemma left_bound: "distinct (map dl_id ds) \<Longrightarrow> \<forall>d \<in> set ds. 0 \<le> dl_redeliver_count d \<Longrightarrow> (\<Sum>d \<leftarrow> ds. left_of i d) \<le> 10"
proof (induction ds)
  case (Cons x ds)
  show ?case
  proof (cases "dl_id x = i")
    case True
    then have "\<forall>d \<in> set ds. dl_id d \<noteq> i" using Cons.prems(1) by (auto simp: image_iff)
    then have "\<forall>d \<in> set ds. left_of i d = 0" by (simp add: left_of_def)
    then have "(\<Sum>d \<leftarrow> ds. left_of i d) = 0" by simp
    moreover have "left_of i x \<le> 10" using Cons.prems(2) by (simp add: left_of_def MAX_REDELIVERIES_def nat_le_iff)
    moreover have "(\<Sum>d \<leftarrow> x # ds. left_of i d) = left_of i x + (\<Sum>d \<leftarrow> ds. left_of i d)" by simp
    ultimately show ?thesis by linarith
  next
    case False
    then show ?thesis using Cons by (simp add: left_of_def)
  qed
qed simp

text \<open>A delivery is sent again at most ten times in its life: however replays of it interleave with every other
  transaction, no more than ten of them are accepted.\<close>

theorem redeliveries_bounded:
  assumes "bus_ok db" "bus_path env ms db db'" "list_all (\<lambda>m. creates i m = False) ms"
  shows "length (filter (redelivers i) ms) \<le> 10"
proof -
  have "redeliveries_left i db \<le> 10"
    unfolding redeliveries_left_def by (rule left_bound) (use assms(1) in \<open>auto simp: bus_ok_def deliveries_ok_def delivery_allowed_def\<close>)
  moreover have "\<not> list_ex (creates i) ms" using assms(3) by (simp add: list_all_iff list_ex_iff)
  ultimately show ?thesis using bus_path_left[OF assms(2)] by fastforce
qed

definition sample_delivered :: "int bus_db" where
  "sample_delivered = snd (deliver_one sample_bus_env
     \<lparr>ja_outcome = Delivered 200, ja_elapsed = 12, ja_now = seconds 1, ja_event_id = 8, ja_delivery_ids = (\<lambda>k. 200 + k)\<rparr>
     (hd (fst (claim_due 0 sample_queued 20 120))) idle_tick sample_claimed)"

lemma sample_replay_step: "bus_step sample_bus_env (BmRedeliver 100) sample_delivered (snd (redeliver (seconds 9) sample_delivered 5 100))"
proof -
  have "fst (redeliver (seconds 9) sample_delivered 5 100) = Inr 1" by code_simp
  then have "redeliver (seconds 9) sample_delivered 5 100 = (Inr 1, snd (redeliver (seconds 9) sample_delivered 5 100))"
    by (metis prod.collapse)
  then show ?thesis by (rule bs_redeliver)
qed

lemma sample_delivered_ok: "bus_ok sample_delivered"
proof -
  have "map ev_id (bd_events sample_claimed) = [7]" by code_simp
  then have "fresh_event sample_claimed 8" by (simp add: fresh_event_def)
  moreover have "map dl_id (bd_deliveries sample_claimed) = [100]" by code_simp
  then have "fresh_deliveries sample_claimed (\<lambda>k. 200 + k)" unfolding fresh_deliveries_def by auto
  moreover have "bus_ok sample_claimed" by (rule bus_step_ok[OF sample_claim_step sample_ok(2)])
  ultimately show ?thesis unfolding sample_delivered_def by (intro deliver_one_ok) simp_all
qed

theorem redeliveries_bounded_witness: "length (filter (redelivers 100) [BmRedeliver 100]) \<le> 10"
  by (rule redeliveries_bounded[OF sample_delivered_ok bus_path_one[OF sample_replay_step]]) (simp add: creates_def)

subsection \<open>Retention\<close>

definition expired :: "instant \<Rightarrow> 'n bus_db \<Rightarrow> uuid option \<Rightarrow> int \<Rightarrow> 'n bus_event \<Rightarrow> bool" where
  "expired now db org d e \<longleftrightarrow> ev_organization_id e = org \<and> ev_created_at e < now - days d \<and>
     (\<forall>x \<in> set (bd_deliveries db). dl_event_id x = ev_id e \<longrightarrow> dl_status x \<noteq> delivery_str DlPending)"

lemma swept_expired: "swept db org (now - days d) = expired now db org d"
  by (rule ext) (auto simp: swept_def sweepable_def owed_def expired_def list_ex_iff)

lemma length_filter_split: "length (filter P xs) + length (filter (\<lambda>x. \<not> P x) xs) = length xs"
  by (rule sum_length_filter_compl)

lemma sweep_report:
  "rr_events_deleted (fst (sweep_events now db run org d)) = int (length (filter (expired now db org d) (bd_events db)))"
  "rr_deliveries_deleted (fst (sweep_events now db run org d)) =
     int (length (filter (\<lambda>x. dl_event_id x \<in> set (map ev_id (filter (expired now db org d) (bd_events db)))) (bd_deliveries db)))"
  by (simp_all add: sweep_events_def Let_def swept_expired)



subsection \<open>Signatures\<close>

definition signed_material :: "int \<Rightarrow> bytes \<Rightarrow> bytes" where
  "signed_material timestamp body = ascii_bytes (show_int timestamp) @ ascii_bytes ''.'' @ body"

lemma ascii_byte_inj: "(word_of_nat (code c) :: 8 word) = word_of_nat (code d) \<longleftrightarrow> c = d"
proof
  assume "(word_of_nat (code c) :: 8 word) = word_of_nat (code d)"
  then have "unat (word_of_nat (code c) :: 8 word) = unat (word_of_nat (code d) :: 8 word)" by simp
  then show "c = d" by (simp add: unat_of_nat code_def mod_less of_char_eq_iff)
qed simp

lemma ascii_bytes_inj: "ascii_bytes s = ascii_bytes t \<longleftrightarrow> s = t"
  unfolding ascii_bytes_def by (rule inj_eq[OF inj_mapI]) (simp add: inj_def ascii_byte_inj)

lemma split_at_mark: "x \<notin> set xs \<Longrightarrow> x \<notin> set ys \<Longrightarrow> xs @ x # us = ys @ x # vs \<Longrightarrow> xs = ys \<and> us = vs"
  by (induction xs arbitrary: ys) (auto simp: Cons_eq_append_conv append_eq_Cons_conv)

lemma signed_material_inj: "signed_material t body = signed_material t' body' \<longleftrightarrow> t = t' \<and> body = body'"
proof
  have mark: "word_of_nat (code CHR ''.'') \<notin> set (ascii_bytes (show_int n))" for n
  proof
    assume "word_of_nat (code CHR ''.'') \<in> set (ascii_bytes (show_int n))"
    then have "CHR ''.'' \<in> set (show_int n)" by (auto simp: ascii_bytes_def ascii_byte_inj simp del: of_nat_of_char)
    then show False using show_int_chars[of "CHR ''.''" n] by (simp add: is_ascii_digit_def code_def)
  qed
  assume "signed_material t body = signed_material t' body'"
  then have "ascii_bytes (show_int t) @ word_of_nat (code CHR ''.'') # body = ascii_bytes (show_int t') @ word_of_nat (code CHR ''.'') # body'"
    unfolding signed_material_def by (simp add: ascii_bytes_def)
  then show "t = t' \<and> body = body'" using split_at_mark[OF mark mark] by (simp add: ascii_bytes_inj show_int_inj)
qed simp

text \<open>A receiver's check of a signature header accepts it exactly when it carries the MAC of the material the
  receiver sees; the material determines both the timestamp and the body, so under one secret and an HMAC
  without collisions a header vouches for no other delivery.\<close>

theorem signature_verifies_exactly:
  assumes "\<forall>b. hex_decode (hex_encode b) = Some b" "\<forall>b. list_all (\<lambda>c. \<not> is_whitespace c) (hex_encode b)"
  shows "(webhook_verify hmac hex_decode secret t body (signature_header hmac hex_encode secret' t' body') \<longleftrightarrow>
      hmac secret (signed_material t body) = hmac secret' (signed_material t' body')) \<and>
    (signed_material t body = signed_material t' body' \<longleftrightarrow> t = t' \<and> body = body')"
proof -
  have "trim (signature_header hmac hex_encode secret' t' body') = signature_header hmac hex_encode secret' t' body'"
  proof (rule trim_no_whitespace)
    fix c assume "c \<in> set (signature_header hmac hex_encode secret' t' body')"
    then have "c = CHR ''v'' \<or> c = CHR ''1'' \<or> c = CHR ''='' \<or> c \<in> set (hex_encode (signed_mac hmac secret' t' body'))"
      by (auto simp: signature_header_def SIGNATURE_VERSION_def webhook_sign_def)
    then show "\<not> is_whitespace c" using assms(2) by (auto simp: is_whitespace_def code_def list_all_iff)
  qed
  then have "webhook_verify hmac hex_decode secret t body (signature_header hmac hex_encode secret' t' body') \<longleftrightarrow>
      signed_mac hmac secret t body = signed_mac hmac secret' t' body'"
    using assms(1) by (simp add: webhook_verify_def signature_header_def SIGNATURE_VERSION_def webhook_sign_def strip_prefix_def starts_with_def)
  then show ?thesis by (simp add: signed_mac_def signed_material_def[symmetric] signed_material_inj)
qed

text \<open>A codec on which the property is applied: a byte is as many letters \<open>a\<close> and a \<open>b\<close>.\<close>

definition sample_encode :: "bytes \<Rightarrow> string" where
  "sample_encode b = concat (map (\<lambda>w. replicate (unat w) CHR ''a'' @ ''b'') b)"

fun sample_decode_from :: "nat \<Rightarrow> string \<Rightarrow> bytes option" where
  "sample_decode_from n [] = (if n = 0 then Some [] else None)"
| "sample_decode_from n (c # cs) =
     (if c = CHR ''a'' then sample_decode_from (Suc n) cs else map_option ((#) (word_of_nat n)) (sample_decode_from 0 cs))"

lemma sample_decode_run: "sample_decode_from k (replicate n CHR ''a'' @ ''b'' @ r) = map_option ((#) (word_of_nat (k + n))) (sample_decode_from 0 r)"
  by (induction n arbitrary: k) (simp_all add: add.assoc)

lemma sample_codec: "sample_decode_from 0 (sample_encode b) = Some b" "list_all (\<lambda>c. \<not> is_whitespace c) (sample_encode b)"
proof -
  show "sample_decode_from 0 (sample_encode b) = Some b"
  proof (induction b)
    case (Cons w b)
    have "sample_encode (w # b) = replicate (unat w) CHR ''a'' @ ''b'' @ sample_encode b" by (simp add: sample_encode_def)
    then show ?case using Cons by (simp only: sample_decode_run) simp
  qed (simp add: sample_encode_def)
  have "\<not> is_whitespace CHR ''a''" "\<not> is_whitespace CHR ''b''" by (simp_all add: is_whitespace_def code_def)
  then have "\<not> is_whitespace c" if "c \<in> set (sample_encode b)" for c
    using that by (auto simp: sample_encode_def split: if_splits)
  then show "list_all (\<lambda>c. \<not> is_whitespace c) (sample_encode b)" by (simp add: list_all_iff)
qed

theorem signature_verifies_exactly_witness:
  "webhook_verify (\<lambda>k m. k @ m) (sample_decode_from 0) (ascii_bytes ''key'') 5 (ascii_bytes ''{}'')
     (signature_header (\<lambda>k m. k @ m) sample_encode (ascii_bytes ''key'') 5 (ascii_bytes ''{}''))"
proof -
  have "\<forall>b. sample_decode_from 0 (sample_encode b) = Some b" "\<forall>b. list_all (\<lambda>c. \<not> is_whitespace c) (sample_encode b)"
    using sample_codec by blast+
  from signature_verifies_exactly[OF this, of "\<lambda>k m. k @ m" "ascii_bytes ''key''" 5 "ascii_bytes ''{}''" "ascii_bytes ''key''" 5 "ascii_bytes ''{}''"]
  show ?thesis by blast
qed

subsection \<open>A tick of the runner\<close>

definition released :: "uuid set \<Rightarrow> 'n bus_db \<Rightarrow> bool" where
  "released ids db \<longleftrightarrow> (\<forall>d \<in> set (bd_deliveries db). dl_id d \<in> ids \<longrightarrow> dl_claimed_at d = None)"

lemma rows_from_released:
  "rows_from (\<lambda>d d'. dl_id d' = dl_id d \<and> (dl_claimed_at d = None \<longrightarrow> dl_claimed_at d' = None)) (\<lambda>d. dl_claimed_at d = None) db db' \<Longrightarrow>
     released ids db \<Longrightarrow> released ids db'"
  unfolding rows_from_def released_def by metis

lemma emit_released: "released ids db \<Longrightarrow> released ids (snd (emit now db i new_ids new))"
  by (rule rows_from_released[OF emit_rows_from]) (simp_all add: makes_only_def)

lemma mark_released:
  assumes "released ids db"
  shows "released (insert i ids) (mark_delivered now i status t db)" "released (insert i ids) (mark_retry i status message at t db)"
    "released (insert i ids) (mark_failed i status message t db)"
  using assms by (auto simp: released_def mark_delivered_def mark_retry_def mark_failed_def)

lemma deliver_one_released: "released ids db \<Longrightarrow> released (insert (dj_delivery_id job) ids) (snd (deliver_one env a job r db))"
  unfolding deliver_one_def Let_def by (auto simp: mark_released emit_released split: delivery_outcome.split)

lemma deliver_all_released: "released ids (snd s) \<Longrightarrow> released (set (map dj_delivery_id jobs) \<union> ids) (snd (deliver_all env answer jobs s))"
proof (induction jobs arbitrary: s ids)
  case (Cons job jobs)
  have "released (insert (dj_delivery_id job) ids) (snd (deliver_one env (answer job) job (fst s) (snd s)))"
    by (rule deliver_one_released[OF Cons.prems])
  from Cons.IH[OF this] show ?case by simp
qed simp

definition outcomes :: "delivery_tick \<Rightarrow> nat" where
  "outcomes r = dt_delivered r + dt_retried r + dt_failed r"

lemma deliver_one_report: "outcomes (fst (deliver_one env a job r db)) = Suc (outcomes r) \<and>
    dt_claimed (fst (deliver_one env a job r db)) = dt_claimed r \<and> dt_cancelled (fst (deliver_one env a job r db)) = dt_cancelled r"
  by (auto simp: deliver_one_def Let_def outcomes_def split: delivery_outcome.split)

lemma deliver_all_report: "outcomes (fst (deliver_all env answer jobs s)) = outcomes (fst s) + length jobs \<and>
    dt_claimed (fst (deliver_all env answer jobs s)) = dt_claimed (fst s)"
  by (induction jobs arbitrary: s) (simp_all add: deliver_one_report)

lemma job_of_linked:
  assumes "linked (bd_endpoints db) (bd_events db) d"
  shows "\<exists>j. job_of db d = Some j \<and> dj_delivery_id j = dl_id d"
proof -
  have "find_endpoint db (dl_endpoint_id d) \<noteq> None" "find (\<lambda>e. ev_id e = dl_event_id d) (bd_events db) \<noteq> None"
    using assms by (auto simp: linked_def find_endpoint_def find_None_iff)
  then show ?thesis by (auto simp: job_of_def)
qed

lemma map_filter_jobs:
  "\<forall>d \<in> set ds. \<exists>j. job_of db d = Some j \<and> dj_delivery_id j = dl_id d \<Longrightarrow> map dj_delivery_id (List.map_filter (job_of db) ds) = map dl_id ds"
  by (induction ds) (auto simp: List.map_filter_def)

lemma claim_jobs:
  assumes "bus_ok db"
  shows "set (map dj_delivery_id (fst (claim_due now db batch lease))) = set (map dl_id (due_deliveries now db batch lease))"
    "distinct (map dj_delivery_id (fst (claim_due now db batch lease)))"
proof -
  let ?ids = "set (map dl_id (due_deliveries now db batch lease))" and ?db' = "snd (claim_due now db batch lease)"
  let ?rows = "sort_key (\<lambda>d. (dl_next_attempt_at d, dl_created_at d)) (filter (\<lambda>d. dl_id d \<in> ?ids) (bd_deliveries ?db'))"
  have ok: "bus_ok ?db'" by (rule claim_due_ok[OF assms])
  have jobs: "fst (claim_due now db batch lease) = List.map_filter (job_of ?db') ?rows" by (simp add: claim_due_def Let_def)
  have names: "map dj_delivery_id (fst (claim_due now db batch lease)) = map dl_id ?rows"
    unfolding jobs by (rule map_filter_jobs) (use ok job_of_linked[of ?db'] in \<open>auto simp: bus_ok_def\<close>)
  have "distinct (map dl_id (filter (\<lambda>d. dl_id d \<in> ?ids) (bd_deliveries ?db')))"
    using ok by (simp add: bus_ok_def deliveries_ok_def filtered_map_distinct)
  then show "distinct (map dj_delivery_id (fst (claim_due now db batch lease)))"
    unfolding names by (simp add: distinct_map)
  have "map dl_id (bd_deliveries ?db') = map dl_id (bd_deliveries db)" by (simp add: claim_state claimed_row_def)
  then have "set (map dl_id (bd_deliveries ?db')) = set (map dl_id (bd_deliveries db))" by (rule arg_cong)
  moreover have "?ids \<subseteq> set (map dl_id (bd_deliveries db))"
    unfolding due_deliveries_def using set_take_subset by fastforce
  ultimately have "?ids \<subseteq> dl_id ` set (bd_deliveries ?db')" by simp
  then have "dl_id ` {d \<in> set (bd_deliveries ?db'). dl_id d \<in> ?ids} = ?ids" by blast
  then show "set (map dj_delivery_id (fst (claim_due now db batch lease))) = ?ids"
    unfolding names set_map set_sort set_filter .
qed

definition head_of_tick :: "'n bus_env \<Rightarrow> instant \<Rightarrow> 'n bus_db \<Rightarrow> 'n bus_db" where
  "head_of_tick env now db = snd (cancel_pending_for_disabled now db (int (dr_lease_seconds (be_config env))))"

definition tick_claims :: "'n bus_env \<Rightarrow> instant \<Rightarrow> 'n bus_db \<Rightarrow> 'n delivery_job list \<times> 'n bus_db" where
  "tick_claims env now db = claim_due now db (nat (dr_batch (be_config env))) (int (dr_lease_seconds (be_config env)))"

lemma run_due_unfold: "run_due env t1 t2 answer db =
  deliver_all env answer (fst (tick_claims env t2 (head_of_tick env t1 db)))
    (idle_tick\<lparr>dt_cancelled := length (filter (cancellable t1 db (int (dr_lease_seconds (be_config env)))) (bd_deliveries db)),
       dt_claimed := length (fst (tick_claims env t2 (head_of_tick env t1 db)))\<rparr>, snd (tick_claims env t2 (head_of_tick env t1 db)))"
  by (simp add: run_due_def tick_claims_def head_of_tick_def Let_def split_def cancel_pending_for_disabled_def)

lemma head_of_tick_ok: "bus_ok db \<Longrightarrow> bus_ok (head_of_tick env now db)"
  unfolding head_of_tick_def by (rule cancel_ok)

text \<open>A tick of the runner releases whatever it claims: every job it took ends in one of the three outcomes its
  report counts, and no delivery it claimed is still under its lease when it returns, whatever receivers answer.\<close>

theorem run_due_settles:
  assumes "bus_ok db" "run_due env t1 t2 answer db = (r, db')"
  shows "dt_claimed r = dt_delivered r + dt_retried r + dt_failed r \<and>
    released (set (map dl_id (due_deliveries t2 (head_of_tick env t1 db) (nat (dr_batch (be_config env))) (int (dr_lease_seconds (be_config env)))))) db'"
proof -
  let ?jobs = "fst (tick_claims env t2 (head_of_tick env t1 db))" and ?s = "(idle_tick\<lparr>dt_cancelled := length (filter (cancellable t1 db
    (int (dr_lease_seconds (be_config env)))) (bd_deliveries db)), dt_claimed := length (fst (tick_claims env t2 (head_of_tick env t1 db)))\<rparr>,
    snd (tick_claims env t2 (head_of_tick env t1 db)))"
  have run: "deliver_all env answer ?jobs ?s = (r, db')" using assms(2) unfolding run_due_unfold .
  have "outcomes r = length ?jobs" "dt_claimed r = length ?jobs"
    using deliver_all_report[of env answer ?jobs ?s] run by (simp_all add: outcomes_def idle_tick_def)
  moreover have "released (set (map dj_delivery_id ?jobs) \<union> {}) db'"
    using deliver_all_released[of "{}" ?s ?jobs env answer] run by (simp add: released_def)
  ultimately show ?thesis
    using claim_jobs(1)[OF head_of_tick_ok[OF assms(1)]] by (simp add: outcomes_def tick_claims_def)
qed

text \<open>A receiver that is never reached.\<close>

definition sample_answer :: "int delivery_job \<Rightarrow> job_answer" where
  "sample_answer job = \<lparr>ja_outcome = DeliveryFailed None ''down'', ja_elapsed = 12, ja_now = seconds 1, ja_event_id = 8 + dj_event_id job,
     ja_delivery_ids = (\<lambda>k. 200 + k)\<rparr>"

theorem run_due_settles_witness:
  "dt_claimed (fst (run_due sample_bus_env 0 0 sample_answer sample_queued)) = dt_delivered (fst (run_due sample_bus_env 0 0 sample_answer sample_queued)) +
     dt_retried (fst (run_due sample_bus_env 0 0 sample_answer sample_queued)) + dt_failed (fst (run_due sample_bus_env 0 0 sample_answer sample_queued)) \<and>
   dt_retried (fst (run_due sample_bus_env 0 0 sample_answer sample_queued)) = 1"
proof -
  have "dt_retried (fst (run_due sample_bus_env 0 0 sample_answer sample_queued)) = 1" by code_simp
  then show ?thesis using run_due_settles[OF sample_ok(2) prod.collapse[symmetric], of sample_bus_env 0 0 sample_answer] by blast
qed

subsection \<open>The tick as a path\<close>

definition fresh_answers :: "'n bus_db \<Rightarrow> ('n delivery_job \<Rightarrow> job_answer) \<Rightarrow> 'n delivery_job list \<Rightarrow> bool" where
  "fresh_answers db answer jobs \<longleftrightarrow> distinct (map (\<lambda>j. ja_event_id (answer j)) jobs) \<and>
     (\<forall>j \<in> set jobs. fresh_event db (ja_event_id (answer j)) \<and> fresh_deliveries db (ja_delivery_ids (answer j))) \<and>
     (\<forall>j \<in> set jobs. \<forall>k \<in> set jobs. ja_event_id (answer j) \<noteq> ja_event_id (answer k) \<longrightarrow>
        range (ja_delivery_ids (answer j)) \<inter> range (ja_delivery_ids (answer k)) = {})"

lemma emit_events: "set (map ev_id (bd_events (snd (emit now db i ids new)))) \<subseteq> insert i (set (map ev_id (bd_events db)))"
proof -
  obtain r db' where e: "emit now db i ids new = (r, db')" by (cases "emit now db i ids new")
  from e have "set (map ev_id (bd_events db')) \<subseteq> insert i (set (map ev_id (bd_events db)))"
  proof (cases rule: emit_cases)
    case (fanned new' org)
    have "bd_events db' = bd_events (recorded now i new' db)" using fanned(4) by (simp add: enqueue_rows)
    then show ?thesis by simp
  qed auto
  then show ?thesis using e by simp
qed

lemma emit_delivery_ids: "set (map dl_id (bd_deliveries (snd (emit now db i ids new)))) \<subseteq> range ids \<union> set (map dl_id (bd_deliveries db))"
proof -
  have "rows_from (=) (\<lambda>d. dl_id d \<in> range ids) db (snd (emit now db i ids new))" by (rule emit_rows_from) (simp_all add: makes_only_def)
  then show ?thesis unfolding rows_from_def by auto
qed

lemma put_delivery_ids:
  assumes "\<forall>d. dl_id (g d) = dl_id d"
  shows "dl_id ` set (bd_deliveries (put_delivery P g db)) = dl_id ` set (bd_deliveries db)"
proof -
  have "map dl_id (bd_deliveries (put_delivery P g db)) = map dl_id (bd_deliveries db)" using assms by simp
  then show ?thesis unfolding set_map[symmetric] by (rule arg_cong)
qed

lemma mark_tables:
  "bd_events (mark_delivered now i status t db) = bd_events db" "bd_events (mark_retry i status message at t db) = bd_events db"
  "bd_events (mark_failed i status message t db) = bd_events db"
  "dl_id ` set (bd_deliveries (mark_delivered now i status t db)) = dl_id ` set (bd_deliveries db)"
  "dl_id ` set (bd_deliveries (mark_retry i status message at t db)) = dl_id ` set (bd_deliveries db)"
  "dl_id ` set (bd_deliveries (mark_failed i status message t db)) = dl_id ` set (bd_deliveries db)"
  by (simp_all add: mark_delivered_def mark_retry_def mark_failed_def put_delivery_ids del: put_delivery_fields(5))

lemma deliver_one_adds:
  "set (map ev_id (bd_events (snd (deliver_one env a job r db)))) \<subseteq> insert (ja_event_id a) (set (map ev_id (bd_events db)))"
  "set (map dl_id (bd_deliveries (snd (deliver_one env a job r db)))) \<subseteq> range (ja_delivery_ids a) \<union> set (map dl_id (bd_deliveries db))"
proof -
  let ?after = "\<lambda>status message t new. emit (ja_now a) (mark_failed (dj_delivery_id job) status message t db) (ja_event_id a) (ja_delivery_ids a) new"
  have e: "ev_id ` set (bd_events (snd (?after status message t new))) \<subseteq> insert (ja_event_id a) (ev_id ` set (bd_events db))" for status message t new
    using emit_events[of "ja_now a" "mark_failed (dj_delivery_id job) status message t db"] by (simp only: set_map mark_tables)
  have d: "dl_id ` set (bd_deliveries (snd (?after status message t new))) \<subseteq> range (ja_delivery_ids a) \<union> dl_id ` set (bd_deliveries db)" for status message t new
    using emit_delivery_ids[of "ja_now a" "mark_failed (dj_delivery_id job) status message t db"] by (simp only: set_map mark_tables)
  show "set (map ev_id (bd_events (snd (deliver_one env a job r db)))) \<subseteq> insert (ja_event_id a) (set (map ev_id (bd_events db)))"
    unfolding set_map
  proof (cases "ja_outcome a")
    case (DeliveryFailed status reason)
    then show "ev_id ` set (bd_events (snd (deliver_one env a job r db))) \<subseteq> insert (ja_event_id a) (ev_id ` set (bd_events db))"
      using e by (simp add: deliver_one_def Let_def mark_tables subset_insertI)
  qed (simp add: deliver_one_def mark_tables subset_insertI)
  show "set (map dl_id (bd_deliveries (snd (deliver_one env a job r db)))) \<subseteq> range (ja_delivery_ids a) \<union> set (map dl_id (bd_deliveries db))"
    unfolding set_map
  proof (cases "ja_outcome a")
    case (DeliveryFailed status reason)
    then show "dl_id ` set (bd_deliveries (snd (deliver_one env a job r db))) \<subseteq> range (ja_delivery_ids a) \<union> dl_id ` set (bd_deliveries db)"
      using d by (simp add: deliver_one_def Let_def mark_tables)
  qed (simp add: deliver_one_def mark_tables)
qed

lemma deliver_one_keeps_fresh:
  assumes "fresh_answers db answer (job # jobs)"
  shows "fresh_answers (snd (deliver_one env (answer job) job r db)) answer jobs"
  unfolding fresh_answers_def
proof (intro conjI ballI)
  let ?db' = "snd (deliver_one env (answer job) job r db)"
  have all: "distinct (map (\<lambda>j. ja_event_id (answer j)) (job # jobs))"
    "\<forall>j \<in> set (job # jobs). fresh_event db (ja_event_id (answer j)) \<and> fresh_deliveries db (ja_delivery_ids (answer j))"
    "\<forall>j \<in> set (job # jobs). \<forall>k \<in> set (job # jobs). ja_event_id (answer j) \<noteq> ja_event_id (answer k) \<longrightarrow>
        range (ja_delivery_ids (answer j)) \<inter> range (ja_delivery_ids (answer k)) = {}"
    using assms unfolding fresh_answers_def by blast+
  show "distinct (map (\<lambda>j. ja_event_id (answer j)) jobs)" using all(1) by simp
  fix j assume j: "j \<in> set jobs"
  then have ne: "ja_event_id (answer j) \<noteq> ja_event_id (answer job)" using all(1) by (simp add: image_iff) metis
  show "fresh_event ?db' (ja_event_id (answer j))"
    using deliver_one_adds(1)[of env "answer job" job r db] all(2) ne j unfolding fresh_event_def by auto
  have "range (ja_delivery_ids (answer j)) \<inter> range (ja_delivery_ids (answer job)) = {}" using all(3) ne j by simp
  moreover have "fresh_deliveries db (ja_delivery_ids (answer j))" using all(2) j by simp
  ultimately show "fresh_deliveries ?db' (ja_delivery_ids (answer j))"
    using deliver_one_adds(2)[of env "answer job" job r db] unfolding fresh_deliveries_def by blast
qed (use assms in \<open>auto simp: fresh_answers_def\<close>)

lemma deliver_all_path:
  "fresh_answers (snd s) answer jobs \<Longrightarrow> \<exists>ms. length ms = length jobs \<and> bus_path env ms (snd s) (snd (deliver_all env answer jobs s))"
proof (induction jobs arbitrary: s)
  case Nil
  then show ?case using bp_here by force
next
  case (Cons job jobs)
  let ?s = "deliver_one env (answer job) job (fst s) (snd s)"
  have "bus_step env (BmSettle (dj_delivery_id job) (ja_delivery_ids (answer job))) (snd s) (snd ?s)"
    by (rule bs_settle) (use Cons.prems in \<open>simp_all add: fresh_answers_def\<close>)
  moreover obtain ms where "length ms = length jobs" "bus_path env ms (snd ?s) (snd (deliver_all env answer jobs ?s))"
    using Cons.IH[of ?s] deliver_one_keeps_fresh[OF Cons.prems] by blast
  ultimately show ?case by (metis bp_move deliver_all.simps(2) length_Cons)
qed

text \<open>A tick of the runner is a path of the queue's moves, one for the cancellations, one for the claim and one
  for each job, so whatever holds of all paths holds of every interleaving of ticks with the other transactions.\<close>

theorem run_due_is_path:
  assumes "fresh_answers (snd (tick_claims env t2 (head_of_tick env t1 db))) answer (fst (tick_claims env t2 (head_of_tick env t1 db)))"
  shows "\<exists>ms. length ms = 2 + dt_claimed (fst (run_due env t1 t2 answer db)) \<and> bus_path env ms db (snd (run_due env t1 t2 answer db))"
proof -
  let ?c = "tick_claims env t2 (head_of_tick env t1 db)"
  obtain ms where ms: "length ms = length (fst ?c)" "bus_path env ms (snd ?c) (snd (run_due env t1 t2 answer db))"
    unfolding run_due_unfold using deliver_all_path[of "(_, snd ?c)" answer "fst ?c" env] assms by (metis snd_conv)
  have "bus_step env BmOther db (head_of_tick env t1 db)" unfolding head_of_tick_def by (rule bs_cancel)
  moreover have "\<exists>m. bus_step env m (head_of_tick env t1 db) (snd ?c)"
    unfolding tick_claims_def using bs_claim[OF prod.collapse[symmetric]] by blast
  then obtain m where "bus_step env m (head_of_tick env t1 db) (snd ?c)" ..
  ultimately have "bus_path env (BmOther # m # ms) db (snd (run_due env t1 t2 answer db))" using ms(2) by (blast intro: bp_move)
  moreover have "dt_claimed (fst (run_due env t1 t2 answer db)) = length (fst ?c)"
    unfolding run_due_unfold by (simp add: deliver_all_report)
  ultimately show ?thesis using ms(1) by (intro exI[of _ "BmOther # m # ms"]) simp
qed

definition one_answer :: "int delivery_job \<Rightarrow> job_answer" where
  "one_answer job = \<lparr>ja_outcome = Delivered 200, ja_elapsed = 12, ja_now = seconds 1, ja_event_id = 8, ja_delivery_ids = (\<lambda>k. 200 + k)\<rparr>"

theorem run_due_is_path_witness:
  "\<exists>ms. length ms = 2 + dt_claimed (fst (run_due sample_bus_env 0 0 one_answer sample_queued)) \<and>
     bus_path sample_bus_env ms sample_queued (snd (run_due sample_bus_env 0 0 one_answer sample_queued))"
proof (rule run_due_is_path)
  let ?c = "tick_claims sample_bus_env 0 (head_of_tick sample_bus_env 0 sample_queued)"
  have one: "map dj_delivery_id (fst ?c) = [100]" "map dl_id (bd_deliveries (snd ?c)) = [100]" "map ev_id (bd_events (snd ?c)) = [7]"
    by code_simp+
  then obtain job where "fst ?c = [job]" by auto
  moreover have "fresh_deliveries (snd ?c) (ja_delivery_ids (one_answer job))" "fresh_event (snd ?c) (ja_event_id (one_answer job))" for job
    using one unfolding fresh_deliveries_def fresh_event_def by (auto simp: one_answer_def inj_def)
  ultimately show "fresh_answers (snd ?c) one_answer (fst ?c)" by (simp add: fresh_answers_def)
qed

subsection \<open>Observations\<close>

text \<open>The claim does not look at the attempts a delivery has left: one that used them all up under a runner that
  stopped is claimed again, past its maximum, as often as its lease expires.\<close>

definition exhausted_bus :: "int bus_db" where
  "exhausted_bus = put_delivery (\<lambda>d. True) (\<lambda>d. d\<lparr>dl_attempts := 5, dl_claimed_at := Some 0\<rparr>) sample_queued"

lemma claim_ignores_attempts: "map (\<lambda>j. (dj_attempts j, dj_max_attempts j)) (fst (claim_due (seconds 120) exhausted_bus 20 120)) = [(6, 5)]"
  by code_simp

text \<open>The event that reports an exhausted delivery is fanned out to the endpoint that failed as well, when its
  selection covers it; the new delivery can exhaust its attempts in the same way.\<close>

lemma failure_reaches_itself:
  "map (\<lambda>d. (dl_endpoint_id d, dl_status d)) (bd_deliveries (snd (deliver_one sample_bus_env
     (sample_answer (hd (fst (claim_due (seconds 120) exhausted_bus 20 120)))) (hd (fst (claim_due (seconds 120) exhausted_bus 20 120))) idle_tick
     (snd (claim_due (seconds 120) exhausted_bus 20 120))))) = [(5, ''failed''), (5, ''pending'')]"
  by code_simp

end
