(* ===== verification/Automation.thy ===== *)
theory Automation
  imports WorkflowEngine EventModel
begin

text \<open>
  Automation rules (\<open>crates/automation/src/condition.rs\<close>, \<open>binding.rs\<close>, \<open>model.rs\<close>, \<open>error.rs\<close>): the
  conditions an event must meet, the placeholders its payload fills, and the workflow a rule is stored
  as. Messages of refusals are dropped, and with them the path a message names. Serde's reading and
  writing of conditions and its printing of a value are arguments.
\<close>

datatype automation_error =
    AuDatabase
  | AuWorkflows workflow_error
  | AuAudit
  | AuInvalid string

definition automation_error_code :: "automation_error \<Rightarrow> string" where
  "automation_error_code e = (case e of AuDatabase \<Rightarrow> ''automation_store_error'' | AuWorkflows err \<Rightarrow> workflow_error_code err
     | AuAudit \<Rightarrow> ''automation_audit_error'' | AuInvalid c \<Rightarrow> c)"

definition workflows_result :: "workflow_error + 'a \<Rightarrow> automation_error + 'a" where
  "workflows_result r = (case r of Inl e \<Rightarrow> Inl (AuWorkflows e) | Inr x \<Rightarrow> Inr x)"

subsection \<open>Conditions\<close>

definition RULE_MAX_CONDITIONS :: nat where "RULE_MAX_CONDITIONS = 10"
definition MAX_FIELD_SEGMENTS :: nat where "MAX_FIELD_SEGMENTS = 5"
definition MAX_FIELD_SEGMENT :: nat where "MAX_FIELD_SEGMENT = 64"
definition MAX_COMPARISON_TEXT :: nat where "MAX_COMPARISON_TEXT = 512"

datatype condition_operator = CoEquals | CoNotEquals | CoContains | CoNotContains | CoStartsWith | CoEndsWith | CoIn | CoExists | CoNotExists

definition ALL_OPERATORS :: "condition_operator list" where
  "ALL_OPERATORS = [CoEquals, CoNotEquals, CoContains, CoNotContains, CoStartsWith, CoEndsWith, CoIn, CoExists, CoNotExists]"

definition operator_str :: "condition_operator \<Rightarrow> string" where
  "operator_str op = (case op of CoEquals \<Rightarrow> ''equals'' | CoNotEquals \<Rightarrow> ''not_equals'' | CoContains \<Rightarrow> ''contains''
     | CoNotContains \<Rightarrow> ''not_contains'' | CoStartsWith \<Rightarrow> ''starts_with'' | CoEndsWith \<Rightarrow> ''ends_with'' | CoIn \<Rightarrow> ''in''
     | CoExists \<Rightarrow> ''exists'' | CoNotExists \<Rightarrow> ''not_exists'')"

definition parse_operator :: "string \<Rightarrow> condition_operator option" where
  "parse_operator raw = find (\<lambda>op. operator_str op = raw) ALL_OPERATORS"

lemma parse_operator_str [simp]: "parse_operator (operator_str op) = Some op"
  by (cases op) (simp_all add: parse_operator_def ALL_OPERATORS_def operator_str_def)

definition needs_value :: "condition_operator \<Rightarrow> bool" where
  "needs_value op \<longleftrightarrow> op \<noteq> CoExists \<and> op \<noteq> CoNotExists"

definition is_text_operator :: "condition_operator \<Rightarrow> bool" where
  "is_text_operator op \<longleftrightarrow> op = CoContains \<or> op = CoNotContains \<or> op = CoStartsWith \<or> op = CoEndsWith"

record 'n rule_condition =
  cd_field :: string
  cd_operator :: condition_operator
  cd_value :: "'n json option"

definition compare_condition :: "string \<Rightarrow> condition_operator \<Rightarrow> 'n json \<Rightarrow> 'n rule_condition" where
  "compare_condition field op value = \<lparr>cd_field = field, cd_operator = op, cd_value = Some value\<rparr>"

definition presence_condition :: "string \<Rightarrow> condition_operator \<Rightarrow> 'n rule_condition" where
  "presence_condition field op = \<lparr>cd_field = field, cd_operator = op, cd_value = None\<rparr>"

definition resolve_field :: "'n json \<Rightarrow> string \<Rightarrow> 'n json option" where
  "resolve_field payload field = jwalk payload (split_on CHR ''.'' field)"

definition both_text :: "'n json option \<Rightarrow> 'n json option \<Rightarrow> (string \<Rightarrow> string \<Rightarrow> bool) \<Rightarrow> bool" where
  "both_text found wanted predicate =
     (case (Option.bind found as_str, Option.bind wanted as_str) of (Some f, Some w) \<Rightarrow> predicate f w | _ \<Rightarrow> False)"

definition condition_holds :: "'n rule_condition \<Rightarrow> 'n json \<Rightarrow> bool" where
  "condition_holds c payload =
     (let found = resolve_field payload (cd_field c) in
      case cd_operator c of
        CoExists \<Rightarrow> (case found of None \<Rightarrow> False | Some v \<Rightarrow> \<not> is_null v)
      | CoNotExists \<Rightarrow> (case found of None \<Rightarrow> True | Some v \<Rightarrow> is_null v)
      | CoEquals \<Rightarrow> (case (found, cd_value c) of (Some f, Some w) \<Rightarrow> f = w | _ \<Rightarrow> False)
      | CoNotEquals \<Rightarrow> (case (found, cd_value c) of (Some f, Some w) \<Rightarrow> f \<noteq> w | _ \<Rightarrow> False)
      | CoContains \<Rightarrow> both_text found (cd_value c) str_contains
      | CoNotContains \<Rightarrow> both_text found (cd_value c) (\<lambda>haystack needle. \<not> str_contains haystack needle)
      | CoStartsWith \<Rightarrow> both_text found (cd_value c) starts_with
      | CoEndsWith \<Rightarrow> both_text found (cd_value c) ends_with
      | CoIn \<Rightarrow> (case (found, cd_value c) of (Some f, Some (JArray vs)) \<Rightarrow> list_ex (\<lambda>v. v = f) vs | _ \<Rightarrow> False))"

definition all_hold :: "'n rule_condition list \<Rightarrow> 'n json \<Rightarrow> bool" where
  "all_hold conditions payload \<longleftrightarrow> list_all (\<lambda>c. condition_holds c payload) conditions"

definition field_segment_ok :: "string \<Rightarrow> bool" where
  "field_segment_ok segment \<longleftrightarrow>
     segment \<noteq> [] \<and> str_len segment \<le> MAX_FIELD_SEGMENT \<and>
     (is_ascii_alphabetic (hd segment) \<or> hd segment = CHR ''_'') \<and>
     list_all (\<lambda>c. is_ascii_alphanumeric c \<or> c = CHR ''_'') segment"

definition validate_field :: "string \<Rightarrow> automation_error + unit" where
  "validate_field field =
     (let trimmed = trim field; segments = split_on CHR ''.'' trimmed in
      if trimmed = [] then Inl (AuInvalid ''invalid_conditions'')
      else if length segments > MAX_FIELD_SEGMENTS then Inl (AuInvalid ''invalid_conditions'')
      else if list_all field_segment_ok segments then Inr () else Inl (AuInvalid ''invalid_conditions''))"

definition validate_comparison :: "'n rule_condition \<Rightarrow> automation_error + unit" where
  "validate_comparison c =
     (let op = cd_operator c in
      if cd_value c = None \<and> needs_value op then Inl (AuInvalid ''invalid_conditions'')
      else if cd_value c \<noteq> None \<and> \<not> needs_value op then Inl (AuInvalid ''invalid_conditions'')
      else if is_text_operator op \<and> (case cd_value c of None \<Rightarrow> False
              | Some v \<Rightarrow> (case as_str v of None \<Rightarrow> True | Some t \<Rightarrow> length t > MAX_COMPARISON_TEXT))
        then Inl (AuInvalid ''invalid_conditions'')
      else if op = CoIn \<and> (case cd_value c of Some (JArray vs) \<Rightarrow> vs = [] | _ \<Rightarrow> True)
        then Inl (AuInvalid ''invalid_conditions'')
      else Inr ())"

fun validate_each :: "'n rule_condition list \<Rightarrow> automation_error + unit" where
  "validate_each [] = Inr ()"
| "validate_each (c # cs) =
     res_bind (validate_field (cd_field c)) (\<lambda>_. res_bind (validate_comparison c) (\<lambda>_. validate_each cs))"

definition validate_rule_conditions :: "'n rule_condition list \<Rightarrow> automation_error + unit" where
  "validate_rule_conditions conditions =
     (if length conditions > RULE_MAX_CONDITIONS then Inl (AuInvalid ''invalid_conditions'') else validate_each conditions)"

subsection \<open>Placeholders\<close>

definition OPEN :: string where "OPEN = ''{{''"
definition CLOSE :: string where "CLOSE = ''}}''"
definition MAX_EXPRESSION :: nat where "MAX_EXPRESSION = 160"

definition usable_expression :: "string \<Rightarrow> bool" where
  "usable_expression e \<longleftrightarrow> e \<noteq> [] \<and> str_len e \<le> MAX_EXPRESSION \<and> \<not> list_ex (\<lambda>c. c = CHR ''{'' \<or> c = CHR ''}'') e"

text \<open>The text before the first opening, the trimmed expression and the text after its closing.\<close>

datatype placeholder = NoPlaceholder | Unclosed | Placeholder string string string

definition next_placeholder :: "string \<Rightarrow> placeholder" where
  "next_placeholder rest =
     (case str_find rest OPEN of
        None \<Rightarrow> NoPlaceholder
      | Some start \<Rightarrow>
          (let after = drop (start + length OPEN) rest in
           case str_find after CLOSE of
             None \<Rightarrow> Unclosed
           | Some n \<Rightarrow> Placeholder (take start rest) (trim (take n after)) (drop (n + length CLOSE) after)))"

lemma str_find_length: "str_find s p = Some i \<Longrightarrow> i + length p \<le> length s"
proof (induction s arbitrary: i)
  case (Cons x s)
  show ?case
  proof (cases "starts_with (x # s) p")
    case True
    then have "i = 0" "take (length p) (x # s) = p" using Cons.prems by (simp_all add: starts_with_def)
    then show ?thesis by (metis add_0 length_take min.cobounded1)
  next
    case False
    then show ?thesis using Cons by auto
  qed
qed (simp split: if_splits)

lemma next_placeholder_shorter: "next_placeholder rest = Placeholder before e after \<Longrightarrow> length after < length rest"
  by (auto simp: next_placeholder_def Let_def OPEN_def split: option.splits dest: str_find_length)

function expressions :: "string \<Rightarrow> automation_error + string list" where
  "expressions rest =
     (case next_placeholder rest of
        NoPlaceholder \<Rightarrow> Inr []
      | Unclosed \<Rightarrow> Inl (AuInvalid ''invalid_binding'')
      | Placeholder _ e after \<Rightarrow>
          if usable_expression e then res_bind (expressions after) (\<lambda>es. Inr (e # es)) else Inl (AuInvalid ''invalid_binding''))"
  by pat_completeness auto
termination
  by (relation "measure length") (simp_all add: next_placeholder_shorter)

declare expressions.simps [simp del]

definition lookup_binding :: "'n json \<Rightarrow> string \<Rightarrow> automation_error + 'n json" where
  "lookup_binding payload expression =
     (case strip_prefix ''event.'' expression of
        None \<Rightarrow> Inl (AuInvalid ''invalid_binding'')
      | Some raw \<Rightarrow>
          (let field = trim raw in
           if field = [] then Inl (AuInvalid ''invalid_binding'')
           else ok_or (AuInvalid ''invalid_binding'') (jwalk payload (split_on CHR ''.'' field))))"

definition display_value :: "('n json \<Rightarrow> string) \<Rightarrow> 'n json \<Rightarrow> string" where
  "display_value json_text v = (case v of JString s \<Rightarrow> s | JNull \<Rightarrow> [] | _ \<Rightarrow> json_text v)"

function splice :: "('n json \<Rightarrow> string) \<Rightarrow> 'n json \<Rightarrow> string \<Rightarrow> string \<Rightarrow> automation_error + string" where
  "splice json_text payload rendered rest =
     (case next_placeholder rest of
        NoPlaceholder \<Rightarrow> Inr (rendered @ rest)
      | Unclosed \<Rightarrow> Inl (AuInvalid ''invalid_binding'')
      | Placeholder before e after \<Rightarrow>
          res_bind (lookup_binding payload e) (\<lambda>v. splice json_text payload (rendered @ before @ display_value json_text v) after))"
  by pat_completeness auto
termination
  by (relation "measure (\<lambda>(_, _, _, rest). length rest)") (simp_all add: next_placeholder_shorter)

declare splice.simps [simp del]

definition str_rfind :: "string \<Rightarrow> string \<Rightarrow> nat option" where
  "str_rfind s p = map_option (\<lambda>i. length s - length p - i) (str_find (rev s) (rev p))"

definition resolve_text :: "('n json \<Rightarrow> string) \<Rightarrow> 'n json \<Rightarrow> string \<Rightarrow> automation_error + 'n json" where
  "resolve_text json_text payload text =
     res_bind (expressions text) (\<lambda>found.
       let start = (case str_find text OPEN of None \<Rightarrow> 0 | Some i \<Rightarrow> i);
           stop = (case str_rfind text CLOSE of None \<Rightarrow> 0 | Some i \<Rightarrow> i) + length CLOSE in
       if found = [] then Inr (JString text)
       else if length found = 1 \<and> start = 0 \<and> stop = length text then lookup_binding payload (hd found)
       else res_bind (splice json_text payload [] text) (\<lambda>t. Inr (JString t)))"

text \<open>The walk over a value; a rebuilt object inserts its keys in the order it reads them.\<close>

fun resolve :: "('n json \<Rightarrow> string) \<Rightarrow> 'n json \<Rightarrow> 'n json \<Rightarrow> automation_error + 'n json" where
  "resolve json_text payload (JString text) = resolve_text json_text payload text"
| "resolve json_text payload (JArray items) =
     res_bind (collect_results (map (resolve json_text payload) items)) (\<lambda>vs. Inr (JArray vs))"
| "resolve json_text payload (JObject m) =
     res_bind (collect_results (map (\<lambda>(k, v). res_bind (resolve json_text payload v) (\<lambda>w. Inr (k, w))) m))
       (\<lambda>kvs. Inr (JObject (bt_collect kvs)))"
| "resolve json_text payload v = Inr v"

definition resolve_params :: "('n json \<Rightarrow> string) \<Rightarrow> 'n json \<Rightarrow> 'n json \<Rightarrow> automation_error + 'n json" where
  "resolve_params json_text params payload = resolve json_text payload params"

lemma strip_prefix_shorter: "strip_prefix p s = Some r \<Longrightarrow> p \<noteq> [] \<Longrightarrow> length r < length s"
proof -
  assume "strip_prefix p s = Some r" and p: "p \<noteq> []"
  then have t: "take (length p) s = p" and r: "r = drop (length p) s" by (simp_all add: strip_prefix_def starts_with_def split: if_splits)
  have "s \<noteq> []" using t p by auto
  then show ?thesis using r p by simp
qed

function strip_namespace :: "string \<Rightarrow> string" where
  "strip_namespace s = (case strip_prefix ''event.'' s of None \<Rightarrow> s | Some r \<Rightarrow> strip_namespace r)"
  by pat_completeness auto
termination
  by (relation "measure length") (simp_all add: strip_prefix_shorter)

declare strip_namespace.simps [simp del]

definition check_expression :: "string \<Rightarrow> automation_error + unit" where
  "check_expression e =
     (if \<not> starts_with e ''event'' then Inl (AuInvalid ''invalid_binding'')
      else if e = ''event'' then Inl (AuInvalid ''invalid_binding'')
      else if trim (strip_namespace e) = [] then Inl (AuInvalid ''invalid_binding'')
      else Inr ())"

definition check_text :: "string \<Rightarrow> automation_error + unit" where
  "check_text text = res_bind (expressions text) (\<lambda>es. res_bind (collect_results (map check_expression es)) (\<lambda>_. Inr ()))"

fun json_strings :: "'n json \<Rightarrow> string list" where
  "json_strings (JString text) = [text]"
| "json_strings (JArray items) = concat (map json_strings items)"
| "json_strings (JObject m) = concat (map (\<lambda>(k, v). json_strings v) m)"
| "json_strings v = []"

definition validate_bindings :: "'n json \<Rightarrow> automation_error + unit" where
  "validate_bindings value = res_bind (collect_results (map check_text (json_strings value))) (\<lambda>_. Inr ())"

subsection \<open>Rules\<close>

definition RULE_MAX_NAME :: nat where "RULE_MAX_NAME = 80"
definition MAX_DESCRIPTION :: nat where "MAX_DESCRIPTION = 400"

record 'n automation_rule =
  ar_id :: uuid
  ar_organization_id :: uuid
  ar_site_id :: "uuid option"
  ar_name :: string
  ar_description :: string
  ar_enabled :: bool
  ar_event :: string
  ar_conditions :: "'n rule_condition list"
  ar_actions :: "'n step_definition list"
  ar_trigger_count :: int
  ar_last_triggered_at :: "instant option"
  ar_created_at :: instant
  ar_updated_at :: instant

record 'n automation_env =
  ae_workflows :: "'n wf_env"
  ae_read_conditions :: "'n json \<Rightarrow> 'n rule_condition list option"
  ae_write_condition :: "'n rule_condition \<Rightarrow> 'n json"
  ae_write_steps :: "'n step_definition list \<Rightarrow> 'n json"
  ae_json_text :: "'n json \<Rightarrow> string"

definition rule_from_workflow :: "'n automation_env \<Rightarrow> 'n workflow \<Rightarrow> automation_error + 'n automation_rule option" where
  "rule_from_workflow env w =
     (if workflow_trigger w \<noteq> Event then Inr None
      else res_bind (ok_or (AuInvalid ''rule_unreadable'') (wf_trigger_event w)) (\<lambda>event.
           res_bind (ok_or (AuInvalid ''rule_unreadable'') (ae_read_conditions env (wf_conditions w))) (\<lambda>conditions.
           res_bind (workflows_result (workflow_definitions (en_read_steps (ae_workflows env)) w)) (\<lambda>actions.
             Inr (Some \<lparr>ar_id = wf_id w, ar_organization_id = wf_organization_id w, ar_site_id = wf_site_id w, ar_name = wf_name w,
               ar_description = wf_description w, ar_enabled = wf_enabled w, ar_event = event, ar_conditions = conditions,
               ar_actions = actions, ar_trigger_count = wf_trigger_count w, ar_last_triggered_at = wf_last_triggered_at w,
               ar_created_at = wf_created_at w, ar_updated_at = wf_updated_at w\<rparr>)))))"

definition validate_rule_event :: "string \<Rightarrow> automation_error + string" where
  "validate_rule_event raw = (case validate_event_name raw of Inl _ \<Rightarrow> Inl (AuInvalid ''invalid_event'') | Inr n \<Rightarrow> Inr n)"

definition validate_rule_name :: "string \<Rightarrow> automation_error + string" where
  "validate_rule_name raw =
     (let name = trim raw in
      if name = [] then Inl (AuInvalid ''invalid_name'')
      else if length name > RULE_MAX_NAME then Inl (AuInvalid ''invalid_name'') else Inr name)"

definition validate_description :: "string \<Rightarrow> automation_error + string" where
  "validate_description raw =
     (let description = trim raw in
      if length description > MAX_DESCRIPTION then Inl (AuInvalid ''invalid_description'') else Inr description)"

text \<open>The engine's check is a partial function only through the schedules, which an event trigger has not.\<close>

definition build_definition ::
  "'n automation_env \<Rightarrow> instant \<Rightarrow> string \<Rightarrow> 'n rule_condition list \<Rightarrow> 'n step_definition list \<Rightarrow>
   (automation_error + 'n workflow_definition) option" where
  "build_definition env now raw conditions actions =
     (let as_i64 = en_as_i64 (ae_workflows env); cal = en_calendar (ae_workflows env) in
      case res_bind (validate_rule_event raw) (\<lambda>event.
             res_bind (validate_rule_conditions conditions) (\<lambda>_.
             res_bind (collect_results (map (\<lambda>s. validate_bindings (sd_params s)) actions)) (\<lambda>_. Inr event))) of
        Inl e \<Rightarrow> Some (Inl e)
      | Inr event \<Rightarrow>
          Option.bind (new_definition as_i64 cal now (event_trigger event) actions) (\<lambda>r.
            case r of
              Inl e \<Rightarrow> Some (Inl (AuWorkflows e))
            | Inr d \<Rightarrow>
                (let d' = d\<lparr>df_conditions := map (ae_write_condition env) conditions\<rparr> in
                 map_option (\<lambda>v. case v of Inl e \<Rightarrow> Inl (AuWorkflows e) | Inr _ \<Rightarrow> Inr d')
                   (validate_definition as_i64 cal now d'))))"

record 'n new_rule =
  nr_name :: string
  nr_description :: string
  nr_enabled :: bool
  nr_site_id :: "uuid option"
  nr_event :: string
  nr_conditions :: "'n rule_condition list"
  nr_actions :: "'n step_definition list"

definition new_rule_definition :: "'n automation_env \<Rightarrow> instant \<Rightarrow> 'n new_rule \<Rightarrow> (automation_error + 'n workflow_definition) option" where
  "new_rule_definition env now r =
     (case validate_rule_name (nr_name r) of
        Inl e \<Rightarrow> Some (Inl e)
      | Inr _ \<Rightarrow> (case validate_description (nr_description r) of
                Inl e \<Rightarrow> Some (Inl e)
              | Inr _ \<Rightarrow> build_definition env now (nr_event r) (nr_conditions r) (nr_actions r)))"

definition rule_definition :: "'n automation_env \<Rightarrow> instant \<Rightarrow> 'n automation_rule \<Rightarrow> (automation_error + 'n workflow_definition) option" where
  "rule_definition env now r = build_definition env now (ar_event r) (ar_conditions r) (ar_actions r)"

subsection \<open>What a placeholder can read\<close>

lemma splice_succeeds:
  assumes "expressions rest = Inr es"
  shows "(\<exists>t. splice json_text payload rendered rest = Inr t) \<longleftrightarrow> (\<forall>e \<in> set es. \<exists>w. lookup_binding payload e = Inr w)"
  using assms
proof (induction rest arbitrary: es rendered rule: expressions.induct)
  case (1 rest)
  show ?case
  proof (cases "next_placeholder rest")
    case (Placeholder before e after)
    then obtain fs where fs: "usable_expression e" "expressions after = Inr fs" "es = e # fs"
      using "1.prems" by (subst (asm) expressions.simps) (auto simp: res_bind_Inr_conv split: if_splits)
    show ?thesis
    proof (cases "lookup_binding payload e")
      case (Inr v)
      then show ?thesis
        using "1.IH"[OF Placeholder fs(1) fs(2)] Placeholder fs(3) by (subst splice.simps) simp
    qed (use Placeholder fs(3) in \<open>subst splice.simps, simp\<close>)
  qed (use "1.prems" in \<open>subst splice.simps, subst (asm) expressions.simps, simp\<close>)+
qed

lemma splice_cong:
  assumes "expressions rest = Inr es" "\<forall>e \<in> set es. lookup_binding payload e = lookup_binding payload' e"
  shows "splice json_text payload' rendered rest = splice json_text payload rendered rest"
  using assms
proof (induction rest arbitrary: es rendered rule: expressions.induct)
  case (1 rest)
  show ?case
  proof (cases "next_placeholder rest")
    case (Placeholder before e after)
    then obtain fs where fs: "usable_expression e" "expressions after = Inr fs" "es = e # fs"
      using "1.prems"(1) by (subst (asm) expressions.simps) (auto simp: res_bind_Inr_conv split: if_splits)
    have "lookup_binding payload' e = lookup_binding payload e" "\<forall>e \<in> set fs. lookup_binding payload e = lookup_binding payload' e"
      using "1.prems"(2) fs(3) by simp_all
    then have "(\<lambda>v. splice json_text payload' (rendered @ before @ display_value json_text v) after) =
        (\<lambda>v. splice json_text payload (rendered @ before @ display_value json_text v) after)" "lookup_binding payload' e = lookup_binding payload e"
      using "1.IH"[OF Placeholder fs(1) fs(2)] by auto
    then show ?thesis using Placeholder by (subst (1 2) splice.simps) simp
  qed (subst (1 2) splice.simps, simp)+
qed

definition fills :: "'n json \<Rightarrow> string \<Rightarrow> bool" where
  "fills payload text \<longleftrightarrow> (\<exists>es. expressions text = Inr es \<and> (\<forall>e \<in> set es. \<exists>w. lookup_binding payload e = Inr w))"

definition reads_alike :: "'n json \<Rightarrow> 'n json \<Rightarrow> string \<Rightarrow> bool" where
  "reads_alike payload payload' text \<longleftrightarrow>
     (case expressions text of Inl _ \<Rightarrow> True | Inr es \<Rightarrow> \<forall>e \<in> set es. lookup_binding payload e = lookup_binding payload' e)"

lemma resolve_text_succeeds: "(\<exists>v. resolve_text json_text payload text = Inr v) \<longleftrightarrow> fills payload text"
proof (cases "expressions text")
  case (Inl e)
  then show ?thesis by (simp add: resolve_text_def fills_def)
next
  case (Inr es)
  consider "es = []" | e where "es = [e]" | "1 < length es" by (cases es; cases "tl es") auto
  then show ?thesis
  proof cases
    case 1
    then show ?thesis using Inr by (simp add: resolve_text_def fills_def)
  next
    case (2 e)
    then show ?thesis using Inr splice_succeeds[OF Inr, of json_text payload "[]"]
      by (auto simp: resolve_text_def fills_def Let_def res_bind_Inr_conv)
  next
    case 3
    then show ?thesis using Inr splice_succeeds[OF Inr, of json_text payload "[]"]
      by (auto simp: resolve_text_def fills_def Let_def res_bind_Inr_conv)
  qed
qed

lemma resolve_text_cong: "reads_alike payload payload' text \<Longrightarrow> resolve_text json_text payload' text = resolve_text json_text payload text"
proof (cases "expressions text")
  case (Inr es)
  assume "reads_alike payload payload' text"
  then have same: "\<forall>e \<in> set es. lookup_binding payload e = lookup_binding payload' e" using Inr by (simp add: reads_alike_def)
  then have "es \<noteq> [] \<Longrightarrow> lookup_binding payload' (hd es) = lookup_binding payload (hd es)" by simp
  then show ?thesis using Inr splice_cong[OF Inr same] by (auto simp: resolve_text_def Let_def)
qed (simp add: resolve_text_def)

lemma collect_results_succeeds: "(\<exists>ys. collect_results rs = Inr ys) \<longleftrightarrow> (\<forall>r \<in> set rs. \<exists>x. r = Inr x)"
proof (induction rs)
  case (Cons r rs)
  then show ?case by (cases r) (auto simp: res_bind_Inr_conv)
qed simp

lemma resolve_succeeds: "(\<exists>w. resolve json_text payload v = Inr w) \<longleftrightarrow> (\<forall>text \<in> set (json_strings v). fills payload text)"
proof (induction json_text payload v rule: resolve.induct)
  case (1 json_text payload t)
  then show ?case by (simp add: resolve_text_succeeds)
next
  case (2 json_text payload items)
  have "(\<exists>w. resolve json_text payload (JArray items) = Inr w) \<longleftrightarrow> (\<forall>x \<in> set items. \<exists>w. resolve json_text payload x = Inr w)"
    using collect_results_succeeds[of "map (resolve json_text payload) items"] by (auto simp: res_bind_Inr_conv)
  then show ?case using 2 by auto
next
  case (3 json_text payload m)
  have "(\<exists>w. resolve json_text payload (JObject m) = Inr w) \<longleftrightarrow> (\<forall>(k, x) \<in> set m. \<exists>w. resolve json_text payload x = Inr w)"
    using collect_results_succeeds[of "map (\<lambda>(k, v). res_bind (resolve json_text payload v) (\<lambda>w. Inr (k, w))) m"]
    by (fastforce simp: res_bind_Inr_conv)
  then show ?case using 3 by fastforce
qed simp_all

lemma resolve_cong: "\<forall>text \<in> set (json_strings v). reads_alike payload payload' text \<Longrightarrow> resolve json_text payload' v = resolve json_text payload v"
proof (induction json_text payload v rule: resolve.induct)
  case (1 json_text payload t)
  then show ?case by (simp add: resolve_text_cong)
next
  case (2 json_text payload items)
  then have "map (resolve json_text payload') items = map (resolve json_text payload) items" by auto
  then show ?case by (simp only: resolve.simps)
next
  case (3 json_text payload m)
  have "resolve json_text payload' x = resolve json_text payload x" if "(k, x) \<in> set m" for k x
    using 3(1)[OF that refl] 3(2) that by fastforce
  then have "map (\<lambda>(k, v). res_bind (resolve json_text payload' v) (\<lambda>w. Inr (k, w))) m =
      map (\<lambda>(k, v). res_bind (resolve json_text payload v) (\<lambda>w. Inr (k, w))) m"
    by (intro map_cong) auto
  then show ?case by (simp only: resolve.simps)
qed simp_all

end
