(* ===== verification/Matcher.thy ===== *)
theory Matcher
  imports Automation EventStore
begin

text \<open>
  The matcher (\<open>crates/automation/src/matcher.rs\<close>): one drain of the bus as one transaction over the
  cursor, the events and the tables of the workflow engine. Whether another matcher holds the cursor
  and the identifiers of the runs it starts are arguments. The audit rows that follow the commit are
  written at once, their failures, which the code only logs, left out; the reason of a skipped rule is
  the code of its error, messages being dropped.
\<close>

definition DEFAULT_MATCH_BATCH :: int where "DEFAULT_MATCH_BATCH = 100"
definition MAX_MATCH_BATCH :: int where "MAX_MATCH_BATCH = 1000"

record match_report =
  mr_cursor :: int
  mr_evaluated :: nat
  mr_matched :: nat
  mr_skipped :: nat
  mr_runs :: "uuid list"
  mr_idle :: bool

definition empty_match :: match_report where
  "empty_match = \<lparr>mr_cursor = 0, mr_evaluated = 0, mr_matched = 0, mr_skipped = 0, mr_runs = [], mr_idle = False\<rparr>"

record 'n match_db =
  md_workflows :: "'n wf_db"
  md_events :: "'n bus_event list"
  md_cursor :: int

definition event_cursor :: "'n match_db \<Rightarrow> int" where
  "event_cursor db = md_cursor db"

definition last_event_id :: "'n bus_event list \<Rightarrow> int" where
  "last_event_id es = (case es of [] \<Rightarrow> 0 | e # rest \<Rightarrow> fold (\<lambda>x m. max (ev_id x) m) rest (ev_id e))"

definition seed_cursor :: "'n match_db \<Rightarrow> int option \<times> 'n match_db" where
  "seed_cursor db =
     (if md_cursor db = 0 then (Some (last_event_id (md_events db)), db\<lparr>md_cursor := last_event_id (md_events db)\<rparr>) else (None, db))"

fun resolve_steps :: "('n json \<Rightarrow> string) \<Rightarrow> 'n json \<Rightarrow> 'n step_definition list \<Rightarrow> automation_error + 'n step_definition list" where
  "resolve_steps json_text payload [] = Inr []"
| "resolve_steps json_text payload (s # ss) =
     res_bind (resolve_params json_text (sd_params s) payload) (\<lambda>params.
     res_bind (resolve_steps json_text payload ss) (\<lambda>rest. Inr (s\<lparr>sd_params := params\<rparr> # rest)))"

text \<open>The state of a drain: the tables inside the transaction, the report, the started runs and the rules
  that could not be run.\<close>

record 'n drain_state =
  ds_db :: "'n wf_db"
  ds_report :: match_report
  ds_started :: "('n workflow \<times> execution) list"
  ds_failures :: "(uuid \<times> int \<times> automation_error) list"

definition skip_rule :: "'n drain_state \<Rightarrow> 'n drain_state" where
  "skip_rule st = st\<lparr>ds_report := (ds_report st)\<lparr>mr_skipped := mr_skipped (ds_report st) + 1\<rparr>\<rparr>"

definition fail_rule :: "'n workflow \<Rightarrow> 'n bus_event \<Rightarrow> automation_error \<Rightarrow> 'n drain_state \<Rightarrow> 'n drain_state" where
  "fail_rule w e err st = (skip_rule st)\<lparr>ds_failures := ds_failures st @ [(wf_id w, ev_id e, err)]\<rparr>"

definition start_matched ::
  "instant \<Rightarrow> (nat \<Rightarrow> uuid) \<Rightarrow> (nat \<Rightarrow> nat \<Rightarrow> uuid) \<Rightarrow> 'n workflow \<Rightarrow> 'n step_definition list \<Rightarrow> 'n drain_state \<Rightarrow>
   automation_error + 'n drain_state" where
  "start_matched now fresh ids w steps st =
     (let k = length (ds_started st) in
      case create_execution now (ds_db st) (fresh k) (ids k) w Event None steps of
        (Inl err, _) \<Rightarrow> Inl (AuWorkflows err)
      | (Inr (e, _), db') \<Rightarrow>
          Inr (st\<lparr>ds_db := note_match now (wf_id w) db',
                 ds_report := (ds_report st)\<lparr>mr_matched := mr_matched (ds_report st) + 1, mr_runs := mr_runs (ds_report st) @ [ex_id e]\<rparr>,
                 ds_started := ds_started st @ [(w, e)]\<rparr>))"

definition match_rule ::
  "'n automation_env \<Rightarrow> instant \<Rightarrow> (nat \<Rightarrow> uuid) \<Rightarrow> (nat \<Rightarrow> nat \<Rightarrow> uuid) \<Rightarrow> 'n bus_event \<Rightarrow> 'n workflow \<Rightarrow> 'n drain_state \<Rightarrow>
   automation_error + 'n drain_state" where
  "match_rule env now fresh ids e w st =
     (case rule_from_workflow env w of
        Inr None \<Rightarrow> Inr st
      | Inl err \<Rightarrow> Inr (fail_rule w e err st)
      | Inr (Some rule) \<Rightarrow>
          if \<not> all_hold (ar_conditions rule) (ev_payload e) then Inr (skip_rule st)
          else (case resolve_steps (ae_json_text env) (ev_payload e) (ar_actions rule) of
                  Inl err \<Rightarrow> Inr (fail_rule w e err st)
                | Inr steps \<Rightarrow> start_matched now fresh ids w steps st))"

fun match_rules ::
  "'n automation_env \<Rightarrow> instant \<Rightarrow> (nat \<Rightarrow> uuid) \<Rightarrow> (nat \<Rightarrow> nat \<Rightarrow> uuid) \<Rightarrow> 'n bus_event \<Rightarrow> 'n workflow list \<Rightarrow> 'n drain_state \<Rightarrow>
   automation_error + 'n drain_state" where
  "match_rules env now fresh ids e [] st = Inr st"
| "match_rules env now fresh ids e (w # ws) st = res_bind (match_rule env now fresh ids e w st) (match_rules env now fresh ids e ws)"

definition count_event :: "'n drain_state \<Rightarrow> 'n drain_state" where
  "count_event st = st\<lparr>ds_report := (ds_report st)\<lparr>mr_evaluated := mr_evaluated (ds_report st) + 1\<rparr>\<rparr>"

definition rules_for :: "'n wf_db \<Rightarrow> 'n bus_event \<Rightarrow> 'n workflow list" where
  "rules_for db e = (case ev_organization_id e of None \<Rightarrow> [] | Some org \<Rightarrow> list_event_rules db org (ev_site_id e) (ev_name e))"

fun match_events ::
  "'n automation_env \<Rightarrow> instant \<Rightarrow> (nat \<Rightarrow> uuid) \<Rightarrow> (nat \<Rightarrow> nat \<Rightarrow> uuid) \<Rightarrow> 'n bus_event list \<Rightarrow> 'n drain_state \<Rightarrow>
   automation_error + 'n drain_state" where
  "match_events env now fresh ids [] st = Inr st"
| "match_events env now fresh ids (e # es) st =
     res_bind (match_rules env now fresh ids e (rules_for (ds_db st) e) (count_event st)) (match_events env now fresh ids es)"

definition record_match :: "'n workflow \<Rightarrow> execution \<Rightarrow> 'n wf_db \<Rightarrow> 'n wf_db" where
  "record_match w e db = db\<lparr>wd_audit := wd_audit db @ [\<lparr>wa_action = ''automation.rule.matched'',
     wa_organization_id = wf_organization_id w, wa_target = ex_id e, wa_error = None\<rparr>]\<rparr>"

definition record_skip :: "uuid \<Rightarrow> string \<Rightarrow> 'n wf_db \<Rightarrow> 'n wf_db" where
  "record_skip i reason db =
     (case find_workflow db i of
        None \<Rightarrow> db
      | Some w \<Rightarrow> db\<lparr>wd_audit := wd_audit db @ [\<lparr>wa_action = ''automation.rule.skipped'',
          wa_organization_id = wf_organization_id w, wa_target = i, wa_error = Some reason\<rparr>]\<rparr>)"

definition record_drain :: "'n drain_state \<Rightarrow> 'n wf_db" where
  "record_drain st =
     fold (\<lambda>(i, _, err) db. record_skip i (automation_error_code err) db) (ds_failures st)
       (fold (\<lambda>(w, e) db. record_match w e (record_start w e db)) (ds_started st) (ds_db st))"

definition batch_of :: "int \<Rightarrow> nat" where
  "batch_of batch = nat (max 1 (min batch MAX_MATCH_BATCH))"

definition unread_events :: "int \<Rightarrow> 'n match_db \<Rightarrow> 'n bus_event list" where
  "unread_events batch db = take (batch_of batch) (sort_key ev_id (filter (\<lambda>e. md_cursor db < ev_id e) (md_events db)))"

definition drain ::
  "'n automation_env \<Rightarrow> instant \<Rightarrow> bool \<Rightarrow> int \<Rightarrow> (nat \<Rightarrow> uuid) \<Rightarrow> (nat \<Rightarrow> nat \<Rightarrow> uuid) \<Rightarrow> 'n match_db \<Rightarrow>
   (automation_error + match_report) \<times> 'n match_db" where
  "drain env now locked batch fresh ids db =
     (let events = unread_events batch db in
      if locked then (Inr (empty_match\<lparr>mr_idle := True\<rparr>), db)
      else if events = [] then (Inr (empty_match\<lparr>mr_cursor := md_cursor db, mr_idle := True\<rparr>), db)
      else (case match_events env now fresh ids events
                   \<lparr>ds_db = md_workflows db, ds_report = empty_match\<lparr>mr_cursor := md_cursor db\<rparr>, ds_started = [], ds_failures = []\<rparr> of
              Inl err \<Rightarrow> (Inl err, db)
            | Inr st \<Rightarrow>
                (Inr ((ds_report st)\<lparr>mr_cursor := ev_id (last events)\<rparr>),
                 db\<lparr>md_workflows := record_drain st, md_cursor := ev_id (last events)\<rparr>)))"

definition update_from_rule :: "'n automation_env \<Rightarrow> instant \<Rightarrow> 'n automation_rule \<Rightarrow> 'n workflow_update option option" where
  "update_from_rule env now r =
     map_option (\<lambda>res. case res of
         Inl _ \<Rightarrow> None
       | Inr d \<Rightarrow> Some \<lparr>wu_name = ar_name r, wu_description = ar_description r, wu_site_id = ar_site_id r, wu_enabled = ar_enabled r,
           wu_trigger = Event, wu_schedule = None, wu_trigger_event = Some (ar_event r), wu_conditions = JArray (df_conditions d),
           wu_next_run_at = None, wu_steps = ae_write_steps env (df_steps d)\<rparr>)
       (rule_definition env now r)"

end
