(* ===== verification/MatcherLaws.thy ===== *)
theory MatcherLaws
  imports Matcher WorkflowRuns
begin

text \<open>
  What a drain does to the tables, told without its loops; what holds over any sequence of drains and
  emissions; and where the matcher does not do what it means to.
\<close>

subsection \<open>Rules under a drain\<close>

text \<open>A match changes the counters of its rule and nothing else of any rule.\<close>

definition bumped :: "'n workflow \<Rightarrow> 'n workflow \<Rightarrow> bool" where
  "bumped w w' \<longleftrightarrow> (\<exists>t n. w' = w\<lparr>wf_last_triggered_at := t, wf_trigger_count := n\<rparr>)"

lemma bumped_refl [simp]: "bumped w w"
  unfolding bumped_def by (rule exI[of _ "wf_last_triggered_at w"], rule exI[of _ "wf_trigger_count w"]) simp

lemma bumped_fields:
  assumes "bumped w w'"
  shows "wf_id w' = wf_id w" "wf_organization_id w' = wf_organization_id w" "wf_site_id w' = wf_site_id w" "wf_enabled w' = wf_enabled w"
    "wf_trigger_kind w' = wf_trigger_kind w" "wf_trigger_event w' = wf_trigger_event w" "wf_conditions w' = wf_conditions w"
    "wf_steps w' = wf_steps w" "wf_created_at w' = wf_created_at w"
  using assms unfolding bumped_def by auto

lemma bumpedI: "bumped w (w\<lparr>wf_last_triggered_at := t, wf_trigger_count := n\<rparr>)"
  unfolding bumped_def by blast

lemma bumped_trans:
  assumes "bumped w w1" "bumped w1 w2"
  shows "bumped w w2"
proof -
  obtain t n t' n' where "w1 = w\<lparr>wf_last_triggered_at := t, wf_trigger_count := n\<rparr>" "w2 = w1\<lparr>wf_last_triggered_at := t', wf_trigger_count := n'\<rparr>"
    using assms unfolding bumped_def by blast
  then have "w2 = w\<lparr>wf_last_triggered_at := t', wf_trigger_count := n'\<rparr>" by simp
  then show ?thesis by (simp only: bumpedI)
qed

definition same_rules :: "'n wf_db \<Rightarrow> 'n wf_db \<Rightarrow> bool" where
  "same_rules db db' \<longleftrightarrow> list_all2 bumped (wd_workflows db) (wd_workflows db')"

lemma same_rules_refl [simp]: "wd_workflows db' = wd_workflows db \<Longrightarrow> same_rules db db'"
  by (simp add: same_rules_def list.rel_refl)

lemma same_rules_trans: "same_rules db db1 \<Longrightarrow> same_rules db1 db2 \<Longrightarrow> same_rules db db2"
  unfolding same_rules_def by (rule list_all2_trans[of bumped bumped bumped]) (rule bumped_trans)

lemma note_match_same: "same_rules db (note_match now i db)"
  by (auto simp: same_rules_def note_match_def put_workflow_def list_all2_map2 bumpedI intro!: list.rel_refl_strong)

lemma list_all2_filter: "list_all2 R xs ys \<Longrightarrow> \<forall>x y. R x y \<longrightarrow> P x = P y \<Longrightarrow> list_all2 R (filter P xs) (filter P ys)"
  by (induction rule: list_all2_induct) auto

lemma list_all2_insort: "list_all2 R xs ys \<Longrightarrow> R x y \<Longrightarrow> \<forall>x y. R x y \<longrightarrow> f x = f y \<Longrightarrow> list_all2 R (insort_key f x xs) (insort_key f y ys)"
  by (induction rule: list_all2_induct) auto

lemma list_all2_sort: "list_all2 R xs ys \<Longrightarrow> \<forall>x y. R x y \<longrightarrow> f x = f y \<Longrightarrow> list_all2 R (sort_key f xs) (sort_key f ys)"
  by (induction rule: list_all2_induct) (auto intro: list_all2_insort)

lemma rules_for_same:
  assumes "same_rules db db'"
  shows "list_all2 bumped (rules_for db e) (rules_for db' e)"
proof (cases "ev_organization_id e")
  case (Some org)
  have "list_all2 bumped (list_event_rules db org (ev_site_id e) (ev_name e)) (list_event_rules db' org (ev_site_id e) (ev_name e))"
    unfolding list_event_rules_def using assms unfolding same_rules_def
    by (intro list_all2_sort list_all2_filter) (auto simp: bumped_fields)
  then show ?thesis using Some by (simp add: rules_for_def)
qed (simp add: rules_for_def)

subsection \<open>Firing\<close>

definition resolved :: "'n automation_env \<Rightarrow> 'n bus_event \<Rightarrow> 'n workflow \<Rightarrow> 'n step_definition list option" where
  "resolved env e w =
     (case rule_from_workflow env w of
        Inr (Some rule) \<Rightarrow>
          if all_hold (ar_conditions rule) (ev_payload e)
          then (case resolve_steps (ae_json_text env) (ev_payload e) (ar_actions rule) of Inl _ \<Rightarrow> None | Inr steps \<Rightarrow> Some steps)
          else None
      | _ \<Rightarrow> None)"

definition rule_fires :: "'n automation_env \<Rightarrow> 'n bus_event \<Rightarrow> 'n workflow \<Rightarrow> bool" where
  "rule_fires env e w \<longleftrightarrow> resolved env e w \<noteq> None"

definition firings :: "'n automation_env \<Rightarrow> 'n wf_db \<Rightarrow> 'n bus_event list \<Rightarrow> ('n bus_event \<times> 'n workflow) list" where
  "firings env db es = concat (map (\<lambda>e. map (Pair e) (filter (rule_fires env e) (rules_for db e))) es)"

lemma bumped_resolved: "bumped w w' \<Longrightarrow> resolved env e w' = resolved env e w"
  unfolding resolved_def rule_from_workflow_def workflow_trigger_def workflow_definitions_def
  by (simp add: bumped_fields res_bind_def ok_or_def workflows_result_def split: option.split sum.split)

text \<open>A run started by an event, and the step rows it came with.\<close>

definition run_key :: "execution \<Rightarrow> uuid \<times> uuid option \<times> string \<times> string" where
  "run_key x = (ex_workflow_id x, Some (ex_organization_id x), ex_status x, ex_trigger_kind x)"

definition firing_key :: "'n bus_event \<times> 'n workflow \<Rightarrow> uuid \<times> uuid option \<times> string \<times> string" where
  "firing_key p = (wf_id (snd p), ev_organization_id (fst p), execution_str ExRunning, trigger_str Event)"

definition step_texts :: "'n wf_step list \<Rightarrow> (uuid \<times> string \<times> 'n json) list" where
  "step_texts rows = map (\<lambda>s. (ws_execution_id s, ws_name s, ws_params s)) rows"

definition firing_texts :: "'n automation_env \<Rightarrow> execution \<Rightarrow> 'n bus_event \<times> 'n workflow \<Rightarrow> (uuid \<times> string \<times> 'n json) list" where
  "firing_texts env x p =
     (case resolved env (fst p) (snd p) of None \<Rightarrow> [] | Some steps \<Rightarrow> map (\<lambda>d. (ex_id x, trim (sd_name d), sd_params d)) steps)"

definition grew ::
  "'n automation_env \<Rightarrow> 'n drain_state \<Rightarrow> 'n drain_state \<Rightarrow> ('n bus_event \<times> 'n workflow) list \<Rightarrow> bool" where
  "grew env st st' fs \<longleftrightarrow> same_rules (ds_db st) (ds_db st') \<and>
     (\<exists>xs. wd_executions (ds_db st') = wd_executions (ds_db st) @ xs \<and> map run_key xs = map firing_key fs \<and>
        mr_runs (ds_report st') = mr_runs (ds_report st) @ map ex_id xs \<and>
        mr_matched (ds_report st') = mr_matched (ds_report st) + length xs \<and>
        (\<exists>rows. wd_steps (ds_db st') = wd_steps (ds_db st) @ rows \<and> step_texts rows = concat (map2 (firing_texts env) xs fs)))"

lemma grew_none: "ds_db st' = ds_db st \<Longrightarrow> mr_runs (ds_report st') = mr_runs (ds_report st) \<Longrightarrow>
  mr_matched (ds_report st') = mr_matched (ds_report st) \<Longrightarrow> grew env st st' []"
  by (simp add: grew_def step_texts_def)

lemma grew_trans:
  assumes "grew env st st1 fs" "grew env st1 st2 gs"
  shows "grew env st st2 (fs @ gs)"
proof -
  obtain xs rows where a: "same_rules (ds_db st) (ds_db st1)" "wd_executions (ds_db st1) = wd_executions (ds_db st) @ xs"
    "map run_key xs = map firing_key fs" "mr_runs (ds_report st1) = mr_runs (ds_report st) @ map ex_id xs"
    "mr_matched (ds_report st1) = mr_matched (ds_report st) + length xs"
    "wd_steps (ds_db st1) = wd_steps (ds_db st) @ rows" "step_texts rows = concat (map2 (firing_texts env) xs fs)"
    using assms(1) unfolding grew_def by blast
  obtain ys more where b: "same_rules (ds_db st1) (ds_db st2)" "wd_executions (ds_db st2) = wd_executions (ds_db st1) @ ys"
    "map run_key ys = map firing_key gs" "mr_runs (ds_report st2) = mr_runs (ds_report st1) @ map ex_id ys"
    "mr_matched (ds_report st2) = mr_matched (ds_report st1) + length ys"
    "wd_steps (ds_db st2) = wd_steps (ds_db st1) @ more" "step_texts more = concat (map2 (firing_texts env) ys gs)"
    using assms(2) unfolding grew_def by blast
  have "same_rules (ds_db st) (ds_db st2)" by (rule same_rules_trans[OF a(1) b(1)])
  moreover have "length xs = length fs" using a(3) map_eq_imp_length_eq by blast
  then have "step_texts (rows @ more) = concat (map2 (firing_texts env) (xs @ ys) (fs @ gs))" using a(7) b(7) by (simp add: step_texts_def)
  ultimately show ?thesis unfolding grew_def using a b
    by (intro conjI exI[of _ "xs @ ys"] exI[of _ "rows @ more"]) simp_all
qed

lemma step_rows_texts: "step_texts (step_rows now ids fresh steps) = map (\<lambda>d. (fresh, trim (sd_name d), sd_params d)) steps"
proof -
  have "step_texts (step_rows now ids fresh steps) = map (\<lambda>d. (fresh, trim (sd_name d), sd_params d)) (map snd (enumerate 0 steps))"
    by (simp add: step_texts_def step_rows_def step_row_def split_def del: map_snd_enumerate)
  then show ?thesis by simp
qed

lemma note_match_tables [simp]:
  "wd_executions (note_match now i db) = wd_executions db" "wd_steps (note_match now i db) = wd_steps db" "wd_audit (note_match now i db) = wd_audit db"
  by (simp_all add: note_match_def put_workflow_def)

lemma start_matched_grows:
  assumes "start_matched now fresh ids w steps st = Inr st'" "resolved env e w = Some steps" "ev_organization_id e = Some (wf_organization_id w)"
  shows "grew env st st' [(e, w)]" "mr_evaluated (ds_report st') = mr_evaluated (ds_report st)"
proof -
  let ?k = "length (ds_started st)"
  obtain r db' where c: "create_execution now (ds_db st) (fresh ?k) (ids ?k) w Event None steps = (r, db')"
    by (cases "create_execution now (ds_db st) (fresh ?k) (ids ?k) w Event None steps")
  from c have "grew env st st' [(e, w)] \<and> mr_evaluated (ds_report st') = mr_evaluated (ds_report st)"
  proof (cases rule: create_execution_cases)
    case (1 err)
    then show ?thesis using assms(1) c by (simp add: start_matched_def Let_def)
  next
    case 2
    let ?x = "execution_row now (fresh ?k) w Event None"
    have st': "ds_db st' = note_match now (wf_id w) db'" "mr_runs (ds_report st') = mr_runs (ds_report st) @ [ex_id ?x]"
      "mr_matched (ds_report st') = mr_matched (ds_report st) + 1" "mr_evaluated (ds_report st') = mr_evaluated (ds_report st)"
      using assms(1) c 2(1) by (auto simp: start_matched_def Let_def)
    have "same_rules (ds_db st) db'" using 2(4) by simp
    then have "same_rules (ds_db st) (ds_db st')" unfolding st'(1) by (rule same_rules_trans) (rule note_match_same)
    moreover have "wd_executions (ds_db st') = wd_executions (ds_db st) @ [?x]" "wd_steps (ds_db st') = wd_steps (ds_db st) @ step_rows now (ids ?k) (fresh ?k) steps"
      using st'(1) 2(4) by simp_all
    moreover have "run_key ?x = firing_key (e, w)" using assms(3) by (simp add: run_key_def firing_key_def execution_row_def)
    moreover have "step_texts (step_rows now (ids ?k) (fresh ?k) steps) = concat (map2 (firing_texts env) [?x] [(e, w)])"
      using assms(2) by (simp add: step_rows_texts firing_texts_def execution_row_def)
    ultimately show ?thesis using st'(2-4) unfolding grew_def
      by (intro conjI exI[of _ "[?x]"] exI[of _ "step_rows now (ids ?k) (fresh ?k) steps"]) simp_all
  qed
  then show "grew env st st' [(e, w)]" "mr_evaluated (ds_report st') = mr_evaluated (ds_report st)" by blast+
qed

lemma quiet_rules [simp]:
  "ds_db (skip_rule st) = ds_db st" "mr_runs (ds_report (skip_rule st)) = mr_runs (ds_report st)"
  "mr_matched (ds_report (skip_rule st)) = mr_matched (ds_report st)" "mr_evaluated (ds_report (skip_rule st)) = mr_evaluated (ds_report st)"
  "ds_db (fail_rule w e err st) = ds_db st" "mr_runs (ds_report (fail_rule w e err st)) = mr_runs (ds_report st)"
  "mr_matched (ds_report (fail_rule w e err st)) = mr_matched (ds_report st)" "mr_evaluated (ds_report (fail_rule w e err st)) = mr_evaluated (ds_report st)"
  "ds_db (count_event st) = ds_db st" "mr_runs (ds_report (count_event st)) = mr_runs (ds_report st)"
  "mr_matched (ds_report (count_event st)) = mr_matched (ds_report st)" "mr_evaluated (ds_report (count_event st)) = mr_evaluated (ds_report st) + 1"
  by (simp_all add: skip_rule_def fail_rule_def count_event_def)

lemma match_rule_grows:
  assumes "match_rule env now fresh ids e w st = Inr st'" "ev_organization_id e = Some (wf_organization_id w)"
  shows "grew env st st' (if rule_fires env e w then [(e, w)] else []) \<and> mr_evaluated (ds_report st') = mr_evaluated (ds_report st)"
proof (cases "resolved env e w")
  case (Some steps)
  then obtain rule where "rule_from_workflow env w = Inr (Some rule)" "all_hold (ar_conditions rule) (ev_payload e)"
    "resolve_steps (ae_json_text env) (ev_payload e) (ar_actions rule) = Inr steps"
    by (auto simp: resolved_def split: sum.splits option.splits if_splits)
  then have "start_matched now fresh ids w steps st = Inr st'" using assms(1) by (simp add: match_rule_def)
  then show ?thesis using start_matched_grows[OF _ Some assms(2)] Some by (simp add: rule_fires_def)
next
  case None
  then have "st' = st \<or> st' = skip_rule st \<or> (\<exists>err. st' = fail_rule w e err st)"
    using assms(1) by (auto simp: match_rule_def resolved_def split: sum.splits option.splits if_splits)
  then show ?thesis using None by (auto simp: rule_fires_def intro: grew_none)
qed

lemma match_rules_grows:
  assumes "match_rules env now fresh ids e ws st = Inr st'" "\<forall>w \<in> set ws. ev_organization_id e = Some (wf_organization_id w)"
  shows "grew env st st' (map (Pair e) (filter (rule_fires env e) ws)) \<and> mr_evaluated (ds_report st') = mr_evaluated (ds_report st)"
  using assms
proof (induction ws arbitrary: st)
  case Nil
  then show ?case by (simp add: grew_none)
next
  case (Cons w ws)
  then obtain st1 where one: "match_rule env now fresh ids e w st = Inr st1" and rest: "match_rules env now fresh ids e ws st1 = Inr st'"
    by (auto simp: res_bind_Inr_conv)
  have "grew env st st1 (if rule_fires env e w then [(e, w)] else [])" "mr_evaluated (ds_report st1) = mr_evaluated (ds_report st)"
    using match_rule_grows[OF one] Cons.prems(2) by simp_all
  moreover have "grew env st1 st' (map (Pair e) (filter (rule_fires env e) ws))" "mr_evaluated (ds_report st') = mr_evaluated (ds_report st1)"
    using Cons.IH[OF rest] Cons.prems(2) by simp_all
  ultimately show ?case using grew_trans by fastforce
qed

lemma rules_for_tenant: "w \<in> set (rules_for db e) \<Longrightarrow> ev_organization_id e = Some (wf_organization_id w)"
  by (auto simp: rules_for_def list_event_rules_def split: option.splits)

lemma firings_same:
  assumes "same_rules db db'"
  shows "list_all2 (\<lambda>p q. fst p = fst q \<and> bumped (snd p) (snd q)) (firings env db es) (firings env db' es)"
proof (induction es)
  case (Cons e es)
  have "list_all2 bumped (filter (rule_fires env e) (rules_for db e)) (filter (rule_fires env e) (rules_for db' e))"
    by (rule list_all2_filter[OF rules_for_same[OF assms]]) (auto simp: rule_fires_def bumped_resolved)
  then have "list_all2 (\<lambda>p q. fst p = fst q \<and> bumped (snd p) (snd q))
      (map (Pair e) (filter (rule_fires env e) (rules_for db e))) (map (Pair e) (filter (rule_fires env e) (rules_for db' e)))"
    by (simp add: list_all2_map1 list_all2_map2)
  then show ?case using Cons unfolding firings_def by (simp add: list_all2_appendI)
qed (simp add: firings_def)

lemma firing_keys_same:
  "list_all2 (\<lambda>p q. fst p = fst q \<and> bumped (snd p) (snd q)) fs gs \<Longrightarrow>
     map firing_key gs = map firing_key fs \<and> (\<forall>xs. map2 (firing_texts env) xs gs = map2 (firing_texts env) xs fs)"
proof (induction rule: list_all2_induct)
  case (Cons p fs q gs)
  have "firing_key q = firing_key p" "firing_texts env x q = firing_texts env x p" for x
    using Cons(1) by (auto simp: firing_key_def firing_texts_def bumped_fields bumped_resolved)
  then show ?case using Cons(3) by (auto simp: zip_Cons split: list.split)
qed simp

lemma grew_keys: "grew env st st' gs \<Longrightarrow> map firing_key gs = map firing_key fs \<Longrightarrow> \<forall>xs. map2 (firing_texts env) xs gs = map2 (firing_texts env) xs fs \<Longrightarrow> grew env st st' fs"
  by (simp add: grew_def)

lemma grew_rules: "grew env st st' fs \<Longrightarrow> same_rules (ds_db st) (ds_db st')"
  by (simp add: grew_def)

lemma match_events_grows:
  "match_events env now fresh ids es st = Inr st' \<Longrightarrow>
     grew env st st' (firings env (ds_db st) es) \<and> mr_evaluated (ds_report st') = mr_evaluated (ds_report st) + length es"
proof (induction es arbitrary: st)
  case Nil
  then show ?case by (simp add: grew_none firings_def)
next
  case (Cons e es)
  then obtain st1 where one: "match_rules env now fresh ids e (rules_for (ds_db st) e) (count_event st) = Inr st1"
    and rest: "match_events env now fresh ids es st1 = Inr st'"
    by (auto simp: res_bind_Inr_conv)
  have head: "grew env (count_event st) st1 (map (Pair e) (filter (rule_fires env e) (rules_for (ds_db st) e)))"
    "mr_evaluated (ds_report st1) = mr_evaluated (ds_report st) + 1"
    using match_rules_grows[OF one] rules_for_tenant by auto
  have g1: "grew env st st1 (map (Pair e) (filter (rule_fires env e) (rules_for (ds_db st) e)))"
    using grew_trans[OF grew_none[of "count_event st" st] head(1)] by simp
  have g2: "grew env st1 st' (firings env (ds_db st1) es)" "mr_evaluated (ds_report st') = mr_evaluated (ds_report st1) + length es"
    using Cons.IH[OF rest] by blast+
  have "grew env st1 st' (firings env (ds_db st) es)"
    using grew_keys[OF g2(1)] firing_keys_same[OF firings_same[OF grew_rules[OF g1]]] by blast
  from grew_trans[OF g1 this] show ?case using g2(2) head(2) by (simp add: firings_def)
qed

subsection \<open>A committed drain\<close>

definition drain_start :: "'n match_db \<Rightarrow> 'n drain_state" where
  "drain_start db = \<lparr>ds_db = md_workflows db, ds_report = empty_match\<lparr>mr_cursor := md_cursor db\<rparr>, ds_started = [], ds_failures = []\<rparr>"

lemma record_drain_tables [simp]:
  "wd_executions (record_drain st) = wd_executions (ds_db st)" "wd_steps (record_drain st) = wd_steps (ds_db st)"
  "wd_workflows (record_drain st) = wd_workflows (ds_db st)"
proof -
  have m: "wd_executions (fold (\<lambda>(w, e) db. record_match w e (record_start w e db)) ps db) = wd_executions db \<and>
      wd_steps (fold (\<lambda>(w, e) db. record_match w e (record_start w e db)) ps db) = wd_steps db \<and>
      wd_workflows (fold (\<lambda>(w, e) db. record_match w e (record_start w e db)) ps db) = wd_workflows db" for ps and db :: "'a wf_db"
    by (induction ps arbitrary: db) (auto simp: record_match_def record_start_def)
  have s: "wd_executions (fold (\<lambda>(i, _, err) db. record_skip i (automation_error_code err) db) fs db) = wd_executions db \<and>
      wd_steps (fold (\<lambda>(i, _, err) db. record_skip i (automation_error_code err) db) fs db) = wd_steps db \<and>
      wd_workflows (fold (\<lambda>(i, _, err) db. record_skip i (automation_error_code err) db) fs db) = wd_workflows db"
    for fs :: "(uuid \<times> int \<times> automation_error) list" and db :: "'a wf_db"
    by (induction fs arbitrary: db) (auto simp: record_skip_def split: option.splits)
  show "wd_executions (record_drain st) = wd_executions (ds_db st)" "wd_steps (record_drain st) = wd_steps (ds_db st)"
    "wd_workflows (record_drain st) = wd_workflows (ds_db st)"
    unfolding record_drain_def using m s by simp_all
qed

lemma drain_cases:
  assumes "drain env now locked batch fresh ids db = (r, db')"
  obtains "locked \<or> unread_events batch db = []" "db' = db" "\<exists>report. r = Inr report \<and> mr_idle report"
  | err where "\<not> locked" "r = Inl err" "db' = db"
      "match_events env now fresh ids (unread_events batch db) (drain_start db) = Inl err"
  | st where "\<not> locked" "unread_events batch db \<noteq> []" "match_events env now fresh ids (unread_events batch db) (drain_start db) = Inr st"
      "r = Inr ((ds_report st)\<lparr>mr_cursor := ev_id (last (unread_events batch db))\<rparr>)"
      "db' = db\<lparr>md_workflows := record_drain st, md_cursor := ev_id (last (unread_events batch db))\<rparr>"
proof (cases "locked \<or> unread_events batch db = []")
  case True
  then show thesis using assms that(1) by (auto simp: drain_def Let_def split: if_split_asm)
next
  case False
  then have d: "drain env now locked batch fresh ids db =
      (case match_events env now fresh ids (unread_events batch db) (drain_start db) of
         Inl err \<Rightarrow> (Inl err, db)
       | Inr st \<Rightarrow> (Inr ((ds_report st)\<lparr>mr_cursor := ev_id (last (unread_events batch db))\<rparr>),
           db\<lparr>md_workflows := record_drain st, md_cursor := ev_id (last (unread_events batch db))\<rparr>))"
    by (simp add: drain_def Let_def drain_start_def)
  show thesis
  proof (cases "match_events env now fresh ids (unread_events batch db) (drain_start db)")
    case (Inl err)
    then show thesis using assms d False by (intro that(2)) simp_all
  next
    case (Inr st)
    then show thesis using assms d False by (intro that(3)) auto
  qed
qed

lemma sorted_unread: "sorted (map ev_id (unread_events batch db))"
  unfolding unread_events_def take_map[symmetric] by (rule sorted_wrt_take) (simp only: sorted_sort_key)

lemma unread_above: "e \<in> set (unread_events batch db) \<Longrightarrow> e \<in> set (md_events db) \<and> md_cursor db < ev_id e"
  by (auto simp: unread_events_def dest: in_set_takeD)

text \<open>The events left for later drains lie after the last one read, unless an id is shared.\<close>

lemma unread_prefix:
  assumes "distinct (map ev_id (md_events db))" "unread_events batch db \<noteq> []" "e \<in> set (md_events db)" "md_cursor db < ev_id e"
    "ev_id e \<le> ev_id (last (unread_events batch db))"
  shows "e \<in> set (unread_events batch db)"
proof -
  let ?n = "batch_of batch"
  define es where "es = sort_key ev_id (filter (\<lambda>e. md_cursor db < ev_id e) (md_events db))"
  have es: "sorted (map ev_id es)" "e \<in> set es" unfolding es_def using assms(3,4) by simp_all
  have "distinct (map ev_id (filter (\<lambda>e. md_cursor db < ev_id e) (md_events db)))" using assms(1) by (simp add: distinct_map_filter)
  then have d: "distinct (map ev_id es)" unfolding es_def distinct_map by simp
  have u: "unread_events batch db = take ?n es" by (simp add: unread_events_def es_def)
  obtain k where k: "k < length es" "e = es ! k" using es(2) by (metis in_set_conv_nth)
  have ne: "take ?n es \<noteq> []" using assms(2) u by simp
  define l where "l = length (take ?n es) - 1"
  have l: "l < length es" "l < ?n" "last (take ?n es) = es ! l" using ne by (auto simp: l_def last_conv_nth min_def)
  have "k \<le> l"
  proof (rule ccontr)
    assume "\<not> k \<le> l"
    then have "ev_id (es ! l) \<le> ev_id (es ! k)" using es(1) k(1) by (simp add: sorted_iff_nth_mono)
    moreover have "ev_id (es ! k) \<le> ev_id (es ! l)" using assms(5) u l(3) k(2) by simp
    ultimately have "map ev_id es ! l = map ev_id es ! k" using k(1) l(1) by simp
    then have "l = k" using d k(1) l(1) by (simp only: nth_eq_iff_index_eq length_map)
    then show False using \<open>\<not> k \<le> l\<close> by simp
  qed
  then show ?thesis unfolding u k(2) using k(1) l(2) by (auto simp: in_set_conv_nth intro!: exI[of _ k])
qed

end
