(* ===== verification/MatcherGuarantees.thy ===== *)
theory MatcherGuarantees
  imports MatcherLaws WorkflowGuarantees "HOL-Library.Countable"
begin

text \<open>
  The properties of the automation rules: what a placeholder needs, what a drain does to the tables, that
  it cannot fail on accepted rules and keeps the workflow engine's invariant, and that over any sequence
  of drains, emissions and other work an event is evaluated once; and what the last one leaves open.
\<close>

subsection \<open>Drains do not fail\<close>

definition rules_valid :: "'n automation_env \<Rightarrow> 'n wf_db \<Rightarrow> bool" where
  "rules_valid env db \<longleftrightarrow> (\<forall>w \<in> set (wd_workflows db). \<forall>steps.
     workflow_definitions (en_read_steps (ae_workflows env)) w = Inr steps \<longrightarrow>
       (\<forall>s \<in> set steps. validate_step (en_as_i64 (ae_workflows env)) s = Inr ()))"

lemma list_all2_left: "list_all2 R xs ys \<Longrightarrow> x \<in> set xs \<Longrightarrow> \<exists>y \<in> set ys. R x y"
  by (induction rule: list_all2_induct) auto

lemma same_rules_found: "same_rules db db' \<Longrightarrow> w \<in> set (wd_workflows db) \<Longrightarrow> find_workflow db' (wf_id w) \<noteq> None"
  unfolding same_rules_def by (drule (1) list_all2_left) (auto simp: find_workflow_def find_None_iff bumped_fields)

lemma bumped_definitions: "bumped w w' \<Longrightarrow> workflow_definitions read w' = workflow_definitions read w"
  by (simp add: workflow_definitions_def bumped_fields)

lemma same_rules_valid:
  assumes "same_rules db db'" "rules_valid env db"
  shows "rules_valid env db'"
  unfolding rules_valid_def
proof (intro ballI allI impI)
  fix w' steps s
  assume w': "w' \<in> set (wd_workflows db')" "workflow_definitions (en_read_steps (ae_workflows env)) w' = Inr steps" "s \<in> set steps"
  obtain w where "w \<in> set (wd_workflows db)" "bumped w w'"
    using list_all2_right[OF assms(1)[unfolded same_rules_def] w'(1)] by blast
  then show "validate_step (en_as_i64 (ae_workflows env)) s = Inr ()"
    using assms(2) w'(2,3) unfolding rules_valid_def by (simp add: bumped_definitions)
qed

lemma row_allowed_params: "row_allowed (step_row now i e k (s\<lparr>sd_params := p\<rparr>)) = row_allowed (step_row now i e k s)"
  by (simp add: row_allowed_def step_row_def attempts_allowed_def)

lemma resolve_steps_params: "resolve_steps jt payload ss = Inr rs \<Longrightarrow> list_all2 (\<lambda>s r. \<exists>p. r = s\<lparr>sd_params := p\<rparr>) ss rs"
  by (induction ss arbitrary: rs) (auto simp: res_bind_Inr_conv)

lemma resolved_rows:
  assumes "resolve_steps jt payload ss = Inr rs" "\<forall>s \<in> set ss. validate_step as_i64 s = Inr ()"
  shows "list_all row_allowed (step_rows now ids i rs)"
  unfolding list_all_iff
proof
  fix r assume "r \<in> set (step_rows now ids i rs)"
  then obtain k where k: "k < length rs" "r = step_row now (ids k) i k (rs ! k)"
    by (auto simp: step_rows_def in_set_enumerate_eq)
  note all = resolve_steps_params[OF assms(1)]
  have len: "k < length ss" using all k(1) by (simp add: list_all2_lengthD)
  obtain p where "rs ! k = (ss ! k)\<lparr>sd_params := p\<rparr>" using list_all2_nthD[OF all len] by blast
  then show "row_allowed r" unfolding k(2) using validate_step_row[of as_i64 "ss ! k"] assms(2) nth_mem[OF len]
    by (simp add: row_allowed_params)
qed

lemma rule_actions: "rule_from_workflow env w = Inr (Some rule) \<Longrightarrow>
  workflow_definitions (en_read_steps (ae_workflows env)) w = Inr (ar_actions rule)"
  by (auto simp: rule_from_workflow_def res_bind_Inr_conv workflows_result_def split: if_split_asm sum.split_asm)

lemma match_rule_succeeds:
  assumes "same_rules db0 (ds_db st)" "w \<in> set (wd_workflows db0)" "rules_valid env db0"
  shows "\<exists>st'. match_rule env now fresh ids e w st = Inr st'"
proof (cases "resolved env e w")
  case None
  then show ?thesis by (auto simp: match_rule_def resolved_def split: sum.splits option.splits if_splits)
next
  case (Some steps)
  then obtain rule where rule: "rule_from_workflow env w = Inr (Some rule)" "all_hold (ar_conditions rule) (ev_payload e)"
    "resolve_steps (ae_json_text env) (ev_payload e) (ar_actions rule) = Inr steps"
    by (auto simp: resolved_def split: sum.splits option.splits if_splits)
  let ?k = "length (ds_started st)"
  have "\<forall>s \<in> set (ar_actions rule). validate_step (en_as_i64 (ae_workflows env)) s = Inr ()"
    using assms(2,3) rule_actions[OF rule(1)] unfolding rules_valid_def by blast
  then have "list_all row_allowed (step_rows now (ids ?k) (fresh ?k) steps)" by (rule resolved_rows[OF rule(3)])
  moreover have "find_workflow (ds_db st) (wf_id w) \<noteq> None" by (rule same_rules_found[OF assms(1,2)])
  ultimately show ?thesis using rule by (auto simp: match_rule_def start_matched_def create_execution_def Let_def)
qed

lemma match_rules_succeeds:
  assumes "same_rules db0 (ds_db st)" "set ws \<subseteq> set (wd_workflows db0)" "rules_valid env db0"
    "\<forall>w \<in> set ws. ev_organization_id e = Some (wf_organization_id w)"
  shows "\<exists>st'. match_rules env now fresh ids e ws st = Inr st'"
  using assms
proof (induction ws arbitrary: st)
  case (Cons w ws)
  have "w \<in> set (wd_workflows db0)" using Cons.prems(2) by simp
  then obtain st1 where one: "match_rule env now fresh ids e w st = Inr st1"
    using match_rule_succeeds[OF Cons.prems(1) _ Cons.prems(3)] by blast
  have "same_rules (ds_db st) (ds_db st1)" using match_rule_grows[OF one] Cons.prems(4) grew_rules by auto
  then have "same_rules db0 (ds_db st1)" by (rule same_rules_trans[OF Cons.prems(1)])
  then show ?case using Cons.IH Cons.prems one by auto
qed simp

lemma rules_for_stored: "w \<in> set (rules_for db e) \<Longrightarrow> w \<in> set (wd_workflows db)"
  by (auto simp: rules_for_def list_event_rules_def split: option.splits)

lemma match_events_succeeds: "rules_valid env (ds_db st) \<Longrightarrow> \<exists>st'. match_events env now fresh ids es st = Inr st'"
proof (induction es arbitrary: st)
  case (Cons e es)
  let ?ws = "rules_for (ds_db st) e"
  have "set ?ws \<subseteq> set (wd_workflows (ds_db st))" using rules_for_stored by blast
  moreover have "\<forall>w \<in> set ?ws. ev_organization_id e = Some (wf_organization_id w)" using rules_for_tenant by blast
  moreover have "same_rules (ds_db st) (ds_db (count_event st))" by simp
  ultimately obtain st1 where one: "match_rules env now fresh ids e ?ws (count_event st) = Inr st1"
    using match_rules_succeeds[OF _ _ Cons.prems] by blast
  have "same_rules (ds_db st) (ds_db st1)" using match_rules_grows[OF one] rules_for_tenant grew_rules by fastforce
  then show ?case using Cons.IH[OF same_rules_valid] Cons.prems one by auto
qed simp

subsection \<open>Drains and the engine's invariant\<close>

text \<open>What each rule keeps, a drain keeps.\<close>

lemma match_rules_keeps:
  assumes rule: "\<forall>w st st'. I st \<and> match_rule env now fresh ids e w st = Inr st' \<longrightarrow> I st'"
  shows "I st \<Longrightarrow> match_rules env now fresh ids e ws st = Inr st' \<Longrightarrow> I st'"
  by (induction ws arbitrary: st) (use rule in \<open>auto simp: res_bind_Inr_conv\<close>)

lemma match_events_keeps:
  assumes rule: "\<forall>e w st st'. I st \<and> match_rule env now fresh ids e w st = Inr st' \<longrightarrow> I st'"
    and count: "\<forall>st. I st \<longrightarrow> I (count_event st)"
  shows "I st \<Longrightarrow> match_events env now fresh ids es st = Inr st' \<Longrightarrow> I st'"
proof (induction es arbitrary: st)
  case (Cons e es)
  then obtain st1 where one: "match_rules env now fresh ids e (rules_for (ds_db st) e) (count_event st) = Inr st1"
    and rest: "match_events env now fresh ids es st1 = Inr st'"
    by (auto simp: res_bind_Inr_conv)
  have "I (count_event st)" using count Cons.prems(1) by blast
  then have "I st1" using match_rules_keeps[OF _ _ one, of I] rule by blast
  then show ?case by (rule Cons.IH) (rule rest)
qed simp

text \<open>The identifiers in use after a drain has started its runs.\<close>

definition drain_ok ::
  "(nat \<Rightarrow> uuid) \<Rightarrow> (nat \<Rightarrow> nat \<Rightarrow> uuid) \<Rightarrow> uuid set \<Rightarrow> uuid set \<Rightarrow> 'n claimed_step list \<Rightarrow> 'n drain_state \<Rightarrow> bool" where
  "drain_ok fresh ids E S fl st \<longleftrightarrow> engine_ok (ds_db st, fl) \<and>
     ex_id ` set (wd_executions (ds_db st)) \<subseteq> E \<union> fresh ` {..<length (ds_started st)} \<and>
     ws_id ` set (wd_steps (ds_db st)) \<subseteq> S \<union> (\<Union>k<length (ds_started st). range (ids k))"

lemma quiet_started [simp]:
  "ds_started (skip_rule st) = ds_started st" "ds_started (fail_rule w e err st) = ds_started st" "ds_started (count_event st) = ds_started st"
  by (simp_all add: skip_rule_def fail_rule_def count_event_def)

lemma drain_ok_quiet [simp]:
  "drain_ok fresh ids E S fl (skip_rule st) = drain_ok fresh ids E S fl st"
  "drain_ok fresh ids E S fl (fail_rule w e err st) = drain_ok fresh ids E S fl st"
  "drain_ok fresh ids E S fl (count_event st) = drain_ok fresh ids E S fl st"
  by (simp_all add: drain_ok_def)

definition fresh_for_drain :: "(nat \<Rightarrow> uuid) \<Rightarrow> (nat \<Rightarrow> nat \<Rightarrow> uuid) \<Rightarrow> uuid set \<Rightarrow> uuid set \<Rightarrow> bool" where
  "fresh_for_drain fresh ids E S \<longleftrightarrow> inj fresh \<and> inj (\<lambda>(k, j). ids k j) \<and> range fresh \<inter> E = {} \<and> (\<forall>k j. ids k j \<notin> S)"

lemma start_matched_ok:
  assumes ok: "drain_ok fresh ids E S fl st" and new: "fresh_for_drain fresh ids E (S \<union> cs_id ` set fl)"
    and st: "start_matched now fresh ids w steps st = Inr st'"
  shows "drain_ok fresh ids E S fl st'"
proof -
  let ?k = "length (ds_started st)"
  obtain r db' where c: "create_execution now (ds_db st) (fresh ?k) (ids ?k) w Event None steps = (r, db')"
    by (cases "create_execution now (ds_db st) (fresh ?k) (ids ?k) w Event None steps")
  from c show ?thesis
  proof (cases rule: create_execution_cases)
    case (1 err)
    then show ?thesis using st c by (simp add: start_matched_def Let_def)
  next
    case 2
    let ?rows = "step_rows now (ids ?k) (fresh ?k) steps" and ?x = "execution_row now (fresh ?k) w Event None"
    have st': "ds_db st' = note_match now (wf_id w) db'" "length (ds_started st') = Suc ?k"
      using st c 2(1) by (auto simp: start_matched_def Let_def)
    have "fresh ?k \<notin> E \<union> fresh ` {..<?k}" using new unfolding fresh_for_drain_def by (auto simp: inj_eq)
    then have unused: "fresh ?k \<notin> ex_id ` set (wd_executions (ds_db st))"
      using ok unfolding drain_ok_def by blast
    have two: "inj (\<lambda>(k, j). ids k j)" using new by (simp add: fresh_for_drain_def)
    then have inj: "ids k j = ids k' j' \<Longrightarrow> k = k' \<and> j = j'" for k j k' j'
      using injD[OF two, of "(k, j)" "(k', j')"] by simp
    note unused
    moreover have "inj_on (ids ?k) {..<length steps}" by (rule inj_onI, drule inj) simp
    moreover have "ids ?k j \<notin> ws_id ` set (wd_steps (ds_db st)) \<and> ids ?k j \<notin> cs_id ` set fl" for j
    proof
      have "ids ?k j \<notin> S" "ids ?k j \<notin> cs_id ` set fl" using new unfolding fresh_for_drain_def by blast+
      moreover have "ids ?k j \<notin> (\<Union>k<?k. range (ids k))" using inj by blast
      ultimately show "ids ?k j \<notin> ws_id ` set (wd_steps (ds_db st))" "ids ?k j \<notin> cs_id ` set fl"
        using ok unfolding drain_ok_def by blast+
    qed
    moreover have "engine_ok (ds_db st, fl)" using ok by (simp add: drain_ok_def)
    ultimately have "engine_ok (snd (start_run_with now (ds_db st) (fresh ?k) (ids ?k) w Event None steps), fl)"
      by (intro start_run_ok)
    then have "engine_ok (record_start w ?x db', fl)" using c 2(1) by (simp add: start_run_with_def)
    then have "engine_ok (ds_db st', fl)" unfolding st'(1) by (rule engine_ok_tables) (simp_all add: record_start_def)
    moreover have "wd_executions (ds_db st') = wd_executions (ds_db st) @ [?x]" "wd_steps (ds_db st') = wd_steps (ds_db st) @ ?rows"
      using st'(1) 2(4) by simp_all
    moreover have "ws_id ` set ?rows \<subseteq> range (ids ?k)"
      using step_rows_simps(1)[of now "ids ?k" "fresh ?k" steps] by (metis image_subset_iff list.set_map rangeI)
    moreover have "ex_id ?x = fresh ?k" by (simp add: execution_row_def)
    ultimately show ?thesis using ok unfolding drain_ok_def st'(2) lessThan_Suc by auto
  qed
qed

lemma match_rule_ok:
  assumes "drain_ok fresh ids E S fl st" "fresh_for_drain fresh ids E (S \<union> cs_id ` set fl)" "match_rule env now fresh ids e w st = Inr st'"
  shows "drain_ok fresh ids E S fl st'"
  using assms(1,3) start_matched_ok[OF assms(1,2)] by (auto simp: match_rule_def split: sum.splits option.splits if_splits)

subsection \<open>Drains among everything else\<close>

text \<open>Drains, with whatever batch, clock and outcome; commits of events whose identifier lies above the
  cursor; removals of events; and any work on the workflow tables. The list holds the identifiers of the
  events that committed drains evaluated, in order.\<close>

definition evaluated :: "int \<Rightarrow> 'n match_db \<Rightarrow> bool \<Rightarrow> automation_error + match_report \<Rightarrow> int list" where
  "evaluated batch db locked r = (if locked then [] else case r of Inl _ \<Rightarrow> [] | Inr _ \<Rightarrow> map ev_id (unread_events batch db))"

inductive match_path :: "'n automation_env \<Rightarrow> int list \<Rightarrow> 'n match_db \<Rightarrow> 'n match_db \<Rightarrow> bool" for env where
  mp_here: "match_path env [] db db"
| mp_drain: "drain env now locked batch fresh ids db = (r, db1) \<Longrightarrow> match_path env seen db1 db' \<Longrightarrow>
    match_path env (evaluated batch db locked r @ seen) db db'"
| mp_commit: "md_cursor db < ev_id e \<Longrightarrow> ev_id e \<notin> ev_id ` set (md_events db) \<Longrightarrow>
    match_path env seen (db\<lparr>md_events := md_events db @ [e]\<rparr>) db' \<Longrightarrow> match_path env seen db db'"
| mp_prune: "match_path env seen (db\<lparr>md_events := filter P (md_events db)\<rparr>) db' \<Longrightarrow> match_path env seen db db'"
| mp_work: "match_path env seen (db\<lparr>md_workflows := w\<rparr>) db' \<Longrightarrow> match_path env seen db db'"

lemma drain_moves:
  assumes "drain env now locked batch fresh ids db = (r, db1)"
  shows "md_events db1 = md_events db \<and> md_cursor db \<le> md_cursor db1 \<and>
    (evaluated batch db locked r = [] \<and> md_cursor db1 = md_cursor db \<or>
     evaluated batch db locked r = map ev_id (unread_events batch db) \<and> unread_events batch db \<noteq> [] \<and>
     md_cursor db1 = ev_id (last (unread_events batch db)))"
  using assms
proof (cases rule: drain_cases)
  case (3 st)
  have "md_cursor db < ev_id (last (unread_events batch db))" using unread_above[OF last_in_set[OF 3(2)]] by blast
  then show ?thesis using 3 by (simp add: evaluated_def)
qed (auto simp: evaluated_def)

lemma path_cursor: "match_path env seen db db' \<Longrightarrow> md_cursor db \<le> md_cursor db'"
proof (induction rule: match_path.induct)
  case (mp_drain now locked batch fresh ids db r db1 seen db')
  then show ?case using drain_moves[OF mp_drain(1)] by simp
qed simp_all

lemma path_events: "match_path env seen db db' \<Longrightarrow> e \<in> set (md_events db') \<Longrightarrow> ev_id e \<le> md_cursor db \<Longrightarrow> e \<in> set (md_events db)"
proof (induction rule: match_path.induct)
  case (mp_drain now locked batch fresh ids db r db1 seen db')
  then show ?case using drain_moves[OF mp_drain(1)] by simp
qed auto

text \<open>Strictly increasing, after the first bound and up to the second.\<close>

definition climbs :: "int \<Rightarrow> int list \<Rightarrow> int \<Rightarrow> bool" where
  "climbs a xs b \<longleftrightarrow> a \<le> b \<and> sorted_wrt (<) xs \<and> (\<forall>x \<in> set xs. a < x \<and> x \<le> b)"

lemma climbs_append: "climbs a xs b \<Longrightarrow> climbs b ys c \<Longrightarrow> climbs a (xs @ ys) c"
  by (fastforce simp: climbs_def sorted_wrt_append)

lemma sorted_below_last: "sorted xs \<Longrightarrow> x \<in> set xs \<Longrightarrow> x \<le> (last xs :: int)"
  by (induction xs) auto

lemma unread_climbs:
  assumes "distinct (map ev_id (md_events db))" "unread_events batch db \<noteq> []"
  shows "climbs (md_cursor db) (map ev_id (unread_events batch db)) (ev_id (last (unread_events batch db)))"
proof -
  let ?es = "unread_events batch db"
  have "distinct (map ev_id (filter (\<lambda>e. md_cursor db < ev_id e) (md_events db)))" using assms(1) by (simp add: distinct_map_filter)
  then have "distinct (map ev_id (sort_key ev_id (filter (\<lambda>e. md_cursor db < ev_id e) (md_events db))))" by (simp add: distinct_map)
  then have "distinct (map ev_id ?es)" unfolding unread_events_def take_map[symmetric] by (rule distinct_take)
  then have s: "sorted_wrt (<) (map ev_id ?es)" using sorted_unread[of batch db] by (simp add: strict_sorted_iff)
  have top: "ev_id e \<le> ev_id (last ?es)" if "e \<in> set ?es" for e
    using sorted_below_last[OF sorted_unread[of batch db], of "ev_id e"] that assms(2) by (simp add: last_map)
  have "md_cursor db < ev_id (last ?es)" using unread_above[OF last_in_set[OF assms(2)]] by blast
  then show ?thesis using s unread_above top unfolding climbs_def by auto
qed

lemma path_climbs: "match_path env seen db db' \<Longrightarrow> distinct (map ev_id (md_events db)) \<Longrightarrow> climbs (md_cursor db) seen (md_cursor db')"
proof (induction rule: match_path.induct)
  case (mp_drain now locked batch fresh ids db r db1 seen db')
  note m = drain_moves[OF mp_drain(1)]
  then have rest: "climbs (md_cursor db1) seen (md_cursor db')" using mp_drain by simp
  from m have "climbs (md_cursor db) (evaluated batch db locked r) (md_cursor db1)"
    using unread_climbs[OF mp_drain(4), of batch] by (auto simp: climbs_def)
  then show ?case using rest by (rule climbs_append)
qed (auto simp: climbs_def distinct_map_filter)

lemma path_covers: "match_path env seen db db' \<Longrightarrow> distinct (map ev_id (md_events db)) \<Longrightarrow> e \<in> set (md_events db') \<Longrightarrow>
  md_cursor db < ev_id e \<Longrightarrow> ev_id e \<le> md_cursor db' \<Longrightarrow> ev_id e \<in> set seen"
proof (induction rule: match_path.induct)
  case (mp_drain now locked batch fresh ids db r db1 seen db')
  note m = drain_moves[OF mp_drain(1)]
  show ?case
  proof (cases "md_cursor db1 < ev_id e")
    case True
    then show ?thesis using mp_drain m by simp
  next
    case False
    then have "e \<in> set (md_events db)" using path_events[OF mp_drain(2) mp_drain(5)] m by simp
    then have "e \<in> set (unread_events batch db) \<and> evaluated batch db locked r = map ev_id (unread_events batch db)"
      using m False mp_drain(6) unread_prefix[OF mp_drain(4) _ _ mp_drain(6), of batch] by auto
    then show ?thesis by auto
  qed
qed (auto simp: distinct_map_filter)

subsection \<open>A sample rule\<close>

definition sample_automation :: "int automation_env" where
  "sample_automation = \<lparr>ae_workflows = sample_env\<lparr>en_read_steps := (\<lambda>_. Some [task_step ''a'' ''noop'' (JObject [(''t'', JString ''{{event.x}}'')])])\<rparr>,
     ae_read_conditions = (\<lambda>_. Some [presence_condition ''x'' CoExists]), ae_write_condition = (\<lambda>_. JNull), ae_write_steps = (\<lambda>_. JNull),
     ae_json_text = (\<lambda>_. [])\<rparr>"

definition sample_event_rule :: "int workflow" where
  "sample_event_rule = workflow_of 0 1 (sample_rule\<lparr>nf_trigger := Event, nf_trigger_event := Some ''a.b''\<rparr>)"

definition sample_happened :: "int bus_event" where
  "sample_happened = \<lparr>ev_id = 1, ev_name = ''a.b'', ev_organization_id = Some 1, ev_site_id = None, ev_actor_user_id = None,
     ev_payload = JObject [(''x'', JString ''v'')], ev_created_at = 0\<rparr>"

definition sample_match :: "int match_db" where
  "sample_match = \<lparr>md_workflows = sample_empty\<lparr>wd_workflows := [sample_event_rule]\<rparr>, md_events = [sample_happened], md_cursor = 0\<rparr>"

definition sample_drain :: "(automation_error + match_report) \<times> int match_db" where
  "sample_drain = drain sample_automation 0 False 5 (\<lambda>k. k) (\<lambda>k j. prod_encode (k, j)) sample_match"

subsection \<open>Guarantees\<close>

text \<open>The placeholders of an action are filled exactly when every text in its parameters is well formed and names
  values the payload has; and the filled parameters depend on the payload only through the values they name.\<close>

theorem placeholders_exact:
  "((\<exists>v. resolve_params json_text params payload = Inr v) \<longleftrightarrow> (\<forall>text \<in> set (json_strings params). fills payload text)) \<and>
   (list_all (reads_alike payload payload') (json_strings params) \<longrightarrow>
     resolve_params json_text params payload' = resolve_params json_text params payload)"
  unfolding resolve_params_def list_all_iff using resolve_succeeds resolve_cong by blast

theorem placeholders_exact_witness:
  "resolve_params (\<lambda>_. []) (JString ''{{event.x}}'') (JObject [(''x'', JString ''v''), (''y'', JNumber (2::int))]) =
   resolve_params (\<lambda>_. []) (JString ''{{event.x}}'') (JObject [(''x'', JString ''v'')])"
proof -
  have "list_all (reads_alike (JObject [(''x'', JString ''v'')]) (JObject [(''x'', JString ''v''), (''y'', JNumber (2::int))]))
      (json_strings (JString ''{{event.x}}'' :: int json))"
    by code_simp
  then show ?thesis by (rule placeholders_exact[THEN conjunct2, THEN mp])
qed

text \<open>C37. A drain that commits reads the first events after the cursor, at most a batch of them, oldest first; starts, in the
  tables and in its report, exactly one run for every pair of such an event and an armed rule of the event's tenant whose
  conditions and placeholders the payload satisfies, running, for that rule and tenant, with steps that carry the event's
  values; leaves the events and every other run and step as they were, changes nothing of the rules but their counters; and
  moves the cursor to the last event read.\<close>

theorem drain_exact:
  assumes "drain env now False batch fresh ids db = (Inr report, db')" and "unread_events batch db \<noteq> []"
  shows "\<exists>xs rows. wd_executions (md_workflows db') = wd_executions (md_workflows db) @ xs \<and>
    map run_key xs = map firing_key (firings env (md_workflows db) (unread_events batch db)) \<and>
    wd_steps (md_workflows db') = wd_steps (md_workflows db) @ rows \<and>
    step_texts rows = concat (map2 (firing_texts env) xs (firings env (md_workflows db) (unread_events batch db))) \<and>
    mr_runs report = map ex_id xs \<and> mr_matched report = length xs \<and> mr_evaluated report = length (unread_events batch db) \<and>
    same_rules (md_workflows db) (md_workflows db') \<and> md_events db' = md_events db \<and>
    md_cursor db' = ev_id (last (unread_events batch db)) \<and> mr_cursor report = md_cursor db'"
  using assms(1)
proof (cases rule: drain_cases)
  case (3 st)
  have g: "grew env (drain_start db) st (firings env (md_workflows db) (unread_events batch db))"
    "mr_evaluated (ds_report st) = length (unread_events batch db)"
    using match_events_grows[OF 3(3)] by (simp_all add: drain_start_def empty_match_def)
  have "same_rules (md_workflows db) (md_workflows db')" using grew_rules[OF g(1)] 3(5) by (simp add: drain_start_def same_rules_def)
  then show ?thesis using g 3(4,5) unfolding grew_def drain_start_def by (auto simp: empty_match_def)
qed (use assms(2) in auto)

theorem drain_exact_witness:
  "\<exists>xs rows. wd_executions (md_workflows (snd sample_drain)) = wd_executions (md_workflows sample_match) @ xs \<and>
    map run_key xs = map firing_key (firings sample_automation (md_workflows sample_match) (unread_events 5 sample_match)) \<and>
    wd_steps (md_workflows (snd sample_drain)) = wd_steps (md_workflows sample_match) @ rows \<and>
    step_texts rows = concat (map2 (firing_texts sample_automation) xs (firings sample_automation (md_workflows sample_match) (unread_events 5 sample_match))) \<and>
    mr_runs (projr (fst sample_drain)) = map ex_id xs \<and> mr_matched (projr (fst sample_drain)) = length xs \<and>
    mr_evaluated (projr (fst sample_drain)) = length (unread_events 5 sample_match) \<and>
    same_rules (md_workflows sample_match) (md_workflows (snd sample_drain)) \<and> md_events (snd sample_drain) = md_events sample_match \<and>
    md_cursor (snd sample_drain) = ev_id (last (unread_events 5 sample_match)) \<and> mr_cursor (projr (fst sample_drain)) = md_cursor (snd sample_drain)"
proof (rule drain_exact)
  have "isl (fst sample_drain) = False" by code_simp
  then have "fst sample_drain = Inr (projr (fst sample_drain))" by (cases "fst sample_drain") simp_all
  then show "drain sample_automation 0 False 5 (\<lambda>k. k) (\<lambda>k j. prod_encode (k, j)) sample_match =
      (Inr (projr (fst sample_drain)), snd sample_drain)"
    unfolding sample_drain_def[symmetric] by (simp add: prod_eq_iff)
  show "unread_events 5 sample_match \<noteq> []" by code_simp
qed


lemma sample_match_path: "match_path sample_automation [1] (sample_match\<lparr>md_events := []\<rparr>) (snd sample_drain)"
proof (rule mp_commit[where e = sample_happened])
  have "match_path sample_automation (evaluated 5 sample_match False (fst sample_drain) @ []) sample_match (snd sample_drain)"
    by (rule mp_drain[where r = "fst sample_drain", OF _ mp_here]) (simp add: sample_drain_def)
  moreover have "evaluated 5 sample_match False (fst sample_drain) = [1]" by code_simp
  ultimately show "match_path sample_automation [1] (sample_match\<lparr>md_events := []\<rparr>\<lparr>md_events := md_events (sample_match\<lparr>md_events := []\<rparr>) @ [sample_happened]\<rparr>)
      (snd sample_drain)"
    by (simp add: sample_match_def)
qed (simp_all add: sample_match_def sample_happened_def)




text \<open>C40. A drain, whether it commits, skips or fails, keeps the invariant of the workflow engine with whatever steps are in the
  hands of its runners, as long as the identifiers it draws are new.\<close>

theorem drain_keeps_engine:
  assumes "engine_ok (md_workflows db, fl)"
    and "fresh_for_drain fresh ids (ex_id ` set (wd_executions (md_workflows db))) (ws_id ` set (wd_steps (md_workflows db)) \<union> cs_id ` set fl)"
  shows "engine_ok (md_workflows (snd (drain env now locked batch fresh ids db)), fl)"
proof -
  let ?E = "ex_id ` set (wd_executions (md_workflows db))" and ?S = "ws_id ` set (wd_steps (md_workflows db))"
  obtain r db' where d: "drain env now locked batch fresh ids db = (r, db')" by fastforce
  then show ?thesis
  proof (cases rule: drain_cases)
    case (3 st)
    have "drain_ok fresh ids ?E ?S fl (drain_start db)" using assms(1) by (simp add: drain_ok_def drain_start_def)
    then have "drain_ok fresh ids ?E ?S fl st"
      by (rule match_events_keeps[OF _ _ _ 3(3), rotated 2]) (use match_rule_ok[OF _ assms(2)] in \<open>blast, simp\<close>)
    then have "engine_ok (ds_db st, fl)" by (simp add: drain_ok_def)
    then have "engine_ok (record_drain st, fl)" by (rule engine_ok_tables) simp_all
    then show ?thesis using d 3(5) by simp
  qed (use assms(1) d in auto)
qed

theorem drain_keeps_engine_witness: "engine_ok (md_workflows (snd sample_drain), [])"
  unfolding sample_drain_def
proof (rule drain_keeps_engine)
  show "engine_ok (md_workflows sample_match, [])" by (rule empty_ok) (simp_all add: sample_match_def sample_empty_def)
  show "fresh_for_drain (\<lambda>k. k) (\<lambda>k j. prod_encode (k, j)) (ex_id ` set (wd_executions (md_workflows sample_match)))
      (ws_id ` set (wd_steps (md_workflows sample_match)) \<union> cs_id ` set [])"
    by (auto simp: fresh_for_drain_def inj_def sample_match_def sample_empty_def)
qed

subsection \<open>Where the rules and their intent part\<close>

text \<open>An event that commits with an identifier at or below the cursor, which two emissions that commit in the other order
  produce, is never evaluated.\<close>

theorem late_event_never_evaluated:
  assumes "match_path env seen db db'" "distinct (map ev_id (md_events db))" "ev_id e \<le> md_cursor db"
  shows "ev_id e \<notin> set seen"
  using path_climbs[OF assms(1,2)] assms(3) unfolding climbs_def by fastforce

text \<open>A text with one placeholder at its start and a closing at its end loses what stands between.\<close>

theorem lone_placeholder_drops_text:
  "resolve_text (\<lambda>_. []) (JObject [(''a'', JString ''v'')]) ''{{event.a}} tail}}'' = Inr (JString ''v'' :: int json)"
  by code_simp

text \<open>Names that merely begin with the namespace pass validation and never resolve.\<close>

theorem unusable_binding_accepted:
  "validate_bindings (JString ''{{events.x}}'' :: int json) = Inr () \<and>
   (\<nexists>v. resolve_params json_text (JString ''{{events.x}}'') (payload :: int json) = Inr v)"
proof
  show "validate_bindings (JString ''{{events.x}}'' :: int json) = Inr ()" by code_simp
  have "expressions ''{{events.x}}'' = Inr [''events.x'']" by code_simp
  moreover have "strip_prefix ''event.'' ''events.x'' = None" by code_simp
  ultimately have "\<not> fills payload ''{{events.x}}''" by (simp add: fills_def lookup_binding_def)
  then show "\<nexists>v. resolve_params json_text (JString ''{{events.x}}'') payload = Inr v"
    unfolding resolve_params_def resolve_succeeds by simp
qed

text \<open>A field is checked without the blanks around it and read with them.\<close>

theorem padded_field_never_found:
  "validate_field '' x'' = Inr () \<and> condition_holds (presence_condition '' x'' CoExists) (JObject [(''x'', JString ''v'' :: int json)]) = False"
  by code_simp

end
