(* ===== verification/Spec2Isabelle.thy ===== *)
theory Spec2Isabelle
  imports Prelude OrderedMap Json Matching PolicyEngine IamModel RoleGraph Catalogue RoleStore Bindings
    Authorize IamRoutes Approvals Subjects Simulate Seed
    RateLimiter SecurityPolicy Lockout Totp Mfa SignIn
    Base64Url Sessions RowLog SessionLaws Csrf IpRules IpLaws SecurityExports
    ApiKeys ApiKeyLaws Guards GuardLaws
    Cron WorkflowModel WorkflowStore WorkflowEngine WorkflowRuns WorkflowLaws WorkflowGuarantees
    EventModel EventCatalogue EventStore EventRunner EventLaws EventGuarantees
    Automation Matcher MatcherLaws MatcherGuarantees
begin

text \<open>
  \<^bold>\<open>Omnion: a verification of access control, sign-in, sessions, workflows, the event bus and automation\<close>

  Omnion is a multi-tenant platform written in Rust: a set of crates under \<open>src/crates\<close> and an HTTP
  API under \<open>src/apps/api\<close>. This development models the part every request passes through: the
  identity and access management (who holds which role where, what the roles grant, and how
  attribute policies overrule them) and what stands in front of it (the rate limiter, the lockout,
  the address lists and access rules, signing in with one factor or two, sessions, developer keys, the check
  of cross-site requests and the guard of every route, which puts these together); the durable workflow engine, whose
  runners and sweepers share their work through database rows; the event bus with its queue of
  signed webhook deliveries; and the automation rules, which read the bus and start workflow runs.

  \<^bold>\<open>Parts and theories\<close>, in dependency order:

  \<^item> \<open>Prelude\<close>: results as sums (\<open>Result\<close>), Rust's string functions on \<open>string\<close> (one \<open>char\<close> per code
    point below 256), unsigned parsing and printing. \<open>OrderedMap\<close>: \<open>BTreeMap\<close> as a sorted
    association list, behind the locale \<open>ordered_map\<close>. \<open>Json\<close>: \<open>serde_json::Value\<close>, its numbers a
    type parameter, since number parsing belongs to a third-party crate.
  \<^item> \<open>Matching\<close>: \<open>permissions/matching.rs\<close>, the greedy glob matcher; the locale \<open>greedy_walk\<close> proves
    any walk with that backtracking scheme equal to the declarative relation \<open>glob_rel\<close>, and is
    interpreted for this matcher and for the one of the policy engine.
  \<^item> \<open>PolicyEngine\<close>: \<open>policy-engine/lib.rs\<close>: operators, condition trees and their JSON form, attribute
    sets (locale \<open>attribute_store\<close>), targets, the decision and its order, candidates and traces.
  \<^item> \<open>IamModel\<close>: \<open>permissions/model.rs\<close>, \<open>error.rs\<close>, \<open>versions.rs\<close>: roles, scopes, bindings, versions,
    diffs, and the validators.
  \<^item> \<open>RoleGraph\<close>: the pure half of \<open>permissions/evaluate.rs\<close>: the inheritance walk over a role graph,
    provenance, decision, trace.
  \<^item> \<open>Catalogue\<close>: \<open>permissions/catalogue.rs\<close> and the base roles of \<open>seed.rs\<close>, as written.
  \<^item> \<open>RoleStore\<close>: \<open>permissions/roles.rs\<close> over the tables \<open>iam_db\<close>: creating, re-parenting, deleting,
    duplicating roles, matrix saves and version rows; \<open>role_step\<close> is the step relation of a store.
  \<^item> \<open>Bindings\<close>: \<open>permissions/bindings.rs\<close>, \<open>invariants.rs\<close> and the group membership query: grants,
    revocations (locale \<open>revocation\<close>), expiry sweeps, the owner invariant; \<open>binding_step\<close>.
  \<^item> \<open>Authorize\<close>: \<open>permissions/policies.rs\<close> and the database half of \<open>evaluate.rs\<close>: policy rows, drafts
    and versions, the attributes of a request, the overlay of the winning policy on the role decision;
    \<open>policy_step\<close>.
  \<^item> \<open>IamRoutes\<close>: the organization guards of \<open>apps/api/scope.rs\<close> and the handlers that create and
    revoke role bindings in \<open>apps/api/routes/iam.rs\<close>, with their audit entries.
  \<^item> \<open>Approvals\<close>: \<open>permissions/approvals.rs\<close>: requests, the two halves of a decision, lapsing, the
    generated grant role and its time-boxed binding; \<open>Subjects\<close>: \<open>groups.rs\<close> and
    \<open>service_accounts.rs\<close>: groups, memberships, machine accounts, keys and their authentication.
  \<^item> \<open>Simulate\<close>: \<open>permissions/simulate.rs\<close>, the report of one question; \<open>Seed\<close>: \<open>permissions/seed.rs\<close>,
    what every start does to roles and owners.
  \<^item> \<open>RateLimiter\<close>: \<open>security/limiter.rs\<close>, \<open>limiter_redis.rs\<close> and the layer
    \<open>apps/api/rate_limit_middleware.rs\<close>; the counter service is the locale \<open>counter_service\<close>,
    interpreted on a table of counters. \<open>Lockout\<close>: \<open>security/lockout.rs\<close> and \<open>enforce.rs\<close>.
  \<^item> \<open>SecurityPolicy\<close>: \<open>identity/security.rs\<close>, the policy document and the address lists; \<open>Totp\<close>:
    \<open>identity/totp.rs\<close>; \<open>Mfa\<close>: \<open>identity/mfa.rs\<close>, with \<open>mfa_step\<close>; \<open>SignIn\<close>: \<open>identity/signin.rs\<close>,
    with \<open>sign_step\<close>.
  \<^item> \<open>Sessions\<close>: \<open>identity/sessions.rs\<close>, \<open>devices.rs\<close> and the start and end of a session in
    \<open>apps/api/routes/auth.rs\<close>, over the tables \<open>session_db\<close>; \<open>SessionLaws\<close>: its steps \<open>session_step\<close> and
    what they keep. \<open>Base64Url\<close>: \<open>core/base64url.rs\<close>; \<open>Csrf\<close>: \<open>security/csrf.rs\<close>, \<open>apps/api/cookies.rs\<close>
    and the refusal of \<open>headers_middleware.rs\<close>. \<open>RowLog\<close>: the locale \<open>row_log\<close> of a table whose rows are never
    deleted, interpreted for the sessions and for the developer keys.
  \<^item> \<open>ApiKeys\<close>: \<open>developer/keys.rs\<close>, \<open>keys_store.rs\<close> and the handlers of \<open>apps/api/routes/developer.rs\<close>, over
    \<open>key_db\<close>; \<open>ApiKeyLaws\<close>: its steps \<open>key_step\<close>, whom a token authenticates, and where rotation and the
    scope picker part from their intent.
  \<^item> \<open>Guards\<close>: \<open>apps/api/guards.rs\<close> and the session of a request in \<open>auth.rs\<close>, over \<open>guard_db\<close>, which holds
    the tables of the sessions, the subjects and their roles, the policies and the keys; \<open>GuardLaws\<close>: who
    passes, and \<open>guard_step\<close>, under which a dead credential stays outside.
  \<^item> \<open>IpRules\<close>: \<open>security/ip_rules.rs\<close>, \<open>ip_store.rs\<close>, \<open>apps/api/security_ip.rs\<close> and its routes, over
    \<open>ip_db\<close>, the table and the rule set of the running process; \<open>IpLaws\<close>: the verdict, and \<open>ip_step\<close>, under
    which the two agree. \<open>SecurityExports\<close>: \<open>security/csv.rs\<close>, \<open>events.rs\<close>, \<open>events_csv.rs\<close>, read back by a
    reader of RFC 4180 written for the purpose.
  \<^item> \<open>Cron\<close>: \<open>workflows/cron.rs\<close>, \<open>error.rs\<close>: schedules and the search for the next run.
    \<open>WorkflowModel\<close>: the enumerations of \<open>workflows/model.rs\<close>, \<open>actions.rs\<close>, \<open>definition.rs\<close>.
    \<open>WorkflowStore\<close>: \<open>store.rs\<close> over the tables \<open>wf_db\<close> with the check constraints of the
    migrations. \<open>WorkflowEngine\<close>: \<open>engine.rs\<close>, \<open>handler.rs\<close>: the tick, the sweep and the advance of
    a claimed step.
  \<^item> \<open>WorkflowRuns\<close>: the engine as a state machine \<open>engine_step\<close> over the tables and the claims in
    flight, and its invariant \<open>engine_ok\<close>; \<open>WorkflowLaws\<close>: its paths, how rows evolve, the claim
    budget, ticks and sweeps as paths; \<open>WorkflowGuarantees\<close>: the properties, and runs where the
    engine does not do what it means to.
  \<^item> \<open>EventModel\<close>: \<open>events/model.rs\<close>, \<open>error.rs\<close>, \<open>validation.rs\<close>, \<open>signature.rs\<close>, \<open>sender.rs\<close>.
    \<open>EventCatalogue\<close>: \<open>catalogue.rs\<close>, the table of events and the reconciliation of selections.
    \<open>EventStore\<close>: \<open>bus.rs\<close> and \<open>store.rs\<close> over the tables \<open>bus_db\<close>: emission and fan-out, endpoints,
    replays, retention, claims and marks. \<open>EventRunner\<close>: \<open>engine.rs\<close>, the tick of the delivery runner.
  \<^item> \<open>EventLaws\<close>: the bus as a machine \<open>bus_step\<close> with the invariant \<open>bus_ok\<close>; \<open>EventGuarantees\<close>: the
    properties of the bus and of its queue, on a sample bus, and two observations.
  \<^item> \<open>Automation\<close>: \<open>automation/condition.rs\<close>, \<open>binding.rs\<close>, \<open>model.rs\<close>, \<open>error.rs\<close>: the conditions of a
    rule, the placeholders of its actions, and the workflow it is stored as. \<open>Matcher\<close>: \<open>matcher.rs\<close>, a
    drain as one transaction over the cursor, the events and the tables of the engine (\<open>match_db\<close>).
  \<^item> \<open>MatcherLaws\<close>: what a drain adds to the tables, by induction over its loops; \<open>MatcherGuarantees\<close>: the
    properties, the sequences \<open>match_path\<close> of drains and other work, and where the rules part from their
    intent. A drain keeps \<open>engine_ok\<close>, so what the engine promises holds of the runs rules start.

  \<^bold>\<open>State.\<close> The tables the code reaches through \<open>sqlx\<close> are the lists of \<open>iam_db\<close>, \<open>policy_db\<close>, \<open>wf_db\<close>, \<open>bus_db\<close>, \<open>match_db\<close>, \<open>session_db\<close>, \<open>key_db\<close>, \<open>guard_db\<close>, \<open>ip_db\<close> and their like; each
  operation takes the tables and returns the answer and the new tables. Unique indexes, foreign keys
  and cascades the code relies on are written out as the checks and deletions they perform. Time is
  an argument, an instant in UTC. Identifiers a statement generates are arguments (\<open>fresh\<close>); a
  theorem that needs one to be new says so.

  \<^bold>\<open>Bounds.\<close> No definition uses fuel: every loop is a \<open>function\<close> with a termination proof, the walks
  over stored graphs by the set of visited identifiers, the matchers by a lexicographic measure on
  the cursors; the one \<open>while\<close> loop whose end depends on its data, the values of a cron step, is a
  partial function with a theorem that it always returns. A tick runs at most as many steps as its
  configured batch, which is the code's own bound.

  \<^bold>\<open>Interleaving.\<close> A statement, or a transaction, is one step. A claim of the workflow engine and the
  writes that finish it are two, so runners, sweepers and callers interleave between them; one call
  of the tick or the sweep reads one clock. A claim that the sweeper took back counts as lost, as its
  lease intends; \<open>late_retry_blocks_engine\<close> shows what a runner that outlives its lease can do.

  \<^bold>\<open>What is not modelled.\<close> HTTP, SQL text, cryptography (hashes, MACs and the
  secret box are arguments), the administration panel, and the crates that
  move data to and from external services. A database failure is only modelled where the code turns
  a violated constraint into an answer, and where an audit entry of an access rule cannot be written. Of
  the security crate the response headers, the secrets and the posture are left out, and the queries of
  the events; of the identity crate the password hashes and the set-up; of the developer portal the request
  log, the usage counters and the overview.
\<close>

end
